(* ===== verification/Prelude.thy ===== *)
theory Prelude
  imports Main "HOL-Library.Word" "HOL-Library.Sublist" "HOL-Library.Char_ord"
    "HOL-Library.List_Lexorder"
begin

text \<open>
  Shared vocabulary of the development: the Python string and list operations that the
  modelled modules use, with the generic facts about them.

  A Python \<open>str\<close> is modelled by \<open>string\<close> (a list of \<open>char\<close>), each \<open>char\<close> standing for one
  code point below 256. On that range \<open>py_isspace\<close>, \<open>py_lower\<close> and \<open>py_casefold\<close> are
  the tables of CPython; the two code points whose case folding leaves the range or
  changes the length (the micro sign and the sharp s) are described at \<open>casefold_char\<close>.
  A Python slice \<open>xs[a:b]\<close> with \<open>0 \<le> a\<close> is \<open>py_slice a b xs\<close>. Indices that the code
  takes with \<open>find\<close> are options here (\<open>-1\<close> is \<open>None\<close>).
\<close>

named_theorems py_simps \<open>unfolding rules for the Python string operations\<close>

section \<open>Characters and strings\<close>

definition py_isspace :: "char \<Rightarrow> bool" where
  "py_isspace c = (let n = of_char c :: nat in
     (9 \<le> n \<and> n \<le> 13) \<or> (28 \<le> n \<and> n \<le> 32) \<or> n = 133 \<or> n = 160)"

text \<open>\<open>str.lower\<close> on one code point below 256: ASCII capitals, and the Latin-1 capitals
  other than the multiplication sign.\<close>

definition lower_char :: "char \<Rightarrow> char" where
  "lower_char c = (let n = of_char c :: nat in
     if (65 \<le> n \<and> n \<le> 90) \<or> (192 \<le> n \<and> n \<le> 222 \<and> n \<noteq> 215) then char_of (n + 32) else c)"

definition py_lower :: "string \<Rightarrow> string" where
  "py_lower s = map lower_char s"

text \<open>\<open>str.casefold\<close> agrees with \<open>str.lower\<close> below 256 but for two code points: the sharp s
  folds to two letters, and the micro sign folds to a code point outside the range, which
  no modelled comparison can meet; it is kept as itself.\<close>

definition casefold_char :: "char \<Rightarrow> string" where
  "casefold_char c = (if (of_char c :: nat) = 223 then ''ss'' else [lower_char c])"

definition py_casefold :: "string \<Rightarrow> string" where
  "py_casefold s = concat (map casefold_char s)"

definition ascii_alpha :: "char \<Rightarrow> bool" where
  "ascii_alpha c = (let n = of_char c :: nat in (65 \<le> n \<and> n \<le> 90) \<or> (97 \<le> n \<and> n \<le> 122))"

definition ascii_digit :: "char \<Rightarrow> bool" where
  "ascii_digit c = (let n = of_char c :: nat in 48 \<le> n \<and> n \<le> 57)"

definition ascii_alnum :: "char \<Rightarrow> bool" where
  "ascii_alnum c = (ascii_alpha c \<or> ascii_digit c)"

definition ascii_upper_char :: "char \<Rightarrow> char" where
  "ascii_upper_char c = (if 97 \<le> (of_char c :: nat) \<and> (of_char c :: nat) \<le> 122 then char_of ((of_char c :: nat) - 32) else c)"

definition py_lstrip :: "string \<Rightarrow> string" where
  "py_lstrip s = dropWhile py_isspace s"

definition py_rstrip_by :: "(char \<Rightarrow> bool) \<Rightarrow> string \<Rightarrow> string" where
  "py_rstrip_by p s = rev (dropWhile p (rev s))"

definition py_strip :: "string \<Rightarrow> string" where
  "py_strip s = py_rstrip_by py_isspace (py_lstrip s)"

definition starts_with :: "'a list \<Rightarrow> 'a list \<Rightarrow> bool" where
  "starts_with p s = (take (length p) s = p)"

definition ends_with :: "'a list \<Rightarrow> 'a list \<Rightarrow> bool" where
  "ends_with p s = (length p \<le> length s \<and> drop (length s - length p) s = p)"

definition py_slice :: "nat \<Rightarrow> nat \<Rightarrow> 'a list \<Rightarrow> 'a list" where
  "py_slice a b xs = take (b - a) (drop a xs)"

definition replace_char :: "char \<Rightarrow> char \<Rightarrow> string \<Rightarrow> string" where
  "replace_char a b s = map (\<lambda>c. if c = a then b else c) s"

text \<open>\<open>str.find\<close>: the least index at which the needle occurs.\<close>

fun find_sub :: "'a list \<Rightarrow> 'a list \<Rightarrow> nat option" where
  "find_sub p [] = (if p = [] then Some 0 else None)"
| "find_sub p (c # s) = (if starts_with p (c # s) then Some 0 else map_option Suc (find_sub p s))"

definition contains_sub :: "'a list \<Rightarrow> 'a list \<Rightarrow> bool" where
  "contains_sub p s = (find_sub p s \<noteq> None)"

text \<open>\<open>str.split(sep)\<close> and \<open>sep.join\<close> for a one-character separator.\<close>

fun split_on :: "char \<Rightarrow> string \<Rightarrow> string list" where
  "split_on c [] = [[]]"
| "split_on c (x # xs) =
     (if x = c then [] # split_on c xs
      else (case split_on c xs of [] \<Rightarrow> [[x]] | p # ps \<Rightarrow> (x # p) # ps))"

fun join_with :: "char \<Rightarrow> string list \<Rightarrow> string" where
  "join_with c [] = []"
| "join_with c [p] = p"
| "join_with c (p # q # ps) = p @ [c] @ join_with c (q # ps)"

text \<open>Bitwise code equations, so that strings evaluate quickly.\<close>

lemma lower_char_code [code]:
  "lower_char (Char b0 b1 b2 b3 b4 b5 b6 b7) =
     (if b6 \<and> \<not> b5 \<and> (if b7 then \<not> (b4 \<and> b2 \<and> b1 \<and> b0)
        else (b4 \<or> b3 \<or> b2 \<or> b1 \<or> b0) \<and> \<not> (b4 \<and> b3 \<and> (b2 \<or> b1 \<and> b0)))
      then Char b0 b1 b2 b3 b4 True b6 b7 else Char b0 b1 b2 b3 b4 b5 b6 b7)"
  by (cases b0; cases b1; cases b2; cases b3; cases b4; cases b5; cases b6; cases b7;
      simp add: lower_char_def char_of_def Let_def bit_0)

lemma py_isspace_code [code]:
  "py_isspace (Char b0 b1 b2 b3 b4 b5 b6 b7) =
     (\<not> b6 \<and> (if b7 then \<not> b4 \<and> \<not> b3 \<and> \<not> b1 \<and> (b5 \<and> \<not> b2 \<and> \<not> b0 \<or> \<not> b5 \<and> b2 \<and> b0)
        else if b5 then \<not> b4 \<and> \<not> b3 \<and> \<not> b2 \<and> \<not> b1 \<and> \<not> b0
        else b3 \<and> (if b4 then b2 else if b2 then \<not> b1 else b1 \<or> b0)))"
  by (cases b0; cases b1; cases b2; cases b3; cases b4; cases b5; cases b6; cases b7;
      simp add: py_isspace_def Let_def)

section \<open>Raising computations\<close>

text \<open>A computation that may raise has type \<open>'e + 'a\<close>: \<open>Inl\<close> the exception, \<open>Inr\<close> the result.
  \<open>try_bind\<close> runs one after another, the first exception ending the whole.\<close>

definition try_bind :: "'e + 'a \<Rightarrow> ('a \<Rightarrow> 'e + 'b) \<Rightarrow> 'e + 'b" where
  "try_bind x f = (case x of Inl e \<Rightarrow> Inl e | Inr v \<Rightarrow> f v)"

definition raise_if :: "bool \<Rightarrow> 'e \<Rightarrow> 'e + 'a \<Rightarrow> 'e + 'a" where
  "raise_if b e k = (if b then Inl e else k)"

fun try_map :: "('a \<Rightarrow> 'e + 'b) \<Rightarrow> 'a list \<Rightarrow> 'e + 'b list" where
  "try_map f [] = Inr []"
| "try_map f (x # xs) = try_bind (f x) (\<lambda>y. try_bind (try_map f xs) (\<lambda>ys. Inr (y # ys)))"

text \<open>\<open>any(...)\<close> over a raising test: it stops at the first true one.\<close>

fun try_any :: "('a \<Rightarrow> 'e + bool) \<Rightarrow> 'a list \<Rightarrow> 'e + bool" where
  "try_any f [] = Inr False"
| "try_any f (x # xs) = try_bind (f x) (\<lambda>b. if b then Inr True else try_any f xs)"

lemma try_bind_simps [simp]: "try_bind (Inl e) f = Inl e" "try_bind (Inr v) f = f v"
  by (simp_all add: try_bind_def)

lemma try_bind_Inr_iff: "try_bind x f = Inr w \<longleftrightarrow> (\<exists>v. x = Inr v \<and> f v = Inr w)"
  by (cases x) auto

lemma try_bind_Inl_iff: "try_bind x f = Inl e \<longleftrightarrow> x = Inl e \<or> (\<exists>v. x = Inr v \<and> f v = Inl e)"
  by (cases x) auto

lemma raise_if_simps [simp]: "raise_if True e k = Inl e" "raise_if False e k = k"
  by (simp_all add: raise_if_def)

lemma raise_if_Inr_iff: "raise_if b e k = Inr w \<longleftrightarrow> \<not> b \<and> k = Inr w"
  by (simp add: raise_if_def)

lemma try_any_pure: "(\<And>x. x \<in> set xs \<Longrightarrow> f x = Inr (p x)) \<Longrightarrow> try_any f xs = Inr (\<exists>x \<in> set xs. p x)"
  by (induction xs) auto

lemma try_map_pure: "(\<And>x. x \<in> set xs \<Longrightarrow> f x = Inr (g x)) \<Longrightarrow> try_map f xs = Inr (map g xs)"
  by (induction xs) auto

lemma try_map_Inr_iff: "try_map f xs = Inr ys \<longleftrightarrow> list_all2 (\<lambda>x y. f x = Inr y) xs ys"
  by (induction xs arbitrary: ys) (auto simp: try_bind_Inr_iff list_all2_Cons1)

text \<open>The exceptions a computation can raise.\<close>

definition raises_only :: "('e \<Rightarrow> bool) \<Rightarrow> 'e + 'a \<Rightarrow> bool" where
  "raises_only P x \<longleftrightarrow> (\<forall>e. x = Inl e \<longrightarrow> P e)"

lemma raises_only_simps [simp]: "raises_only P (Inr v)" "raises_only P (Inl e) \<longleftrightarrow> P e"
  by (simp_all add: raises_only_def)

lemma raises_onlyI: "(\<And>e. x = Inl e \<Longrightarrow> P e) \<Longrightarrow> raises_only P x"
  by (simp add: raises_only_def)

lemma raises_onlyD: "raises_only P x \<Longrightarrow> x = Inl e \<Longrightarrow> P e"
  by (simp add: raises_only_def)

lemma raises_only_bind:
  "raises_only P x \<Longrightarrow> (\<And>v. x = Inr v \<Longrightarrow> raises_only P (f v)) \<Longrightarrow> raises_only P (try_bind x f)"
  by (cases x) auto

lemma raises_only_if: "(b \<Longrightarrow> raises_only P x) \<Longrightarrow> (\<not> b \<Longrightarrow> raises_only P y) \<Longrightarrow> raises_only P (if b then x else y)"
  by simp

section \<open>Facts\<close>

lemma starts_with_prefix: "starts_with p s \<longleftrightarrow> prefix p s"
  by (auto simp: starts_with_def prefix_def) (metis append_take_drop_id)

lemma starts_with_append [simp]: "starts_with p (p @ s)"
  by (simp add: starts_with_def)

lemma starts_with_refl [simp]: "starts_with s s"
  by (simp add: starts_with_def)

lemma starts_with_Nil [simp]: "starts_with [] s"
  by (simp add: starts_with_def)

lemma starts_with_empty [simp]: "starts_with p [] \<longleftrightarrow> p = []"
  by (auto simp: starts_with_def)

lemma set_dropWhile_subset: "set (dropWhile P xs) \<subseteq> set xs"
  by (auto dest: set_dropWhileD)

lemma set_py_rstrip_by: "set (py_rstrip_by p s) \<subseteq> set s"
  using set_dropWhile_subset [of p "rev s"] by (simp add: py_rstrip_by_def)

lemma ends_with_suffix: "ends_with p s \<longleftrightarrow> suffix p s"
  by (auto simp: ends_with_def suffix_def) (metis append_take_drop_id)

lemma find_sub_SomeD: "find_sub p s = Some i \<Longrightarrow> i \<le> length s \<and> starts_with p (drop i s)"
  by (induction p s arbitrary: i rule: find_sub.induct) (auto split: if_splits)

lemma find_sub_least: "find_sub p s = Some i \<Longrightarrow> j < i \<Longrightarrow> \<not> starts_with p (drop j s)"
  by (induction p s arbitrary: i j rule: find_sub.induct)
     (auto split: if_splits simp: drop_Cons' gr0_conv_Suc less_Suc_eq_0_disj)

lemma find_sub_NoneD: "find_sub p s = None \<Longrightarrow> j \<le> length s \<Longrightarrow> \<not> starts_with p (drop j s)"
proof (induction p s arbitrary: j rule: find_sub.induct)
  case (1 p)
  then show ?case by (auto simp: starts_with_def split: if_splits)
next
  case (2 p c s)
  then show ?case by (cases j) (auto split: if_splits)
qed

lemma find_sub_None_iff: "find_sub p s = None \<longleftrightarrow> \<not> sublist p s"
proof
  assume none: "find_sub p s = None"
  show "\<not> sublist p s"
  proof
    assume "sublist p s"
    then obtain us vs where s: "s = us @ p @ vs" by (auto simp: sublist_def)
    have "\<not> starts_with p (drop (length us) s)"
      using none by (rule find_sub_NoneD) (simp add: s)
    then show False by (simp add: s)
  qed
next
  assume ns: "\<not> sublist p s"
  show "find_sub p s = None"
  proof (rule ccontr)
    assume "find_sub p s \<noteq> None"
    then obtain i where "find_sub p s = Some i" by auto
    then have "starts_with p (drop i s)" by (simp add: find_sub_SomeD)
    then have "prefix p (drop i s)" by (simp add: starts_with_prefix)
    then obtain zs where "drop i s = p @ zs" by (auto simp: prefix_def)
    then have "s = take i s @ p @ zs" by (metis append_take_drop_id)
    with ns show False by (auto simp: sublist_def)
  qed
qed

lemma find_sub_length:
  assumes "find_sub p s = Some i"
  shows "i + length p \<le> length s"
proof -
  from assms have "i \<le> length s" and "prefix p (drop i s)"
    by (simp_all add: find_sub_SomeD flip: starts_with_prefix)
  then show ?thesis by (auto dest: prefix_length_le)
qed

lemma length_py_lower [simp]: "length (py_lower s) = length s"
  by (simp add: py_lower_def)

lemma py_lower_append [simp]: "py_lower (s @ t) = py_lower s @ py_lower t"
  by (simp add: py_lower_def)

lemma split_on_nonempty [simp]: "split_on c s \<noteq> []"
  by (induction c s rule: split_on.induct) (auto split: list.splits)

lemma join_split [simp]: "join_with c (split_on c s) = s"
proof (induction s)
  case Nil
  then show ?case by simp
next
  case (Cons x xs)
  obtain p ps where ps: "split_on c xs = p # ps"
    using split_on_nonempty by (metis neq_Nil_conv)
  with Cons show ?case by (cases ps) auto
qed

lemma py_slice_full: "py_slice 0 (length xs) xs = xs"
  by (simp add: py_slice_def)

lemma py_slice_append:
  assumes "a \<le> b" and "b \<le> c"
  shows "py_slice a b xs @ py_slice b c xs = py_slice a c xs"
proof -
  have "take (c - a) (drop a xs) = take (b - a) (drop a xs) @ take (c - b) (drop (b - a) (drop a xs))"
    using assms by (metis add_diff_cancel_left' add_diff_inverse_nat diff_diff_eq diff_le_mono
        le_add_diff_inverse linorder_not_less take_add)
  then show ?thesis using assms by (simp add: py_slice_def)
qed

lemma length_py_slice [simp]: "length (py_slice a b xs) = min (b - a) (length xs - a)"
  by (simp add: py_slice_def min.commute)

lemma py_slice_to_end: "length xs \<le> b \<Longrightarrow> py_slice a b xs = drop a xs"
  by (simp add: py_slice_def)

end
