(* ===== verification/LoopDetector.thy ===== *)
theory LoopDetector
  imports Prelude
begin

text \<open>
  \<open>jack_loop_detector.py\<close>: the incremental monitor that stops a generation whose native
  reasoning repeats an exact cycle of words. The state is the record \<open>loop_detector\<close>
  (one field per attribute of \<open>ReasoningLoopDetector\<close>); \<open>range_hash\<close>, \<open>record_word\<close>,
  \<open>check_suffix\<close> and \<open>feed\<close> are its methods. The 64-bit arithmetic under \<open>_MASK\<close> is
  arithmetic on \<open>64 word\<close>. The 8-byte digest of a word, read as an integer, is the
  parameter \<open>h\<close>: nothing is assumed of it, so collisions are allowed everywhere.

  The lemmas show that the fingerprint filter neither adds nor loses a detection
  (\<open>check_suffix\<close> computes the specification \<open>least_cycle\<close>, which mentions no hash) and
  that the words recorded do not depend on how the transport cut the text.
\<close>

section \<open>State and operations\<close>

record loop_detector =
  ld_repetitions :: nat
  ld_min_cycle_words :: nat
  ld_max_cycle_words :: nat
  ld_words :: "string list"
  ld_prefix :: "64 word list"
  ld_powers :: "64 word list"
  ld_tail :: string
  ld_detected :: "nat option"

definition LOOP_THRESHOLDS :: "nat list" where
  "LOOP_THRESHOLDS = [16, 32, 48, 64, 128]"

definition MIN_CYCLE_WORDS :: nat where
  "MIN_CYCLE_WORDS = 128"

definition MAX_CYCLE_WORDS :: nat where
  "MAX_CYCLE_WORDS = 2048"

definition BASE :: "64 word" where
  "BASE = 0x100000001B3"

definition build_powers :: "nat \<Rightarrow> 64 word list" where
  "build_powers n = foldl (\<lambda>ps _. ps @ [last ps * BASE]) [1] [0..<n]"

text \<open>The constructor. The parameters are the caller's integers; the error is the text of
  the \<open>ValueError\<close>.\<close>

definition new_detector :: "int \<Rightarrow> int \<Rightarrow> int \<Rightarrow> string + loop_detector" where
  "new_detector reps mn mx =
     (if reps \<notin> int ` set LOOP_THRESHOLDS
      then Inl ''loop repetitions must be one of 16, 32, 48, 64, 128''
      else if mn < int MIN_CYCLE_WORDS then Inl ''minimum cycle must be at least 128 words''
      else if mx < mn then Inl ''maximum cycle shorter than minimum''
      else Inr \<lparr>ld_repetitions = nat reps, ld_min_cycle_words = nat mn,
                ld_max_cycle_words = nat mx, ld_words = [], ld_prefix = [0],
                ld_powers = build_powers (nat mx), ld_tail = [], ld_detected = None\<rparr>)"

definition range_hash :: "loop_detector \<Rightarrow> nat \<Rightarrow> nat \<Rightarrow> 64 word" where
  "range_hash d i j = ld_prefix d ! j - ld_prefix d ! i * ld_powers d ! (j - i)"

definition append_hash :: "(string \<Rightarrow> 64 word) \<Rightarrow> 64 word list \<Rightarrow> string \<Rightarrow> 64 word list" where
  "append_hash h ps w = ps @ [last ps * BASE + h w + 1]"

definition record_word :: "(string \<Rightarrow> 64 word) \<Rightarrow> string \<Rightarrow> loop_detector \<Rightarrow> loop_detector" where
  "record_word h w d =
     (let ws = ld_words d @ [w];
          ps = append_hash h (ld_prefix d) w;
          keep = ld_max_cycle_words d * Max (set LOOP_THRESHOLDS) + 1024
      in if length ws > keep + 4096
         then let ws' = drop (length ws - keep) ws
              in d\<lparr>ld_words := ws', ld_prefix := foldl (append_hash h) [0] ws'\<rparr>
         else d\<lparr>ld_words := ws, ld_prefix := ps\<rparr>)"

text \<open>The body of the loop over candidate widths: the fingerprints of the last two blocks,
  then the comparison of every block with the last one, word by word.\<close>

definition same_fingerprint :: "loop_detector \<Rightarrow> nat \<Rightarrow> bool" where
  "same_fingerprint d width = (let count = length (ld_words d) in
     range_hash d (count - width) count = range_hash d (count - 2 * width) (count - width))"

definition exact_blocks :: "loop_detector \<Rightarrow> nat \<Rightarrow> bool" where
  "exact_blocks d width = (let count = length (ld_words d);
       tl = py_slice (count - width) count (ld_words d)
     in list_all (\<lambda>repeat. py_slice (count - repeat * width) (count - (repeat - 1) * width)
                              (ld_words d) = tl)
          [2..<ld_repetitions d + 1])"

definition check_suffix :: "loop_detector \<Rightarrow> bool \<times> loop_detector" where
  "check_suffix d =
     (let count = length (ld_words d);
          upper = min (ld_max_cycle_words d) (count div ld_repetitions d)
      in if upper < ld_min_cycle_words d then (False, d)
         else if count mod 16 \<noteq> 0 then (False, d)
         else (case find (\<lambda>width. same_fingerprint d width \<and> exact_blocks d width)
                      [ld_min_cycle_words d..<upper + 1] of
                 None \<Rightarrow> (False, d)
               | Some width \<Rightarrow> (True, d\<lparr>ld_detected := Some width\<rparr>)))"

text \<open>One match of \<open>_COMPLETE_WORD\<close> (non-space characters, then at least one space), with
  the text after it. The expression is greedy and the search skips leading spaces.\<close>

definition next_word :: "string \<Rightarrow> (string \<times> string) option" where
  "next_word s =
     (let s1 = dropWhile py_isspace s;
          w = takeWhile (\<lambda>c. \<not> py_isspace c) s1;
          r = dropWhile (\<lambda>c. \<not> py_isspace c) s1
      in if w = [] \<or> r = [] then None else Some (w, dropWhile py_isspace r))"

lemma next_word_shorter: "next_word s = Some (w, r) \<Longrightarrow> length r < length s"
proof -
  assume a: "next_word s = Some (w, r)"
  let ?s1 = "dropWhile py_isspace s"
  have r: "r = dropWhile py_isspace (dropWhile (\<lambda>c. \<not> py_isspace c) ?s1)"
    and w: "takeWhile (\<lambda>c. \<not> py_isspace c) ?s1 \<noteq> []"
    using a by (auto simp: next_word_def Let_def split: if_splits)
  have "length (takeWhile (\<lambda>c. \<not> py_isspace c) ?s1) + length (dropWhile (\<lambda>c. \<not> py_isspace c) ?s1)
      = length ?s1"
    by (metis length_append takeWhile_dropWhile_id)
  moreover have "length (takeWhile (\<lambda>c. \<not> py_isspace c) ?s1) > 0" using w by simp
  moreover have "length r \<le> length (dropWhile (\<lambda>c. \<not> py_isspace c) ?s1)"
    unfolding r by (rule length_dropWhile_le)
  moreover have "length ?s1 \<le> length s" by (rule length_dropWhile_le)
  ultimately show ?thesis by linarith
qed

text \<open>The loop over the matches: whether it stopped on a detection, the state, and the text
  after the last match (\<open>combined[last:]\<close>).\<close>

function scan_words :: "(string \<Rightarrow> 64 word) \<Rightarrow> loop_detector \<Rightarrow> string \<Rightarrow> bool \<times> loop_detector \<times> string" where
  "scan_words h d s =
     (case next_word s of
        None \<Rightarrow> (False, d, s)
      | Some (w, r) \<Rightarrow>
          (case check_suffix (record_word h w d) of
             (True, d') \<Rightarrow> (True, d', r)
           | (False, d') \<Rightarrow> scan_words h d' r))"
  by pat_completeness auto
termination
  by (relation "measure (\<lambda>(h, d, s). length s)") (auto dest: next_word_shorter)

declare scan_words.simps [simp del]

definition TAIL_CAP :: nat where
  "TAIL_CAP = 131072"

definition feed :: "(string \<Rightarrow> 64 word) \<Rightarrow> loop_detector \<Rightarrow> string \<Rightarrow> bool \<times> loop_detector" where
  "feed h d text =
     (if ld_detected d \<noteq> None then (True, d)
      else if text = [] then (False, d)
      else (case scan_words h d (ld_tail d @ text) of
              (True, d', rest) \<Rightarrow> (True, d'\<lparr>ld_tail := rest\<rparr>)
            | (False, d', rest) \<Rightarrow>
                (False, d'\<lparr>ld_tail := (if length rest > TAIL_CAP then [] else rest)\<rparr>)))"

text \<open>A generation feeds its chunks one after the other.\<close>

definition feed_all :: "(string \<Rightarrow> 64 word) \<Rightarrow> loop_detector \<Rightarrow> string list \<Rightarrow> loop_detector" where
  "feed_all h d chunks = foldl (\<lambda>d c. snd (feed h d c)) d chunks"

section \<open>Fingerprints of slices\<close>

definition phash :: "(string \<Rightarrow> 64 word) \<Rightarrow> string list \<Rightarrow> 64 word" where
  "phash h ws = foldl (\<lambda>a w. a * BASE + h w + 1) 0 ws"

lemma phash_Nil [simp]: "phash h [] = 0"
  by (simp add: phash_def)

lemma phash_snoc [simp]: "phash h (ws @ [w]) = phash h ws * BASE + h w + 1"
  by (simp add: phash_def)

lemma phash_append: "phash h (us @ ws) = phash h us * BASE ^ length ws + phash h ws"
proof (induction ws rule: rev_induct)
  case Nil
  then show ?case by simp
next
  case (snoc w ws)
  have "phash h (us @ ws @ [w]) = phash h ((us @ ws) @ [w])" by simp
  also have "\<dots> = phash h (us @ ws) * BASE + h w + 1" by (rule phash_snoc)
  finally show ?case by (simp add: snoc algebra_simps)
qed

definition prefix_table :: "(string \<Rightarrow> 64 word) \<Rightarrow> string list \<Rightarrow> 64 word list" where
  "prefix_table h ws = map (\<lambda>i. phash h (take i ws)) [0..<Suc (length ws)]"

lemma last_prefix_table [simp]: "last (prefix_table h ws) = phash h ws"
  by (simp add: prefix_table_def)

lemma append_hash_table: "append_hash h (prefix_table h ws) w = prefix_table h (ws @ [w])"
proof -
  have "map (\<lambda>i. phash h (take i (ws @ [w]))) [0..<Suc (length ws)]
      = map (\<lambda>i. phash h (take i ws)) [0..<Suc (length ws)]"
    by (rule map_cong) auto
  then show ?thesis
    by (simp add: append_hash_def prefix_table_def phash_snoc)
qed

lemma foldl_append_hash: "foldl (append_hash h) [0] ws = prefix_table h ws"
proof (induction ws rule: rev_induct)
  case Nil
  then show ?case by (simp add: prefix_table_def)
next
  case (snoc w ws)
  then show ?case by (simp add: append_hash_table)
qed

lemma build_powers_eq: "build_powers n = map (\<lambda>i. BASE ^ i) [0..<Suc n]"
  by (induction n) (simp_all add: build_powers_def)

section \<open>The invariant of the detector\<close>

definition detector_inv :: "(string \<Rightarrow> 64 word) \<Rightarrow> loop_detector \<Rightarrow> bool" where
  "detector_inv h d \<longleftrightarrow>
     ld_prefix d = prefix_table h (ld_words d)
   \<and> ld_powers d = map (\<lambda>i. BASE ^ i) [0..<Suc (ld_max_cycle_words d)]
   \<and> ld_repetitions d \<in> set LOOP_THRESHOLDS
   \<and> MIN_CYCLE_WORDS \<le> ld_min_cycle_words d
   \<and> ld_min_cycle_words d \<le> ld_max_cycle_words d
   \<and> length (ld_words d) \<le> ld_max_cycle_words d * 128 + 1024 + 4096"

lemma Max_LOOP_THRESHOLDS [simp]: "Max (set LOOP_THRESHOLDS) = 128"
  by (simp add: LOOP_THRESHOLDS_def)

lemma repetitions_bounds:
  "detector_inv h d \<Longrightarrow> 16 \<le> ld_repetitions d \<and> ld_repetitions d \<le> 128"
  by (auto simp: detector_inv_def LOOP_THRESHOLDS_def)

lemma detector_inv_new:
  "new_detector reps mn mx = Inr d \<Longrightarrow> detector_inv h d"
  by (auto simp: new_detector_def detector_inv_def prefix_table_def build_powers_eq
      MIN_CYCLE_WORDS_def LOOP_THRESHOLDS_def split: if_splits)

lemma detector_inv_record:
  assumes "detector_inv h d"
  shows "detector_inv h (record_word h w d)"
proof -
  let ?ws = "ld_words d @ [w]"
  let ?keep = "ld_max_cycle_words d * 128 + 1024"
  have "ld_prefix d = prefix_table h (ld_words d)"
    using assms by (simp add: detector_inv_def)
  then have "append_hash h (ld_prefix d) w = prefix_table h ?ws"
    by (simp add: append_hash_table)
  then show ?thesis
    using assms
    by (auto simp: detector_inv_def record_word_def Let_def foldl_append_hash)
qed

lemma detector_inv_detected: "detector_inv h (d\<lparr>ld_detected := x\<rparr>) = detector_inv h d"
  by (simp add: detector_inv_def)

lemma detector_inv_tail: "detector_inv h (d\<lparr>ld_tail := x\<rparr>) = detector_inv h d"
  by (simp add: detector_inv_def)

lemma prefix_table_nth: "i \<le> length ws \<Longrightarrow> prefix_table h ws ! i = phash h (take i ws)"
  by (simp add: prefix_table_def nth_append del: upt_Suc)

text \<open>The fingerprint of a range is the fingerprint of the words in it, wherever they stand.\<close>

lemma range_hash_slice:
  assumes "detector_inv h d" and "i \<le> j" and "j \<le> length (ld_words d)"
    and "j - i \<le> ld_max_cycle_words d"
  shows "range_hash d i j = phash h (py_slice i j (ld_words d))"
proof -
  let ?ws = "ld_words d"
  have split: "take j ?ws = take i ?ws @ py_slice i j ?ws"
    using assms(2) by (metis le_add_diff_inverse py_slice_def take_add)
  have len: "length (py_slice i j ?ws) = j - i" using assms(2,3) by simp
  have pow: "ld_powers d ! (j - i) = BASE ^ (j - i)"
    using assms(1,4) by (simp add: detector_inv_def del: upt_Suc)
  have "ld_prefix d ! j = phash h (take j ?ws)" and "ld_prefix d ! i = phash h (take i ?ws)"
    using assms by (simp_all add: detector_inv_def prefix_table_nth)
  moreover have "phash h (take j ?ws)
      = phash h (take i ?ws) * BASE ^ (j - i) + phash h (py_slice i j ?ws)"
    by (simp only: split phash_append len)
  ultimately show ?thesis by (simp add: range_hash_def pow)
qed

section \<open>Exact repetition\<close>

text \<open>\<open>repeats ws n w\<close>: the last \<open>n * w\<close> words of \<open>ws\<close> are \<open>n\<close> copies of its last \<open>w\<close> words.\<close>

definition repeats :: "'a list \<Rightarrow> nat \<Rightarrow> nat \<Rightarrow> bool" where
  "repeats ws n w \<longleftrightarrow> n * w \<le> length ws \<and>
     drop (length ws - n * w) ws = concat (replicate n (drop (length ws - w) ws))"

lemma length_concat_replicate [simp]: "length (concat (replicate n xs)) = n * length xs"
  by (induction n) auto

lemma drop_concat_replicate:
  "k \<le> n \<Longrightarrow> drop ((n - k) * length xs) (concat (replicate n xs)) = concat (replicate k xs)"
proof -
  assume "k \<le> n"
  then have "replicate n xs = replicate (n - k) xs @ replicate k xs"
    by (metis le_add_diff_inverse2 replicate_add)
  then have "concat (replicate n xs) = concat (replicate (n - k) xs) @ concat (replicate k xs)"
    by simp
  then show ?thesis by simp
qed

lemma repeats_block:
  assumes "repeats ws n w" and "1 \<le> k" and "k \<le> n"
  shows "py_slice (length ws - k * w) (length ws - (k - 1) * w) ws = drop (length ws - w) ws"
proof -
  let ?c = "length ws" and ?b = "drop (length ws - w) ws"
  have nw: "n * w \<le> ?c" and eq: "drop (?c - n * w) ws = concat (replicate n ?b)"
    using assms(1) by (auto simp: repeats_def)
  have kw: "k * w \<le> n * w" using assms(3) by simp
  have "w \<le> k * w" using assms(2) by (cases k) auto
  then have "w \<le> ?c" using kw nw by linarith
  then have lb: "length ?b = w" by simp
  have "drop (?c - k * w) ws = drop ((n - k) * w) (drop (?c - n * w) ws)"
    using nw kw assms(3) by (simp add: diff_mult_distrib)
  also have "\<dots> = concat (replicate k ?b)"
    unfolding eq using drop_concat_replicate [OF assms(3), of ?b, unfolded lb] .
  finally have d: "drop (?c - k * w) ws = concat (replicate k ?b)" .
  obtain k' where k: "k = Suc k'" using assms(2) by (cases k) auto
  have "?c - (k - 1) * w - (?c - k * w) = w" using kw nw k by simp
  then show ?thesis
    using lb by (simp only: py_slice_def d) (simp add: k)
qed

lemma blocks_repeat:
  assumes "n * w \<le> length ws" and "1 \<le> n"
    and "\<And>k. 2 \<le> k \<Longrightarrow> k \<le> n \<Longrightarrow>
      py_slice (length ws - k * w) (length ws - (k - 1) * w) ws = drop (length ws - w) ws"
  shows "repeats ws n w"
  using assms
proof (induction n)
  case 0
  then show ?case by simp
next
  case (Suc n)
  show ?case
  proof (cases "n = 0")
    case True
    with Suc.prems(1) show ?thesis by (simp add: repeats_def)
  next
    case False
    let ?c = "length ws"
    have IH: "repeats ws n w"
      using Suc.IH Suc.prems False by auto
    have block: "py_slice (?c - Suc n * w) (?c - n * w) ws = drop (?c - w) ws"
      using Suc.prems(3) [of "Suc n"] False by simp
    have "drop (?c - Suc n * w) ws
        = py_slice (?c - Suc n * w) (?c - n * w) ws @ drop (?c - n * w) ws"
      using py_slice_append [of "?c - Suc n * w" "?c - n * w" ?c ws]
      by (simp add: py_slice_to_end)
    also have "\<dots> = drop (?c - w) ws @ concat (replicate n (drop (?c - w) ws))"
      using block IH by (simp add: repeats_def)
    finally show ?thesis using Suc.prems(1) by (simp add: repeats_def)
  qed
qed

section \<open>The check against its specification\<close>

text \<open>The specification of a check: the least width in the configured range whose last
  \<open>ld_repetitions\<close> blocks are equal, examined at every sixteenth word. It mentions no
  fingerprint.\<close>

definition least_cycle :: "loop_detector \<Rightarrow> nat option" where
  "least_cycle d =
     (if length (ld_words d) mod 16 \<noteq> 0 then None
      else find (repeats (ld_words d) (ld_repetitions d))
             [ld_min_cycle_words d..<ld_max_cycle_words d + 1])"

lemma exact_blocks_repeats:
  assumes "2 \<le> ld_repetitions d" and "ld_repetitions d * w \<le> length (ld_words d)"
  shows "exact_blocks d w \<longleftrightarrow> repeats (ld_words d) (ld_repetitions d) w"
proof
  let ?ws = "ld_words d"
  have tl: "py_slice (length ?ws - w) (length ?ws) ?ws = drop (length ?ws - w) ?ws"
    by (simp add: py_slice_to_end)
  show "repeats ?ws (ld_repetitions d) w" if "exact_blocks d w"
    using that assms
    by (intro blocks_repeat) (auto simp: exact_blocks_def Let_def tl list_all_iff)
  show "exact_blocks d w" if "repeats ?ws (ld_repetitions d) w"
    using repeats_block [OF that]
    by (auto simp: exact_blocks_def Let_def tl list_all_iff)
qed

lemma repeats_same_fingerprint:
  assumes inv: "detector_inv h d" and rep: "repeats (ld_words d) (ld_repetitions d) w"
    and w: "w \<le> ld_max_cycle_words d"
  shows "same_fingerprint d w"
proof -
  let ?ws = "ld_words d" and ?c = "length (ld_words d)"
  have n: "2 \<le> ld_repetitions d" using repetitions_bounds [OF inv] by simp
  have "2 * w \<le> ld_repetitions d * w" using n by (rule mult_le_mono1)
  moreover have "ld_repetitions d * w \<le> ?c" using rep by (simp add: repeats_def)
  ultimately have c: "2 * w \<le> ?c" by linarith
  have "py_slice (?c - 2 * w) (?c - w) ?ws = py_slice (?c - w) ?c ?ws"
    using repeats_block [OF rep, of 2] n by (simp add: py_slice_to_end)
  then have "range_hash d (?c - 2 * w) (?c - w) = range_hash d (?c - w) ?c"
    using range_hash_slice [OF inv, of "?c - 2 * w" "?c - w"]
      range_hash_slice [OF inv, of "?c - w" ?c] c w by simp
  then show ?thesis by (simp add: same_fingerprint_def Let_def)
qed

lemma find_cong_list: "(\<And>x. x \<in> set xs \<Longrightarrow> P x = Q x) \<Longrightarrow> find P xs = find Q xs"
  by (induction xs) auto

lemma find_append: "find P (xs @ ys) = (case find P xs of None \<Rightarrow> find P ys | Some x \<Rightarrow> Some x)"
  by (induction xs) auto

lemma find_repeats_upper:
  assumes "0 < n" and "u = min mx (length ws div n)"
  shows "find (repeats ws n) [a..<u + 1] = find (repeats ws n) [a..<mx + 1]"
proof (cases "a \<le> u + 1")
  case True
  have "u \<le> mx" using assms(2) by simp
  then have split: "[a..<mx + 1] = [a..<u + 1] @ [u + 1..<mx + 1]"
    using True by (metis add_le_mono1 le_add_diff_inverse upt_add_eq_append)
  have "\<not> repeats ws n w" if "w \<in> set [u + 1..<mx + 1]" for w
  proof -
    from that have "length ws div n < w" using assms(2) by auto
    then have "length ws < w * n" using assms(1) by (simp add: div_less_iff_less_mult)
    then show ?thesis by (simp add: repeats_def mult.commute)
  qed
  then have "find (repeats ws n) [u + 1..<mx + 1] = None"
    by (subst find_None_iff) blast
  then show ?thesis
    unfolding split find_append by (simp del: upt_Suc Suc_eq_plus1 add: option.case_eq_if)
next
  case False
  have "\<not> repeats ws n w" if "w \<in> set [a..<mx + 1]" for w
  proof -
    from that False have "length ws div n < w" using assms(2) by auto
    then have "length ws < w * n" using assms(1) by (simp add: div_less_iff_less_mult)
    then show ?thesis by (simp add: repeats_def mult.commute)
  qed
  then have "find (repeats ws n) [a..<mx + 1] = None"
    by (subst find_None_iff) blast
  with False show ?thesis by simp
qed

lemma check_suffix_spec:
  assumes inv: "detector_inv h d"
  shows "check_suffix d = (case least_cycle d of None \<Rightarrow> (False, d)
           | Some w \<Rightarrow> (True, d\<lparr>ld_detected := Some w\<rparr>))"
proof -
  let ?ws = "ld_words d" and ?n = "ld_repetitions d"
  let ?u = "min (ld_max_cycle_words d) (length ?ws div ?n)"
  have n: "0 < ?n" "2 \<le> ?n" using repetitions_bounds [OF inv] by auto
  have body: "(same_fingerprint d w \<and> exact_blocks d w) = repeats ?ws ?n w"
    if "w \<in> set [ld_min_cycle_words d..<?u + 1]" for w
  proof -
    from that have "w \<le> length ?ws div ?n" and w: "w \<le> ld_max_cycle_words d" by auto
    then have "?n * w \<le> length ?ws" using n(1)
      by (metis less_eq_div_iff_mult_less_eq mult.commute)
    with n(2) have "exact_blocks d w = repeats ?ws ?n w" by (rule exact_blocks_repeats)
    then show ?thesis using repeats_same_fingerprint [OF inv _ w] by auto
  qed
  have fnd: "find (\<lambda>w. same_fingerprint d w \<and> exact_blocks d w) [ld_min_cycle_words d..<?u + 1]
      = find (repeats ?ws ?n) [ld_min_cycle_words d..<ld_max_cycle_words d + 1]"
    by (rule trans [OF find_cong_list find_repeats_upper [OF n(1) refl]]) (rule body)
  show ?thesis
  proof (cases "?u < ld_min_cycle_words d")
    case True
    then have "[ld_min_cycle_words d..<?u + 1] = []" by (auto simp: not_le min_def split: if_splits)
    then have "find (repeats ?ws ?n) [ld_min_cycle_words d..<ld_max_cycle_words d + 1] = None"
      using fnd by (metis find.simps(1))
    with True show ?thesis by (simp add: check_suffix_def Let_def least_cycle_def del: upt_Suc)
  next
    case False
    then show ?thesis
      by (simp only: check_suffix_def Let_def least_cycle_def fnd if_False split: if_split) simp
  qed
qed

section \<open>Feeding text\<close>

lemma next_word_append:
  assumes "next_word s = Some (w, r)"
  shows "next_word (s @ t) =
    Some (w, if r = [] then dropWhile py_isspace t else r @ t)"
proof -
  let ?s1 = "dropWhile py_isspace s" and ?ns = "\<lambda>c. \<not> py_isspace c"
  let ?r1 = "dropWhile ?ns ?s1"
  have w: "w = takeWhile ?ns ?s1" "w \<noteq> []" and r1: "?r1 \<noteq> []" and r: "r = dropWhile py_isspace ?r1"
    using assms by (auto simp: next_word_def Let_def split: if_splits)
  have s1: "dropWhile py_isspace (s @ t) = ?s1 @ t"
    using w(2) unfolding w(1) by (auto simp: dropWhile_append simp flip: dropWhile_eq_Nil_conv)
  have r1t: "dropWhile ?ns (?s1 @ t) = ?r1 @ t"
    using r1 by (auto simp: dropWhile_append)
  have wt: "takeWhile ?ns (?s1 @ t) = w"
    using r1 unfolding w(1) by (auto simp: takeWhile_append dropWhile_eq_Nil_conv)
  have "dropWhile py_isspace (?r1 @ t) = (if r = [] then dropWhile py_isspace t else r @ t)"
    unfolding r by (auto simp: dropWhile_append)
  then show ?thesis
    using w(2) r1 by (simp only: next_word_def Let_def s1 r1t wt) simp
qed

lemma next_word_dropWhile: "next_word (dropWhile py_isspace t) = next_word t"
proof -
  have "dropWhile py_isspace (dropWhile py_isspace t) = dropWhile py_isspace t"
    by (metis dropWhile_idem)
  then show ?thesis by (simp add: next_word_def)
qed

lemma next_word_lstrip:
  "dropWhile py_isspace s = dropWhile py_isspace t \<Longrightarrow> next_word s = next_word t"
  by (simp add: next_word_def)

text \<open>Two scans agree when they stop alike in the same state and their remaining texts are
  equal up to leading white space (which the next search skips).\<close>

definition scan_eq :: "bool \<times> loop_detector \<times> string \<Rightarrow> bool \<times> loop_detector \<times> string \<Rightarrow> bool" where
  "scan_eq x y \<longleftrightarrow> fst x = fst y \<and> fst (snd x) = fst (snd y) \<and>
     (fst x \<or> dropWhile py_isspace (snd (snd x)) = dropWhile py_isspace (snd (snd y)))"

lemma scan_eq_refl [simp]: "scan_eq x x"
  by (simp add: scan_eq_def)

lemma scan_words_lstrip:
  assumes "dropWhile py_isspace s = dropWhile py_isspace t"
  shows "scan_eq (scan_words h d s) (scan_words h d t)"
  using next_word_lstrip [OF assms] assms
  by (subst (1 2) scan_words.simps) (auto simp: scan_eq_def split: option.splits)

lemma scan_words_append:
  "case scan_words h d s of (b, d', r) \<Rightarrow>
     if b then fst (scan_words h d (s @ t)) \<and> fst (snd (scan_words h d (s @ t))) = d'
     else scan_eq (scan_words h d' (r @ t)) (scan_words h d (s @ t))"
proof (induction h d s rule: scan_words.induct)
  case (1 h d s)
  show ?case
  proof (cases "next_word s")
    case None
    then show ?thesis by (simp add: scan_words.simps [of h d s])
  next
    case (Some wr)
    obtain w r where wr: "wr = (w, r)" by force
    obtain b d' where c: "check_suffix (record_word h w d) = (b, d')" by force
    let ?r = "if r = [] then dropWhile py_isspace t else r @ t"
    have nw: "next_word (s @ t) = Some (w, ?r)"
      using next_word_append Some wr by simp
    show ?thesis
    proof (cases b)
      case True
      with Some wr c nw show ?thesis
        by (simp add: scan_words.simps [of h d s] scan_words.simps [of h d "s @ t"])
    next
      case False
      have e: "scan_words h d s = scan_words h d' r"
        using Some wr c False by (simp add: scan_words.simps [of h d s])
      have f: "scan_words h d (s @ t) = scan_words h d' ?r"
        using nw c False by (simp add: scan_words.simps [of h d "s @ t"])
      show ?thesis
      proof (cases "r = []")
        case True
        have "scan_words h d' [] = (False, d', [])"
          by (simp add: scan_words.simps [of h d' "[]"] next_word_def)
        with e f True show ?thesis
          using scan_words_lstrip [of t "dropWhile py_isspace t" h d'] by simp
      next
        case r: False
        have "case scan_words h d' r of (b, d'', r') \<Rightarrow>
            if b then fst (scan_words h d' (r @ t)) \<and> fst (snd (scan_words h d' (r @ t))) = d''
            else scan_eq (scan_words h d'' (r' @ t)) (scan_words h d' (r @ t))"
          using 1 [OF Some wr [symmetric] c [symmetric]] False c by simp
        with e f r show ?thesis by (simp split: prod.splits)
      qed
    qed
  qed
qed

lemma scan_words_rest_length:
  "scan_words h d s = (b, d', r) \<Longrightarrow> length r \<le> length s"
proof (induction h d s rule: scan_words.induct)
  case (1 h d s)
  show ?case
  proof (cases "next_word s")
    case None
    with 1 show ?thesis by (simp add: scan_words.simps [of h d s])
  next
    case (Some wr)
    obtain w r' where wr: "wr = (w, r')" by force
    obtain c d'' where c: "check_suffix (record_word h w d) = (c, d'')" by force
    have lt: "length r' < length s" using Some wr by (simp add: next_word_shorter)
    show ?thesis
    proof (cases c)
      case True
      with 1 Some wr c lt show ?thesis by (simp add: scan_words.simps [of h d s])
    next
      case False
      then have "scan_words h d'' r' = (b, d', r)"
        using 1 Some wr c by (simp add: scan_words.simps [of h d s])
      then have "length r \<le> length r'"
        using 1 (1) [OF Some wr [symmetric] c [symmetric]] False by simp
      with lt show ?thesis by simp
    qed
  qed
qed

lemma check_suffix_detected:
  "check_suffix d = (b, d') \<Longrightarrow> ld_detected d = None \<Longrightarrow> b = (ld_detected d' \<noteq> None)"
  by (auto simp: check_suffix_def Let_def split: if_splits option.splits)

lemma record_word_detected [simp]: "ld_detected (record_word h w d) = ld_detected d"
  by (simp add: record_word_def Let_def)

lemma scan_words_detected:
  "scan_words h d s = (b, d', r) \<Longrightarrow> ld_detected d = None \<Longrightarrow> b = (ld_detected d' \<noteq> None)"
proof (induction h d s rule: scan_words.induct)
  case (1 h d s)
  show ?case
  proof (cases "next_word s")
    case None
    with 1 show ?thesis by (simp add: scan_words.simps [of h d s])
  next
    case (Some wr)
    obtain w r' where wr: "wr = (w, r')" by force
    obtain c d'' where c: "check_suffix (record_word h w d) = (c, d'')" by force
    have cd: "c = (ld_detected d'' \<noteq> None)"
      using check_suffix_detected [OF c] 1 (3) by simp
    show ?thesis
    proof (cases c)
      case True
      with 1 Some wr c cd show ?thesis by (simp add: scan_words.simps [of h d s])
    next
      case False
      then have "scan_words h d'' r' = (b, d', r)"
        using 1 Some wr c by (simp add: scan_words.simps [of h d s])
      then show ?thesis
        using 1 (1) [OF Some wr [symmetric] c [symmetric]] False cd by simp
    qed
  qed
qed

lemma feed_detected: "fst (feed h d s) = (ld_detected (snd (feed h d s)) \<noteq> None)"
proof (cases "scan_words h d (ld_tail d @ s)")
  case (fields b d' r)
  then show ?thesis
    using scan_words_detected [OF fields] by (auto simp: feed_def split: bool.splits)
qed

text \<open>Two states that a transport cannot tell apart: equal but for the unconsumed tail,
  which agrees up to leading white space while nothing is detected.\<close>

definition same_progress :: "loop_detector \<Rightarrow> loop_detector \<Rightarrow> bool" where
  "same_progress d e \<longleftrightarrow> d\<lparr>ld_tail := []\<rparr> = e\<lparr>ld_tail := []\<rparr> \<and>
     (ld_detected d = None \<longrightarrow> dropWhile py_isspace (ld_tail d) = dropWhile py_isspace (ld_tail e))"

lemma same_progress_refl [simp]: "same_progress d d"
  by (simp add: same_progress_def)

lemma tail_cleared_detected:
  "d\<lparr>ld_tail := []\<rparr> = (e :: loop_detector)\<lparr>ld_tail := []\<rparr> \<Longrightarrow> ld_detected d = ld_detected e"
  by (cases d; cases e) simp

lemma record_word_tail:
  "record_word h w (d\<lparr>ld_tail := t\<rparr>) = (record_word h w d)\<lparr>ld_tail := t\<rparr>"
  by (simp add: record_word_def Let_def)

lemma check_suffix_tail:
  "check_suffix (d\<lparr>ld_tail := t\<rparr>) = map_prod id (\<lambda>d. d\<lparr>ld_tail := t\<rparr>) (check_suffix d)"
proof -
  have "same_fingerprint (d\<lparr>ld_tail := t\<rparr>) = same_fingerprint d"
    by (rule ext) (simp add: same_fingerprint_def range_hash_def)
  moreover have "exact_blocks (d\<lparr>ld_tail := t\<rparr>) = exact_blocks d"
    by (rule ext) (simp add: exact_blocks_def)
  ultimately show ?thesis
    by (simp add: check_suffix_def Let_def split: option.splits del: upt_Suc)
qed

lemma scan_words_tail:
  "scan_words h (d\<lparr>ld_tail := t\<rparr>) s = map_prod id (map_prod (\<lambda>d. d\<lparr>ld_tail := t\<rparr>) id) (scan_words h d s)"
proof (induction h d s rule: scan_words.induct)
  case (1 h d s)
  show ?case
  proof (cases "next_word s")
    case None
    then show ?thesis
      by (simp add: scan_words.simps [of h d s] scan_words.simps [of h "d\<lparr>ld_tail := t\<rparr>" s])
  next
    case (Some wr)
    obtain w r where wr: "wr = (w, r)" by force
    obtain c d' where c: "check_suffix (record_word h w d) = (c, d')" by force
    have ct: "check_suffix (record_word h w (d\<lparr>ld_tail := t\<rparr>)) = (c, d'\<lparr>ld_tail := t\<rparr>)"
      by (simp add: record_word_tail check_suffix_tail c)
    show ?thesis
    proof (cases c)
      case True
      with Some wr c ct show ?thesis
        by (simp add: scan_words.simps [of h d s] scan_words.simps [of h "d\<lparr>ld_tail := t\<rparr>" s])
    next
      case False
      with Some wr c ct 1 [OF Some wr [symmetric] c [symmetric]] show ?thesis
        by (simp add: scan_words.simps [of h d s] scan_words.simps [of h "d\<lparr>ld_tail := t\<rparr>" s])
    qed
  qed
qed

text \<open>One chunk after another against the two chunks joined, under the tail cap.\<close>

lemma feed_two_chunks:
  assumes prog: "same_progress d e"
    and cap: "length (ld_tail d) + length s \<le> TAIL_CAP" "length (ld_tail e) + length s \<le> TAIL_CAP"
  shows "same_progress (snd (feed h d s)) (snd (feed h e s))"
proof (cases "ld_detected d = None \<and> s \<noteq> []")
  case False
  have "ld_detected e = ld_detected d"
    using prog tail_cleared_detected by (metis same_progress_def)
  with False prog show ?thesis by (auto simp: feed_def)
next
  case True
  have de: "d\<lparr>ld_tail := []\<rparr> = e\<lparr>ld_tail := []\<rparr>" using prog by (simp add: same_progress_def)
  have ed: "ld_detected e = None"
    using tail_cleared_detected [OF de] True by simp
  have strip: "dropWhile py_isspace (ld_tail d @ s) = dropWhile py_isspace (ld_tail e @ s)"
    using prog True by (simp add: same_progress_def dropWhile_append) (metis dropWhile_eq_Nil_conv)
  let ?d = "d\<lparr>ld_tail := []\<rparr>"
  obtain b x r where sd: "scan_words h ?d (ld_tail d @ s) = (b, x, r)" by (metis prod.exhaust)
  obtain b' x' r' where se: "scan_words h ?d (ld_tail e @ s) = (b', x', r')" by (metis prod.exhaust)
  have eq: "b' = b" "x' = x" "b \<or> dropWhile py_isspace r = dropWhile py_isspace r'"
    using scan_words_lstrip [OF strip, of h ?d] sd se by (auto simp: scan_eq_def)
  obtain y z where y: "scan_words h d (ld_tail d @ s) = (b, y, r)" "y\<lparr>ld_tail := []\<rparr> = x"
    using scan_words_tail [of h "[]" d "ld_tail d @ s"] sd by (cases "scan_words h d (ld_tail d @ s)") auto
  obtain z where z: "scan_words h e (ld_tail e @ s) = (b, z, r')" "z\<lparr>ld_tail := []\<rparr> = x"
    using scan_words_tail [of h "[]" e "ld_tail e @ s"] se de eq
    by (cases "scan_words h e (ld_tail e @ s)") auto
  have "length r \<le> TAIL_CAP" "length r' \<le> TAIL_CAP"
    using scan_words_rest_length [OF y(1)] scan_words_rest_length [OF z(1)] cap by auto
  moreover have "b \<Longrightarrow> ld_detected y \<noteq> None"
    using scan_words_detected [OF y(1)] True by simp
  ultimately show ?thesis
    using True ed y z eq by (auto simp: feed_def same_progress_def split: bool.splits)
qed

lemma feed_then_feed:
  assumes "length (ld_tail d) + length s + length t \<le> TAIL_CAP"
  shows "same_progress (snd (feed h (snd (feed h d s)) t)) (snd (feed h d (s @ t)))"
proof (cases "ld_detected d = None \<and> s \<noteq> [] \<and> t \<noteq> []")
  case False
  then show ?thesis by (auto simp: feed_def split: prod.splits bool.splits)
next
  case True
  obtain b d1 r where sd: "scan_words h d (ld_tail d @ s) = (b, d1, r)" by (metis prod.exhaust)
  have lr: "length r \<le> length (ld_tail d) + length s"
    using scan_words_rest_length [OF sd] by simp
  have det: "b = (ld_detected d1 \<noteq> None)" using scan_words_detected [OF sd] True by simp
  have fs: "snd (feed h d s) = d1\<lparr>ld_tail := r\<rparr>"
    using True sd lr assms by (auto simp: feed_def split: bool.splits)
  obtain b2 d2 r2 where st: "scan_words h d (ld_tail d @ s @ t) = (b2, d2, r2)" by (metis prod.exhaust)
  have lr2: "length r2 \<le> TAIL_CAP" using scan_words_rest_length [OF st] assms by simp
  have fst': "snd (feed h d (s @ t)) = d2\<lparr>ld_tail := r2\<rparr>"
    using True st lr2 by (auto simp: feed_def split: bool.splits)
  show ?thesis
  proof (cases b)
    case b: True
    then have "d2 = d1"
      using scan_words_append [of h d "ld_tail d @ s" t] sd st by simp
    moreover have "snd (feed h (d1\<lparr>ld_tail := r\<rparr>) t) = d1\<lparr>ld_tail := r\<rparr>"
      using det b by (simp add: feed_def)
    ultimately show ?thesis using fs fst' det b by (auto simp: same_progress_def)
  next
    case b: False
    have eq: "scan_eq (scan_words h d1 (r @ t)) (b2, d2, r2)"
      using scan_words_append [of h d "ld_tail d @ s" t] sd st b by simp
    obtain b3 d3 r3 where s3: "scan_words h d1 (r @ t) = (b3, d3, r3)" by (metis prod.exhaust)
    have e3: "b3 = b2" "d3 = d2" "b3 \<or> dropWhile py_isspace r3 = dropWhile py_isspace r2"
      using eq s3 by (auto simp: scan_eq_def)
    have l3: "length r3 \<le> TAIL_CAP" using scan_words_rest_length [OF s3] lr assms by simp
    have "b3 = (ld_detected d3 \<noteq> None)"
      using scan_words_detected [OF s3] det b by simp
    moreover have "snd (feed h (d1\<lparr>ld_tail := r\<rparr>) t) = d3\<lparr>ld_tail := r3\<rparr>"
      using det b True l3 s3 scan_words_tail [of h r d1 "r @ t"]
      by (auto simp: feed_def split: bool.splits)
    ultimately show ?thesis using fs fst' e3 by (auto simp: same_progress_def)
  qed
qed

lemma feed_tail_length:
  assumes "length (ld_tail d) + length s \<le> n"
  shows "length (ld_tail (snd (feed h d s))) \<le> n"
proof -
  obtain b d1 r where sd: "scan_words h d (ld_tail d @ s) = (b, d1, r)" by (metis prod.exhaust)
  show ?thesis
    using scan_words_rest_length [OF sd] assms sd by (auto simp: feed_def split: bool.splits)
qed

lemma same_progress_trans: "same_progress a b \<Longrightarrow> same_progress b c \<Longrightarrow> same_progress a c"
  unfolding same_progress_def using tail_cleared_detected [of a b] by simp

lemma feed_all_snoc: "feed_all h d (cs @ [c]) = snd (feed h (feed_all h d cs) c)"
  by (simp add: feed_all_def)

lemma feed_all_tail_length:
  "length (ld_tail (feed_all h d cs)) \<le> length (ld_tail d) + length (concat cs)"
proof (induction cs rule: rev_induct)
  case Nil
  then show ?case by (simp add: feed_all_def)
next
  case (snoc c cs)
  then show ?case unfolding feed_all_snoc by (intro feed_tail_length) simp
qed

lemma feed_all_concat:
  assumes "length (ld_tail d) + length (concat cs) \<le> TAIL_CAP"
  shows "same_progress (feed_all h d cs) (snd (feed h d (concat cs)))"
  using assms
proof (induction cs rule: rev_induct)
  case Nil
  then show ?case by (simp add: feed_all_def feed_def)
next
  case (snoc c cs)
  then have IH: "same_progress (feed_all h d cs) (snd (feed h d (concat cs)))" by simp
  have "same_progress (snd (feed h (feed_all h d cs) c)) (snd (feed h (snd (feed h d (concat cs))) c))"
    using snoc.prems feed_all_tail_length [of h d cs] feed_tail_length [of d "concat cs" "length (ld_tail d) + length (concat cs)" h]
    by (intro feed_two_chunks [OF IH]) auto
  moreover have "same_progress (snd (feed h (snd (feed h d (concat cs))) c)) (snd (feed h d (concat cs @ c)))"
    using snoc.prems by (intro feed_then_feed) simp
  ultimately show ?case by (simp add: feed_all_snoc same_progress_trans)
qed

section \<open>The invariant over a generation\<close>

text \<open>A recorded detection is backed by the words the state still holds.\<close>

definition detection_backed :: "loop_detector \<Rightarrow> bool" where
  "detection_backed d = (case ld_detected d of None \<Rightarrow> True
     | Some w \<Rightarrow> repeats (ld_words d) (ld_repetitions d) w
         \<and> ld_min_cycle_words d \<le> w \<and> w \<le> ld_max_cycle_words d)"

definition generation_inv :: "(string \<Rightarrow> 64 word) \<Rightarrow> loop_detector \<Rightarrow> bool" where
  "generation_inv h d \<longleftrightarrow> detector_inv h d \<and> detection_backed d"

lemma least_cycle_SomeD:
  "least_cycle d = Some w \<Longrightarrow> repeats (ld_words d) (ld_repetitions d) w
     \<and> ld_min_cycle_words d \<le> w \<and> w \<le> ld_max_cycle_words d"
  by (auto simp: least_cycle_def find_Some_iff split: if_splits simp del: upt_Suc dest!: nth_mem)

lemma generation_inv_check:
  assumes "detector_inv h d" and "ld_detected d = None" and "check_suffix d = (b, d')"
  shows "generation_inv h d'"
  using assms check_suffix_spec [OF assms(1)] least_cycle_SomeD
  by (auto simp: generation_inv_def detection_backed_def detector_inv_detected split: option.splits)

lemma generation_inv_scan:
  "scan_words h d s = (b, d', r) \<Longrightarrow> generation_inv h d \<Longrightarrow> ld_detected d = None \<Longrightarrow> generation_inv h d'"
proof (induction h d s rule: scan_words.induct)
  case (1 h d s)
  show ?case
  proof (cases "next_word s")
    case None
    with 1 show ?thesis by (simp add: scan_words.simps [of h d s])
  next
    case (Some wr)
    obtain w r' where wr: "wr = (w, r')" by force
    obtain c d'' where c: "check_suffix (record_word h w d) = (c, d'')" by force
    have inv: "generation_inv h d''"
      using generation_inv_check [OF detector_inv_record _ c] 1 (3,4) by (simp add: generation_inv_def)
    show ?thesis
    proof (cases c)
      case True
      with 1 Some wr c inv show ?thesis by (simp add: scan_words.simps [of h d s])
    next
      case False
      have "ld_detected d'' = None" using check_suffix_detected [OF c] 1 (4) False by simp
      moreover have "scan_words h d'' r' = (b, d', r)"
        using 1 Some wr c False by (simp add: scan_words.simps [of h d s])
      ultimately show ?thesis
        using 1 (1) [OF Some wr [symmetric] c [symmetric]] False inv by simp
    qed
  qed
qed

lemma generation_inv_tail: "generation_inv h (d\<lparr>ld_tail := x\<rparr>) = generation_inv h d"
  by (simp add: generation_inv_def detection_backed_def detector_inv_tail split: option.split)

lemma generation_inv_feed: "generation_inv h d \<Longrightarrow> generation_inv h (snd (feed h d s))"
  using generation_inv_scan [of h d "ld_tail d @ s"]
  by (auto simp: feed_def generation_inv_tail split: prod.splits bool.splits)

lemma generation_inv_feed_all: "generation_inv h d \<Longrightarrow> generation_inv h (feed_all h d cs)"
  by (induction cs rule: rev_induct) (simp_all add: feed_all_def generation_inv_feed)

lemma generation_inv_new: "new_detector reps mn mx = Inr d \<Longrightarrow> generation_inv h d"
  using detector_inv_new [of reps mn mx d h]
  by (auto simp: generation_inv_def detection_backed_def new_detector_def split: if_splits)

lemma new_detector_config:
  "new_detector reps mn mx = Inr d \<Longrightarrow> ld_repetitions d = nat reps \<and> ld_min_cycle_words d = nat mn
     \<and> ld_max_cycle_words d = nat mx \<and> 16 \<le> reps \<and> 128 \<le> nat mn"
  by (auto simp: new_detector_def LOOP_THRESHOLDS_def MIN_CYCLE_WORDS_def split: if_splits)

lemma record_word_config [simp]:
  "ld_repetitions (record_word h w d) = ld_repetitions d"
  "ld_min_cycle_words (record_word h w d) = ld_min_cycle_words d"
  "ld_max_cycle_words (record_word h w d) = ld_max_cycle_words d"
  by (simp_all add: record_word_def Let_def)

lemma check_suffix_config:
  "check_suffix d = (b, d') \<Longrightarrow> ld_repetitions d' = ld_repetitions d
     \<and> ld_min_cycle_words d' = ld_min_cycle_words d \<and> ld_max_cycle_words d' = ld_max_cycle_words d
     \<and> ld_words d' = ld_words d"
  by (auto simp: check_suffix_def Let_def split: if_splits option.splits)

lemma scan_words_config:
  "scan_words h d s = (b, d', r) \<Longrightarrow> ld_repetitions d' = ld_repetitions d
     \<and> ld_min_cycle_words d' = ld_min_cycle_words d \<and> ld_max_cycle_words d' = ld_max_cycle_words d"
proof (induction h d s rule: scan_words.induct)
  case (1 h d s)
  show ?case
  proof (cases "next_word s")
    case None
    with 1 show ?thesis by (simp add: scan_words.simps [of h d s])
  next
    case (Some wr)
    obtain w r' where wr: "wr = (w, r')" by force
    obtain c d'' where c: "check_suffix (record_word h w d) = (c, d'')" by force
    show ?thesis
      using 1 (1) [OF Some wr [symmetric] c [symmetric]] 1 (2) Some wr c check_suffix_config [OF c]
      by (cases c) (auto simp: scan_words.simps [of h d s])
  qed
qed

lemma feed_all_config:
  "ld_repetitions (feed_all h d cs) = ld_repetitions d
   \<and> ld_min_cycle_words (feed_all h d cs) = ld_min_cycle_words d
   \<and> ld_max_cycle_words (feed_all h d cs) = ld_max_cycle_words d"
proof (induction cs rule: rev_induct)
  case Nil
  then show ?case by (simp add: feed_all_def)
next
  case (snoc c cs)
  then show ?case
    by (auto simp: feed_all_snoc feed_def dest: scan_words_config split: prod.splits bool.splits)
qed

text \<open>A generation that says one word over and over, used by the witnesses.\<close>

definition echo :: "nat \<Rightarrow> string" where
  "echo n = concat (replicate n ''a '')"

lemma next_word_echo: "next_word (echo (Suc n)) = Some (''a'', echo n)"
proof -
  have a: "\<not> py_isspace (CHR ''a'')" "py_isspace (CHR '' '')" by (simp_all add: py_isspace_def)
  have "dropWhile py_isspace (echo n) = echo n" by (cases n) (simp_all add: echo_def a)
  then show ?thesis by (simp add: echo_def next_word_def a)
qed

lemma repeats_replicate: "n * w \<le> k \<Longrightarrow> repeats (replicate k x) n w" for x :: 'a
proof -
  assume le: "n * w \<le> k"
  have c: "concat (replicate n (replicate j x)) = replicate (n * j) x" for n j
    by (induction n) (simp_all add: replicate_add)
  show ?thesis
  proof (cases "n = 0")
    case False
    then have "w \<le> n * w" by simp
    with le have "w \<le> k" by linarith
    with le show ?thesis by (simp add: repeats_def c)
  qed (use le in \<open>simp add: repeats_def\<close>)
qed

lemma scan_echo:
  assumes "generation_inv h d" and "ld_detected d = None" and "ld_words d = replicate k ''a''"
    and "ld_repetitions d = 16" and "ld_min_cycle_words d = 128" and "ld_max_cycle_words d = 128"
    and "k + Suc n = 2048"
  shows "ld_detected (fst (snd (scan_words h d (echo (Suc n))))) = Some 128"
  using assms
proof (induction n arbitrary: d k)
  case 0
  let ?d = "record_word h ''a'' d"
  have inv: "detector_inv h ?d" using 0 by (simp add: detector_inv_record generation_inv_def)
  have ws: "ld_words ?d = replicate 2048 ''a''"
    using 0 by (simp add: record_word_def Let_def replicate_append_same flip: replicate_Suc)
  have "least_cycle ?d = Some 128"
    using 0 by (simp add: least_cycle_def ws repeats_replicate)
  then have "check_suffix ?d = (True, ?d\<lparr>ld_detected := Some 128\<rparr>)"
    using check_suffix_spec [OF inv] by simp
  then show ?case
    using next_word_echo [of 0] by (simp add: scan_words.simps [of h d "echo (Suc 0)"])
next
  case (Suc n)
  let ?d = "record_word h ''a'' d"
  have inv: "detector_inv h ?d" using Suc.prems by (simp add: detector_inv_record generation_inv_def)
  have ws: "ld_words ?d = replicate (Suc k) ''a''"
    using Suc.prems by (simp add: record_word_def Let_def replicate_append_same flip: replicate_Suc)
  have "\<not> repeats (replicate (Suc k) ''a'') 16 128"
    using Suc.prems by (simp add: repeats_def)
  then have "least_cycle ?d = None"
    using Suc.prems by (simp add: least_cycle_def ws)
  then have c: "check_suffix ?d = (False, ?d)"
    using check_suffix_spec [OF inv] by simp
  have "generation_inv h ?d" using inv Suc.prems by (simp add: generation_inv_def detection_backed_def)
  then have "ld_detected (fst (snd (scan_words h ?d (echo (Suc n))))) = Some 128"
    using Suc.prems by (intro Suc.IH [OF _ _ ws]) auto
  then show ?case
    using next_word_echo [of "Suc n"] c by (simp add: scan_words.simps [of h d "echo (Suc (Suc n))"])
qed

definition echo_detector :: loop_detector where
  "echo_detector = \<lparr>ld_repetitions = 16, ld_min_cycle_words = 128, ld_max_cycle_words = 128,
     ld_words = [], ld_prefix = [0], ld_powers = build_powers 128, ld_tail = [], ld_detected = None\<rparr>"

lemma new_echo_detector: "new_detector 16 128 128 = Inr echo_detector"
  by (simp add: new_detector_def echo_detector_def LOOP_THRESHOLDS_def MIN_CYCLE_WORDS_def)

lemma feed_echo: "ld_detected (feed_all h echo_detector [echo 2048]) = Some 128"
proof -
  have "ld_detected (fst (snd (scan_words h echo_detector (echo (Suc 2047))))) = Some 128"
    using generation_inv_new [OF new_echo_detector]
    by (intro scan_echo [where k = 0]) (simp_all add: echo_detector_def)
  moreover have "echo 2048 \<noteq> []" by (simp add: echo_def)
  ultimately show ?thesis
    by (auto simp: feed_all_def feed_def echo_detector_def split: prod.splits bool.splits)
qed

section \<open>Properties\<close>

text \<open>C29. In every state a generation can reach, \<open>_check_suffix\<close> computes exactly its
  specification: it reports the least width in the configured range at which the word list
  ends in the configured number of equal blocks, at every sixteenth word. The 64-bit
  fingerprints neither hide such a cycle nor, whatever the collisions, invent one.\<close>

theorem loop_check_exact:
  assumes "new_detector reps mn mx = Inr d0" and "d = feed_all h d0 chunks"
  shows "check_suffix d = (case least_cycle d of None \<Rightarrow> (False, d)
           | Some w \<Rightarrow> (True, d\<lparr>ld_detected := Some w\<rparr>))"
  using generation_inv_feed_all [OF generation_inv_new [OF assms(1)], of h chunks]
  unfolding assms(2) generation_inv_def by (blast intro: check_suffix_spec)

theorem loop_check_exact_witness:
  "check_suffix (feed_all (\<lambda>_. 0) echo_detector [''a b '']) =
     (False, feed_all (\<lambda>_. 0) echo_detector [''a b ''])"
  using loop_check_exact [OF new_echo_detector refl, of "\<lambda>_. 0" "[''a b '']"]
  by (simp add: feed_all_def feed_def echo_detector_def scan_words.simps next_word_def
      py_isspace_def record_word_def check_suffix_def Let_def append_hash_def least_cycle_def)

text \<open>A detection recorded by any feeding is a true repetition: the words the detector
  holds end in \<open>reps\<close> exact copies of a block whose length lies between the configured
  bounds, so at least 128 words are repeated at least 16 times.\<close>

theorem loop_detection_sound:
  assumes "new_detector reps mn mx = Inr d0"
    and "ld_detected (feed_all h d0 chunks) = Some w"
  shows "repeats (ld_words (feed_all h d0 chunks)) (nat reps) w
    \<and> nat mn \<le> w \<and> w \<le> nat mx \<and> 128 \<le> w \<and> 16 \<le> reps"
proof -
  have "generation_inv h (feed_all h d0 chunks)"
    by (rule generation_inv_feed_all [OF generation_inv_new [OF assms(1)]])
  then have "detection_backed (feed_all h d0 chunks)" by (simp add: generation_inv_def)
  with assms(2) new_detector_config [OF assms(1)] feed_all_config [of h d0 chunks]
  show ?thesis by (simp add: detection_backed_def)
qed

theorem loop_detection_sound_witness:
  "repeats (ld_words (feed_all (\<lambda>_. 7) echo_detector [echo 2048])) 16 128"
  using loop_detection_sound [OF new_echo_detector feed_echo [of "\<lambda>_. 7"]] by simp

text \<open>Detection does not depend on how the transport cut the text: feeding any sequence
  of chunks leaves the detector with the words, fingerprints and detection that feeding
  their concatenation at once leaves, as long as the text fits under the tail cap.\<close>

theorem loop_chunking_irrelevant:
  assumes "length (ld_tail d) + length (concat chunks) \<le> TAIL_CAP"
  shows "(feed_all h d chunks)\<lparr>ld_tail := []\<rparr> = (snd (feed h d (concat chunks)))\<lparr>ld_tail := []\<rparr>"
  using feed_all_concat [OF assms] by (simp add: same_progress_def)

theorem loop_chunking_irrelevant_witness:
  "(feed_all (\<lambda>_. 1) echo_detector [''on'', ''e tw'', ''o ''])\<lparr>ld_tail := []\<rparr>
     = (snd (feed (\<lambda>_. 1) echo_detector ''one two ''))\<lparr>ld_tail := []\<rparr>
   \<and> ld_words (snd (feed (\<lambda>_. 1) echo_detector ''one two '')) = [''one'', ''two'']"
  using loop_chunking_irrelevant [of echo_detector "[''on'', ''e tw'', ''o '']" "\<lambda>_. 1"]
  by (simp add: TAIL_CAP_def feed_def echo_detector_def scan_words.simps next_word_def
      py_isspace_def record_word_def check_suffix_def Let_def append_hash_def)

end
