(* ===== verification/NtPath.thy ===== *)
theory NtPath
  imports Prelude
begin

text \<open>
  The functions of Python's \<open>ntpath\<close> that the kernel's path policy calls, translated from
  the module's own Python text: \<open>splitroot\<close>, \<open>splitdrive\<close>, \<open>normcase\<close>, \<open>normpath\<close>, \<open>join\<close>,
  \<open>commonpath\<close> and \<open>basename\<close>. Paths are strings; a raised \<open>ValueError\<close> of \<open>commonpath\<close> is
  \<open>Inl\<close>. The lemmas give the shape of a normalised path: \<open>normpath\<close> keeps the drive and the
  root, leaves only clean components, and normalising again changes nothing.
\<close>

section \<open>Definitions\<close>

abbreviation bslash :: char where "bslash \<equiv> CHR 0x5C"
abbreviation slash :: char where "slash \<equiv> CHR 0x2F"
abbreviation colon :: char where "colon \<equiv> CHR 0x3A"
abbreviation dot :: string where "dot \<equiv> ''.''"
abbreviation dotdot :: string where "dotdot \<equiv> ''..''"

definition to_bslash :: "string \<Rightarrow> string" where
  "to_bslash s = replace_char slash bslash s"

definition upper_char :: "char \<Rightarrow> char" where
  "upper_char c = (let n = of_char c :: nat in
     if (97 \<le> n \<and> n \<le> 122) \<or> (224 \<le> n \<and> n \<le> 254 \<and> n \<noteq> 247) then char_of (n - 32) else c)"

lemma upper_char_code [code]:
  "upper_char (Char b0 b1 b2 b3 b4 b5 b6 b7) =
     (if b6 \<and> b5 \<and> (if b7 then \<not> (b4 \<and> b2 \<and> b1 \<and> b0)
        else (b4 \<or> b3 \<or> b2 \<or> b1 \<or> b0) \<and> \<not> (b4 \<and> b3 \<and> (b2 \<or> b1 \<and> b0)))
      then Char b0 b1 b2 b3 b4 False b6 b7 else Char b0 b1 b2 b3 b4 b5 b6 b7)"
  by (cases b0; cases b1; cases b2; cases b3; cases b4; cases b5; cases b6; cases b7;
      simp add: upper_char_def char_of_def Let_def bit_0)

text \<open>\<open>s.find(sep, start)\<close> for one character.\<close>

definition find_from :: "char \<Rightarrow> nat \<Rightarrow> string \<Rightarrow> nat option" where
  "find_from c start s =
     (let k = length (takeWhile (\<lambda>x. x \<noteq> c) (drop start s))
      in if start + k < length s then Some (start + k) else None)"

definition UNC_PREFIX :: string where
  "UNC_PREFIX = [bslash, bslash, CHR ''?'', bslash, CHR ''U'', CHR ''N'', CHR ''C'', bslash]"

definition splitroot :: "string \<Rightarrow> string \<times> string \<times> string" where
  "splitroot p =
     (let normp = to_bslash p in
      if py_slice 0 1 normp = [bslash] then
        if py_slice 1 2 normp = [bslash] then
          (let start = (if map upper_char (py_slice 0 8 normp) = UNC_PREFIX then 8 else 2)
           in case find_from bslash start normp of
                None \<Rightarrow> (p, [], [])
              | Some i \<Rightarrow>
                  (case find_from bslash (i + 1) normp of
                     None \<Rightarrow> (p, [], [])
                   | Some j \<Rightarrow> (take j p, py_slice j (j + 1) p, drop (j + 1) p)))
        else ([], take 1 p, drop 1 p)
      else if py_slice 1 2 normp = [colon] then
        if py_slice 2 3 normp = [bslash] then (take 2 p, py_slice 2 3 p, drop 3 p)
        else (take 2 p, [], drop 2 p)
      else ([], [], p))"

definition splitdrive :: "string \<Rightarrow> string \<times> string" where
  "splitdrive p = (case splitroot p of (d, r, t) \<Rightarrow> (d, r @ t))"

definition normcase :: "string \<Rightarrow> string" where
  "normcase s = py_lower (to_bslash s)"

text \<open>The component loop of \<open>normpath\<close>. The first list is \<open>comps[:i]\<close> reversed, the second
  \<open>comps[i:]\<close>; deleting \<open>comps[i-1:i+1]\<close> is dropping its head.\<close>

fun norm_comps :: "bool \<Rightarrow> string list \<Rightarrow> string list \<Rightarrow> string list" where
  "norm_comps rooted st [] = rev st"
| "norm_comps rooted st (c # cs) =
     (if c = [] \<or> c = dot then norm_comps rooted st cs
      else if c = dotdot then
        (case st of
           t # ts \<Rightarrow> if t \<noteq> dotdot then norm_comps rooted ts cs else norm_comps rooted (c # st) cs
         | [] \<Rightarrow> if rooted then norm_comps rooted [] cs else norm_comps rooted [c] cs)
      else norm_comps rooted (c # st) cs)"

definition normpath :: "string \<Rightarrow> string" where
  "normpath p =
     (case splitroot (to_bslash p) of (d, r, t) \<Rightarrow>
        let comps = norm_comps (r \<noteq> []) [] (split_on bslash t);
            comps' = (if d @ r = [] \<and> comps = [] then [dot] else comps)
        in d @ r @ join_with bslash comps')"

text \<open>\<open>ntpath.join\<close> of two parts.\<close>

definition nt_join :: "string \<Rightarrow> string \<Rightarrow> string" where
  "nt_join path p =
     (case splitroot path of (d, r, t) \<Rightarrow> case splitroot p of (pd, pr, pt) \<Rightarrow>
        let tail_join = (\<lambda>d r. let t' = (if t \<noteq> [] \<and> last t \<notin> {bslash, slash} then t @ [bslash] else t) @ pt
               in if t' \<noteq> [] \<and> r = [] \<and> d \<noteq> [] \<and> last d \<notin> {colon, bslash, slash}
                  then d @ [bslash] @ t' else d @ r @ t');
            finish = (\<lambda>d r t. if t \<noteq> [] \<and> r = [] \<and> d \<noteq> [] \<and> last d \<notin> {colon, bslash, slash}
                  then d @ [bslash] @ t else d @ r @ t)
        in if pr \<noteq> [] then finish (if pd \<noteq> [] \<or> d = [] then pd else d) pr pt
           else if pd \<noteq> [] \<and> pd \<noteq> d then
             (if py_lower pd \<noteq> py_lower d then finish pd pr pt else tail_join pd r)
           else tail_join d r)"

definition nt_basename :: "string \<Rightarrow> string" where
  "nt_basename p = (case splitroot p of (d, r, t) \<Rightarrow>
     rev (takeWhile (\<lambda>c. c \<noteq> bslash \<and> c \<noteq> slash) (rev t)))"

datatype commonpath_error = DifferentDrives | MixedRoots | IndexOutOfRange

text \<open>The comparison loop: \<open>Some i\<close> for the first index at which the lists differ, \<open>None\<close>
  when the first list runs out (the \<open>for\<close> loop's \<open>else\<close>).\<close>

fun first_difference :: "nat \<Rightarrow> string list \<Rightarrow> string list \<Rightarrow> commonpath_error + nat option" where
  "first_difference i [] ys = Inr None"
| "first_difference i (x # xs) [] = Inl IndexOutOfRange"
| "first_difference i (x # xs) (y # ys) =
     (if x \<noteq> y then Inr (Some i) else first_difference (Suc i) xs ys)"

definition plain_comps :: "string \<Rightarrow> string list" where
  "plain_comps t = filter (\<lambda>c. c \<noteq> [] \<and> c \<noteq> dot) (split_on bslash t)"

definition commonpath :: "string \<Rightarrow> string \<Rightarrow> commonpath_error + string" where
  "commonpath a b =
     (case splitroot (py_lower (to_bslash a)) of (d1, r1, t1) \<Rightarrow>
      case splitroot (py_lower (to_bslash b)) of (d2, r2, t2) \<Rightarrow>
        if d1 \<noteq> d2 then Inl DifferentDrives
        else case splitroot (to_bslash a) of (drive, root, path) \<Rightarrow>
          if r1 \<noteq> r2 then Inl MixedRoots
          else let common = plain_comps path;
                   s1 = min (plain_comps t1) (plain_comps t2);
                   s2 = max (plain_comps t1) (plain_comps t2)
               in case first_difference 0 s1 s2 of
                    Inl e \<Rightarrow> Inl e
                  | Inr (Some i) \<Rightarrow> Inr (drive @ root @ join_with bslash (take i common))
                  | Inr None \<Rightarrow> Inr (drive @ root @ join_with bslash (take (length s1) common)))"

section \<open>Characters\<close>

text \<open>A character map that a path operation cannot notice: it fixes the separators and the
  colon, maps nothing else to them, and is invisible to \<open>upper_char\<close>.\<close>

definition path_neutral :: "(char \<Rightarrow> char) \<Rightarrow> bool" where
  "path_neutral f \<longleftrightarrow> (\<forall>c. (f c = bslash \<longleftrightarrow> c = bslash) \<and> (f c = slash \<longleftrightarrow> c = slash)
     \<and> (f c = colon \<longleftrightarrow> c = colon) \<and> (f c = CHR ''.'' \<longleftrightarrow> c = CHR ''.'')
     \<and> upper_char (f c) = upper_char c)"

lemma of_char_lower:
  "of_char (lower_char c) = (let n = of_char c :: nat in
     if (65 \<le> n \<and> n \<le> 90) \<or> (192 \<le> n \<and> n \<le> 222 \<and> n \<noteq> 215) then n + 32 else n)"
  by (simp add: lower_char_def Let_def)

lemma of_char_upper:
  "of_char (upper_char c) = (let n = of_char c :: nat in
     if (97 \<le> n \<and> n \<le> 122) \<or> (224 \<le> n \<and> n \<le> 254 \<and> n \<noteq> 247) then n - 32 else n)"
  by (auto simp: upper_char_def Let_def)

lemma char_eq_of_char: "c = d \<longleftrightarrow> (of_char c :: nat) = of_char d"
  by simp

lemma lower_char_special [simp]:
  "lower_char c = bslash \<longleftrightarrow> c = bslash" "lower_char c = slash \<longleftrightarrow> c = slash"
  "lower_char c = colon \<longleftrightarrow> c = colon" "lower_char c = CHR ''.'' \<longleftrightarrow> c = CHR ''.''"
     by (subst (1 2) char_eq_of_char, simp add: of_char_lower Let_def)+

lemma upper_lower_char [simp]: "upper_char (lower_char c) = upper_char c"
  by (subst char_eq_of_char) (auto simp: of_char_upper of_char_lower Let_def)

lemma path_neutral_lower: "path_neutral lower_char"
  by (simp only: path_neutral_def lower_char_special upper_lower_char) simp

lemma path_neutralD:
  assumes "path_neutral f"
  shows "f c = bslash \<longleftrightarrow> c = bslash" and "f c = slash \<longleftrightarrow> c = slash"
    and "f c = colon \<longleftrightarrow> c = colon" and "f c = CHR ''.'' \<longleftrightarrow> c = CHR ''.''"
    and "upper_char (f c) = upper_char c"
  using assms unfolding path_neutral_def by blast+

lemma lower_char_idem [simp]: "lower_char (lower_char c) = lower_char c"
  by (subst char_eq_of_char) (auto simp: of_char_lower Let_def)

lemma py_lower_idem [simp]: "py_lower (py_lower s) = py_lower s"
  by (simp add: py_lower_def)

lemma to_bslash_noop: "slash \<notin> set s \<Longrightarrow> to_bslash s = s"
  by (induction s) (auto simp: to_bslash_def replace_char_def)

lemma slash_to_bslash [simp]: "slash \<notin> set (to_bslash s)"
  by (induction s) (simp_all add: to_bslash_def replace_char_def)

lemma slash_py_lower [simp]: "slash \<in> set (py_lower s) \<longleftrightarrow> slash \<in> set s"
  by (induction s) (simp_all add: py_lower_def eq_commute [of slash])

lemma to_bslash_idem [simp]: "to_bslash (to_bslash s) = to_bslash s"
  by (simp add: to_bslash_noop)

section \<open>Splitting off the root\<close>

lemma find_from_SomeD:
  assumes "find_from c k s = Some i"
  shows "k \<le> i" and "i < length s" and "s ! i = c" and "\<And>j. k \<le> j \<Longrightarrow> j < i \<Longrightarrow> s ! j \<noteq> c"
proof -
  let ?t = "takeWhile (\<lambda>x. x \<noteq> c) (drop k s)"
  have i: "i = k + length ?t" and lt: "k + length ?t < length s"
    using assms by (auto simp: find_from_def Let_def split: if_splits)
  then show "k \<le> i" and "i < length s" by auto
  have "length ?t < length (drop k s)" using lt by simp
  then have "\<not> (drop k s ! length ?t \<noteq> c)" by (rule nth_length_takeWhile)
  then show "s ! i = c" using i lt by simp
  fix j assume j: "k \<le> j" "j < i"
  then have "j - k < length ?t" using i by simp
  then have "?t ! (j - k) \<in> set ?t" by (rule nth_mem)
  then have "?t ! (j - k) \<noteq> c" by (auto dest: set_takeWhileD)
  then show "s ! j \<noteq> c" using j i lt \<open>j - k < length ?t\<close> by (simp add: takeWhile_nth)
qed

lemma find_from_SomeI:
  assumes "k \<le> i" and "i < length s" and "s ! i = c" and "\<And>j. k \<le> j \<Longrightarrow> j < i \<Longrightarrow> s ! j \<noteq> c"
  shows "find_from c k s = Some i"
proof -
  have "takeWhile (\<lambda>x. x \<noteq> c) (drop k s) = take (i - k) (drop k s)"
    using assms by (intro takeWhile_eq_take_P_nth) auto
  then have "length (takeWhile (\<lambda>x. x \<noteq> c) (drop k s)) = i - k" using assms by simp
  then show ?thesis using assms by (simp add: find_from_def)
qed

lemma find_from_take_eq:
  assumes "find_from c k s = Some i" and "i < n" and "take n s = take n s'"
  shows "find_from c k s' = Some i"
proof -
  have len: "i < length s'"
    using find_from_SomeD(2) [OF assms(1)] assms(2,3)
    by (metis length_take min_less_iff_conj)
  have nth: "s' ! j = s ! j" if "j \<le> i" for j
    using that assms(2,3) by (metis le_less_trans nth_take)
  show ?thesis
    using find_from_SomeD [OF assms(1)] len nth by (intro find_from_SomeI) auto
qed

lemma find_from_map:
  assumes "\<And>x. f x = c \<longleftrightarrow> x = c"
  shows "find_from c k (map f s) = find_from c k s"
proof -
  have "length (takeWhile (\<lambda>x. x \<noteq> c) (map f xs)) = length (takeWhile (\<lambda>x. x \<noteq> c) xs)" for xs
    by (induction xs) (auto simp: assms)
  then show ?thesis by (simp add: find_from_def drop_map)
qed

lemma py_slice_map: "py_slice a b (map f s) = map f (py_slice a b s)"
  by (simp add: py_slice_def take_map drop_map)

lemma splitroot_append: "splitroot p = (d, r, t) \<Longrightarrow> p = d @ r @ t"
  by (auto simp: splitroot_def Let_def py_slice_def split: if_splits option.splits)
     (metis append_take_drop_id add_diff_cancel_left' drop_drop plus_1_eq_Suc take_drop add.commute
        One_nat_def Suc_1 numeral_2_eq_2 numeral_3_eq_3)+

lemma splitroot_map:
  assumes f: "path_neutral f" and s: "slash \<notin> set p"
  shows "splitroot (map f p) = (case splitroot p of (d, r, t) \<Rightarrow> (map f d, map f r, map f t))"
proof -
  have eqb: "f x = bslash \<longleftrightarrow> x = bslash" and eqs: "f x = slash \<longleftrightarrow> x = slash"
    and eqc: "f x = colon \<longleftrightarrow> x = colon" and equ: "upper_char (f x) = upper_char x" for x
    by (rule path_neutralD [OF f])+
  have ns: "slash \<notin> set (map f p)"
  proof
    assume "slash \<in> set (map f p)"
    then obtain x where "x \<in> set p" and "f x = slash" by auto
    with eqs s show False by metis
  qed
  have one: "map f xs = [bslash] \<longleftrightarrow> xs = [bslash]" "map f xs = [colon] \<longleftrightarrow> xs = [colon]" for xs
    using eqb eqc by (cases xs; force)+
  have up: "map upper_char (map f xs) = map upper_char xs" for xs
    by (simp add: equ)
  show ?thesis
    unfolding splitroot_def to_bslash_noop [OF s] to_bslash_noop [OF ns] Let_def py_slice_map one up
      find_from_map [of f bslash, OF eqb]
    by (simp split: option.split add: take_map drop_map)
qed

text \<open>With a root present, what follows it does not matter for the split.\<close>

lemma UNC_PREFIX_positions:
  assumes "map upper_char (py_slice 0 8 s) = UNC_PREFIX"
  shows "8 \<le> length s" and "s ! 3 = bslash" and "s ! 7 = bslash"
    and "s ! 2 \<noteq> bslash" and "s ! 4 \<noteq> bslash" and "s ! 5 \<noteq> bslash" and "s ! 6 \<noteq> bslash"
proof -
  have len: "length (map upper_char (py_slice 0 8 s)) = 8" unfolding assms by (simp add: UNC_PREFIX_def)
  then show l: "8 \<le> length s" by simp
  have u: "upper_char (s ! i) = UNC_PREFIX ! i" if "i < 8" for i
  proof -
    have "upper_char (s ! i) = map upper_char (py_slice 0 8 s) ! i"
      using that l by (simp add: py_slice_def)
    then show ?thesis unfolding assms .
  qed
  have ub: "upper_char c = bslash \<longleftrightarrow> c = bslash" for c
    by (subst (1 2) char_eq_of_char) (auto simp: of_char_upper Let_def)
  show "s ! 3 = bslash" "s ! 7 = bslash" "s ! 2 \<noteq> bslash" "s ! 4 \<noteq> bslash" "s ! 5 \<noteq> bslash" "s ! 6 \<noteq> bslash"
    using u [of 3] u [of 7] u [of 2] u [of 4] u [of 5] u [of 6]
    by (auto simp: UNC_PREFIX_def ub simp flip: ub [of "s ! 2"] ub [of "s ! 4"] ub [of "s ! 5"] ub [of "s ! 6"])
qed

lemma take_eq_py_slice:
  assumes "take n s = take n s'" and "b \<le> n"
  shows "py_slice a b s = py_slice a b s'"
proof -
  have "py_slice a b x = drop a (take b x)" for x :: "'a list"
    by (simp add: py_slice_def drop_take)
  moreover have "take b s = take b s'"
    using assms by (metis min.absorb1 take_take)
  ultimately show ?thesis by simp
qed

lemma splitroot_UNC:
  assumes "slash \<notin> set p" and "py_slice 0 1 p = [bslash]" and "py_slice 1 2 p = [bslash]"
    and "find_from bslash (if map upper_char (py_slice 0 8 p) = UNC_PREFIX then 8 else 2) p = Some i"
    and "find_from bslash (i + 1) p = Some j"
  shows "splitroot p = (take j p, [bslash], drop (j + 1) p)"
proof -
  have "py_slice j (j + 1) p = [bslash]"
    using find_from_SomeD(2,3) [OF assms(5)] by (simp add: py_slice_def take_Suc_conv_app_nth Cons_nth_drop_Suc [symmetric])
  with assms show ?thesis by (simp add: splitroot_def to_bslash_noop)
qed

lemma splitroot_UNC_tail:
  assumes p: "slash \<notin> set p" and p': "slash \<notin> set p'"
    and h: "py_slice 0 1 p = [bslash]" "py_slice 1 2 p = [bslash]"
    and i: "find_from bslash (if map upper_char (py_slice 0 8 p) = UNC_PREFIX then 8 else 2) p = Some i"
    and j: "find_from bslash (i + 1) p = Some j"
    and tk: "take (j + 1) p = take (j + 1) p'"
  shows "splitroot p' = (take j p, [bslash], drop (j + 1) p')"
proof -
  have ij: "2 \<le> i" "i < j" "j < length p"
    using find_from_SomeD(1) [OF i] find_from_SomeD(1,2) [OF j] by (auto split: if_splits)
  have h': "py_slice 0 1 p' = [bslash]" "py_slice 1 2 p' = [bslash]"
    using h take_eq_py_slice [OF tk, of 1 0] take_eq_py_slice [OF tk, of 2 1] ij by auto
  have nth: "p' ! k = p ! k" if "k \<le> j" for k
    using that tk by (metis less_add_one nth_take order_le_less_trans)
  have j': "find_from bslash (i + 1) p' = Some j"
    by (rule find_from_take_eq [OF j _ tk]) simp
  have start: "(map upper_char (py_slice 0 8 p') = UNC_PREFIX) = (map upper_char (py_slice 0 8 p) = UNC_PREFIX)"
  proof (cases "7 \<le> j")
    case True
    then have "py_slice 0 8 p = py_slice 0 8 p'" by (intro take_eq_py_slice [OF tk]) simp
    then show ?thesis by simp
  next
    case False
    have "\<not> map upper_char (py_slice 0 8 p) = UNC_PREFIX"
      using find_from_SomeD(1) [OF i] ij False by auto
    moreover have "\<not> map upper_char (py_slice 0 8 p') = UNC_PREFIX"
    proof
      assume "map upper_char (py_slice 0 8 p') = UNC_PREFIX"
      note u = UNC_PREFIX_positions [OF this]
      have pj: "p' ! j = bslash" using find_from_SomeD(3) [OF j] nth [of j] by simp
      have jlt: "j < 7" using False by simp
      then consider "j = 3" | "j = 2" | "j = 4" | "j = 5" | "j = 6" using ij by linarith
      then show False
      proof cases
        case 1
        then have "i = 2" using ij by simp
        then show False using find_from_SomeD(3) [OF i] nth [of 2] u(4) ij by simp
      qed (use pj u ij in auto)
    qed
    ultimately show ?thesis by simp
  qed
  have i': "find_from bslash (if map upper_char (py_slice 0 8 p') = UNC_PREFIX then 8 else 2) p' = Some i"
    unfolding start by (rule find_from_take_eq [OF i _ tk]) (use ij in simp)
  have "take j p' = take j p" using tk by (metis le_add1 min.absorb1 take_take)
  then show ?thesis using splitroot_UNC [OF p' h' i' j'] by simp
qed

lemma splitroot_tail:
  assumes p: "slash \<notin> set p" and t': "slash \<notin> set t'"
    and sp: "splitroot p = (d, r, t)" and d: "d \<noteq> []" and r: "r \<noteq> []"
  shows "splitroot (d @ r @ t') = (d, r, t')"
proof -
  have pdrt: "p = d @ r @ t" by (rule splitroot_append [OF sp])
  then have p': "slash \<notin> set (d @ r @ t')" using p t' by auto
  show ?thesis
  proof (cases "py_slice 0 1 p = [bslash]")
    case True
    with sp d r p obtain i j where
      h: "py_slice 1 2 p = [bslash]"
      and i: "find_from bslash (if map upper_char (py_slice 0 8 p) = UNC_PREFIX then 8 else 2) p = Some i"
      and j: "find_from bslash (i + 1) p = Some j"
      by (auto simp: splitroot_def to_bslash_noop Let_def split: if_splits option.splits)
    have dr: "d = take j p" "r = [bslash]"
      using splitroot_UNC [OF p True h i j] sp by auto
    have jl: "j < length p" by (rule find_from_SomeD(2) [OF j])
    then have len: "length (d @ r) = j + 1" using dr by simp
    have "take (j + 1) p = d @ r" unfolding pdrt using len by (metis append.assoc append_eq_conv_conj)
    moreover have "take (j + 1) (d @ r @ t') = d @ r" using len by (metis append.assoc append_eq_conv_conj)
    ultimately have tk: "take (j + 1) p = take (j + 1) (d @ r @ t')" by simp
    have "drop (j + 1) (d @ r @ t') = t'" using len by (metis append.assoc append_eq_conv_conj)
    then show ?thesis using splitroot_UNC_tail [OF p p' True h i j tk] dr by simp
  next
    case False
    with sp d r p have c: "py_slice 1 2 p = [colon]" "py_slice 2 3 p = [bslash]"
      and dr: "d = take 2 p" "r = py_slice 2 3 p"
      by (auto simp: splitroot_def to_bslash_noop Let_def split: if_splits)
    have ld: "length d = 2" "length r = 1"
      using c dr by (auto simp: py_slice_def dest: arg_cong [where f = length])
    then have tk: "take 3 p = take 3 (d @ r @ t')" unfolding pdrt by simp
    have sl: "py_slice 0 1 (d @ r @ t') \<noteq> [bslash]" "py_slice 1 2 (d @ r @ t') = [colon]"
      "py_slice 2 3 (d @ r @ t') = [bslash]"
      using False c take_eq_py_slice [OF tk, of 1 0] take_eq_py_slice [OF tk, of 2 1] take_eq_py_slice [OF tk, of 3 2]
      by auto
    have "splitroot (d @ r @ t') = (take 2 (d @ r @ t'), py_slice 2 3 (d @ r @ t'), drop 3 (d @ r @ t'))"
      unfolding splitroot_def Let_def to_bslash_noop [OF p'] using sl by auto
    then show ?thesis using ld sl c dr by simp
  qed
qed

section \<open>Components\<close>

definition clean_comp :: "string \<Rightarrow> bool" where
  "clean_comp c \<longleftrightarrow> c \<noteq> [] \<and> c \<noteq> dot \<and> c \<noteq> dotdot \<and> bslash \<notin> set c \<and> slash \<notin> set c"

lemma norm_comps_clean:
  assumes "list_all clean_comp cs"
  shows "norm_comps rooted st cs = rev st @ cs"
  using assms by (induction cs arbitrary: st) (auto simp: clean_comp_def)

lemma norm_comps_rooted_clean:
  assumes "list_all clean_comp st" and "\<And>c. c \<in> set cs \<Longrightarrow> bslash \<notin> set c \<and> slash \<notin> set c"
  shows "list_all clean_comp (norm_comps True st cs)"
  using assms
proof (induction cs arbitrary: st)
  case Nil
  then show ?case by (simp add: list_all_iff)
next
  case (Cons c cs)
  have tl: "list_all clean_comp ts" if "st = t # ts" for t ts using Cons.prems(1) that by simp
  show ?case
    using Cons.IH [OF Cons.prems(1)] Cons.IH [of "c # st"] Cons.IH [OF tl] Cons.prems
    by (auto simp: clean_comp_def split: list.split)
qed

lemma split_on_no_sep: "p \<in> set (split_on c s) \<Longrightarrow> c \<notin> set p"
  by (induction c s arbitrary: p rule: split_on.induct) (auto split: if_splits list.splits)

lemma split_on_set: "p \<in> set (split_on c s) \<Longrightarrow> set p \<subseteq> set s"
proof (induction s arbitrary: p)
  case (Cons x s)
  show ?case
  proof (cases "split_on c s")
    case (Cons q qs)
    then have "set q \<subseteq> set s" "\<And>p. p \<in> set qs \<Longrightarrow> set p \<subseteq> set s" using Cons.IH by auto
    with Cons.prems local.Cons show ?thesis by (auto split: if_splits)
  qed simp
qed simp

lemma split_on_append_sep: "c \<notin> set p \<Longrightarrow> split_on c (p @ c # s) = p # split_on c s"
  by (induction p) auto

lemma split_on_single: "c \<notin> set p \<Longrightarrow> split_on c p = [p]"
  by (induction p) auto

lemma split_join:
  "ps \<noteq> [] \<Longrightarrow> (\<And>p. p \<in> set ps \<Longrightarrow> c \<notin> set p) \<Longrightarrow> split_on c (join_with c ps) = ps"
  by (induction c ps rule: join_with.induct) (auto simp: split_on_append_sep split_on_single)

lemma split_on_map:
  "(\<And>x. f x = c \<longleftrightarrow> x = c) \<Longrightarrow> split_on c (map f s) = map (map f) (split_on c s)"
  by (induction s) (auto split: list.split)

lemma join_with_map: "f c = c \<Longrightarrow> join_with c (map (map f) ps) = map f (join_with c ps)"
  by (induction c ps rule: join_with.induct) auto

lemma set_join_with: "set (join_with c ps) \<subseteq> insert c (\<Union>(set ` set ps))"
  by (induction c ps rule: join_with.induct) auto

lemma join_slash_free:
  assumes "list_all clean_comp cs"
  shows "slash \<notin> set (join_with bslash cs)"
proof
  assume "slash \<in> set (join_with bslash cs)"
  then obtain c where "c \<in> set cs" "slash \<in> set c"
    using set_join_with [of bslash cs] by auto
  with assms show False by (auto simp: list_all_iff clean_comp_def)
qed

text \<open>The components of a joined path are what \<open>commonpath\<close> and \<open>normpath\<close> read back.\<close>

lemma norm_comps_join:
  assumes "list_all clean_comp cs"
  shows "norm_comps rooted [] (split_on bslash (join_with bslash cs)) = cs"
proof (cases "cs = []")
  case False
  then have "split_on bslash (join_with bslash cs) = cs"
    using assms by (intro split_join) (auto simp: list_all_iff clean_comp_def)
  then show ?thesis using assms by (simp add: norm_comps_clean)
qed simp

lemma plain_comps_join:
  assumes "list_all clean_comp cs"
  shows "plain_comps (join_with bslash cs) = cs"
proof (cases "cs = []")
  case False
  then have "split_on bslash (join_with bslash cs) = cs"
    using assms by (intro split_join) (auto simp: list_all_iff clean_comp_def)
  then show ?thesis using assms by (auto simp: plain_comps_def list_all_iff clean_comp_def filter_id_conv)
qed (simp add: plain_comps_def)

lemma join_with_inj:
  assumes "list_all clean_comp cs" and "list_all clean_comp cs'"
  shows "join_with bslash cs = join_with bslash cs' \<longleftrightarrow> cs = cs'"
  using plain_comps_join [OF assms(1)] plain_comps_join [OF assms(2)] by metis

lemma clean_comp_lower: "clean_comp c \<Longrightarrow> clean_comp (map lower_char c)"
proof -
  assume c: "clean_comp c"
  have "map lower_char c = dot \<longleftrightarrow> c = dot" "map lower_char c = dotdot \<longleftrightarrow> c = dotdot"
    using lower_char_special(4) by (auto simp: map_eq_Cons_conv)
  moreover have "bslash \<in> set (map lower_char c) \<longleftrightarrow> bslash \<in> set c" "slash \<in> set (map lower_char c) \<longleftrightarrow> slash \<in> set c"
    by (induction c) (simp_all add: eq_commute [of slash] eq_commute [of bslash])
  ultimately show ?thesis using c by (simp add: clean_comp_def)
qed

section \<open>Absolute paths in normal form\<close>

lemma splitroot_shape:
  assumes "slash \<notin> set p" and "splitroot p = (d, r, t)"
  shows "d = [] \<or> (starts_with [bslash, bslash] d \<and> (r = [bslash] \<or> r = [] \<and> t = []))
    \<or> (\<not> starts_with [bslash, bslash] d \<and> (r = [bslash] \<or> r = [] \<and> \<not> starts_with [bslash] t))"
proof (cases "py_slice 0 1 p = [bslash] \<and> py_slice 1 2 p = [bslash]")
  case True
  then have p: "take 2 p = [bslash, bslash]"
    by (cases p; cases "tl p") (auto simp: py_slice_def)
  let ?k = "if map upper_char (py_slice 0 8 p) = UNC_PREFIX then 8 else 2"
  show ?thesis
  proof (cases "find_from bslash ?k p")
    case None
    with True assms have "d = p \<and> r = [] \<and> t = []"
      by (auto simp: splitroot_def to_bslash_noop Let_def split: if_splits)
    with p show ?thesis by (simp add: starts_with_def)
  next
    case (Some i)
    show ?thesis
    proof (cases "find_from bslash (i + 1) p")
      case None
      with True Some assms have "d = p \<and> r = [] \<and> t = []"
        by (auto simp: splitroot_def to_bslash_noop Let_def split: if_splits)
      with p show ?thesis by (simp add: starts_with_def)
    next
      case j: (Some j)
      have "2 \<le> i" using find_from_SomeD(1) [OF Some] by (auto split: if_splits)
      moreover have "i + 1 \<le> j" by (rule find_from_SomeD(1) [OF j])
      ultimately have "take 2 (take j p) = take 2 p" by (simp add: min_absorb1)
      moreover have "d = take j p" "r = [bslash]"
        using splitroot_UNC [OF assms(1) _ _ Some j] True assms(2) by auto
      ultimately show ?thesis using p by (simp add: starts_with_def)
    qed
  qed
next
  case False
  show ?thesis
  proof (cases "py_slice 0 1 p = [bslash]")
    case True
    with False assms have "d = []"
      by (auto simp: splitroot_def to_bslash_noop Let_def split: if_splits)
    then show ?thesis by simp
  next
    case b: False
    then have "\<not> starts_with [bslash, bslash] (take 2 p)"
      by (cases p) (auto simp: starts_with_def py_slice_def)
    moreover have "\<not> starts_with [bslash] (drop 2 p)" if "py_slice 2 3 p \<noteq> [bslash]"
      using that by (auto simp: starts_with_def py_slice_def)
    ultimately show ?thesis
      using assms b by (auto simp: splitroot_def to_bslash_noop Let_def split: if_splits)
  qed
qed

text \<open>\<open>abs_form d r cs\<close>: the drive, root and components of a path in normal form.\<close>

definition abs_path :: "string \<Rightarrow> string \<Rightarrow> string list \<Rightarrow> string" where
  "abs_path d r cs = d @ r @ join_with bslash cs"

definition abs_form :: "string \<Rightarrow> string \<Rightarrow> string list \<Rightarrow> bool" where
  "abs_form d r cs \<longleftrightarrow> d \<noteq> [] \<and> slash \<notin> set d \<and> (r = [bslash] \<or> r = [] \<and> cs = [] \<and> starts_with [bslash, bslash] d)
     \<and> list_all clean_comp cs \<and> splitroot (abs_path d r cs) = (d, r, join_with bslash cs)"

lemma abs_form_slash_free: "abs_form d r cs \<Longrightarrow> slash \<notin> set (abs_path d r cs)"
  using join_slash_free by (auto simp: abs_form_def abs_path_def)

lemma normpath_abs:
  assumes sp: "splitroot (to_bslash p) = (d, r, t)" and d: "d \<noteq> []"
    and rt: "r \<noteq> [] \<or> t = [] \<and> starts_with [bslash, bslash] d"
  obtains cs where "normpath p = abs_path d r cs" and "abs_form d r cs"
proof (cases "r = []")
  case True
  with rt have t: "t = []" and u: "starts_with [bslash, bslash] d" by auto
  have "to_bslash p = d" using splitroot_append [OF sp] True t by simp
  then have "slash \<notin> set d" by (metis slash_to_bslash)
  then have "abs_form d r []"
    using sp True t d u \<open>to_bslash p = d\<close> by (simp add: abs_form_def abs_path_def)
  moreover have "normpath p = abs_path d r []"
    using sp True t d by (simp add: normpath_def abs_path_def)
  ultimately show thesis using that by blast
next
  case False
  let ?cs = "norm_comps True [] (split_on bslash t)"
  have app: "to_bslash p = d @ r @ t" by (rule splitroot_append [OF sp])
  have sl: "slash \<notin> set d" "slash \<notin> set t" using slash_to_bslash [of p] unfolding app by auto
  have "list_all clean_comp ?cs"
    using split_on_no_sep [of _ bslash t] split_on_set [of _ bslash t] sl(2)
    by (intro norm_comps_rooted_clean) auto
  moreover have "r = [bslash]"
    using splitroot_shape [OF slash_to_bslash sp] d False by auto
  moreover have "splitroot (d @ r @ join_with bslash ?cs) = (d, r, join_with bslash ?cs)"
    by (rule splitroot_tail [OF slash_to_bslash join_slash_free [OF \<open>list_all clean_comp ?cs\<close>] sp d False])
  ultimately have "abs_form d r ?cs" using sl d by (simp add: abs_form_def abs_path_def)
  moreover have "normpath p = abs_path d r ?cs"
    using sp False d by (simp add: normpath_def abs_path_def)
  ultimately show thesis using that by blast
qed

lemma normpath_abs_form:
  assumes "abs_form d r cs"
  shows "normpath (abs_path d r cs) = abs_path d r cs"
  using assms abs_form_slash_free [OF assms]
  by (auto simp: normpath_def to_bslash_noop abs_form_def norm_comps_join) (simp_all add: abs_path_def)

lemma abs_form_lower:
  assumes "abs_form d r cs"
  shows "abs_form (py_lower d) r (map py_lower cs)"
    and "py_lower (abs_path d r cs) = abs_path (py_lower d) r (map py_lower cs)"
proof -
  have lb: "lower_char bslash = bslash" by simp
  have pl: "py_lower = map lower_char" by (rule ext) (simp add: py_lower_def)
  have j: "map lower_char (join_with bslash cs) = join_with bslash (map (map lower_char) cs)"
    by (simp add: join_with_map)
  have r: "map lower_char r = r" using assms by (auto simp: abs_form_def)
  show path: "py_lower (abs_path d r cs) = abs_path (py_lower d) r (map py_lower cs)"
    by (simp add: abs_path_def pl j r)
  have "splitroot (py_lower (abs_path d r cs)) = (py_lower d, r, join_with bslash (map py_lower cs))"
    using splitroot_map [OF path_neutral_lower abs_form_slash_free [OF assms]] assms
    by (simp add: abs_form_def pl j r)
  moreover have "starts_with [bslash, bslash] d \<Longrightarrow> starts_with [bslash, bslash] (py_lower d)"
    by (simp add: starts_with_def py_lower_def take_map)
  moreover have "slash \<notin> set (py_lower d)" using assms by (simp add: abs_form_def)
  moreover have "list_all clean_comp (map py_lower cs)"
    using assms clean_comp_lower by (auto simp: abs_form_def list_all_iff py_lower_def)
  ultimately show "abs_form (py_lower d) r (map py_lower cs)"
    using assms path by (auto simp: abs_form_def) (auto simp: py_lower_def)
qed

end
