(* ===== verification/PyValue.thy ===== *)
theory PyValue
  imports Prelude
begin

text \<open>
  The JSON-like values that cross the kernel's boundaries (tool calls, request bodies,
  policy documents): \<open>pyval\<close>. A \<open>dict\<close> is the association list of its items in insertion
  order; the lookups below use the first binding, and the operations that build dicts keep
  keys distinct. A float is kept as the text of its literal, since the modelled code only
  ever asks whether a value is one.
\<close>

datatype pyval =
    PNone
  | PBool bool
  | PInt int
  | PFloat string
  | PStr string
  | PList "pyval list"
  | PDict "(string \<times> pyval) list"

type_synonym pydict = "(string \<times> pyval) list"

text \<open>\<open>d.get(k)\<close>: the value, or \<open>None\<close>.\<close>

definition dict_get :: "pydict \<Rightarrow> string \<Rightarrow> pyval" where
  "dict_get d k = (case map_of d k of None \<Rightarrow> PNone | Some v \<Rightarrow> v)"

definition dict_has :: "pydict \<Rightarrow> string \<Rightarrow> bool" where
  "dict_has d k = (map_of d k \<noteq> None)"

text \<open>\<open>d[k] = v\<close>: in place when the key is there, at the end otherwise.\<close>

fun dict_set :: "(string \<times> 'v) list \<Rightarrow> string \<Rightarrow> 'v \<Rightarrow> (string \<times> 'v) list" where
  "dict_set [] k v = [(k, v)]"
| "dict_set ((k', v') # d) k v = (if k' = k then (k, v) # d else (k', v') # dict_set d k v)"

definition is_str :: "pyval \<Rightarrow> bool" where
  "is_str v = (case v of PStr _ \<Rightarrow> True | _ \<Rightarrow> False)"

text \<open>Python truth of a value (\<open>x or ...\<close>, \<open>if x\<close>). A float literal is zero when all its
  mantissa digits are.\<close>

definition float_truthy :: "string \<Rightarrow> bool" where
  "float_truthy s = (\<exists>c \<in> set (takeWhile (\<lambda>c. c \<noteq> CHR ''e'' \<and> c \<noteq> CHR ''E'') s).
     c \<noteq> CHR ''0'' \<and> c \<noteq> CHR ''.'' \<and> c \<noteq> CHR ''-'')"

fun truthy :: "pyval \<Rightarrow> bool" where
  "truthy PNone = False"
| "truthy (PBool b) = b"
| "truthy (PInt i) = (i \<noteq> 0)"
| "truthy (PFloat s) = float_truthy s"
| "truthy (PStr s) = (s \<noteq> [])"
| "truthy (PList vs) = (vs \<noteq> [])"
| "truthy (PDict d) = (d \<noteq> [])"

section \<open>Text of a value\<close>

text \<open>\<open>str(i)\<close> for an int.\<close>

definition digit_char :: "nat \<Rightarrow> char" where
  "digit_char n = char_of (48 + n)"

fun nat_text :: "nat \<Rightarrow> string" where
  "nat_text n = (if n < 10 then [digit_char n] else nat_text (n div 10) @ [digit_char (n mod 10)])"

declare nat_text.simps [simp del]

definition int_text :: "int \<Rightarrow> string" where
  "int_text i = (if i < 0 then CHR ''-'' # nat_text (nat (- i)) else nat_text (nat i))"

definition hex_digit :: "nat \<Rightarrow> char" where
  "hex_digit n = (if n < 10 then char_of (48 + n) else char_of (87 + n))"

text \<open>\<open>repr\<close> of a string: single quotes unless the text has one and no double quote; the
  quote, the backslash and the non-printing code points are escaped.\<close>

definition repr_char :: "char \<Rightarrow> char \<Rightarrow> string" where
  "repr_char q c =
     (let n = of_char c :: nat in
      if c = q \<or> n = 92 then [CHR 0x5C, c]
      else if n = 10 then [CHR 0x5C, CHR ''n'']
      else if n = 13 then [CHR 0x5C, CHR ''r'']
      else if n = 9 then [CHR 0x5C, CHR ''t'']
      else if n < 32 \<or> (127 \<le> n \<and> n \<le> 160) \<or> n = 173
      then [CHR 0x5C, CHR ''x'', hex_digit (n div 16), hex_digit (n mod 16)]
      else [c])"

definition repr_str :: "string \<Rightarrow> string" where
  "repr_str s =
     (let q = (if CHR 0x27 \<in> set s \<and> CHR 0x22 \<notin> set s then CHR 0x22 else CHR 0x27)
      in q # concat (map (repr_char q) s) @ [q])"

fun comma_join :: "string list \<Rightarrow> string" where
  "comma_join [] = []"
| "comma_join [s] = s"
| "comma_join (s # t # ts) = s @ '', '' @ comma_join (t # ts)"

fun py_repr :: "pyval \<Rightarrow> string" where
  "py_repr PNone = ''None''"
| "py_repr (PBool b) = (if b then ''True'' else ''False'')"
| "py_repr (PInt i) = int_text i"
| "py_repr (PFloat s) = s"
| "py_repr (PStr s) = repr_str s"
| "py_repr (PList vs) = ''['' @ comma_join (map py_repr vs) @ '']''"
| "py_repr (PDict d) = [CHR 0x7B] @ comma_join (map (\<lambda>(k, v). repr_str k @ '': '' @ py_repr v) d) @ [CHR 0x7D]"

definition py_str :: "pyval \<Rightarrow> string" where
  "py_str v = (case v of PStr s \<Rightarrow> s | _ \<Rightarrow> py_repr v)"

text \<open>\<open>str(v or "")\<close>.\<close>

definition str_or_empty :: "pyval \<Rightarrow> string" where
  "str_or_empty v = (if truthy v then py_str v else [])"

text \<open>\<open>int(text)\<close> on a stripped text: an optional sign and decimal digits, single underscores
  allowed between digits.\<close>

fun digits_value :: "nat \<Rightarrow> string \<Rightarrow> nat option" where
  "digits_value a [] = Some a"
| "digits_value a (c # s) =
     (if ascii_digit c then digits_value (10 * a + (of_char c - 48)) s
      else if c = CHR ''_'' \<and> s \<noteq> [] \<and> ascii_digit (hd s) then digits_value a s
      else None)"

definition parse_int :: "string \<Rightarrow> int option" where
  "parse_int s =
     (let neg = starts_with ''-'' s; body = (if neg \<or> starts_with ''+'' s then tl s else s) in
      if body = [] \<or> \<not> ascii_digit (hd body) then None
      else map_option (\<lambda>n. if neg then - int n else int n) (digits_value 0 body))"

section \<open>Equality of values\<close>

text \<open>Python's \<open>==\<close>: a bool equals the int it is, an integral float (below 1e16, where
  \<open>repr\<close> shows it as digits) the int it is; dicts compare without order.\<close>

definition num_eq :: "pyval \<Rightarrow> pyval \<Rightarrow> bool" where
  "num_eq a b =
     (let as_int = (\<lambda>v. case v of PBool x \<Rightarrow> Some (if x then 1 else 0 :: int) | PInt i \<Rightarrow> Some i | _ \<Rightarrow> None) in
      case (as_int a, as_int b) of
        (Some i, Some j) \<Rightarrow> i = j
      | (Some i, None) \<Rightarrow> b = PFloat (int_text i @ ''.0'') \<or> (i = 0 \<and> b = PFloat ''-0.0'')
      | (None, Some j) \<Rightarrow> a = PFloat (int_text j @ ''.0'') \<or> (j = 0 \<and> a = PFloat ''-0.0'')
      | (None, None) \<Rightarrow> a = b \<or> {a, b} = {PFloat ''0.0'', PFloat ''-0.0''})"

fun py_eq :: "pyval \<Rightarrow> pyval \<Rightarrow> bool"
  and py_eq_list :: "pyval list \<Rightarrow> pyval list \<Rightarrow> bool"
  and py_eq_items :: "pydict \<Rightarrow> pydict \<Rightarrow> bool" where
  "py_eq (PList xs) w = (case w of PList ys \<Rightarrow> py_eq_list xs ys | _ \<Rightarrow> False)"
| "py_eq (PDict d) w = (case w of PDict e \<Rightarrow> length d = length e \<and> py_eq_items d e | _ \<Rightarrow> False)"
| "py_eq PNone w = (w = PNone)"
| "py_eq (PStr s) w = (w = PStr s)"
| "py_eq (PBool b) w = num_eq (PBool b) w"
| "py_eq (PInt i) w = num_eq (PInt i) w"
| "py_eq (PFloat s) w = num_eq (PFloat s) w"
| "py_eq_list [] ws = (ws = [])"
| "py_eq_list (v # vs) ws = (case ws of [] \<Rightarrow> False | w # ws' \<Rightarrow> py_eq v w \<and> py_eq_list vs ws')"
| "py_eq_items [] e = True"
| "py_eq_items ((k, v) # d) e =
     (case map_of e k of None \<Rightarrow> False | Some w \<Rightarrow> py_eq v w \<and> py_eq_items d e)"

section \<open>Facts\<close>

lemma py_str_PStr [simp]: "py_str (PStr s) = s"
  by (simp add: py_str_def)

lemma str_or_empty_simps [simp]: "str_or_empty (PStr s) = s" "str_or_empty PNone = []"
  by (simp_all add: str_or_empty_def)

lemma py_eq_int: "py_eq (PInt i) (PInt j) \<longleftrightarrow> i = j"
  by (simp add: num_eq_def)

lemma map_of_dict_set [simp]: "map_of (dict_set d k v) = (map_of d)(k \<mapsto> v)"
  by (induction d k v rule: dict_set.induct) auto

lemma dict_get_set [simp]: "dict_get (dict_set d k v) k' = (if k' = k then v else dict_get d k')"
  by (simp add: dict_get_def)

lemma keys_dict_set: "set (map fst (dict_set d k v)) = insert k (set (map fst d))"
  by (induction d k v rule: dict_set.induct) auto

lemma distinct_dict_set: "distinct (map fst d) \<Longrightarrow> distinct (map fst (dict_set d k v))"
proof (induction d k v rule: dict_set.induct)
  case (2 k' v' d k v)
  then show ?case using keys_dict_set [of d k v] by auto
qed simp

end
