(* ===== verification/PathNormalize.thy ===== *)
theory PathNormalize
  imports NtPath PyValue
begin

text \<open>
  The lexical part of \<open>jack_path_policy.py\<close>: from a represented target (a value of a tool
  call) to a canonical absolute Windows path. Environment references are expanded from a
  frozen snapshot, known Win32 prefixes are reduced, Win32 segment endings are trimmed, and
  \<open>ntpath\<close> normalises. Each way the code refuses is a constructor of \<open>path_error\<close> carrying
  the message, which later decisions read. \<open>PathValueError\<close> is a \<open>ValueError\<close> outside the
  \<open>RepresentedPathError\<close> hierarchy, which no handler of the module catches.

  The lemmas show that every path the normaliser returns is canonical and absolute, so the
  containment test on it cannot raise.
\<close>

section \<open>Errors and environment\<close>

datatype path_error =
    PathInvalid string
  | PathAmbiguous string
  | PathNeedsExecutorCwd string
  | PathValueError string

definition path_error_text :: "path_error \<Rightarrow> string" where
  "path_error_text e = (case e of PathInvalid m \<Rightarrow> m | PathAmbiguous m \<Rightarrow> m
     | PathNeedsExecutorCwd m \<Rightarrow> m | PathValueError m \<Rightarrow> m)"

type_synonym env = "(string \<times> string) list"

definition PATH_ENVIRONMENT_KEYS :: "string list" where
  "PATH_ENVIRONMENT_KEYS =
     [''SystemRoot'', ''WINDIR'', ''SystemDrive'', ''USERPROFILE'', ''HOME'', ''HOMEDRIVE'',
      ''HOMEPATH'', ''APPDATA'', ''LOCALAPPDATA'', ''PROGRAMDATA'', ''PROGRAMFILES'',
      ''PROGRAMFILES(X86)'', ''TEMP'', ''TMP'']"

text \<open>\<open>_normalized_environment\<close>: for each known key, the value of the first entry that spells
  it in any case; an entry holding Python's \<open>None\<close> counts as absent.\<close>

definition normalized_environment :: "(string \<times> string option) list \<Rightarrow> env" where
  "normalized_environment source =
     concat (map (\<lambda>key.
        case find (\<lambda>(raw_key, _). py_lower raw_key = py_lower key) source of
          Some (_, Some v) \<Rightarrow> [(py_lower key, v)]
        | _ \<Rightarrow> []) PATH_ENVIRONMENT_KEYS)"

definition env_source :: "env \<Rightarrow> (string \<times> string option) list" where
  "env_source e = map (\<lambda>(k, v). (k, Some v)) e"

definition is_quote :: "char \<Rightarrow> bool" where
  "is_quote c = (c = CHR 0x27 \<or> c = CHR 0x22)"

definition strip_one_matching_quote_layer :: "string \<Rightarrow> string" where
  "strip_one_matching_quote_layer value =
     (let text = py_strip value in
      if 2 \<le> length text \<and> hd text = last text \<and> is_quote (hd text)
      then py_strip (butlast (tl text)) else text)"

section \<open>Expanding environment references\<close>

text \<open>A match of \<open>%([^%]+)%\<close> whose opening sign has been read: the name and the rest.\<close>

definition percent_match :: "string \<Rightarrow> (string \<times> string) option" where
  "percent_match s =
     (let n = takeWhile (\<lambda>c. c \<noteq> CHR ''%'') s; r = dropWhile (\<lambda>c. c \<noteq> CHR ''%'') s
      in if n = [] \<or> r = [] then None else Some (n, tl r))"

definition ident_start :: "char \<Rightarrow> bool" where
  "ident_start c = (ascii_alpha c \<or> c = CHR ''_'')"

definition ident_char :: "char \<Rightarrow> bool" where
  "ident_char c = (ident_start c \<or> ascii_digit c \<or> c = CHR ''('' \<or> c = CHR '')'')"

definition ident_prefix :: "string \<Rightarrow> string" where
  "ident_prefix s = (case s of [] \<Rightarrow> []
     | c # cs \<Rightarrow> if ident_start c then c # takeWhile ident_char cs else [])"

text \<open>A match of \<open>_ENV_POWERSHELL_RE\<close> whose dollar sign has been read.\<close>

definition powershell_match :: "string \<Rightarrow> (string \<times> string) option" where
  "powershell_match s =
     (if py_lower (take 4 s) = ''env:'' \<and> ident_prefix (drop 4 s) \<noteq> [] then
        (let n = ident_prefix (drop 4 s) in Some (n, drop (4 + length n) s))
      else if take 1 s = [CHR 0x7B] \<and> py_lower (py_slice 1 5 s) = ''env:''
              \<and> ident_prefix (drop 5 s) \<noteq> [] then
        (let n = ident_prefix (drop 5 s); r = drop (5 + length n) s
         in if take 1 r = [CHR 0x7D] then Some (n, tl r) else None)
      else None)"

lemma percent_match_shorter: "percent_match s = Some (n, r) \<Longrightarrow> length r < length s"
proof -
  let ?r = "dropWhile (\<lambda>c. c \<noteq> CHR ''%'') s"
  assume "percent_match s = Some (n, r)"
  then have "r = tl ?r" "?r \<noteq> []" by (auto simp: percent_match_def Let_def split: if_splits)
  moreover have "length ?r \<le> length s" by (rule length_dropWhile_le)
  ultimately show ?thesis by (cases ?r) auto
qed

lemma powershell_match_shorter: "powershell_match s = Some (n, r) \<Longrightarrow> length r < length s"
  by (cases s) (auto simp: powershell_match_def Let_def ident_prefix_def split: if_splits)

definition unresolved :: "string \<Rightarrow> path_error" where
  "unresolved t = PathAmbiguous (''unresolved environment variable '' @ t)"

text \<open>\<open>re.sub\<close> with the replacement functions \<open>percent\<close> and \<open>powershell\<close>: whether something
  was replaced, and the new text; the first unknown name raises.\<close>

function sub_percent :: "env \<Rightarrow> string \<Rightarrow> path_error + (bool \<times> string)" where
  "sub_percent e [] = Inr (False, [])"
| "sub_percent e (c # s) =
     (case (if c = CHR ''%'' then percent_match s else None) of
        Some (n, r) \<Rightarrow>
          (case map_of e (py_lower n) of
             None \<Rightarrow> Inl (unresolved (''%'' @ n @ ''%''))
           | Some v \<Rightarrow> try_bind (sub_percent e r) (\<lambda>(_, t). Inr (True, v @ t)))
      | None \<Rightarrow> try_bind (sub_percent e s) (\<lambda>(b, t). Inr (b, c # t)))"
  by pat_completeness auto
termination
  by (relation "measure (\<lambda>(e, s). length s)")
     (auto dest: percent_match_shorter split: if_splits)

function sub_powershell :: "env \<Rightarrow> string \<Rightarrow> path_error + (bool \<times> string)" where
  "sub_powershell e [] = Inr (False, [])"
| "sub_powershell e (c # s) =
     (case (if c = CHR ''$'' then powershell_match s else None) of
        Some (n, r) \<Rightarrow>
          (case map_of e (py_lower n) of
             None \<Rightarrow> Inl (unresolved (c # take (length s - length r) s))
           | Some v \<Rightarrow> try_bind (sub_powershell e r) (\<lambda>(_, t). Inr (True, v @ t)))
      | None \<Rightarrow> try_bind (sub_powershell e s) (\<lambda>(b, t). Inr (b, c # t)))"
  by pat_completeness auto
termination
  by (relation "measure (\<lambda>(e, s). length s)")
     (auto dest: powershell_match_shorter split: if_splits)

fun has_reference :: "string \<Rightarrow> bool" where
  "has_reference [] = False"
| "has_reference (c # s) =
     (c = CHR ''%'' \<and> percent_match s \<noteq> None \<or> c = CHR ''$'' \<and> powershell_match s \<noteq> None
      \<or> has_reference s)"

text \<open>The loop of \<open>_expand_known_environment\<close>, the first argument counting the rounds left.\<close>

fun expand_rounds :: "nat \<Rightarrow> env \<Rightarrow> string \<Rightarrow> path_error + string" where
  "expand_rounds 0 e text =
     (if has_reference text then Inl (PathAmbiguous ''environment expansion did not converge'')
      else Inr text)"
| "expand_rounds (Suc n) e text =
     try_bind (sub_percent e text) (\<lambda>(b1, t1).
     try_bind (sub_powershell e t1) (\<lambda>(b2, t2).
       if t2 = text \<or> \<not> (b1 \<or> b2) then Inr t2 else expand_rounds n e t2))"

definition expand_known_environment :: "string \<Rightarrow> env \<Rightarrow> path_error + string" where
  "expand_known_environment text e = expand_rounds 8 e text"

section \<open>Prefixes and segments\<close>

definition has_rooted_drive :: "string \<Rightarrow> bool" where
  "has_rooted_drive s = (case splitdrive s of (drive, rest) \<Rightarrow>
     drive \<noteq> [] \<and> (starts_with [bslash] rest \<or> starts_with [slash] rest))"

definition normalize_known_windows_prefix :: "string \<Rightarrow> path_error + string" where
  "normalize_known_windows_prefix text =
     (let lowered = py_lower text in
      if starts_with (to_bslash ''//?/unc/'') lowered then Inr ([bslash, bslash] @ drop 8 text)
      else if starts_with (to_bslash ''//?/'') lowered then
        (if has_rooted_drive (drop 4 text) then Inr (drop 4 text)
         else Inl (PathAmbiguous ''unsupported Win32 extended-length namespace''))
      else if starts_with (to_bslash ''/??/'') lowered then
        (if has_rooted_drive (drop 4 text) then Inr (drop 4 text)
         else Inl (PathAmbiguous ''unsupported NT object-manager path namespace''))
      else if starts_with (to_bslash ''//./'') lowered then
        Inl (PathAmbiguous ''Win32 device namespace is not a canonical filesystem target'')
      else Inr text)"

definition trim_segment :: "string \<Rightarrow> path_error + string" where
  "trim_segment part =
     (if part = [] \<or> part = dot \<or> part = dotdot then Inr part
      else let trimmed = py_rstrip_by (\<lambda>c. c = CHR '' '' \<or> c = CHR ''.'') part in
        if trimmed = []
        then Inl (PathAmbiguous ''Win32 segment normalization produced an empty path component'')
        else Inr trimmed)"

definition normalize_standard_win32_segment_endings :: "string \<Rightarrow> path_error + string" where
  "normalize_standard_win32_segment_endings text =
     (case splitdrive text of (drive, rest) \<Rightarrow>
        try_bind (try_map trim_segment (split_on bslash rest)) (\<lambda>parts.
          Inr (drive @ join_with bslash parts)))"

definition is_absolute_windows_path :: "string \<Rightarrow> bool" where
  "is_absolute_windows_path path =
     (case splitdrive path of (drive, rest) \<Rightarrow>
        if starts_with [bslash, bslash] drive then starts_with [bslash] rest \<or> rest = []
        else if drive \<noteq> [] then starts_with [bslash] rest
        else False)"

definition is_drive_relative :: "string \<Rightarrow> bool" where
  "is_drive_relative path =
     (case splitdrive path of (drive, rest) \<Rightarrow>
        drive \<noteq> [] \<and> \<not> starts_with [bslash, bslash] drive \<and> \<not> starts_with [bslash] rest)"

text \<open>\<open>_require_canonical_absolute\<close>, whose only effect is to raise.\<close>

definition require_canonical_absolute :: "string \<Rightarrow> string \<Rightarrow> path_error + unit" where
  "require_canonical_absolute path label =
     (if path = [] then Inl (PathValueError (label @ '' must be a non-empty string''))
      else if path \<noteq> normcase (normpath path) then Inl (PathValueError (label @ '' must already be canonical''))
      else if \<not> is_absolute_windows_path path then Inl (PathValueError (label @ '' must be absolute''))
      else Inr ())"

definition canonical :: "string \<Rightarrow> bool" where
  "canonical path = (require_canonical_absolute path [] = Inr ())"

definition is_drive_letter :: "string \<Rightarrow> bool" where
  "is_drive_letter d = (length d = 2 \<and> ascii_alpha (hd d) \<and> d ! 1 = colon)"

section \<open>The normaliser\<close>

text \<open>The two steps that may consult the executor's directory: a path rooted at the current
  drive takes the drive of \<open>base_root\<close>; a relative path is joined to it.\<close>

definition root_current_drive :: "string \<Rightarrow> string option \<Rightarrow> path_error + string" where
  "root_current_drive text base_root =
     (if starts_with [bslash] text \<and> \<not> starts_with [bslash, bslash] text then
        (case base_root of
           None \<Rightarrow> Inl (PathAmbiguous
             ''current-drive-rooted Windows path requires the executor's current drive'')
         | Some base \<Rightarrow>
             try_bind (require_canonical_absolute base ''base_root'') (\<lambda>_.
               let base_drive = fst (splitdrive base) in
               if \<not> is_drive_letter base_drive then Inl (PathAmbiguous
                 ''current-drive-rooted Windows path cannot derive a drive from executor cwd'')
               else Inr (base_drive @ text)))
      else Inr text)"

definition join_relative :: "string \<Rightarrow> string option \<Rightarrow> path_error + string" where
  "join_relative text base_root =
     (if is_absolute_windows_path text then Inr text
      else case base_root of
          None \<Rightarrow> Inl (PathNeedsExecutorCwd
            ''relative represented path requires the executor's actual cwd'')
        | Some base \<Rightarrow>
            try_bind (require_canonical_absolute base ''base_root'') (\<lambda>_. Inr (nt_join base text)))"

definition normalize_represented_windows_path ::
    "pyval \<Rightarrow> string option \<Rightarrow> (string \<times> string option) list \<Rightarrow> path_error + string" where
  "normalize_represented_windows_path value base_root environment =
     (case value of
        PStr raw \<Rightarrow>
          (let text = strip_one_matching_quote_layer raw in
           if text = [] then Inl (PathInvalid ''represented path must not be empty'')
           else if CHR 0x00 \<in> set text then Inl (PathInvalid ''represented path contains NUL'')
           else
             try_bind (expand_known_environment text (normalized_environment environment)) (\<lambda>text.
             let lowered = py_casefold text;
                 extended = starts_with (to_bslash ''//?/'') lowered \<or> starts_with (to_bslash ''/??/'') lowered
             in
             try_bind (normalize_known_windows_prefix text) (\<lambda>text.
             let text = to_bslash text in
             if is_drive_relative text then
               Inl (PathAmbiguous ''drive-relative Windows path has executor-dependent meaning'')
             else
             try_bind (root_current_drive text base_root) (\<lambda>text.
             try_bind (join_relative text base_root) (\<lambda>text.
             try_bind (if extended then Inr text else normalize_standard_win32_segment_endings text) (\<lambda>text.
             let result = normcase (normpath text) in
             if \<not> is_absolute_windows_path result then
               Inl (PathAmbiguous ''represented path did not normalize to an absolute Windows path'')
             else Inr result))))))
      | _ \<Rightarrow> Inl (PathInvalid ''represented path must be a string''))"

section \<open>Absolute and canonical paths\<close>

lemma starts_with_Cons [simp]: "starts_with [c] s \<longleftrightarrow> (\<exists>s'. s = c # s')"
  by (cases s) (auto simp: starts_with_def)

lemma is_absolute_iff:
  assumes "slash \<notin> set p" and "splitroot p = (d, r, t)"
  shows "is_absolute_windows_path p \<longleftrightarrow>
    d \<noteq> [] \<and> (r \<noteq> [] \<or> t = [] \<and> starts_with [bslash, bslash] d)"
  using splitroot_shape [OF assms] assms(2)
  by (auto simp: is_absolute_windows_path_def splitdrive_def)

lemma is_absolute_abs_form: "abs_form d r cs \<Longrightarrow> is_absolute_windows_path (abs_path d r cs)"
  using is_absolute_iff [OF abs_form_slash_free] by (fastforce simp: abs_form_def)

lemma normcase_normpath_absolute:
  assumes "slash \<notin> set p" and "is_absolute_windows_path p"
  obtains d r cs where "normcase (normpath p) = abs_path d r cs" and "abs_form d r cs"
    and "py_lower (abs_path d r cs) = abs_path d r cs"
proof -
  obtain d r t where sp: "splitroot p = (d, r, t)" by (metis prod.exhaust)
  then have "d \<noteq> []" "r \<noteq> [] \<or> t = [] \<and> starts_with [bslash, bslash] d"
    using is_absolute_iff [OF assms(1) sp] assms(2) by auto
  then obtain cs where np: "normpath p = abs_path d r cs" and af: "abs_form d r cs"
    using normpath_abs [of p d r t] sp to_bslash_noop [OF assms(1)] by metis
  have "normcase (normpath p) = abs_path (py_lower d) r (map py_lower cs)"
    using abs_form_lower(2) [OF af] abs_form_slash_free [OF af]
    by (simp add: normcase_def np to_bslash_noop)
  moreover have "py_lower (abs_path (py_lower d) r (map py_lower cs)) = abs_path (py_lower d) r (map py_lower cs)"
    using abs_form_lower(2) [OF af] by (metis py_lower_idem)
  ultimately show thesis using that abs_form_lower(1) [OF af] by blast
qed

lemma canonical_iff:
  "canonical p \<longleftrightarrow> (\<exists>d r cs. p = abs_path d r cs \<and> abs_form d r cs \<and> py_lower p = p)"
proof
  assume c: "canonical p"
  then have eq: "p = normcase (normpath p)" and a: "is_absolute_windows_path p"
    by (auto simp: canonical_def require_canonical_absolute_def split: if_splits)
  have sl: "slash \<notin> set p" by (subst eq) (simp add: normcase_def)
  from normcase_normpath_absolute [OF sl a] eq
  show "\<exists>d r cs. p = abs_path d r cs \<and> abs_form d r cs \<and> py_lower p = p" by metis
next
  assume "\<exists>d r cs. p = abs_path d r cs \<and> abs_form d r cs \<and> py_lower p = p"
  then obtain d r cs where p: "p = abs_path d r cs" and af: "abs_form d r cs" and lp: "py_lower p = p"
    by blast
  have "normcase (normpath p) = p"
    using normpath_abs_form [OF af] abs_form_slash_free [OF af] lp
    by (simp add: p normcase_def to_bslash_noop)
  moreover have "p \<noteq> []" using af by (simp add: p abs_form_def abs_path_def)
  ultimately show "canonical p"
    using is_absolute_abs_form [OF af] by (simp add: canonical_def require_canonical_absolute_def p)
qed

lemma canonical_slash_free: "canonical p \<Longrightarrow> slash \<notin> set p"
  using abs_form_slash_free by (auto simp: canonical_iff)

lemma require_canonical_iff: "require_canonical_absolute p l = Inr () \<longleftrightarrow> canonical p"
  by (auto simp: canonical_def require_canonical_absolute_def)

lemma require_canonical [simp]: "canonical p \<Longrightarrow> require_canonical_absolute p l = Inr ()"
  by (simp add: require_canonical_iff)

lemma UNC_absolute:
  assumes "slash \<notin> set p" and "starts_with [bslash, bslash] p"
  shows "is_absolute_windows_path p"
proof -
  obtain d r t where sp: "splitroot p = (d, r, t)" by (metis prod.exhaust)
  obtain p' where p: "p = bslash # bslash # p'"
    using assms(2) by (cases p; cases "tl p") (auto simp: starts_with_def)
  have "d \<noteq> [] \<and> starts_with [bslash, bslash] d"
    using sp assms(1) find_from_SomeD(1)
    by (auto simp: p splitroot_def to_bslash_noop Let_def py_slice_def starts_with_def
        take_Cons' dest!: find_from_SomeD(1) split: if_splits option.splits)
  then show ?thesis using is_absolute_iff [OF assms(1) sp] splitroot_shape [OF assms(1) sp] by auto
qed

text \<open>A root with a drive before it makes whatever follows absolute.\<close>

lemma rooted_absolute:
  assumes "slash \<notin> set p" and "splitroot p = (d, r, t)" and "d \<noteq> []" and "r \<noteq> []"
    and "slash \<notin> set t'"
  shows "is_absolute_windows_path (d @ r @ t') \<and> slash \<notin> set (d @ r @ t')"
proof -
  have "splitroot (d @ r @ t') = (d, r, t')"
    by (rule splitroot_tail [OF assms(1,5,2,3,4)])
  moreover have "slash \<notin> set (d @ r @ t')"
    using assms(1,5) splitroot_append [OF assms(2)] by auto
  ultimately show ?thesis using is_absolute_iff assms(3,4) by blast
qed

lemma splitroot_relative:
  assumes "slash \<notin> set p" and "\<not> is_absolute_windows_path p" and "\<not> is_drive_relative p"
    and "\<not> starts_with [bslash] p"
  shows "splitroot p = ([], [], p)"
proof -
  have b: "py_slice 0 1 p \<noteq> [bslash]" using assms(4) by (cases p) (auto simp: py_slice_def)
  have "py_slice 1 2 p \<noteq> [colon]"
  proof
    assume c: "py_slice 1 2 p = [colon]"
    then have "2 \<le> length p" by (cases p; cases "tl p") (auto simp: py_slice_def)
    then have ne: "take 2 p \<noteq> []" by auto
    obtain d r t where sp: "splitroot p = (d, r, t)" by (metis prod.exhaust)
    then have "d = take 2 p"
      using b c assms(1) by (auto simp: splitroot_def to_bslash_noop Let_def split: if_splits)
    then have "d \<noteq> []" using ne by simp
    then show False
      using assms(2,3) splitroot_shape [OF assms(1) sp] is_absolute_iff [OF assms(1) sp] sp
      by (auto simp: is_drive_relative_def splitdrive_def)
  qed
  with b show ?thesis using assms(1) by (simp add: splitroot_def to_bslash_noop Let_def)
qed

lemma canonical_splitroot:
  assumes "canonical base"
  obtains d r t where "splitroot base = (d, r, t)" "d \<noteq> []" "r \<noteq> [] \<or> t = [] \<and> starts_with [bslash, bslash] d"
    "slash \<notin> set base" "base = d @ r @ t"
proof -
  obtain d r cs where b: "base = abs_path d r cs" "abs_form d r cs" using assms canonical_iff by blast
  then have "splitroot base = (d, r, join_with bslash cs)" "d \<noteq> []"
      "r \<noteq> [] \<or> join_with bslash cs = [] \<and> starts_with [bslash, bslash] d"
    by (auto simp: abs_form_def)
  then show thesis using that canonical_slash_free [OF assms] b(1) by (simp add: abs_path_def)
qed

lemma starts_with_append_left: "starts_with p d \<Longrightarrow> starts_with p (d @ s)"
  by (auto simp: starts_with_prefix)

lemma nt_join_absolute:
  assumes base: "canonical base" and p: "slash \<notin> set p" and rel: "splitroot p = ([], [], p)"
  shows "is_absolute_windows_path (nt_join base p) \<and> slash \<notin> set (nt_join base p)"
proof -
  obtain d r t where sp: "splitroot base = (d, r, t)" and d: "d \<noteq> []"
    and rt: "r \<noteq> [] \<or> t = [] \<and> starts_with [bslash, bslash] d"
    and sl: "slash \<notin> set base" and b: "base = d @ r @ t"
    by (rule canonical_splitroot [OF base])
  let ?t = "(if t \<noteq> [] \<and> last t \<notin> {bslash, slash} then t @ [bslash] else t) @ p"
  have slt: "slash \<notin> set ?t" using sl p b by auto
  show ?thesis
  proof (cases "r = []")
    case False
    then have "nt_join base p = d @ r @ ?t"
      by (simp add: nt_join_def sp rel Let_def)
    then show ?thesis using rooted_absolute [OF sl sp d False slt] by simp
  next
    case True
    then have t: "t = []" and u: "starts_with [bslash, bslash] d" using rt by auto
    have "nt_join base p = d @ p \<or> nt_join base p = d @ [bslash] @ p"
      using True t by (simp add: nt_join_def sp rel Let_def)
    moreover have "slash \<notin> set (d @ p)" "slash \<notin> set (d @ [bslash] @ p)" using sl p b by auto
    ultimately show ?thesis
      using UNC_absolute [of "d @ p"] UNC_absolute [of "d @ [bslash] @ p"] u
      by (auto simp: starts_with_append_left)
  qed
qed

lemma trim_segment_subset: "trim_segment q = Inr q' \<Longrightarrow> set q' \<subseteq> set q"
  using set_py_rstrip_by by (fastforce simp: trim_segment_def Let_def split: if_splits)

lemma trimmed_slash_free:
  assumes "try_map trim_segment (split_on bslash t) = Inr ps" and "slash \<notin> set t"
  shows "slash \<notin> set (join_with bslash ps)"
proof
  assume "slash \<in> set (join_with bslash ps)"
  then obtain q' where q': "q' \<in> set ps" "slash \<in> set q'"
    using set_join_with [of bslash ps] by auto
  from assms(1) have all2: "list_all2 (\<lambda>x y. trim_segment x = Inr y) (split_on bslash t) ps"
    by (simp add: try_map_Inr_iff)
  obtain i where i: "i < length ps" "ps ! i = q'" using q'(1) by (metis in_set_conv_nth)
  let ?q = "split_on bslash t ! i"
  have q: "?q \<in> set (split_on bslash t)" using i(1) list_all2_lengthD [OF all2] by simp
  have tq: "trim_segment ?q = Inr q'" using list_all2_nthD2 [OF all2 i(1)] i(2) by simp
  have "slash \<in> set t"
    by (rule subsetD [OF split_on_set [OF q]], rule subsetD [OF trim_segment_subset [OF tq]]) (rule q'(2))
  with assms(2) show False by simp
qed

lemma segment_endings_absolute:
  assumes p: "slash \<notin> set p" and a: "is_absolute_windows_path p"
    and n: "normalize_standard_win32_segment_endings p = Inr q"
  shows "is_absolute_windows_path q \<and> slash \<notin> set q"
proof -
  obtain d r t where sp: "splitroot p = (d, r, t)" by (metis prod.exhaust)
  have d: "d \<noteq> []" and rt: "r \<noteq> [] \<or> t = [] \<and> starts_with [bslash, bslash] d"
    using is_absolute_iff [OF p sp] a by auto
  have pd: "p = d @ r @ t" by (rule splitroot_append [OF sp])
  show ?thesis
  proof (cases "r = []")
    case True
    then have t: "t = []" using rt by simp
    then have "splitdrive p = (p, [])" using True pd sp by (simp add: splitdrive_def)
    then have "q = p" using n
      by (simp add: normalize_standard_win32_segment_endings_def trim_segment_def)
    with p a show ?thesis by simp
  next
    case False
    then have r: "r = [bslash]" using splitroot_shape [OF p sp] d by auto
    obtain ps where tm: "try_map trim_segment (split_on bslash t) = Inr ps"
      and q: "q = d @ join_with bslash ([] # ps)"
      using n by (auto simp: normalize_standard_win32_segment_endings_def splitdrive_def sp r
          trim_segment_def try_bind_Inr_iff)
    have "ps \<noteq> []" using tm by (cases "split_on bslash t") (auto simp: try_bind_Inr_iff)
    then have "q = d @ r @ join_with bslash ps" using q r by (cases ps) auto
    moreover have "slash \<notin> set t" using p pd by simp
    ultimately show ?thesis
      using rooted_absolute [OF p sp d False] trimmed_slash_free [OF tm] by simp
  qed
qed

section \<open>What the normaliser returns\<close>

lemma is_drive_letter_shape:
  "is_drive_letter d \<Longrightarrow> \<exists>x. d = [x, colon] \<and> x \<noteq> bslash \<and> x \<noteq> slash"
proof -
  assume a: "is_drive_letter d"
  then obtain x y where d: "d = [x, y]" "ascii_alpha x" "y = colon"
    by (cases d; cases "tl d") (auto simp: is_drive_letter_def)
  then have "x \<noteq> bslash" "x \<noteq> slash" by (auto simp: ascii_alpha_def)
  with d show ?thesis by blast
qed

lemma drive_rooted_absolute:
  assumes "is_drive_letter d" and "slash \<notin> set t" and "starts_with [bslash] t"
  shows "is_absolute_windows_path (d @ t) \<and> slash \<notin> set (d @ t)"
proof -
  obtain x where d: "d = [x, colon]" and x: "x \<noteq> bslash" "x \<noteq> slash"
    using is_drive_letter_shape [OF assms(1)] by blast
  obtain t' where t: "t = bslash # t'" using assms(3) by auto
  have sl: "slash \<notin> set (d @ t)" using assms(2) x by (auto simp: d)
  then have "splitroot (d @ t) = (d, [bslash], t')"
    using x by (simp add: splitroot_def to_bslash_noop Let_def py_slice_def d t)
  then show ?thesis using is_absolute_iff [OF sl] sl by (simp add: d)
qed

lemma root_and_join_absolute:
  assumes t: "slash \<notin> set t" "\<not> is_drive_relative t"
    and r: "root_current_drive t base = Inr t1" and j: "join_relative t1 base = Inr t2"
  shows "is_absolute_windows_path t2 \<and> slash \<notin> set t2"
proof (cases "starts_with [bslash] t \<and> \<not> starts_with [bslash, bslash] t")
  case True
  then obtain b where "is_drive_letter (fst (splitdrive b))" "t1 = fst (splitdrive b) @ t"
    using r by (auto simp: root_current_drive_def try_bind_Inr_iff Let_def split: option.splits if_splits)
  with drive_rooted_absolute [of "fst (splitdrive b)" t] t True
  have "is_absolute_windows_path t1 \<and> slash \<notin> set t1" by simp
  then show ?thesis using j by (simp add: join_relative_def)
next
  case False
  then have t1: "t1 = t" using r by (simp add: root_current_drive_def split: if_splits)
  show ?thesis
  proof (cases "is_absolute_windows_path t")
    case True
    then show ?thesis using j t t1 by (simp add: join_relative_def)
  next
    case na: False
    then obtain b where b: "canonical b" "t2 = nt_join b t"
      using j t1 by (auto simp: join_relative_def try_bind_Inr_iff require_canonical_iff split: option.splits)
    have "\<not> starts_with [bslash] t" using False na UNC_absolute [OF t(1)] by blast
    then have "splitroot t = ([], [], t)" using splitroot_relative [OF t(1) na t(2)] by blast
    then show ?thesis using nt_join_absolute [OF b(1) t(1)] b(2) by simp
  qed
qed

lemma normalize_canonical:
  assumes "normalize_represented_windows_path v base e = Inr c"
  shows "canonical c"
proof -
  from assms obtain t0 t1 t2 t3 where
    dr: "\<not> is_drive_relative (to_bslash t0)"
    and r: "root_current_drive (to_bslash t0) base = Inr t1" and j: "join_relative t1 base = Inr t2"
    and t3: "t3 = t2 \<or> normalize_standard_win32_segment_endings t2 = Inr t3"
    and c: "c = normcase (normpath t3)"
    by (auto simp: normalize_represented_windows_path_def try_bind_Inr_iff Let_def
        split: pyval.splits if_splits)
  have "is_absolute_windows_path t2 \<and> slash \<notin> set t2"
    using root_and_join_absolute [OF slash_to_bslash dr r j] .
  then have "is_absolute_windows_path t3 \<and> slash \<notin> set t3"
    using t3 segment_endings_absolute by blast
  then show ?thesis
    using normcase_normpath_absolute [of t3] by (simp add: c canonical_iff) metis
qed

lemma canonical_normal_form: "canonical c \<Longrightarrow> normcase (normpath c) = c \<and> is_absolute_windows_path c"
  by (auto simp: canonical_def require_canonical_absolute_def split: if_splits)

end
