(* ===== verification/PathContainment.thy ===== *)
theory PathContainment
  imports PathNormalize
begin

text \<open>
  Containment of canonical paths (\<open>path_is_within_or_equal\<close> of \<open>jack_path_policy.py\<close>). The
  code compares with \<open>ntpath.commonpath\<close>; the lemmas show that on canonical paths this is
  exactly "same drive, same root, and the root's components are a prefix of the target's",
  so that it is a component-wise test and never one on characters.

  The locale \<open>containment\<close> is the interface the policy relies on: a root inside another
  hands its members to the outer one. It is interpreted on the code's own test.
\<close>

section \<open>Definitions\<close>

text \<open>The code catches the two \<open>ValueError\<close>s of \<open>commonpath\<close>; the index error that its
  loop could raise cannot happen (\<open>commonpath_abs_form\<close>).\<close>

definition path_is_within_or_equal :: "string \<Rightarrow> string \<Rightarrow> path_error + bool" where
  "path_is_within_or_equal target root =
     try_bind (require_canonical_absolute target ''target'') (\<lambda>_.
     try_bind (require_canonical_absolute root ''root'') (\<lambda>_.
       (case commonpath target root of
          Inl _ \<Rightarrow> Inr False
        | Inr common \<Rightarrow> Inr (normcase common = root))))"

text \<open>The abstract view of a canonical path: drive, root and components.\<close>

definition path_parts :: "string \<Rightarrow> string \<times> string \<times> string list" where
  "path_parts p = (case splitroot p of (d, r, t) \<Rightarrow> (d, r, plain_comps t))"

definition parts_within :: "string \<times> string \<times> string list \<Rightarrow> string \<times> string \<times> string list \<Rightarrow> bool" where
  "parts_within t r = (case t of (d, s, cs) \<Rightarrow> case r of (d', s', cs') \<Rightarrow>
     d = d' \<and> s = s' \<and> starts_with cs' cs)"

definition within :: "string \<Rightarrow> string \<Rightarrow> bool" where
  "within target root = (path_is_within_or_equal target root = Inr True)"

section \<open>The common path\<close>

lemma first_difference_eq:
  "first_difference k xs ys =
     (if prefix xs ys then Inr None else if prefix ys xs then Inl IndexOutOfRange
      else Inr (Some (k + length (longest_common_prefix xs ys))))"
  by (induction k xs ys rule: first_difference.induct) auto

lemma prefix_lexorder: "prefix xs ys \<Longrightarrow> xs \<le> (ys :: 'a :: linorder list)"
  by (induction xs arbitrary: ys) (auto simp: prefix_def)

lemma longest_common_prefix_commute: "longest_common_prefix xs ys = longest_common_prefix ys xs"
  by (induction xs ys rule: longest_common_prefix.induct) auto

lemma longest_common_prefix_prefix: "prefix xs ys \<Longrightarrow> longest_common_prefix xs ys = xs"
  by (induction xs ys rule: longest_common_prefix.induct) auto

lemma longest_common_prefix_iff: "longest_common_prefix xs ys = ys \<longleftrightarrow> prefix ys xs"
  by (metis longest_common_prefix_commute longest_common_prefix_prefix longest_common_prefix_prefix1)

text \<open>Sorting the two component lists first makes the scan safe, and its result is the
  longest common prefix.\<close>

lemma first_difference_sorted:
  fixes xs ys :: "string list"
  shows "(case first_difference 0 (min xs ys) (max xs ys) of
      Inl _ \<Rightarrow> False
    | Inr (Some i) \<Rightarrow> i = length (longest_common_prefix xs ys)
    | Inr None \<Rightarrow> length (min xs ys) = length (longest_common_prefix xs ys))"
proof -
  have "min xs ys = xs \<and> max xs ys = ys \<or> min xs ys = ys \<and> max xs ys = xs"
    by (auto simp: min_def max_def)
  moreover have lcp: "longest_common_prefix (min xs ys) (max xs ys) = longest_common_prefix xs ys"
    using calculation longest_common_prefix_commute by metis
  moreover have "prefix (min xs ys) (max xs ys)" if "prefix (max xs ys) (min xs ys)"
    using prefix_lexorder [OF that] that by (metis max.cobounded1 max_def min.cobounded1 min_def order_antisym)
  ultimately show ?thesis
    using longest_common_prefix_prefix [of "min xs ys" "max xs ys"]
    unfolding first_difference_eq by (simp del: min_less_iff_conj)
qed

lemma take_longest_common_prefix: "take (length (longest_common_prefix xs ys)) xs = longest_common_prefix xs ys"
  using longest_common_prefix_prefix1 [of xs ys] by (auto simp: prefix_def) (metis append_eq_conv_conj)

lemma commonpath_abs_form:
  assumes a: "abs_form d r cs" "py_lower (abs_path d r cs) = abs_path d r cs"
    and b: "abs_form d' r' cs'" "py_lower (abs_path d' r' cs') = abs_path d' r' cs'"
  shows "commonpath (abs_path d r cs) (abs_path d' r' cs') =
    (if d \<noteq> d' then Inl DifferentDrives else if r \<noteq> r' then Inl MixedRoots
     else Inr (abs_path d r (longest_common_prefix cs cs')))"
proof -
  have n: "to_bslash (abs_path d r cs) = abs_path d r cs" "to_bslash (abs_path d' r' cs') = abs_path d' r' cs'"
    using abs_form_slash_free [OF a(1)] abs_form_slash_free [OF b(1)] by (simp_all add: to_bslash_noop)
  have s: "splitroot (abs_path d r cs) = (d, r, join_with bslash cs)"
    "splitroot (abs_path d' r' cs') = (d', r', join_with bslash cs')"
    "plain_comps (join_with bslash cs) = cs" "plain_comps (join_with bslash cs') = cs'"
    using a(1) b(1) by (auto simp: abs_form_def plain_comps_join)
  show ?thesis
    using first_difference_sorted [of cs cs'] take_longest_common_prefix [of cs cs']
    unfolding commonpath_def n a(2) b(2) s prod.case Let_def
    by (simp add: abs_path_def split: sum.splits option.splits)
qed

lemma abs_path_components_inj:
  assumes "list_all clean_comp cs" and "list_all clean_comp cs'"
  shows "abs_path d r cs = abs_path d r cs' \<longleftrightarrow> cs = cs'"
  using join_with_inj [OF assms] by (simp add: abs_path_def)

lemma longest_common_prefix_set: "set (longest_common_prefix xs ys) \<subseteq> set xs"
  by (meson longest_common_prefix_prefix1 set_mono_prefix)

lemma within_abs_form:
  assumes a: "abs_form d r cs" "py_lower (abs_path d r cs) = abs_path d r cs"
    and b: "abs_form d' r' cs'" "py_lower (abs_path d' r' cs') = abs_path d' r' cs'"
  shows "path_is_within_or_equal (abs_path d r cs) (abs_path d' r' cs') =
    Inr (d = d' \<and> r = r' \<and> prefix cs' cs)"
proof -
  let ?l = "longest_common_prefix cs cs'"
  have can: "canonical (abs_path d r cs)" "canonical (abs_path d' r' cs')"
    using assms canonical_iff by blast+
  have cl: "list_all clean_comp cs" "list_all clean_comp cs'" using a b by (auto simp: abs_form_def)
  have l: "list_all clean_comp ?l" using cl longest_common_prefix_set by (fastforce simp: list_all_iff)
  have slf: "slash \<notin> set d" "slash \<notin> set r" using a by (auto simp: abs_form_def)
  have low: "py_lower d = d" "py_lower r = r" "map py_lower cs = cs"
  proof -
    have eq: "py_lower d @ py_lower r @ py_lower (join_with bslash cs) = d @ r @ join_with bslash cs"
      using a(2) by (simp add: abs_path_def)
    then show "py_lower d = d" "py_lower r = r" by (auto simp: append_eq_append_conv)
    have "py_lower (abs_path d r cs) = abs_path (py_lower d) r (map py_lower cs)"
      by (rule abs_form_lower(2) [OF a(1)])
    then have "abs_path d r (map py_lower cs) = abs_path d r cs" using a(2) \<open>py_lower d = d\<close> by simp
    moreover have "list_all clean_comp (map py_lower cs)"
      using abs_form_lower(1) [OF a(1)] by (simp add: abs_form_def)
    ultimately show "map py_lower cs = cs" using abs_path_components_inj cl(1) by metis
  qed
  have "\<forall>c \<in> set cs. py_lower c = c" using low(3) by (metis map_eq_conv list.map_ident)
  then have "\<forall>c \<in> set ?l. py_lower c = c" using longest_common_prefix_set [of cs cs'] by (simp add: subset_eq)
  then have lowl: "map py_lower ?l = ?l" by (simp add: map_idI)
  have "py_lower (join_with bslash ?l) = join_with bslash ?l"
    using lowl join_with_map [of lower_char bslash ?l] by (simp add: py_lower_def [abs_def])
  then have nc: "normcase (abs_path d r ?l) = abs_path d r ?l"
    using slf join_slash_free [OF l] low by (simp add: normcase_def abs_path_def to_bslash_noop)
  have eq: "abs_path d r ?l = abs_path d r cs' \<longleftrightarrow> prefix cs' cs"
    using abs_path_components_inj [OF l cl(2)] longest_common_prefix_iff by simp
  have unf: "path_is_within_or_equal (abs_path d r cs) (abs_path d' r' cs') =
      (case commonpath (abs_path d r cs) (abs_path d' r' cs') of
         Inl _ \<Rightarrow> Inr False | Inr common \<Rightarrow> Inr (normcase common = abs_path d' r' cs'))"
    by (simp add: path_is_within_or_equal_def can)
  show ?thesis
  proof (cases "d = d' \<and> r = r'")
    case True
    then show ?thesis using nc eq unf commonpath_abs_form [OF a b] by simp
  next
    case False
    then show ?thesis using unf commonpath_abs_form [OF a b] by auto
  qed
qed

section \<open>Containment as a component test\<close>

lemma canonical_cases:
  assumes "canonical p"
  obtains d r cs where "p = abs_path d r cs" "abs_form d r cs" "py_lower p = p" "path_parts p = (d, r, cs)"
proof -
  obtain d r cs where p: "p = abs_path d r cs" "abs_form d r cs" "py_lower p = p"
    using assms canonical_iff by blast
  then have "path_parts p = (d, r, cs)"
    by (auto simp: path_parts_def abs_form_def plain_comps_join)
  with p that show thesis by blast
qed

lemma within_parts:
  assumes "canonical t" and "canonical r"
  shows "path_is_within_or_equal t r = Inr (parts_within (path_parts t) (path_parts r))"
  using assms by (elim canonical_cases) (simp add: within_abs_form parts_within_def starts_with_prefix)

lemma path_parts_inj:
  assumes "canonical p" and "canonical q" and "path_parts p = path_parts q"
  shows "p = q"
  using assms by (elim canonical_cases) simp

lemma within_iff: "within t r \<longleftrightarrow> canonical t \<and> canonical r \<and> parts_within (path_parts t) (path_parts r)"
proof (cases "canonical t \<and> canonical r")
  case True
  then show ?thesis by (simp add: within_def within_parts)
next
  case False
  then show ?thesis
    by (auto simp: within_def path_is_within_or_equal_def try_bind_Inr_iff require_canonical_iff)
qed

section \<open>The containment interface\<close>

text \<open>What the policy relies on: membership below a root is reflexive on well-formed paths,
  handed on along nested roots, and two roots that contain each other are one path.\<close>

locale containment =
  fixes wf :: "'p \<Rightarrow> bool" and inside :: "'p \<Rightarrow> 'p \<Rightarrow> bool"
  assumes inside_wf: "inside t r \<Longrightarrow> wf t \<and> wf r"
    and inside_refl: "wf p \<Longrightarrow> inside p p"
    and inside_trans: "inside t m \<Longrightarrow> inside m r \<Longrightarrow> inside t r"
    and inside_antisym: "inside p q \<Longrightarrow> inside q p \<Longrightarrow> p = q"
    and roots_nested: "inside t r \<Longrightarrow> inside t r' \<Longrightarrow> inside r r' \<or> inside r' r"
begin

lemma root_inside_own: "wf r \<Longrightarrow> r \<in> set roots \<Longrightarrow> \<exists>x \<in> set roots. inside r x"
  using inside_refl by blast

lemma matched_below:
  assumes "\<exists>x \<in> set roots. inside m x" and "inside t m"
  shows "\<exists>x \<in> set roots. inside t x"
  using assms inside_trans by blast

lemma unmatched_above:
  assumes "\<not> (\<exists>x \<in> set roots. inside t x)" and "inside t m"
  shows "\<not> (\<exists>x \<in> set roots. inside m x)"
  using assms matched_below by blast

text \<open>A target inside a workspace that is not itself below a root is matched only by roots
  that lie strictly inside the workspace.\<close>

lemma matching_root_inside_workspace:
  assumes "inside t w" and "\<not> (\<exists>x \<in> set roots. inside w x)"
    and "x \<in> set roots" and "inside t x"
  shows "inside x w \<and> x \<noteq> w"
proof -
  have "inside x w" using roots_nested [OF assms(1,4)] assms(2,3) by blast
  moreover have "x \<noteq> w"
    using assms(2,3) inside_refl inside_wf [OF assms(1)] by blast
  ultimately show ?thesis by blast
qed

end

interpretation windows: containment canonical within
proof
  show "within t r \<Longrightarrow> canonical t \<and> canonical r" for t r by (simp add: within_iff)
  show "canonical p \<Longrightarrow> within p p" for p
    by (auto simp: within_iff parts_within_def split: prod.splits)
  show "within t m \<Longrightarrow> within m r \<Longrightarrow> within t r" for t m r
    by (auto simp: within_iff parts_within_def starts_with_prefix split: prod.splits)
  show "within p q \<Longrightarrow> within q p \<Longrightarrow> p = q" for p q
    by (rule path_parts_inj)
      (auto simp: within_iff parts_within_def starts_with_prefix split: prod.splits dest: prefix_order.antisym)
  show "within t r \<Longrightarrow> within t r' \<Longrightarrow> within r r' \<or> within r' r" for t r r'
    by (auto simp: within_iff parts_within_def starts_with_prefix split: prod.splits dest: prefix_same_cases)
qed

end
