(* ===== verification/PathPolicy.thy ===== *)
theory PathPolicy
  imports PathContainment
begin

text \<open>
  The policy part of \<open>jack_path_policy.py\<close>: containment of canonical paths, the immutable
  runtime policy (workspace root and NEVER roots) and how it is built from the startup
  document, the raw facts \<open>inspect_represented_path\<close> establishes about one represented
  target, and the Phase-4 decision \<open>authorize_represented_path\<close> draws from them.

  The startup document is a parsed value (\<open>policy_document\<close>): what \<open>json.loads\<close> made of the
  environment variable, \<open>None\<close> when the text was not JSON.
\<close>

section \<open>The object of a path\<close>

text \<open>\<open>_policy_object_windows_path\<close>: the object a path names, its stream suffix removed.\<close>

definition owner_segment :: "string \<Rightarrow> path_error + string" where
  "owner_segment part =
     (if part = [] then Inr part
      else if colon \<in> set part then
        (let owner = takeWhile (\<lambda>c. c \<noteq> colon) part in
         if owner = []
         then Inl (PathAmbiguous ''NTFS stream target does not expose a deterministic owner object'')
         else Inr owner)
      else Inr part)"

definition policy_object_windows_path :: "string \<Rightarrow> path_error + string" where
  "policy_object_windows_path path =
     try_bind (require_canonical_absolute path ''canonical'') (\<lambda>_.
       (case splitdrive path of (drive, rest) \<Rightarrow>
          try_bind (try_map owner_segment (split_on bslash rest)) (\<lambda>owner_parts.
            let owner_path = normcase (normpath (drive @ join_with bslash owner_parts)) in
            if \<not> is_absolute_windows_path owner_path
            then Inl (PathAmbiguous
              ''policy comparison path did not normalize to an absolute Windows path'')
            else Inr owner_path)))"

section \<open>The runtime policy\<close>

record runtime_path_policy =
  rp_runtime_id :: string
  rp_lane_id :: string
  rp_workspace_root :: "string option"
  rp_never_roots :: "string list"
  rp_path_environment :: env

text \<open>\<open>RuntimePathPolicy.__post_init__\<close>: what every constructed policy satisfies.\<close>

definition check_runtime_path_policy :: "runtime_path_policy \<Rightarrow> path_error + runtime_path_policy" where
  "check_runtime_path_policy p =
     (if rp_runtime_id p = [] then Inl (PathValueError ''runtime_id must not be empty'')
      else if rp_lane_id p = [] then Inl (PathValueError ''lane_id must not be empty'')
      else
        try_bind (case rp_workspace_root p of None \<Rightarrow> Inr ()
                  | Some w \<Rightarrow> require_canonical_absolute w ''workspace_root'') (\<lambda>_.
        try_bind (try_map (\<lambda>root. require_canonical_absolute root ''never root'') (rp_never_roots p)) (\<lambda>_.
          if \<not> distinct (rp_never_roots p)
          then Inl (PathValueError ''never_roots must not contain duplicates'')
          else Inr p)))"

definition workspace_enabled :: "runtime_path_policy \<Rightarrow> bool" where
  "workspace_enabled p = (rp_workspace_root p \<noteq> None)"

definition valid_policy :: "runtime_path_policy \<Rightarrow> bool" where
  "valid_policy p = (check_runtime_path_policy p = Inr p)"

definition policy_env :: "runtime_path_policy \<Rightarrow> (string \<times> string option) list" where
  "policy_env p = env_source (rp_path_environment p)"

text \<open>\<open>_default_windows_never_roots\<close>. An empty variable counts as absent; a candidate the
  normaliser refuses is skipped.\<close>

definition env_get :: "env \<Rightarrow> string \<Rightarrow> string" where
  "env_get e k = (case map_of e k of None \<Rightarrow> [] | Some v \<Rightarrow> v)"

text \<open>The loop \<open>if canonical not in normalized: normalized.append(canonical)\<close>. A
  \<open>ValueError\<close> outside the represented-path errors is not caught.\<close>

fun collect_roots :: "env \<Rightarrow> string list \<Rightarrow> string list \<Rightarrow> path_error + string list" where
  "collect_roots e acc [] = Inr acc"
| "collect_roots e acc (cand # cands) =
     (case normalize_represented_windows_path (PStr cand) None (env_source e) of
        Inl (PathValueError m) \<Rightarrow> Inl (PathValueError m)
      | Inl _ \<Rightarrow> collect_roots e acc cands
      | Inr c \<Rightarrow> collect_roots e (if c \<in> set acc then acc else acc @ [c]) cands)"

definition default_windows_never_roots :: "env \<Rightarrow> path_error + string list" where
  "default_windows_never_roots e =
     (let raw_root = (if env_get e ''systemroot'' \<noteq> [] then env_get e ''systemroot'' else env_get e ''windir'');
          system_root = py_strip raw_root;
          drive0 = py_strip (env_get e ''systemdrive'');
          system_drive = (if system_root \<noteq> [] \<and> drive0 = [] then fst (splitdrive system_root) else drive0);
          candidates = (if system_root \<noteq> [] then [system_root] else []) @
            (if system_drive \<noteq> []
             then [system_drive @ to_bslash ''/Boot'', system_drive @ to_bslash ''/Recovery'',
                   system_drive @ to_bslash ''/System Volume Information'']
             else [])
      in collect_roots e [] candidates)"

text \<open>The startup errors: the \<open>RuntimeError\<close> messages after the variable's name, and whatever
  else escapes the constructor.\<close>

datatype build_error = PolicyRuntimeError string | PolicyEscaped path_error

text \<open>The configured document: absent (blank text), not JSON, or a parsed value.\<close>

datatype policy_document = NoDocument | NotJson | Document pyval

definition STATIC_PATH_POLICY_VERSION :: int where
  "STATIC_PATH_POLICY_VERSION = 1"

definition policy_fields :: "policy_document \<Rightarrow> build_error + (pyval \<times> pyval)" where
  "policy_fields doc =
     (case doc of
        NoDocument \<Rightarrow> Inr (PNone, PList [])
      | NotJson \<Rightarrow> Inl (PolicyRuntimeError ''must contain valid JSON'')
      | Document (PDict d) \<Rightarrow>
          (if set (map fst d) \<noteq> {''version'', ''workspace_root'', ''never_paths''}
           then Inl (PolicyRuntimeError ''has unsupported top-level fields'')
           else if dict_get d ''version'' \<noteq> PInt STATIC_PATH_POLICY_VERSION
           then Inl (PolicyRuntimeError ''version must be 1'')
           else Inr (dict_get d ''workspace_root'', dict_get d ''never_paths''))
      | Document _ \<Rightarrow> Inl (PolicyRuntimeError ''must be a JSON object''))"

definition normalize_workspace :: "env \<Rightarrow> pyval \<Rightarrow> build_error + string option" where
  "normalize_workspace e raw =
     (case raw of
        PNone \<Rightarrow> Inr None
      | PStr s \<Rightarrow>
          (case normalize_represented_windows_path raw None (env_source e) of
             Inr c \<Rightarrow> Inr (Some c)
           | Inl (PathValueError m) \<Rightarrow> Inl (PolicyEscaped (PathValueError m))
           | Inl err \<Rightarrow> Inl (PolicyRuntimeError
               (''workspace_root is not a deterministic absolute Windows path: '' @ path_error_text err)))
      | _ \<Rightarrow> Inl (PolicyRuntimeError ''workspace_root must be a string or null''))"

fun add_never_roots :: "env \<Rightarrow> string list \<Rightarrow> pyval list \<Rightarrow> build_error + string list" where
  "add_never_roots e acc [] = Inr acc"
| "add_never_roots e acc (raw # raws) =
     (case normalize_represented_windows_path raw None (env_source e) of
        Inr c \<Rightarrow> add_never_roots e (if c \<in> set acc then acc else acc @ [c]) raws
      | Inl (PathValueError m) \<Rightarrow> Inl (PolicyEscaped (PathValueError m))
      | Inl err \<Rightarrow> Inl (PolicyRuntimeError (''contains an invalid NEVER path: '' @ path_error_text err)))"

definition escape :: "path_error + 'a \<Rightarrow> build_error + 'a" where
  "escape x = (case x of Inl e \<Rightarrow> Inl (PolicyEscaped e) | Inr v \<Rightarrow> Inr v)"

definition build_runtime_path_policy ::
    "string \<Rightarrow> string \<Rightarrow> policy_document \<Rightarrow> (string \<times> string option) list
       \<Rightarrow> build_error + runtime_path_policy" where
  "build_runtime_path_policy runtime_id lane_id doc host_environment =
     (let e = normalized_environment host_environment;
          snapshot = sort_key fst e in
      try_bind (policy_fields doc) (\<lambda>(raw_workspace, raw_never).
        if \<not> (raw_workspace = PNone \<or> is_str raw_workspace)
        then Inl (PolicyRuntimeError ''workspace_root must be a string or null'')
        else case raw_never of
          PList raws \<Rightarrow>
            (if \<not> list_all is_str raws
             then Inl (PolicyRuntimeError ''never_paths must be a list of strings'')
             else
             try_bind (normalize_workspace e raw_workspace) (\<lambda>workspace_root.
             try_bind (escape (default_windows_never_roots e)) (\<lambda>defaults.
             try_bind (add_never_roots e defaults raws) (\<lambda>never_roots.
             try_bind (case workspace_root of None \<Rightarrow> Inr False
                       | Some w \<Rightarrow> escape (try_any (path_is_within_or_equal w) never_roots)) (\<lambda>clash.
               if clash
               then Inl (PolicyRuntimeError ''workspace_root cannot be inside a NEVER root'')
               else escape (check_runtime_path_policy
                      \<lparr>rp_runtime_id = runtime_id, rp_lane_id = lane_id,
                       rp_workspace_root = workspace_root, rp_never_roots = never_roots,
                       rp_path_environment = snapshot\<rparr>))))))
        | _ \<Rightarrow> Inl (PolicyRuntimeError ''never_paths must be a list of strings'')))"

section \<open>Facts and decisions\<close>

record path_facts =
  pf_canonical_target :: "string option"
  pf_never_match :: bool
  pf_workspace_configured :: bool
  pf_deterministic :: bool
  pf_inside_workspace :: "bool option"
  pf_invalid :: bool
  pf_deferred_to_executor :: bool
  pf_reason :: string

datatype path_outcome = PathAllow | PathDeny | PathHardInterrupt

record path_decision =
  pd_outcome :: path_outcome
  pd_reason :: string
  pd_canonical_target :: "string option"

text \<open>The facts of a target that could not be resolved.\<close>

definition unresolved_facts :: "runtime_path_policy \<Rightarrow> string option \<Rightarrow> bool \<Rightarrow> bool \<Rightarrow> string \<Rightarrow> path_facts" where
  "unresolved_facts p target bad deferred reason =
     \<lparr>pf_canonical_target = target, pf_never_match = False,
      pf_workspace_configured = workspace_enabled p, pf_deterministic = False,
      pf_inside_workspace = None, pf_invalid = bad, pf_deferred_to_executor = deferred,
      pf_reason = reason\<rparr>"

definition ambiguous_reason :: "runtime_path_policy \<Rightarrow> string \<Rightarrow> string" where
  "ambiguous_reason p m =
     (if workspace_enabled p then ''workspace membership cannot be established: '' @ m
      else ''no workspace lock; represented target unresolved: '' @ m)"

text \<open>The last part of \<open>inspect_represented_path\<close>: the facts of a canonical target.\<close>

definition inspect_canonical :: "runtime_path_policy \<Rightarrow> string \<Rightarrow> path_error + path_facts" where
  "inspect_canonical p target =
     (case policy_object_windows_path target of
        Inl (PathAmbiguous m) \<Rightarrow> Inr (unresolved_facts p (Some target) False False (ambiguous_reason p m))
      | Inl (PathNeedsExecutorCwd m) \<Rightarrow> Inr (unresolved_facts p (Some target) False False (ambiguous_reason p m))
      | Inl e \<Rightarrow> Inl e
      | Inr comparison \<Rightarrow>
          try_bind (try_any (path_is_within_or_equal comparison) (rp_never_roots p)) (\<lambda>never_match.
          try_bind (case rp_workspace_root p of None \<Rightarrow> Inr None
                    | Some w \<Rightarrow> try_bind (path_is_within_or_equal comparison w) (\<lambda>b. Inr (Some b)))
            (\<lambda>inside.
            Inr \<lparr>pf_canonical_target = Some target, pf_never_match = never_match,
                 pf_workspace_configured = workspace_enabled p, pf_deterministic = True,
                 pf_inside_workspace = inside, pf_invalid = False, pf_deferred_to_executor = False,
                 pf_reason = (if never_match then ''represented target positively matches a NEVER root''
                   else if inside = Some False
                   then ''represented target is outside the configured workspace''
                   else ''represented target is authorized by Phase-4 path policy'')\<rparr>)))"

definition inspect_represented_path ::
    "runtime_path_policy \<Rightarrow> pyval \<Rightarrow> string option \<Rightarrow> bool \<Rightarrow> path_error + path_facts" where
  "inspect_represented_path p represented executor_cwd defer =
     (let cwd = (case executor_cwd of None \<Rightarrow> Inr None
           | Some c \<Rightarrow> try_bind (normalize_represented_windows_path (PStr c) None (policy_env p)) (\<lambda>c. Inr (Some c)))
      in case cwd of
        Inl (PathValueError m) \<Rightarrow> Inl (PathValueError m)
      | Inl e \<Rightarrow> Inr (unresolved_facts p None True False
          (''executor cwd is not a deterministic absolute Windows path: '' @ path_error_text e))
      | Inr canonical_cwd \<Rightarrow>
        (case normalize_represented_windows_path represented canonical_cwd (policy_env p) of
           Inl (PathNeedsExecutorCwd m) \<Rightarrow>
             (if defer then Inr (unresolved_facts p None False True
                (''executor cwd admission is required before execution: '' @ m))
              else Inr (unresolved_facts p None False False (ambiguous_reason p m)))
         | Inl (PathInvalid m) \<Rightarrow>
             Inr (unresolved_facts p None True False (''invalid represented path: '' @ m))
         | Inl (PathAmbiguous m) \<Rightarrow> Inr (unresolved_facts p None False False (ambiguous_reason p m))
         | Inl (PathValueError m) \<Rightarrow> Inl (PathValueError m)
         | Inr target \<Rightarrow> inspect_canonical p target))"

definition facts_outcome :: "path_facts \<Rightarrow> path_outcome" where
  "facts_outcome f =
     (if pf_deferred_to_executor f then PathAllow
      else if pf_never_match f then PathHardInterrupt
      else if pf_invalid f then PathDeny
      else if pf_workspace_configured f
              \<and> (\<not> pf_deterministic f \<or> pf_inside_workspace f = Some False) then PathDeny
      else PathAllow)"

definition authorize_represented_path ::
    "runtime_path_policy \<Rightarrow> pyval \<Rightarrow> string option \<Rightarrow> bool \<Rightarrow> path_error + path_decision" where
  "authorize_represented_path p represented executor_cwd defer =
     try_bind (inspect_represented_path p represented executor_cwd defer) (\<lambda>f.
       Inr \<lparr>pd_outcome = facts_outcome f, pd_reason = pf_reason f,
            pd_canonical_target = pf_canonical_target f\<rparr>)"

section \<open>The policy object\<close>

lemma owner_segment_Inr:
  "owner_segment q = Inr q' \<longleftrightarrow> q' = takeWhile (\<lambda>c. c \<noteq> colon) q \<and> (q' = [] \<longrightarrow> q = [])"
proof (cases "colon \<in> set q")
  case False
  then have tw: "takeWhile (\<lambda>c. c \<noteq> colon) q = q"
    by (intro takeWhile_eq_all_conv [THEN iffD2] ballI) (rule notI, simp)
  have "owner_segment q = Inr q" using False by (simp add: owner_segment_def)
  then show ?thesis unfolding tw by (metis sum.inject(2))
next
  case True
  then have "q \<noteq> []" by auto
  with True show ?thesis by (simp add: owner_segment_def Let_def del: takeWhile_eq_Nil_iff) blast
qed

lemma owner_segment_Inl: "owner_segment q = Inl e \<Longrightarrow> \<exists>m. e = PathAmbiguous m"
  by (auto simp: owner_segment_def Let_def split: if_splits)

lemma try_map_Inl: "try_map f xs = Inl e \<Longrightarrow> \<exists>x \<in> set xs. f x = Inl e"
  by (induction xs) (auto simp: try_bind_Inl_iff)

lemma owner_parts_map:
  "try_map owner_segment qs = Inr ps \<Longrightarrow> ps = map (takeWhile (\<lambda>c. c \<noteq> colon)) qs"
  by (induction qs arbitrary: ps) (auto simp: try_bind_Inr_iff owner_segment_Inr)

lemma owner_parts_slash_free:
  assumes "slash \<notin> set t"
  shows "slash \<notin> set (join_with bslash (map (takeWhile (\<lambda>c. c \<noteq> colon)) (split_on bslash t)))"
proof
  assume "slash \<in> set (join_with bslash (map (takeWhile (\<lambda>c. c \<noteq> colon)) (split_on bslash t)))"
  then obtain q where q: "q \<in> set (split_on bslash t)" "slash \<in> set (takeWhile (\<lambda>c. c \<noteq> colon) q)"
    using set_join_with by fastforce
  then have "slash \<in> set q" by (auto dest: set_takeWhileD)
  then show False using split_on_set [OF q(1)] assms by auto
qed

lemma policy_object_canonical:
  assumes "policy_object_windows_path p = Inr c"
  shows "canonical p" and "canonical c"
proof -
  show can: "canonical p"
    using assms by (auto simp: policy_object_windows_path_def try_bind_Inr_iff require_canonical_iff)
  obtain d r t where sp: "splitroot p = (d, r, t)" "d \<noteq> []"
    and rt: "r \<noteq> [] \<or> t = [] \<and> starts_with [bslash, bslash] d" and sl: "slash \<notin> set p" "p = d @ r @ t"
    by (rule canonical_splitroot [OF can])
  let ?ps = "map (takeWhile (\<lambda>c. c \<noteq> colon)) (split_on bslash (r @ t))"
  have c: "c = normcase (normpath (d @ join_with bslash ?ps))"
    using assms can sp
    by (auto simp: policy_object_windows_path_def splitdrive_def try_bind_Inr_iff Let_def
        dest!: owner_parts_map split: if_splits)
  have "is_absolute_windows_path (d @ join_with bslash ?ps) \<and> slash \<notin> set (d @ join_with bslash ?ps)"
  proof (cases "r = []")
    case True
    then have "d @ join_with bslash ?ps = p" using rt sl by simp
    then show ?thesis using can canonical_normal_form sl by metis
  next
    case False
    then have r: "r = [bslash]" using splitroot_shape [OF sl(1) sp(1)] sp(2) by auto
    let ?t = "join_with bslash (map (takeWhile (\<lambda>c. c \<noteq> colon)) (split_on bslash t))"
    have "join_with bslash ?ps = r @ ?t"
      using split_on_nonempty [of bslash t] by (cases "split_on bslash t") (auto simp: r)
    moreover have "slash \<notin> set ?t" using owner_parts_slash_free sl by auto
    ultimately show ?thesis using rooted_absolute [OF sl(1) sp(1,2) False] by simp
  qed
  then show "canonical c"
    using normcase_normpath_absolute [of "d @ join_with bslash ?ps"] by (simp add: c canonical_iff) metis
qed

lemma policy_object_Inl:
  assumes "canonical p" and "policy_object_windows_path p = Inl e"
  shows "\<exists>m. e = PathAmbiguous m"
proof -
  obtain d t where dt: "splitdrive p = (d, t)" by (metis prod.exhaust)
  show ?thesis
  proof (cases "try_map owner_segment (split_on bslash t)")
    case (Inl e')
    then have "e = e'" using assms by (simp add: policy_object_windows_path_def dt)
    then show ?thesis using try_map_Inl [OF Inl] owner_segment_Inl by blast
  next
    case (Inr ps)
    then show ?thesis using assms
      by (simp add: policy_object_windows_path_def dt Let_def split: if_splits) blast
  qed
qed

section \<open>Valid policies\<close>

lemma try_map_unit: "(\<exists>us. try_map f xs = Inr us) \<longleftrightarrow> (\<forall>x \<in> set xs. \<exists>u. f x = Inr u)"
  by (induction xs) (auto simp: try_bind_Inr_iff)

lemma check_policy_Inr:
  "check_runtime_path_policy p = Inr q \<longleftrightarrow> q = p \<and> rp_runtime_id p \<noteq> [] \<and> rp_lane_id p \<noteq> []
     \<and> (\<forall>w. rp_workspace_root p = Some w \<longrightarrow> canonical w)
     \<and> (\<forall>r \<in> set (rp_never_roots p). canonical r) \<and> distinct (rp_never_roots p)"
proof -
  let ?tm = "try_map (\<lambda>root. require_canonical_absolute root ''never root'') (rp_never_roots p)"
  let ?w = "case rp_workspace_root p of None \<Rightarrow> Inr () | Some w \<Rightarrow> require_canonical_absolute w ''workspace_root''"
  have tm: "(\<exists>us. ?tm = Inr us) \<longleftrightarrow> (\<forall>r \<in> set (rp_never_roots p). canonical r)"
    unfolding try_map_unit by (simp add: require_canonical_iff)
  have w: "(\<exists>u. ?w = Inr u) \<longleftrightarrow> (\<forall>w. rp_workspace_root p = Some w \<longrightarrow> canonical w)"
    by (simp add: require_canonical_iff split: option.split)
  show ?thesis
    unfolding check_runtime_path_policy_def tm [symmetric] w [symmetric]
    by (cases ?w; cases ?tm) (simp_all, blast?)
qed

lemma valid_policy_iff:
  "valid_policy p \<longleftrightarrow> rp_runtime_id p \<noteq> [] \<and> rp_lane_id p \<noteq> []
     \<and> (\<forall>w. rp_workspace_root p = Some w \<longrightarrow> canonical w)
     \<and> (\<forall>r \<in> set (rp_never_roots p). canonical r) \<and> distinct (rp_never_roots p)"
  by (simp add: valid_policy_def check_policy_Inr)

lemma within_total: "canonical t \<Longrightarrow> canonical r \<Longrightarrow> path_is_within_or_equal t r = Inr (within t r)"
  by (simp add: within_parts within_iff)

lemma any_within:
  "canonical t \<Longrightarrow> \<forall>r \<in> set roots. canonical r \<Longrightarrow>
   try_any (path_is_within_or_equal t) roots = Inr (\<exists>r \<in> set roots. within t r)"
  by (rule try_any_pure) (simp add: within_total)

section \<open>The only errors\<close>

text \<open>A \<open>ValueError\<close> outside the represented-path errors can only come from an executor
  directory that is not canonical.\<close>

lemma sub_percent_Inl: "sub_percent e s = Inl err \<Longrightarrow> \<exists>m. err = PathAmbiguous m"
  by (induction e s rule: sub_percent.induct)
     (auto simp: try_bind_Inl_iff unresolved_def split: option.splits if_splits)

lemma sub_powershell_Inl: "sub_powershell e s = Inl err \<Longrightarrow> \<exists>m. err = PathAmbiguous m"
  by (induction e s rule: sub_powershell.induct)
     (auto simp: try_bind_Inl_iff unresolved_def split: option.splits if_splits)

lemma expand_rounds_Inl: "expand_rounds n e s = Inl err \<Longrightarrow> \<exists>m. err = PathAmbiguous m"
  by (induction n e s rule: expand_rounds.induct)
     (auto simp: try_bind_Inl_iff split: if_splits dest: sub_percent_Inl sub_powershell_Inl)

lemma segment_endings_Inl:
  "normalize_standard_win32_segment_endings s = Inl err \<Longrightarrow> \<exists>m. err = PathAmbiguous m"
  by (auto simp: normalize_standard_win32_segment_endings_def try_bind_Inl_iff trim_segment_def Let_def
      dest!: try_map_Inl split: prod.splits if_splits)

lemma prefix_Inl: "normalize_known_windows_prefix s = Inl err \<Longrightarrow> \<exists>m. err = PathAmbiguous m"
  by (auto simp: normalize_known_windows_prefix_def Let_def split: if_splits)

lemma require_Inl: "require_canonical_absolute b l = Inl err \<Longrightarrow> \<not> canonical b"
  by (auto simp flip: require_canonical_iff)

lemma base_value_error:
  "raises_only (\<lambda>err. (\<exists>m. err = PathValueError m) \<longrightarrow> (\<exists>b. base = Some b \<and> \<not> canonical b))
     (root_current_drive t base)"
  "raises_only (\<lambda>err. (\<exists>m. err = PathValueError m) \<longrightarrow> (\<exists>b. base = Some b \<and> \<not> canonical b))
     (join_relative t base)"
  by (auto simp: root_current_drive_def join_relative_def Let_def split: option.split
      intro!: raises_only_bind raises_onlyI dest: require_Inl)

lemma no_value_error_steps:
  "raises_only (\<lambda>err. (\<exists>m. err = PathValueError m) \<longrightarrow> Q) (expand_rounds n e t)"
  "raises_only (\<lambda>err. (\<exists>m. err = PathValueError m) \<longrightarrow> Q) (normalize_known_windows_prefix t)"
  "raises_only (\<lambda>err. (\<exists>m. err = PathValueError m) \<longrightarrow> Q) (normalize_standard_win32_segment_endings t)"
  "raises_only (\<lambda>err. (\<exists>m. err = PathValueError m) \<longrightarrow> Q) (Inl (PathInvalid m) :: path_error + 'a)"
  "raises_only (\<lambda>err. (\<exists>m. err = PathValueError m) \<longrightarrow> Q) (Inl (PathAmbiguous m) :: path_error + 'a)"
  by (auto intro!: raises_onlyI dest: expand_rounds_Inl prefix_Inl segment_endings_Inl)

lemma normalize_value_error:
  assumes "normalize_represented_windows_path v base e = Inl (PathValueError m)"
  shows "\<exists>b. base = Some b \<and> \<not> canonical b"
proof -
  have "raises_only (\<lambda>err. (\<exists>m. err = PathValueError m) \<longrightarrow> (\<exists>b. base = Some b \<and> \<not> canonical b))
      (normalize_represented_windows_path v base e)"
    unfolding normalize_represented_windows_path_def Let_def expand_known_environment_def
    by (cases v; simp only: pyval.case)
       (intro raises_only_bind raises_only_if base_value_error no_value_error_steps raises_only_simps(1))+
  then show ?thesis using assms by (simp add: raises_only_def)
qed

lemma normalize_no_value_error [simp]:
  "normalize_represented_windows_path v None e \<noteq> Inl (PathValueError m)"
  using normalize_value_error by blast

section \<open>Inspection\<close>

lemma inspect_canonical_object:
  assumes "valid_policy p" and "policy_object_windows_path t = Inr c"
  shows "inspect_canonical p t = Inr
    (let bad = (\<exists>r \<in> set (rp_never_roots p). within c r);
         inside = map_option (within c) (rp_workspace_root p)
     in \<lparr>pf_canonical_target = Some t, pf_never_match = bad,
        pf_workspace_configured = workspace_enabled p, pf_deterministic = True,
        pf_inside_workspace = inside, pf_invalid = False, pf_deferred_to_executor = False,
        pf_reason = (if bad then ''represented target positively matches a NEVER root''
          else if inside = Some False then ''represented target is outside the configured workspace''
          else ''represented target is authorized by Phase-4 path policy'')\<rparr>)"
proof -
  have c: "canonical c" using policy_object_canonical(2) [OF assms(2)] .
  have nv: "try_any (path_is_within_or_equal c) (rp_never_roots p) = Inr (\<exists>r \<in> set (rp_never_roots p). within c r)"
    using assms(1) c by (intro any_within) (simp_all add: valid_policy_iff)
  have ws: "(case rp_workspace_root p of None \<Rightarrow> Inr None
        | Some w \<Rightarrow> try_bind (path_is_within_or_equal c w) (\<lambda>b. Inr (Some b)))
      = Inr (map_option (within c) (rp_workspace_root p))"
    using assms(1) c by (auto simp: valid_policy_iff within_total split: option.split)
  show ?thesis by (simp add: inspect_canonical_def assms(2) nv ws Let_def)
qed

lemma inspect_canonical_total:
  assumes "valid_policy p" and "canonical t"
  shows "\<exists>f. inspect_canonical p t = Inr f"
proof (cases "policy_object_windows_path t")
  case (Inl e)
  then obtain m where "e = PathAmbiguous m" using policy_object_Inl [OF assms(2)] by blast
  then show ?thesis using Inl by (simp add: inspect_canonical_def)
next
  case (Inr c)
  then show ?thesis using inspect_canonical_object [OF assms(1)] by blast
qed

lemma inspect_total:
  assumes "valid_policy p"
  shows "\<exists>f. inspect_represented_path p v cwd defer = Inr f"
proof -
  let ?n = "\<lambda>base. normalize_represented_windows_path v base (policy_env p)"
  have main: "\<exists>f. (case ?n base of
           Inl (PathNeedsExecutorCwd m) \<Rightarrow>
             (if defer then Inr (unresolved_facts p None False True
                (''executor cwd admission is required before execution: '' @ m))
              else Inr (unresolved_facts p None False False (ambiguous_reason p m)))
         | Inl (PathInvalid m) \<Rightarrow>
             Inr (unresolved_facts p None True False (''invalid represented path: '' @ m))
         | Inl (PathAmbiguous m) \<Rightarrow> Inr (unresolved_facts p None False False (ambiguous_reason p m))
         | Inl (PathValueError m) \<Rightarrow> Inl (PathValueError m)
         | Inr target \<Rightarrow> inspect_canonical p target) = Inr f"
    if "\<And>b. base = Some b \<Longrightarrow> canonical b" for base
  proof (cases "?n base")
    case (Inl e)
    then show ?thesis using normalize_value_error [of v base] that by (cases e) (auto)
  next
    case (Inr t)
    then show ?thesis using inspect_canonical_total [OF assms normalize_canonical [OF Inr]] by simp
  qed
  show ?thesis
  proof (cases cwd)
    case None
    then show ?thesis using main [of None] by (simp add: inspect_represented_path_def)
  next
    case (Some c)
    show ?thesis
    proof (cases "normalize_represented_windows_path (PStr c) None (policy_env p)")
      case (Inl e)
      then show ?thesis using Some by (cases e) (auto simp: inspect_represented_path_def)
    next
      case (Inr b)
      then show ?thesis using Some main [of "Some b"] normalize_canonical [OF Inr]
        by (simp add: inspect_represented_path_def)
    qed
  qed
qed

section \<open>Owners\<close>

abbreviation owner :: "string \<Rightarrow> string" where
  "owner q \<equiv> takeWhile (\<lambda>c. c \<noteq> colon) q"

lemma norm_comps_subset: "set (norm_comps True st qs) \<subseteq> set st \<union> set qs"
  by (induction qs arbitrary: st) (auto split: list.split, fastforce+)

lemma owner_segments:
  "try_map owner_segment qs = (if \<exists>q \<in> set qs. q \<noteq> [] \<and> owner q = []
     then Inl (PathAmbiguous ''NTFS stream target does not expose a deterministic owner object'')
     else Inr (map owner qs))"
proof (induction qs)
  case (Cons q qs)
  have "owner_segment q = (if q \<noteq> [] \<and> owner q = []
      then Inl (PathAmbiguous ''NTFS stream target does not expose a deterministic owner object'')
      else Inr (owner q))"
  proof (cases "q \<noteq> [] \<and> owner q = []")
    case True
    then have "hd q = colon" by (cases q) (auto split: if_splits)
    with True have "colon \<in> set q" by (metis hd_in_set)
    with True show ?thesis by (simp add: owner_segment_def Let_def)
  next
    case False
    then have "owner_segment q = Inr (owner q)" using owner_segment_Inr by blast
    with False show ?thesis by simp
  qed
  with Cons show ?case by simp
qed simp

lemma lower_components:
  assumes "abs_form d r cs" and "py_lower (abs_path d r cs) = abs_path d r cs"
  shows "py_lower d = d" and "\<forall>q \<in> set cs. py_lower q = q"
proof -
  have eq: "py_lower d @ py_lower r @ py_lower (join_with bslash cs) = d @ r @ join_with bslash cs"
    using assms(2) by (simp add: abs_path_def)
  then show d: "py_lower d = d" by (auto simp: append_eq_append_conv)
  have "abs_path d r (map py_lower cs) = abs_path d r cs"
    using abs_form_lower(2) [OF assms(1)] assms(2) d by simp
  moreover have "list_all clean_comp (map py_lower cs)" "list_all clean_comp cs"
    using abs_form_lower(1) [OF assms(1)] assms(1) by (auto simp: abs_form_def)
  ultimately have "map py_lower cs = cs" using abs_path_components_inj by metis
  then show "\<forall>q \<in> set cs. py_lower q = q" by (metis map_eq_conv list.map_ident)
qed

lemma owner_lower: "py_lower q = q \<Longrightarrow> py_lower (owner q) = owner q"
  by (metis py_lower_def map_eq_append_conv takeWhile_dropWhile_id append_eq_append_conv length_map)

lemma owner_chars: "set (owner q) \<subseteq> set q"
  by (auto dest: set_takeWhileD)

lemma owner_not_colon: "colon \<notin> set (owner q)"
  by (auto dest: set_takeWhileD)

lemma policy_object_abs:
  assumes a: "abs_form d r cs" "py_lower (abs_path d r cs) = abs_path d r cs"
  shows "policy_object_windows_path (abs_path d r cs) =
    (if \<exists>q \<in> set cs. owner q = []
     then Inl (PathAmbiguous ''NTFS stream target does not expose a deterministic owner object'')
     else Inr (abs_path d r (norm_comps True [] (map owner cs))))"
proof -
  have can: "canonical (abs_path d r cs)" using a canonical_iff by blast
  have sp: "splitroot (abs_path d r cs) = (d, r, join_with bslash cs)" and dn: "d \<noteq> []"
    and cl: "list_all clean_comp cs"
    using a(1) by (auto simp: abs_form_def)
  show ?thesis
  proof (cases "r = []")
    case True
    then have cs: "cs = []" using a(1) by (auto simp: abs_form_def)
    have "normcase (normpath (abs_path d [] [])) = abs_path d [] []" "is_absolute_windows_path (abs_path d [] [])"
      using can canonical_normal_form True cs by auto
    then show ?thesis using can sp True cs
      by (simp add: policy_object_windows_path_def splitdrive_def owner_segments Let_def abs_path_def)
  next
    case False
    then have r: "r = [bslash]" using a(1) by (auto simp: abs_form_def)
    let ?os = "map owner cs"
    let ?t = "join_with bslash ?os"
    let ?ns = "norm_comps True [] ?os"
    have q: "bslash \<notin> set q \<and> slash \<notin> set q \<and> q \<noteq> []" if "q \<in> set cs" for q
      using cl that by (auto simp: list_all_iff clean_comp_def)
    have osl: "slash \<notin> set o'" "bslash \<notin> set o'" if "o' \<in> set ?os" for o'
    proof -
      from that obtain x where "x \<in> set cs" "o' = owner x" by auto
      then show "slash \<notin> set o'" "bslash \<notin> set o'" using q [of x] owner_chars [of x] by blast+
    qed
    have tsl: "slash \<notin> set (join_with bslash os)" if "set os \<subseteq> set ?os" for os
    proof
      assume "slash \<in> set (join_with bslash os)"
      then obtain x where "x \<in> set os" "slash \<in> set x" using set_join_with [of bslash os] by auto
      then show False using that osl by blast
    qed
    have split: "split_on bslash (join_with bslash cs) = (if cs = [] then [[]] else cs)"
      using split_join [of cs bslash] q by auto
    have splito: "norm_comps True [] (split_on bslash ?t) = ?ns"
      using split_join [of ?os bslash] osl by (cases "cs = []") auto
    have sl: "slash \<notin> set (abs_path d r cs)" by (rule abs_form_slash_free [OF a(1)])
    have sp2: "splitroot (d @ r @ ?t) = (d, r, ?t)"
      by (rule splitroot_tail [OF sl tsl [OF order_refl] sp dn False])
    have sl2: "slash \<notin> set (d @ r @ ?t)" using sl tsl [OF order_refl] by (auto simp: abs_path_def)
    have np: "normpath (d @ r @ ?t) = abs_path d r ?ns"
      using sp2 splito dn False by (simp add: normpath_def to_bslash_noop [OF sl2] abs_path_def)
    have nss: "set ?ns \<subseteq> set ?os" using norm_comps_subset [of "[]" ?os] by simp
    have "\<forall>o' \<in> set ?ns. py_lower o' = o'"
      using nss lower_components(2) [OF a] owner_lower by fastforce
    then have "map py_lower ?ns = ?ns" by (simp add: map_idI)
    then have "py_lower (join_with bslash ?ns) = join_with bslash ?ns"
      using join_with_map [of lower_char bslash ?ns] by (simp add: py_lower_def [abs_def])
    moreover have "slash \<notin> set (abs_path d r ?ns)"
      using sl tsl [OF nss] by (simp add: abs_path_def)
    moreover have "py_lower r = r" by (simp add: r py_lower_def)
    ultimately have nc: "normcase (normpath (d @ r @ ?t)) = abs_path d r ?ns"
      unfolding normcase_def np using lower_components(1) [OF a] by (simp add: to_bslash_noop abs_path_def)
    have "list_all clean_comp ?ns"
      using osl by (intro norm_comps_rooted_clean) auto
    then have ab: "is_absolute_windows_path (abs_path d r ?ns)"
      using rooted_absolute [OF sl sp dn False join_slash_free] by (simp add: abs_path_def)
    have ow: "try_map owner_segment (split_on bslash (r @ join_with bslash cs)) =
        (if \<exists>q \<in> set cs. owner q = []
         then Inl (PathAmbiguous ''NTFS stream target does not expose a deterministic owner object'')
         else Inr ([] # map owner (if cs = [] then [[]] else cs)))"
      using q by (auto simp: owner_segments owner_segment_def r split)
    have j: "join_with bslash ([] # map owner (if cs = [] then [[]] else cs)) = r @ ?t"
      by (cases cs) (simp_all add: r)
    show ?thesis
      using can sp nc ab j by (simp add: policy_object_windows_path_def splitdrive_def ow Let_def)
  qed
qed

end
