(* ===== verification/PathProperties.thy ===== *)
theory PathProperties
  imports PathPolicy
begin

text \<open>
  What the represented-path policy guarantees: it always decides, it allows nothing outside a
  configured workspace or inside a NEVER root, the policy it builds is consistent, an NTFS
  stream is judged as its owner, and two kinds of configured NEVER root that can never match.
\<close>

section \<open>Decisions\<close>

lemma authorize_facts:
  "authorize_represented_path p v cwd defer = Inr d \<longleftrightarrow>
   (\<exists>f. inspect_represented_path p v cwd defer = Inr f
      \<and> d = \<lparr>pd_outcome = facts_outcome f, pd_reason = pf_reason f, pd_canonical_target = pf_canonical_target f\<rparr>)"
  by (auto simp: authorize_represented_path_def try_bind_Inr_iff)

text \<open>The facts either come from a resolved object, or say that there is none.\<close>

lemma inspect_cases:
  assumes "valid_policy p" and "inspect_represented_path p v cwd defer = Inr f"
  obtains (object) t c where "policy_object_windows_path t = Inr c" "inspect_canonical p t = Inr f"
    | (unresolved) target bad deferred reason where
        "f = unresolved_facts p target bad deferred reason" "deferred \<longrightarrow> defer \<and> target = None"
        "\<forall>t c. target = Some t \<longrightarrow> policy_object_windows_path t \<noteq> Inr c"
proof -
  have can: thesis if "inspect_canonical p t = Inr f" for t
  proof (cases "policy_object_windows_path t")
    case (Inl e)
    then show thesis using that unresolved [of "Some t" False False]
      by (cases e) (auto simp: inspect_canonical_def)
  next
    case (Inr c)
    then show thesis using that object by blast
  qed
  from assms(2) show thesis
    unfolding inspect_represented_path_def Let_def
    by (auto split: sum.splits path_error.splits if_splits option.splits
        intro: can unresolved [of None True False] unresolved [of None False True]
          unresolved [of None False False])
qed

lemma inspect_object_outcome:
  assumes "valid_policy p" and "policy_object_windows_path t = Inr c" and "inspect_canonical p t = Inr f"
  shows "facts_outcome f =
      (if \<exists>r \<in> set (rp_never_roots p). within c r then PathHardInterrupt
       else if \<exists>w. rp_workspace_root p = Some w \<and> \<not> within c w then PathDeny else PathAllow)
    \<and> pf_canonical_target f = Some t"
  using inspect_canonical_object [OF assms(1,2)] assms(3)
  by (auto simp: facts_outcome_def workspace_enabled_def Let_def)

lemma unresolved_outcome:
  "facts_outcome (unresolved_facts p target bad deferred reason) =
     (if deferred then PathAllow else if bad \<or> workspace_enabled p then PathDeny else PathAllow)"
  by (auto simp: facts_outcome_def unresolved_facts_def)

text \<open>On every policy the constructor accepts, authorising a represented target always
  yields a decision: whatever the target value and the executor's directory are, no
  exception escapes.\<close>

theorem authorize_total:
  assumes "valid_policy p"
  shows "\<exists>d. authorize_represented_path p represented executor_cwd defer = Inr d"
  using inspect_total [OF assms] by (fastforce simp: authorize_facts)

definition example_policy :: runtime_path_policy where
  "example_policy = \<lparr>rp_runtime_id = ''rt'', rp_lane_id = ''lane'',
     rp_workspace_root = Some (to_bslash ''c:/ws''),
     rp_never_roots = [to_bslash ''c:/windows'', to_bslash ''c:/ws/private''],
     rp_path_environment = [(''temp'', to_bslash ''C:/ws/tmp'')]\<rparr>"

theorem authorize_total_witness:
  "\<exists>d. authorize_represented_path example_policy (PStr ''%TEMP%/a.txt'') None False = Inr d"
proof (rule authorize_total)
  show "valid_policy example_policy" by code_simp
qed

lemma authorize_cases:
  assumes "valid_policy p" and "authorize_represented_path p v cwd defer = Inr d"
  obtains (object) t c where "policy_object_windows_path t = Inr c" "pd_canonical_target d = Some t"
      "pd_outcome d = (if \<exists>r \<in> set (rp_never_roots p). within c r then PathHardInterrupt
         else if \<exists>w. rp_workspace_root p = Some w \<and> \<not> within c w then PathDeny else PathAllow)"
    | (unresolved) "\<forall>t c. pd_canonical_target d = Some t \<longrightarrow> policy_object_windows_path t \<noteq> Inr c"
      "pd_outcome d \<noteq> PathHardInterrupt" "pd_outcome d = PathAllow \<longrightarrow> defer \<or> rp_workspace_root p = None"
proof -
  obtain f where f: "inspect_represented_path p v cwd defer = Inr f"
    and d: "pd_outcome d = facts_outcome f" "pd_canonical_target d = pf_canonical_target f"
    using assms(2) by (auto simp: authorize_facts)
  show thesis
  proof (cases rule: inspect_cases [OF assms(1) f])
    case (1 t c)
    then show thesis using inspect_object_outcome [OF assms(1) 1] d object by metis
  next
    case (2 target bad deferred reason)
    have t: "pd_canonical_target d = target" using d(2) 2(1) by (simp add: unresolved_facts_def)
    have o': "pd_outcome d = (if deferred then PathAllow else if bad \<or> workspace_enabled p then PathDeny else PathAllow)"
      using d(1) 2(1) by (simp add: unresolved_outcome)
    show thesis
      by (rule unresolved) (use 2(2,3) t o' in \<open>auto simp: workspace_enabled_def\<close>)
  qed
qed

definition outcome_is :: "path_outcome \<Rightarrow> path_error + path_decision \<Rightarrow> bool" where
  "outcome_is out x = (case x of Inl _ \<Rightarrow> False | Inr d \<Rightarrow> pd_outcome d = out)"

lemma outcome_isD: "outcome_is out x \<Longrightarrow> \<exists>d. x = Inr d \<and> pd_outcome d = out"
  by (simp add: outcome_is_def split: sum.splits)

text \<open>C26. A hard interrupt is given exactly when the object the target names lies at or
  below a NEVER root, whatever the workspace is: the NEVER match outranks everything.\<close>

theorem hard_interrupt_iff:
  assumes "valid_policy p" and "authorize_represented_path p represented executor_cwd defer = Inr d"
  shows "pd_outcome d = PathHardInterrupt \<longleftrightarrow>
      (\<exists>t c. pd_canonical_target d = Some t \<and> policy_object_windows_path t = Inr c
         \<and> (\<exists>r \<in> set (rp_never_roots p). within c r))"
  by (cases rule: authorize_cases [OF assms]) auto

theorem hard_interrupt_iff_witness:
  "\<exists>t c. policy_object_windows_path t = Inr c \<and> (\<exists>r \<in> set (rp_never_roots example_policy). within c r)"
proof -
  have "outcome_is PathHardInterrupt (authorize_represented_path example_policy (PStr ''C:/ws/tmp/../Private:s'') None False)"
    by code_simp
  note outcome_isD [OF this]
  moreover have "valid_policy example_policy" by code_simp
  ultimately show ?thesis using hard_interrupt_iff by blast
qed

text \<open>C27. An allowed target that was not deferred to the executor, under a configured
  workspace, names an object at or below the workspace root and below no NEVER root.\<close>

theorem allow_sound:
  assumes "valid_policy p" and "authorize_represented_path p represented executor_cwd defer = Inr d"
    and "pd_outcome d = PathAllow" and "rp_workspace_root p = Some w" and "\<not> defer"
  shows "\<exists>t c. pd_canonical_target d = Some t \<and> policy_object_windows_path t = Inr c
         \<and> within c w \<and> \<not> (\<exists>r \<in> set (rp_never_roots p). within c r)"
  using assms(3-5) by (cases rule: authorize_cases [OF assms(1,2)]) (auto split: if_splits)

theorem allow_sound_witness:
  "\<exists>t c. policy_object_windows_path t = Inr c \<and> within c (to_bslash ''c:/ws'')"
proof -
  have "outcome_is PathAllow (authorize_represented_path example_policy (PStr ''%TEMP%/a.txt'') None False)"
    by code_simp
  note outcome_isD [OF this]
  moreover have "valid_policy example_policy" by code_simp
  moreover have "rp_workspace_root example_policy = Some (to_bslash ''c:/ws'')" by (simp add: example_policy_def)
  ultimately show ?thesis using allow_sound [of example_policy] by blast
qed

section \<open>The policy that is built\<close>

definition add_root :: "string list \<Rightarrow> string \<Rightarrow> string list" where
  "add_root acc c = (if c \<in> set acc then acc else acc @ [c])"

lemma add_root_ok:
  assumes "distinct acc" and "\<forall>r \<in> set acc. canonical r" and "canonical c"
  shows "distinct (add_root acc c)" and "\<forall>r \<in> set (add_root acc c). canonical r"
    and "set (add_root acc c) = insert c (set acc)"
  using assms by (auto simp: add_root_def)

lemma collect_roots_Inr:
  assumes "collect_roots e acc cs = Inr roots" and "distinct acc" and "\<forall>r \<in> set acc. canonical r"
  shows "distinct roots \<and> (\<forall>r \<in> set roots. canonical r) \<and> set acc \<subseteq> set roots"
  using assms
proof (induction cs arbitrary: acc)
  case (Cons cand cands)
  show ?case
  proof (cases "normalize_represented_windows_path (PStr cand) None (env_source e)")
    case (Inl err)
    then have "collect_roots e acc cands = Inr roots" using Cons.prems(1) by (cases err) simp_all
    then show ?thesis using Cons.IH Cons.prems by blast
  next
    case (Inr c)
    note ok = add_root_ok [OF Cons.prems(2,3) normalize_canonical [OF Inr]]
    have "collect_roots e (add_root acc c) cands = Inr roots"
      using Cons.prems(1) Inr by (simp add: add_root_def)
    then show ?thesis using Cons.IH ok by blast
  qed
qed simp

lemma add_never_roots_Inr:
  assumes "add_never_roots e acc raws = Inr roots" and "distinct acc" and "\<forall>r \<in> set acc. canonical r"
  shows "distinct roots \<and> (\<forall>r \<in> set roots. canonical r) \<and> set acc \<subseteq> set roots
    \<and> (\<forall>v \<in> set raws. \<exists>r \<in> set roots. normalize_represented_windows_path v None (env_source e) = Inr r)"
  using assms
proof (induction raws arbitrary: acc)
  case (Cons raw raws)
  show ?case
  proof (cases "normalize_represented_windows_path raw None (env_source e)")
    case (Inl err)
    then show ?thesis using Cons.prems(1) by (cases err) simp_all
  next
    case (Inr c)
    note ok = add_root_ok [OF Cons.prems(2,3) normalize_canonical [OF Inr]]
    have "add_never_roots e (add_root acc c) raws = Inr roots"
      using Cons.prems(1) Inr by (simp add: add_root_def)
    note ih = Cons.IH [OF this ok(1,2)]
    then have "c \<in> set roots" using ok(3) by blast
    then show ?thesis using ih ok(3) Inr by simp
  qed
qed simp

lemma default_roots_ok:
  assumes "default_windows_never_roots e = Inr roots"
  shows "distinct roots" and "\<forall>r \<in> set roots. canonical r"
proof -
  obtain cs where "collect_roots e [] cs = Inr roots"
    using assms by (auto simp: default_windows_never_roots_def Let_def)
  from collect_roots_Inr [OF this] show "distinct roots" "\<forall>r \<in> set roots. canonical r" by simp_all
qed

lemma escape_Inr: "escape x = Inr v \<longleftrightarrow> x = Inr v"
  by (cases x) (simp_all add: escape_def)

lemma normalize_workspace_Inr:
  "normalize_workspace e raw = Inr ws \<Longrightarrow> ws = Some w \<Longrightarrow> canonical w"
  using normalize_canonical
  by (auto simp: normalize_workspace_def split: pyval.splits sum.splits path_error.splits)

lemma build_Inr:
  assumes "build_runtime_path_policy rt lane doc host = Inr p"
  obtains raws raw_ws ws defaults roots where
    "policy_fields doc = Inr (raw_ws, PList raws)"
    "normalize_workspace (normalized_environment host) raw_ws = Inr ws"
    "default_windows_never_roots (normalized_environment host) = Inr defaults"
    "add_never_roots (normalized_environment host) defaults raws = Inr roots"
    "\<forall>w. ws = Some w \<longrightarrow> try_any (path_is_within_or_equal w) roots = Inr False"
    "check_runtime_path_policy p = Inr p" "rp_workspace_root p = ws" "rp_never_roots p = roots"
proof -
  obtain raw_ws raw_never where pf: "policy_fields doc = Inr (raw_ws, raw_never)"
    using assms by (auto simp: build_runtime_path_policy_def Let_def try_bind_Inr_iff)
  obtain raws where raws: "raw_never = PList raws"
    using assms pf by (cases raw_never) (auto simp: build_runtime_path_policy_def Let_def split: if_splits)
  from assms obtain ws defaults roots b where
    b: "normalize_workspace (normalized_environment host) raw_ws = Inr ws"
    "default_windows_never_roots (normalized_environment host) = Inr defaults"
    "add_never_roots (normalized_environment host) defaults raws = Inr roots"
    "(case ws of None \<Rightarrow> Inr False | Some w \<Rightarrow> escape (try_any (path_is_within_or_equal w) roots)) = Inr b"
    "\<not> b"
    "check_runtime_path_policy \<lparr>rp_runtime_id = rt, rp_lane_id = lane, rp_workspace_root = ws,
      rp_never_roots = roots, rp_path_environment = sort_key fst (normalized_environment host)\<rparr> = Inr p"
    by (auto simp: build_runtime_path_policy_def Let_def pf raws try_bind_Inr_iff escape_Inr split: if_splits)
  have p: "check_runtime_path_policy p = Inr p" "rp_workspace_root p = ws" "rp_never_roots p = roots"
    using b(6) unfolding check_policy_Inr by auto
  have "\<forall>w. ws = Some w \<longrightarrow> try_any (path_is_within_or_equal w) roots = Inr False"
    using b(4,5) by (auto simp: escape_Inr)
  then show thesis using that pf raws b(1-3) p by blast
qed

lemma build_policy_facts:
  assumes "build_runtime_path_policy rt lane doc host = Inr p"
  shows "valid_policy p
    \<and> (\<forall>roots. default_windows_never_roots (normalized_environment host) = Inr roots \<longrightarrow> set roots \<subseteq> set (rp_never_roots p))
    \<and> (\<forall>w raws. policy_fields doc = Inr (w, PList raws) \<longrightarrow>
         (\<forall>v \<in> set raws. \<exists>r \<in> set (rp_never_roots p).
            normalize_represented_windows_path v None (env_source (normalized_environment host)) = Inr r))
    \<and> (\<forall>w. rp_workspace_root p = Some w \<longrightarrow> \<not> (\<exists>r \<in> set (rp_never_roots p). within w r))"
proof -
  from assms obtain raws raw_ws ws defaults roots where b:
    "policy_fields doc = Inr (raw_ws, PList raws)"
    "default_windows_never_roots (normalized_environment host) = Inr defaults"
    "add_never_roots (normalized_environment host) defaults raws = Inr roots"
    "\<forall>w. ws = Some w \<longrightarrow> try_any (path_is_within_or_equal w) roots = Inr False"
    "check_runtime_path_policy p = Inr p" "rp_workspace_root p = ws" "rp_never_roots p = roots"
    by (rule build_Inr)
  have v: "valid_policy p" using b(5) by (simp add: valid_policy_def)
  have "set defaults \<subseteq> set roots \<and> (\<forall>v \<in> set raws. \<exists>r \<in> set roots.
      normalize_represented_windows_path v None (env_source (normalized_environment host)) = Inr r)"
    using add_never_roots_Inr [OF b(3) default_roots_ok [OF b(2)]] by blast
  moreover have "\<not> (\<exists>r \<in> set roots. within w r)" if "ws = Some w" for w
    using b(4) that any_within [of w roots] v b(6,7) by (auto simp: valid_policy_iff)
  ultimately show ?thesis using v b(1,2,6,7) by simp
qed

text \<open>A policy that startup builds is well-formed, contains the Windows default NEVER
  roots and every configured one in canonical form, and its workspace root lies below none
  of them.\<close>

theorem build_policy_ok:
  assumes "build_runtime_path_policy rt lane doc host = Inr p"
  shows "valid_policy p
    \<and> (\<forall>roots. default_windows_never_roots (normalized_environment host) = Inr roots \<longrightarrow> set roots \<subseteq> set (rp_never_roots p))
    \<and> (\<forall>w raws. policy_fields doc = Inr (w, PList raws) \<longrightarrow>
         (\<forall>v \<in> set raws. \<exists>r \<in> set (rp_never_roots p).
            normalize_represented_windows_path v None (env_source (normalized_environment host)) = Inr r))
    \<and> (\<forall>w. rp_workspace_root p = Some w \<longrightarrow> \<not> (\<exists>r \<in> set (rp_never_roots p). within w r))"
  by (rule build_policy_facts [OF assms])

definition example_document :: policy_document where
  "example_document = Document (PDict [(''version'', PInt 1), (''workspace_root'', PStr ''C:/Ws''),
     (''never_paths'', PList [PStr ''C:/ws/Private''])])"

definition example_host :: "(string \<times> string option) list" where
  "example_host = [(''PATH'', None), (''systemroot'', Some (to_bslash ''C:/Windows''))]"

definition built_policy :: runtime_path_policy where
  "built_policy = \<lparr>rp_runtime_id = ''rt'', rp_lane_id = ''lane'',
     rp_workspace_root = Some (to_bslash ''c:/ws''),
     rp_never_roots = map to_bslash [''c:/windows'', ''c:/boot'', ''c:/recovery'',
       ''c:/system volume information'', ''c:/ws/private''],
     rp_path_environment = [(''systemroot'', to_bslash ''C:/Windows'')]\<rparr>"

lemma example_build: "build_runtime_path_policy ''rt'' ''lane'' example_document example_host = Inr built_policy"
  by code_simp

theorem build_policy_ok_witness: "valid_policy built_policy"
  using build_policy_ok [OF example_build] by simp

text \<open>Under a policy built at startup, a target inside the workspace that is hard-interrupted
  was matched by a NEVER root lying strictly inside the workspace, never by one around it.\<close>

theorem inner_never_root:
  assumes "build_runtime_path_policy rt lane doc host = Inr p" and "rp_workspace_root p = Some w"
    and "authorize_represented_path p represented executor_cwd defer = Inr d"
    and "pd_outcome d = PathHardInterrupt" and "pd_canonical_target d = Some t"
    and "policy_object_windows_path t = Inr c" and "within c w"
  shows "\<exists>r \<in> set (rp_never_roots p). within c r \<and> within r w \<and> r \<noteq> w"
proof -
  note facts = build_policy_facts [OF assms(1)]
  then have v: "valid_policy p" by blast
  obtain r where r: "r \<in> set (rp_never_roots p)" "within c r"
    using assms(4-6) by (cases rule: authorize_cases [OF v assms(3)]) (auto split: if_splits)
  have "\<not> (\<exists>x \<in> set (rp_never_roots p). within w x)" using facts assms(2) by blast
  with r windows.matching_root_inside_workspace [OF assms(7) _ r] show ?thesis by blast
qed

theorem inner_never_root_witness:
  "\<exists>r \<in> set (rp_never_roots built_policy). within (to_bslash ''c:/ws/private/k'') r
     \<and> within r (to_bslash ''c:/ws'') \<and> r \<noteq> to_bslash ''c:/ws''"
proof (rule inner_never_root [OF example_build])
  show "authorize_represented_path built_policy (PStr ''private/k:stream'') (Some ''C:/WS'') False = Inr
    \<lparr>pd_outcome = PathHardInterrupt, pd_reason = ''represented target positively matches a NEVER root'',
     pd_canonical_target = Some (to_bslash ''c:/ws/private/k:stream'')\<rparr>"
    by code_simp
  show "policy_object_windows_path (to_bslash ''c:/ws/private/k:stream'') = Inr (to_bslash ''c:/ws/private/k'')"
    by code_simp
  show "within (to_bslash ''c:/ws/private/k'') (to_bslash ''c:/ws'')"
    by code_simp
qed (simp_all add: built_policy_def)

section \<open>Streams and shares\<close>

lemma join_with_snoc_append: "join_with c (cs @ [q]) @ x = join_with c (cs @ [q @ x])"
proof (induction cs)
  case (Cons a cs)
  then show ?case by (cases cs) simp_all
qed simp

lemma stream_components:
  assumes "canonical p" and "canonical (p @ colon # s)" and "bslash \<notin> set s"
    and "splitroot p = (d, r, t)" and "t \<noteq> []"
  obtains cs q where "p = abs_path d r (cs @ [q])" "abs_form d r (cs @ [q])"
    "p @ colon # s = abs_path d r (cs @ [q @ colon # s])" "abs_form d r (cs @ [q @ colon # s])"
proof -
  obtain d1 r1 ds where p: "p = abs_path d1 r1 ds" "abs_form d1 r1 ds"
    using assms(1) canonical_iff by blast
  then have "d1 = d" "r1 = r" "t = join_with bslash ds" using assms(4) by (auto simp: abs_form_def)
  with p have p: "p = abs_path d r ds" "abs_form d r ds" by simp_all
  have "ds \<noteq> []" using assms(5) \<open>t = join_with bslash ds\<close> by auto
  then obtain cs q where ds: "ds = cs @ [q]" by (metis rev_exhaust)
  have r: "r = [bslash]" "d \<noteq> []" using p(2) ds by (auto simp: abs_form_def)
  have ps: "p @ colon # s = abs_path d r (cs @ [q @ colon # s])"
    by (simp add: p(1) ds abs_path_def flip: join_with_snoc_append)
  have sl: "slash \<notin> set p" "slash \<notin> set (p @ colon # s)"
    using canonical_slash_free assms(1,2) by blast+
  then have ss: "slash \<notin> set s" by simp
  have cl: "list_all clean_comp (cs @ [q @ colon # s])"
  proof -
    have "q @ colon # s \<noteq> dot \<and> q @ colon # s \<noteq> dotdot"
    proof -
      have "colon \<in> set (q @ colon # s)" by simp
      moreover have "colon \<notin> set dot" "colon \<notin> set dotdot" by simp_all
      ultimately show ?thesis by metis
    qed
    then show ?thesis using p(2) ds ss assms(3) by (auto simp: abs_form_def clean_comp_def)
  qed
  have "splitroot (d @ r @ join_with bslash (cs @ [q @ colon # s])) = (d, r, join_with bslash (cs @ [q @ colon # s]))"
    using splitroot_tail [OF sl(1) join_slash_free [OF cl] assms(4)] r by simp
  then have "abs_form d r (cs @ [q @ colon # s])"
    using p(2) cl r by (auto simp: abs_form_def abs_path_def)
  then show thesis using that p ps ds by blast
qed

text \<open>An NTFS stream is judged as the object that owns it: a stream suffix on a
  canonical path with at least one component below its root does not change the object that
  is compared with the roots.\<close>

theorem stream_same_object:
  assumes "canonical p" and "canonical (p @ colon # s)" and "bslash \<notin> set s"
    and "splitroot p = (d, r, t)" and "t \<noteq> []"
  shows "policy_object_windows_path (p @ colon # s) = policy_object_windows_path p"
proof -
  obtain cs q where c: "p = abs_path d r (cs @ [q])" "abs_form d r (cs @ [q])"
    "p @ colon # s = abs_path d r (cs @ [q @ colon # s])" "abs_form d r (cs @ [q @ colon # s])"
    by (rule stream_components [OF assms])
  have low: "py_lower (abs_path d r (cs @ [q])) = abs_path d r (cs @ [q])"
    "py_lower (abs_path d r (cs @ [q @ colon # s])) = abs_path d r (cs @ [q @ colon # s])"
    using assms(1,2) c(1,3) by (metis canonical_iff)+
  have "owner (q @ colon # s) = owner q"
    by (induction q) auto
  then show ?thesis
    using policy_object_abs [OF c(2) low(1)] policy_object_abs [OF c(4) low(2)] c(1,3) by simp
qed

theorem stream_same_object_witness:
  "policy_object_windows_path (to_bslash ''c:/ws/k:s:$data'') = policy_object_windows_path (to_bslash ''c:/ws/k'')"
proof -
  have "policy_object_windows_path (to_bslash ''c:/ws/k'' @ colon # ''s:$data'') = policy_object_windows_path (to_bslash ''c:/ws/k'')"
  proof (rule stream_same_object)
    show "canonical (to_bslash ''c:/ws/k'')" by code_simp
    show "canonical (to_bslash ''c:/ws/k'' @ colon # ''s:$data'')" by code_simp
    show "bslash \<notin> set ''s:$data''" by simp
    show "splitroot (to_bslash ''c:/ws/k'') = (''c:'', [bslash], to_bslash ''ws/k'')" by code_simp
    show "to_bslash ''ws/k'' \<noteq> []" by code_simp
  qed
  then show ?thesis by (simp add: to_bslash_def replace_char_def)
qed

lemma owner_form:
  assumes "abs_form d r cs"
  shows "abs_form d r (norm_comps True [] (map owner cs))"
proof (cases "r = []")
  case True
  then show ?thesis using assms by (auto simp: abs_form_def)
next
  case False
  have cl: "list_all clean_comp (norm_comps True [] (map owner cs))"
  proof (rule norm_comps_rooted_clean)
    fix x assume "x \<in> set (map owner cs)"
    then obtain q where "q \<in> set cs" "x = owner q" by auto
    moreover have "clean_comp q" using \<open>q \<in> set cs\<close> assms by (simp add: abs_form_def list_all_iff)
    ultimately show "bslash \<notin> set x \<and> slash \<notin> set x" using owner_chars [of q] by (auto simp: clean_comp_def)
  qed simp
  have "splitroot (abs_path d r cs) = (d, r, join_with bslash cs)" "d \<noteq> []" "r = [bslash]"
    using assms False by (auto simp: abs_form_def)
  then show ?thesis
    using splitroot_tail [OF abs_form_slash_free [OF assms] join_slash_free [OF cl]] False cl assms
    by (simp add: abs_form_def abs_path_def)
qed

text \<open>A NEVER root that itself names a stream can never match anything: the compared
  object of every target has lost its stream suffix, so no target, the root's own path
  included, is ever within it.\<close>

theorem stream_never_root_inert:
  assumes "policy_object_windows_path t = Inr c" and "canonical root"
    and "splitroot root = (d, r, rest)" and "colon \<in> set rest"
  shows "\<not> within c root"
proof
  assume w: "within c root"
  obtain d1 r1 ts where t: "t = abs_path d1 r1 ts" "abs_form d1 r1 ts" "py_lower t = t"
    using policy_object_canonical(1) [OF assms(1)] canonical_iff by blast
  have c: "c = abs_path d1 r1 (norm_comps True [] (map owner ts))"
    using assms(1) policy_object_abs [OF t(2)] t(1,3) by (auto split: if_splits)
  let ?cs = "norm_comps True [] (map owner ts)"
  have "path_parts c = (d1, r1, ?cs)"
    using owner_form [OF t(2)] by (auto simp: c path_parts_def abs_form_def plain_comps_join)
  obtain d3 r3 rs where r3: "root = abs_path d3 r3 rs" "abs_form d3 r3 rs" "path_parts root = (d3, r3, rs)"
    using canonical_cases [OF assms(2)] by metis
  have "rest = join_with bslash rs" using r3(1,2) assms(3) by (auto simp: abs_form_def)
  then obtain q where q: "q \<in> set rs" "colon \<in> set q"
    using assms(4) set_join_with [of bslash rs] by auto
  have "prefix rs ?cs"
    using w \<open>path_parts c = _\<close> r3(3) by (auto simp: within_iff parts_within_def starts_with_prefix)
  then have "q \<in> set ?cs" using q(1) set_mono_prefix by blast
  then have "q \<in> set (map owner ts)" using norm_comps_subset [of "[]" "map owner ts"] by auto
  then show False using q(2) owner_not_colon by auto
qed

theorem stream_never_root_inert_witness:
  "\<not> within (to_bslash ''c:/secret'') (to_bslash ''c:/secret:key'')"
proof (rule stream_never_root_inert)
  show "policy_object_windows_path (to_bslash ''c:/secret:key'') = Inr (to_bslash ''c:/secret'')" by code_simp
  show "canonical (to_bslash ''c:/secret:key'')" by code_simp
  show "splitroot (to_bslash ''c:/secret:key'') = (''c:'', [bslash], ''secret:key'')" by code_simp
  show "colon \<in> set ''secret:key''" by simp
qed

text \<open>A NEVER root given as a bare UNC share (server and share, no trailing separator)
  protects only the share's own spelling: every path below it is reported as outside, because
  \<open>commonpath\<close> refuses to compare a rooted with an unrooted path.\<close>

theorem bare_share_not_container:
  assumes "canonical root" and "splitroot root = (d, [], t)"
    and "canonical target" and "splitroot target = (d', r' # rs', t')"
  shows "path_is_within_or_equal target root = Inr False"
  using assms
  by (elim canonical_cases) (auto simp: within_abs_form abs_form_def)

theorem bare_share_not_container_witness:
  "path_is_within_or_equal (to_bslash ''//srv/share/keys/id'') (to_bslash ''//srv/share'') = Inr False"
proof (rule bare_share_not_container)
  show "splitroot (to_bslash ''//srv/share'') = (to_bslash ''//srv/share'', [], [])" by code_simp
  show "splitroot (to_bslash ''//srv/share/keys/id'') = (to_bslash ''//srv/share'', bslash # [], to_bslash ''keys/id'')"
    by code_simp
qed (code_simp, code_simp)

section \<open>Environment expansion\<close>

lemma sub_percent_none: "sub_percent e s = Inr (False, t) \<Longrightarrow> t = s"
  by (induction e s arbitrary: t rule: sub_percent.induct)
     (auto simp: try_bind_Inr_iff split: option.splits if_splits)

lemma sub_powershell_none: "sub_powershell e s = Inr (False, t) \<Longrightarrow> t = s"
  by (induction e s arbitrary: t rule: sub_powershell.induct)
     (auto simp: try_bind_Inr_iff split: option.splits if_splits)

lemma sub_no_reference:
  "\<not> has_reference s \<Longrightarrow> sub_percent e s = Inr (False, s) \<and> sub_powershell e s = Inr (False, s)"
proof (induction s)
  case (Cons c s)
  have "(if c = CHR ''%'' then percent_match s else None) = None"
    "(if c = CHR ''$'' then powershell_match s else None) = None" "\<not> has_reference s"
    using Cons.prems by (cases "percent_match s"; cases "powershell_match s"; simp split: if_splits)+
  then show ?case using Cons.IH by (simp only: sub_percent.simps sub_powershell.simps) simp
qed simp

lemma expand_rounds_fixed:
  assumes "expand_rounds n e s = Inr t"
  shows "expand_rounds (Suc m) e t = Inr t"
  using assms
proof (induction n arbitrary: s)
  case 0
  then show ?case using sub_no_reference [of t e] by (auto split: if_splits)
next
  case (Suc n)
  then obtain b1 t1 b2 t2 where s: "sub_percent e s = Inr (b1, t1)" "sub_powershell e t1 = Inr (b2, t2)"
    by (auto simp: try_bind_Inr_iff)
  show ?case
  proof (cases "t2 = s \<or> \<not> (b1 \<or> b2)")
    case True
    then have "t2 = t" using Suc.prems s by simp
    moreover have "t2 = s" using True s by (metis (full_types) sub_percent_none sub_powershell_none)
    ultimately show ?thesis using s by simp
  next
    case False
    then have "expand_rounds n e t2 = Inr t" using Suc.prems s by (simp split: if_splits)
    then show ?thesis by (rule Suc.IH)
  qed
qed

text \<open>Environment expansion reaches a fixed point: when it returns within its eight rounds,
  expanding the result again returns it unchanged; otherwise it refuses.\<close>

theorem expansion_idempotent:
  assumes "expand_known_environment text e = Inr t"
  shows "expand_known_environment t e = Inr t"
  using expand_rounds_fixed [OF assms [unfolded expand_known_environment_def], of 7]
  by (simp add: expand_known_environment_def)

theorem expansion_idempotent_witness:
  "expand_known_environment ''C:/w/x/c'' [(''a'', ''%B%/x''), (''b'', ''C:/w'')] = Inr ''C:/w/x/c''"
proof (rule expansion_idempotent)
  show "expand_known_environment ''%A%/c'' [(''a'', ''%B%/x''), (''b'', ''C:/w'')] = Inr ''C:/w/x/c''" by code_simp
qed

end
