(* ===== verification/ResourceGuard.thy ===== *)
theory ResourceGuard
  imports PathPolicy
begin

text \<open>
  \<open>jack_credential_resource_guard.py\<close>: the exact host-owned credential files of one runtime and
  lane, the process-wide registry that binds them, and the fact drawn for a canonical target.
  The registry is explicit state (\<open>resource_registry\<close>); the kernel attributes that
  \<open>install\<close> reads and writes are the record \<open>resource_host\<close>.
\<close>

section \<open>Definitions\<close>

datatype guard_error = GuardRuntimeError string | GuardValueError string | GuardTypeError string

definition RESOURCE_JACK_CONFIG :: string where
  "RESOURCE_JACK_CONFIG = ''resource:jack-config''"

definition RESOURCE_PI_CONFIG :: string where
  "RESOURCE_PI_CONFIG = ''resource:pi-config''"

record protected_resource =
  pr_resource_id :: string
  pr_canonical_path :: string

definition make_protected_resource :: "string \<Rightarrow> string \<Rightarrow> guard_error + protected_resource" where
  "make_protected_resource rid path =
     (if rid = [] then Inl (GuardValueError ''resource_id must be a non-empty string'')
      else if path = [] then Inl (GuardValueError ''canonical_path must be a non-empty string'')
      else Inr \<lparr>pr_resource_id = rid, pr_canonical_path = path\<rparr>)"

record resource_policy =
  rs_runtime_id :: string
  rs_lane_id :: string
  rs_resources :: "protected_resource list"

text \<open>The duplicate check of \<open>RuntimeCredentialResourcePolicy.__post_init__\<close>, in its order.\<close>

fun check_resources :: "string list \<Rightarrow> string list \<Rightarrow> protected_resource list \<Rightarrow> guard_error + unit" where
  "check_resources ids paths [] = Inr ()"
| "check_resources ids paths (r # rs) =
     (if pr_resource_id r \<in> set ids then Inl (GuardValueError ''duplicate credential resource_id'')
      else if pr_canonical_path r \<in> set paths then Inl (GuardValueError ''duplicate credential resource path'')
      else check_resources (pr_resource_id r # ids) (pr_canonical_path r # paths) rs)"

definition make_resource_policy :: "string \<Rightarrow> string \<Rightarrow> protected_resource list \<Rightarrow> guard_error + resource_policy" where
  "make_resource_policy rt lane rs =
     (if rt = [] then Inl (GuardValueError ''runtime_id must be a non-empty string'')
      else if lane = [] then Inl (GuardValueError ''lane_id must be a non-empty string'')
      else try_bind (check_resources [] [] rs) (\<lambda>_.
        Inr \<lparr>rs_runtime_id = rt, rs_lane_id = lane, rs_resources = rs\<rparr>))"

record resource_fact =
  rf_protected :: bool
  rf_resource_id :: "string option"

definition canonical_resource_path :: "string \<Rightarrow> guard_error + string" where
  "canonical_resource_path value =
     (let text = to_bslash (py_strip value) in
      if text = [] then Inl (GuardRuntimeError ''Phase-7 credential resource path is empty'')
      else let c = normcase (normpath text) in
        case splitdrive c of (drive, rest) \<Rightarrow>
          if drive = [] \<or> \<not> (starts_with [bslash] rest \<or> starts_with [bslash, bslash] drive)
          then Inl (GuardRuntimeError ''Phase-7 credential resource path is not an absolute Windows path'')
          else Inr c)"

definition resource_id_for_path :: "string \<Rightarrow> guard_error + string" where
  "resource_id_for_path path =
     (let lowered = py_casefold path in
      if ends_with (to_bslash ''/jackkernellmstudio/config.json'') lowered
         \<or> ends_with (to_bslash ''/.jack-kernel-lm-studio/config.json'') lowered
      then Inr RESOURCE_JACK_CONFIG
      else if ends_with (to_bslash ''/.pi/agent/jack-kernel.json'') lowered then Inr RESOURCE_PI_CONFIG
      else Inl (GuardRuntimeError ''Phase-7 encountered an unknown protected credential resource''))"

definition protect_resource :: "string \<Rightarrow> guard_error + protected_resource" where
  "protect_resource raw =
     try_bind (canonical_resource_path raw) (\<lambda>path.
     try_bind (resource_id_for_path path) (\<lambda>rid. make_protected_resource rid path))"

text \<open>The three attributes of the credential policy that are read: its identities and paths.\<close>

definition build_resource_policy :: "string \<Rightarrow> string \<Rightarrow> string list \<Rightarrow> guard_error + resource_policy" where
  "build_resource_policy runtime_id lane_id raw_resources =
     try_bind (try_map protect_resource raw_resources) (\<lambda>rs.
       make_resource_policy (py_strip runtime_id) (py_strip lane_id) rs)"

type_synonym resource_registry = "(string \<times> string) \<Rightarrow> resource_policy option"

record resource_host =
  rh_runtime_id :: string
  rh_lane_id :: string
  rh_installed :: bool
  rh_policy :: "resource_policy option"

definition install_resource_guard ::
    "resource_registry \<Rightarrow> resource_host \<Rightarrow> string \<times> string \<times> string list
       \<Rightarrow> guard_error + (resource_policy \<times> resource_registry \<times> resource_host)" where
  "install_resource_guard reg host cp =
     (if rh_installed host then
        (case rh_policy host of
           None \<Rightarrow> Inl (GuardRuntimeError ''Phase-7 credential resource policy state is invalid'')
         | Some p \<Rightarrow> Inr (p, reg, host))
      else case cp of (rt, lane, raws) \<Rightarrow>
        try_bind (build_resource_policy rt lane raws) (\<lambda>p.
          if rs_runtime_id p \<noteq> py_strip (rh_runtime_id host) \<or> rs_lane_id p \<noteq> py_strip (rh_lane_id host)
          then Inl (GuardRuntimeError ''Phase-7 credential resource ownership mismatch'')
          else let key = (rs_runtime_id p, rs_lane_id p) in
            if reg key \<noteq> None \<and> reg key \<noteq> Some p
            then Inl (GuardRuntimeError
              ''Phase-7 credential resource identity cannot be rebound to a different policy'')
            else Inr (p, reg(key \<mapsto> p), host\<lparr>rh_policy := Some p, rh_installed := True\<rparr>)))"

definition fact_for_canonical_target ::
    "resource_registry \<Rightarrow> string \<times> string \<Rightarrow> string option \<Rightarrow> resource_fact option" where
  "fact_for_canonical_target reg key target =
     (case target of
        None \<Rightarrow> None
      | Some t \<Rightarrow>
          if t = [] then None
          else case reg key of
            None \<Rightarrow> None
          | Some p \<Rightarrow>
              (case find (\<lambda>r. normcase (normpath t) = pr_canonical_path r) (rs_resources p) of
                 Some r \<Rightarrow> Some \<lparr>rf_protected = True, rf_resource_id = Some (pr_resource_id r)\<rparr>
               | None \<Rightarrow> Some \<lparr>rf_protected = False, rf_resource_id = None\<rparr>))"

section \<open>Policies\<close>

definition distinct_resources :: "protected_resource list \<Rightarrow> bool" where
  "distinct_resources rs \<longleftrightarrow> distinct (map pr_resource_id rs) \<and> distinct (map pr_canonical_path rs)"

lemma check_resources_Inr:
  "check_resources ids paths rs = Inr u \<longleftrightarrow> distinct_resources rs
     \<and> set ids \<inter> pr_resource_id ` set rs = {} \<and> set paths \<inter> pr_canonical_path ` set rs = {}"
  by (induction rs arbitrary: ids paths) (auto simp: distinct_resources_def)

lemma make_resource_policy_Inr:
  "make_resource_policy rt lane rs = Inr p \<longleftrightarrow> rt \<noteq> [] \<and> lane \<noteq> [] \<and> distinct_resources rs
     \<and> p = \<lparr>rs_runtime_id = rt, rs_lane_id = lane, rs_resources = rs\<rparr>"
  by (auto simp: make_resource_policy_def try_bind_Inr_iff check_resources_Inr)

lemma build_resource_policy_Inr:
  assumes "build_resource_policy rt lane raws = Inr p"
  shows "rs_runtime_id p = py_strip rt \<and> rs_lane_id p = py_strip lane \<and> distinct_resources (rs_resources p)
    \<and> list_all2 (\<lambda>raw r. protect_resource raw = Inr r) raws (rs_resources p)"
  using assms by (auto simp: build_resource_policy_def try_bind_Inr_iff make_resource_policy_Inr try_map_Inr_iff)

lemma install_resource_guard_cases:
  assumes "install_resource_guard reg host cp = Inr (p, reg', host')"
  obtains (again) "rh_installed host" "rh_policy host = Some p" "reg' = reg" "host' = host"
    | (fresh) "\<not> rh_installed host" "reg' = reg((rs_runtime_id p, rs_lane_id p) \<mapsto> p)"
      "reg (rs_runtime_id p, rs_lane_id p) \<in> {None, Some p}"
      "host' = host\<lparr>rh_policy := Some p, rh_installed := True\<rparr>"
      "build_resource_policy (fst cp) (fst (snd cp)) (snd (snd cp)) = Inr p"
proof (cases "rh_installed host")
  case True
  then show thesis using assms again by (auto simp: install_resource_guard_def split: option.splits)
next
  case False
  then show thesis using assms fresh
    by (cases cp) (auto simp: install_resource_guard_def try_bind_Inr_iff Let_def split: if_splits)
qed

section \<open>Properties\<close>

text \<open>Installing never rebinds: a runtime and lane that already have a protected-resource
  policy keep exactly that policy, and installing again on the same host changes nothing.\<close>

theorem install_keeps_bindings:
  assumes "install_resource_guard reg host cp = Inr (p, reg', host')"
  shows "reg \<subseteq>\<^sub>m reg' \<and> install_resource_guard reg' host' cp' = Inr (p, reg', host')"
  using assms
proof (cases rule: install_resource_guard_cases)
  case again
  then show ?thesis by (simp add: install_resource_guard_def)
next
  case fresh
  then show ?thesis by (auto simp: install_resource_guard_def map_le_def)
qed

definition example_resources :: "string \<times> string \<times> string list" where
  "example_resources = (''rt'', ''lane'', [''C:/Users/u/.pi/agent/jack-kernel.json''])"

definition example_resource_host :: resource_host where
  "example_resource_host = \<lparr>rh_runtime_id = ''rt'', rh_lane_id = ''lane'', rh_installed = False, rh_policy = None\<rparr>"

definition example_resource_policy :: resource_policy where
  "example_resource_policy = \<lparr>rs_runtime_id = ''rt'', rs_lane_id = ''lane'', rs_resources =
     [\<lparr>pr_resource_id = RESOURCE_PI_CONFIG, pr_canonical_path = to_bslash ''c:/users/u/.pi/agent/jack-kernel.json''\<rparr>]\<rparr>"

lemma example_resource_build:
  "build_resource_policy ''rt'' ''lane'' [''C:/Users/u/.pi/agent/jack-kernel.json''] = Inr example_resource_policy"
  by code_simp

lemma example_strip: "py_strip ''rt'' = ''rt''" "py_strip ''lane'' = ''lane''"
  by code_simp+

lemma example_resource_install:
  "install_resource_guard Map.empty example_resource_host example_resources
   = Inr (example_resource_policy, [(''rt'', ''lane'') \<mapsto> example_resource_policy],
       example_resource_host\<lparr>rh_policy := Some example_resource_policy, rh_installed := True\<rparr>)"
  by (simp add: install_resource_guard_def example_resources_def example_resource_build
      example_resource_host_def example_strip Let_def)
     (simp add: example_resource_policy_def)

theorem install_keeps_bindings_witness:
  "Map.empty \<subseteq>\<^sub>m [(''rt'', ''lane'') \<mapsto> example_resource_policy]"
  using install_keeps_bindings [OF example_resource_install] by blast

text \<open>The fact for a canonical target is exact: with a policy bound to the runtime and
  lane, the target is protected exactly when it is one of the policy's paths, and the fact
  then carries the identity of that resource.\<close>

theorem resource_fact_exact:
  assumes "canonical t" and "reg key = Some p" and "distinct_resources (rs_resources p)"
  shows "\<exists>f. fact_for_canonical_target reg key (Some t) = Some f
    \<and> (rf_protected f \<longleftrightarrow> t \<in> pr_canonical_path ` set (rs_resources p))
    \<and> (\<forall>r \<in> set (rs_resources p). pr_canonical_path r = t \<longrightarrow> rf_resource_id f = Some (pr_resource_id r))"
proof -
  let ?find = "find (\<lambda>r. t = pr_canonical_path r) (rs_resources p)"
  have t: "normcase (normpath t) = t" "t \<noteq> []"
    using canonical_normal_form [OF assms(1)] assms(1) by (auto simp: canonical_def require_canonical_absolute_def)
  show ?thesis
  proof (cases ?find)
    case None
    then have "t \<notin> pr_canonical_path ` set (rs_resources p)" by (auto simp: find_None_iff)
    then show ?thesis using None assms(2) t by (auto simp: fact_for_canonical_target_def)
  next
    case (Some r)
    then obtain i where "i < length (rs_resources p)" "t = pr_canonical_path (rs_resources p ! i)"
        "r = rs_resources p ! i"
      unfolding find_Some_iff by blast
    then have r: "r \<in> set (rs_resources p)" "pr_canonical_path r = t" by simp_all
    have inj: "inj_on pr_canonical_path (set (rs_resources p))"
      using assms(3) by (simp add: distinct_resources_def distinct_map)
    have one: "r' = r" if "r' \<in> set (rs_resources p)" "pr_canonical_path r' = t" for r'
      using inj_onD [OF inj _ that(1) r(1)] that(2) r(2) by simp
    have "fact_for_canonical_target reg key (Some t) = Some \<lparr>rf_protected = True, rf_resource_id = Some (pr_resource_id r)\<rparr>"
      using Some assms(2) t by (simp add: fact_for_canonical_target_def)
    moreover have "t \<in> pr_canonical_path ` set (rs_resources p)" using r by blast
    ultimately show ?thesis using one by auto
  qed
qed

theorem resource_fact_exact_witness:
  "\<exists>f. fact_for_canonical_target [(''rt'', ''lane'') \<mapsto> example_resource_policy] (''rt'', ''lane'')
      (Some (to_bslash ''c:/users/u/.pi/agent/jack-kernel.json'')) = Some f \<and> rf_protected f"
proof -
  have "canonical (to_bslash ''c:/users/u/.pi/agent/jack-kernel.json'')" by code_simp
  moreover have "distinct_resources (rs_resources example_resource_policy)"
    by (simp add: distinct_resources_def example_resource_policy_def)
  ultimately show ?thesis
    using resource_fact_exact [of _ "[(''rt'', ''lane'') \<mapsto> example_resource_policy]" "(''rt'', ''lane'')" example_resource_policy]
    by (fastforce simp: example_resource_policy_def)
qed

text \<open>The comparison does not reduce a target to the object that owns its stream: a
  stream name for a protected file, as the default stream is, is reported as unprotected
  whenever no protected path contains that stream spelling itself, although the path policy
  judges it as the file.\<close>

theorem stream_spelling_unprotected:
  assumes "canonical (t @ colon # s)" and "reg key = Some p"
    and "\<forall>r \<in> set (rs_resources p). pr_canonical_path r \<noteq> t @ colon # s"
  shows "fact_for_canonical_target reg key (Some (t @ colon # s)) = Some \<lparr>rf_protected = False, rf_resource_id = None\<rparr>"
proof -
  have "normcase (normpath (t @ colon # s)) = t @ colon # s"
    using canonical_normal_form [OF assms(1)] by simp
  moreover have "find (\<lambda>r. t @ colon # s = pr_canonical_path r) (rs_resources p) = None"
    using assms(3) by (auto simp: find_None_iff)
  ultimately show ?thesis using assms(2) by (simp add: fact_for_canonical_target_def)
qed

theorem stream_spelling_unprotected_witness:
  "fact_for_canonical_target [(''rt'', ''lane'') \<mapsto> example_resource_policy] (''rt'', ''lane'')
     (Some (to_bslash ''c:/users/u/.pi/agent/jack-kernel.json'' @ colon # '':$data''))
   = Some \<lparr>rf_protected = False, rf_resource_id = None\<rparr>"
proof (rule stream_spelling_unprotected)
  show "canonical (to_bslash ''c:/users/u/.pi/agent/jack-kernel.json'' @ colon # '':$data'')" by code_simp
  show "\<forall>r \<in> set (rs_resources example_resource_policy).
      pr_canonical_path r \<noteq> to_bslash ''c:/users/u/.pi/agent/jack-kernel.json'' @ colon # '':$data''"
    by (simp add: example_resource_policy_def)
qed simp

end
