(* ===== verification/ConsequenceGate.thy ===== *)
theory ConsequenceGate
  imports ResourceGuard PathProperties
begin

text \<open>
  \<open>jack_consequence_gate.py\<close>: how typed authority facts become one outcome with a containment
  scope, the governed form of \<open>authorize_represented_path\<close> that \<open>install\<close> puts in place, and
  the governed executor admission. The context variable holding the current boundary is an
  argument; what the code hands to the authority ledger is returned as a list of
  \<open>gate_record\<close>s in the order of the calls.
\<close>

section \<open>Facts and outcomes\<close>

datatype security_outcome = ALLOW | DENY_AND_CONTINUE | REQUIRE_USER_DECISION | HARD_INTERRUPT

definition outcome_value :: "security_outcome \<Rightarrow> string" where
  "outcome_value out = (case out of ALLOW \<Rightarrow> ''ALLOW'' | DENY_AND_CONTINUE \<Rightarrow> ''DENY_AND_CONTINUE''
     | REQUIRE_USER_DECISION \<Rightarrow> ''REQUIRE_USER_DECISION'' | HARD_INTERRUPT \<Rightarrow> ''HARD_INTERRUPT'')"

definition SECURITY_OUTCOMES :: "security_outcome list" where
  "SECURITY_OUTCOMES = [ALLOW, DENY_AND_CONTINUE, REQUIRE_USER_DECISION, HARD_INTERRUPT]"

definition EXPECTED_OUTCOME_VALUES :: "string list" where
  "EXPECTED_OUTCOME_VALUES = [''ALLOW'', ''DENY_AND_CONTINUE'', ''REQUIRE_USER_DECISION'', ''HARD_INTERRUPT'']"

datatype consequence_boundary =
    AtToolCall | AtToolReleaseBatch | AtExecutorAdmission | AtOverlapAdmission
  | AtEvidenceFragment | AtConsequence

datatype containment_scope =
    ScopeNone | ScopeToolCall | ScopeToolBatch | ScopeExecutorAdmission | ScopeOverlapAdmission
  | ScopeEvidenceFragment | ScopeConsequence

definition boundary_value :: "consequence_boundary \<Rightarrow> string" where
  "boundary_value b = (case b of AtToolCall \<Rightarrow> ''tool_call'' | AtToolReleaseBatch \<Rightarrow> ''tool_release_batch''
     | AtExecutorAdmission \<Rightarrow> ''executor_admission'' | AtOverlapAdmission \<Rightarrow> ''overlap_admission''
     | AtEvidenceFragment \<Rightarrow> ''evidence_fragment'' | AtConsequence \<Rightarrow> ''consequence'')"

definition scope_value :: "containment_scope \<Rightarrow> string" where
  "scope_value s = (case s of ScopeNone \<Rightarrow> ''none'' | ScopeToolCall \<Rightarrow> ''tool_call''
     | ScopeToolBatch \<Rightarrow> ''tool_batch'' | ScopeExecutorAdmission \<Rightarrow> ''executor_admission''
     | ScopeOverlapAdmission \<Rightarrow> ''overlap_admission'' | ScopeEvidenceFragment \<Rightarrow> ''evidence_fragment''
     | ScopeConsequence \<Rightarrow> ''consequence'')"

text \<open>The components are, in order: \<open>authorized\<close>; \<open>valid\<close> and \<open>errors\<close>; the path facts; the
  resource fact; \<open>runtime_matches\<close>, \<open>lane_matches\<close>; \<open>run_open\<close>, \<open>overlapping_admission_requested\<close>;
  \<open>forged\<close>; \<open>approval_required\<close>, \<open>approval_valid\<close>; \<open>task_matches\<close>, \<open>run_matches\<close>,
  \<open>run_epoch_matches\<close>.\<close>

datatype authority_fact =
    StageToolFact bool
  | ToolSchemaFact bool "string list"
  | PathFact path_facts
  | CredentialResourceFact resource_fact
  | ExecutorIdentityFact bool bool
  | SettlementFact bool bool
  | ReservedEvidenceFact bool
  | ApprovalFact bool bool
  | LifecycleFact bool bool bool

definition fact_type_name :: "authority_fact \<Rightarrow> string" where
  "fact_type_name f = (case f of
       StageToolFact _ \<Rightarrow> ''StageToolAuthorityFact'' | ToolSchemaFact _ _ \<Rightarrow> ''ToolSchemaFact''
     | PathFact _ \<Rightarrow> ''RepresentedPathAuthorityFacts''
     | CredentialResourceFact _ \<Rightarrow> ''CredentialResourceAuthorityFact''
     | ExecutorIdentityFact _ _ \<Rightarrow> ''ExecutorAdmissionIdentityFact'' | SettlementFact _ _ \<Rightarrow> ''SettlementFact''
     | ReservedEvidenceFact _ \<Rightarrow> ''ReservedEvidenceNamespaceFact'' | ApprovalFact _ _ \<Rightarrow> ''ApprovalFact''
     | LifecycleFact _ _ _ \<Rightarrow> ''LifecycleAuthorityFact'')"

record consequence_decision =
  cd_outcome :: security_outcome
  cd_scope :: containment_scope
  cd_decisive :: "authority_fact option"
  cd_fact_types :: "string list"

datatype gate_error =
    UnmappedAuthorityFact
  | GateRuntimeError string
  | GateValueError string
  | GateAssertionError string
  | GatePathError path_error
  | GateHttpError nat string

section \<open>The gate\<close>

definition require_compatible_outcome_type :: "string list \<Rightarrow> gate_error + unit" where
  "require_compatible_outcome_type vals =
     (if vals \<noteq> EXPECTED_OUTCOME_VALUES
      then Inl (GateRuntimeError ''Jack Kernel SecurityOutcome vocabulary does not match Phase-5 contract'')
      else Inr ())"

definition single :: "authority_fact \<Rightarrow> security_outcome \<Rightarrow> containment_scope \<Rightarrow> bool \<Rightarrow> consequence_decision" where
  "single af out scope decisive =
     \<lparr>cd_outcome = out, cd_scope = scope, cd_decisive = (if decisive then Some af else None),
      cd_fact_types = [fact_type_name af]\<rparr>"

definition path_scope :: "consequence_boundary \<Rightarrow> bool \<Rightarrow> containment_scope" where
  "path_scope b hard =
     (if b = AtExecutorAdmission then ScopeExecutorAdmission
      else if hard \<and> b = AtToolReleaseBatch then ScopeToolBatch
      else ScopeToolCall)"

text \<open>The common shape of the branches: denied or allowed.\<close>

definition verdict :: "authority_fact \<Rightarrow> bool \<Rightarrow> security_outcome \<Rightarrow> containment_scope \<Rightarrow> consequence_decision" where
  "verdict af bad out scope =
     single af (if bad then out else ALLOW) (if bad then scope else ScopeNone) bad"

definition path_denied :: "path_facts \<Rightarrow> bool" where
  "path_denied f \<longleftrightarrow> pf_invalid f
     \<or> (pf_workspace_configured f \<and> (\<not> pf_deterministic f \<or> pf_inside_workspace f = Some False))"

definition decision_for_fact :: "consequence_boundary \<Rightarrow> authority_fact \<Rightarrow> gate_error + consequence_decision" where
  "decision_for_fact b af = (case af of
       StageToolFact authorized \<Rightarrow> Inr (verdict af (\<not> authorized) DENY_AND_CONTINUE ScopeToolCall)
     | ToolSchemaFact valid _ \<Rightarrow> Inr (verdict af (\<not> valid) DENY_AND_CONTINUE ScopeToolCall)
     | PathFact f \<Rightarrow>
         (if pf_deferred_to_executor f then Inr (single af ALLOW ScopeNone False)
          else if pf_never_match f then Inr (single af HARD_INTERRUPT (path_scope b True) True)
          else Inr (verdict af (path_denied f) DENY_AND_CONTINUE (path_scope b False)))
     | CredentialResourceFact r \<Rightarrow> Inr (verdict af (rf_protected r) DENY_AND_CONTINUE (path_scope b False))
     | ExecutorIdentityFact rt lane \<Rightarrow>
         Inr (verdict af (\<not> (rt \<and> lane)) DENY_AND_CONTINUE ScopeExecutorAdmission)
     | SettlementFact is_open overlap \<Rightarrow> Inr (verdict af (is_open \<and> overlap) DENY_AND_CONTINUE ScopeOverlapAdmission)
     | ReservedEvidenceFact forged \<Rightarrow> Inr (verdict af forged DENY_AND_CONTINUE ScopeEvidenceFragment)
     | ApprovalFact required valid \<Rightarrow>
         Inr (verdict af (required \<and> \<not> valid) REQUIRE_USER_DECISION ScopeConsequence)
     | LifecycleFact t r e \<Rightarrow>
         (if t \<and> r \<and> e then Inr (single af ALLOW ScopeNone False) else Inl UnmappedAuthorityFact))"

definition all_equal :: "'a list \<Rightarrow> bool" where
  "all_equal xs \<longleftrightarrow> (case xs of [] \<Rightarrow> False | x # ys \<Rightarrow> list_all (\<lambda>y. y = x) ys)"

definition combine_decisions ::
    "authority_fact list \<Rightarrow> consequence_decision list \<Rightarrow> gate_error + consequence_decision" where
  "combine_decisions facts decisions =
     (let types = map fact_type_name facts;
          non_allow = filter (\<lambda>(_, d). cd_outcome d \<noteq> ALLOW) (zip facts decisions);
          hard_pairs = filter (\<lambda>(_, d). cd_outcome d = HARD_INTERRUPT) non_allow
      in case non_allow of
           [] \<Rightarrow> Inr \<lparr>cd_outcome = ALLOW, cd_scope = ScopeNone, cd_decisive = None, cd_fact_types = types\<rparr>
         | (af, d) # _ \<Rightarrow>
          (case hard_pairs of
             (hard_fact, hdec) # _ \<Rightarrow>
               (if \<not> all_equal (map (\<lambda>(_, d). cd_scope d) hard_pairs)
                then Inl (GateRuntimeError ''Consequence Gate received hard facts with conflicting containment scopes'')
                else Inr \<lparr>cd_outcome = HARD_INTERRUPT, cd_scope = cd_scope hdec,
                          cd_decisive = Some hard_fact, cd_fact_types = types\<rparr>)
           | [] \<Rightarrow>
               (if \<not> all_equal (map (\<lambda>(_, d). cd_outcome d) non_allow)
                then Inl (GateRuntimeError ''Consequence Gate received conflicting authoritative non-hard dispositions'')
                else if \<not> all_equal (map (\<lambda>(_, d). cd_scope d) non_allow)
                then Inl (GateRuntimeError ''Consequence Gate will not guess a broader containment scope for multiple non-hard facts'')
                else Inr \<lparr>cd_outcome = cd_outcome d, cd_scope = cd_scope d,
                          cd_decisive = Some af, cd_fact_types = types\<rparr>)))"

definition evaluate_consequence ::
    "consequence_boundary \<Rightarrow> consequence_boundary option \<Rightarrow> authority_fact list
       \<Rightarrow> gate_error + consequence_decision" where
  "evaluate_consequence current boundary facts =
     (if facts = [] then Inl (GateValueError ''Consequence Gate requires at least one authority fact'')
      else try_bind (require_compatible_outcome_type (map outcome_value SECURITY_OUTCOMES)) (\<lambda>_.
        let b = (case boundary of None \<Rightarrow> current | Some b \<Rightarrow> b) in
        try_bind (try_map (decision_for_fact b) facts) (combine_decisions facts)))"

section \<open>Governed path authorisation\<close>

datatype gate_record =
    PathDecisionRecord path_facts security_outcome containment_scope consequence_boundary
  | ExecutorIdentityRecord bool bool security_outcome containment_scope
  | ResourceBlockRecord string string

definition legacy_outcome :: "security_outcome \<Rightarrow> path_outcome option" where
  "legacy_outcome out = (case out of ALLOW \<Rightarrow> Some PathAllow | DENY_AND_CONTINUE \<Rightarrow> Some PathDeny
     | HARD_INTERRUPT \<Rightarrow> Some PathHardInterrupt | REQUIRE_USER_DECISION \<Rightarrow> None)"

definition legacy_path_decision :: "consequence_decision \<Rightarrow> path_facts \<Rightarrow> gate_error + path_decision" where
  "legacy_path_decision d raw =
     (case legacy_outcome (cd_outcome d) of
        None \<Rightarrow> Inl (GateAssertionError
          ''Phase-5 path decision cannot be represented by Phase-4 release machinery'')
      | Some out \<Rightarrow> Inr \<lparr>pd_outcome = out,
          pd_reason = (case cd_decisive d of
              Some (CredentialResourceFact _) \<Rightarrow> ''represented target is an exact protected credential resource''
            | _ \<Rightarrow> pf_reason raw),
          pd_canonical_target = pf_canonical_target raw\<rparr>)"

text \<open>The closure \<open>governed\<close>. The records it hands to the ledger come first in the result.\<close>

definition governed_path ::
    "resource_registry \<Rightarrow> bool \<Rightarrow> consequence_boundary \<Rightarrow> runtime_path_policy \<Rightarrow> pyval \<Rightarrow> string option \<Rightarrow> bool
       \<Rightarrow> gate_record list \<times> (gate_error + path_decision)" where
  "governed_path reg has_ledger current p represented executor_cwd defer =
     (case inspect_represented_path p represented executor_cwd defer of
        Inl e \<Rightarrow> ([], Inl (GatePathError e))
      | Inr raw \<Rightarrow>
        (case evaluate_consequence current None [PathFact raw] of
           Inl e \<Rightarrow> ([], Inl e)
         | Inr pd \<Rightarrow>
           let rec = PathDecisionRecord raw (cd_outcome pd) (cd_scope pd) current in
           (case fact_for_canonical_target reg (rp_runtime_id p, rp_lane_id p) (pf_canonical_target raw) of
              None \<Rightarrow> ([rec], legacy_path_decision pd raw)
            | Some rf \<Rightarrow>
                if \<not> rf_protected rf then ([rec], legacy_path_decision pd raw)
                else
                  (case evaluate_consequence current None [PathFact raw, CredentialResourceFact rf] of
                     Inl e \<Rightarrow> ([rec], Inl e)
                   | Inr fd \<Rightarrow>
                       ((if has_ledger \<and> cd_outcome fd = DENY_AND_CONTINUE
                         then [rec, ResourceBlockRecord
                                 (case rf_resource_id rf of None \<Rightarrow> [] | Some i \<Rightarrow> i) (scope_value (cd_scope fd))]
                         else [rec]),
                        legacy_path_decision fd raw)))))"

section \<open>Governed executor admission\<close>

definition ADMISSION_FIELDS :: "string list" where
  "ADMISSION_FIELDS = [''protocol_version'', ''runtime_id'', ''lane_id'', ''tool_call_id'', ''tool_name'',
     ''arguments'', ''executor_cwd'', ''executor_platform'', ''command_dialect'']"

definition PHASE4_EXECUTOR_ADMISSION_PROTOCOL_VERSION :: int where
  "PHASE4_EXECUTOR_ADMISSION_PROTOCOL_VERSION = 1"

definition governed_admission ::
    "string \<Rightarrow> string \<Rightarrow> bool \<Rightarrow> (consequence_boundary \<Rightarrow> pyval \<Rightarrow> gate_record list \<times> (gate_error + 'r))
       \<Rightarrow> consequence_boundary \<Rightarrow> pyval \<Rightarrow> gate_record list \<times> (gate_error + 'r)" where
  "governed_admission runtime_id lane_id has_ledger original current payload =
     (case payload of
        PDict d \<Rightarrow>
          if set (map fst d) \<subseteq> set ADMISSION_FIELDS
             \<and> py_eq (dict_get d ''protocol_version'') (PInt PHASE4_EXECUTOR_ADMISSION_PROTOCOL_VERSION)
          then
            (let rt = (py_strip (str_or_empty (dict_get d ''runtime_id'')) = runtime_id);
                 lane = (py_strip (str_or_empty (dict_get d ''lane_id'')) = lane_id)
             in case evaluate_consequence current (Some AtExecutorAdmission) [ExecutorIdentityFact rt lane] of
                  Inl e \<Rightarrow> ([], Inl e)
                | Inr dec \<Rightarrow>
                  let recs = (if has_ledger then [ExecutorIdentityRecord rt lane (cd_outcome dec) (cd_scope dec)] else []) in
                  if cd_outcome dec = DENY_AND_CONTINUE \<and> cd_scope dec \<noteq> ScopeExecutorAdmission
                  then (recs, Inl (GateAssertionError ''Executor identity denial escaped admission scope''))
                  else if cd_outcome dec = DENY_AND_CONTINUE \<and> \<not> rt
                  then (recs, Inl (GateHttpError 409 ''Phase-4 executor admission runtime identity mismatch''))
                  else if cd_outcome dec = DENY_AND_CONTINUE \<and> \<not> lane
                  then (recs, Inl (GateHttpError 409 ''Phase-4 executor admission lane identity mismatch''))
                  else (case original AtExecutorAdmission payload of (recs', r) \<Rightarrow> (recs @ recs', r)))
          else original AtExecutorAdmission payload
      | _ \<Rightarrow> original AtExecutorAdmission payload)"

definition governed_partition :: "(consequence_boundary \<Rightarrow> 'c \<Rightarrow> 'r) \<Rightarrow> 'c \<Rightarrow> 'r" where
  "governed_partition original calls = original AtToolReleaseBatch calls"

section \<open>The abstract gate\<close>

text \<open>What the gate promises, on the set of the facts' own verdicts: a hard verdict decides
  alone and must be unambiguous about its scope; otherwise all the non-allowing verdicts must
  agree; otherwise the answer is to allow.\<close>

definition gate_result :: "(security_outcome \<times> containment_scope) set \<Rightarrow> security_outcome \<Rightarrow> containment_scope \<Rightarrow> bool" where
  "gate_result S out sc \<longleftrightarrow>
     (if HARD_INTERRUPT \<in> fst ` S then out = HARD_INTERRUPT \<and> {x \<in> S. fst x = HARD_INTERRUPT} = {(HARD_INTERRUPT, sc)}
      else if fst ` S \<subseteq> {ALLOW} then out = ALLOW \<and> sc = ScopeNone
      else {x \<in> S. fst x \<noteq> ALLOW} = {(out, sc)})"

definition verdict_of :: "consequence_decision \<Rightarrow> security_outcome \<times> containment_scope" where
  "verdict_of d = (cd_outcome d, cd_scope d)"

definition fact_verdicts :: "consequence_boundary \<Rightarrow> authority_fact list \<Rightarrow> (security_outcome \<times> containment_scope) set" where
  "fact_verdicts b facts = {verdict_of d | d f. f \<in> set facts \<and> decision_for_fact b f = Inr d}"

definition gate_boundary :: "consequence_boundary \<Rightarrow> consequence_boundary option \<Rightarrow> consequence_boundary" where
  "gate_boundary current boundary = (case boundary of None \<Rightarrow> current | Some b \<Rightarrow> b)"

lemma vocabulary_compatible [simp]:
  "require_compatible_outcome_type (map outcome_value SECURITY_OUTCOMES) = Inr ()"
  by (simp add: require_compatible_outcome_type_def SECURITY_OUTCOMES_def outcome_value_def EXPECTED_OUTCOME_VALUES_def)

lemma evaluate_unfold:
  "evaluate_consequence current boundary facts =
     (if facts = [] then Inl (GateValueError ''Consequence Gate requires at least one authority fact'')
      else try_bind (try_map (decision_for_fact (gate_boundary current boundary)) facts) (combine_decisions facts))"
  by (simp add: evaluate_consequence_def gate_boundary_def)

lemma all_equal_iff: "all_equal xs \<longleftrightarrow> (\<exists>x. set xs = {x})"
  by (cases xs) (auto simp: all_equal_def list_all_iff)

lemma verdicts_of_decisions:
  assumes "try_map (decision_for_fact b) facts = Inr ds"
  shows "fact_verdicts b facts = verdict_of ` set ds" and "length ds = length facts"
proof -
  have l: "list_all2 (\<lambda>f d. decision_for_fact b f = Inr d) facts ds" using assms by (simp add: try_map_Inr_iff)
  show "length ds = length facts" using list_all2_lengthD [OF l] by simp
  show "fact_verdicts b facts = verdict_of ` set ds"
  proof (intro set_eqI iffI)
    fix v assume "v \<in> fact_verdicts b facts"
    then obtain f d where f: "v = verdict_of d" "f \<in> set facts" "decision_for_fact b f = Inr d"
      by (auto simp: fact_verdicts_def)
    then obtain i where i: "i < length facts" "f = facts ! i" by (auto simp: in_set_conv_nth)
    then have "ds ! i = d" using list_all2_nthD [OF l, of i] f(3) by simp
    then show "v \<in> verdict_of ` set ds" using f(1) i(1) list_all2_lengthD [OF l] by auto
  next
    fix v assume "v \<in> verdict_of ` set ds"
    then obtain i where i: "i < length ds" "v = verdict_of (ds ! i)" by (auto simp: in_set_conv_nth)
    then show "v \<in> fact_verdicts b facts"
      using list_all2_nthD2 [OF l i(1)] list_all2_lengthD [OF l] nth_mem [of i facts]
      unfolding fact_verdicts_def by fastforce
  qed
qed

text \<open>What \<open>combine_decisions\<close> returns, over the set of verdicts.\<close>

lemma non_allow_verdicts:
  assumes "length ds = length facts"
  shows "(\<lambda>(_, d). verdict_of d) ` set (filter (\<lambda>(_, d). P (cd_outcome d)) (zip facts ds))
    = {x \<in> verdict_of ` set ds. P (fst x)}"
proof -
  have "set ds = snd ` set (zip facts ds)" using assms by (metis map_snd_zip set_map)
  then show ?thesis by (force simp: verdict_of_def image_iff)
qed

lemma pairs_single: "fst ` N = {a} \<and> snd ` N = {b} \<longleftrightarrow> N = {(a, b)}"
  by (auto simp: set_eq_iff image_iff) (metis fst_conv snd_conv surj_pair)+

lemma combine_refines:
  assumes "length ds = length facts"
  shows "(\<exists>d. combine_decisions facts ds = Inr d \<and> cd_outcome d = out \<and> cd_scope d = sc)
     \<longleftrightarrow> gate_result (verdict_of ` set ds) out sc"
proof -
  let ?V = "verdict_of ` set ds"
  define na where "na = filter (\<lambda>(_, d). cd_outcome d \<noteq> ALLOW) (zip facts ds)"
  define hp where "hp = filter (\<lambda>(_, d). cd_outcome d = HARD_INTERRUPT) na"
  note unf = combine_decisions_def [of facts ds, folded na_def, unfolded Let_def, folded hp_def]
  have na: "(\<lambda>(_, d). verdict_of d) ` set na = {x \<in> ?V. fst x \<noteq> ALLOW}"
    unfolding na_def by (rule non_allow_verdicts [OF assms, where P = "\<lambda>x. x \<noteq> ALLOW"])
  have hp: "(\<lambda>(_, d). verdict_of d) ` set hp = {x \<in> ?V. fst x = HARD_INTERRUPT}"
  proof -
    have "hp = filter (\<lambda>(_, d). cd_outcome d = HARD_INTERRUPT) (zip facts ds)"
      by (auto simp: hp_def na_def intro: filter_cong)
    then show ?thesis
      using non_allow_verdicts [OF assms, where P = "\<lambda>x. x = HARD_INTERRUPT"] by simp
  qed
  have sets: "set (map (\<lambda>(_, d). cd_outcome d) xs) = fst ` (\<lambda>(_, d). verdict_of d) ` set xs"
    "set (map (\<lambda>(_, d). cd_scope d) xs) = snd ` (\<lambda>(_, d). verdict_of d) ` set xs" for xs :: "(authority_fact \<times> consequence_decision) list"
    by (force simp: verdict_of_def image_iff)+
  consider (none) "na = []" | (hard) f d g e nas hps where "na = (f, d) # nas" "hp = (g, e) # hps"
    | (soft) f d nas where "na = (f, d) # nas" "hp = []"
    by (cases na; cases hp) auto
  then show ?thesis
  proof cases
    case none
    then have "fst ` ?V \<subseteq> {ALLOW}" using na by fastforce
    moreover from this have "HARD_INTERRUPT \<notin> fst ` ?V" by auto
    ultimately show ?thesis using none by (auto simp: unf gate_result_def)
  next
    case hard
    let ?H = "{x \<in> ?V. fst x = HARD_INTERRUPT}"
    have e: "verdict_of e \<in> ?H" using hp hard(2) by auto
    then have inH: "HARD_INTERRUPT \<in> fst ` ?V" by force
    have ae: "all_equal (map (\<lambda>(_, d). cd_scope d) hp) \<longleftrightarrow> (\<exists>s. snd ` ?H = {s})"
      unfolding all_equal_iff sets hp ..
    have "fst ` ?H = {HARD_INTERRUPT}" using e by auto
    then have one: "snd ` ?H = {s} \<longleftrightarrow> ?H = {(HARD_INTERRUPT, s)}" for s
      using pairs_single [of ?H HARD_INTERRUPT s] by simp
    have se: "snd ` ?H = {s} \<Longrightarrow> cd_scope e = s" for s
      using imageI [OF e, of snd] by (simp add: verdict_of_def)
    have "(\<exists>d. combine_decisions facts ds = Inr d \<and> cd_outcome d = out \<and> cd_scope d = sc)
        \<longleftrightarrow> all_equal (map (\<lambda>(_, d). cd_scope d) hp) \<and> out = HARD_INTERRUPT \<and> sc = cd_scope e"
      unfolding unf hard by (auto split: if_splits)
    also have "\<dots> \<longleftrightarrow> out = HARD_INTERRUPT \<and> ?H = {(HARD_INTERRUPT, sc)}"
      unfolding ae one [symmetric] using se by blast
    also have "\<dots> \<longleftrightarrow> gate_result ?V out sc" using inH by (simp add: gate_result_def)
    finally show ?thesis .
  next
    case soft
    let ?N = "{x \<in> ?V. fst x \<noteq> ALLOW}"
    have d: "verdict_of d \<in> ?N" using na soft(1) by auto
    have "{x \<in> ?V. fst x = HARD_INTERRUPT} = {}" using hp soft(2) by simp
    then have noH: "HARD_INTERRUPT \<notin> fst ` ?V"
      by (metis (mono_tags, lifting) empty_Collect_eq imageE)
    have nA: "\<not> fst ` ?V \<subseteq> {ALLOW}" using d by auto
    have ae: "all_equal (map (\<lambda>(_, d). cd_outcome d) na) \<longleftrightarrow> (\<exists>s. fst ` ?N = {s})"
      "all_equal (map (\<lambda>(_, d). cd_scope d) na) \<longleftrightarrow> (\<exists>s. snd ` ?N = {s})"
      unfolding all_equal_iff sets na by (rule refl)+
    have se: "fst ` ?N = {s} \<Longrightarrow> cd_outcome d = s" "snd ` ?N = {s'} \<Longrightarrow> cd_scope d = s'" for s s'
      using imageI [OF d, of fst] imageI [OF d, of snd] by (simp_all add: verdict_of_def)
    have "(\<exists>d. combine_decisions facts ds = Inr d \<and> cd_outcome d = out \<and> cd_scope d = sc)
        \<longleftrightarrow> all_equal (map (\<lambda>(_, d). cd_outcome d) na) \<and> all_equal (map (\<lambda>(_, d). cd_scope d) na)
          \<and> out = cd_outcome d \<and> sc = cd_scope d"
      unfolding unf soft by (auto split: if_splits)
    also have "\<dots> \<longleftrightarrow> fst ` ?N = {out} \<and> snd ` ?N = {sc}"
      unfolding ae using se by blast
    also have "\<dots> \<longleftrightarrow> gate_result ?V out sc"
      unfolding pairs_single gate_result_def using noH nA by simp
    finally show ?thesis .
  qed
qed

lemma evaluate_spec:
  "(\<exists>d. evaluate_consequence current boundary facts = Inr d \<and> cd_outcome d = out \<and> cd_scope d = sc)
   \<longleftrightarrow> facts \<noteq> [] \<and> (\<forall>f \<in> set facts. \<exists>d. decision_for_fact (gate_boundary current boundary) f = Inr d)
     \<and> gate_result (fact_verdicts (gate_boundary current boundary) facts) out sc"
proof (cases "try_map (decision_for_fact (gate_boundary current boundary)) facts")
  case (Inl e)
  then have "\<exists>f \<in> set facts. decision_for_fact (gate_boundary current boundary) f = Inl e"
    by (rule try_map_Inl)
  then show ?thesis using Inl by (auto simp: evaluate_unfold) (metis sum.distinct(1))
next
  case (Inr ds)
  then have "\<forall>f \<in> set facts. \<exists>d. decision_for_fact (gate_boundary current boundary) f = Inr d"
    using try_map_unit [of "decision_for_fact (gate_boundary current boundary)" facts] by simp
  then show ?thesis
    using Inr combine_refines [OF verdicts_of_decisions(2) [OF Inr]] verdicts_of_decisions(1) [OF Inr]
    by (simp add: evaluate_unfold)
qed

lemma path_decision_Inr: "\<exists>d. decision_for_fact b (PathFact f) = Inr d"
  by (simp add: decision_for_fact_def)

section \<open>Properties of the gate\<close>

text \<open>C30. The gate implements its abstract contract: it returns an outcome with a scope exactly
  when every fact has a verdict and the contract assigns that outcome and scope to the set of
  verdicts; hard verdicts dominate, disagreements are refused instead of resolved by guessing.\<close>

theorem gate_refines_contract:
  "(\<exists>d. evaluate_consequence current boundary facts = Inr d \<and> cd_outcome d = out \<and> cd_scope d = sc)
   \<longleftrightarrow> facts \<noteq> [] \<and> (\<forall>f \<in> set facts. \<exists>d. decision_for_fact (gate_boundary current boundary) f = Inr d)
     \<and> gate_result (fact_verdicts (gate_boundary current boundary) facts) out sc"
  by (rule evaluate_spec)

definition example_facts :: "authority_fact list" where
  "example_facts = [ToolSchemaFact False [''bad''], StageToolFact True, StageToolFact False]"

theorem gate_refines_contract_witness:
  "\<exists>d. evaluate_consequence AtToolCall None example_facts = Inr d \<and> cd_outcome d = DENY_AND_CONTINUE \<and> cd_scope d = ScopeToolCall"
proof -
  have "fact_verdicts AtToolCall example_facts = {(DENY_AND_CONTINUE, ScopeToolCall), (ALLOW, ScopeNone)}"
    by (force simp: fact_verdicts_def example_facts_def decision_for_fact_def verdict_def single_def verdict_of_def)
  moreover have "{x \<in> {(DENY_AND_CONTINUE, ScopeToolCall), (ALLOW, ScopeNone)}. fst x \<noteq> ALLOW}
      = {(DENY_AND_CONTINUE, ScopeToolCall)}"
    by auto
  ultimately have "gate_result (fact_verdicts AtToolCall example_facts) DENY_AND_CONTINUE ScopeToolCall"
    by (simp add: gate_result_def)
  then show ?thesis
    using gate_refines_contract [of AtToolCall None example_facts DENY_AND_CONTINUE ScopeToolCall]
    by (simp add: example_facts_def decision_for_fact_def gate_boundary_def)
qed

text \<open>The order and multiplicity of the facts do not matter: two lists with the same facts get
  the same outcome and the same containment scope.\<close>

theorem gate_order_irrelevant:
  assumes "evaluate_consequence current boundary facts = Inr d" and "set facts = set facts'"
  shows "\<exists>d'. evaluate_consequence current boundary facts' = Inr d' \<and> cd_outcome d' = cd_outcome d
    \<and> cd_scope d' = cd_scope d"
proof -
  have v: "fact_verdicts b facts = fact_verdicts b facts'" for b
    using assms(2) by (simp add: fact_verdicts_def)
  have "(\<exists>d'. evaluate_consequence current boundary facts = Inr d' \<and> cd_outcome d' = cd_outcome d \<and> cd_scope d' = cd_scope d)"
    using assms(1) by blast
  then show ?thesis unfolding evaluate_spec v assms(2) using assms(2) by auto
qed

theorem gate_order_irrelevant_witness:
  "\<exists>d'. evaluate_consequence AtToolCall None (rev example_facts) = Inr d' \<and> cd_outcome d' = DENY_AND_CONTINUE"
proof -
  have "evaluate_consequence AtToolCall None example_facts = Inr
     \<lparr>cd_outcome = DENY_AND_CONTINUE, cd_scope = ScopeToolCall,
      cd_decisive = Some (ToolSchemaFact False [''bad'']),
      cd_fact_types = [''ToolSchemaFact'', ''StageToolAuthorityFact'', ''StageToolAuthorityFact'']\<rparr>"
    by code_simp
  from gate_order_irrelevant [OF this, of "rev example_facts"] show ?thesis by auto
qed

section \<open>Properties of the governed path gate\<close>

lemma evaluate_path_only:
  "evaluate_consequence current None [PathFact f] = Inr
     (if pf_deferred_to_executor f then \<lparr>cd_outcome = ALLOW, cd_scope = ScopeNone, cd_decisive = None,
         cd_fact_types = [''RepresentedPathAuthorityFacts'']\<rparr>
      else if pf_never_match f then \<lparr>cd_outcome = HARD_INTERRUPT, cd_scope = path_scope current True,
         cd_decisive = Some (PathFact f), cd_fact_types = [''RepresentedPathAuthorityFacts'']\<rparr>
      else if path_denied f then \<lparr>cd_outcome = DENY_AND_CONTINUE, cd_scope = path_scope current False,
         cd_decisive = Some (PathFact f), cd_fact_types = [''RepresentedPathAuthorityFacts'']\<rparr>
      else \<lparr>cd_outcome = ALLOW, cd_scope = ScopeNone, cd_decisive = None,
         cd_fact_types = [''RepresentedPathAuthorityFacts'']\<rparr>)"
  by (simp add: evaluate_unfold gate_boundary_def decision_for_fact_def combine_decisions_def Let_def
      single_def verdict_def all_equal_def fact_type_name_def)

lemma legacy_of_path_only:
  assumes "evaluate_consequence current None [PathFact f] = Inr d"
  shows "legacy_path_decision d f = Inr
    \<lparr>pd_outcome = facts_outcome f, pd_reason = pf_reason f, pd_canonical_target = pf_canonical_target f\<rparr>"
  using assms unfolding evaluate_path_only
  by (auto simp: legacy_path_decision_def legacy_outcome_def facts_outcome_def path_denied_def split: if_splits)

text \<open>The path fact together with a protected resource: the two verdicts never clash, since a
  path denial and a resource denial have the same scope at every boundary.\<close>

lemma evaluate_path_and_resource:
  assumes "rf_protected r"
  shows "\<exists>d. evaluate_consequence current None [PathFact f, CredentialResourceFact r] = Inr d
    \<and> cd_outcome d = (if \<not> pf_deferred_to_executor f \<and> pf_never_match f then HARD_INTERRUPT else DENY_AND_CONTINUE)"
  using assms
  by (auto simp: evaluate_unfold gate_boundary_def decision_for_fact_def combine_decisions_def Let_def
      single_def verdict_def all_equal_def fact_type_name_def split: if_splits)

definition protected_target :: "resource_registry \<Rightarrow> runtime_path_policy \<Rightarrow> string option \<Rightarrow> bool" where
  "protected_target reg p target =
     (case fact_for_canonical_target reg (rp_runtime_id p, rp_lane_id p) target of
        None \<Rightarrow> False | Some f \<Rightarrow> rf_protected f)"

lemma governed_unprotected:
  assumes "authorize_represented_path p represented cwd defer = Inr d"
    and "\<not> protected_target reg p (pd_canonical_target d)"
  shows "snd (governed_path reg lg current p represented cwd defer) = Inr d"
proof -
  obtain f where f: "inspect_represented_path p represented cwd defer = Inr f"
    and d: "d = \<lparr>pd_outcome = facts_outcome f, pd_reason = pf_reason f, pd_canonical_target = pf_canonical_target f\<rparr>"
    using assms(1) by (auto simp: authorize_represented_path_def try_bind_Inr_iff)
  obtain e where e: "evaluate_consequence current None [PathFact f] = Inr e"
    using evaluate_path_only by blast
  show ?thesis
    using assms(2) legacy_of_path_only [OF e]
    by (auto simp: governed_path_def f e d Let_def protected_target_def split: option.splits)
qed

lemma governed_protected:
  assumes "authorize_represented_path p represented cwd defer = Inr d"
    and "protected_target reg p (pd_canonical_target d)"
  shows "\<exists>d'. snd (governed_path reg lg current p represented cwd defer) = Inr d'
    \<and> pd_outcome d' = (if pd_outcome d = PathHardInterrupt then PathHardInterrupt else PathDeny)
    \<and> pd_canonical_target d' = pd_canonical_target d"
proof -
  obtain f where f: "inspect_represented_path p represented cwd defer = Inr f"
    and d: "d = \<lparr>pd_outcome = facts_outcome f, pd_reason = pf_reason f, pd_canonical_target = pf_canonical_target f\<rparr>"
    using assms(1) by (auto simp: authorize_represented_path_def try_bind_Inr_iff)
  obtain e where e: "evaluate_consequence current None [PathFact f] = Inr e"
    using evaluate_path_only by blast
  obtain r where r: "fact_for_canonical_target reg (rp_runtime_id p, rp_lane_id p) (pf_canonical_target f) = Some r"
    "rf_protected r"
    using assms(2) by (auto simp: protected_target_def d split: option.splits)
  obtain x where x: "evaluate_consequence current None [PathFact f, CredentialResourceFact r] = Inr x"
    "cd_outcome x = (if \<not> pf_deferred_to_executor f \<and> pf_never_match f then HARD_INTERRUPT else DENY_AND_CONTINUE)"
    using evaluate_path_and_resource [OF r(2)] by blast
  have "snd (governed_path reg lg current p represented cwd defer) = legacy_path_decision x f"
    using r by (simp add: governed_path_def f e Let_def x(1))
  then show ?thesis
    using x(2) by (auto simp: d legacy_path_decision_def legacy_outcome_def facts_outcome_def split: if_splits)
qed

text \<open>Installing the gate is conservative: for a target that is not a protected credential
  resource the governed authorisation returns exactly the Phase-4 decision, at every
  boundary.\<close>

theorem governed_path_conservative:
  assumes "authorize_represented_path p represented executor_cwd defer = Inr d"
    and "\<not> protected_target reg p (pd_canonical_target d)"
  shows "snd (governed_path reg has_ledger current p represented executor_cwd defer) = Inr d"
  by (rule governed_unprotected [OF assms])

theorem governed_path_conservative_witness:
  "snd (governed_path Map.empty True AtToolReleaseBatch example_policy (PStr ''%TEMP%/a.txt'') None False) = Inr
    \<lparr>pd_outcome = PathAllow, pd_reason = ''represented target is authorized by Phase-4 path policy'',
     pd_canonical_target = Some (to_bslash ''c:/ws/tmp/a.txt'')\<rparr>"
proof (rule governed_path_conservative)
  show "authorize_represented_path example_policy (PStr ''%TEMP%/a.txt'') None False = Inr
    \<lparr>pd_outcome = PathAllow, pd_reason = ''represented target is authorized by Phase-4 path policy'',
     pd_canonical_target = Some (to_bslash ''c:/ws/tmp/a.txt'')\<rparr>"
    by code_simp
qed (simp add: protected_target_def fact_for_canonical_target_def)

text \<open>A protected credential resource is never allowed: the governed authorisation of its
  path is a denial, or the hard interrupt of a NEVER root when the path is below one, and it
  never fails on conflicting facts.\<close>

theorem protected_resource_denied:
  assumes "authorize_represented_path p represented executor_cwd defer = Inr d"
    and "protected_target reg p (pd_canonical_target d)"
  shows "\<exists>d'. snd (governed_path reg has_ledger current p represented executor_cwd defer) = Inr d'
    \<and> pd_outcome d' = (if pd_outcome d = PathHardInterrupt then PathHardInterrupt else PathDeny)
    \<and> pd_canonical_target d' = pd_canonical_target d"
  by (rule governed_protected [OF assms])

definition open_policy :: runtime_path_policy where
  "open_policy = example_policy\<lparr>rp_workspace_root := None\<rparr>"

definition example_registry :: resource_registry where
  "example_registry = [(''rt'', ''lane'') \<mapsto> example_resource_policy]"

theorem protected_resource_denied_witness:
  "\<exists>d'. snd (governed_path example_registry True AtToolCall open_policy
        (PStr ''C:/Users/U/.pi/x/../agent/jack-kernel.json'') None False) = Inr d' \<and> pd_outcome d' = PathDeny"
proof -
  let ?d = "\<lparr>pd_outcome = PathAllow, pd_reason = ''represented target is authorized by Phase-4 path policy'',
     pd_canonical_target = Some (to_bslash ''c:/users/u/.pi/agent/jack-kernel.json'')\<rparr>"
  have "authorize_represented_path open_policy (PStr ''C:/Users/U/.pi/x/../agent/jack-kernel.json'') None False = Inr ?d"
    by code_simp
  moreover have "protected_target example_registry open_policy (pd_canonical_target ?d)" by code_simp
  ultimately show ?thesis
    using protected_resource_denied [of open_policy "PStr ''C:/Users/U/.pi/x/../agent/jack-kernel.json''" None False ?d
        example_registry True AtToolCall]
    by auto
qed

section \<open>Properties of the governed admission\<close>

text \<open>An admission request whose runtime or lane identity is not this kernel's is refused
  with HTTP 409 before the original admission runs; the only record is the identity decision.\<close>

theorem admission_identity_guard:
  assumes "set (map fst d) \<subseteq> set ADMISSION_FIELDS"
    and "py_eq (dict_get d ''protocol_version'') (PInt 1)"
    and "py_strip (str_or_empty (dict_get d ''runtime_id'')) \<noteq> runtime_id
      \<or> py_strip (str_or_empty (dict_get d ''lane_id'')) \<noteq> lane_id"
  shows "\<exists>recs m. governed_admission runtime_id lane_id has_ledger original current (PDict d)
      = (recs, Inl (GateHttpError 409 m)) \<and> length recs = (if has_ledger then 1 else 0)"
  using assms
  by (auto simp: governed_admission_def PHASE4_EXECUTOR_ADMISSION_PROTOCOL_VERSION_def evaluate_unfold
      gate_boundary_def decision_for_fact_def combine_decisions_def Let_def single_def verdict_def
      all_equal_def fact_type_name_def)

theorem admission_identity_guard_witness:
  "\<exists>recs m. governed_admission ''rt'' ''lane'' True (\<lambda>_ _. ([], Inr ())) AtToolCall
      (PDict [(''protocol_version'', PInt 1), (''runtime_id'', PStr ''rt''), (''lane_id'', PStr ''other'')])
    = (recs, Inl (GateHttpError 409 m)) \<and> length recs = 1"
  using admission_identity_guard [of "[(''protocol_version'', PInt 1), (''runtime_id'', PStr ''rt''), (''lane_id'', PStr ''other'')]"
      "''rt''" "''lane''" True "\<lambda>_ _. ([], Inr ())" AtToolCall]
  by (simp add: ADMISSION_FIELDS_def dict_get_def num_eq_def py_strip_def py_rstrip_by_def py_lstrip_def py_isspace_def)

end
