(* ===== verification/JsonText.thy ===== *)
theory JsonText
  imports PyValue
begin

text \<open>
  \<open>json.dumps(..., ensure_ascii=False, sort_keys=True, separators=(",", ":"))\<close> followed by
  \<open>encode("utf-8")\<close>: the canonical bytes the authority ledger hashes. The last lemmas show
  that the text determines the value (up to the order of keys), which is what makes a
  digest of the text a digest of the record.
\<close>

section \<open>Definitions\<close>

definition json_escape :: "char \<Rightarrow> string" where
  "json_escape c =
     (let n = of_char c :: nat in
      if n = 34 \<or> n = 92 then [CHR 0x5C, c]
      else if n = 8 then [CHR 0x5C, CHR ''b'']
      else if n = 12 then [CHR 0x5C, CHR ''f'']
      else if n = 10 then [CHR 0x5C, CHR ''n'']
      else if n = 13 then [CHR 0x5C, CHR ''r'']
      else if n = 9 then [CHR 0x5C, CHR ''t'']
      else if n < 32 then [CHR 0x5C, CHR ''u'', CHR ''0'', CHR ''0'', hex_digit (n div 16), hex_digit (n mod 16)]
      else [c])"

definition json_chars :: "string \<Rightarrow> string" where
  "json_chars s = concat (map json_escape s)"

definition json_str :: "string \<Rightarrow> string" where
  "json_str s = CHR 0x22 # json_chars s @ [CHR 0x22]"

fun json_text :: "pyval \<Rightarrow> string"
  and json_items :: "pyval list \<Rightarrow> string"
  and json_members :: "pydict \<Rightarrow> string" where
  "json_text PNone = ''null''"
| "json_text (PBool b) = (if b then ''true'' else ''false'')"
| "json_text (PInt i) = int_text i"
| "json_text (PFloat s) = s"
| "json_text (PStr s) = json_str s"
| "json_text (PList vs) = ''['' @ json_items vs @ '']''"
| "json_text (PDict d) = [CHR 0x7B] @ json_members d @ [CHR 0x7D]"
| "json_items [] = []"
| "json_items (v # vs) = json_text v @ (if vs = [] then [] else '','' @ json_items vs)"
| "json_members [] = []"
| "json_members ((k, v) # d) = json_str k @ '':'' @ json_text v @ (if d = [] then [] else '','' @ json_members d)"

text \<open>\<open>sort_keys=True\<close>, at every level.\<close>

fun sort_keys :: "pyval \<Rightarrow> pyval" where
  "sort_keys (PList vs) = PList (map sort_keys vs)"
| "sort_keys (PDict d) = PDict (sort_key fst (map (\<lambda>(k, v). (k, sort_keys v)) d))"
| "sort_keys v = v"

text \<open>UTF-8 of the code points below 256.\<close>

definition utf8_char :: "char \<Rightarrow> string" where
  "utf8_char c = (let n = of_char c :: nat in
     if n < 128 then [c] else [char_of (192 + n div 64), char_of (128 + n mod 64)])"

definition utf8 :: "string \<Rightarrow> string" where
  "utf8 s = concat (map utf8_char s)"

definition canonical_bytes :: "pyval \<Rightarrow> string" where
  "canonical_bytes v = utf8 (json_text (sort_keys v))"

section \<open>Strings are read back\<close>

definition hex_val :: "char \<Rightarrow> nat" where
  "hex_val c = (let n = of_char c :: nat in if n < 58 then n - 48 else n - 87)"

definition unescape1 :: "string \<Rightarrow> char \<times> string" where
  "unescape1 s = (case s of
       c # e # r \<Rightarrow>
         if c \<noteq> CHR 0x5C then (c, e # r)
         else if e = CHR ''b'' then (char_of (8::nat), r)
         else if e = CHR ''f'' then (char_of (12::nat), r)
         else if e = CHR ''n'' then (char_of (10::nat), r)
         else if e = CHR ''r'' then (char_of (13::nat), r)
         else if e = CHR ''t'' then (char_of (9::nat), r)
         else if e = CHR ''u'' then (char_of (16 * hex_val (r ! 2) + hex_val (r ! 3)), drop 4 r)
         else (e, r)
     | _ \<Rightarrow> (hd s, tl s))"

lemma hex_val_digit: "n < 16 \<Longrightarrow> hex_val (hex_digit n) = n"
  by (auto simp: hex_val_def hex_digit_def Let_def)

lemma unescape_plain: "c \<noteq> CHR 0x5C \<Longrightarrow> unescape1 (c # x) = (c, x)"
  by (cases x) (simp_all add: unescape1_def)

lemma escape_cases: "json_escape c = [c] \<and> c \<noteq> CHR 0x5C \<and> c \<noteq> CHR 0x22
    \<or> (\<exists>e. json_escape c = [CHR 0x5C, e] \<and> e \<noteq> CHR ''u'' \<and> unescape1 [CHR 0x5C, e] = (c, []))
    \<or> (\<exists>a b. json_escape c = [CHR 0x5C, CHR ''u'', CHR ''0'', CHR ''0'', a, b] \<and> char_of (16 * hex_val a + hex_val b) = c)"
proof (cases c)
  case (Char b0 b1 b2 b3 b4 b5 b6 b7)
  then show ?thesis
    by (cases b0; cases b1; cases b2; cases b3; cases b4; cases b5; cases b6; cases b7;
        simp add: json_escape_def Let_def unescape1_def hex_digit_def hex_val_def char_of_def bit_0 flip: numeral_2_eq_2)
qed

lemma unescape_escape: "unescape1 (json_escape c @ x) = (c, x)"
  using escape_cases [of c]
proof (elim disjE exE conjE)
  assume "json_escape c = [c]" "c \<noteq> CHR 0x5C"
  then show ?thesis using unescape_plain by simp
next
  fix e assume "json_escape c = [CHR 0x5C, e]" "e \<noteq> CHR ''u''" "unescape1 [CHR 0x5C, e] = (c, [])"
  then show ?thesis by (simp add: unescape1_def split: if_splits)
next
  fix a b assume "json_escape c = [CHR 0x5C, CHR ''u'', CHR ''0'', CHR ''0'', a, b]" "char_of (16 * hex_val a + hex_val b) = c"
  then show ?thesis by (simp add: unescape1_def)
qed

lemma escape_not_quote: "json_escape c @ x \<noteq> CHR 0x22 # y"
  using escape_cases [of c] by auto

lemma escape_inj: "json_escape c @ x = json_escape d @ y \<Longrightarrow> c = d \<and> x = y"
  using unescape_escape by (metis prod.inject)

lemma json_chars_inj:
  "json_chars s @ CHR 0x22 # x = json_chars t @ CHR 0x22 # y \<Longrightarrow> s = t \<and> x = y"
proof (induction s arbitrary: t)
  case Nil
  show ?case
  proof (cases t)
    case (Cons d t')
    then show ?thesis
      using Nil escape_not_quote [of d "json_chars t' @ CHR 0x22 # y" x] by (simp add: json_chars_def)
  qed (use Nil in \<open>simp add: json_chars_def\<close>)
next
  case (Cons c s)
  show ?case
  proof (cases t)
    case Nil
    then show ?thesis
      using Cons.prems escape_not_quote [of c "json_chars s @ CHR 0x22 # x" y] by (simp add: json_chars_def)
  next
    case (Cons d t')
    have "json_escape c @ json_chars s @ CHR 0x22 # x = json_escape d @ json_chars t' @ CHR 0x22 # y"
      using Cons.prems local.Cons by (simp add: json_chars_def)
    from escape_inj [OF this] Cons.IH show ?thesis using local.Cons by blast
  qed
qed

lemma json_str_inj: "json_str s @ x = json_str t @ y \<Longrightarrow> s = t \<and> x = y"
  using json_chars_inj [of s x t y] by (simp add: json_str_def)

section \<open>Integers are read back\<close>

definition text_val :: "string \<Rightarrow> nat" where
  "text_val s = foldl (\<lambda>a c. 10 * a + (of_char c - 48)) 0 s"

lemma of_char_digit: "n < 10 \<Longrightarrow> (of_char (digit_char n) :: nat) = 48 + n"
  by (simp add: digit_char_def)

lemma nat_text_digits: "c \<in> set (nat_text n) \<Longrightarrow> ascii_digit c"
proof (induction n rule: nat_text.induct)
  case (1 n)
  have "ascii_digit (digit_char m)" if "m < 10" for m
    using of_char_digit [OF that] that by (simp add: ascii_digit_def)
  then show ?case using 1 by (subst (asm) (2) nat_text.simps) (auto split: if_splits)
qed

lemma text_val_nat_text: "text_val (nat_text n) = n"
proof (induction n rule: nat_text.induct)
  case (1 n)
  show ?case
  proof (cases "n < 10")
    case True
    then show ?thesis by (subst nat_text.simps) (simp add: text_val_def of_char_digit)
  next
    case False
    then have "text_val (nat_text n) = 10 * text_val (nat_text (n div 10)) + n mod 10"
      by (subst nat_text.simps) (simp add: text_val_def of_char_digit)
    then show ?thesis using 1 False by simp
  qed
qed

definition no_digit :: "string \<Rightarrow> bool" where
  "no_digit s = (case s of [] \<Rightarrow> True | c # _ \<Rightarrow> \<not> ascii_digit c)"

lemma nat_text_inj:
  assumes "nat_text m @ x = nat_text n @ y" and "no_digit x" and "no_digit y"
  shows "m = n \<and> x = y"
proof -
  have tw: "takeWhile ascii_digit (nat_text k @ z) = nat_text k" if "no_digit z" for k z
    using that nat_text_digits [of _ k] by (cases z) (simp_all add: no_digit_def)
  have "nat_text m = nat_text n" using tw [OF assms(2)] tw [OF assms(3)] assms(1) by metis
  moreover from this have "m = n" using text_val_nat_text by metis
  ultimately show ?thesis using assms(1) by simp
qed

lemma nat_text_not_minus: "nat_text n @ x \<noteq> CHR ''-'' # y"
proof
  assume a: "nat_text n @ x = CHR ''-'' # y"
  have "nat_text n \<noteq> []" by (subst nat_text.simps) simp
  with a have "CHR ''-'' \<in> set (nat_text n)" by (cases "nat_text n") auto
  then show False using nat_text_digits by (fastforce simp: ascii_digit_def)
qed

lemma int_text_inj:
  assumes "int_text i @ x = int_text j @ y" and "no_digit x" and "no_digit y"
  shows "i = j \<and> x = y"
proof (cases "i < 0 \<longleftrightarrow> j < 0")
  case True
  then consider "i < 0" "j < 0" | "0 \<le> i" "0 \<le> j" by linarith
  then show ?thesis
  proof cases
    case 1
    then have "nat_text (nat (- i)) @ x = nat_text (nat (- j)) @ y" using assms(1) by (simp add: int_text_def)
    from nat_text_inj [OF this assms(2,3)] 1 show ?thesis by linarith
  next
    case 2
    then have "nat_text (nat i) @ x = nat_text (nat j) @ y" using assms(1) by (simp add: int_text_def)
    from nat_text_inj [OF this assms(2,3)] 2 show ?thesis by linarith
  qed
next
  case False
  then consider "i < 0" "0 \<le> j" | "0 \<le> i" "j < 0" by linarith
  then show ?thesis
  proof cases
    case 1
    then show ?thesis using assms(1) nat_text_not_minus [of "nat j" y "nat_text (nat (- i)) @ x"] by (simp add: int_text_def)
  next
    case 2
    then show ?thesis using assms(1) nat_text_not_minus [of "nat i" x "nat_text (nat (- j)) @ y"] by (simp add: int_text_def)
  qed
qed

section \<open>The text determines the value\<close>

fun float_free :: "pyval \<Rightarrow> bool" where
  "float_free (PFloat s) = False"
| "float_free (PList vs) = list_all float_free vs"
| "float_free (PDict d) = list_all (\<lambda>(_, v). float_free v) d"
| "float_free v = True"

text \<open>The first character tells the kind of the value.\<close>

datatype json_kind = KNull | KTrue | KFalse | KInt | KStr | KList | KDict | KNone

definition kind_of_char :: "char \<Rightarrow> json_kind" where
  "kind_of_char c = (if c = CHR ''n'' then KNull else if c = CHR ''t'' then KTrue
     else if c = CHR ''f'' then KFalse else if c = CHR ''-'' \<or> ascii_digit c then KInt
     else if c = CHR 0x22 then KStr else if c = CHR ''['' then KList
     else if c = CHR 0x7B then KDict else KNone)"

fun kind_of :: "pyval \<Rightarrow> json_kind" where
  "kind_of PNone = KNull"
| "kind_of (PBool b) = (if b then KTrue else KFalse)"
| "kind_of (PInt i) = KInt"
| "kind_of (PFloat s) = KNone"
| "kind_of (PStr s) = KStr"
| "kind_of (PList vs) = KList"
| "kind_of (PDict d) = KDict"

lemma int_text_first: "\<exists>c s. int_text i = c # s \<and> kind_of_char c = KInt"
proof (cases "i < 0")
  case True
  then show ?thesis by (simp add: int_text_def kind_of_char_def)
next
  case False
  have "nat_text (nat i) \<noteq> []" by (subst nat_text.simps) simp
  then obtain c s where cs: "nat_text (nat i) = c # s" by (cases "nat_text (nat i)") blast+
  then have d: "ascii_digit c" using nat_text_digits [of c "nat i"] by simp
  then have "kind_of_char c = KInt" by (auto simp: kind_of_char_def ascii_digit_def)
  with cs False show ?thesis by (simp add: int_text_def)
qed

lemma json_text_first: "float_free v \<Longrightarrow> \<exists>c s. json_text v = c # s \<and> kind_of_char c = kind_of v \<and> kind_of v \<noteq> KNone"
proof (cases v)
  case (PInt i)
  then show ?thesis using int_text_first [of i] by auto
qed (auto simp: kind_of_char_def json_str_def ascii_digit_def)

lemma json_text_kind:
  assumes "json_text v @ x = json_text w @ y" and "float_free v" and "float_free w"
  shows "kind_of v = kind_of w"
  using json_text_first [OF assms(2)] json_text_first [OF assms(3)] assms(1) by auto

lemma json_text_not_bracket: "float_free v \<Longrightarrow> json_text v @ x \<noteq> CHR '']'' # y"
  using json_text_first [of v] by (auto simp: kind_of_char_def ascii_digit_def)

lemma json_str_first: "json_str s @ x \<noteq> CHR 0x7D # y"
  by (simp add: json_str_def)

lemma kind_inv:
  "kind_of v = KNull \<Longrightarrow> v = PNone"
  "kind_of v = KTrue \<Longrightarrow> v = PBool True"
  "kind_of v = KFalse \<Longrightarrow> v = PBool False"
  "kind_of v = KInt \<Longrightarrow> \<exists>i. v = PInt i"
  "kind_of v = KStr \<Longrightarrow> \<exists>s. v = PStr s"
  "kind_of v = KList \<Longrightarrow> \<exists>vs. v = PList vs"
  "kind_of v = KDict \<Longrightarrow> \<exists>d. v = PDict d"
  by (cases v; auto split: if_splits)+

lemma json_inj:
  "float_free v \<Longrightarrow> float_free w \<Longrightarrow> json_text v @ x = json_text w @ y \<Longrightarrow> no_digit x \<Longrightarrow> no_digit y
     \<Longrightarrow> v = w \<and> x = y"
  "list_all float_free vs \<Longrightarrow> list_all float_free ws
     \<Longrightarrow> json_items vs @ CHR '']'' # x' = json_items ws @ CHR '']'' # y' \<Longrightarrow> vs = ws \<and> x' = y'"
  "list_all (\<lambda>(_, v). float_free v) d \<Longrightarrow> list_all (\<lambda>(_, v). float_free v) e
     \<Longrightarrow> json_members d @ CHR 0x7D # x'' = json_members e @ CHR 0x7D # y'' \<Longrightarrow> d = e \<and> x'' = y''"
proof (induction v and vs and d arbitrary: w x y and ws x' y' and e x'' y''
    rule: json_text_json_items_json_members.induct)
  case 1
  have "kind_of w = KNull" using json_text_kind [OF 1(3,1,2)] by simp
  from kind_inv(1) [OF this] show ?case using 1 by simp
next
  case (2 b)
  have "kind_of w = (if b then KTrue else KFalse)" using json_text_kind [OF 2(3,1,2)] by simp
  then have "w = PBool b" using kind_inv(2,3) [of w] by (simp split: if_splits)
  then show ?case using 2 by simp
next
  case (3 i)
  have "kind_of w = KInt" using json_text_kind [OF 3(3,1,2)] by simp
  then obtain j where w: "w = PInt j" using kind_inv(4) by blast
  then have "int_text i @ x = int_text j @ y" using 3(3) by simp
  from int_text_inj [OF this 3(4,5)] show ?case by (simp add: w)
next
  case (4 s)
  then show ?case by simp
next
  case (5 s)
  have "kind_of w = KStr" using json_text_kind [OF 5(3,1,2)] by simp
  then obtain t where w: "w = PStr t" using kind_inv(5) by blast
  then have "json_str s @ x = json_str t @ y" using 5(3) by simp
  from json_str_inj [OF this] show ?case by (simp add: w)
next
  case (6 vs)
  have "kind_of w = KList" using json_text_kind [OF 6(4,2,3)] by simp
  then obtain ws where w: "w = PList ws" using kind_inv(6) by blast
  have "vs = ws \<and> x = y" by (rule 6(1)) (use 6(2-4) w in simp_all)
  then show ?case by (simp add: w)
next
  case (7 d)
  have "kind_of w = KDict" using json_text_kind [OF 7(4,2,3)] by simp
  then obtain e where w: "w = PDict e" using kind_inv(7) by blast
  have "d = e \<and> x = y" by (rule 7(1)) (use 7(2-4) w in simp_all)
  then show ?case by (simp add: w)
next
  case 8
  show ?case
  proof (cases ws)
    case (Cons w ws')
    then have "json_text w @ (if ws' = [] then [] else '','' @ json_items ws') @ CHR '']'' # y' = CHR '']'' # x'"
      using 8 by simp
    then show ?thesis using json_text_not_bracket [of w] 8 Cons by fastforce
  qed (use 8 in simp)
next
  case (9 v vs)
  show ?case
  proof (cases ws)
    case Nil
    then show ?thesis using 9 json_text_not_bracket [of v] by auto
  next
    case (Cons w ws')
    have t: "json_text v @ (if vs = [] then [] else '','' @ json_items vs) @ CHR '']'' # x'
        = json_text w @ (if ws' = [] then [] else '','' @ json_items ws') @ CHR '']'' # y'"
      using 9(5) Cons by simp
    have nd: "no_digit ((if us = [] then [] else '','' @ json_items us) @ CHR '']'' # z)" for us z
      by (simp add: no_digit_def ascii_digit_def)
    have ff: "float_free v" "float_free w" "list_all float_free vs" "list_all float_free ws'"
      using 9(3,4) Cons by simp_all
    note vw = 9(1) [OF ff(1,2) t nd nd]
    have "vs = ws' \<and> x' = y'"
    proof (cases "vs = [] \<or> ws' = []")
      case True
      then show ?thesis using conjunct2 [OF vw] by (cases "vs = []"; cases "ws' = []") simp_all
    next
      case False
      then have "json_items vs @ CHR '']'' # x' = json_items ws' @ CHR '']'' # y'" using conjunct2 [OF vw] by simp
      from 9(2) [OF _ ff(3,4) this] False show ?thesis by simp
    qed
    then show ?thesis using conjunct1 [OF vw] Cons by simp
  qed
next
  case 10
  then show ?case using json_str_first by (cases e) (auto simp: json_str_def)
next
  case (11 k v d)
  show ?case
  proof (cases e)
    case Nil
    then show ?thesis using 11 by (auto simp: json_str_def)
  next
    case (Cons m e')
    obtain k' w where m: "m = (k', w)" by fastforce
    have "json_str k @ '':'' @ json_text v @ (if d = [] then [] else '','' @ json_members d) @ CHR 0x7D # x''
        = json_str k' @ '':'' @ json_text w @ (if e' = [] then [] else '','' @ json_members e') @ CHR 0x7D # y''"
      using 11(5) Cons m by simp
    from json_str_inj [OF this] have k: "k = k'"
      and t: "json_text v @ (if d = [] then [] else '','' @ json_members d) @ CHR 0x7D # x''
        = json_text w @ (if e' = [] then [] else '','' @ json_members e') @ CHR 0x7D # y''"
      by auto
    have nd: "no_digit ((if us = [] then [] else '','' @ json_members us) @ CHR 0x7D # z)" for us z
      by (simp add: no_digit_def ascii_digit_def)
    have ff: "float_free v" "float_free w" "list_all (\<lambda>(_, v). float_free v) d" "list_all (\<lambda>(_, v). float_free v) e'"
      using 11(3,4) Cons m by simp_all
    note vw = 11(1) [OF ff(1,2) t nd nd]
    have "d = e' \<and> x'' = y''"
    proof (cases "d = [] \<or> e' = []")
      case True
      then show ?thesis using conjunct2 [OF vw] by (cases "d = []"; cases "e' = []") simp_all
    next
      case False
      then have "json_members d @ CHR 0x7D # x'' = json_members e' @ CHR 0x7D # y''" using conjunct2 [OF vw] by simp
      from 11(2) [OF _ ff(3,4) this] False show ?thesis by simp
    qed
    then show ?thesis using conjunct1 [OF vw] k Cons m by simp
  qed
qed

section \<open>Canonical bytes\<close>

lemma of_char_256: "(of_char c :: nat) < 256"
proof -
  have "(of_char c :: nat) = of_char c mod 256"
    using of_char_of [of "of_char c :: nat"] by simp
  then show ?thesis by (metis mod_less_divisor zero_less_numeral)
qed

lemma utf8_char_inj:
  assumes "utf8_char c @ x = utf8_char d @ y"
  shows "c = d \<and> x = y"
proof -
  have hi: "(of_char (char_of (192 + n div 64) :: char) :: nat) = 192 + n div 64 \<and>
      (of_char (char_of (128 + n mod 64) :: char) :: nat) = 128 + n mod 64" if "n < 256" for n :: nat
    using that by simp
  let ?c = "of_char c :: nat" and ?d = "of_char d :: nat"
  have eq: "c = d \<longleftrightarrow> ?c = ?d" by simp
  consider "?c < 128" "?d < 128" | "?c < 128" "128 \<le> ?d" | "128 \<le> ?c" "?d < 128" | "128 \<le> ?c" "128 \<le> ?d"
    by linarith
  then show ?thesis
  proof cases
    case 1
    then show ?thesis using assms by (simp add: utf8_char_def)
  next
    case 2
    then have "c = char_of (192 + ?d div 64)" using assms by (simp add: utf8_char_def Let_def)
    then show ?thesis using 2 hi [OF of_char_256 [of d]] by simp
  next
    case 3
    then have "char_of (192 + ?c div 64) = d" using assms by (simp add: utf8_char_def Let_def)
    then show ?thesis using 3 hi [OF of_char_256 [of c]] by auto
  next
    case 4
    then have "char_of (192 + ?c div 64) = (char_of (192 + ?d div 64) :: char)"
      "char_of (128 + ?c mod 64) = (char_of (128 + ?d mod 64) :: char)" and xy: "x = y"
      using assms by (simp_all add: utf8_char_def Let_def)
    then have "?c div 64 = ?d div 64" "?c mod 64 = ?d mod 64"
      using hi [OF of_char_256 [of c]] hi [OF of_char_256 [of d]] by (metis add_left_cancel)+
    then have "?c = ?d" by (metis div_mult_mod_eq)
    with xy show ?thesis by simp
  qed
qed

lemma utf8_inj: "utf8 s = utf8 t \<Longrightarrow> s = t"
proof (induction s arbitrary: t)
  case Nil
  then show ?case by (cases t) (auto simp: utf8_def utf8_char_def Let_def split: if_splits)
next
  case (Cons c s)
  show ?case
  proof (cases t)
    case Nil
    then show ?thesis using Cons.prems by (auto simp: utf8_def utf8_char_def Let_def split: if_splits)
  next
    case (Cons d t')
    then have "utf8_char c @ utf8 s = utf8_char d @ utf8 t'" using Cons.prems by (simp add: utf8_def)
    from utf8_char_inj [OF this] Cons.IH show ?thesis using Cons by blast
  qed
qed

lemma float_free_sort_keys: "float_free (sort_keys v) \<longleftrightarrow> float_free v"
proof (induction v rule: sort_keys.induct)
  case (1 vs)
  then show ?case by (simp add: list_all_iff)
next
  case (2 d)
  then show ?case by (fastforce simp: list_all_iff)
qed simp_all

lemma canonical_bytes_determine:
  assumes "canonical_bytes v = canonical_bytes w" and "float_free v" and "float_free w"
  shows "sort_keys v = sort_keys w"
proof -
  have "json_text (sort_keys v) = json_text (sort_keys w)"
    using utf8_inj assms(1) by (simp add: canonical_bytes_def)
  then have "json_text (sort_keys v) @ [] = json_text (sort_keys w) @ []" by simp
  then show ?thesis
    using json_inj(1) [of "sort_keys v" "sort_keys w" "[]" "[]"] assms(2,3)
    by (simp add: float_free_sort_keys no_digit_def)
qed

text \<open>Sorting keys does not change what a distinct-keyed dict holds.\<close>

lemma map_of_sort_key:
  assumes "distinct (map fst d)"
  shows "map_of (sort_key fst d) = map_of d"
proof -
  have "distinct (map fst (sort_key fst d))" using assms by (simp add: distinct_map)
  then show ?thesis
    using assms map_of_inject_set by (metis set_sort)
qed

text \<open>The bytes that are hashed identify the value: two float-free values with distinct keys
  that serialise to the same canonical bytes hold, at every key, values with the same sorted
  form.\<close>

theorem canonical_bytes_injective:
  assumes "canonical_bytes (PDict d) = canonical_bytes (PDict e)"
    and "float_free (PDict d)" and "float_free (PDict e)"
    and "distinct (map fst d)" and "distinct (map fst e)"
  shows "map_option sort_keys (map_of d k) = map_option sort_keys (map_of e k)"
proof -
  let ?s = "map (\<lambda>(k, v). (k, sort_keys v))"
  have "sort_key fst (?s d) = sort_key fst (?s e)"
    using canonical_bytes_determine [OF assms(1-3)] by simp
  moreover have "map fst (?s x) = map fst x" for x by (induction x) auto
  ultimately have "map_of (?s d) = map_of (?s e)"
    using map_of_sort_key [of "?s d"] map_of_sort_key [of "?s e"] assms(4,5) by metis
  moreover have "map_of (?s x) k = map_option sort_keys (map_of x k)" for x
    by (induction x) auto
  ultimately show ?thesis by metis
qed

theorem canonical_bytes_injective_witness:
  "map_option sort_keys (map_of [(''b'', PInt 12), (''a'', PStr ''x'')] ''b'') =
   map_option sort_keys (map_of [(''a'', PStr ''x''), (''b'', PInt 12)] ''b'')"
proof (rule canonical_bytes_injective)
  show "canonical_bytes (PDict [(''b'', PInt 12), (''a'', PStr ''x'')])
      = canonical_bytes (PDict [(''a'', PStr ''x''), (''b'', PInt 12)])"
    by code_simp
qed simp_all

end
