(* ===== verification/AuthorityLedger.thy ===== *)
theory AuthorityLedger
  imports ConsequenceGate JsonText
begin

text \<open>
  \<open>jack_authority_ledger.py\<close>: the process-local chain of authority records, its freezing, the
  bounded queue to the background writer, what the writer does with the disk, and the fail-soft
  wrappers the gate calls.

  SHA-256 is the parameter \<open>sha\<close> (bytes to the hexadecimal digest). The clock is an argument
  of \<open>advance\<close>. The two locks make each method below one atomic transition; the writer's work
  on one record is split at the points where the authority side may run in between.
\<close>

section \<open>Records\<close>

definition LEDGER_SCHEMA :: string where
  "LEDGER_SCHEMA = ''jack.authority.security.ledger.v1''"

definition RECORD_VERSION :: int where
  "RECORD_VERSION = 1"

definition DEFAULT_PROJECTION_QUEUE_CAPACITY :: nat where
  "DEFAULT_PROJECTION_QUEUE_CAPACITY = 256"

definition MAX_PROJECTION_QUEUE_CAPACITY :: nat where
  "MAX_PROJECTION_QUEUE_CAPACITY = 4096"

definition EXPECTED_SECURITY_OUTCOMES :: "string list" where
  "EXPECTED_SECURITY_OUTCOMES = [''ALLOW'', ''DENY_AND_CONTINUE'', ''REQUIRE_USER_DECISION'', ''HARD_INTERRUPT'']"

definition EXPECTED_GATE_BOUNDARIES :: "string list" where
  "EXPECTED_GATE_BOUNDARIES = [''tool_call'', ''tool_release_batch'', ''executor_admission'',
     ''overlap_admission'', ''evidence_fragment'', ''consequence'']"

definition EXPECTED_GATE_CONTAINMENT :: "string list" where
  "EXPECTED_GATE_CONTAINMENT = [''none'', ''tool_call'', ''tool_batch'', ''executor_admission'',
     ''overlap_admission'', ''evidence_fragment'', ''consequence'']"

definition CANARY_TIERS :: "string list" where
  "CANARY_TIERS = [''A'', ''B'', ''C'']"

definition safe_canary_id :: "string \<Rightarrow> bool" where
  "safe_canary_id s = (1 \<le> length s \<and> length s \<le> 128 \<and>
     list_all (\<lambda>c. ascii_alnum c \<or> c \<in> set ''._:-'') s)"

definition digest_shape :: "string \<Rightarrow> bool" where
  "digest_shape s = (length s = 64 \<and> list_all (\<lambda>c. ascii_digit c \<or> c \<in> set ''abcdef'') s)"

datatype ledger_event = RepresentedPathEvent | ExecutorIdentityEvent | CanaryMatchEvent | ReservedNamespaceEvent

definition event_value :: "ledger_event \<Rightarrow> string" where
  "event_value e = (case e of
       RepresentedPathEvent \<Rightarrow> ''REPRESENTED_PATH_DECISION''
     | ExecutorIdentityEvent \<Rightarrow> ''EXECUTOR_IDENTITY_DECISION''
     | CanaryMatchEvent \<Rightarrow> ''CANARY_MATCH''
     | ReservedNamespaceEvent \<Rightarrow> ''RESERVED_EVIDENCE_NAMESPACE_BLOCKED'')"

datatype ledger_error = LedgerAuthorityFrozen string | LedgerValueError string | LedgerRuntimeError string

record ledger_head =
  lh_sequence :: nat
  lh_digest :: "string option"

text \<open>What a caller chooses of a record, and the record itself.\<close>

record record_request =
  rq_event :: string
  rq_producer :: string
  rq_boundary :: string
  rq_outcome :: string
  rq_scope :: string
  rq_fact_type :: string
  rq_payload :: pydict

record authority_record =
  ar_instance :: string
  ar_runtime :: string
  ar_lane :: string
  ar_sequence :: nat
  ar_request :: record_request
  ar_time :: string
  ar_previous :: "string option"
  ar_digest :: string

record projection_request =
  pj_sequence :: nat
  pj_digest :: string
  pj_encoded :: string

definition opt_str :: "string option \<Rightarrow> pyval" where
  "opt_str o' = (case o' of None \<Rightarrow> PNone | Some s \<Rightarrow> PStr s)"

text \<open>\<open>_record_material\<close>: the dict that is hashed.\<close>

definition record_material ::
    "string \<Rightarrow> string \<Rightarrow> string \<Rightarrow> nat \<Rightarrow> string option \<Rightarrow> string \<Rightarrow> record_request \<Rightarrow> pydict" where
  "record_material inst rt lane seq prev now rq =
     [(''schema'', PStr LEDGER_SCHEMA), (''record_version'', PInt RECORD_VERSION),
      (''ledger_instance_id'', PStr inst), (''sequence'', PInt (int seq)),
      (''runtime_id'', PStr rt), (''lane_id'', PStr lane),
      (''event_type'', PStr (rq_event rq)), (''producer_code'', PStr (rq_producer rq)),
      (''occurred_at_utc'', PStr now), (''task_id'', PNone), (''run_id'', PNone), (''run_epoch'', PNone),
      (''boundary'', PStr (rq_boundary rq)), (''outcome'', PStr (rq_outcome rq)),
      (''containment_scope'', PStr (rq_scope rq)), (''fact_type'', PStr (rq_fact_type rq)),
      (''payload'', PDict (rq_payload rq)), (''previous_record_digest'', opt_str prev)]"

definition digest_record_material :: "(string \<Rightarrow> string) \<Rightarrow> pydict \<Rightarrow> string" where
  "digest_record_material sha material = sha (canonical_bytes (PDict material))"

definition material_of :: "authority_record \<Rightarrow> pydict" where
  "material_of r = record_material (ar_instance r) (ar_runtime r) (ar_lane r) (ar_sequence r)
     (ar_previous r) (ar_time r) (ar_request r)"

definition persistent_record :: "authority_record \<Rightarrow> pydict" where
  "persistent_record r = material_of r @ [(''record_digest'', PStr (ar_digest r))]"

definition encoded_record :: "authority_record \<Rightarrow> string" where
  "encoded_record r = canonical_bytes (PDict (persistent_record r)) @ [CHR 0x0A]"

section \<open>Configuration\<close>

definition queue_capacity_from_environment :: "string option \<Rightarrow> ledger_error + nat" where
  "queue_capacity_from_environment env =
     (let raw = py_strip (case env of None \<Rightarrow> [] | Some s \<Rightarrow> s) in
      if raw = [] then Inr DEFAULT_PROJECTION_QUEUE_CAPACITY
      else case parse_int raw of
          None \<Rightarrow> Inl (LedgerRuntimeError ''JACK_AUTHORITY_LEDGER_QUEUE_CAPACITY must be an integer'')
        | Some i \<Rightarrow>
            if i < 1 \<or> i > int MAX_PROJECTION_QUEUE_CAPACITY
            then Inl (LedgerRuntimeError ''JACK_AUTHORITY_LEDGER_QUEUE_CAPACITY must be between 1 and 4096'')
            else Inr (nat i))"

text \<open>\<open>_safe_component\<close>: runs of unsafe characters become one hyphen, the ends are trimmed.\<close>

definition safe_char :: "char \<Rightarrow> bool" where
  "safe_char c = (ascii_alnum c \<or> c \<in> set ''._-'')"

fun squash_unsafe :: "bool \<Rightarrow> string \<Rightarrow> string" where
  "squash_unsafe in_run [] = []"
| "squash_unsafe in_run (c # s) =
     (if safe_char c then c # squash_unsafe False s
      else if in_run then squash_unsafe True s else CHR ''-'' # squash_unsafe True s)"

definition trim_ends :: "(char \<Rightarrow> bool) \<Rightarrow> string \<Rightarrow> string" where
  "trim_ends p s = py_rstrip_by p (dropWhile p s)"

definition safe_component :: "string \<Rightarrow> string \<Rightarrow> string" where
  "safe_component value fallback =
     (let cleaned = trim_ends (\<lambda>c. c \<in> set ''-._'') (squash_unsafe False (py_strip value))
      in take 128 (if cleaned = [] then fallback else cleaned))"

section \<open>State\<close>

text \<open>The writer thread: not started, waiting at \<open>get\<close>, holding a record whose file is to be
  written, about to write the projection head, or gone.\<close>

datatype writer_state =
    WriterNotStarted | WriterWaiting | WriterProjecting projection_request | WriterHeadDocument | WriterExited

record authority_ledger =
  al_runtime_id :: string
  al_lane_id :: string
  al_instance_id :: string
  al_queue_capacity :: nat
  al_head :: ledger_head
  al_head_guard :: string
  al_frozen :: bool
  al_frozen_reason :: "string option"
  al_queue :: "projection_request option list"
  al_closed :: bool
  al_writer :: writer_state
  al_last_projected_sequence :: nat
  al_last_projected_digest :: "string option"
  al_projection_complete :: bool
  al_complete_through :: nat
  al_first_lost :: "nat option"
  al_last_lost :: "nat option"
  al_lost_count :: nat
  al_metadata_degraded :: bool

definition head_guard_digest :: "(string \<Rightarrow> string) \<Rightarrow> string \<Rightarrow> ledger_head \<Rightarrow> string" where
  "head_guard_digest sha inst h = digest_record_material sha
     [(''ledger_instance_id'', PStr inst), (''sequence'', PInt (int (lh_sequence h))),
      (''record_digest'', opt_str (lh_digest h)), (''guard_domain'', PStr ''jack.phase6.active-head.v1'')]"

definition new_ledger :: "(string \<Rightarrow> string) \<Rightarrow> string \<Rightarrow> string \<Rightarrow> nat \<Rightarrow> string \<Rightarrow> ledger_error + authority_ledger" where
  "new_ledger sha runtime_id lane_id capacity inst =
     (let rt = py_strip runtime_id; lane = py_strip lane_id; h = \<lparr>lh_sequence = 0, lh_digest = None\<rparr> in
      if rt = [] then Inl (LedgerValueError ''runtime_id must not be empty'')
      else if lane = [] then Inl (LedgerValueError ''lane_id must not be empty'')
      else if capacity < 1 \<or> capacity > MAX_PROJECTION_QUEUE_CAPACITY
      then Inl (LedgerValueError ''queue_capacity is outside Phase-6 bounds'')
      else Inr \<lparr>al_runtime_id = rt, al_lane_id = lane, al_instance_id = inst, al_queue_capacity = capacity,
        al_head = h, al_head_guard = head_guard_digest sha inst h, al_frozen = False,
        al_frozen_reason = None, al_queue = [], al_closed = False, al_writer = WriterNotStarted,
        al_last_projected_sequence = 0, al_last_projected_digest = None, al_projection_complete = True,
        al_complete_through = 0, al_first_lost = None, al_last_lost = None, al_lost_count = 0,
        al_metadata_degraded = False\<rparr>)"

definition instance_dir :: "authority_ledger \<Rightarrow> string list" where
  "instance_dir l = [safe_component (al_runtime_id l) ''runtime'', safe_component (al_lane_id l) ''lane'',
     safe_component (al_instance_id l) ''instance'']"

definition freeze_authority :: "string \<Rightarrow> authority_ledger \<Rightarrow> authority_ledger" where
  "freeze_authority reason l = l\<lparr>al_frozen := True,
     al_frozen_reason := (case al_frozen_reason l of
         None \<Rightarrow> Some (if reason = [] then ''ledger authority state invalid'' else reason)
       | Some r \<Rightarrow> Some r)\<rparr>"

definition head_structure_ok :: "ledger_head \<Rightarrow> bool" where
  "head_structure_ok h = (case lh_digest h of
       None \<Rightarrow> lh_sequence h = 0
     | Some d \<Rightarrow> lh_sequence h > 0 \<and> digest_shape d)"

definition head_valid :: "(string \<Rightarrow> string) \<Rightarrow> authority_ledger \<Rightarrow> bool" where
  "head_valid sha l = (head_structure_ok (al_head l)
     \<and> al_head_guard l = head_guard_digest sha (al_instance_id l) (al_head l))"

section \<open>Advancing\<close>

definition mark_projection_lost :: "nat \<Rightarrow> authority_ledger \<Rightarrow> authority_ledger" where
  "mark_projection_lost seq l = l\<lparr>al_projection_complete := False,
     al_first_lost := (case al_first_lost l of None \<Rightarrow> Some seq | Some f \<Rightarrow> Some f),
     al_complete_through := (case al_first_lost l of
         None \<Rightarrow> min (al_complete_through l) (seq - 1) | Some f \<Rightarrow> al_complete_through l),
     al_last_lost := Some seq, al_lost_count := al_lost_count l + 1\<rparr>"

text \<open>\<open>_enqueue_projection_locked\<close>, and \<open>_ensure_writer\<close> for a queued record.\<close>

definition writer_alive :: "authority_ledger \<Rightarrow> bool" where
  "writer_alive l = (case al_writer l of WriterNotStarted \<Rightarrow> False | WriterExited \<Rightarrow> False | _ \<Rightarrow> True)"

definition enqueue_projection :: "projection_request \<Rightarrow> authority_ledger \<Rightarrow> bool \<times> authority_ledger" where
  "enqueue_projection pj l =
     (if al_closed l \<or> length (al_queue l) \<ge> al_queue_capacity l
      then (False, mark_projection_lost (pj_sequence pj) l)
      else (True, l\<lparr>al_queue := al_queue l @ [Some pj]\<rparr>))"

definition ensure_writer :: "authority_ledger \<Rightarrow> authority_ledger" where
  "ensure_writer l = (if al_closed l \<or> writer_alive l then l else l\<lparr>al_writer := WriterWaiting\<rparr>)"

definition next_record :: "(string \<Rightarrow> string) \<Rightarrow> string \<Rightarrow> record_request \<Rightarrow> authority_ledger \<Rightarrow> authority_record" where
  "next_record sha now rq l =
     (let seq = lh_sequence (al_head l) + 1; prev = lh_digest (al_head l);
          material = record_material (al_instance_id l) (al_runtime_id l) (al_lane_id l) seq prev now rq
      in \<lparr>ar_instance = al_instance_id l, ar_runtime = al_runtime_id l, ar_lane = al_lane_id l,
          ar_sequence = seq, ar_request = rq, ar_time = now, ar_previous = prev,
          ar_digest = digest_record_material sha material\<rparr>)"

definition advance ::
    "(string \<Rightarrow> string) \<Rightarrow> string \<Rightarrow> record_request \<Rightarrow> authority_ledger
       \<Rightarrow> authority_ledger \<times> (ledger_error + authority_record)" where
  "advance sha now rq l =
     (if al_frozen l then (l, Inl (LedgerAuthorityFrozen
         (case al_frozen_reason l of None \<Rightarrow> ''ledger authority frozen'' | Some r \<Rightarrow> r)))
      else if \<not> head_valid sha l then
        (let l' = freeze_authority ''active ledger head failed process-local consistency validation'' l
         in (l', Inl (LedgerAuthorityFrozen (case al_frozen_reason l' of None \<Rightarrow> [] | Some r \<Rightarrow> r))))
      else
        (let r = next_record sha now rq l;
             h = \<lparr>lh_sequence = ar_sequence r, lh_digest = Some (ar_digest r)\<rparr>;
             pj = \<lparr>pj_sequence = ar_sequence r, pj_digest = ar_digest r, pj_encoded = encoded_record r\<rparr>;
             l1 = l\<lparr>al_head := h, al_head_guard := head_guard_digest sha (al_instance_id l) h\<rparr>
         in case enqueue_projection pj l1 of (queued, l2) \<Rightarrow>
              ((if queued then ensure_writer l2 else l2), Inr r)))"

section \<open>What is recorded\<close>

definition represented_path_request ::
    "path_facts \<Rightarrow> string \<Rightarrow> string \<Rightarrow> string \<Rightarrow> ledger_error + record_request" where
  "represented_path_request f outcome scope boundary =
     (if outcome \<notin> set EXPECTED_SECURITY_OUTCOMES
      then Inl (LedgerValueError ''unsupported security outcome for represented-path ledger record'')
      else if scope \<notin> set EXPECTED_GATE_CONTAINMENT
      then Inl (LedgerValueError ''unsupported containment scope for represented-path ledger record'')
      else if boundary \<notin> set EXPECTED_GATE_BOUNDARIES
      then Inl (LedgerValueError ''unsupported consequence boundary for represented-path ledger record'')
      else Inr \<lparr>rq_event = event_value RepresentedPathEvent, rq_producer = ''phase5.represented_path_gate'',
        rq_boundary = boundary, rq_outcome = outcome, rq_scope = scope,
        rq_fact_type = ''RepresentedPathAuthorityFacts'',
        rq_payload = [(''deterministic'', PBool (pf_deterministic f)), (''never_match'', PBool (pf_never_match f)),
          (''workspace_configured'', PBool (pf_workspace_configured f)),
          (''inside_workspace'', (case pf_inside_workspace f of None \<Rightarrow> PNone | Some b \<Rightarrow> PBool b)),
          (''invalid'', PBool (pf_invalid f)), (''deferred_to_executor'', PBool (pf_deferred_to_executor f)),
          (''outcome'', PStr outcome), (''containment_scope'', PStr scope)]\<rparr>)"

definition executor_identity_request :: "bool \<Rightarrow> bool \<Rightarrow> string \<Rightarrow> string \<Rightarrow> ledger_error + record_request" where
  "executor_identity_request rt lane outcome scope =
     (if outcome \<notin> set EXPECTED_SECURITY_OUTCOMES
      then Inl (LedgerValueError ''unsupported security outcome for executor-identity ledger record'')
      else if scope \<notin> set EXPECTED_GATE_CONTAINMENT
      then Inl (LedgerValueError ''unsupported containment scope for executor-identity ledger record'')
      else Inr \<lparr>rq_event = event_value ExecutorIdentityEvent, rq_producer = ''phase5.executor_identity_gate'',
        rq_boundary = ''executor_admission'', rq_outcome = outcome, rq_scope = scope,
        rq_fact_type = ''ExecutorAdmissionIdentityFact'',
        rq_payload = [(''runtime_matches'', PBool rt), (''lane_matches'', PBool lane),
          (''outcome'', PStr outcome), (''containment_scope'', PStr scope)]\<rparr>)"

definition canary_match_request :: "string \<Rightarrow> string \<Rightarrow> ledger_error + record_request" where
  "canary_match_request canary_id tier =
     (if \<not> safe_canary_id canary_id then Inl (LedgerValueError ''canary_id is not safe Phase-6 metadata'')
      else if tier \<notin> set CANARY_TIERS then Inl (LedgerValueError ''unsupported Canary tier'')
      else Inr \<lparr>rq_event = event_value CanaryMatchEvent, rq_producer = ''streaming_irq.canary'',
        rq_boundary = ''model_output_release'', rq_outcome = ''HARD_INTERRUPT'',
        rq_scope = ''model_output_release'', rq_fact_type = ''CanaryMatch'',
        rq_payload = [(''canary_id'', PStr canary_id), (''tier'', PStr tier)]\<rparr>)"

definition reserved_namespace_request :: record_request where
  "reserved_namespace_request = \<lparr>rq_event = event_value ReservedNamespaceEvent, rq_producer = ''evidence_guard.reserved_namespace'',
     rq_boundary = ''model_output_release'', rq_outcome = ''DENY_AND_CONTINUE'', rq_scope = ''evidence_fragment'',
     rq_fact_type = ''ReservedEvidenceNamespaceFact'', rq_payload = []\<rparr>"

definition error_name :: "ledger_error \<Rightarrow> string" where
  "error_name e = (case e of LedgerAuthorityFrozen _ \<Rightarrow> ''LedgerAuthorityFrozen''
     | LedgerValueError _ \<Rightarrow> ''ValueError'' | LedgerRuntimeError _ \<Rightarrow> ''RuntimeError'')"

text \<open>\<open>_safe_record\<close>: the record is made or not; any failure other than an already frozen ledger
  freezes the ledger, and nothing is raised.\<close>

definition safe_record ::
    "(string \<Rightarrow> string) \<Rightarrow> string \<Rightarrow> ledger_error + record_request \<Rightarrow> authority_ledger
       \<Rightarrow> authority_ledger \<times> authority_record option" where
  "safe_record sha now request l =
     (case request of
        Inl e \<Rightarrow> (freeze_authority (''Phase-6 ledger recording failure: '' @ error_name e) l, None)
      | Inr rq \<Rightarrow> (case advance sha now rq l of
            (l', Inr r) \<Rightarrow> (l', Some r)
          | (l', Inl (LedgerAuthorityFrozen m)) \<Rightarrow> (l', None)
          | (l', Inl e) \<Rightarrow> (freeze_authority (''Phase-6 ledger recording failure: '' @ error_name e) l', None)))"

text \<open>What the gate hands over, turned into a request (\<open>record_represented_path_decision_failsoft\<close>
  and \<open>record_executor_identity_decision_failsoft\<close>); a resource block belongs to the
  Phase-7 producer.\<close>

definition gate_request :: "gate_record \<Rightarrow> (ledger_error + record_request) option" where
  "gate_request g = (case g of
       PathDecisionRecord f out sc b \<Rightarrow>
         Some (represented_path_request f (outcome_value out) (scope_value sc) (boundary_value b))
     | ExecutorIdentityRecord rt lane out sc \<Rightarrow>
         Some (executor_identity_request rt lane (outcome_value out) (scope_value sc))
     | ResourceBlockRecord _ _ \<Rightarrow> None)"

definition record_gate :: "(string \<Rightarrow> string) \<Rightarrow> string \<Rightarrow> gate_record \<Rightarrow> authority_ledger \<Rightarrow> authority_ledger \<times> authority_record option" where
  "record_gate sha now g l =
     (case gate_request g of None \<Rightarrow> (l, None) | Some rq \<Rightarrow> safe_record sha now rq l)"

section \<open>The writer\<close>

text \<open>What the disk holds: the record files written so far (latest first) and the last
  projection head.\<close>

record head_document =
  hd_last_projected_sequence :: nat
  hd_last_projected_digest :: "string option"
  hd_projection_complete :: bool
  hd_complete_through :: nat
  hd_first_lost :: "nat option"
  hd_last_lost :: "nat option"
  hd_lost_count :: nat
  hd_metadata_degraded :: bool

record ledger_disk =
  dk_files :: "projection_request list"
  dk_head :: "head_document option"

definition projection_head_document :: "authority_ledger \<Rightarrow> head_document" where
  "projection_head_document l = \<lparr>hd_last_projected_sequence = al_last_projected_sequence l,
     hd_last_projected_digest = al_last_projected_digest l, hd_projection_complete = al_projection_complete l,
     hd_complete_through = al_complete_through l, hd_first_lost = al_first_lost l,
     hd_last_lost = al_last_lost l, hd_lost_count = al_lost_count l,
     hd_metadata_degraded = al_metadata_degraded l\<rparr>"

text \<open>\<open>_writer_loop\<close> taking the next item.\<close>

definition writer_take :: "authority_ledger \<Rightarrow> authority_ledger option" where
  "writer_take l =
     (case (al_writer l, al_queue l) of
        (WriterWaiting, Some pj # q) \<Rightarrow> Some (l\<lparr>al_queue := q, al_writer := WriterProjecting pj\<rparr>)
      | (WriterWaiting, None # q) \<Rightarrow> Some (l\<lparr>al_queue := q, al_writer := WriterExited\<rparr>)
      | _ \<Rightarrow> None)"

text \<open>\<open>_project_one\<close> after the record file was written, or failed to be.\<close>

definition projected :: "projection_request \<Rightarrow> authority_ledger \<Rightarrow> authority_ledger" where
  "projected pj l = l\<lparr>al_last_projected_sequence := pj_sequence pj,
     al_last_projected_digest := Some (pj_digest pj),
     al_complete_through := (case al_first_lost l of
         None \<Rightarrow> pj_sequence pj
       | Some f \<Rightarrow> if pj_sequence pj < f \<and> pj_sequence pj = al_complete_through l + 1
                  then pj_sequence pj else al_complete_through l),
     al_projection_complete := (al_first_lost l = None),
     al_metadata_degraded := False\<rparr>"

definition project_record :: "bool \<Rightarrow> authority_ledger \<times> ledger_disk \<Rightarrow> (authority_ledger \<times> ledger_disk) option" where
  "project_record written st = (case st of (l, dk) \<Rightarrow>
     (case al_writer l of
        WriterProjecting pj \<Rightarrow> Some
          (if written
           then ((projected pj l)\<lparr>al_writer := WriterHeadDocument\<rparr>, dk\<lparr>dk_files := pj # dk_files dk\<rparr>)
           else ((mark_projection_lost (pj_sequence pj) l)\<lparr>al_writer := WriterHeadDocument\<rparr>, dk))
      | _ \<Rightarrow> None))"

text \<open>\<open>_write_projection_head_best_effort\<close>: the document describes the state it was read from.\<close>

definition write_projection_head :: "bool \<Rightarrow> authority_ledger \<times> ledger_disk \<Rightarrow> (authority_ledger \<times> ledger_disk) option" where
  "write_projection_head written st = (case st of (l, dk) \<Rightarrow>
     (if al_writer l \<noteq> WriterHeadDocument then None
      else if written
      then Some (l\<lparr>al_metadata_degraded := False, al_writer := WriterWaiting\<rparr>,
                 dk\<lparr>dk_head := Some (projection_head_document l)\<rparr>)
      else Some (l\<lparr>al_metadata_degraded := True, al_writer := WriterWaiting\<rparr>, dk)))"

text \<open>\<open>close\<close>, after its wait.\<close>

definition close_ledger :: "authority_ledger \<Rightarrow> authority_ledger" where
  "close_ledger l =
     (let l' = l\<lparr>al_closed := True\<rparr> in
      if \<not> writer_alive l then l'
      else if length (al_queue l) \<ge> al_queue_capacity l then l'
      else l'\<lparr>al_queue := al_queue l @ [None]\<rparr>)"

record projection_status =
  ps_active_sequence :: nat
  ps_active_digest :: "string option"
  ps_head :: head_document
  ps_queued_records :: nat
  ps_queue_capacity :: nat

definition projection_status_of :: "authority_ledger \<Rightarrow> projection_status" where
  "projection_status_of l = \<lparr>ps_active_sequence = lh_sequence (al_head l),
     ps_active_digest = lh_digest (al_head l), ps_head = projection_head_document l,
     ps_queued_records = length (al_queue l), ps_queue_capacity = al_queue_capacity l\<rparr>"

section \<open>The ledger as a transition system\<close>

text \<open>The ledger, the disk, and the records made so far in order.\<close>

type_synonym ledger_world = "authority_ledger \<times> ledger_disk \<times> authority_record list"

inductive ledger_step :: "(string \<Rightarrow> string) \<Rightarrow> ledger_world \<Rightarrow> ledger_world \<Rightarrow> bool" for sha where
  step_record: "safe_record sha now rq l = (l', r)
     \<Longrightarrow> ledger_step sha (l, dk, log) (l', dk, log @ (case r of None \<Rightarrow> [] | Some x \<Rightarrow> [x]))"
| step_freeze: "ledger_step sha (l, dk, log) (freeze_authority reason l, dk, log)"
| step_take: "writer_take l = Some l' \<Longrightarrow> ledger_step sha (l, dk, log) (l', dk, log)"
| step_project: "project_record b (l, dk) = Some (l', dk') \<Longrightarrow> ledger_step sha (l, dk, log) (l', dk', log)"
| step_head: "write_projection_head b (l, dk) = Some (l', dk') \<Longrightarrow> ledger_step sha (l, dk, log) (l', dk', log)"
| step_close: "ledger_step sha (l, dk, log) (close_ledger l, dk, log)"

inductive ledger_reachable :: "(string \<Rightarrow> string) \<Rightarrow> ledger_world \<Rightarrow> bool" for sha where
  reach_new: "new_ledger sha rt lane cap inst = Inr l
     \<Longrightarrow> ledger_reachable sha (l, \<lparr>dk_files = [], dk_head = None\<rparr>, [])"
| reach_step: "ledger_reachable sha w \<Longrightarrow> ledger_step sha w w' \<Longrightarrow> ledger_reachable sha w'"

inductive_cases ledger_stepE: "ledger_step sha (l, dk, log) w'"

lemmas ledger_step_cases = ledger_stepE
  [consumes 1, case_names step_record step_freeze step_take step_project step_head step_close]

end
