(* ===== verification/LedgerChain.thy ===== *)
theory LedgerChain
  imports AuthorityLedger
begin

text \<open>
  The integrity of the authority chain: every reachable ledger has an unbroken chain of records
  whose head it holds, a frozen ledger never moves again, and a chain cannot be altered under
  an unchanged head digest without a SHA-256 collision between two of its records. The last point is proved in
  the locale \<open>hash_chain\<close> from the laws of the hashed content alone, and interpreted on the
  ledger's own records.
\<close>

section \<open>Hash chains\<close>

text \<open>Seen from their ends, two chains agree up to a place where their records have different contents with
  the same hash.\<close>

definition collides :: "('r \<Rightarrow> string) \<Rightarrow> (string \<Rightarrow> 'd) \<Rightarrow> 'r list \<Rightarrow> 'r list \<Rightarrow> bool" where
  "collides content hash rs rs' \<longleftrightarrow>
     (\<exists>k < min (length rs) (length rs'). map content (take k (rev rs)) = map content (take k (rev rs'))
        \<and> content (rev rs ! k) \<noteq> content (rev rs' ! k) \<and> hash (content (rev rs ! k)) = hash (content (rev rs' ! k)))"

lemma collides_last:
  "content r \<noteq> content s \<Longrightarrow> hash (content r) = hash (content s) \<Longrightarrow> collides content hash (rs @ [r]) (ss @ [s])"
  unfolding collides_def by (intro exI [of _ 0]) simp

lemma collides_snoc:
  assumes "collides content hash rs ss" and "content r = content s"
  shows "collides content hash (rs @ [r]) (ss @ [s])"
proof -
  obtain k where "k < min (length rs) (length ss)" "map content (take k (rev rs)) = map content (take k (rev ss))"
    "content (rev rs ! k) \<noteq> content (rev ss ! k)" "hash (content (rev rs ! k)) = hash (content (rev ss ! k))"
    using assms(1) by (auto simp: collides_def)
  then show ?thesis unfolding collides_def using assms(2) by (intro exI [of _ "Suc k"]) simp
qed

locale hash_chain =
  fixes wf :: "'r \<Rightarrow> bool" and content :: "'r \<Rightarrow> string" and hash :: "string \<Rightarrow> 'd"
    and dig :: "'r \<Rightarrow> 'd" and prev :: "'r \<Rightarrow> 'd option" and seq :: "'r \<Rightarrow> nat"
  assumes content_prev: "wf r \<Longrightarrow> wf r' \<Longrightarrow> content r = content r' \<Longrightarrow> prev r = prev r'"
    and content_seq: "wf r \<Longrightarrow> wf r' \<Longrightarrow> content r = content r' \<Longrightarrow> seq r = seq r'"
begin

fun linked :: "nat \<Rightarrow> 'd option \<Rightarrow> 'r list \<Rightarrow> bool" where
  "linked n p [] = True"
| "linked n p (r # rs) =
     (wf r \<and> seq r = n + 1 \<and> prev r = p \<and> dig r = hash (content r) \<and> linked (n + 1) (Some (dig r)) rs)"

lemma linked_append:
  "linked n p (rs @ [r]) \<longleftrightarrow> linked n p rs \<and> wf r \<and> seq r = n + length rs + 1
     \<and> prev r = (if rs = [] then p else Some (dig (last rs))) \<and> dig r = hash (content r)"
  by (induction n p rs rule: linked.induct) auto

lemma tamper_evident:
  assumes "linked 0 None rs" and "linked 0 None rs'" and "rs \<noteq> []" and "rs' \<noteq> []"
    and "dig (last rs) = dig (last rs')"
  shows "map content rs = map content rs' \<or> collides content hash rs rs'"
  using assms
proof (induction rs arbitrary: rs' rule: rev_induct)
  case (snoc r rs)
  obtain ss s where rs': "rs' = ss @ [s]" using snoc.prems(4) by (metis rev_exhaust)
  have r: "linked 0 None rs" "wf r" "seq r = length rs + 1" "prev r = (if rs = [] then None else Some (dig (last rs)))"
    "dig r = hash (content r)"
    using snoc.prems(1) linked_append [of 0 None rs r] by auto
  have s: "linked 0 None ss" "wf s" "seq s = length ss + 1" "prev s = (if ss = [] then None else Some (dig (last ss)))"
    "dig s = hash (content s)"
    using snoc.prems(2) linked_append [of 0 None ss s] by (auto simp: rs')
  show ?case
  proof (cases "content r = content s")
    case False
    moreover have "hash (content r) = hash (content s)" using snoc.prems(5) r(5) s(5) by (simp add: rs')
    ultimately show ?thesis unfolding rs' by (intro disjI2 collides_last)
  next
    case True
    have len: "length rs = length ss" using content_seq [OF r(2) s(2) True] r(3) s(3) by simp
    show ?thesis
    proof (cases "rs = []")
      case True
      then show ?thesis using len \<open>content r = content s\<close> by (simp add: rs')
    next
      case False
      then have ne: "ss \<noteq> []" using len by auto
      have "dig (last rs) = dig (last ss)"
        using content_prev [OF r(2) s(2) True] r(4) s(4) False ne by simp
      from snoc.IH [OF r(1) s(1) False ne this] show ?thesis
        using collides_snoc [where content = content and r = r and s = s and hash = hash and rs = rs and ss = ss] True
        by (auto simp: rs')
    qed
  qed
qed simp

end

section \<open>The ledger's chain\<close>

definition plain_record :: "authority_record \<Rightarrow> bool" where
  "plain_record r = (float_free (PDict (rq_payload (ar_request r))))"

definition record_content :: "authority_record \<Rightarrow> string" where
  "record_content r = canonical_bytes (PDict (material_of r))"

fun chain_from :: "(string \<Rightarrow> string) \<Rightarrow> nat \<Rightarrow> string option \<Rightarrow> authority_record list \<Rightarrow> bool" where
  "chain_from sha n p [] = True"
| "chain_from sha n p (r # rs) =
     (ar_sequence r = n + 1 \<and> ar_previous r = p \<and> ar_digest r = sha (record_content r)
      \<and> chain_from sha (n + 1) (Some (ar_digest r)) rs)"

lemma material_keys: "distinct (map fst (material_of r))"
  by (simp add: material_of_def record_material_def)

lemma material_float_free: "plain_record r \<Longrightarrow> float_free (PDict (material_of r))"
  by (simp add: plain_record_def material_of_def record_material_def opt_str_def split: option.split)

lemma record_content_fields:
  assumes "plain_record r" and "plain_record r'" and "record_content r = record_content r'"
  shows "ar_previous r = ar_previous r'" and "ar_sequence r = ar_sequence r'"
proof -
  let ?s = "map (\<lambda>(k, v). (k, sort_keys v))"
  have k: "map fst (?s d) = map fst d" for d :: pydict by (induction d) auto
  have "sort_key fst (?s (material_of r)) = sort_key fst (?s (material_of r'))"
    using canonical_bytes_determine [OF assms(3) [unfolded record_content_def]
        material_float_free [OF assms(1)] material_float_free [OF assms(2)]]
    by simp
  then have m: "map_of (?s (material_of r)) = map_of (?s (material_of r'))"
    using map_of_sort_key material_keys k by metis
  have "sort_keys (opt_str (ar_previous r)) = sort_keys (opt_str (ar_previous r'))"
    using fun_cong [OF m, of "''previous_record_digest''"] by (simp add: material_of_def record_material_def)
  then show "ar_previous r = ar_previous r'" by (auto simp: opt_str_def split: option.splits)
  show "ar_sequence r = ar_sequence r'"
    using fun_cong [OF m, of "''sequence''"] by (simp add: material_of_def record_material_def)
qed

interpretation records: hash_chain plain_record record_content sha ar_digest ar_previous ar_sequence for sha
  by unfold_locales (rule record_content_fields, assumption+)+

lemma chain_linked:
  "chain_from sha n p rs \<Longrightarrow> list_all plain_record rs \<Longrightarrow> records.linked sha n p rs"
  by (induction sha n p rs rule: chain_from.induct) auto

lemma chain_from_append:
  "chain_from sha n p (rs @ [r]) \<longleftrightarrow> chain_from sha n p rs \<and> ar_sequence r = n + length rs + 1
     \<and> ar_previous r = (if rs = [] then p else Some (ar_digest (last rs)))
     \<and> ar_digest r = sha (record_content r)"
  by (induction sha n p rs rule: chain_from.induct) auto

section \<open>What an advance does\<close>

definition log_head :: "authority_record list \<Rightarrow> ledger_head" where
  "log_head log = \<lparr>lh_sequence = length log, lh_digest = (if log = [] then None else Some (ar_digest (last log)))\<rparr>"

lemma freeze_fields [simp]:
  "al_head (freeze_authority m l) = al_head l" "al_head_guard (freeze_authority m l) = al_head_guard l"
  "al_frozen (freeze_authority m l)" "al_instance_id (freeze_authority m l) = al_instance_id l"
  "al_queue (freeze_authority m l) = al_queue l" "al_writer (freeze_authority m l) = al_writer l"
  "al_first_lost (freeze_authority m l) = al_first_lost l" "al_complete_through (freeze_authority m l) = al_complete_through l"
  "al_projection_complete (freeze_authority m l) = al_projection_complete l"
  "al_lost_count (freeze_authority m l) = al_lost_count l" "al_queue_capacity (freeze_authority m l) = al_queue_capacity l"
  "al_closed (freeze_authority m l) = al_closed l"
  by (simp_all add: freeze_authority_def)

lemma head_valid_freeze [simp]: "head_valid sha (freeze_authority m l) = head_valid sha l"
  by (simp add: head_valid_def)

lemma mark_lost_fields [simp]:
  "al_head (mark_projection_lost s l) = al_head l" "al_head_guard (mark_projection_lost s l) = al_head_guard l"
  "al_instance_id (mark_projection_lost s l) = al_instance_id l" "al_frozen (mark_projection_lost s l) = al_frozen l"
  "al_queue (mark_projection_lost s l) = al_queue l" "al_writer (mark_projection_lost s l) = al_writer l"
  "al_queue_capacity (mark_projection_lost s l) = al_queue_capacity l" "al_closed (mark_projection_lost s l) = al_closed l"
  "al_lost_count (mark_projection_lost s l) = al_lost_count l + 1"
  "\<not> al_projection_complete (mark_projection_lost s l)"
  by (simp_all add: mark_projection_lost_def)

lemma ensure_writer_fields [simp]:
  "al_head (ensure_writer l) = al_head l" "al_head_guard (ensure_writer l) = al_head_guard l"
  "al_instance_id (ensure_writer l) = al_instance_id l" "al_frozen (ensure_writer l) = al_frozen l"
  "al_queue (ensure_writer l) = al_queue l" "al_first_lost (ensure_writer l) = al_first_lost l"
  "al_complete_through (ensure_writer l) = al_complete_through l"
  "al_projection_complete (ensure_writer l) = al_projection_complete l"
  "al_lost_count (ensure_writer l) = al_lost_count l" "al_queue_capacity (ensure_writer l) = al_queue_capacity l"
  "al_closed (ensure_writer l) = al_closed l"
  by (simp_all add: ensure_writer_def)

text \<open>A successful advance: the new head, and what became of the record's projection.\<close>

definition request_of :: "authority_record \<Rightarrow> projection_request" where
  "request_of r = \<lparr>pj_sequence = ar_sequence r, pj_digest = ar_digest r, pj_encoded = encoded_record r\<rparr>"

definition move_head :: "(string \<Rightarrow> string) \<Rightarrow> authority_record \<Rightarrow> authority_ledger \<Rightarrow> authority_ledger" where
  "move_head sha r l = (let h = \<lparr>lh_sequence = ar_sequence r, lh_digest = Some (ar_digest r)\<rparr> in
     l\<lparr>al_head := h, al_head_guard := head_guard_digest sha (al_instance_id l) h\<rparr>)"

lemma advance_Inr:
  assumes "advance sha now rq l = (l', Inr r)"
  shows "\<not> al_frozen l" and "head_valid sha l" and "r = next_record sha now rq l"
    and "l' = (if al_closed l \<or> length (al_queue l) \<ge> al_queue_capacity l
      then mark_projection_lost (ar_sequence r) (move_head sha r l)
      else ensure_writer ((move_head sha r l)\<lparr>al_queue := al_queue l @ [Some (request_of r)]\<rparr>))"
  using assms
  by (auto simp: advance_def enqueue_projection_def Let_def move_head_def request_of_def split: if_splits prod.splits)

lemma advance_Inl:
  assumes "advance sha now rq l = (l', Inl e)"
  shows "\<exists>m. e = LedgerAuthorityFrozen m" and "l' = l \<or> l' = freeze_authority ''active ledger head failed process-local consistency validation'' l"
    and "al_frozen l'"
  using assms
  by (auto simp: advance_def enqueue_projection_def Let_def split: if_splits prod.splits)

lemma safe_record_cases:
  assumes "safe_record sha now rq l = (l', x)"
  obtains (made) q r where "rq = Inr q" "x = Some r" "advance sha now q l = (l', Inr r)"
    | (frozen) m where "x = None" "l' = l \<and> al_frozen l \<or> l' = freeze_authority m l"
proof (cases rq)
  case (Inl e)
  then show thesis using assms frozen by (auto simp: safe_record_def)
next
  case (Inr q)
  obtain l1 y where a: "advance sha now q l = (l1, y)" by fastforce
  show thesis
  proof (cases y)
    case (Inl e)
    then obtain m where e: "e = LedgerAuthorityFrozen m" using advance_Inl(1) a by blast
    have "x = None" "l' = l1" using assms a Inl e by (auto simp: safe_record_def Inr)
    then show thesis using frozen advance_Inl(2,3) a Inl by metis
  next
    case (Inr r)
    then show thesis using made [of q r] assms a \<open>rq = Inr q\<close> by (auto simp: safe_record_def)
  qed
qed

lemma advance_ready:
  assumes "\<not> al_frozen l" and "head_valid sha l"
  shows "\<exists>l' r. advance sha now rq l = (l', Inr r)"
  using assms unfolding advance_def Let_def by (simp add: case_prod_beta)

section \<open>The chain invariant\<close>

definition chain_inv :: "(string \<Rightarrow> string) \<Rightarrow> ledger_world \<Rightarrow> bool" where
  "chain_inv sha w = (case w of (l, dk, log) \<Rightarrow>
     chain_from sha 0 None log \<and> al_head l = log_head log
     \<and> al_head_guard l = head_guard_digest sha (al_instance_id l) (al_head l)
     \<and> list_all (\<lambda>r. ar_instance r = al_instance_id l \<and> ar_runtime r = al_runtime_id l \<and> ar_lane r = al_lane_id l) log)"

text \<open>The steps of the writer and \<open>close\<close> keep identity, head and freeze.\<close>

definition same_authority :: "authority_ledger \<Rightarrow> authority_ledger \<Rightarrow> bool" where
  "same_authority l l' \<longleftrightarrow> al_runtime_id l' = al_runtime_id l \<and> al_lane_id l' = al_lane_id l
     \<and> al_instance_id l' = al_instance_id l \<and> al_queue_capacity l' = al_queue_capacity l
     \<and> al_head l' = al_head l \<and> al_head_guard l' = al_head_guard l
     \<and> al_frozen l' = al_frozen l \<and> al_frozen_reason l' = al_frozen_reason l"

lemma writer_steps_authority:
  "writer_take l = Some l' \<Longrightarrow> same_authority l l'"
  "project_record b (l, dk) = Some (l', dk') \<Longrightarrow> same_authority l l'"
  "write_projection_head b (l, dk) = Some (l', dk') \<Longrightarrow> same_authority l l'"
  "same_authority l (close_ledger l)"
  by (auto simp: writer_take_def project_record_def write_projection_head_def close_ledger_def same_authority_def
      projected_def mark_projection_lost_def Let_def split: writer_state.splits list.splits option.splits if_splits)

lemma move_head_fields:
  "al_head (move_head sha r l) = \<lparr>lh_sequence = ar_sequence r, lh_digest = Some (ar_digest r)\<rparr>"
  "al_head_guard (move_head sha r l) = head_guard_digest sha (al_instance_id l) (al_head (move_head sha r l))"
  "al_runtime_id (move_head sha r l) = al_runtime_id l" "al_lane_id (move_head sha r l) = al_lane_id l"
  "al_instance_id (move_head sha r l) = al_instance_id l" "al_queue_capacity (move_head sha r l) = al_queue_capacity l"
  "al_queue (move_head sha r l) = al_queue l" "al_writer (move_head sha r l) = al_writer l"
  "al_frozen (move_head sha r l) = al_frozen l" "al_closed (move_head sha r l) = al_closed l"
  "al_first_lost (move_head sha r l) = al_first_lost l" "al_complete_through (move_head sha r l) = al_complete_through l"
  "al_projection_complete (move_head sha r l) = al_projection_complete l" "al_lost_count (move_head sha r l) = al_lost_count l"
  by (simp_all add: move_head_def Let_def)

lemma advance_authority:
  assumes "advance sha now rq l = (l', Inr r)"
  shows "al_head l' = \<lparr>lh_sequence = lh_sequence (al_head l) + 1, lh_digest = Some (ar_digest r)\<rparr>"
    and "al_head_guard l' = head_guard_digest sha (al_instance_id l) (al_head l')"
    and "al_instance_id l' = al_instance_id l" "al_runtime_id l' = al_runtime_id l" "al_lane_id l' = al_lane_id l"
    and "al_queue_capacity l' = al_queue_capacity l" "al_frozen l' = al_frozen l"
  using advance_Inr(3,4) [OF assms]
  by (auto simp: move_head_fields next_record_def Let_def ensure_writer_def mark_projection_lost_def)

lemma chain_inv_step:
  assumes "ledger_step sha w w'" and "chain_inv sha w"
  shows "chain_inv sha w'"
proof -
  obtain l dk log where w: "w = (l, dk, log)" by (cases w)
  from assms(1) [unfolded w] show ?thesis
  proof (cases rule: ledger_step_cases)
    case (step_record now rq l' x)
    from step_record(2) show ?thesis
    proof (cases rule: safe_record_cases)
      case (made q r)
      note a = advance_Inr(3) [OF made(3)] and b = advance_authority [OF made(3)]
      have "ar_sequence r = length log + 1" "ar_previous r = lh_digest (log_head log)"
        "ar_digest r = sha (record_content r)" "ar_instance r = al_instance_id l"
        "ar_runtime r = al_runtime_id l" "ar_lane r = al_lane_id l"
        using a assms(2) by (simp_all add: next_record_def Let_def chain_inv_def w log_head_def
            record_content_def material_of_def digest_record_material_def)
      then show ?thesis
        using assms(2) b step_record(1) made(2)
        by (simp add: chain_inv_def w chain_from_append log_head_def)
    next
      case (frozen m)
      then show ?thesis using assms(2) step_record(1)
        by (auto simp: chain_inv_def w freeze_authority_def)
    qed
  next
    case (step_freeze reason)
    then show ?thesis using assms(2) by (simp add: chain_inv_def w freeze_authority_def)
  next
    case (step_take l')
    then show ?thesis using assms(2) writer_steps_authority(1) [OF step_take(2)]
      by (simp add: chain_inv_def w same_authority_def)
  next
    case (step_project b l' dk')
    then show ?thesis using assms(2) writer_steps_authority(2) [OF step_project(2)]
      by (simp add: chain_inv_def w same_authority_def)
  next
    case (step_head b l' dk')
    then show ?thesis using assms(2) writer_steps_authority(3) [OF step_head(2)]
      by (simp add: chain_inv_def w same_authority_def)
  next
    case step_close
    then show ?thesis using assms(2) writer_steps_authority(4) [of l]
      by (simp add: chain_inv_def w same_authority_def)
  qed
qed

lemma chain_inv_reachable: "ledger_reachable sha w \<Longrightarrow> chain_inv sha w"
proof (induction rule: ledger_reachable.induct)
  case (reach_new rt lane cap inst l)
  then show ?case
    by (auto simp: new_ledger_def chain_inv_def log_head_def Let_def split: if_splits)
qed (rule chain_inv_step)

lemma reachable_head_valid:
  assumes "ledger_reachable sha (l, dk, log)" and "\<And>b. digest_shape (sha b)"
  shows "head_valid sha l"
proof -
  note inv = chain_inv_reachable [OF assms(1)]
  have "head_structure_ok (al_head l)"
  proof (cases log rule: rev_cases)
    case Nil
    then show ?thesis using inv by (simp add: chain_inv_def log_head_def head_structure_ok_def)
  next
    case (snoc ys r)
    then have "ar_digest r = sha (record_content r)" using inv by (simp add: chain_inv_def chain_from_append)
    then show ?thesis using inv snoc assms(2) by (simp add: chain_inv_def log_head_def head_structure_ok_def)
  qed
  then show ?thesis using inv by (simp add: chain_inv_def head_valid_def)
qed

section \<open>An example\<close>

definition zero_sha :: "string \<Rightarrow> string" where
  "zero_sha b = replicate 64 (CHR ''0'')"

lemma zero_sha_shape: "digest_shape (zero_sha b)"
  by (simp add: zero_sha_def digest_shape_def ascii_digit_def list_all_iff)

definition example_ledger :: authority_ledger where
  "example_ledger = (let h = \<lparr>lh_sequence = 0, lh_digest = None\<rparr> in
     \<lparr>al_runtime_id = ''rt'', al_lane_id = ''lane'', al_instance_id = ''i'', al_queue_capacity = 1,
        al_head = h, al_head_guard = head_guard_digest zero_sha ''i'' h, al_frozen = False,
        al_frozen_reason = None, al_queue = [], al_closed = False, al_writer = WriterNotStarted,
        al_last_projected_sequence = 0, al_last_projected_digest = None, al_projection_complete = True,
        al_complete_through = 0, al_first_lost = None, al_last_lost = None, al_lost_count = 0,
        al_metadata_degraded = False\<rparr>)"

lemma example_new: "new_ledger zero_sha ''rt'' ''lane'' 1 ''i'' = Inr example_ledger"
  by (simp add: example_ledger_def new_ledger_def Let_def MAX_PROJECTION_QUEUE_CAPACITY_def
      py_strip_def py_rstrip_by_def py_lstrip_def py_isspace_def)

lemma example_reachable: "ledger_reachable zero_sha (example_ledger, \<lparr>dk_files = [], dk_head = None\<rparr>, [])"
  by (rule reach_new [OF example_new])

lemma example_unfrozen: "\<not> al_frozen example_ledger"
  by (simp add: example_ledger_def Let_def)

section \<open>Properties\<close>

text \<open>C31. Whatever sequence of recordings, freezes, writer steps and closing happens, the records
  made form one unbroken chain from sequence 1: consecutive sequence numbers, each naming its
  predecessor's digest, each digest the hash of its own record; the active head is the last
  one, and its guard is intact.\<close>

theorem ledger_chain_invariant:
  assumes "ledger_reachable sha (l, dk, log)"
  shows "chain_from sha 0 None log \<and> al_head l = log_head log
    \<and> al_head_guard l = head_guard_digest sha (al_instance_id l) (al_head l)"
  using chain_inv_reachable [OF assms] by (simp add: chain_inv_def)

theorem ledger_chain_invariant_witness:
  "al_head example_ledger = \<lparr>lh_sequence = 0, lh_digest = None\<rparr>"
  using ledger_chain_invariant [OF example_reachable] by (simp add: log_head_def)

text \<open>A frozen ledger stays frozen and never advances: no later step changes its head or makes
  a record.\<close>

theorem frozen_is_final:
  assumes "ledger_step sha (l, dk, log) (l', dk', log')" and "al_frozen l"
  shows "al_frozen l' \<and> al_head l' = al_head l \<and> log' = log"
  using assms(1)
proof (cases rule: ledger_step_cases)
  case (step_record now rq l1 x)
  from step_record(2) show ?thesis
  proof (cases rule: safe_record_cases)
    case (made q r)
    then show ?thesis using advance_Inr(1) [OF made(3)] assms(2) by simp
  next
    case (frozen m)
    then show ?thesis using step_record(1) assms(2) by auto
  qed
next
  case (step_take l1)
  then show ?thesis using writer_steps_authority(1) [OF step_take(2)] assms(2) by (simp add: same_authority_def)
next
  case (step_project b l1 dk1)
  then show ?thesis using writer_steps_authority(2) [OF step_project(2)] assms(2) by (simp add: same_authority_def)
next
  case (step_head b l1 dk1)
  then show ?thesis using writer_steps_authority(3) [OF step_head(2)] assms(2) by (simp add: same_authority_def)
next
  case step_close
  then show ?thesis using writer_steps_authority(4) [of l] assms(2) by (simp add: same_authority_def)
qed simp

theorem frozen_is_final_witness:
  "al_frozen (close_ledger (freeze_authority ''x'' example_ledger))
   \<and> al_head (close_ledger (freeze_authority ''x'' example_ledger)) = al_head example_ledger"
proof -
  have "ledger_step zero_sha (freeze_authority ''x'' example_ledger, \<lparr>dk_files = [], dk_head = None\<rparr>, [])
     (close_ledger (freeze_authority ''x'' example_ledger), \<lparr>dk_files = [], dk_head = None\<rparr>, [])"
    by (rule step_close)
  from frozen_is_final [OF this] show ?thesis by simp
qed

text \<open>Recording is not held up by storage: on a reachable ledger that is not frozen, a valid
  request always makes a record and moves the head by one, however full the projection queue
  is and whether or not the ledger is closed.\<close>

theorem recording_succeeds:
  assumes "ledger_reachable sha (l, dk, log)" and "\<not> al_frozen l" and "\<And>b. digest_shape (sha b)"
  shows "\<exists>l' r. safe_record sha now (Inr rq) l = (l', Some r)
    \<and> lh_sequence (al_head l') = lh_sequence (al_head l) + 1 \<and> \<not> al_frozen l'"
proof -
  obtain l' r where a: "advance sha now rq l = (l', Inr r)"
    using advance_ready [OF assms(2) reachable_head_valid [OF assms(1,3)]] by blast
  then show ?thesis using advance_authority [OF a] assms(2) by (auto simp: safe_record_def)
qed

theorem recording_succeeds_witness:
  "\<exists>l' r. safe_record zero_sha ''now'' (Inr reserved_namespace_request) example_ledger = (l', Some r) \<and> \<not> al_frozen l'"
  using recording_succeeds [OF example_reachable example_unfrozen zero_sha_shape] by blast

text \<open>C33. The chain is tamper-evident: if two chains of float-free records, each correctly linked,
  end in the same digest, then either they have the same number of records with the same hashed
  contents, or the SHA-256 collision is in the chains themselves: seen from the ends, the first two
  records whose contents differ have the same digest.\<close>

theorem chain_tamper_evident:
  assumes "chain_from sha 0 None rs" and "chain_from sha 0 None rs'" and "rs \<noteq> []" and "rs' \<noteq> []"
    and "list_all plain_record rs" and "list_all plain_record rs'"
    and "ar_digest (last rs) = ar_digest (last rs')"
  shows "map record_content rs = map record_content rs' \<or> collides record_content sha rs rs'"
  using records.tamper_evident [OF chain_linked chain_linked] assms by blast

lemma example_chain:
  "chain_from zero_sha 0 None [next_record zero_sha now reserved_namespace_request example_ledger]
   \<and> plain_record (next_record zero_sha now reserved_namespace_request example_ledger)
   \<and> ar_digest (next_record zero_sha now reserved_namespace_request example_ledger) = zero_sha []"
proof -
  have "ar_digest (next_record zero_sha now reserved_namespace_request example_ledger)
      = zero_sha (record_content (next_record zero_sha now reserved_namespace_request example_ledger))"
    by (simp add: next_record_def Let_def record_content_def material_of_def digest_record_material_def)
  then show ?thesis
    by (simp add: zero_sha_def plain_record_def next_record_def Let_def example_ledger_def reserved_namespace_request_def)
qed

text \<open>With a digest that is always the same, two chains that were recorded at different times collide or agree.\<close>

theorem chain_tamper_evident_witness:
  "let rs = [next_record zero_sha ''now'' reserved_namespace_request example_ledger];
       rs' = [next_record zero_sha ''later'' reserved_namespace_request example_ledger]
   in map record_content rs = map record_content rs' \<or> collides record_content zero_sha rs rs'"
  unfolding Let_def by (rule chain_tamper_evident) (use example_chain in \<open>simp_all add: zero_sha_def\<close>)

end
