(* ===== verification/LedgerProjection.thy ===== *)
theory LedgerProjection
  imports LedgerChain
begin

text \<open>
  The disk projection of the ledger: what is pending, written and lost adds up, the advertised
  complete prefix is really on disk with the right bytes, the queue is bounded. The last part
  shows what \<open>first_lost_sequence\<close> does not promise.
\<close>

section \<open>The projection invariant\<close>

definition pending :: "authority_ledger \<Rightarrow> projection_request list" where
  "pending l = (case al_writer l of WriterProjecting pj \<Rightarrow> [pj] | _ \<Rightarrow> []) @ List.map_filter id (al_queue l)"

definition genuine :: "authority_record list \<Rightarrow> projection_request \<Rightarrow> bool" where
  "genuine log pj \<longleftrightarrow> 1 \<le> pj_sequence pj \<and> pj_sequence pj \<le> length log
     \<and> pj = request_of (log ! (pj_sequence pj - 1))"

definition projection_inv :: "ledger_world \<Rightarrow> bool" where
  "projection_inv w = (case w of (l, dk, log) \<Rightarrow>
     (\<forall>pj \<in> set (pending l) \<union> set (dk_files dk). genuine log pj)
     \<and> (al_projection_complete l \<longleftrightarrow> al_first_lost l = None)
     \<and> (al_first_lost l = None \<longrightarrow> map pj_sequence (pending l) = [al_complete_through l + 1 ..< length log + 1])
     \<and> (\<forall>s. 1 \<le> s \<and> s \<le> al_complete_through l \<longrightarrow> s \<in> pj_sequence ` set (dk_files dk))
     \<and> al_complete_through l \<le> length log
     \<and> length log = length (pending l) + length (dk_files dk) + al_lost_count l
     \<and> length (al_queue l) \<le> al_queue_capacity l)"

lemma map_filter_id_append: "List.map_filter id (xs @ ys) = List.map_filter id xs @ List.map_filter id ys"
  by (simp add: map_filter_def)

lemma map_filter_id_Cons [simp]:
  "List.map_filter id (Some x # xs) = x # List.map_filter id xs"
  "List.map_filter id (None # xs) = List.map_filter id xs"
  "List.map_filter id [] = []"
  by (simp_all add: map_filter_def)

lemma pending_cong: "al_writer l' = al_writer l \<Longrightarrow> al_queue l' = al_queue l \<Longrightarrow> pending l' = pending l"
  by (simp add: pending_def)

lemma pending_ensure_writer: "pending (ensure_writer l) = pending l"
  by (auto simp: pending_def ensure_writer_def writer_alive_def split: writer_state.split)

lemma pending_enqueue: "pending (l\<lparr>al_queue := al_queue l @ [Some pj]\<rparr>) = pending l @ [pj]"
  by (simp add: pending_def map_filter_id_append)

lemma pending_take: "writer_take l = Some l' \<Longrightarrow> pending l' = pending l"
  by (auto simp: writer_take_def pending_def split: writer_state.splits list.splits option.splits)

lemma pending_close: "pending (close_ledger l) = pending l"
  by (simp add: pending_def close_ledger_def Let_def map_filter_id_append)

lemma genuine_append: "genuine log pj \<Longrightarrow> genuine (log @ [r]) pj"
  by (auto simp: genuine_def nth_append)

lemma projection_inv_record:
  assumes inv: "projection_inv (l, dk, log)" and a: "advance sha now rq l = (l', Inr r)"
    and seq: "ar_sequence r = length log + 1"
  shows "projection_inv (l', dk, log @ [r])"
proof (cases "al_closed l \<or> length (al_queue l) \<ge> al_queue_capacity l")
  case True
  then have l': "l' = mark_projection_lost (ar_sequence r) (move_head sha r l)"
    using advance_Inr(4) [OF a] by simp
  have "pending l' = pending l" by (rule pending_cong) (simp_all add: l' move_head_fields)
  then show ?thesis
    using inv seq
    by (auto simp: projection_inv_def l' mark_projection_lost_def move_head_fields genuine_append min_def
        split: option.split)
next
  case False
  then have l': "l' = ensure_writer ((move_head sha r l)\<lparr>al_queue := al_queue l @ [Some (request_of r)]\<rparr>)"
    using advance_Inr(4) [OF a] by simp
  have "pending (move_head sha r l) = pending l" by (rule pending_cong) (simp_all add: move_head_fields)
  then have p: "pending l' = pending l @ [request_of r]"
    unfolding l' pending_ensure_writer using pending_enqueue [of "move_head sha r l" "request_of r"]
    by (simp add: move_head_fields)
  have g: "genuine (log @ [r]) (request_of r)" using seq by (simp add: genuine_def request_of_def)
  have s: "pj_sequence (request_of r) = length log + 1" using seq by (simp add: request_of_def)
  have q: "length (al_queue l') = length (al_queue l) + 1" "al_queue_capacity l' = al_queue_capacity l"
    "al_projection_complete l' = al_projection_complete l" "al_first_lost l' = al_first_lost l"
    "al_complete_through l' = al_complete_through l" "al_lost_count l' = al_lost_count l"
    by (simp_all add: l' move_head_fields)
  have cap: "length (al_queue l) + 1 \<le> al_queue_capacity l" using False by simp
  have ct: "al_complete_through l \<le> length log" using inv by (simp add: projection_inv_def)
  show ?thesis
    using inv p g s q cap ct unfolding projection_inv_def
    by (auto simp: genuine_append)
qed

lemma projection_inv_project:
  assumes inv: "projection_inv (l, dk, log)" and step: "project_record b (l, dk) = Some (l', dk')"
  shows "projection_inv (l', dk', log)"
proof -
  obtain pj where w: "al_writer l = WriterProjecting pj"
    using step by (auto simp: project_record_def split: writer_state.splits)
  define rest where "rest = List.map_filter id (al_queue l)"
  have p: "pending l = pj # rest" by (simp add: pending_def w rest_def)
  have first: "pj_sequence pj = al_complete_through l + 1 \<and> map pj_sequence rest = [al_complete_through l + 2 ..< length log + 1]"
    if "al_first_lost l = None"
  proof -
    have eq: "pj_sequence pj # map pj_sequence rest = [al_complete_through l + 1 ..< length log + 1]"
      using inv that p by (simp add: projection_inv_def)
    then have "al_complete_through l + 1 < length log + 1" by (metis list.distinct(1) upt_eq_Nil_conv leI)
    then have "[al_complete_through l + 1 ..< length log + 1]
        = (al_complete_through l + 1) # [al_complete_through l + 2 ..< length log + 1]"
      by (metis upt_conv_Cons add.assoc one_add_one Suc_eq_plus1)
    then show ?thesis using eq by (metis list.inject)
  qed
  have seqle: "1 \<le> pj_sequence pj" "pj_sequence pj \<le> length log"
    using inv p by (auto simp: projection_inv_def genuine_def)
  show ?thesis
  proof (cases b)
    case True
    then have l': "l' = (projected pj l)\<lparr>al_writer := WriterHeadDocument\<rparr>" and dk': "dk' = dk\<lparr>dk_files := pj # dk_files dk\<rparr>"
      using step w by (auto simp: project_record_def)
    have p': "pending l' = rest" by (simp add: l' pending_def projected_def rest_def)
    show ?thesis
    proof (cases "al_first_lost l")
      case None
      note f = first [OF None]
      have "al_complete_through l' = al_complete_through l + 1" "al_first_lost l' = None" "al_projection_complete l'"
        "al_lost_count l' = al_lost_count l" "al_queue l' = al_queue l" "al_queue_capacity l' = al_queue_capacity l"
        using None f by (simp_all add: l' projected_def)
      then show ?thesis
        using inv p p' f None seqle unfolding projection_inv_def dk' by (auto simp: le_Suc_eq)
    next
      case (Some f)
      have "al_complete_through l' = al_complete_through l \<or> al_complete_through l' = al_complete_through l + 1
            \<and> pj_sequence pj = al_complete_through l + 1"
        "al_first_lost l' = Some f" "\<not> al_projection_complete l'"
        "al_lost_count l' = al_lost_count l" "al_queue l' = al_queue l" "al_queue_capacity l' = al_queue_capacity l"
        using Some by (auto simp: l' projected_def)
      then show ?thesis
        using inv p p' Some seqle unfolding projection_inv_def dk' by (auto simp: le_Suc_eq)
    qed
  next
    case False
    then have l': "l' = (mark_projection_lost (pj_sequence pj) l)\<lparr>al_writer := WriterHeadDocument\<rparr>" and dk': "dk' = dk"
      using step w by (auto simp: project_record_def)
    have p': "pending l' = rest" by (simp add: l' pending_def mark_projection_lost_def rest_def)
    have "al_complete_through l' = al_complete_through l"
      using first by (auto simp: l' mark_projection_lost_def split: option.split)
    moreover have "al_first_lost l' \<noteq> None" "\<not> al_projection_complete l'" "al_lost_count l' = al_lost_count l + 1"
      "al_queue l' = al_queue l" "al_queue_capacity l' = al_queue_capacity l"
      by (auto simp: l' mark_projection_lost_def split: option.split)
    ultimately show ?thesis using inv p p' unfolding projection_inv_def dk' by auto
  qed
qed

lemma projection_inv_step:
  assumes "ledger_step sha w w'" and "projection_inv w" and "chain_inv sha w"
  shows "projection_inv w'"
proof -
  obtain l dk log where w: "w = (l, dk, log)" by (cases w)
  from assms(1) [unfolded w] show ?thesis
  proof (cases rule: ledger_step_cases)
    case (step_record now rq l' x)
    from step_record(2) show ?thesis
    proof (cases rule: safe_record_cases)
      case (made q r)
      have "ar_sequence r = length log + 1"
        using advance_Inr(3) [OF made(3)] assms(3) by (simp add: next_record_def Let_def chain_inv_def w log_head_def)
      then show ?thesis using projection_inv_record [OF _ made(3)] assms(2) step_record(1) made(2) by (simp add: w)
    next
      case (frozen m)
      have "pending l' = pending l" using frozen by (auto intro: pending_cong)
      then show ?thesis using frozen step_record(1) assms(2) by (auto simp: projection_inv_def w)
    qed
  next
    case (step_freeze reason)
    have "pending (freeze_authority reason l) = pending l" by (rule pending_cong) simp_all
    then show ?thesis using step_freeze assms(2) by (simp add: projection_inv_def w)
  next
    case (step_take l')
    have "length (al_queue l') \<le> length (al_queue l)" "al_queue_capacity l' = al_queue_capacity l"
      "al_projection_complete l' = al_projection_complete l" "al_first_lost l' = al_first_lost l"
      "al_complete_through l' = al_complete_through l" "al_lost_count l' = al_lost_count l"
      using step_take(2) by (auto simp: writer_take_def split: writer_state.splits list.splits option.splits)
    then show ?thesis using step_take assms(2) pending_take [OF step_take(2)] by (simp add: projection_inv_def w)
  next
    case (step_project b l' dk')
    then show ?thesis using projection_inv_project assms(2) by (simp add: w)
  next
    case (step_head b l' dk')
    then have "al_writer l = WriterHeadDocument" by (auto simp: write_projection_head_def split: if_splits)
    moreover have "al_writer l' = WriterWaiting" "al_queue l' = al_queue l" "al_queue_capacity l' = al_queue_capacity l"
      "al_projection_complete l' = al_projection_complete l" "al_first_lost l' = al_first_lost l"
      "al_complete_through l' = al_complete_through l" "al_lost_count l' = al_lost_count l"
      "dk_files dk' = dk_files dk"
      using step_head(2) by (auto simp: write_projection_head_def split: if_splits)
    ultimately show ?thesis using step_head(1) assms(2) by (simp add: projection_inv_def w pending_def)
  next
    case step_close
    have "length (al_queue (close_ledger l)) \<le> al_queue_capacity l" if "length (al_queue l) \<le> al_queue_capacity l"
      using that by (simp add: close_ledger_def Let_def)
    moreover have "al_queue_capacity (close_ledger l) = al_queue_capacity l"
      "al_projection_complete (close_ledger l) = al_projection_complete l" "al_first_lost (close_ledger l) = al_first_lost l"
      "al_complete_through (close_ledger l) = al_complete_through l" "al_lost_count (close_ledger l) = al_lost_count l"
      by (simp_all add: close_ledger_def Let_def)
    ultimately show ?thesis using step_close assms(2) by (simp add: projection_inv_def w pending_close)
  qed
qed

lemma projection_inv_reachable: "ledger_reachable sha w \<Longrightarrow> projection_inv w"
proof (induction rule: ledger_reachable.induct)
  case (reach_new rt lane cap inst l)
  then show ?case
    by (auto simp: new_ledger_def projection_inv_def pending_def Let_def split: if_splits)
next
  case (reach_step w w')
  then show ?case using projection_inv_step chain_inv_reachable by blast
qed

section \<open>Properties\<close>

text \<open>C34. The projection never overclaims: in every reachable state each sequence number up to
  \<open>complete_through_sequence\<close> is a file on disk, every file on disk is the exact encoding of
  the record with that number, and when no loss is reported the records not yet on disk are
  exactly the ones still pending, in order.\<close>

theorem projection_truthful:
  assumes "ledger_reachable sha (l, dk, log)"
  shows "(\<forall>s. 1 \<le> s \<and> s \<le> al_complete_through l \<longrightarrow>
        (\<exists>pj \<in> set (dk_files dk). pj_sequence pj = s \<and> pj_encoded pj = encoded_record (log ! (s - 1))))
    \<and> (\<forall>pj \<in> set (dk_files dk). pj = request_of (log ! (pj_sequence pj - 1)))
    \<and> (al_projection_complete l \<longrightarrow> map pj_sequence (pending l) = [al_complete_through l + 1 ..< length log + 1])"
proof -
  have inv: "projection_inv (l, dk, log)" by (rule projection_inv_reachable [OF assms])
  have "\<exists>pj \<in> set (dk_files dk). pj_sequence pj = s \<and> pj_encoded pj = encoded_record (log ! (s - 1))"
    if "1 \<le> s" "s \<le> al_complete_through l" for s
  proof -
    have "s \<in> pj_sequence ` set (dk_files dk)" using inv that by (simp add: projection_inv_def del: image_iff)
    then obtain pj where pj: "pj \<in> set (dk_files dk)" "pj_sequence pj = s" by blast
    then have "pj = request_of (log ! (s - 1))" using inv by (auto simp: projection_inv_def genuine_def)
    then show ?thesis using pj by (metis request_of_def projection_request.select_convs(3))
  qed
  then show ?thesis using inv by (auto simp: projection_inv_def genuine_def)
qed

theorem projection_truthful_witness:
  "map pj_sequence (pending example_ledger) = [al_complete_through example_ledger + 1 ..< 1]"
  using projection_truthful [OF example_reachable] by (simp add: example_ledger_def Let_def)

text \<open>Every record is accounted for: the number of records made is the number of files written
  plus the number pending plus the number counted as lost.\<close>

theorem projection_accounting:
  assumes "ledger_reachable sha (l, dk, log)"
  shows "length log = length (dk_files dk) + length (pending l) + al_lost_count l"
  using projection_inv_reachable [OF assms] by (simp add: projection_inv_def)

theorem projection_accounting_witness: "pending example_ledger = [] \<and> al_lost_count example_ledger = 0"
  using projection_accounting [OF example_reachable] by simp

lemma capacity_step:
  assumes "ledger_step sha (l, dk, log) (l', dk', log')"
  shows "al_queue_capacity l' = al_queue_capacity l"
  using assms
proof (cases rule: ledger_step_cases)
  case (step_record now rq l1 x)
  from step_record(2) show ?thesis
    by (cases rule: safe_record_cases) (use step_record(1) advance_authority(6) in auto)
qed (use writer_steps_authority in \<open>auto simp: same_authority_def\<close>)

lemma capacity_reachable: "ledger_reachable sha w \<Longrightarrow> al_queue_capacity (fst w) \<le> MAX_PROJECTION_QUEUE_CAPACITY"
proof (induction rule: ledger_reachable.induct)
  case (reach_new rt lane cap inst l)
  then show ?case by (auto simp: new_ledger_def Let_def split: if_splits)
next
  case (reach_step w w')
  then show ?case using capacity_step by (cases w; cases w') force
qed

text \<open>The projection queue never exceeds its capacity, which never exceeds 4096.\<close>

theorem projection_queue_bounded:
  assumes "ledger_reachable sha (l, dk, log)"
  shows "length (al_queue l) \<le> al_queue_capacity l \<and> al_queue_capacity l \<le> 4096"
  using projection_inv_reachable [OF assms] capacity_reachable [OF assms]
  by (simp add: projection_inv_def MAX_PROJECTION_QUEUE_CAPACITY_def)

theorem projection_queue_bounded_witness: "al_queue_capacity example_ledger \<le> 4096"
  using projection_queue_bounded [OF example_reachable] by simp

section \<open>The first loss\<close>

lemma record_step:
  assumes "ledger_reachable sha (l, dk, log)" and "\<not> al_frozen l" and "\<And>b. digest_shape (sha b)"
  obtains l' r where "ledger_reachable sha (l', dk, log @ [r])" "ar_sequence r = length log + 1" "\<not> al_frozen l'"
    "l' = (if al_closed l \<or> length (al_queue l) \<ge> al_queue_capacity l
      then mark_projection_lost (ar_sequence r) (move_head sha r l)
      else ensure_writer ((move_head sha r l)\<lparr>al_queue := al_queue l @ [Some (request_of r)]\<rparr>))"
proof -
  obtain l' r where a: "advance sha [] reserved_namespace_request l = (l', Inr r)"
    using advance_ready [OF assms(2) reachable_head_valid [OF assms(1,3)]] by blast
  have "safe_record sha [] (Inr reserved_namespace_request) l = (l', Some r)" using a by (simp add: safe_record_def)
  then have "ledger_reachable sha (l', dk, log @ [r])"
    using reach_step [OF assms(1) step_record] by fastforce
  moreover have "ar_sequence r = length log + 1"
    using advance_Inr(3) [OF a] chain_inv_reachable [OF assms(1)]
    by (simp add: next_record_def Let_def chain_inv_def log_head_def)
  moreover have "\<not> al_frozen l'" using advance_authority(7) [OF a] assms(2) by simp
  ultimately show thesis using that advance_Inr(4) [OF a] by blast
qed

text \<open>The advertised first and last lost sequences need not bound the losses: some run loses
  record 3 to a full queue and then record 2 to a failed write, after which the reported first
  loss is 3, the last loss is 2.\<close>

theorem first_lost_not_least:
  assumes "\<And>b. digest_shape (sha b)"
  shows "\<exists>l dk log. ledger_reachable sha (l, dk, log) \<and> al_first_lost l = Some 3 \<and> al_last_lost l = Some 2
    \<and> al_lost_count l = 2 \<and> length log = 3"
proof -
  let ?d = "\<lparr>dk_files = [], dk_head = None\<rparr>"
  obtain l0 where n: "new_ledger sha ''rt'' ''lane'' 1 ''i'' = Inr l0"
    by (simp add: new_ledger_def Let_def MAX_PROJECTION_QUEUE_CAPACITY_def py_strip_def py_rstrip_by_def py_lstrip_def py_isspace_def)
  then have l0: "al_queue l0 = []" "al_queue_capacity l0 = 1" "\<not> al_closed l0" "\<not> al_frozen l0"
    "al_writer l0 = WriterNotStarted" "al_first_lost l0 = None" "al_lost_count l0 = 0"
    by (auto simp: new_ledger_def Let_def split: if_splits)
  have r0: "ledger_reachable sha (l0, ?d, [])" by (rule reach_new [OF n])
  obtain l1 x1 where r1: "ledger_reachable sha (l1, ?d, [x1])" "ar_sequence x1 = 1" "\<not> al_frozen l1"
    "l1 = ensure_writer ((move_head sha x1 l0)\<lparr>al_queue := [Some (request_of x1)]\<rparr>)"
    by (rule record_step [OF r0 l0(4) assms]) (use l0 in auto)
  have f1: "al_queue l1 = [Some (request_of x1)]" "al_writer l1 = WriterWaiting" "al_queue_capacity l1 = 1"
    "\<not> al_closed l1" "al_first_lost l1 = None" "al_lost_count l1 = 0"
    using l0 r1(4) by (simp_all add: move_head_fields ensure_writer_def writer_alive_def)
  define l2 where "l2 = l1\<lparr>al_queue := [], al_writer := WriterProjecting (request_of x1)\<rparr>"
  have r2: "ledger_reachable sha (l2, ?d, [x1])"
    by (rule reach_step [OF r1(1) step_take]) (simp add: writer_take_def f1 l2_def)
  have f2: "al_queue l2 = []" "al_writer l2 = WriterProjecting (request_of x1)" "al_queue_capacity l2 = 1"
    "\<not> al_closed l2" "al_first_lost l2 = None" "\<not> al_frozen l2" "al_lost_count l2 = 0"
    using f1 r1 by (simp_all add: l2_def)
  obtain l3 x2 where r3: "ledger_reachable sha (l3, ?d, [x1, x2])" "ar_sequence x2 = 2" "\<not> al_frozen l3"
    "l3 = ensure_writer ((move_head sha x2 l2)\<lparr>al_queue := [Some (request_of x2)]\<rparr>)"
    by (rule record_step [OF r2 f2(6) assms]) (use f2 in auto)
  have f3: "al_queue l3 = [Some (request_of x2)]" "al_writer l3 = WriterProjecting (request_of x1)" "al_queue_capacity l3 = 1"
    "al_first_lost l3 = None" "al_lost_count l3 = 0"
    using f2 r3(4) by (simp_all add: move_head_fields ensure_writer_def writer_alive_def)
  obtain l4 x3 where r4: "ledger_reachable sha (l4, ?d, [x1, x2, x3])" "ar_sequence x3 = 3"
    "l4 = mark_projection_lost 3 (move_head sha x3 l3)"
    by (rule record_step [OF r3(1,3) assms]) (use f3 in \<open>auto simp: numeral_3_eq_3\<close>)
  have f4: "al_queue l4 = [Some (request_of x2)]" "al_writer l4 = WriterProjecting (request_of x1)" "al_first_lost l4 = Some 3"
    "al_lost_count l4 = 1"
    using f3 r4(3) by (simp_all add: move_head_fields mark_projection_lost_def)
  define l5 where "l5 = (projected (request_of x1) l4)\<lparr>al_writer := WriterHeadDocument\<rparr>"
  define d5 where "d5 = \<lparr>dk_files = [request_of x1], dk_head = None\<rparr>"
  have r5: "ledger_reachable sha (l5, d5, [x1, x2, x3])"
    by (rule reach_step [OF r4(1) step_project [where b = True]]) (simp add: project_record_def f4 l5_def d5_def)
  define l6 where "l6 = l5\<lparr>al_metadata_degraded := True, al_writer := WriterWaiting\<rparr>"
  have r6: "ledger_reachable sha (l6, d5, [x1, x2, x3])"
    by (rule reach_step [OF r5 step_head [where b = False]]) (simp add: write_projection_head_def l5_def l6_def)
  define l7 where "l7 = l6\<lparr>al_queue := [], al_writer := WriterProjecting (request_of x2)\<rparr>"
  have r7: "ledger_reachable sha (l7, d5, [x1, x2, x3])"
    by (rule reach_step [OF r6 step_take]) (simp add: writer_take_def l5_def l6_def l7_def projected_def f4)
  define l8 where "l8 = (mark_projection_lost 2 l7)\<lparr>al_writer := WriterHeadDocument\<rparr>"
  have "pj_sequence (request_of x2) = 2" using r3(2) by (simp add: request_of_def)
  then have r8: "ledger_reachable sha (l8, d5, [x1, x2, x3])"
    by (intro reach_step [OF r7 step_project [where b = False]]) (simp add: project_record_def l7_def l8_def)
  have "al_first_lost l8 = Some 3" "al_last_lost l8 = Some 2" "al_lost_count l8 = 2"
    by (simp_all add: l8_def l7_def l6_def l5_def projected_def mark_projection_lost_def f4)
  with r8 show ?thesis by (metis length_Cons list.size(3) numeral_3_eq_3)
qed

theorem first_lost_not_least_witness:
  "\<exists>l dk log. ledger_reachable zero_sha (l, dk, log) \<and> al_first_lost l = Some 3 \<and> al_last_lost l = Some 2
    \<and> al_lost_count l = 2 \<and> length log = 3"
  by (rule first_lost_not_least) (rule zero_sha_shape)

end
