(* ===== verification/StreamFilter.thy ===== *)
theory StreamFilter
  imports PyValue
begin

text \<open>
  The interface shared by the components that sit between the model and the client: each takes
  the text of a stream in pieces and returns what it releases, keeping the rest in its state.
  \<open>chunk_stream\<close> is the contract that the transport's splitting of the text does not matter,
  \<open>lossless_stream\<close> that text is only delayed, and \<open>stream_pipe\<close> that one such component may
  feed another. Here too is the bounded quarantine of \<open>jack_evidence_guard.py\<close>, the first that
  keeps the contracts.
\<close>

section \<open>Interfaces\<close>

text \<open>Feeding a list of pieces, collecting what is released.\<close>

fun feed_chunks :: "('s \<Rightarrow> 'a list \<Rightarrow> 'b list \<times> 's) \<Rightarrow> 's \<Rightarrow> 'a list list \<Rightarrow> 'b list \<times> 's" where
  "feed_chunks f s [] = ([], s)"
| "feed_chunks f s (x # xs) =
     (case f s x of (out, s') \<Rightarrow> case feed_chunks f s' xs of (outs, s'') \<Rightarrow> (out @ outs, s''))"

locale chunk_stream =
  fixes feed :: "'s \<Rightarrow> 'a list \<Rightarrow> 'b list \<times> 's"
    and ok :: "'s \<Rightarrow> bool"
  assumes ok_feed: "ok s \<Longrightarrow> ok (snd (feed s x))"
    and feed_Nil: "ok s \<Longrightarrow> feed s [] = ([], s)"
    and feed_append: "ok s \<Longrightarrow> feed s (x @ y) =
      (case feed s x of (out, s') \<Rightarrow> case feed s' y of (out', s'') \<Rightarrow> (out @ out', s''))"
begin

lemma feed_chunks_concat: "ok s \<Longrightarrow> feed_chunks feed s xs = feed s (concat xs)"
proof (induction xs arbitrary: s)
  case Nil
  then show ?case by (simp add: feed_Nil)
next
  case (Cons x xs)
  then have "ok (snd (feed s x))" by (simp add: ok_feed)
  from Cons.IH [OF this] Cons.prems show ?case by (cases "feed s x") (simp add: feed_append)
qed

lemma ok_feed_chunks: "ok s \<Longrightarrow> ok (snd (feed_chunks feed s xs))"
  by (simp add: feed_chunks_concat ok_feed)

lemma same_text: "ok s \<Longrightarrow> concat xs = concat ys \<Longrightarrow> feed_chunks feed s xs = feed_chunks feed s ys"
  by (simp add: feed_chunks_concat)

end

locale lossless_stream = chunk_stream feed ok
  for feed :: "'s \<Rightarrow> 'a list \<Rightarrow> 'a list \<times> 's" and ok +
  fixes held :: "'s \<Rightarrow> 'a list"
  assumes delayed_only: "ok s \<Longrightarrow> fst (feed s x) @ held (snd (feed s x)) = held s @ x"
begin

lemma chunks_delayed_only:
  assumes "ok s"
  shows "fst (feed_chunks feed s xs) @ held (snd (feed_chunks feed s xs)) = held s @ concat xs"
  using assms by (simp add: feed_chunks_concat delayed_only)

lemma released_prefix: "ok s \<Longrightarrow> prefix (fst (feed_chunks feed s xs)) (held s @ concat xs)"
  by (metis chunks_delayed_only prefixI)

end

definition pipe_feed ::
    "('s \<Rightarrow> 'a list \<Rightarrow> 'b list \<times> 's) \<Rightarrow> ('t \<Rightarrow> 'b list \<Rightarrow> 'c list \<times> 't) \<Rightarrow> 's \<times> 't \<Rightarrow> 'a list \<Rightarrow> 'c list \<times> 's \<times> 't" where
  "pipe_feed f g st x = (case st of (s, t) \<Rightarrow>
     (case f s x of (out, s') \<Rightarrow> case g t out of (out', t') \<Rightarrow> (out', s', t')))"

locale stream_pipe =
  up: chunk_stream feed ok + down: chunk_stream feed' ok'
  for feed :: "'s \<Rightarrow> 'a list \<Rightarrow> 'b list \<times> 's" and ok
    and feed' :: "'t \<Rightarrow> 'b list \<Rightarrow> 'c list \<times> 't" and ok'
begin

lemma pipe_chunk_stream: "chunk_stream (pipe_feed feed feed') (\<lambda>(s, t). ok s \<and> ok' t)"
proof
  show "(case snd (pipe_feed feed feed' st x) of (s, t) \<Rightarrow> ok s \<and> ok' t)"
    if "case st of (s, t) \<Rightarrow> ok s \<and> ok' t" for st x
    using that up.ok_feed [of "fst st" x] down.ok_feed [of "snd st" "fst (feed (fst st) x)"]
    by (cases st) (simp add: pipe_feed_def split_beta)
  show "pipe_feed feed feed' st [] = ([], st)"
    if "case st of (s, t) \<Rightarrow> ok s \<and> ok' t" for st
    using that by (cases st) (simp add: pipe_feed_def up.feed_Nil down.feed_Nil)
  show "pipe_feed feed feed' st (x @ y) =
      (case pipe_feed feed feed' st x of (out, st') \<Rightarrow>
        case pipe_feed feed feed' st' y of (out', st'') \<Rightarrow> (out @ out', st''))"
    if "case st of (s, t) \<Rightarrow> ok s \<and> ok' t" for st x y
    using that by (cases st) (simp add: pipe_feed_def up.feed_append down.feed_append split: prod.split)
qed

end

section \<open>Errors and texts\<close>

datatype stream_error = StreamTypeError string | StreamValueError string | StreamRuntimeError string

text \<open>\<open>"" if text is None else str(text)\<close>.\<close>

definition text_of :: "pyval \<Rightarrow> string" where
  "text_of v = (if v = PNone then [] else py_str v)"

lemma text_of_simps [simp]: "text_of PNone = []" "text_of (PStr s) = s"
  by (simp_all add: text_of_def)

text \<open>The check made on every window argument: an integer, and not a bool.\<close>

definition window_int :: "string \<Rightarrow> pyval \<Rightarrow> stream_error + int" where
  "window_int name v = (case v of
       PInt i \<Rightarrow> Inr i
     | _ \<Rightarrow> Inl (StreamTypeError (name @ '' must be an integer'')))"

section \<open>The bounded quarantine\<close>

record text_quarantine =
  tq_window_size :: nat
  tq_max_window :: nat
  tq_carry :: string

definition make_text_quarantine :: "pyval \<Rightarrow> pyval \<Rightarrow> stream_error + text_quarantine" where
  "make_text_quarantine window_size max_window =
     try_bind (window_int ''window_size'' window_size) (\<lambda>w.
     try_bind (window_int ''max_window'' max_window) (\<lambda>m.
       raise_if (m < 0) (StreamValueError ''max_window must be >= 0'')
       (raise_if (w < 0) (StreamValueError ''window_size must be >= 0'')
       (raise_if (w > m) (StreamValueError ''window_size must not exceed max_window'')
         (Inr \<lparr>tq_window_size = nat w, tq_max_window = nat m, tq_carry = []\<rparr>)))))"

definition quarantine_held_length :: "text_quarantine \<Rightarrow> nat" where
  "quarantine_held_length q = length (tq_carry q)"

definition quarantine_feed :: "text_quarantine \<Rightarrow> string \<Rightarrow> string \<times> text_quarantine" where
  "quarantine_feed q text =
     (let data = tq_carry q @ text in
      if data = [] then ([], q\<lparr>tq_carry := []\<rparr>)
      else if tq_window_size q = 0 then (data, q\<lparr>tq_carry := []\<rparr>)
      else if length data \<le> tq_window_size q then ([], q\<lparr>tq_carry := data\<rparr>)
      else (let release_length = length data - tq_window_size q
            in (take release_length data, q\<lparr>tq_carry := drop release_length data\<rparr>)))"

definition quarantine_flush :: "text_quarantine \<Rightarrow> string \<times> text_quarantine" where
  "quarantine_flush q = (tq_carry q, q\<lparr>tq_carry := []\<rparr>)"

lemma take_drop_split:
  assumes "n \<le> length d" and "n \<le> m"
  shows "take m (d @ y) = take n d @ take (m - n) (drop n d @ y)"
    and "drop m (d @ y) = drop (m - n) (drop n d @ y)"
proof -
  have "drop n d @ y = drop n (d @ y)" and "take n d = take n (d @ y)" using assms(1) by simp_all
  then show "take m (d @ y) = take n d @ take (m - n) (drop n d @ y)"
    and "drop m (d @ y) = drop (m - n) (drop n d @ y)"
    using take_add [of n "m - n" "d @ y"] assms(2) by (simp_all del: take_append drop_append)
qed

text \<open>What \<open>feed\<close> keeps: never more than the window.\<close>

definition quarantine_ok :: "text_quarantine \<Rightarrow> bool" where
  "quarantine_ok q = (length (tq_carry q) \<le> tq_window_size q)"

lemma quarantine_feed_split:
  "quarantine_feed q text =
     (let data = tq_carry q @ text; n = length data - tq_window_size q
      in (take n data, q\<lparr>tq_carry := drop n data\<rparr>))"
  by (simp add: quarantine_feed_def Let_def)

interpretation quarantine: lossless_stream quarantine_feed quarantine_ok tq_carry
proof
  show "quarantine_ok (snd (quarantine_feed q x))" if "quarantine_ok q" for q x
    by (simp add: quarantine_feed_split quarantine_ok_def Let_def)
  show "quarantine_feed q [] = ([], q)" if "quarantine_ok q" for q
    using that by (simp add: quarantine_feed_split quarantine_ok_def Let_def)
  show "quarantine_feed q (x @ y) = (case quarantine_feed q x of (out, q') \<Rightarrow>
      case quarantine_feed q' y of (out', q'') \<Rightarrow> (out @ out', q''))" if "quarantine_ok q" for q x y
  proof -
    let ?d = "tq_carry q @ x"
    let ?n = "length ?d - tq_window_size q" and ?m = "length (?d @ y) - tq_window_size q"
    have le: "?n \<le> length ?d" "?n \<le> ?m" by simp_all
    have len: "?m - ?n = length (drop ?n ?d @ y) - tq_window_size q" by simp
    show ?thesis
      using take_drop_split [OF le] unfolding len
      by (simp add: quarantine_feed_split Let_def del: take_append drop_append length_append flip: append_assoc)
  qed
  show "fst (quarantine_feed q x) @ tq_carry (snd (quarantine_feed q x)) = tq_carry q @ x" if "quarantine_ok q" for q x
    by (simp add: quarantine_feed_split Let_def del: take_append drop_append)
qed

lemma make_text_quarantine_ok: "make_text_quarantine w m = Inr q \<Longrightarrow> quarantine_ok q \<and> tq_carry q = []"
  by (auto simp: make_text_quarantine_def try_bind_Inr_iff raise_if_Inr_iff quarantine_ok_def)

end
