(* ===== verification/EvidenceMarker.thy ===== *)
theory EvidenceMarker
  imports StreamFilter
begin

text \<open>
  \<open>ReservedEvidenceMarkerFilter\<close> of \<open>jack_evidence_guard.py\<close>: model output may not open a tag of
  the kernel's own evidence namespace. A candidate starts at \<open><\<close> or \<open>&lt;\<close>; the filter holds
  back what may still become one, replaces what is one, and releases the rest. The lemmas show
  that splitting the text does not matter, that nothing released claims the namespace, and that
  text without a claim passes unchanged.

  Positions in a fragment are followed as the pair of the position and the text from there on.
\<close>

section \<open>The filter\<close>

definition BLOCKED_MARKER :: string where
  "BLOCKED_MARKER = ''[UNTRUSTED_MODEL_OUTPUT:JACK_TOOL_EVIDENCE_MARKER_BLOCKED]''"

definition RESERVED_TAG_NAME :: string where
  "RESERVED_TAG_NAME = ''jack_tool_evidence_receipt''"

definition PARTIAL_RESERVED_PREFIX :: string where
  "PARTIAL_RESERVED_PREFIX = ''jack_tool_evidence''"

datatype marker_status = MarkerSafe | MarkerHold | MarkerBlock

record marker_filter =
  mf_carry :: string

definition new_marker_filter :: marker_filter where
  "new_marker_filter = \<lparr>mf_carry = []\<rparr>"

text \<open>\<open>_skip_whitespace\<close>.\<close>

definition skip_whitespace :: "nat \<times> string \<Rightarrow> nat \<times> string" where
  "skip_whitespace p = (fst p + length (takeWhile py_isspace (snd p)), dropWhile py_isspace (snd p))"

text \<open>After the name: to the closing bracket, raw or escaped.\<close>

fun scan_close :: "bool \<Rightarrow> nat \<Rightarrow> string \<Rightarrow> marker_status \<times> nat" where
  "scan_close final n [] = (if final then (MarkerBlock, n) else (MarkerHold, 0))"
| "scan_close final n (c # s) =
     (if c = CHR ''>'' then (MarkerBlock, n + 1)
      else if starts_with ''&gt;'' (py_lower (c # s)) then (MarkerBlock, n + 4)
      else if starts_with (py_lower (c # s)) ''&gt;'' \<and> \<not> final then (MarkerHold, 0)
      else scan_close final (n + 1) s)"

text \<open>The name, whitespace allowed before each letter; \<open>matched\<close> letters have been read.\<close>

fun match_name :: "bool \<Rightarrow> nat \<Rightarrow> nat \<Rightarrow> nat \<Rightarrow> string \<Rightarrow> string \<Rightarrow> marker_status \<times> nat" where
  "match_name final delim matched n s [] = scan_close final n s"
| "match_name final delim matched n s (x # name) =
     (case skip_whitespace (n, s) of
        (n', []) \<Rightarrow>
          if \<not> final then (MarkerHold, 0)
          else if matched \<ge> length PARTIAL_RESERVED_PREFIX then (MarkerBlock, n') else (MarkerSafe, n')
      | (n', c # s') \<Rightarrow>
          if lower_char c \<noteq> x then (MarkerSafe, delim)
          else match_name final delim (matched + 1) (n' + 1) s' name)"

definition ended :: "bool \<Rightarrow> nat \<Rightarrow> marker_status \<times> nat" where
  "ended final n = (if \<not> final then (MarkerHold, 0) else (MarkerSafe, n))"

text \<open>After the opening delimiter of length \<open>delim\<close>.\<close>

definition classify_tag :: "bool \<Rightarrow> nat \<Rightarrow> string \<Rightarrow> marker_status \<times> nat" where
  "classify_tag final delim s =
     (case skip_whitespace (delim, s) of
        (n, []) \<Rightarrow> ended final n
      | (n, c # s') \<Rightarrow>
          if c = CHR ''/'' then
            (case skip_whitespace (n + 1, s') of
               (n', []) \<Rightarrow> ended final n'
             | (n', s'') \<Rightarrow> match_name final delim 0 n' s'' RESERVED_TAG_NAME)
          else match_name final delim 0 n (c # s') RESERVED_TAG_NAME)"

definition classify_candidate :: "string \<Rightarrow> bool \<Rightarrow> marker_status \<times> nat" where
  "classify_candidate fragment final =
     (if fragment = [] then (MarkerSafe, 0)
      else if starts_with ''<'' fragment then classify_tag final 1 (drop 1 fragment)
      else if starts_with ''&lt;'' (py_lower fragment) then classify_tag final 4 (drop 4 fragment)
      else if starts_with (py_lower fragment) ''&lt;'' then
        (if \<not> final then (MarkerHold, 0) else (MarkerSafe, length fragment))
      else (MarkerSafe, 1))"

definition opener :: "char \<Rightarrow> bool" where
  "opener c = (c = CHR ''<'' \<or> c = CHR ''&'')"

lemma scan_close_pos: "scan_close final n s = (MarkerBlock, m) \<Longrightarrow> n \<le> m"
  by (induction final n s rule: scan_close.induct) (auto split: if_splits)

lemma match_name_pos: "match_name final delim k n s name = (MarkerBlock, m) \<Longrightarrow> n \<le> m"
  by (induction final delim k n s name rule: match_name.induct)
     (fastforce dest: scan_close_pos simp: skip_whitespace_def split: prod.splits list.splits if_splits)+

lemma classify_pos: "classify_candidate s final = (MarkerBlock, m) \<Longrightarrow> 0 < m"
  by (auto simp: classify_candidate_def classify_tag_def ended_def skip_whitespace_def
      dest!: match_name_pos split: prod.splits list.splits if_splits)

lemma drop_rest_shorter: "dropWhile p data \<noteq> [] \<Longrightarrow> 0 < n \<Longrightarrow> length (drop n (dropWhile p data)) < length data"
  using length_dropWhile_le [of p data] by (cases "dropWhile p data") auto

text \<open>The loop of \<open>feed\<close>: what is released, and what is kept.\<close>

function scan_markers :: "string \<Rightarrow> string \<times> string" where
  "scan_markers data =
     (if dropWhile (\<lambda>c. \<not> opener c) data = [] then (data, [])
      else
        (let plain = takeWhile (\<lambda>c. \<not> opener c) data; rest = dropWhile (\<lambda>c. \<not> opener c) data
         in case classify_candidate rest False of
              (MarkerHold, _) \<Rightarrow> (plain, rest)
            | (MarkerBlock, consumed) \<Rightarrow>
                (case scan_markers (drop consumed rest) of (out, carry) \<Rightarrow> (plain @ BLOCKED_MARKER @ out, carry))
            | (MarkerSafe, consumed) \<Rightarrow>
                (let release = max 1 consumed
                 in case scan_markers (drop release rest) of
                      (out, carry) \<Rightarrow> (plain @ take release rest @ out, carry))))"
  by pat_completeness auto

termination
  by (relation "measure length") (simp_all add: drop_rest_shorter classify_pos del: length_drop)

declare scan_markers.simps [simp del]

definition marker_feed :: "marker_filter \<Rightarrow> string \<Rightarrow> string \<times> marker_filter" where
  "marker_feed f text =
     (case scan_markers (mf_carry f @ text) of (out, carry) \<Rightarrow> (out, f\<lparr>mf_carry := carry\<rparr>))"

definition marker_flush :: "marker_filter \<Rightarrow> string \<times> marker_filter" where
  "marker_flush f =
     (let tail = mf_carry f in
      (if tail = [] then []
       else case classify_candidate tail True of
              (MarkerBlock, consumed) \<Rightarrow> BLOCKED_MARKER @ drop consumed tail
            | _ \<Rightarrow> tail,
       f\<lparr>mf_carry := []\<rparr>))"

text \<open>\<open>sanitize_model_text\<close>.\<close>

definition sanitize_text :: "string \<Rightarrow> string" where
  "sanitize_text s = (case marker_feed new_marker_filter s of (out, f) \<Rightarrow> out @ fst (marker_flush f))"

definition sanitize_model_text :: "pyval \<Rightarrow> pyval" where
  "sanitize_model_text v = (case v of PStr s \<Rightarrow> PStr (sanitize_text s) | _ \<Rightarrow> v)"

section \<open>Splitting the text does not matter\<close>

lemma starts_with_appendD: "starts_with p (u @ v) \<Longrightarrow> starts_with p u \<or> starts_with u p"
  by (auto simp: starts_with_prefix prefix_append)

lemma starts_with_append_leftD: "starts_with (u @ v) p \<Longrightarrow> starts_with u p"
  by (auto simp: starts_with_prefix dest: append_prefixD)

lemma starts_with_mono: "starts_with p u \<Longrightarrow> starts_with p (u @ v)"
  by (auto simp: starts_with_prefix prefix_append)

lemma skip_append:
  assumes "skip_whitespace (n, s) = (n', c # s')"
  shows "skip_whitespace (n, s @ y) = (n', c # s' @ y)"
proof -
  have d: "dropWhile py_isspace s = c # s'" using assms by (simp add: skip_whitespace_def)
  then have "\<exists>x \<in> set s. \<not> py_isspace x" by (metis dropWhile_eq_Nil_conv list.distinct(1))
  then show ?thesis using assms d by (auto simp: skip_whitespace_def dropWhile_append1 takeWhile_append1)
qed

lemma snd_skip: "snd (skip_whitespace p) = dropWhile py_isspace (snd p)"
  by (simp add: skip_whitespace_def)

lemma scan_close_mono: "scan_close False n s = (MarkerBlock, m) \<Longrightarrow> scan_close False n (s @ y) = (MarkerBlock, m)"
proof (induction False n s rule: scan_close.induct)
  case (2 n c s)
  then show ?case
    using starts_with_appendD [of "''&gt;''" "py_lower (c # s)" "py_lower y"]
      starts_with_mono [of "''&gt;''" "py_lower (c # s)" "py_lower y"]
      starts_with_append_leftD [of "py_lower (c # s)" "py_lower y" "''&gt;''"]
    by (auto simp flip: py_lower_append split: if_splits)
qed simp

lemma scan_close_not_safe: "scan_close final n s \<noteq> (MarkerSafe, m)"
  by (induction final n s rule: scan_close.induct) auto

lemma match_name_mono:
  "match_name False delim k n s name = (st, m) \<Longrightarrow> st \<noteq> MarkerHold
    \<Longrightarrow> match_name False delim k n (s @ y) name = (st, m)"
proof (induction False delim k n s name rule: match_name.induct)
  case (1 delim k n s)
  then show ?case using scan_close_mono scan_close_not_safe by (cases st) auto
next
  case (2 delim k n s x name)
  obtain n' r where sk: "skip_whitespace (n, s) = (n', r)" by fastforce
  show ?case
  proof (cases r)
    case Nil
    then show ?thesis using 2 sk by simp
  next
    case (Cons c s')
    with sk have "skip_whitespace (n, s @ y) = (n', c # s' @ y)" by (simp add: skip_append)
    then show ?thesis using 2 sk Cons by (cases "lower_char c = x") simp_all
  qed
qed

lemma classify_tag_mono:
  assumes "classify_tag False delim s = (st, m)" and "st \<noteq> MarkerHold"
  shows "classify_tag False delim (s @ y) = (st, m)"
proof -
  obtain n r where sk: "skip_whitespace (delim, s) = (n, r)" by fastforce
  show ?thesis
  proof (cases r)
    case Nil
    then show ?thesis using assms sk by (auto simp: classify_tag_def ended_def)
  next
    case (Cons c s')
    with sk have sk1: "skip_whitespace (delim, s @ y) = (n, c # s' @ y)" by (simp add: skip_append)
    obtain n' r' where sk2: "skip_whitespace (n + 1, s') = (n', r')" by fastforce
    have "skip_whitespace (n + 1, s' @ y) = (n', c' # s'' @ y)" if "r' = c' # s''" for c' s''
      using that sk2 by (simp add: skip_append)
    then show ?thesis
      using assms sk sk1 sk2 Cons match_name_mono [of delim 0 n "c # s'" RESERVED_TAG_NAME st m y]
        match_name_mono [of delim 0 n' r' RESERVED_TAG_NAME st m y]
      by (cases "c = CHR ''/''"; cases r') (auto simp: classify_tag_def ended_def)
  qed
qed

text \<open>A verdict that is not \<open>hold\<close> is not changed by what follows.\<close>

lemma classify_mono:
  assumes "classify_candidate s False = (st, m)" and "st \<noteq> MarkerHold" and "s \<noteq> []"
  shows "classify_candidate (s @ y) False = (st, m)"
proof -
  consider "starts_with ''<'' s" | "\<not> starts_with ''<'' s" "starts_with ''&lt;'' (py_lower s)"
    | "\<not> starts_with ''<'' s" "\<not> starts_with ''&lt;'' (py_lower s)" by blast
  then show ?thesis
  proof cases
    case 1
    then have "starts_with ''<'' (s @ y)" by (rule starts_with_mono)
    with 1 show ?thesis
      using assms classify_tag_mono [of 1 "drop 1 s" st m y]
      by (cases s) (auto simp: classify_candidate_def)
  next
    case 2
    then have "4 \<le> length s" by (auto simp: starts_with_prefix dest!: prefix_length_le)
    moreover have "\<not> starts_with ''<'' (s @ y)" using 2 assms(3) by (cases s) (auto simp: starts_with_def)
    ultimately show ?thesis
      using 2 assms classify_tag_mono [of 4 "drop 4 s" st m y]
      by (simp add: classify_candidate_def starts_with_mono)
  next
    case 3
    then have nh: "\<not> starts_with (py_lower s) ''&lt;''" using assms by (auto simp: classify_candidate_def)
    have "\<not> starts_with ''<'' (s @ y)" using 3 assms(3) by (cases s) (auto simp: starts_with_def)
    moreover have "\<not> starts_with ''&lt;'' (py_lower (s @ y))"
      using 3 nh starts_with_appendD by (metis py_lower_append)
    moreover have "\<not> starts_with (py_lower (s @ y)) ''&lt;''"
      using nh starts_with_append_leftD by (metis py_lower_append)
    ultimately show ?thesis using 3 nh assms by (auto simp: classify_candidate_def)
  qed
qed

lemma skip_bound: "skip_whitespace (n, s) = (n', r) \<Longrightarrow> n' + length r = n + length s"
proof -
  assume "skip_whitespace (n, s) = (n', r)"
  moreover have "length (takeWhile py_isspace s) + length (dropWhile py_isspace s) = length s"
    by (metis length_append takeWhile_dropWhile_id)
  ultimately show ?thesis by (auto simp: skip_whitespace_def)
qed

lemma scan_close_bound: "scan_close final n s = (MarkerBlock, m) \<Longrightarrow> m \<le> n + length s"
  by (induction final n s rule: scan_close.induct)
     (auto simp: starts_with_prefix dest: prefix_length_le split: if_splits)

lemma match_name_bound: "match_name final delim k n s name = (MarkerBlock, m) \<Longrightarrow> m \<le> n + length s"
proof (induction final delim k n s name rule: match_name.induct)
  case (1 final delim k n s)
  then show ?case by (simp add: scan_close_bound)
next
  case (2 final delim k n s x name)
  obtain n' r where sk: "skip_whitespace (n, s) = (n', r)" by fastforce
  show ?case
  proof (cases r)
    case Nil
    then show ?thesis using 2(2) sk skip_bound [OF sk] by (auto split: if_splits)
  next
    case (Cons c s')
    with 2(2) sk have "match_name final delim (k + 1) (n' + 1) s' name = (MarkerBlock, m)" by (auto split: if_splits)
    then show ?thesis using 2(1) [OF sk [symmetric] Cons] 2(2) sk Cons skip_bound [OF sk] by (fastforce split: if_splits)
  qed
qed

lemma classify_block_bound:
  assumes "classify_candidate s final = (MarkerBlock, m)"
  shows "m \<le> length s"
proof -
  have tag: "m \<le> delim + length t" if "classify_tag final delim t = (MarkerBlock, m)" for delim t
    using that by (auto simp: classify_tag_def ended_def dest!: match_name_bound skip_bound split: prod.splits list.splits if_splits)
  from assms have "4 \<le> length s" if "starts_with ''&lt;'' (py_lower s)"
    using that by (auto simp: starts_with_prefix dest: prefix_length_le)
  moreover have "1 \<le> length s" if "starts_with ''<'' s" using that by (cases s) auto
  ultimately show ?thesis
    using assms tag [of 1 "drop 1 s"] tag [of 4 "drop 4 s"] by (auto simp: classify_candidate_def split: if_splits)
qed

text \<open>One turn of the loop, by cases.\<close>

lemma classify_nonempty_bounds:
  "classify_candidate s False = (MarkerSafe, n) \<Longrightarrow> s \<noteq> [] \<Longrightarrow> n = 1 \<or> n = 4 \<and> starts_with ''&lt;'' (py_lower s)"
proof -
  assume a: "classify_candidate s False = (MarkerSafe, n)" "s \<noteq> []"
  have name: "match_name False delim k p t name = (MarkerSafe, m) \<Longrightarrow> m = delim" for delim k p t name m
    by (induction False delim k p t name rule: match_name.induct)
       (auto simp: scan_close_not_safe split: prod.splits list.splits if_splits)
  have "classify_tag False delim t = (MarkerSafe, m) \<Longrightarrow> m = delim" for delim t m
    by (auto simp: classify_tag_def ended_def dest: name split: prod.splits list.splits if_splits)
  then show ?thesis using a by (auto simp: classify_candidate_def split: if_splits)
qed

lemma scan_cases:
  obtains (plain) "\<forall>c \<in> set d. \<not> opener c" "scan_markers d = (d, [])"
  | (hold) p r where "d = p @ r" "\<forall>c \<in> set p. \<not> opener c" "r \<noteq> []" "opener (hd r)"
      "fst (classify_candidate r False) = MarkerHold" "scan_markers d = (p, r)"
  | (block) p r n where "d = p @ r" "\<forall>c \<in> set p. \<not> opener c" "r \<noteq> []" "opener (hd r)"
      "classify_candidate r False = (MarkerBlock, n)" "length (drop n r) < length d"
      "scan_markers d = (p @ BLOCKED_MARKER @ fst (scan_markers (drop n r)), snd (scan_markers (drop n r)))"
  | (safe) p r n where "d = p @ r" "\<forall>c \<in> set p. \<not> opener c" "r \<noteq> []" "opener (hd r)" "n \<le> length r" "0 < n"
      "classify_candidate r False = (MarkerSafe, n)" "length (drop n r) < length d"
      "scan_markers d = (p @ take n r @ fst (scan_markers (drop n r)), snd (scan_markers (drop n r)))"
proof (cases "dropWhile (\<lambda>c. \<not> opener c) d = []")
  case True
  then show ?thesis using plain by (simp add: scan_markers.simps)
next
  case False
  define p r where pr: "p = takeWhile (\<lambda>c. \<not> opener c) d" "r = dropWhile (\<lambda>c. \<not> opener c) d"
  have r: "d = p @ r" "\<forall>c \<in> set p. \<not> opener c" "r \<noteq> []" "opener (hd r)"
    using False hd_dropWhile [OF False] by (simp_all add: pr) (auto dest: set_takeWhileD)
  have u: "scan_markers d = (case classify_candidate r False of
              (MarkerHold, _) \<Rightarrow> (p, r)
            | (MarkerBlock, consumed) \<Rightarrow>
                (case scan_markers (drop consumed r) of (out, carry) \<Rightarrow> (p @ BLOCKED_MARKER @ out, carry))
            | (MarkerSafe, consumed) \<Rightarrow>
                (let release = max 1 consumed
                 in case scan_markers (drop release r) of
                      (out, carry) \<Rightarrow> (p @ take release r @ out, carry)))"
    unfolding scan_markers.simps [of d] pr using False by (simp only: if_False Let_def)
  obtain st n where cl: "classify_candidate r False = (st, n)" by fastforce
  show ?thesis
  proof (cases st)
    case MarkerHold
    then show ?thesis using hold [OF r] u cl by simp
  next
    case MarkerBlock
    with cl have "0 < n" by (simp add: classify_pos)
    then have "length (drop n r) < length d" using r(1,3) by (cases r) auto
    then show ?thesis using block [OF r] u cl MarkerBlock by (simp add: split_beta)
  next
    case MarkerSafe
    with cl r(3) have n: "n = 1 \<or> n = 4 \<and> starts_with ''&lt;'' (py_lower r)" using classify_nonempty_bounds [of r n] by simp
    then have "n \<le> length r" "0 < n" "max 1 n = n"
      using r(3) by (cases r; auto simp: starts_with_prefix dest!: prefix_length_le)+
    moreover from this have "length (drop n r) < length d" using r(1,3) by (cases r) auto
    ultimately show ?thesis using safe [OF r] u cl MarkerSafe by (simp add: split_beta Let_def)
  qed
qed

lemma scan_plain:
  "\<forall>c \<in> set d. \<not> opener c \<Longrightarrow> scan_markers (d @ y) = (d @ fst (scan_markers y), snd (scan_markers y))"
proof -
  assume "\<forall>c \<in> set d. \<not> opener c"
  then have "takeWhile (\<lambda>c. \<not> opener c) (d @ y) = d @ takeWhile (\<lambda>c. \<not> opener c) y"
    "dropWhile (\<lambda>c. \<not> opener c) (d @ y) = dropWhile (\<lambda>c. \<not> opener c) y" by (simp_all add: takeWhile_append2 dropWhile_append2)
  then show ?thesis
    by (simp add: scan_markers.simps [of "d @ y"] scan_markers.simps [of y] Let_def split_beta
        del: dropWhile_eq_Nil_conv split: marker_status.split)
qed

lemma scan_unfold:
  assumes "r \<noteq> []" and "opener (hd r)"
  shows "scan_markers r = (case classify_candidate r False of
      (MarkerHold, _) \<Rightarrow> ([], r)
    | (MarkerBlock, n) \<Rightarrow> (BLOCKED_MARKER @ fst (scan_markers (drop n r)), snd (scan_markers (drop n r)))
    | (MarkerSafe, n) \<Rightarrow> (take (max 1 n) r @ fst (scan_markers (drop (max 1 n) r)), snd (scan_markers (drop (max 1 n) r))))"
  using assms by (subst scan_markers.simps) (cases r; simp add: Let_def split_beta split: marker_status.split)

lemma scan_append:
  "scan_markers (d @ y) =
     (fst (scan_markers d) @ fst (scan_markers (snd (scan_markers d) @ y)), snd (scan_markers (snd (scan_markers d) @ y)))"
proof (induction d rule: measure_induct_rule [of length])
  case (less d)
  show ?case
  proof (cases rule: scan_cases [of d])
    case plain
    then show ?thesis by (simp add: scan_plain)
  next
    case (hold p r)
    then show ?thesis by (simp add: scan_plain)
  next
    case (block p r n)
    then have "scan_markers (r @ y) = (BLOCKED_MARKER @ fst (scan_markers (drop n (r @ y))), snd (scan_markers (drop n (r @ y))))"
      using classify_mono [OF block(5)] by (subst scan_unfold) simp_all
    moreover have "n \<le> length r" by (rule classify_block_bound [OF block(5)])
    ultimately show ?thesis using block less.IH [OF block(6)] by (simp add: scan_plain)
  next
    case (safe p r n)
    then have "scan_markers (r @ y) = (take n (r @ y) @ fst (scan_markers (drop n (r @ y))), snd (scan_markers (drop n (r @ y))))"
      using classify_mono [OF safe(7)] by (subst scan_unfold) (simp_all add: max_def)
    then show ?thesis using safe less.IH [OF safe(8)] by (simp add: scan_plain)
  qed
qed

lemma carry_held: "scan_markers (snd (scan_markers d)) = ([], snd (scan_markers d))"
proof (induction d rule: measure_induct_rule [of length])
  case (less d)
  show ?case
  proof (cases rule: scan_cases [of d])
    case plain
    then show ?thesis by (simp add: scan_markers.simps)
  next
    case (hold p r)
    then show ?thesis using scan_unfold [OF hold(3,4)] by (simp split: prod.splits marker_status.splits)
  next
    case (block p r n)
    then show ?thesis using less.IH [OF block(6)] by simp
  next
    case (safe p r n)
    then show ?thesis using less.IH [OF safe(8)] by simp
  qed
qed

text \<open>Between pieces the carry is text that is held as it stands.\<close>

definition marker_ok :: "marker_filter \<Rightarrow> bool" where
  "marker_ok f = (scan_markers (mf_carry f) = ([], mf_carry f))"

interpretation markers: chunk_stream marker_feed marker_ok
proof
  show "marker_ok (snd (marker_feed f x))" if "marker_ok f" for f x
    using carry_held by (simp add: marker_feed_def marker_ok_def split_beta)
  show "marker_feed f [] = ([], f)" if "marker_ok f" for f
    using that by (simp add: marker_feed_def marker_ok_def)
  show "marker_feed f (x @ y) = (case marker_feed f x of (out, f') \<Rightarrow>
      case marker_feed f' y of (out', f'') \<Rightarrow> (out @ out', f''))" if "marker_ok f" for f x y
    using scan_append [of "mf_carry f @ x" y] by (simp add: marker_feed_def split_beta)
qed

interpretation release_pipe: stream_pipe marker_feed marker_ok quarantine_feed quarantine_ok ..

lemma new_marker_ok [simp]: "marker_ok new_marker_filter"
  by (simp add: marker_ok_def new_marker_filter_def scan_markers.simps)

section \<open>What is released claims nothing\<close>

text \<open>The name is read, or enough of it before the text ends.\<close>

fun reads_name :: "nat \<Rightarrow> string \<Rightarrow> string \<Rightarrow> bool" where
  "reads_name k s [] = True"
| "reads_name k s (x # name) =
     (case dropWhile py_isspace s of
        [] \<Rightarrow> length PARTIAL_RESERVED_PREFIX \<le> k
      | c # s' \<Rightarrow> lower_char c = x \<and> reads_name (k + 1) s' name)"

definition reads_tag :: "string \<Rightarrow> bool" where
  "reads_tag s = (case dropWhile py_isspace s of
       [] \<Rightarrow> False
     | c # s' \<Rightarrow> reads_name 0 (if c = CHR ''/'' then s' else c # s') RESERVED_TAG_NAME)"

text \<open>A text that claims the namespace at its start.\<close>

definition claims_namespace :: "string \<Rightarrow> bool" where
  "claims_namespace s =
     (starts_with ''<'' s \<and> reads_tag (drop 1 s) \<or> starts_with ''&lt;'' (py_lower s) \<and> reads_tag (drop 4 s))"

definition claims_nowhere :: "string \<Rightarrow> bool" where
  "claims_nowhere s = (\<forall>i. \<not> claims_namespace (drop i s))"

lemma scan_close_final: "fst (scan_close True n s) = MarkerBlock"
  by (induction True n s rule: scan_close.induct) auto

lemma match_name_final: "fst (match_name True delim k n s name) = MarkerBlock \<longleftrightarrow> reads_name k s name"
proof (induction name arbitrary: k n s)
  case Nil
  then show ?case by (simp add: scan_close_final)
next
  case (Cons x name)
  then show ?case
    by (cases "dropWhile py_isspace s") (simp_all add: skip_whitespace_def del: dropWhile_eq_Nil_conv)
qed

lemma reads_name_skip: "reads_name k (dropWhile py_isspace s) name = reads_name k s name"
  by (cases name) (simp_all add: dropWhile_idem)

lemma match_name_final_skipped:
  "fst (match_name True delim k n (dropWhile py_isspace s) name) = MarkerBlock \<longleftrightarrow> reads_name k s name"
  by (simp add: match_name_final reads_name_skip)

lemma reads_name_blank: "dropWhile py_isspace t = [] \<Longrightarrow> \<not> reads_name 0 t RESERVED_TAG_NAME"
  by (simp add: RESERVED_TAG_NAME_def PARTIAL_RESERVED_PREFIX_def del: dropWhile_eq_Nil_conv)

lemma classify_tag_final: "fst (classify_tag True delim s) = MarkerBlock \<longleftrightarrow> reads_tag s"
proof (cases "dropWhile py_isspace s")
  case Nil
  then show ?thesis
    by (simp add: classify_tag_def reads_tag_def skip_whitespace_def ended_def del: dropWhile_eq_Nil_conv)
next
  case (Cons c s')
  show ?thesis
    using Cons reads_name_blank [of s'] match_name_final_skipped [of delim 0 _ s' RESERVED_TAG_NAME]
    by (cases "dropWhile py_isspace s'")
       (auto simp: classify_tag_def reads_tag_def skip_whitespace_def ended_def match_name_final
         simp del: dropWhile_eq_Nil_conv)
qed

lemma claims_iff: "claims_namespace s \<longleftrightarrow> fst (classify_candidate s True) = MarkerBlock"
proof -
  have "\<not> starts_with ''&lt;'' (py_lower s)" if "starts_with ''<'' s"
    using that by (cases s) (auto simp: starts_with_def py_lower_def lower_char_def)
  then show ?thesis
    by (auto simp: claims_namespace_def classify_candidate_def classify_tag_final starts_with_def py_lower_def)
qed

text \<open>The end of the stream does not change a verdict other than \<open>hold\<close>.\<close>

lemma scan_close_final_agrees:
  "scan_close False n s = (MarkerBlock, m) \<Longrightarrow> scan_close True n s = (MarkerBlock, m)"
  by (induction False n s rule: scan_close.induct) (auto split: if_splits)

lemma match_name_final_agrees:
  "match_name False delim k n s name = (st, m) \<Longrightarrow> st \<noteq> MarkerHold
    \<Longrightarrow> match_name True delim k n s name = (st, m)"
proof (induction name arbitrary: k n s)
  case Nil
  then show ?case using scan_close_final_agrees scan_close_not_safe by (cases st) auto
next
  case (Cons x name)
  obtain n' r where sk: "skip_whitespace (n, s) = (n', r)" by fastforce
  show ?case using Cons sk by (cases r) (auto split: if_splits)
qed

lemma classify_final_agrees:
  assumes "classify_candidate s False = (st, m)" and "st \<noteq> MarkerHold"
  shows "classify_candidate s True = (st, m)"
proof -
  have "classify_tag True delim t = (st, m)" if "classify_tag False delim t = (st, m)" for delim t
    using that assms(2)
    by (auto simp: classify_tag_def ended_def match_name_final_agrees split: prod.splits list.splits if_splits)
  then show ?thesis using assms by (auto simp: classify_candidate_def split: if_splits)
qed

lemma opener_lower [simp]: "opener (lower_char c) = opener c"
  by (cases c) (auto simp: opener_def lower_char_code)

lemma lower_char_bracket [simp]: "lower_char c = CHR ''['' \<longleftrightarrow> c = CHR ''[''"
  by (cases c) (auto simp: lower_char_code)

text \<open>What is held and not blocked at the end has no second opener.\<close>

lemma hold_name_plain:
  "fst (match_name False delim k n s name) = MarkerHold \<Longrightarrow> \<not> reads_name k s name
    \<Longrightarrow> \<forall>x \<in> set name. \<not> opener x \<Longrightarrow> \<forall>c \<in> set s. \<not> opener c"
proof (induction name arbitrary: k n s)
  case (Cons x name)
  have space: "\<forall>c \<in> set (takeWhile py_isspace s). \<not> opener c"
    by (auto simp: opener_def py_isspace_def dest!: set_takeWhileD)
  obtain n' r where sk: "skip_whitespace (n, s) = (n', r)" "dropWhile py_isspace s = r"
    by (simp add: skip_whitespace_def)
  have s: "set s = set (takeWhile py_isspace s) \<union> set r"
    using sk(2) by (metis set_append takeWhile_dropWhile_id)
  show ?case
  proof (cases r)
    case Nil
    then show ?thesis using s space by simp
  next
    case (Cons c s')
    then have c: "lower_char c = x" "fst (match_name False delim (k + 1) (n' + 1) s' name) = MarkerHold"
      using Cons.prems(1) sk(1) by (auto split: if_splits)
    moreover have nr: "\<not> reads_name (k + 1) s' name" using Cons.prems(2) c(1) sk(2) Cons by simp
    have "\<forall>c \<in> set s'. \<not> opener c" using Cons.IH [OF c(2) nr] Cons.prems(3) by simp
    moreover have "\<not> opener c" using c(1) Cons.prems(3) opener_lower [of c] by simp
    ultimately show ?thesis using s space Cons by auto
  qed
qed simp

lemma reserved_name_plain: "\<forall>x \<in> set RESERVED_TAG_NAME. \<not> opener x \<and> x \<noteq> CHR ''[''"
  by (simp add: RESERVED_TAG_NAME_def opener_def)

lemma hold_tag_plain:
  assumes "fst (classify_tag False delim s) = MarkerHold" and "\<not> reads_tag s"
  shows "\<forall>c \<in> set s. \<not> opener c"
proof -
  have space: "\<forall>c \<in> set (takeWhile py_isspace t). \<not> opener c" for t
    by (auto simp: opener_def py_isspace_def dest!: set_takeWhileD)
  have split: "set t = set (takeWhile py_isspace t) \<union> set (dropWhile py_isspace t)" for t
    by (metis set_append takeWhile_dropWhile_id)
  have name: "\<forall>c \<in> set t. \<not> opener c"
    if "fst (match_name False delim k n t RESERVED_TAG_NAME) = MarkerHold" "\<not> reads_name k t RESERVED_TAG_NAME" for k n t
    using hold_name_plain [OF that] reserved_name_plain by simp
  show ?thesis
  proof (cases "dropWhile py_isspace s")
    case Nil
    then have "set s = set (takeWhile py_isspace s)" using split [of s] by (simp del: dropWhile_eq_Nil_conv)
    then show ?thesis using space [of s] by (simp only:)
  next
    case (Cons c s')
    have slash: "\<not> opener (CHR ''/'')" by (simp add: opener_def)
    show ?thesis
    proof (cases "c = CHR ''/''")
      case False
      then show ?thesis
        using assms Cons name [of 0 _ "c # s'"] space [of s] split [of s]
        by (auto simp: classify_tag_def reads_tag_def skip_whitespace_def)
    next
      case True
      then have "fst (case dropWhile py_isspace s' of [] \<Rightarrow> (MarkerHold, 0)
          | x # xs \<Rightarrow> match_name False delim 0 (delim + length (takeWhile py_isspace s) + 1 + length (takeWhile py_isspace s'))
              (x # xs) RESERVED_TAG_NAME) = MarkerHold" and nr: "\<not> reads_name 0 s' RESERVED_TAG_NAME"
        using assms Cons
        by (auto simp: classify_tag_def reads_tag_def skip_whitespace_def ended_def simp del: dropWhile_eq_Nil_conv
            split: list.splits)
      then have "\<forall>c \<in> set (dropWhile py_isspace s'). \<not> opener c"
        using name [of 0 _ "dropWhile py_isspace s'"] nr reads_name_skip [of 0 s' RESERVED_TAG_NAME]
        by (cases "dropWhile py_isspace s'") (simp_all del: dropWhile_eq_Nil_conv)
      then show ?thesis using True Cons space [of s] space [of s'] split [of s] split [of s'] slash by auto
    qed
  qed
qed

lemma hold_plain:
  assumes "fst (classify_candidate r False) = MarkerHold" and "\<not> claims_namespace r"
  shows "\<forall>c \<in> set (tl r). \<not> opener c"
proof -
  have esc: "\<forall>c \<in> set (tl u). \<not> opener c" if "starts_with (py_lower u) ''&lt;''" for u
  proof -
    from that have "py_lower u \<in> {[], ''&'', ''&l'', ''&lt'', ''&lt;''}"
      by (auto simp: starts_with_prefix prefix_Cons)
    moreover have "set (tl u) \<subseteq> {c. lower_char c \<in> set (tl (py_lower u))}" by (cases u) (auto simp: py_lower_def)
    ultimately show ?thesis by (auto simp: opener_def lower_char_def)
  qed
  consider "starts_with ''<'' r" | "\<not> starts_with ''<'' r" "starts_with ''&lt;'' (py_lower r)"
    | "\<not> starts_with ''<'' r" "\<not> starts_with ''&lt;'' (py_lower r)" by blast
  then show ?thesis
  proof cases
    case 1
    then show ?thesis using assms hold_tag_plain [of 1 "drop 1 r"] 
      by (cases r) (auto simp: classify_candidate_def claims_namespace_def)
  next
    case 2
    then have "fst (classify_tag False 4 (drop 4 r)) = MarkerHold" "\<not> reads_tag (drop 4 r)"
      using assms by (auto simp: classify_candidate_def claims_namespace_def split: if_splits)
    then have "\<forall>c \<in> set (drop 4 r). \<not> opener c" by (rule hold_tag_plain)
    moreover have "py_lower (take 4 r) = ''&lt;''"
      using 2 by (simp add: starts_with_def py_lower_def take_map eval_nat_numeral)
    then have "\<forall>c \<in> set (tl (take 4 r)). \<not> opener c" by (intro esc) simp
    moreover have "set (tl r) \<subseteq> set (tl (take 4 r)) \<union> set (drop 4 r)"
      by (cases r) (auto, metis Un_iff append_take_drop_id set_append)
    ultimately show ?thesis by blast
  next
    case 3
    then show ?thesis using assms esc [of r] by (auto simp: classify_candidate_def split: if_splits)
  qed
qed

text \<open>What is held and then blocked at the end is blocked to its last character.\<close>

lemma scan_close_run: "\<forall>c \<in> set s. c \<noteq> CHR ''>'' \<and> c \<noteq> CHR ''&'' \<Longrightarrow> scan_close True n s = (MarkerBlock, n + length s)"
proof (induction s arbitrary: n)
  case (Cons c s)
  then have "\<not> starts_with ''&gt;'' (py_lower (c # s))"
    by (cases c) (auto simp: starts_with_def py_lower_def lower_char_code)
  with Cons show ?case by simp
qed simp

lemma scan_close_hold_all:
  "fst (scan_close False n s) = MarkerHold \<Longrightarrow> scan_close True n s = (MarkerBlock, n + length s)"
proof (induction s arbitrary: n)
  case (Cons c s)
  show ?case
  proof (cases "starts_with (py_lower (c # s)) ''&gt;''")
    case True
    then have "py_lower (c # s) \<in> {''&'', ''&g'', ''&gt'', ''&gt;''}"
      by (auto simp: starts_with_prefix prefix_Cons py_lower_def)
    then have "set (py_lower s) \<subseteq> {CHR ''g'', CHR ''t'', CHR '';''}" by (auto simp: py_lower_def)
    then have "\<forall>c \<in> set s. c \<noteq> CHR ''>'' \<and> c \<noteq> CHR ''&''" by (auto simp: py_lower_def lower_char_code)
    then have "scan_close True (n + 1) s = (MarkerBlock, n + 1 + length s)" by (rule scan_close_run)
    then show ?thesis using Cons.prems by (auto split: if_splits)
  next
    case False
    then show ?thesis using Cons by (auto split: if_splits)
  qed
qed simp

lemma match_name_hold_all:
  "fst (match_name False delim k n s name) = MarkerHold \<Longrightarrow> match_name True delim k n s name = (MarkerBlock, m)
    \<Longrightarrow> m = n + length s"
proof (induction name arbitrary: k n s)
  case Nil
  then show ?case using scan_close_hold_all by simp
next
  case (Cons x name)
  obtain n' r where sk: "skip_whitespace (n, s) = (n', r)" by fastforce
  show ?case
  proof (cases r)
    case Nil
    then show ?thesis using Cons.prems sk skip_bound [OF sk] by (auto split: if_splits)
  next
    case (Cons c s')
    then have "fst (match_name False delim (k + 1) (n' + 1) s' name) = MarkerHold"
      "match_name True delim (k + 1) (n' + 1) s' name = (MarkerBlock, m)"
      using Cons.prems sk by (auto split: if_splits)
    then have "m = n' + 1 + length s'" by (rule Cons.IH)
    then show ?thesis using Cons skip_bound [OF sk] by simp
  qed
qed

lemma hold_block_all:
  assumes "fst (classify_candidate r False) = MarkerHold" and "classify_candidate r True = (MarkerBlock, m)"
  shows "m = length r"
proof -
  have tag: "m = delim + length t"
    if "fst (classify_tag False delim t) = MarkerHold" "classify_tag True delim t = (MarkerBlock, m)" for delim t
  proof -
    obtain n u where sk: "skip_whitespace (delim, t) = (n, u)" by fastforce
    obtain n' u' where sk': "skip_whitespace (n + 1, tl u) = (n', u')" by fastforce
    show ?thesis
      using that sk sk' skip_bound [OF sk] skip_bound [OF sk'] match_name_hold_all [of delim 0 n u RESERVED_TAG_NAME m]
        match_name_hold_all [of delim 0 n' u' RESERVED_TAG_NAME m]
      by (cases u; cases u'; cases "hd u = CHR ''/''") (auto simp: classify_tag_def ended_def)
  qed
  have four: "4 \<le> length r" if "starts_with ''&lt;'' (py_lower r)"
    using that by (auto simp: starts_with_prefix dest: prefix_length_le)
  have one: "1 \<le> length r" if "starts_with ''<'' r" using that by (cases r) auto
  consider "starts_with ''<'' r" | "\<not> starts_with ''<'' r" "starts_with ''&lt;'' (py_lower r)"
    | "\<not> starts_with ''<'' r" "\<not> starts_with ''&lt;'' (py_lower r)" by blast
  then show ?thesis
  proof cases
    case 1
    then have "classify_candidate r f = classify_tag f 1 (drop 1 r)" for f by (auto simp: classify_candidate_def)
    then have "m = 1 + length (drop 1 r)" using assms by (intro tag) simp_all
    then show ?thesis using one [OF 1] by simp
  next
    case 2
    then have "r \<noteq> []" by (auto simp: py_lower_def)
    with 2 have "classify_candidate r f = classify_tag f 4 (drop 4 r)" for f by (simp add: classify_candidate_def)
    then have "m = 4 + length (drop 4 r)" using assms by (intro tag) simp_all
    then show ?thesis using four [OF 2(2)] by simp
  next
    case 3
    then show ?thesis using assms by (auto simp: classify_candidate_def split: if_splits)
  qed
qed

section \<open>The sanitised text\<close>

lemma sanitize_eq: "sanitize_text d = fst (scan_markers d) @ fst (marker_flush \<lparr>mf_carry = snd (scan_markers d)\<rparr>)"
  by (simp add: sanitize_text_def marker_feed_def new_marker_filter_def split_beta)

lemma sanitize_cases:
  obtains (untouched) "\<forall>c \<in> set d. \<not> opener c" "sanitize_text d = d"
  | (held) p r where "d = p @ r" "\<forall>c \<in> set p. \<not> opener c" "r \<noteq> []" "opener (hd r)" "\<not> claims_namespace r"
      "\<forall>c \<in> set (tl r). \<not> opener c" "sanitize_text d = d"
  | (blocked) p r n where "d = p @ r" "\<forall>c \<in> set p. \<not> opener c" "r \<noteq> []" "opener (hd r)" "claims_namespace r"
      "length (drop n r) < length d" "sanitize_text d = p @ BLOCKED_MARKER @ sanitize_text (drop n r)"
  | (released) p r n where "d = p @ r" "\<forall>c \<in> set p. \<not> opener c" "r \<noteq> []" "opener (hd r)" "\<not> claims_namespace r"
      "n = 1 \<or> n = 4 \<and> starts_with ''&lt;'' (py_lower r)" "n \<le> length r" "length (drop n r) < length d"
      "sanitize_text d = p @ take n r @ sanitize_text (drop n r)"
proof (cases rule: scan_cases [of d])
  case plain
  then show ?thesis using untouched by (simp add: sanitize_eq marker_flush_def)
next
  case (hold p r)
  have cl: "claims_namespace r \<longleftrightarrow> fst (classify_candidate r True) = MarkerBlock" by (rule claims_iff)
  show ?thesis
  proof (cases "claims_namespace r")
    case False
    then have "sanitize_text d = p @ r" using hold cl
      by (simp add: sanitize_eq marker_flush_def split_beta split: marker_status.split prod.split)
    with False show ?thesis using held [OF hold(1-4) _ hold_plain [OF hold(5)]] hold(1) by simp
  next
    case True
    then obtain n where n: "classify_candidate r True = (MarkerBlock, n)" using cl by (metis prod.collapse)
    then have "sanitize_text d = p @ BLOCKED_MARKER @ drop n r" "0 < n"
      using hold by (simp_all add: sanitize_eq marker_flush_def Let_def classify_pos)
    moreover have "drop n r = []" using hold_block_all [OF hold(5) n] by simp
    ultimately show ?thesis
      using blocked [OF hold(1-4) True, of n] hold(1,3) by (simp add: sanitize_eq marker_flush_def scan_markers.simps [of "[]"])
  qed
next
  case (block p r n)
  then have "claims_namespace r" using classify_final_agrees [OF block(5)] by (simp add: claims_iff)
  then show ?thesis using blocked [OF block(1-4) _ block(6)] block by (simp add: sanitize_eq)
next
  case (safe p r n)
  then have "\<not> claims_namespace r" using classify_final_agrees [OF safe(7)] by (simp add: claims_iff)
  moreover have "n = 1 \<or> n = 4 \<and> starts_with ''&lt;'' (py_lower r)"
    using classify_nonempty_bounds [OF safe(7,3)] .
  ultimately show ?thesis using released [OF safe(1-4) _ _ safe(5,8)] safe by (simp add: sanitize_eq)
qed

text \<open>The output follows the input up to the next opener, and has there the opener or the
  bracket of the replacement text.\<close>

fun follows :: "string \<Rightarrow> string \<Rightarrow> bool" where
  "follows [] e = (e = [])"
| "follows (c # d) e =
     (case e of
        [] \<Rightarrow> False
      | g # e' \<Rightarrow> if opener c then g = c \<or> g = CHR ''['' else g = c \<and> follows d e')"

lemma follows_plain: "\<forall>c \<in> set p. \<not> opener c \<Longrightarrow> follows (p @ r) (p @ e) = follows r e"
  by (induction p) auto

lemma follows_opener: "r \<noteq> [] \<Longrightarrow> opener (hd r) \<Longrightarrow> follows r e \<longleftrightarrow> e \<noteq> [] \<and> (hd e = hd r \<or> hd e = CHR ''['')"
  by (cases r; cases e) auto

lemma follows_refl: "follows d d"
  by (induction d) auto

lemma follows_sanitize: "follows d (sanitize_text d)"
proof (cases rule: sanitize_cases [of d])
  case untouched
  then show ?thesis by (simp add: follows_refl)
next
  case (held p r)
  then show ?thesis by (simp add: follows_refl)
next
  case (blocked p r n)
  then show ?thesis by (simp add: follows_plain follows_opener BLOCKED_MARKER_def)
next
  case (released p r n)
  then show ?thesis by (cases r) (auto simp: follows_plain follows_opener)
qed

lemma follows_skip: "follows d e \<Longrightarrow> follows (dropWhile py_isspace d) (dropWhile py_isspace e)"
proof (induction d arbitrary: e)
  case (Cons c d)
  have "\<not> py_isspace c \<and> \<not> py_isspace (CHR ''['')" if "opener c"
    using that by (auto simp: opener_def py_isspace_def)
  with Cons show ?case by (cases e) (auto split: if_splits)
qed simp

lemma reads_follows:
  "follows d e \<Longrightarrow> reads_name k e name \<Longrightarrow> \<forall>x \<in> set name. \<not> opener x \<and> x \<noteq> CHR ''['' \<Longrightarrow> reads_name k d name"
proof (induction name arbitrary: k d e)
  case (Cons x name)
  have sk: "follows (dropWhile py_isspace d) (dropWhile py_isspace e)" by (rule follows_skip [OF Cons.prems(1)])
  show ?case
  proof (cases "dropWhile py_isspace d")
    case Nil
    then show ?thesis using sk Cons.prems(2) by (simp del: dropWhile_eq_Nil_conv)
  next
    case (Cons c d')
    with sk obtain g e' where e: "dropWhile py_isspace e = g # e'" by (auto split: list.splits)
    have g: "lower_char g = x" "reads_name (k + 1) e' name" using Cons.prems(2) e by simp_all
    have "\<not> opener g" "g \<noteq> CHR ''[''"
      using g(1) Cons.prems(3) opener_lower [of g] lower_char_bracket [of g] by auto
    then have "g = c" "follows d' e'" using sk Cons e by (auto split: if_splits)
    then show ?thesis using Cons.IH [OF _ g(2), of d'] Cons.prems(3) Cons g(1) by simp
  qed
qed simp

lemma follows_Cons_plain:
  "follows d (g # e) \<Longrightarrow> \<not> opener g \<Longrightarrow> g \<noteq> CHR ''['' \<Longrightarrow> \<exists>d'. d = g # d' \<and> follows d' e"
  by (cases d) (simp_all split: if_splits)

lemma reads_tag_follows: "follows d e \<Longrightarrow> reads_tag e \<Longrightarrow> reads_tag d"
proof -
  assume f: "follows d e" and r: "reads_tag e"
  have sk: "follows (dropWhile py_isspace d) (dropWhile py_isspace e)" by (rule follows_skip [OF f])
  obtain g e' where e: "dropWhile py_isspace e = g # e'" using r by (auto simp: reads_tag_def split: list.splits)
  then obtain c d' where d: "dropWhile py_isspace d = c # d'" using sk by (cases "dropWhile py_isspace d") auto
  have nb: "g \<noteq> CHR ''['' \<and> \<not> opener g"
  proof (cases "g = CHR ''/''")
    case False
    have "\<not> py_isspace g" using hd_dropWhile [of py_isspace e] e by simp
    moreover have "reads_name 0 (g # e') RESERVED_TAG_NAME" using False r e by (simp add: reads_tag_def)
    ultimately have "lower_char g = CHR ''j''" by (simp add: RESERVED_TAG_NAME_def)
    then show ?thesis using opener_lower [of g] lower_char_bracket [of g] by (simp add: opener_def)
  qed (simp add: opener_def)
  have gc: "g = c \<and> follows d' e'"
    using sk nb unfolding d e by (cases "opener c") simp_all
  have "follows (if c = CHR ''/'' then d' else c # d') (if g = CHR ''/'' then e' else g # e')"
    using gc sk d e by auto
  moreover have "reads_name 0 (if g = CHR ''/'' then e' else g # e') RESERVED_TAG_NAME"
    using r e by (simp add: reads_tag_def)
  ultimately have "reads_name 0 (if c = CHR ''/'' then d' else c # d') RESERVED_TAG_NAME"
    using reserved_name_plain by (rule reads_follows)
  then show "reads_tag d" using d by (simp add: reads_tag_def)
qed

lemma starts_follows:
  "follows d e \<Longrightarrow> starts_with w (py_lower e) \<Longrightarrow> \<forall>x \<in> set w. \<not> opener x \<and> x \<noteq> CHR ''['' \<Longrightarrow> starts_with w (py_lower d)"
proof (induction w arbitrary: d e)
  case (Cons x w)
  then obtain g e' where e: "e = g # e'" "lower_char g = x" "starts_with w (py_lower e')"
    by (cases e) (auto simp: starts_with_def py_lower_def)
  then have "\<not> opener g" "g \<noteq> CHR ''[''"
    using Cons.prems(3) opener_lower [of g] lower_char_bracket [of g] by simp_all
  then obtain d' where "d = g # d'" "follows d' e'" using follows_Cons_plain Cons.prems(1) e(1) by blast
  then show ?case using Cons.IH [of d' e'] Cons.prems(3) e by (simp add: starts_with_def py_lower_def)
qed simp

lemma follows_drop: "follows d e \<Longrightarrow> \<forall>c \<in> set (take k d). \<not> opener c \<Longrightarrow> follows (drop k d) (drop k e)"
proof (induction k arbitrary: d e)
  case (Suc k)
  then show ?case by (cases d; cases e) auto
qed simp

lemma claims_released:
  assumes "r \<noteq> []" and "opener (hd r)" and "n = 1 \<or> n = 4 \<and> starts_with ''&lt;'' (py_lower r)"
    and "n \<le> length r" and f: "follows (drop n r) e" and c: "claims_namespace (take n r @ e)"
  shows "claims_namespace r"
proof (cases "hd r = CHR ''<''")
  case True
  then have lt: "starts_with ''<'' r" "\<not> starts_with ''&lt;'' (py_lower r)"
    using assms(1) by (cases r; simp add: starts_with_def py_lower_def lower_char_def)+
  then have "n = 1" "take n r = ''<''" using assms(1,3) True by (cases r; auto)+
  then have "reads_tag e" using c by (auto simp: claims_namespace_def starts_with_def py_lower_def lower_char_def)
  then have "reads_tag (drop 1 r)" using f \<open>n = 1\<close> reads_tag_follows by blast
  then show ?thesis using lt by (simp add: claims_namespace_def)
next
  case False
  then have hd: "hd r = CHR ''&''" using assms(2) by (simp add: opener_def)
  have "\<not> starts_with ''<'' (take n r @ e)" using hd assms(1,3) by (cases r) (auto simp: starts_with_def)
  then have cl: "starts_with ''&lt;'' (py_lower (take n r @ e))" "reads_tag (drop 4 (take n r @ e))"
    using c by (auto simp: claims_namespace_def)
  from assms(3) show ?thesis
  proof
    assume n: "n = 1"
    obtain r' where r: "r = CHR ''&'' # r'" using hd assms(1) by (cases r) auto
    have f': "follows r' e" using f n r by simp
    have "starts_with ''lt;'' (py_lower e)" using cl(1) n r by (simp add: starts_with_def py_lower_def)
    then have st: "starts_with ''lt;'' (py_lower r')"
      by (rule starts_follows [OF f']) (simp add: opener_def)
    then have "py_lower (take 3 r') = ''lt;''" by (simp add: starts_with_def py_lower_def take_map eval_nat_numeral)
    then have "lower_char ` set (take 3 r') = set ''lt;''" by (metis list.set_map py_lower_def)
    then have "lower_char c \<in> set ''lt;''" if "c \<in> set (take 3 r')" for c using that by blast
    moreover have "\<not> opener x" if "x \<in> set ''lt;''" for x using that by (auto simp: opener_def)
    ultimately have "\<forall>c \<in> set (take 3 r'). \<not> opener c" by (metis opener_lower)
    then have "follows (drop 3 r') (drop 3 e)" by (rule follows_drop [OF f'])
    moreover have "reads_tag (drop 3 e)" using cl(2) n r by simp
    ultimately have "reads_tag (drop 4 r)" using r reads_tag_follows by auto
    moreover have "starts_with ''&lt;'' (py_lower r)"
      using st r by (simp add: starts_with_def py_lower_def lower_char_def)
    ultimately show ?thesis by (simp add: claims_namespace_def)
  next
    assume n: "n = 4 \<and> starts_with ''&lt;'' (py_lower r)"
    then have "drop 4 (take n r @ e) = e" using assms(4) by simp
    then show ?thesis using n cl(2) f reads_tag_follows by (auto simp: claims_namespace_def)
  qed
qed

lemma claims_opener: "claims_namespace s \<Longrightarrow> s \<noteq> [] \<and> opener (hd s)"
proof -
  assume "claims_namespace s"
  then have "starts_with ''<'' s \<or> starts_with ''&lt;'' (py_lower s)" by (auto simp: claims_namespace_def)
  moreover have "opener c" if "lower_char c = CHR ''&''" for c
    using opener_lower [of c] that by (simp add: opener_def)
  ultimately show ?thesis by (cases s) (auto simp: starts_with_def py_lower_def opener_def)
qed

lemma claims_nowhere_Cons: "claims_nowhere (c # s) \<longleftrightarrow> \<not> claims_namespace (c # s) \<and> claims_nowhere s"
  unfolding claims_nowhere_def by (metis drop0 drop_Suc_Cons not0_implies_Suc)

lemma claims_nowhere_plain: "\<forall>c \<in> set p. \<not> opener c \<Longrightarrow> claims_nowhere (p @ s) = claims_nowhere s"
  by (induction p) (auto simp: claims_nowhere_Cons dest: claims_opener)

lemma claims_nowhere_Nil: "claims_nowhere []"
  using claims_opener by (auto simp: claims_nowhere_def)

lemma claims_nowhere_all_plain: "\<forall>c \<in> set p. \<not> opener c \<Longrightarrow> claims_nowhere p"
  using claims_nowhere_plain [of p "[]"] claims_nowhere_Nil by simp

lemma blocked_marker_plain: "\<forall>c \<in> set BLOCKED_MARKER. \<not> opener c"
  by (simp add: BLOCKED_MARKER_def opener_def)

lemma escape_tail_plain:
  assumes "starts_with ''&lt;'' (py_lower r)"
  shows "\<forall>c \<in> set (tl (take 4 r)). \<not> opener c"
proof -
  have "py_lower (take 4 r) = ''&lt;''"
    using assms by (simp add: starts_with_def py_lower_def take_map eval_nat_numeral)
  then have "lower_char ` set (tl (take 4 r)) = set ''lt;''" by (cases "take 4 r") (auto simp: py_lower_def)
  then have "lower_char c \<in> set ''lt;''" if "c \<in> set (tl (take 4 r))" for c using that by blast
  moreover have "\<not> opener x" if "x \<in> set ''lt;''" for x using that by (auto simp: opener_def)
  ultimately show ?thesis by (metis opener_lower)
qed

lemma sanitized_claims_nowhere: "claims_nowhere (sanitize_text d)"
proof (induction d rule: measure_induct_rule [of length])
  case (less d)
  show ?case
  proof (cases rule: sanitize_cases [of d])
    case untouched
    then show ?thesis by (simp add: claims_nowhere_all_plain)
  next
    case (held p r)
    then show ?thesis
      by (cases r) (simp_all add: claims_nowhere_plain claims_nowhere_Cons claims_nowhere_all_plain)
  next
    case (blocked p r n)
    then show ?thesis using less.IH [OF blocked(6)] blocked_marker_plain by (simp add: claims_nowhere_plain)
  next
    case (released p r n)
    let ?e = "sanitize_text (drop n r)"
    have c: "\<not> claims_namespace (take n r @ ?e)"
      using claims_released [OF released(3,4,6,7) follows_sanitize] released(5) by blast
    obtain x xs where x: "take n r = x # xs" "\<forall>c \<in> set xs. \<not> opener c"
    proof -
      from released(6) have "take n r \<noteq> [] \<and> (\<forall>c \<in> set (tl (take n r)). \<not> opener c)"
        using released(3) escape_tail_plain by (cases r) auto
      then show thesis using that by (cases "take n r") auto
    qed
    have "claims_nowhere ?e" by (rule less.IH [OF released(8)])
    then have "claims_nowhere (take n r @ ?e)" using c x by (simp add: claims_nowhere_Cons claims_nowhere_plain)
    then show ?thesis using released by (simp add: claims_nowhere_plain)
  qed
qed

lemma claims_nowhere_drop: "claims_nowhere s \<Longrightarrow> claims_nowhere (drop n s)"
  by (simp add: claims_nowhere_def)

lemma sanitize_unclaimed: "claims_nowhere d \<Longrightarrow> sanitize_text d = d"
proof (induction d rule: measure_induct_rule [of length])
  case (less d)
  show ?case
  proof (cases rule: sanitize_cases [of d])
    case (blocked p r n)
    then have "claims_nowhere r" using less.prems by (simp add: claims_nowhere_plain)
    then show ?thesis using blocked(5) unfolding claims_nowhere_def by (metis drop0)
  next
    case (released p r n)
    then have "claims_nowhere (drop n r)" using less.prems by (simp add: claims_nowhere_plain claims_nowhere_drop)
    then show ?thesis using less.IH [OF released(8)] released by simp
  qed simp_all
qed

section \<open>Properties\<close>

text \<open>Nothing that passes the reserved-marker filter claims the kernel's evidence namespace: at
  no position does the sanitised text open a tag, raw or escaped, in any case, with or without
  whitespace between its letters, closed or cut off, whose name is the reserved one; and a text
  that claims it nowhere passes unchanged.\<close>

theorem sanitized_never_claims:
  "claims_nowhere (sanitize_text s) \<and> (claims_nowhere s \<longrightarrow> sanitize_text s = s)"
  by (simp add: sanitized_claims_nowhere sanitize_unclaimed)

theorem sanitized_never_claims_witness:
  "sanitize_text ''a < Jack_Tool_ Evidence_receipt > b'' = ''a '' @ BLOCKED_MARKER @ '' b''
   \<and> sanitize_text ''a <b> &amp; c'' = ''a <b> &amp; c''"
proof -
  have "claims_nowhere ''a <b> &amp; c''"
    by (simp add: claims_nowhere_Cons claims_nowhere_Nil) code_simp
  then have "sanitize_text ''a <b> &amp; c'' = ''a <b> &amp; c''" using sanitized_never_claims by blast
  moreover have "sanitize_text ''a < Jack_Tool_ Evidence_receipt > b'' = ''a '' @ BLOCKED_MARKER @ '' b''" by code_simp
  ultimately show ?thesis by blast
qed

text \<open>The transport's splitting of the text does not matter to the filter: feeding the pieces
  and flushing releases exactly the sanitised text of the whole.\<close>

theorem marker_chunking_irrelevant:
  "feed_chunks marker_feed new_marker_filter pieces = (out, f)
    \<Longrightarrow> out @ fst (marker_flush f) = sanitize_text (concat pieces)"
  by (simp add: markers.feed_chunks_concat sanitize_text_def)

theorem marker_chunking_irrelevant_witness:
  "sanitize_text (concat [''<jack_'', ''tool_evidence_receipt'', ''>x'']) = BLOCKED_MARKER @ ''x''"
proof -
  have "feed_chunks marker_feed new_marker_filter [''<jack_'', ''tool_evidence_receipt'', ''>x'']
      = (BLOCKED_MARKER @ ''x'', new_marker_filter)" by code_simp
  from marker_chunking_irrelevant [OF this] show ?thesis by (simp add: marker_flush_def new_marker_filter_def)
qed

end
