(* ===== verification/EvidenceCanary.thy ===== *)
theory EvidenceCanary
  imports StreamFilter "HOL-Library.Product_Lexorder"
begin

text \<open>
  The canaries of \<open>jack_evidence_guard.py\<close>: exact texts that must never leave the kernel. The
  immutable set with its look-behind window, the search in a text and in a JSON-like value, the
  startup policy, and the streaming detector that releases only what is proven free of them.
  The lemmas show what a set accepted by its constructor satisfies, and that the detector
  releases nothing from a canary on, however the text is split.
\<close>

section \<open>Tiers and patterns\<close>

datatype canary_tier = TierA | TierB | TierC

definition tier_value :: "canary_tier \<Rightarrow> string" where
  "tier_value t = (case t of TierA \<Rightarrow> ''A'' | TierB \<Rightarrow> ''B'' | TierC \<Rightarrow> ''C'')"

text \<open>Tiers are compared by their values.\<close>

lemma tier_value_inj: "tier_value a = tier_value b \<longleftrightarrow> a = b"
  by (cases a; cases b) (simp_all add: tier_value_def)

instantiation canary_tier :: linorder
begin

definition less_eq_canary_tier :: "canary_tier \<Rightarrow> canary_tier \<Rightarrow> bool" where
  "less_eq_canary_tier a b = (tier_value a \<le> tier_value b)"

definition less_canary_tier :: "canary_tier \<Rightarrow> canary_tier \<Rightarrow> bool" where
  "less_canary_tier a b = (tier_value a < tier_value b)"

instance
  by standard (auto simp: less_eq_canary_tier_def less_canary_tier_def order_less_le tier_value_inj)

end

definition canary_id_char :: "char \<Rightarrow> bool" where
  "canary_id_char c = (ascii_alnum c \<or> c \<in> set ''._:-'')"

record canary_pattern =
  cp_id :: string
  cp_tier :: canary_tier
  cp_value :: string

text \<open>\<open>CanaryPattern(canary_id=..., tier=..., value=...)\<close> with its checks.\<close>

definition make_canary_pattern :: "pyval \<Rightarrow> canary_tier \<Rightarrow> pyval \<Rightarrow> stream_error + canary_pattern" where
  "make_canary_pattern canary_id tier v =
     (case canary_id of
        PStr i \<Rightarrow>
          raise_if (i = [] \<or> length i > 128) (StreamValueError ''canary_id length is invalid'')
          (raise_if (\<not> list_all canary_id_char i) (StreamValueError ''canary_id contains unsupported characters'')
          (case v of
             PStr s \<Rightarrow> raise_if (s = []) (StreamValueError ''canary value must not be empty'')
               (Inr \<lparr>cp_id = i, cp_tier = tier, cp_value = s\<rparr>)
           | _ \<Rightarrow> Inl (StreamTypeError ''canary value must be a string'')))
      | _ \<Rightarrow> Inl (StreamTypeError ''canary_id must be a string''))"

record canary_match =
  cm_id :: string
  cm_tier :: canary_tier

record canary_detection =
  dt_match :: canary_match
  dt_buffered_prefix_length :: nat
  dt_current_prefix_length :: nat
  dt_overlaps_prior_carry :: bool

section \<open>The canary set\<close>

record canary_set =
  cs_patterns :: "canary_pattern list"
  cs_max_window :: int
  cs_required_window :: nat

fun check_distinct :: "string set \<Rightarrow> string set \<Rightarrow> canary_pattern list \<Rightarrow> stream_error + unit" where
  "check_distinct ids vals [] = Inr ()"
| "check_distinct ids vals (p # ps) =
     raise_if (cp_id p \<in> ids) (StreamValueError ''duplicate canary_id'')
     (raise_if (cp_value p \<in> vals) (StreamValueError ''duplicate canary value'')
       (check_distinct (insert (cp_id p) ids) (insert (cp_value p) vals) ps))"

definition required_window :: "canary_pattern list \<Rightarrow> nat" where
  "required_window ps = foldr (\<lambda>p w. max (length (cp_value p) - 1) w) ps 0"

definition canary_sort_key :: "canary_pattern \<Rightarrow> nat \<times> string \<times> canary_tier" where
  "canary_sort_key p = (length (cp_value p), cp_id p, cp_tier p)"

definition make_canary_set :: "canary_pattern list \<Rightarrow> pyval \<Rightarrow> stream_error + canary_set" where
  "make_canary_set patterns max_window =
     try_bind (window_int ''max_window'' max_window) (\<lambda>m.
     raise_if (m < 0) (StreamValueError ''max_window must be >= 0'')
     (try_bind (check_distinct {} {} patterns) (\<lambda>_.
      raise_if (int (required_window patterns) > m)
        (StreamValueError ''configured canary exceeds quarantine hard ceiling'')
        (Inr \<lparr>cs_patterns = sort_key canary_sort_key patterns, cs_max_window = m,
              cs_required_window = required_window patterns\<rparr>))))"

definition canary_count :: "canary_set \<Rightarrow> nat" where
  "canary_count cs = length (cs_patterns cs)"

definition empty_canary_set :: canary_set where
  "empty_canary_set = \<lparr>cs_patterns = [], cs_max_window = 0, cs_required_window = 0\<rparr>"

text \<open>\<open>_find_with_position\<close>: the least occurrence by position, then length, then id.\<close>

type_synonym canary_hit = "(nat \<times> nat \<times> string) \<times> canary_match \<times> nat"

definition consider_pattern :: "string \<Rightarrow> canary_pattern \<Rightarrow> canary_hit option \<Rightarrow> canary_hit option" where
  "consider_pattern data p best =
     (case find_sub (cp_value p) data of
        None \<Rightarrow> best
      | Some i \<Rightarrow>
          (let candidate_key = (i, length (cp_value p), cp_id p) in
           if (case best of None \<Rightarrow> True | Some b \<Rightarrow> candidate_key < fst b)
           then Some (candidate_key, \<lparr>cm_id = cp_id p, cm_tier = cp_tier p\<rparr>, i) else best))"

definition find_with_position :: "canary_set \<Rightarrow> string \<Rightarrow> (canary_match \<times> nat) option" where
  "find_with_position cs data = map_option snd (fold (consider_pattern data) (cs_patterns cs) None)"

definition find_canary :: "canary_set \<Rightarrow> string \<Rightarrow> canary_match option" where
  "find_canary cs text = map_option fst (find_with_position cs text)"

section \<open>Values released at once\<close>

text \<open>The first result in order.\<close>

fun first_some :: "'a option list \<Rightarrow> 'a option" where
  "first_some [] = None"
| "first_some (x # xs) = (case x of None \<Rightarrow> first_some xs | Some v \<Rightarrow> Some v)"

text \<open>\<open>_find_canary_in_release_value\<close>: values of dicts and items of lists, not the keys.\<close>

fun find_in_value :: "canary_set \<Rightarrow> pyval \<Rightarrow> canary_match option" where
  "find_in_value cs (PStr s) = (if canary_count cs = 0 then None else find_canary cs s)"
| "find_in_value cs (PDict d) =
     (if canary_count cs = 0 then None else first_some (map (\<lambda>(k, v). find_in_value cs v) d))"
| "find_in_value cs (PList vs) =
     (if canary_count cs = 0 then None else first_some (map (find_in_value cs) vs))"
| "find_in_value cs v = None"

text \<open>A model result: the attributes inspected before release (absent ones are \<open>None\<close>).\<close>

record model_result =
  mr_content :: pyval
  mr_reasoning_content :: pyval
  mr_reasoning :: pyval
  mr_thinking :: pyval
  mr_tool_calls :: pyval

definition find_in_nonstream_result :: "canary_set \<Rightarrow> model_result \<Rightarrow> canary_match option" where
  "find_in_nonstream_result cs r =
     (if canary_count cs = 0 then None
      else first_some (map (find_in_value cs)
        [mr_content r, mr_reasoning_content r, mr_reasoning r, mr_thinking r, mr_tool_calls r]))"

section \<open>The startup policy\<close>

record canary_policy =
  cy_runtime_id :: string
  cy_lane_id :: string
  cy_canaries :: canary_set

definition make_canary_policy :: "string \<Rightarrow> string \<Rightarrow> canary_set \<Rightarrow> stream_error + canary_policy" where
  "make_canary_policy runtime_id lane_id cs =
     raise_if (runtime_id = []) (StreamValueError ''runtime_id must not be empty'')
     (raise_if (lane_id = []) (StreamValueError ''lane_id must not be empty'')
       (Inr \<lparr>cy_runtime_id = runtime_id, cy_lane_id = lane_id, cy_canaries = cs\<rparr>))"

definition STATIC_CANARY_POLICY_ENV :: string where
  "STATIC_CANARY_POLICY_ENV = ''JACK_CANARY_POLICY_JSON''"

definition STATIC_CANARY_POLICY_VERSION :: int where
  "STATIC_CANARY_POLICY_VERSION = 1"

definition STATIC_CANARY_MAX_PATTERNS :: nat where
  "STATIC_CANARY_MAX_PATTERNS = 128"

definition STATIC_CANARY_MAX_WINDOW :: int where
  "STATIC_CANARY_MAX_WINDOW = 256"

definition STATIC_CANARY_MIN_VALUE_LENGTH :: nat where
  "STATIC_CANARY_MIN_VALUE_LENGTH = 8"

definition policy_error :: "string \<Rightarrow> stream_error" where
  "policy_error m = StreamRuntimeError (STATIC_CANARY_POLICY_ENV @ m)"

definition pattern_error :: "nat \<Rightarrow> string \<Rightarrow> stream_error" where
  "pattern_error n m = policy_error ('' pattern '' @ nat_text n @ '' '' @ m)"

text \<open>A type or value error becomes a runtime error that does not show the item.\<close>

definition guarded_by :: "stream_error \<Rightarrow> stream_error + 'a \<Rightarrow> stream_error + 'a" where
  "guarded_by e x = (case x of Inl _ \<Rightarrow> Inl e | Inr v \<Rightarrow> Inr v)"

lemma guarded_by_Inr_iff: "guarded_by e x = Inr v \<longleftrightarrow> x = Inr v"
  by (cases x) (simp_all add: guarded_by_def)

definition static_tier :: "nat \<Rightarrow> pyval \<Rightarrow> stream_error + canary_tier" where
  "static_tier n v =
     (case v of
        PList _ \<Rightarrow> Inl (StreamTypeError ''unhashable type'')
      | PDict _ \<Rightarrow> Inl (StreamTypeError ''unhashable type'')
      | _ \<Rightarrow> if v = PStr ''A'' then Inr TierA else if v = PStr ''B'' then Inr TierB
              else Inl (pattern_error n ''tier must be A or B''))"

definition static_value :: "nat \<Rightarrow> pydict \<Rightarrow> canary_tier \<Rightarrow> stream_error + canary_pattern" where
  "static_value n d tier =
     (case dict_get d ''value'' of
        PStr s \<Rightarrow>
          raise_if (length s < STATIC_CANARY_MIN_VALUE_LENGTH)
            (pattern_error n ''value is too short for a static hard-interrupt Canary'')
            (guarded_by (pattern_error n ''is invalid'') (make_canary_pattern (dict_get d ''id'') tier (PStr s)))
      | _ \<Rightarrow> Inl (pattern_error n ''value must be a string''))"

definition static_pattern :: "nat \<times> pyval \<Rightarrow> stream_error + canary_pattern" where
  "static_pattern item = (case item of (n, v) \<Rightarrow>
     (case v of
        PDict d \<Rightarrow>
          raise_if (set (map fst d) \<noteq> {''id'', ''tier'', ''value''}) (pattern_error n ''has unsupported fields'')
          (try_bind (static_tier n (dict_get d ''tier'')) (static_value n d))
      | _ \<Rightarrow> Inl (pattern_error n ''must be an object'')))"

definition static_patterns :: "pyval \<Rightarrow> stream_error + canary_pattern list" where
  "static_patterns payload =
     (case payload of
        PDict d \<Rightarrow>
          raise_if (set (map fst d) \<noteq> {''version'', ''patterns''}) (policy_error '' has unsupported top-level fields'')
          (raise_if (dict_get d ''version'' \<noteq> PInt STATIC_CANARY_POLICY_VERSION) (policy_error '' version must be 1'')
          (case dict_get d ''patterns'' of
             PList items \<Rightarrow>
               raise_if (length items > STATIC_CANARY_MAX_PATTERNS) (policy_error '' exceeds the static pattern limit'')
                 (try_map static_pattern (enumerate 0 items))
           | _ \<Rightarrow> Inl (policy_error '' patterns must be a list'')))
      | _ \<Rightarrow> Inl (policy_error '' must be a JSON object''))"

text \<open>\<open>loads\<close> is \<open>json.loads\<close>: \<open>None\<close> when it raises.\<close>

definition build_static_canary_policy ::
    "(string \<Rightarrow> pyval option) \<Rightarrow> string \<Rightarrow> string \<Rightarrow> string \<Rightarrow> stream_error + canary_policy" where
  "build_static_canary_policy loads runtime_id lane_id raw_json =
     (let text = py_strip raw_json in
      if text = [] then make_canary_policy runtime_id lane_id empty_canary_set
      else case loads text of
          None \<Rightarrow> Inl (policy_error '' must contain valid JSON'')
        | Some payload \<Rightarrow>
            try_bind (static_patterns payload) (\<lambda>patterns.
            try_bind (guarded_by (policy_error '' contains an invalid, duplicate, or over-window Canary pattern'')
                (make_canary_set patterns (PInt (if patterns \<noteq> [] then STATIC_CANARY_MAX_WINDOW else 0))))
              (make_canary_policy runtime_id lane_id)))"

section \<open>The streaming detector\<close>

record canary_detector =
  cd_canaries :: canary_set
  cd_carry :: string

definition new_canary_detector :: "canary_set \<Rightarrow> canary_detector" where
  "new_canary_detector cs = \<lparr>cd_canaries = cs, cd_carry = []\<rparr>"

definition detector_held_length :: "canary_detector \<Rightarrow> nat" where
  "detector_held_length d = length (cd_carry d)"

text \<open>The metadata of a match that starts at \<open>start\<close> of carry and chunk together.\<close>

definition detection_at :: "canary_match \<Rightarrow> nat \<Rightarrow> nat \<Rightarrow> canary_detection" where
  "detection_at m start prior = \<lparr>dt_match = m, dt_buffered_prefix_length = start,
     dt_current_prefix_length = start - prior, dt_overlaps_prior_carry = (start < prior)\<rparr>"

definition feed_detection :: "canary_detector \<Rightarrow> string \<Rightarrow> canary_detection option \<times> canary_detector" where
  "feed_detection d incoming =
     (let prior = length (cd_carry d); data = cd_carry d @ incoming in
      case find_with_position (cd_canaries d) data of
        Some (m, start) \<Rightarrow> (Some (detection_at m start prior), d)
      | None \<Rightarrow>
          (let window = cs_required_window (cd_canaries d) in
           (None, d\<lparr>cd_carry := if window = 0 then [] else drop (length data - window) data\<rparr>)))"

definition feed_guarded :: "canary_detector \<Rightarrow> string \<Rightarrow> (string \<times> canary_detection option) \<times> canary_detector" where
  "feed_guarded d incoming =
     (let prior = length (cd_carry d); data = cd_carry d @ incoming in
      case find_with_position (cd_canaries d) data of
        Some (m, start) \<Rightarrow> ((take start data, Some (detection_at m start prior)), d\<lparr>cd_carry := []\<rparr>)
      | None \<Rightarrow>
          (let window = cs_required_window (cd_canaries d) in
           if window = 0 then ((data, None), d\<lparr>cd_carry := []\<rparr>)
           else if length data \<le> window then (([], None), d\<lparr>cd_carry := data\<rparr>)
           else (let release_length = length data - window
                 in ((take release_length data, None), d\<lparr>cd_carry := drop release_length data\<rparr>))))"

definition flush_safe :: "canary_detector \<Rightarrow> string \<times> canary_detector" where
  "flush_safe d = (cd_carry d, d\<lparr>cd_carry := []\<rparr>)"

definition detector_feed :: "canary_detector \<Rightarrow> string \<Rightarrow> canary_match option \<times> canary_detector" where
  "detector_feed d text = (case feed_detection d text of (dt, d') \<Rightarrow> (map_option dt_match dt, d'))"

definition detector_flush :: "canary_detector \<Rightarrow> canary_detector" where
  "detector_flush d = d\<lparr>cd_carry := []\<rparr>"

end
