(* ===== verification/GuardedStream.thy ===== *)
theory GuardedStream
  imports EvidenceMarker EvidenceCanary JsonText "HOL-Library.AList"
begin

text \<open>
  \<open>_guarded_stream\<close> of \<open>jack_evidence_guard.py\<close>: the server-sent events of a model stream pass the
  canary detectors, the reserved-marker filters and the quarantines, one of each per text channel
  (choice index and field), and one detector per tool-call channel (choice index and tool index).

  \<open>json.loads\<close> is the parameter \<open>loads\<close>; its values are trees, so the in-place changes of the
  parsed object are functional updates of it at the same places. A frame that is yielded is
  either the incoming chunk or an encoded object. The per-channel dicts are association lists in
  insertion order.
\<close>

section \<open>Events\<close>

text \<open>\<open>int(value)\<close>: \<open>None\<close> where it raises. A finite float is its literal, truncated. An infinite float
  raises \<open>OverflowError\<close>, which the callers below tell apart from the errors they catch
  (\<open>index_overflows\<close>).\<close>

definition float_trunc :: "string \<Rightarrow> int option" where
  "float_trunc s =
     (let neg = starts_with ''-'' s; body = (if neg then tl s else s);
          in_mantissa = (\<lambda>c. c \<noteq> CHR ''e'' \<and> c \<noteq> CHR ''E'');
          mantissa = takeWhile in_mantissa body; expo = drop 1 (dropWhile in_mantissa body);
          whole = takeWhile (\<lambda>c. c \<noteq> CHR ''.'') mantissa; fraction = drop 1 (dropWhile (\<lambda>c. c \<noteq> CHR ''.'') mantissa);
          e = (case parse_int expo of None \<Rightarrow> 0 | Some i \<Rightarrow> i) - int (length fraction)
      in map_option (\<lambda>n. let m = (if 0 \<le> e then int n * 10 ^ nat e else int n div 10 ^ nat (- e))
                         in if neg then - m else m)
           (digits_value 0 (whole @ fraction)))"

definition py_int :: "pyval \<Rightarrow> int option" where
  "py_int v = (case v of
       PInt i \<Rightarrow> Some i
     | PBool b \<Rightarrow> Some (if b then 1 else 0)
     | PFloat s \<Rightarrow> float_trunc s
     | PStr s \<Rightarrow> parse_int (py_strip s)
     | _ \<Rightarrow> None)"

definition index_or :: "int \<Rightarrow> pyval \<Rightarrow> int" where
  "index_or n v = (case py_int v of None \<Rightarrow> n | Some i \<Rightarrow> i)"

text \<open>\<open>json.dumps(obj, ensure_ascii=False)\<close> with its default separators.\<close>

fun json_spaced :: "pyval \<Rightarrow> string"
  and json_spaced_items :: "pyval list \<Rightarrow> string"
  and json_spaced_members :: "pydict \<Rightarrow> string" where
  "json_spaced (PList vs) = ''['' @ json_spaced_items vs @ '']''"
| "json_spaced (PDict d) = [CHR 0x7B] @ json_spaced_members d @ [CHR 0x7D]"
| "json_spaced v = json_text v"
| "json_spaced_items [] = []"
| "json_spaced_items (v # vs) = json_spaced v @ (if vs = [] then [] else '', '' @ json_spaced_items vs)"
| "json_spaced_members [] = []"
| "json_spaced_members ((k, v) # d) =
     json_str k @ '': '' @ json_spaced v @ (if d = [] then [] else '', '' @ json_spaced_members d)"

definition encode_sse_object :: "pydict \<Rightarrow> string" where
  "encode_sse_object obj = utf8 (''data: '' @ json_spaced (PDict obj) @ [CHR 0x0A, CHR 0x0A])"

datatype released_frame = PassedThrough string | EncodedObject pydict

definition frame_bytes :: "released_frame \<Rightarrow> string" where
  "frame_bytes f = (case f of PassedThrough chunk \<Rightarrow> chunk | EncodedObject obj \<Rightarrow> encode_sse_object obj)"

definition DONE_TEXT :: string where
  "DONE_TEXT = ''data: [DONE]''"

definition parse_sse_object :: "(string \<Rightarrow> pyval option) \<Rightarrow> string \<Rightarrow> pydict option" where
  "parse_sse_object loads text =
     (let stripped = py_strip text in
      if \<not> starts_with ''data:'' stripped \<or> stripped = DONE_TEXT then None
      else case loads (py_strip (drop 5 stripped)) of Some (PDict obj) \<Rightarrow> Some obj | _ \<Rightarrow> None)"

definition chat_chunk_template :: "pydict \<Rightarrow> pydict" where
  "chat_chunk_template obj = map (\<lambda>k. (k, dict_get obj k))
     (filter (dict_has obj) [''id'', ''object'', ''created'', ''model''])"

section \<open>State\<close>

type_synonym text_channel = "int \<times> string"
type_synonym tool_channel = "int \<times> int"

record guard_config =
  gc_quarantine_window :: nat
  gc_quarantine_max_window :: nat
  gc_canaries :: "canary_set option"

record guarded_state =
  gs_filters :: "(text_channel \<times> marker_filter) list"
  gs_quarantines :: "(text_channel \<times> text_quarantine) list"
  gs_detectors :: "(text_channel \<times> canary_detector) list"
  gs_tool_detectors :: "(tool_channel \<times> canary_detector) list"
  gs_template :: "pydict option"
  gs_done :: bool

definition new_guarded_state :: guarded_state where
  "new_guarded_state = \<lparr>gs_filters = [], gs_quarantines = [], gs_detectors = [], gs_tool_detectors = [],
     gs_template = None, gs_done = False\<rparr>"

definition canary_enabled :: "guard_config \<Rightarrow> bool" where
  "canary_enabled cfg = (case gc_canaries cfg of None \<Rightarrow> False | Some cs \<Rightarrow> canary_count cs > 0)"

definition config_canaries :: "guard_config \<Rightarrow> canary_set" where
  "config_canaries cfg = (case gc_canaries cfg of None \<Rightarrow> empty_canary_set | Some cs \<Rightarrow> cs)"

definition config_quarantine :: "guard_config \<Rightarrow> text_quarantine" where
  "config_quarantine cfg = \<lparr>tq_window_size = gc_quarantine_window cfg,
     tq_max_window = gc_quarantine_max_window cfg, tq_carry = []\<rparr>"

text \<open>\<open>d.get(k, v)\<close> on a dict of channels, and \<open>d.setdefault(k, []).append(v)\<close>.\<close>

definition lookup_default :: "('k \<times> 'v) list \<Rightarrow> 'k \<Rightarrow> 'v \<Rightarrow> 'v" where
  "lookup_default al k v = (case map_of al k of None \<Rightarrow> v | Some x \<Rightarrow> x)"

definition append_at :: "'k \<Rightarrow> 'v \<Rightarrow> ('k \<times> 'v list) list \<Rightarrow> ('k \<times> 'v list) list" where
  "append_at k v al = AList.update k (lookup_default al k [] @ [v]) al"

text \<open>\<open>by_choice.setdefault(c, {})[field] = v\<close>, and the choices of the object built from it.\<close>

definition set_in_choice :: "int \<Rightarrow> string \<Rightarrow> pyval \<Rightarrow> (int \<times> pydict) list \<Rightarrow> (int \<times> pydict) list" where
  "set_in_choice c field v by_choice = AList.update c (dict_set (lookup_default by_choice c []) field v) by_choice"

definition choices_object :: "pydict \<Rightarrow> (int \<times> pydict) list \<Rightarrow> pydict" where
  "choices_object template by_choice =
     dict_set template ''choices''
       (PList (map (\<lambda>(c, delta). PDict [(''index'', PInt c), (''delta'', PDict delta), (''finish_reason'', PNone)])
         (sort_key fst by_choice)))"

definition tail_call :: "int \<Rightarrow> string \<Rightarrow> pyval" where
  "tail_call tool_index tail =
     PDict [(''index'', PInt tool_index), (''function'', PDict [(''arguments'', PStr tail)])]"

section \<open>The places of an event\<close>

definition TEXT_FIELDS :: "string list" where
  "TEXT_FIELDS = [''content'', ''reasoning_content'', ''reasoning'', ''thinking'']"

record text_slot =
  ts_ordinal :: nat
  ts_order :: nat
  ts_choice :: int
  ts_field :: string
  ts_value :: pyval

record tool_slot =
  tl_ordinal :: nat
  tl_order :: nat
  tl_choice :: int
  tl_tool :: int
  tl_call :: pydict
  tl_arguments :: string

definition choice_index :: "nat \<Rightarrow> pydict \<Rightarrow> int" where
  "choice_index ordinal choice =
     (case map_of choice ''index'' of None \<Rightarrow> int ordinal | Some v \<Rightarrow> index_or (int ordinal) v)"

text \<open>The text fields of a choice's delta that are there and not null.\<close>

definition text_slots_of :: "nat \<times> pyval \<Rightarrow> text_slot list" where
  "text_slots_of oc = (case oc of
       (ordinal, PDict choice) \<Rightarrow>
         (case dict_get choice ''delta'' of
            PDict delta \<Rightarrow>
              map (\<lambda>(order, field). \<lparr>ts_ordinal = ordinal, ts_order = order, ts_choice = choice_index ordinal choice,
                    ts_field = field, ts_value = dict_get delta field\<rparr>)
                (filter (\<lambda>(order, field). dict_get delta field \<noteq> PNone) (enumerate 0 TEXT_FIELDS))
          | _ \<Rightarrow> [])
     | _ \<Rightarrow> [])"

definition text_slots :: "pyval list \<Rightarrow> text_slot list" where
  "text_slots choices = concat (map text_slots_of (enumerate 0 choices))"

definition tool_slot_of :: "nat \<Rightarrow> int \<Rightarrow> nat \<times> pyval \<Rightarrow> tool_slot list" where
  "tool_slot_of ordinal c oc = (case oc of
       (order, PDict call) \<Rightarrow>
         (case dict_get call ''function'' of
            PDict function \<Rightarrow>
              (case dict_get function ''arguments'' of
                 PStr arguments \<Rightarrow>
                   [\<lparr>tl_ordinal = ordinal, tl_order = order, tl_choice = c,
                     tl_tool = (case map_of call ''index'' of None \<Rightarrow> 0 | Some v \<Rightarrow> index_or 0 v),
                     tl_call = call, tl_arguments = arguments\<rparr>]
               | _ \<Rightarrow> [])
          | _ \<Rightarrow> [])
     | _ \<Rightarrow> [])"

definition tool_slots_of :: "nat \<times> pyval \<Rightarrow> tool_slot list" where
  "tool_slots_of oc = (case oc of
       (ordinal, PDict choice) \<Rightarrow>
         (case dict_get choice ''delta'' of
            PDict delta \<Rightarrow>
              (case dict_get delta ''tool_calls'' of
                 PList calls \<Rightarrow> concat (map (tool_slot_of ordinal (choice_index ordinal choice)) (enumerate 0 calls))
               | _ \<Rightarrow> [])
          | _ \<Rightarrow> [])
     | _ \<Rightarrow> [])"

definition tool_slots :: "pyval list \<Rightarrow> tool_slot list" where
  "tool_slots choices = concat (map tool_slots_of (enumerate 0 choices))"

section \<open>Inspecting an event\<close>

text \<open>What a text field releases raw, and what it detects; without canaries the text as it is.\<close>

fun feed_text_slots ::
    "guard_config \<Rightarrow> text_slot list \<Rightarrow> (text_channel \<times> canary_detector) list
       \<Rightarrow> (text_slot \<times> string) list \<times> (text_slot \<times> canary_detection) list \<times> (text_channel \<times> canary_detector) list" where
  "feed_text_slots cfg [] detectors = ([], [], detectors)"
| "feed_text_slots cfg (s # ss) detectors =
     (if canary_enabled cfg then
        (let key = (ts_choice s, ts_field s);
             detector = lookup_default detectors key (new_canary_detector (config_canaries cfg))
         in case feed_guarded detector (text_of (ts_value s)) of
              ((raw_released, detection), detector') \<Rightarrow>
                (case feed_text_slots cfg ss (AList.update key detector' detectors) of
                   (entries, detections, detectors') \<Rightarrow>
                     ((s, raw_released) # entries,
                      (case detection of None \<Rightarrow> detections | Some dt \<Rightarrow> (s, dt) # detections),
                      detectors')))
      else
        (case feed_text_slots cfg ss detectors of
           (entries, detections, detectors') \<Rightarrow> ((s, text_of (ts_value s)) # entries, detections, detectors')))"

text \<open>Tool arguments, up to the first detection.\<close>

fun feed_tool_slots ::
    "guard_config \<Rightarrow> tool_slot list \<Rightarrow> (tool_channel \<times> canary_detector) list
       \<Rightarrow> (tool_slot \<times> string) list \<times> (tool_slot \<times> canary_detection) list \<times> (tool_channel \<times> canary_detector) list" where
  "feed_tool_slots cfg [] detectors = ([], [], detectors)"
| "feed_tool_slots cfg (s # ss) detectors =
     (let key = (tl_choice s, tl_tool s);
          detector = lookup_default detectors key (new_canary_detector (config_canaries cfg))
      in case feed_guarded detector (tl_arguments s) of
           ((raw_released, Some dt), detector') \<Rightarrow> ([(s, raw_released)], [(s, dt)], AList.update key detector' detectors)
         | ((raw_released, None), detector') \<Rightarrow>
             (case feed_tool_slots cfg ss (AList.update key detector' detectors) of
                (entries, detections, detectors') \<Rightarrow> ((s, raw_released) # entries, detections, detectors')))"

section \<open>Flushing a channel\<close>

text \<open>The detector's tail passes the filter and the quarantine, each then flushed.\<close>

definition flush_filter :: "string \<Rightarrow> marker_filter \<Rightarrow> string \<times> marker_filter" where
  "flush_filter raw f =
     (case (if raw \<noteq> [] then marker_feed f raw else ([], f)) of (out, f') \<Rightarrow>
       case marker_flush f' of (tail, f'') \<Rightarrow> (out @ tail, f''))"

definition flush_quarantine :: "string \<Rightarrow> text_quarantine \<Rightarrow> string \<times> text_quarantine" where
  "flush_quarantine text q =
     (case quarantine_feed q text of (out, q') \<Rightarrow>
       case quarantine_flush q' of (tail, q'') \<Rightarrow> (out @ tail, q''))"

definition flush_key :: "text_channel \<Rightarrow> guarded_state \<Rightarrow> string \<times> guarded_state" where
  "flush_key key st =
     (let (raw_tail, detectors) =
            (case map_of (gs_detectors st) key of
               None \<Rightarrow> ([], gs_detectors st)
             | Some d \<Rightarrow> (fst (flush_safe d), AList.update key (snd (flush_safe d)) (gs_detectors st)));
          (filtered_tail, filters) =
            (case map_of (gs_filters st) key of
               None \<Rightarrow> (raw_tail, gs_filters st)
             | Some f \<Rightarrow> (fst (flush_filter raw_tail f), AList.update key (snd (flush_filter raw_tail f)) (gs_filters st)));
          (tail, quarantines) =
            (case map_of (gs_quarantines st) key of
               None \<Rightarrow> (filtered_tail, gs_quarantines st)
             | Some q \<Rightarrow> (fst (flush_quarantine filtered_tail q),
                          AList.update key (snd (flush_quarantine filtered_tail q)) (gs_quarantines st)))
      in (tail, st\<lparr>gs_detectors := detectors, gs_filters := filters, gs_quarantines := quarantines\<rparr>))"

definition flush_tool_key :: "tool_channel \<Rightarrow> guarded_state \<Rightarrow> string \<times> guarded_state" where
  "flush_tool_key key st =
     (case map_of (gs_tool_detectors st) key of
        None \<Rightarrow> ([], st)
      | Some d \<Rightarrow> (fst (flush_safe d),
                   st\<lparr>gs_tool_detectors := AList.update key (snd (flush_safe d)) (gs_tool_detectors st)\<rparr>))"

definition state_keys :: "guarded_state \<Rightarrow> text_channel list" where
  "state_keys st = sort (remdups (map fst (gs_filters st) @ map fst (gs_quarantines st) @ map fst (gs_detectors st)))"

text \<open>\<open>_flush_event\<close>: one event with what every channel still holds. Without a template (or with
  an empty one) what is held is dropped.\<close>

definition flush_into :: "text_channel \<Rightarrow> (int \<times> pydict) list \<times> guarded_state \<Rightarrow> (int \<times> pydict) list \<times> guarded_state" where
  "flush_into key acc = (case acc of (by_choice, st) \<Rightarrow>
     (case flush_key key st of (released, st') \<Rightarrow>
       (if released \<noteq> [] then set_in_choice (fst key) (snd key) (PStr released) by_choice else by_choice, st')))"

definition flush_tool_into :: "tool_channel \<Rightarrow> (int \<times> pydict) list \<times> guarded_state \<Rightarrow> (int \<times> pydict) list \<times> guarded_state" where
  "flush_tool_into key acc = (case acc of (by_choice, st) \<Rightarrow>
     (case flush_tool_key key st of (tail, st') \<Rightarrow>
       (if tail = [] then by_choice
        else (let calls = (case dict_get (lookup_default by_choice (fst key) []) ''tool_calls'' of
                             PList vs \<Rightarrow> vs | _ \<Rightarrow> [])
              in set_in_choice (fst key) ''tool_calls'' (PList (calls @ [tail_call (snd key) tail])) by_choice), st')))"

definition flush_event :: "guarded_state \<Rightarrow> released_frame option \<times> guarded_state" where
  "flush_event st =
     (let (by_choice, st1) = fold flush_into (state_keys st) ([], st);
          (by_choice', st2) = fold flush_tool_into (sort (map fst (gs_tool_detectors st))) (by_choice, st1)
      in case gs_template st of
           None \<Rightarrow> (None, st2)
         | Some template \<Rightarrow>
             (if template = [] \<or> by_choice' = [] then None
              else Some (EncodedObject (choices_object template by_choice')), st2))"

section \<open>The hard interrupt\<close>

text \<open>What is proven to precede the canary, by channel: the raw releases of this event, and the
  look-behind of the channels in which nothing was detected.\<close>

definition add_raw :: "text_channel \<Rightarrow> string \<Rightarrow> (text_channel \<times> string) list \<Rightarrow> (text_channel \<times> string) list" where
  "add_raw key raw m = AList.update key (lookup_default m key [] @ raw) m"

definition raw_safe_texts ::
    "(text_slot \<times> string) list \<Rightarrow> (text_slot \<times> canary_detection) list \<Rightarrow> (text_channel \<times> canary_detector) list
       \<Rightarrow> (text_channel \<times> string) list" where
  "raw_safe_texts entries detections detectors =
     (let detected_keys = set (map (\<lambda>(s, dt). (ts_choice s, ts_field s)) detections);
          m = fold (\<lambda>(s, raw). add_raw (ts_choice s, ts_field s) raw) entries []
      in fold (\<lambda>(key, d). if key \<in> detected_keys then id else add_raw key (cd_carry d)) detectors m)"

definition safe_call :: "tool_slot \<Rightarrow> string \<Rightarrow> pyval" where
  "safe_call s raw =
     (case dict_get (tl_call s) ''function'' of
        PDict function \<Rightarrow>
          PDict (dict_set (tl_call s) ''function'' (PDict (dict_set function ''arguments'' (PStr raw))))
      | _ \<Rightarrow> PDict (tl_call s))"

definition safe_tool_calls ::
    "(tool_slot \<times> string) list \<Rightarrow> (tool_slot \<times> canary_detection) list \<Rightarrow> (tool_channel \<times> canary_detector) list
       \<Rightarrow> (int \<times> pyval list) list" where
  "safe_tool_calls entries detections detectors =
     (let detected_keys = set (map (\<lambda>(s, dt). (tl_choice s, tl_tool s)) detections);
          calls = (if detections \<noteq> [] then fold (\<lambda>(s, raw). append_at (tl_choice s) (safe_call s raw)) entries [] else [])
      in fold (\<lambda>((c, t), d). if (c, t) \<in> detected_keys \<or> cd_carry d = [] then id
                            else append_at c (tail_call t (cd_carry d))) detectors calls)"

text \<open>One channel is finished: its safe text passes the filter and the quarantine, created when
  there is text for them.\<close>

definition settle_channel :: "guard_config \<Rightarrow> guarded_state \<Rightarrow> (text_channel \<times> string) list \<Rightarrow> text_channel \<Rightarrow> string" where
  "settle_channel cfg st raw_safe key =
     (let raw_piece = lookup_default raw_safe key [];
          filt = (case map_of (gs_filters st) key of
                    None \<Rightarrow> if raw_piece \<noteq> [] then Some new_marker_filter else None | Some f \<Rightarrow> Some f);
          filtered = (case filt of None \<Rightarrow> raw_piece | Some f \<Rightarrow> fst (flush_filter raw_piece f));
          quarantine = (case map_of (gs_quarantines st) key of
                          None \<Rightarrow> if filtered \<noteq> [] \<or> key \<in> fst ` set raw_safe then Some (config_quarantine cfg) else None
                        | Some q \<Rightarrow> Some q)
      in case quarantine of None \<Rightarrow> filtered | Some q \<Rightarrow> fst (flush_quarantine filtered q))"

definition interrupt_frames ::
    "guard_config \<Rightarrow> guarded_state \<Rightarrow> pydict \<Rightarrow> (text_channel \<times> string) list \<Rightarrow> (int \<times> pyval list) list \<Rightarrow> released_frame list" where
  "interrupt_frames cfg st template raw_safe tool_calls =
     (let keys = sort (remdups (map fst raw_safe @ map fst (gs_filters st) @ map fst (gs_quarantines st)));
          texts = fold (\<lambda>key by_choice. let released = settle_channel cfg st raw_safe key in
                    if released \<noteq> [] then set_in_choice (fst key) (snd key) (PStr released) by_choice else by_choice) keys [];
          by_choice = fold (\<lambda>(c, calls). if calls \<noteq> [] then set_in_choice c ''tool_calls'' (PList calls) else id)
                    (sort_key fst tool_calls) texts
      in if by_choice = [] then [] else [EncodedObject (choices_object template by_choice)])"

text \<open>The match that is reported: the first by the place of its slot.\<close>

definition text_rank :: "text_slot \<times> canary_detection \<Rightarrow> nat \<times> nat \<times> int \<times> string" where
  "text_rank x = (ts_ordinal (fst x), ts_order (fst x), ts_choice (fst x), ts_field (fst x))"

definition tool_rank :: "tool_slot \<times> canary_detection \<Rightarrow> nat \<times> nat \<times> int \<times> int" where
  "tool_rank x = (tl_ordinal (fst x), tl_order (fst x), tl_choice (fst x), tl_tool (fst x))"

definition primary_match ::
    "(text_slot \<times> canary_detection) list \<Rightarrow> (tool_slot \<times> canary_detection) list \<Rightarrow> canary_match" where
  "primary_match detections tool_detections =
     (if detections \<noteq> [] then dt_match (snd (hd (sort_key text_rank detections)))
      else dt_match (snd (hd (sort_key tool_rank tool_detections))))"

section \<open>The normal release\<close>

definition with_delta :: "(pydict \<Rightarrow> pydict) \<Rightarrow> pyval \<Rightarrow> pyval" where
  "with_delta f choice = (case choice of
       PDict c \<Rightarrow> (case dict_get c ''delta'' of
           PDict delta \<Rightarrow> PDict (dict_set c ''delta'' (PDict (f delta))) | _ \<Rightarrow> choice)
     | _ \<Rightarrow> choice)"

definition with_call :: "nat \<Rightarrow> string \<Rightarrow> pydict \<Rightarrow> pydict" where
  "with_call order raw delta = (case dict_get delta ''tool_calls'' of
       PList calls \<Rightarrow>
         (case calls ! order of
            PDict call \<Rightarrow>
              (case dict_get call ''function'' of
                 PDict function \<Rightarrow>
                   dict_set delta ''tool_calls'' (PList (calls[order :=
                     PDict (dict_set call ''function'' (PDict (dict_set function ''arguments'' (PStr raw))))]))
               | _ \<Rightarrow> delta)
          | _ \<Rightarrow> delta)
     | _ \<Rightarrow> delta)"

definition update_nth :: "nat \<Rightarrow> ('a \<Rightarrow> 'a) \<Rightarrow> 'a list \<Rightarrow> 'a list" where
  "update_nth n f xs = xs[n := f (xs ! n)]"

fun release_texts ::
    "guard_config \<Rightarrow> (text_slot \<times> string) list \<Rightarrow> pyval list \<Rightarrow> guarded_state \<Rightarrow> bool \<times> pyval list \<times> guarded_state" where
  "release_texts cfg [] choices st = (False, choices, st)"
| "release_texts cfg ((s, raw) # es) choices st =
     (let key = (ts_choice s, ts_field s);
          filt = lookup_default (gs_filters st) key new_marker_filter;
          quarantine = lookup_default (gs_quarantines st) key (config_quarantine cfg)
      in case marker_feed filt raw of (filtered, filt') \<Rightarrow>
         case quarantine_feed quarantine filtered of (released, quarantine') \<Rightarrow>
         (let st' = st\<lparr>gs_filters := AList.update key filt' (gs_filters st),
                       gs_quarantines := AList.update key quarantine' (gs_quarantines st)\<rparr>;
              choices' = update_nth (ts_ordinal s) (with_delta (\<lambda>d. dict_set d (ts_field s) (PStr released))) choices
          in case release_texts cfg es choices' st' of (changed, r) \<Rightarrow>
               (PStr released \<noteq> ts_value s \<or> changed, r)))"

fun release_tools :: "(tool_slot \<times> string) list \<Rightarrow> pyval list \<Rightarrow> bool \<times> pyval list" where
  "release_tools [] choices = (False, choices)"
| "release_tools ((s, raw) # es) choices =
     (case release_tools es (update_nth (tl_ordinal s) (with_delta (with_call (tl_order s) raw)) choices) of
        (changed, r) \<Rightarrow> (raw \<noteq> tl_arguments s \<or> changed, r))"

text \<open>A choice with a finish reason: its channels are flushed into its delta.\<close>

definition finish_field :: "int \<Rightarrow> string \<Rightarrow> bool \<times> pydict \<times> guarded_state \<Rightarrow> bool \<times> pydict \<times> guarded_state" where
  "finish_field c field acc = (case acc of (changed, delta, st) \<Rightarrow>
     (case flush_key (c, field) st of (tail, st') \<Rightarrow>
       if tail \<noteq> [] then (True, dict_set delta field (PStr (str_or_empty (dict_get delta field) @ tail)), st')
       else (changed, delta, st')))"

definition finish_tool :: "tool_channel \<Rightarrow> bool \<times> pydict \<times> guarded_state \<Rightarrow> bool \<times> pydict \<times> guarded_state" where
  "finish_tool key acc = (case acc of (changed, delta, st) \<Rightarrow>
     (case flush_tool_key key st of (tail, st') \<Rightarrow>
       if tail = [] then (changed, delta, st')
       else (True,
             (let calls = (case dict_get delta ''tool_calls'' of PList vs \<Rightarrow> vs | _ \<Rightarrow> [])
              in dict_set delta ''tool_calls'' (PList (calls @ [tail_call (snd key) tail]))), st')))"

definition finish_choice :: "nat \<Rightarrow> pyval \<Rightarrow> guarded_state \<Rightarrow> bool \<times> pyval \<times> guarded_state" where
  "finish_choice ordinal choice st = (case choice of
       PDict c \<Rightarrow>
         (case dict_get c ''delta'' of
            PDict delta \<Rightarrow>
              if dict_get c ''finish_reason'' = PNone then (False, choice, st)
              else
                (let n = choice_index ordinal c;
                     tools = filter (\<lambda>key. fst key = n) (sort (map fst (gs_tool_detectors st)))
                 in case fold finish_tool tools (fold (finish_field n) TEXT_FIELDS (False, delta, st)) of
                      (changed, delta', st') \<Rightarrow> (changed, PDict (dict_set c ''delta'' (PDict delta')), st'))
          | _ \<Rightarrow> (False, choice, st))
     | _ \<Rightarrow> (False, choice, st))"

fun finish_choices :: "nat \<Rightarrow> pyval list \<Rightarrow> guarded_state \<Rightarrow> bool \<times> pyval list \<times> guarded_state" where
  "finish_choices ordinal [] st = (False, [], st)"
| "finish_choices ordinal (choice # cs) st =
     (case finish_choice ordinal choice st of (changed, choice', st') \<Rightarrow>
       case finish_choices (ordinal + 1) cs st' of (changed', cs', st'') \<Rightarrow>
         (changed \<or> changed', choice' # cs', st''))"

section \<open>An event, and the stream\<close>

datatype event_result =
    EventReleased "released_frame list" guarded_state
  | EventInterrupted "released_frame list" canary_match
  | EventMalformed
  | EventOverflowed guarded_state

text \<open>An index that is an infinite float: \<open>int(raw_index)\<close> raises \<open>OverflowError\<close>, which the loops over the
  choices and over the calls do not catch. What they have read until then has been fed.\<close>

definition index_overflows :: "pyval \<Rightarrow> bool" where
  "index_overflows v = (case v of
       PDict d \<Rightarrow> map_of d ''index'' = Some (PFloat ''inf'') \<or> map_of d ''index'' = Some (PFloat ''-inf'')
     | _ \<Rightarrow> False)"

definition calls_of :: "pyval \<Rightarrow> pyval list" where
  "calls_of choice = (case choice of
       PDict c \<Rightarrow> (case dict_get c ''delta'' of
           PDict delta \<Rightarrow> (case dict_get delta ''tool_calls'' of PList calls \<Rightarrow> calls | _ \<Rightarrow> [])
         | _ \<Rightarrow> [])
     | _ \<Rightarrow> [])"

definition calls_overflow :: "pyval \<Rightarrow> bool" where
  "calls_overflow choice = list_ex index_overflows (calls_of choice)"

definition choices_read :: "pyval list \<Rightarrow> pyval list" where
  "choices_read choices = takeWhile (\<lambda>choice. \<not> index_overflows choice) choices"

definition calls_read :: "pyval list \<Rightarrow> pyval list" where
  "calls_read choices =
     takeWhile (\<lambda>choice. \<not> calls_overflow choice) choices
     @ map (\<lambda>choice. with_delta (\<lambda>delta. dict_set delta ''tool_calls''
              (PList (takeWhile (\<lambda>call. \<not> index_overflows call) (calls_of choice)))) choice)
         (take 1 (dropWhile (\<lambda>choice. \<not> calls_overflow choice) choices))"

definition guarded_object :: "guard_config \<Rightarrow> string \<Rightarrow> pydict \<Rightarrow> pyval list \<Rightarrow> guarded_state \<Rightarrow> event_result" where
  "guarded_object cfg chunk obj choices st =
     (let template = chat_chunk_template obj in
      case feed_text_slots cfg (text_slots (choices_read choices)) (gs_detectors st) of (entries, detections, detectors) \<Rightarrow>
      if list_ex index_overflows choices then
        EventOverflowed (st\<lparr>gs_template := Some template, gs_detectors := detectors\<rparr>)
      else
      case (if canary_enabled cfg \<and> detections = []
            then feed_tool_slots cfg (tool_slots (calls_read choices)) (gs_tool_detectors st)
            else ([], [], gs_tool_detectors st)) of (tool_entries, tool_detections, tool_detectors) \<Rightarrow>
      if detections \<noteq> [] \<or> tool_detections \<noteq> [] then
        EventInterrupted
          (interrupt_frames cfg st template (raw_safe_texts entries detections detectors)
            (safe_tool_calls tool_entries tool_detections tool_detectors))
          (primary_match detections tool_detections)
      else if canary_enabled cfg \<and> list_ex calls_overflow choices then
        EventOverflowed (st\<lparr>gs_template := Some template, gs_detectors := detectors, gs_tool_detectors := tool_detectors\<rparr>)
      else
        (let st1 = st\<lparr>gs_template := Some template, gs_detectors := detectors, gs_tool_detectors := tool_detectors\<rparr> in
         case release_texts cfg entries choices st1 of (changed1, choices1, st2) \<Rightarrow>
         case release_tools tool_entries choices1 of (changed2, choices2) \<Rightarrow>
         case finish_choices 0 choices2 st2 of (changed3, choices3, st3) \<Rightarrow>
         EventReleased
           [if changed1 \<or> changed2 \<or> changed3
            then EncodedObject (dict_set obj ''choices'' (PList choices3)) else PassedThrough chunk] st3))"

definition guarded_event :: "guard_config \<Rightarrow> (string \<Rightarrow> pyval option) \<Rightarrow> string \<Rightarrow> guarded_state \<Rightarrow> event_result" where
  "guarded_event cfg loads chunk st =
     (if py_strip chunk = DONE_TEXT then
        (case flush_event st of (flushed, st') \<Rightarrow>
          EventReleased ((case flushed of None \<Rightarrow> [] | Some f \<Rightarrow> [f]) @ [PassedThrough chunk]) (st'\<lparr>gs_done := True\<rparr>))
      else case parse_sse_object loads chunk of
          None \<Rightarrow>
            if starts_with ''data:'' (py_strip chunk) then EventMalformed
            else EventReleased [PassedThrough chunk] st
        | Some obj \<Rightarrow>
            (case dict_get obj ''choices'' of
               PList choices \<Rightarrow>
                 if choices = [] then EventReleased [PassedThrough chunk] st else guarded_object cfg chunk obj choices st
             | _ \<Rightarrow> EventReleased [PassedThrough chunk] st))"

text \<open>How the upstream ends, and how the guarded stream does.\<close>

datatype upstream_end = UpstreamFinished | UpstreamFailed string

datatype stream_outcome =
    StreamFinished
  | StreamInterrupted canary_match
  | StreamProtocolFailed
  | StreamOverflowed
  | StreamUpstreamFailed string

fun guarded_stream ::
    "guard_config \<Rightarrow> (string \<Rightarrow> pyval option) \<Rightarrow> string list \<Rightarrow> upstream_end \<Rightarrow> guarded_state
       \<Rightarrow> released_frame list \<times> stream_outcome" where
  "guarded_stream cfg loads [] ending st =
     (let flushed = (case fst (flush_event st) of None \<Rightarrow> [] | Some f \<Rightarrow> [f]) in
      case ending of
        UpstreamFailed e \<Rightarrow> (flushed, StreamUpstreamFailed e)
      | UpstreamFinished \<Rightarrow> (if gs_done st then [] else flushed, StreamFinished))"
| "guarded_stream cfg loads (chunk # chunks) ending st =
     (case guarded_event cfg loads chunk st of
        EventMalformed \<Rightarrow>
          (case fst (flush_event st) of None \<Rightarrow> [] | Some f \<Rightarrow> [f], StreamProtocolFailed)
      | EventOverflowed st' \<Rightarrow>
          (case fst (flush_event st') of None \<Rightarrow> [] | Some f \<Rightarrow> [f], StreamOverflowed)
      | EventInterrupted frames m \<Rightarrow> (frames, StreamInterrupted m)
      | EventReleased frames st' \<Rightarrow>
          (case guarded_stream cfg loads chunks ending st' of (rest, outcome) \<Rightarrow> (frames @ rest, outcome)))"

end
