(* ===== verification/CanaryProperties.thy ===== *)
theory CanaryProperties
  imports EvidenceCanary "HOL-Library.Multiset"
begin

text \<open>
  What the canary set and the streaming detector guarantee: the startup policy accepts only
  well-formed sets, the detector releases no canary and loses no text however the stream is
  split, and what it reports when one canary lies inside another.
\<close>

section \<open>The search\<close>

definition canary_free :: "canary_set \<Rightarrow> string \<Rightarrow> bool" where
  "canary_free cs s = (\<forall>p \<in> set (cs_patterns cs). \<not> sublist (cp_value p) s)"

definition hit_key :: "nat \<Rightarrow> canary_pattern \<Rightarrow> nat \<times> nat \<times> string" where
  "hit_key i p = (i, length (cp_value p), cp_id p)"

definition match_of :: "canary_pattern \<Rightarrow> canary_match" where
  "match_of p = \<lparr>cm_id = cp_id p, cm_tier = cp_tier p\<rparr>"

lemma consider_pattern_eq:
  "consider_pattern data p best = (case find_sub (cp_value p) data of None \<Rightarrow> best
    | Some i \<Rightarrow> if (case best of None \<Rightarrow> True | Some b \<Rightarrow> hit_key i p < fst b)
                then Some (hit_key i p, match_of p, i) else best)"
  unfolding consider_pattern_def hit_key_def match_of_def Let_def ..

lemma consider_None [simp]: "find_sub (cp_value p) data = None \<Longrightarrow> consider_pattern data p best = best"
  by (simp add: consider_pattern_eq)

lemma consider_Some:
  assumes "find_sub (cp_value p) data = Some i"
  obtains b where "consider_pattern data p best = Some b" "fst b \<le> hit_key i p"
    "\<And>b'. best = Some b' \<Longrightarrow> fst b \<le> fst b'" "b = (hit_key i p, match_of p, i) \<or> best = Some b"
proof (cases best)
  case None
  then show ?thesis using that [of "(hit_key i p, match_of p, i)"] assms by (simp add: consider_pattern_eq)
next
  case (Some b)
  show ?thesis
  proof (cases "hit_key i p < fst b")
    case True
    then show ?thesis using that [of "(hit_key i p, match_of p, i)"] assms Some by (simp add: consider_pattern_eq)
  next
    case False
    then have "consider_pattern data p best = Some b" using assms Some by (simp add: consider_pattern_eq)
    then show ?thesis using that [of b] Some False by (simp add: not_less)
  qed
qed

text \<open>The fold keeps the least hit.\<close>

lemma fold_consider_None:
  "fold (consider_pattern data) ps best = None \<longleftrightarrow>
     best = None \<and> (\<forall>p \<in> set ps. find_sub (cp_value p) data = None)"
proof (induction ps arbitrary: best)
  case (Cons p ps)
  have "consider_pattern data p best \<noteq> None" if "find_sub (cp_value p) data = Some i" for i
    by (rule consider_Some [OF that, of best]) simp
  then show ?case using Cons.IH by (cases "find_sub (cp_value p) data") auto
qed simp

lemma fold_consider_Some:
  assumes "fold (consider_pattern data) ps best = Some r"
  shows "(best = Some r \<or> (\<exists>p \<in> set ps. \<exists>i. find_sub (cp_value p) data = Some i \<and> r = (hit_key i p, match_of p, i)))
    \<and> (\<forall>b. best = Some b \<longrightarrow> fst r \<le> fst b)
    \<and> (\<forall>q \<in> set ps. \<forall>j. find_sub (cp_value q) data = Some j \<longrightarrow> fst r \<le> hit_key j q)"
  using assms
proof (induction ps arbitrary: best)
  case (Cons p ps)
  show ?case
  proof (cases "find_sub (cp_value p) data")
    case None
    then show ?thesis using Cons.IH [of best] Cons.prems by auto
  next
    case (Some i)
    obtain b where b: "consider_pattern data p best = Some b" "fst b \<le> hit_key i p"
      "\<And>b'. best = Some b' \<Longrightarrow> fst b \<le> fst b'" "b = (hit_key i p, match_of p, i) \<or> best = Some b"
      by (rule consider_Some [OF Some, of best]) blast
    have "fold (consider_pattern data) ps (Some b) = Some r" using Cons.prems b(1) by simp
    note ih = Cons.IH [OF this]
    then have le: "fst r \<le> fst b" by blast
    have "best = Some r \<or> (\<exists>q \<in> set (p # ps). \<exists>i. find_sub (cp_value q) data = Some i \<and> r = (hit_key i q, match_of q, i))"
      using ih b(4) Some by (metis list.set_intros option.inject)
    moreover have "\<forall>b'. best = Some b' \<longrightarrow> fst r \<le> fst b'" using le b(3) order_trans by blast
    moreover have "fst r \<le> hit_key j q" if "q \<in> set (p # ps)" "find_sub (cp_value q) data = Some j" for q j
    proof (cases "q = p")
      case True
      then show ?thesis using le b(2) Some that(2) order_trans by auto
    next
      case False
      then show ?thesis using ih that by simp
    qed
    ultimately show ?thesis by blast
  qed
qed auto

lemma find_None_iff: "find_with_position cs data = None \<longleftrightarrow> canary_free cs data"
  by (simp add: find_with_position_def fold_consider_None canary_free_def find_sub_None_iff)

lemma find_SomeD:
  assumes "find_with_position cs data = Some (m, i)"
  obtains p where "p \<in> set (cs_patterns cs)" "find_sub (cp_value p) data = Some i" "m = match_of p"
    "\<And>q j. q \<in> set (cs_patterns cs) \<Longrightarrow> find_sub (cp_value q) data = Some j \<Longrightarrow> hit_key i p \<le> hit_key j q"
proof -
  obtain r where r: "fold (consider_pattern data) (cs_patterns cs) None = Some r" "snd r = (m, i)"
    using assms by (auto simp: find_with_position_def)
  then obtain p where "p \<in> set (cs_patterns cs)" "find_sub (cp_value p) data = Some i" "r = (hit_key i p, match_of p, i)"
    using fold_consider_Some [OF r(1)] by auto
  with r that show thesis using fold_consider_Some [OF r(1)] by auto
qed

text \<open>Patterns with different ids make the least hit unique.\<close>

lemma find_SomeI:
  assumes "p \<in> set (cs_patterns cs)" and "find_sub (cp_value p) data = Some i"
    and "\<And>q j. q \<in> set (cs_patterns cs) \<Longrightarrow> find_sub (cp_value q) data = Some j \<Longrightarrow> hit_key i p \<le> hit_key j q"
    and "inj_on cp_id (set (cs_patterns cs))"
  shows "find_with_position cs data = Some (match_of p, i)"
proof -
  have "find_with_position cs data \<noteq> None"
    using assms(1,2) by (auto simp: find_None_iff canary_free_def simp flip: find_sub_None_iff)
  then obtain m j where f: "find_with_position cs data = Some (m, j)" by auto
  then obtain q where q: "q \<in> set (cs_patterns cs)" "find_sub (cp_value q) data = Some j" "m = match_of q"
    "\<And>q' j'. q' \<in> set (cs_patterns cs) \<Longrightarrow> find_sub (cp_value q') data = Some j' \<Longrightarrow> hit_key j q \<le> hit_key j' q'"
    by (rule find_SomeD) blast
  have "hit_key i p = hit_key j q" using assms(3) [OF q(1,2)] q(4) [OF assms(1,2)] by simp
  then have "i = j" "p = q" using assms(1,4) q(1) by (auto simp: hit_key_def dest: inj_onD)
  then show ?thesis using f q(3) by simp
qed

section \<open>Well-formed sets\<close>

definition valid_canary_set :: "canary_set \<Rightarrow> bool" where
  "valid_canary_set cs \<longleftrightarrow>
     distinct (map cp_id (cs_patterns cs)) \<and> distinct (map cp_value (cs_patterns cs))
     \<and> (\<forall>p \<in> set (cs_patterns cs). cp_value p \<noteq> [] \<and> length (cp_value p) \<le> Suc (cs_required_window cs))
     \<and> int (cs_required_window cs) \<le> cs_max_window cs"

lemma valid_inj: "valid_canary_set cs \<Longrightarrow> inj_on cp_id (set (cs_patterns cs))"
  by (simp add: valid_canary_set_def distinct_map)

lemma valid_empty_set: "valid_canary_set empty_canary_set"
  by (simp add: valid_canary_set_def empty_canary_set_def)

lemma check_distinct_Inr:
  "check_distinct ids vals ps = Inr () \<longleftrightarrow>
     distinct (map cp_id ps) \<and> distinct (map cp_value ps) \<and> cp_id ` set ps \<inter> ids = {} \<and> cp_value ` set ps \<inter> vals = {}"
  by (induction ids vals ps rule: check_distinct.induct) (auto simp: raise_if_Inr_iff)

lemma required_window_bound: "p \<in> set ps \<Longrightarrow> length (cp_value p) - 1 \<le> required_window ps"
  by (induction ps) (auto simp: required_window_def)

lemma make_canary_set_ok:
  assumes "make_canary_set ps w = Inr cs" and "\<And>p. p \<in> set ps \<Longrightarrow> cp_value p \<noteq> []"
  shows "valid_canary_set cs \<and> set (cs_patterns cs) = set ps \<and> PInt (cs_max_window cs) = w"
proof -
  obtain m where m: "window_int ''max_window'' w = Inr m" "check_distinct {} {} ps = Inr ()" "int (required_window ps) \<le> m"
    and cs: "cs = \<lparr>cs_patterns = sort_key canary_sort_key ps, cs_max_window = m, cs_required_window = required_window ps\<rparr>"
    using assms(1) by (auto simp: make_canary_set_def try_bind_Inr_iff raise_if_Inr_iff)
  have "w = PInt m" using m(1) by (cases w) (auto simp: window_int_def)
  moreover have "mset (sort_key canary_sort_key ps) = mset ps" by simp
  then have "distinct (map f (sort_key canary_sort_key ps)) = distinct (map f ps)" for f :: "canary_pattern \<Rightarrow> string"
    by (metis mset_map mset_eq_imp_distinct_iff)
  ultimately show ?thesis
    using m(2,3) cs assms(2) required_window_bound [of _ ps]
    by (auto simp: valid_canary_set_def check_distinct_Inr le_diff_conv)
qed

section \<open>The streaming detector\<close>

text \<open>The text is fed piece by piece until something is detected.\<close>

fun guard_chunks :: "canary_detector \<Rightarrow> string list \<Rightarrow> (string \<times> canary_detection option) \<times> canary_detector" where
  "guard_chunks d [] = (([], None), d)"
| "guard_chunks d (x # xs) =
     (case feed_guarded d x of
        ((out, Some dt), d') \<Rightarrow> ((out, Some dt), d')
      | ((out, None), d') \<Rightarrow> (case guard_chunks d' xs of ((outs, r), d'') \<Rightarrow> ((out @ outs, r), d'')))"

text \<open>After the text \<open>seen\<close> has passed, the carry is its last characters, as many as the window.\<close>

definition detector_at :: "canary_set \<Rightarrow> string \<Rightarrow> canary_detector \<Rightarrow> bool" where
  "detector_at cs seen d \<longleftrightarrow> cd_canaries d = cs \<and> canary_free cs seen
     \<and> cd_carry d = drop (length seen - cs_required_window cs) seen"

lemma detector_at_new: "valid_canary_set cs \<Longrightarrow> detector_at cs [] (new_canary_detector cs)"
  by (auto simp: detector_at_def new_canary_detector_def canary_free_def valid_canary_set_def)

text \<open>An occurrence in the whole text is an occurrence in the carry and the new piece.\<close>

lemma find_sub_Some_iff:
  "find_sub p s = Some i \<longleftrightarrow> i \<le> length s \<and> starts_with p (drop i s) \<and> (\<forall>j < i. \<not> starts_with p (drop j s))"
proof
  assume "find_sub p s = Some i"
  then show "i \<le> length s \<and> starts_with p (drop i s) \<and> (\<forall>j < i. \<not> starts_with p (drop j s))"
    using find_sub_SomeD find_sub_least by blast
next
  assume i: "i \<le> length s \<and> starts_with p (drop i s) \<and> (\<forall>j < i. \<not> starts_with p (drop j s))"
  then obtain k where k: "find_sub p s = Some k" using find_sub_NoneD by fastforce
  then have "k \<le> length s" "starts_with p (drop k s)" "\<And>j. j < k \<Longrightarrow> \<not> starts_with p (drop j s)"
    using find_sub_SomeD find_sub_least by blast+
  then show "find_sub p s = Some i" using i k by (metis linorder_neqE_nat)
qed

lemma starts_with_sublist: "starts_with p (drop i s) \<Longrightarrow> sublist p s"
  by (metis append_take_drop_id prefix_def starts_with_prefix sublist_def)

lemma early_occurrence:
  assumes "\<not> sublist v seen" and "length v \<le> Suc w" and "j < length seen - w"
  shows "\<not> starts_with v (drop j (seen @ x))"
proof
  assume "starts_with v (drop j (seen @ x))"
  then have "take (length v) (drop j seen @ x) = v" using assms(3) by (simp add: starts_with_def)
  moreover have "length v \<le> length (drop j seen)" using assms(2,3) by simp
  ultimately have "starts_with v (drop j seen)" by (simp add: starts_with_def)
  with assms(1) show False by (metis starts_with_sublist)
qed

lemma find_sub_window:
  assumes "\<not> sublist v seen" and "length v \<le> Suc w" and "n = length seen - w"
  shows "find_sub v (seen @ x) = map_option (\<lambda>i. i + n) (find_sub v (drop n seen @ x))"
proof -
  have d: "drop n seen @ x = drop n (seen @ x)" using assms(3) by simp
  have early: "\<not> starts_with v (drop j (seen @ x))" if "j < n" for j
    using early_occurrence [OF assms(1,2)] that assms(3) by simp
  show ?thesis
  proof (cases "find_sub v (drop n seen @ x)")
    case None
    have "\<not> starts_with v (drop j (seen @ x))" if "j \<le> length (seen @ x)" for j
    proof (cases "j < n")
      case False
      then have "drop j (seen @ x) = drop (j - n) (drop n (seen @ x))" unfolding drop_drop by simp
      then show ?thesis using find_sub_NoneD [OF None, of "j - n"] False that assms(3) by (simp add: d [symmetric])
    qed (rule early)
    then have "find_sub v (seen @ x) = None" using find_sub_SomeD by (metis not_Some_eq)
    then show ?thesis using None by simp
  next
    case (Some i)
    then have i: "i \<le> length (drop n (seen @ x))" "starts_with v (drop i (drop n (seen @ x)))"
      "\<forall>j < i. \<not> starts_with v (drop j (drop n (seen @ x)))"
      unfolding d find_sub_Some_iff by blast+
    have "find_sub v (seen @ x) = Some (i + n)"
      unfolding find_sub_Some_iff
    proof (intro conjI allI impI)
      show "\<not> starts_with v (drop j (seen @ x))" if "j < i + n" for j
      proof (cases "j < n")
        case False
        then have "drop j (seen @ x) = drop (j - n) (drop n (seen @ x))" unfolding drop_drop by simp
        then show ?thesis using i(3) False that by (metis less_diff_conv2 not_less)
      qed (rule early)
    qed (use i assms(3) in \<open>auto simp: add.commute\<close>)
    then show ?thesis using Some by simp
  qed
qed

lemma find_window:
  assumes "valid_canary_set cs" and "canary_free cs seen" and n: "n = length seen - cs_required_window cs"
  shows "find_with_position cs (seen @ x) = map_option (\<lambda>(m, i). (m, i + n)) (find_with_position cs (drop n seen @ x))"
proof -
  have w: "find_sub (cp_value p) (seen @ x) = map_option (\<lambda>i. i + n) (find_sub (cp_value p) (drop n seen @ x))"
    if "p \<in> set (cs_patterns cs)" for p
    using find_sub_window [of "cp_value p" seen "cs_required_window cs" n x] that assms
    by (auto simp: valid_canary_set_def canary_free_def)
  show ?thesis
  proof (cases "find_with_position cs (drop n seen @ x)")
    case None
    then have "find_with_position cs (seen @ x) = None"
      using w by (simp add: find_None_iff canary_free_def flip: find_sub_None_iff)
    then show ?thesis using None by simp
  next
    case (Some r)
    obtain m i where r: "r = (m, i)" by fastforce
    obtain p where p: "p \<in> set (cs_patterns cs)" "find_sub (cp_value p) (drop n seen @ x) = Some i" "m = match_of p"
      "\<And>q j. q \<in> set (cs_patterns cs) \<Longrightarrow> find_sub (cp_value q) (drop n seen @ x) = Some j \<Longrightarrow> hit_key i p \<le> hit_key j q"
      using Some r find_SomeD by metis
    have "hit_key (i + n) p \<le> hit_key j q" if q: "q \<in> set (cs_patterns cs)" "find_sub (cp_value q) (seen @ x) = Some j" for q j
    proof -
      obtain j' where "find_sub (cp_value q) (drop n seen @ x) = Some j'" "j = j' + n" using w [OF q(1)] q(2) by (cases "find_sub (cp_value q) (drop n seen @ x)") auto
      then show ?thesis using p(4) [OF q(1)] by (fastforce simp: hit_key_def)
    qed
    then have "find_with_position cs (seen @ x) = Some (match_of p, i + n)"
      using find_SomeI [OF p(1) _ _ valid_inj [OF assms(1)]] w [OF p(1)] p(2) by simp
    then show ?thesis using Some r p(3) by simp
  qed
qed

lemma feed_guarded_None:
  assumes "valid_canary_set cs" and at: "detector_at cs seen d" and free: "canary_free cs (seen @ x)"
  obtains out d' where "feed_guarded d x = ((out, None), d')" "detector_at cs (seen @ x) d'"
    "take (length seen - cs_required_window cs) seen @ out = take (length (seen @ x) - cs_required_window cs) (seen @ x)"
proof -
  let ?w = "cs_required_window cs" and ?n = "length seen - cs_required_window cs"
  let ?m = "length (seen @ x) - cs_required_window cs"
  have data: "cd_carry d @ x = drop ?n seen @ x" and cs: "cd_canaries d = cs"
    using at by (simp_all add: detector_at_def)
  have le: "?n \<le> length seen" "?n \<le> ?m" and len: "length (drop ?n seen @ x) - ?w = ?m - ?n" by simp_all
  note split = take_drop_split [OF le, of x]
  have none: "find_with_position cs (drop ?n seen @ x) = None"
    using find_window [OF assms(1) _ refl, of seen x] at free
    by (auto simp: detector_at_def simp flip: find_None_iff)
  have "feed_guarded d x = ((take (?m - ?n) (drop ?n seen @ x), None), d\<lparr>cd_carry := drop (?m - ?n) (drop ?n seen @ x)\<rparr>)"
    using none unfolding feed_guarded_def Let_def cs data len [symmetric] by auto
  moreover have "detector_at cs (seen @ x) (d\<lparr>cd_carry := drop (?m - ?n) (drop ?n seen @ x)\<rparr>)"
    using cs free unfolding split(2) [symmetric] by (simp add: detector_at_def)
  ultimately show thesis using that split(1) by metis
qed

lemma feed_guarded_Some:
  assumes "valid_canary_set cs" and at: "detector_at cs seen d"
    and f: "find_with_position cs (seen @ x) = Some (m, i)"
  obtains out dt d' where "feed_guarded d x = ((out, Some dt), d')" "dt_match dt = m"
    "take (length seen - cs_required_window cs) seen @ out = take i (seen @ x)"
proof -
  let ?n = "length seen - cs_required_window cs"
  have data: "cd_carry d @ x = drop ?n seen @ x" and cs: "cd_canaries d = cs"
    using at by (simp_all add: detector_at_def)
  obtain k where k: "find_with_position cs (drop ?n seen @ x) = Some (m, k)" "i = k + ?n"
    using find_window [OF assms(1) _ refl, of seen x] at f
    by (cases "find_with_position cs (drop ?n seen @ x)") (auto simp: detector_at_def)
  have "feed_guarded d x = ((take k (drop ?n seen @ x), Some (detection_at m k (length (cd_carry d)))), d\<lparr>cd_carry := []\<rparr>)"
    using k(1) unfolding feed_guarded_def Let_def cs data by simp
  moreover have "?n \<le> length seen" "?n \<le> i" "i - ?n = k" using k(2) by simp_all
  then have "take ?n seen @ take k (drop ?n seen @ x) = take i (seen @ x)"
    using take_drop_split(1) [of ?n seen i x] by simp
  ultimately show thesis using that by (simp add: detection_at_def)
qed

lemma canary_free_prefix: "canary_free cs s \<Longrightarrow> prefix t s \<Longrightarrow> canary_free cs t"
  unfolding canary_free_def using prefix_imp_sublist sublist_order.order_trans by blast

text \<open>What has been released when the pieces are through, or up to the piece that matched.\<close>

lemma guard_chunks_from:
  assumes "valid_canary_set cs" and "detector_at cs seen d"
    and "guard_chunks d xs = ((out, r), d')"
  shows "case r of
      None \<Rightarrow> detector_at cs (seen @ concat xs) d'
        \<and> take (length seen - cs_required_window cs) seen @ out
          = take (length (seen @ concat xs) - cs_required_window cs) (seen @ concat xs)
    | Some dt \<Rightarrow> \<exists>k i. find_with_position cs (seen @ concat (take k xs)) = Some (dt_match dt, i)
        \<and> take (length seen - cs_required_window cs) seen @ out = take i (seen @ concat (take k xs))"
  using assms(2,3)
proof (induction xs arbitrary: seen d out)
  case Nil
  then show ?case by simp
next
  case (Cons x xs)
  show ?case
  proof (cases "find_with_position cs (seen @ x)")
    case None
    then have "canary_free cs (seen @ x)" by (simp add: find_None_iff)
    from feed_guarded_None [OF assms(1) Cons.prems(1) this]
    obtain o1 d1 where d1: "feed_guarded d x = ((o1, None), d1)" "detector_at cs (seen @ x) d1"
      "take (length seen - cs_required_window cs) seen @ o1 = take (length (seen @ x) - cs_required_window cs) (seen @ x)" by blast
    obtain o2 where o2: "guard_chunks d1 xs = ((o2, r), d')" "out = o1 @ o2"
      using Cons.prems(2) d1(1) by (auto split: prod.splits)
    have ih: "case r of None \<Rightarrow> detector_at cs ((seen @ x) @ concat xs) d'
        \<and> take (length (seen @ x) - cs_required_window cs) (seen @ x) @ o2
          = take (length ((seen @ x) @ concat xs) - cs_required_window cs) ((seen @ x) @ concat xs)
    | Some dt \<Rightarrow> \<exists>k i. find_with_position cs ((seen @ x) @ concat (take k xs)) = Some (dt_match dt, i)
        \<and> take (length (seen @ x) - cs_required_window cs) (seen @ x) @ o2 = take i ((seen @ x) @ concat (take k xs))"
      by (rule Cons.IH [OF d1(2) o2(1)])
    have o: "take (length seen - cs_required_window cs) seen @ out = take (length (seen @ x) - cs_required_window cs) (seen @ x) @ o2"
      using o2(2) d1(3) by (metis append.assoc)
    show ?thesis
    proof (cases r)
      case None
      then show ?thesis using ih unfolding o by simp
    next
      case (Some dt)
      then obtain k i where "find_with_position cs ((seen @ x) @ concat (take k xs)) = Some (dt_match dt, i)"
        "take (length (seen @ x) - cs_required_window cs) (seen @ x) @ o2 = take i ((seen @ x) @ concat (take k xs))"
        using ih by auto
      then have "find_with_position cs (seen @ concat (take (Suc k) (x # xs))) = Some (dt_match dt, i)"
        "take (length seen - cs_required_window cs) seen @ out = take i (seen @ concat (take (Suc k) (x # xs)))"
        unfolding o by simp_all
      then show ?thesis unfolding Some option.case by blast
    qed
  next
    case (Some mi)
    obtain m i where mi: "find_with_position cs (seen @ x) = Some (m, i)" using Some by (cases mi) auto
    from feed_guarded_Some [OF assms(1) Cons.prems(1) this]
    obtain o1 dt d1 where d1: "feed_guarded d x = ((o1, Some dt), d1)" "dt_match dt = m"
      "take (length seen - cs_required_window cs) seen @ o1 = take i (seen @ x)" by blast
    then have "out = o1" "r = Some dt" using Cons.prems(2) by simp_all
    moreover have "concat (take 1 (x # xs)) = x" by simp
    ultimately show ?thesis using d1 mi by (metis (mono_tags, lifting) option.simps(5))
  qed
qed

lemma find_Some_take_free:
  assumes "valid_canary_set cs" and "find_with_position cs s = Some (m, i)"
  shows "canary_free cs (take i s) \<and> \<not> canary_free cs s \<and> i < length s"
proof -
  obtain p where p: "p \<in> set (cs_patterns cs)" "find_sub (cp_value p) s = Some i"
    "\<And>q j. q \<in> set (cs_patterns cs) \<Longrightarrow> find_sub (cp_value q) s = Some j \<Longrightarrow> hit_key i p \<le> hit_key j q"
    using assms(2) find_SomeD by metis
  have ne: "cp_value q \<noteq> []" if "q \<in> set (cs_patterns cs)" for q using assms(1) that by (simp add: valid_canary_set_def)
  have "\<not> sublist (cp_value q) (take i s)" if q: "q \<in> set (cs_patterns cs)" for q
  proof
    assume "sublist (cp_value q) (take i s)"
    then obtain j where j: "find_sub (cp_value q) (take i s) = Some j" using find_sub_None_iff by fastforce
    have "j + length (cp_value q) \<le> length (take i s)" using find_sub_length [OF j] .
    then have ji: "j < i" using ne [OF q] by (cases "cp_value q") auto
    have "starts_with (cp_value q) (drop j (take i s))" using find_sub_SomeD [OF j] by simp
    then have st: "starts_with (cp_value q) (drop j s)"
      by (metis append_take_drop_id drop_append prefix_append starts_with_prefix)
    moreover have "sublist (cp_value q) s" using st by (rule starts_with_sublist)
    then obtain k where k: "find_sub (cp_value q) s = Some k" using find_sub_None_iff by fastforce
    then have "k \<le> j" using find_sub_least [OF k, of j] st by (meson not_less)
    then show False using p(3) [OF q k] ji by (simp add: hit_key_def)
  qed
  moreover have "\<not> canary_free cs s" using assms(2) by (simp flip: find_None_iff)
  moreover have "i < length s" using find_sub_length [OF p(2)] ne [OF p(1)] by (cases "cp_value p") auto
  ultimately show ?thesis by (simp add: canary_free_def)
qed

section \<open>Properties\<close>

definition example_canaries :: canary_set where
  "example_canaries = \<lparr>cs_patterns =
     [\<lparr>cp_id = ''inner'', cp_tier = TierB, cp_value = ''bcdefghi''\<rparr>,
      \<lparr>cp_id = ''outer'', cp_tier = TierA, cp_value = ''abcdefghij''\<rparr>],
     cs_max_window = 256, cs_required_window = 9\<rparr>"

definition example_single :: canary_set where
  "example_single = \<lparr>cs_patterns = [\<lparr>cp_id = ''c'', cp_tier = TierA, cp_value = ''abcdefgh''\<rparr>],
     cs_max_window = 256, cs_required_window = 7\<rparr>"

lemma example_canaries_valid: "valid_canary_set example_canaries" "valid_canary_set example_single"
  by (simp_all add: valid_canary_set_def example_canaries_def example_single_def)

lemma guard_chunks_sound:
  assumes "valid_canary_set cs" and "guard_chunks (new_canary_detector cs) pieces = ((out, r), d)"
  shows "canary_free cs out \<and> prefix out (concat pieces)
    \<and> (r = None \<longleftrightarrow> canary_free cs (concat pieces))
    \<and> (r = None \<longrightarrow> out @ cd_carry d = concat pieces \<and> length (cd_carry d) \<le> cs_required_window cs)"
proof -
  let ?s = "concat pieces"
  note whole = guard_chunks_from [OF assms(1) detector_at_new [OF assms(1)] assms(2)]
  show ?thesis
  proof (cases r)
    case None
    then have at: "detector_at cs ?s d" and out: "out = take (length ?s - cs_required_window cs) ?s"
      using whole by simp_all
    then have "out @ cd_carry d = ?s" by (simp add: detector_at_def)
    moreover have "canary_free cs ?s" using at by (simp add: detector_at_def)
    moreover have "prefix out ?s" unfolding out by (rule take_is_prefix)
    moreover have "length (cd_carry d) \<le> cs_required_window cs" using at by (simp add: detector_at_def)
    ultimately show ?thesis using None canary_free_prefix by blast
  next
    case (Some dt)
    then obtain k i where k: "find_with_position cs (concat (take k pieces)) = Some (dt_match dt, i)"
      "out = take i (concat (take k pieces))" using whole by auto
    have pre: "prefix (concat (take k pieces)) ?s"
      by (metis append_take_drop_id concat_append prefixI)
    then have "prefix out ?s" using k(2) take_is_prefix prefix_order.trans by blast
    moreover have "\<not> canary_free cs ?s"
      using find_Some_take_free [OF assms(1) k(1)] canary_free_prefix [OF _ pre] by blast
    ultimately show ?thesis using Some find_Some_take_free [OF assms(1) k(1)] k(2) by simp
  qed
qed

text \<open>C36. The streaming detector releases no canary, however the stream is split. If nothing is
  detected, the text contains no canary and has been released but for a tail shorter than every
  look-behind needs; if something is, the text does contain a canary, and what was released is
  the free text before the match.\<close>

theorem canary_release_sound:
  assumes "valid_canary_set cs" and "guard_chunks (new_canary_detector cs) pieces = ((out, r), d)"
  shows "canary_free cs out \<and> prefix out (concat pieces)
    \<and> (r = None \<longleftrightarrow> canary_free cs (concat pieces))
    \<and> (r = None \<longrightarrow> out @ cd_carry d = concat pieces \<and> length (cd_carry d) \<le> cs_required_window cs)"
  by (rule guard_chunks_sound [OF assms])

theorem canary_release_sound_witness:
  "canary_free example_single ''xx ab''"
proof -
  have "guard_chunks (new_canary_detector example_single) [''xx abcd'', ''xx'', ''abcde'', ''fgh''] =
      ((''xx abcdxx'', Some (detection_at \<lparr>cm_id = ''c'', cm_tier = TierA\<rparr> 2 7)), new_canary_detector example_single)"
    by code_simp
  from canary_release_sound [OF example_canaries_valid(2) this]
  have "canary_free example_single ''xx abcdxx''" by simp
  then show ?thesis by (rule canary_free_prefix) (simp add: prefix_def)
qed

text \<open>No canary inside another.\<close>

definition no_nested :: "canary_set \<Rightarrow> bool" where
  "no_nested cs = (\<forall>p \<in> set (cs_patterns cs). \<forall>q \<in> set (cs_patterns cs). p \<noteq> q \<longrightarrow> \<not> sublist (cp_value p) (cp_value q))"

lemma starts_with_prefix_text:
  assumes "prefix t s" and "j + length p \<le> length t"
  shows "starts_with p (drop j s) \<longleftrightarrow> starts_with p (drop j t)"
proof -
  obtain u where s: "s = t @ u" using assms(1) by (auto simp: prefix_def)
  have "take (length p) (drop j s) = take (length p) (drop j t)" using assms(2) by (simp add: s)
  then show ?thesis by (simp add: starts_with_def)
qed

lemma find_prefix_stable:
  assumes "valid_canary_set cs" and "no_nested cs" and "prefix t s" and "find_with_position cs t = Some (m, i)"
  shows "find_with_position cs s = Some (m, i)"
proof -
  obtain p where p: "p \<in> set (cs_patterns cs)" "find_sub (cp_value p) t = Some i" "m = match_of p"
    "\<And>q j. q \<in> set (cs_patterns cs) \<Longrightarrow> find_sub (cp_value q) t = Some j \<Longrightarrow> hit_key i p \<le> hit_key j q"
    using assms(4) find_SomeD by metis
  have len: "i + length (cp_value p) \<le> length t" by (rule find_sub_length [OF p(2)])
  have ts: "length t \<le> length s" using assms(3) by (rule prefix_length_le)
  have ps: "find_sub (cp_value p) s = Some i"
    using p(2) len ts starts_with_prefix_text [OF assms(3), of _ "cp_value p"]
    unfolding find_sub_Some_iff by (metis add_le_mono1 dual_order.trans less_imp_le)
  have "hit_key i p \<le> hit_key j q" if q: "q \<in> set (cs_patterns cs)" "find_sub (cp_value q) s = Some j" for q j
  proof (cases "j + length (cp_value q) \<le> length t")
    case True
    have "starts_with (cp_value q) (drop j t)"
      using find_sub_SomeD [OF q(2)] starts_with_prefix_text [OF assms(3) True] by simp
    moreover from this have "find_sub (cp_value q) t \<noteq> None" using starts_with_sublist by (simp add: find_sub_None_iff)
    ultimately obtain k where k: "find_sub (cp_value q) t = Some k" "k \<le> j"
      using find_sub_least by (metis linorder_not_le option.exhaust)
    then have "hit_key k q \<le> hit_key j q" by (simp add: hit_key_def)
    then show ?thesis using p(4) [OF q(1) k(1)] order_trans by blast
  next
    case False
    show ?thesis
    proof (cases "i < j")
      case True
      then show ?thesis by (simp add: hit_key_def)
    next
      case ij: False
      have sp: "take (length (cp_value p)) (drop i s) = cp_value p" and sq: "take (length (cp_value q)) (drop j s) = cp_value q"
        using find_sub_SomeD [OF ps] find_sub_SomeD [OF q(2)] by (simp_all add: starts_with_def)
      have "take (length (cp_value p)) (drop (i - j) (take (length (cp_value q)) (drop j s))) = take (length (cp_value p)) (drop i s)"
        using ij len False by (simp add: drop_take min_def)
      then have "take (length (cp_value p)) (drop (i - j) (cp_value q)) = cp_value p" using sp sq by simp
      then have "sublist (cp_value p) (cp_value q)" by (intro starts_with_sublist [of _ "i - j"]) (simp add: starts_with_def)
      then have "p = q" using assms(2) p(1) q(1) unfolding no_nested_def by blast
      then show ?thesis using ps q(2) by simp
    qed
  qed
  then show ?thesis using find_SomeI [OF p(1) ps _ valid_inj [OF assms(1)]] p(3) by simp
qed

text \<open>When no canary lies inside another, the split of the stream does not matter at all: what
  is detected, and how much is released before it, is what a search of the whole text gives.\<close>

theorem canary_chunking_irrelevant:
  assumes "valid_canary_set cs" and "no_nested cs"
    and "guard_chunks (new_canary_detector cs) pieces = ((out, r), d)"
  shows "map_option dt_match r = find_canary cs (concat pieces)
    \<and> (\<forall>m i. find_with_position cs (concat pieces) = Some (m, i) \<longrightarrow> out = take i (concat pieces))"
proof -
  note whole = guard_chunks_from [OF assms(1) detector_at_new [OF assms(1)] assms(3)]
  show ?thesis
  proof (cases r)
    case None
    then have "find_with_position cs (concat pieces) = None"
      using whole by (simp add: detector_at_def find_None_iff)
    then show ?thesis using None by (simp add: find_canary_def)
  next
    case (Some dt)
    then obtain k i where k: "find_with_position cs (concat (take k pieces)) = Some (dt_match dt, i)"
      "out = take i (concat (take k pieces))" using whole by auto
    have pre: "prefix (concat (take k pieces)) (concat pieces)"
      by (metis append_take_drop_id concat_append prefixI)
    have "i < length (concat (take k pieces))" using find_Some_take_free [OF assms(1) k(1)] by simp
    then have "out = take i (concat pieces)" using k(2) pre by (auto simp: prefix_def)
    then show ?thesis using find_prefix_stable [OF assms(1,2) pre k(1)] Some by (simp add: find_canary_def)
  qed
qed

theorem canary_chunking_irrelevant_witness:
  "find_canary example_single ''xx abcdefgh'' = Some \<lparr>cm_id = ''c'', cm_tier = TierA\<rparr>"
proof -
  have g: "guard_chunks (new_canary_detector example_single) [''xx abcd'', ''efgh''] =
      ((''xx '', Some (detection_at \<lparr>cm_id = ''c'', cm_tier = TierA\<rparr> 3 7)), new_canary_detector example_single)"
    by code_simp
  have "no_nested example_single" by (simp add: no_nested_def example_single_def)
  from canary_chunking_irrelevant [OF example_canaries_valid(2) this g]
  show ?thesis by (simp add: detection_at_def)
qed

text \<open>Without that condition the split does matter: for one canary inside another, the whole
  text in one piece reports the outer one and releases nothing, the same text cut before its
  last character reports the inner one after releasing the outer one's first character.\<close>

theorem nested_canary_depends_on_chunks:
  "map_option dt_match (snd (fst (guard_chunks (new_canary_detector example_canaries) [''abcdefghij''])))
     = Some \<lparr>cm_id = ''outer'', cm_tier = TierA\<rparr>
   \<and> fst (fst (guard_chunks (new_canary_detector example_canaries) [''abcdefghij''])) = ''''
   \<and> map_option dt_match (snd (fst (guard_chunks (new_canary_detector example_canaries) [''abcdefghi'', ''j''])))
     = Some \<lparr>cm_id = ''inner'', cm_tier = TierB\<rparr>
   \<and> fst (fst (guard_chunks (new_canary_detector example_canaries) [''abcdefghi'', ''j''])) = ''a''"
  by code_simp

definition static_canary :: "canary_pattern \<Rightarrow> bool" where
  "static_canary p \<longleftrightarrow> cp_tier p \<in> {TierA, TierB} \<and> length (cp_value p) \<ge> 8
     \<and> list_all canary_id_char (cp_id p) \<and> length (cp_id p) \<in> {1..128}"

lemma make_canary_pattern_Inr:
  "make_canary_pattern i t (PStr s) = Inr p \<Longrightarrow>
     cp_tier p = t \<and> cp_value p = s \<and> s \<noteq> [] \<and> list_all canary_id_char (cp_id p) \<and> length (cp_id p) \<in> {1..128}"
  by (cases i) (auto simp: make_canary_pattern_def raise_if_Inr_iff Suc_le_eq)

lemma static_tier_Inr: "static_tier n v = Inr t \<Longrightarrow> t \<in> {TierA, TierB}"
  by (auto simp: static_tier_def split: pyval.splits if_splits)

lemma static_value_Inr:
  assumes "static_value n d t = Inr p" and "t \<in> {TierA, TierB}"
  shows "static_canary p"
proof (cases "dict_get d ''value''")
  case (PStr s)
  then have "length s \<ge> 8" "make_canary_pattern (dict_get d ''id'') t (PStr s) = Inr p"
    using assms(1) by (simp_all add: static_value_def raise_if_Inr_iff guarded_by_Inr_iff STATIC_CANARY_MIN_VALUE_LENGTH_def)
  then show ?thesis using assms(2) make_canary_pattern_Inr by (fastforce simp: static_canary_def)
qed (use assms(1) in \<open>simp_all add: static_value_def\<close>)

lemma static_pattern_Inr: "static_pattern (n, v) = Inr p \<Longrightarrow> static_canary p"
  by (cases v) (auto simp: static_pattern_def raise_if_Inr_iff try_bind_Inr_iff dest: static_value_Inr static_tier_Inr)

lemma static_patterns_Inr:
  assumes "static_patterns v = Inr ps"
  shows "length ps \<le> 128 \<and> (\<forall>p \<in> set ps. static_canary p)"
proof -
  obtain d where v: "v = PDict d" using assms by (cases v) (auto simp: static_patterns_def)
  obtain items where items: "dict_get d ''patterns'' = PList items"
    using assms by (cases "dict_get d ''patterns''") (auto simp: static_patterns_def v raise_if_Inr_iff)
  then have l: "length items \<le> 128" and a: "list_all2 (\<lambda>x y. static_pattern x = Inr y) (enumerate 0 items) ps"
    using assms by (auto simp: static_patterns_def v raise_if_Inr_iff try_map_Inr_iff STATIC_CANARY_MAX_PATTERNS_def)
  have "length ps = length items" using list_all2_lengthD [OF a] by simp
  moreover have "static_canary p" if "p \<in> set ps" for p
  proof -
    from that obtain k where "k < length ps" "p = ps ! k" by (metis in_set_conv_nth)
    then have "static_pattern (enumerate 0 items ! k) = Inr p" using a by (simp add: list_all2_conv_all_nth)
    then show ?thesis by (metis static_pattern_Inr surj_pair)
  qed
  ultimately show ?thesis using l by simp
qed

text \<open>A startup canary policy that is accepted is well-formed and bounded: it belongs to the
  given runtime and lane, has at most 128 canaries of tier A or B with distinct safe ids and
  distinct values of 8 to 257 characters, and its look-behind window covers each of them.\<close>

theorem static_canary_policy_ok:
  assumes "build_static_canary_policy loads runtime_id lane_id raw = Inr pol"
  shows "valid_canary_set (cy_canaries pol) \<and> cy_runtime_id pol = runtime_id \<and> cy_lane_id pol = lane_id
    \<and> canary_count (cy_canaries pol) \<le> 128
    \<and> (\<forall>p \<in> set (cs_patterns (cy_canaries pol)). static_canary p \<and> length (cp_value p) \<le> 257)"
proof -
  have own: "cy_runtime_id q = runtime_id \<and> cy_lane_id q = lane_id \<and> cy_canaries q = cs"
    if "make_canary_policy runtime_id lane_id cs = Inr q" for cs q
    using that by (auto simp: make_canary_policy_def raise_if_Inr_iff)
  show ?thesis
  proof (cases "py_strip raw = []")
    case True
    then have "make_canary_policy runtime_id lane_id empty_canary_set = Inr pol"
      using assms by (simp add: build_static_canary_policy_def)
    then show ?thesis using own valid_empty_set by (auto simp: canary_count_def empty_canary_set_def)
  next
    case False
    then obtain v where "loads (py_strip raw) = Some v"
      using assms by (auto simp: build_static_canary_policy_def Let_def split: option.splits)
    then obtain ps cs where ps: "static_patterns v = Inr ps"
      and cs: "make_canary_set ps (PInt (if ps \<noteq> [] then STATIC_CANARY_MAX_WINDOW else 0)) = Inr cs"
      and pol: "make_canary_policy runtime_id lane_id cs = Inr pol"
      using assms False by (auto simp: build_static_canary_policy_def Let_def try_bind_Inr_iff guarded_by_Inr_iff)
    have st: "length ps \<le> 128" "\<forall>p \<in> set ps. static_canary p" using static_patterns_Inr [OF ps] by blast+
    then have "cp_value p \<noteq> []" if "p \<in> set ps" for p using that by (auto simp: static_canary_def)
    from make_canary_set_ok [OF cs this]
    have ok: "valid_canary_set cs" "set (cs_patterns cs) = set ps" "cs_max_window cs \<le> 256"
      by (simp_all add: STATIC_CANARY_MAX_WINDOW_def split: if_splits)
    have "length (cs_patterns cs) = length ps"
      using ok(1,2) cs by (auto simp: make_canary_set_def try_bind_Inr_iff raise_if_Inr_iff)
    moreover have "length (cp_value p) \<le> 257" if "p \<in> set ps" for p
      using ok that by (fastforce simp: valid_canary_set_def)
    ultimately show ?thesis using ok st own [OF pol] by (simp add: canary_count_def)
  qed
qed

theorem static_canary_policy_ok_witness:
  "\<exists>pol. build_static_canary_policy (\<lambda>t. Some (PDict [(''version'', PInt 1), (''patterns'',
       PList [PDict [(''id'', PStr ''c1''), (''tier'', PStr ''A''), (''value'', PStr ''secret-token'')]])])) ''rt'' ''lane'' ''x'' = Inr pol
     \<and> canary_count (cy_canaries pol) \<le> 128 \<and> valid_canary_set (cy_canaries pol)"
proof -
  let ?b = "build_static_canary_policy (\<lambda>t. Some (PDict [(''version'', PInt 1), (''patterns'',
       PList [PDict [(''id'', PStr ''c1''), (''tier'', PStr ''A''), (''value'', PStr ''secret-token'')]])])) ''rt'' ''lane'' ''x''"
  have "(case ?b of Inl _ \<Rightarrow> False | Inr _ \<Rightarrow> True)" by code_simp
  then obtain pol where "?b = Inr pol" by (auto split: sum.splits)
  from static_canary_policy_ok [OF this] this show ?thesis by blast
qed

end
