(* ===== verification/GuardedChannels.thy ===== *)
theory GuardedChannels
  imports GuardedStream CanaryProperties
begin

text \<open>
  What the guarded stream does to one text channel, end to end. The text of a channel is read
  off the frames on both sides; the invariant says that a channel's detector, filter and
  quarantine have together processed exactly the text since the channel was last flushed.
\<close>

section \<open>The text of a channel\<close>

definition slot_key :: "text_slot \<Rightarrow> text_channel" where
  "slot_key s = (ts_choice s, ts_field s)"

definition delta_of :: "pyval \<Rightarrow> pydict option" where
  "delta_of choice = (case choice of
       PDict c \<Rightarrow> (case dict_get c ''delta'' of PDict d \<Rightarrow> Some d | _ \<Rightarrow> None)
     | _ \<Rightarrow> None)"

definition index_of :: "nat \<Rightarrow> pyval \<Rightarrow> int" where
  "index_of o' choice = (case choice of PDict c \<Rightarrow> choice_index o' c | _ \<Rightarrow> int o')"

definition text_at :: "text_channel \<Rightarrow> nat \<times> pyval \<Rightarrow> string" where
  "text_at key oc = (case delta_of (snd oc) of
       None \<Rightarrow> []
     | Some d \<Rightarrow> if index_of (fst oc) (snd oc) = fst key then text_of (dict_get d (snd key)) else [])"

definition channel_texts :: "text_channel \<Rightarrow> pyval list \<Rightarrow> string" where
  "channel_texts key choices = concat (map (text_at key) (enumerate 0 choices))"

definition object_text :: "text_channel \<Rightarrow> pydict \<Rightarrow> string" where
  "object_text key obj = (case dict_get obj ''choices'' of PList cs \<Rightarrow> channel_texts key cs | _ \<Rightarrow> [])"

definition chunk_text :: "(string \<Rightarrow> pyval option) \<Rightarrow> text_channel \<Rightarrow> string \<Rightarrow> string" where
  "chunk_text loads key chunk =
     (if py_strip chunk = DONE_TEXT then []
      else case parse_sse_object loads chunk of None \<Rightarrow> [] | Some obj \<Rightarrow> object_text key obj)"

definition frame_text :: "(string \<Rightarrow> pyval option) \<Rightarrow> text_channel \<Rightarrow> released_frame \<Rightarrow> string" where
  "frame_text loads key f = (case f of
       PassedThrough chunk \<Rightarrow> chunk_text loads key chunk | EncodedObject obj \<Rightarrow> object_text key obj)"

text \<open>The choices of an event that carry a delta have different indices.\<close>

definition delta_indices :: "pyval list \<Rightarrow> int list" where
  "delta_indices choices = map (\<lambda>(o', c). index_of o' c) (filter (\<lambda>(o', c). delta_of c \<noteq> None) (enumerate 0 choices))"

lemma text_slots_of_eq:
  "text_slots_of (o', choice) = (case delta_of choice of
       None \<Rightarrow> []
     | Some d \<Rightarrow> map (\<lambda>(order, field). \<lparr>ts_ordinal = o', ts_order = order, ts_choice = index_of o' choice,
                      ts_field = field, ts_value = dict_get d field\<rparr>)
                  (filter (\<lambda>(order, field). dict_get d field \<noteq> PNone) (enumerate 0 TEXT_FIELDS)))"
  by (simp add: text_slots_of_def delta_of_def index_of_def split: pyval.split)

lemma TEXT_FIELDS_distinct: "distinct TEXT_FIELDS"
  by (simp add: TEXT_FIELDS_def)

lemma tool_calls_no_text: "''tool_calls'' \<notin> set TEXT_FIELDS"
  by (simp add: TEXT_FIELDS_def)

lemma in_text_slots_of:
  "s \<in> set (text_slots_of (o', choice)) \<longleftrightarrow>
     (\<exists>d. delta_of choice = Some d \<and> ts_ordinal s = o' \<and> ts_choice s = index_of o' choice
        \<and> ts_order s < length TEXT_FIELDS \<and> ts_field s = TEXT_FIELDS ! ts_order s
        \<and> ts_value s = dict_get d (ts_field s) \<and> ts_value s \<noteq> PNone)"
  by (cases s; cases "delta_of choice") (auto simp: text_slots_of_eq in_set_enumerate_eq image_iff)

lemma in_text_slots:
  "s \<in> set (text_slots choices) \<longleftrightarrow> ts_ordinal s < length choices \<and> s \<in> set (text_slots_of (ts_ordinal s, choices ! ts_ordinal s))"
proof
  assume "s \<in> set (text_slots choices)"
  then obtain n where "n < length choices" "s \<in> set (text_slots_of (n, choices ! n))"
    by (auto simp: text_slots_def in_set_enumerate_eq)
  moreover from this have "ts_ordinal s = n" by (auto simp: in_text_slots_of)
  ultimately show "ts_ordinal s < length choices \<and> s \<in> set (text_slots_of (ts_ordinal s, choices ! ts_ordinal s))" by simp
next
  assume a: "ts_ordinal s < length choices \<and> s \<in> set (text_slots_of (ts_ordinal s, choices ! ts_ordinal s))"
  then have "(ts_ordinal s, choices ! ts_ordinal s) \<in> set (enumerate 0 choices)" by (simp add: in_set_enumerate_eq)
  then show "s \<in> set (text_slots choices)" using a unfolding text_slots_def by force
qed

lemma distinct_slots_of: "distinct (map ts_order (text_slots_of (o', choice)))"
proof (cases "delta_of choice")
  case (Some d)
  have "map ts_order (text_slots_of (o', choice)) = map fst (filter (\<lambda>(order, field). dict_get d field \<noteq> PNone) (enumerate 0 TEXT_FIELDS))"
    by (simp add: text_slots_of_eq Some split_beta comp_def)
  then show ?thesis by (metis distinct_enumerate distinct_map_filter distinct_upt map_fst_enumerate)
qed (simp add: text_slots_of_eq)

lemma in_delta_indices:
  "i \<in> set (delta_indices choices) \<longleftrightarrow> (\<exists>n < length choices. delta_of (choices ! n) \<noteq> None \<and> i = index_of n (choices ! n))"
  by (auto simp: delta_indices_def in_set_enumerate_eq image_iff)

text \<open>With different indices a channel is in one choice at most.\<close>

lemma delta_indices_inj:
  assumes "distinct (delta_indices choices)" and "n < length choices" and "m < length choices"
    and "delta_of (choices ! n) \<noteq> None" and "delta_of (choices ! m) \<noteq> None"
    and "index_of n (choices ! n) = index_of m (choices ! m)"
  shows "n = m"
proof -
  have "inj_on (\<lambda>(o', c). index_of o' c) (set (filter (\<lambda>(o', c). delta_of c \<noteq> None) (enumerate 0 choices)))"
    using assms(1) by (simp add: delta_indices_def distinct_map)
  then have "(n, choices ! n) = (m, choices ! m)"
    by (rule inj_onD) (use assms in \<open>auto simp: in_set_enumerate_eq\<close>)
  then show ?thesis by simp
qed

lemma concat_single:
  assumes "n < length xs" and "\<And>m. m < length xs \<Longrightarrow> m \<noteq> n \<Longrightarrow> f (xs ! m) = []"
  shows "concat (map f xs) = f (xs ! n)"
proof -
  have "xs = take n xs @ xs ! n # drop (Suc n) xs" using assms(1) by (simp add: id_take_nth_drop)
  moreover have "concat (map f (take n xs)) = []" "concat (map f (drop (Suc n) xs)) = []"
    using assms by (auto simp: in_set_conv_nth)
  ultimately show ?thesis by (metis append_Nil append_Nil2 concat.simps(2) concat_append list.simps(9) map_append)
qed

lemma channel_texts_owner:
  assumes "distinct (delta_indices choices)" and "n < length choices" and "delta_of (choices ! n) = Some d"
    and "index_of n (choices ! n) = c"
  shows "channel_texts (c, f) choices = text_of (dict_get d f)"
proof -
  have "channel_texts (c, f) choices = text_at (c, f) (enumerate 0 choices ! n)"
    unfolding channel_texts_def
  proof (rule concat_single)
    show "text_at (c, f) (enumerate 0 choices ! m) = []" if "m < length (enumerate 0 choices)" "m \<noteq> n" for m
      using that assms delta_indices_inj [OF assms(1,2), of m]
      by (auto simp: text_at_def nth_enumerate_eq split: option.split)
  qed (use assms(2) in simp)
  then show ?thesis using assms by (simp add: text_at_def nth_enumerate_eq)
qed

lemma channel_texts_no_owner:
  "c \<notin> set (delta_indices choices) \<Longrightarrow> channel_texts (c, f) choices = []"
  by (auto simp: channel_texts_def text_at_def in_set_enumerate_eq in_delta_indices split: option.split)

lemma distinct_slot_keys:
  assumes "distinct (delta_indices choices)" and "s \<in> set (text_slots choices)" and "t \<in> set (text_slots choices)"
    and "slot_key s = slot_key t"
  shows "s = t"
proof -
  have s: "ts_ordinal s < length choices" "s \<in> set (text_slots_of (ts_ordinal s, choices ! ts_ordinal s))"
    and t: "ts_ordinal t < length choices" "t \<in> set (text_slots_of (ts_ordinal t, choices ! ts_ordinal t))"
    using assms(2,3) unfolding in_text_slots by blast+
  have o: "ts_ordinal s = ts_ordinal t"
    by (rule delta_indices_inj [OF assms(1) s(1) t(1)])
       (use s(2) t(2) assms(4) in \<open>auto simp: in_text_slots_of slot_key_def\<close>)
  moreover have "ts_order s = ts_order t"
    using s(2) t(2) assms(4) TEXT_FIELDS_distinct by (auto simp: in_text_slots_of slot_key_def nth_eq_iff_index_eq)
  ultimately show ?thesis using s(2) t(2) by (auto simp: in_text_slots_of)
qed

lemma distinct_text_slots: "distinct (concat (map text_slots_of (enumerate n choices)))"
proof (induction choices arbitrary: n)
  case (Cons c cs)
  have "distinct (text_slots_of (n, c))" using distinct_slots_of [of n c] by (simp add: distinct_map)
  moreover have "set (text_slots_of (n, c)) \<inter> set (concat (map text_slots_of (enumerate (Suc n) cs))) = {}"
    by (auto simp: in_text_slots_of in_set_enumerate_eq)
  ultimately show ?case using Cons by simp
qed simp

lemma distinct_keys: "distinct (delta_indices choices) \<Longrightarrow> distinct (map slot_key (text_slots choices))"
  using distinct_text_slots [of 0 choices] distinct_slot_keys [of choices]
  by (simp add: distinct_map text_slots_def [symmetric] inj_on_def)

section \<open>Inspecting the text fields\<close>

text \<open>What each slot releases raw is decided by its channel's detector alone.\<close>

lemma map_of_update [simp]: "map_of (AList.update k v al) = (map_of al)(k \<mapsto> v)"
  by (rule update_conv')

definition detector_for :: "guard_config \<Rightarrow> (text_channel \<times> canary_detector) list \<Rightarrow> text_channel \<Rightarrow> canary_detector" where
  "detector_for cfg dets key = lookup_default dets key (new_canary_detector (config_canaries cfg))"

lemma feed_text_disabled:
  "\<not> canary_enabled cfg \<Longrightarrow> feed_text_slots cfg ss dets = (map (\<lambda>s. (s, text_of (ts_value s))) ss, [], dets)"
  by (induction ss) simp_all

lemma feed_text_enabled:
  assumes "canary_enabled cfg" and "distinct (map slot_key ss)"
    and "feed_text_slots cfg ss dets = (es, dts, dets')"
  shows "map fst es = ss
    \<and> (\<forall>k. k \<notin> slot_key ` set ss \<longrightarrow> map_of dets' k = map_of dets k)
    \<and> (\<forall>s raw. (s, raw) \<in> set es \<longrightarrow>
         (let r = feed_guarded (detector_for cfg dets (slot_key s)) (text_of (ts_value s))
          in raw = fst (fst r) \<and> map_of dets' (slot_key s) = Some (snd r)
             \<and> (\<forall>dt. (s, dt) \<in> set dts \<longleftrightarrow> snd (fst r) = Some dt)))
    \<and> fst ` set dts \<subseteq> set ss"
  using assms(2,3)
proof (induction ss arbitrary: dets es dts dets')
  case Nil
  then show ?case by simp
next
  case (Cons s ss)
  obtain raw dt d' where r: "feed_guarded (detector_for cfg dets (slot_key s)) (text_of (ts_value s)) = ((raw, dt), d')"
    by (metis surj_pair)
  obtain es1 dts1 where rest: "feed_text_slots cfg ss (AList.update (slot_key s) d' dets) = (es1, dts1, dets')"
    and es: "es = (s, raw) # es1" and dts: "dts = (case dt of None \<Rightarrow> dts1 | Some x \<Rightarrow> (s, x) # dts1)"
    using Cons.prems(2) assms(1) r by (auto simp: Let_def slot_key_def detector_for_def split: prod.splits)
  have dist: "distinct (map slot_key ss)" "slot_key s \<notin> slot_key ` set ss" using Cons.prems(1) by auto
  note ih = Cons.IH [OF dist(1) rest]
  have ih1: "map fst es1 = ss" and ih4: "fst ` set dts1 \<subseteq> set ss" using ih by blast+
  have ih2: "map_of dets' k = map_of (AList.update (slot_key s) d' dets) k" if "k \<notin> slot_key ` set ss" for k
    using ih that by blast
  have ih3: "let r = feed_guarded (detector_for cfg (AList.update (slot_key s) d' dets) (slot_key t)) (text_of (ts_value t))
      in raw' = fst (fst r) \<and> map_of dets' (slot_key t) = Some (snd r) \<and> (\<forall>x. (t, x) \<in> set dts1 \<longleftrightarrow> snd (fst r) = Some x)"
    if "(t, raw') \<in> set es1" for t raw'
    using ih that by blast
  have det: "detector_for cfg (AList.update (slot_key s) d' dets) (slot_key t) = detector_for cfg dets (slot_key t)"
    if "t \<in> set ss" for t
  proof -
    have "slot_key t \<noteq> slot_key s" using that dist(2) by (metis image_eqI)
    then show ?thesis by (simp add: detector_for_def lookup_default_def)
  qed
  have new: "(t, x) \<notin> set dts1" if "t \<notin> set ss" for t x using ih4 that by force
  have "map fst es = s # ss" using ih1 es by simp
  moreover have "map_of dets' k = map_of dets k" if "k \<notin> slot_key ` set (s # ss)" for k
    using ih2 [of k] that by simp
  moreover have "fst ` set dts \<subseteq> set (s # ss)" using ih4 dts by (auto split: option.splits)
  moreover have "let r = feed_guarded (detector_for cfg dets (slot_key t)) (text_of (ts_value t))
          in raw' = fst (fst r) \<and> map_of dets' (slot_key t) = Some (snd r)
             \<and> (\<forall>x. (t, x) \<in> set dts \<longleftrightarrow> snd (fst r) = Some x)" if t: "(t, raw') \<in> set es" for t raw'
  proof (cases "t = s")
    case True
    have "s \<notin> set ss" using dist(2) by auto
    then have "raw' = raw" using t es ih1 True by (metis fst_conv image_eqI list.set_map set_ConsD snd_conv)
    moreover have "map_of dets' (slot_key s) = Some d'" using ih2 [OF dist(2)] by simp
    moreover have "(s, x) \<in> set dts \<longleftrightarrow> dt = Some x" for x
      using dts new [OF \<open>s \<notin> set ss\<close>] by (auto split: option.splits)
    ultimately show ?thesis using True r by (simp add: Let_def)
  next
    case False
    then have "(t, raw') \<in> set es1" using t es by simp
    moreover from this have "t \<in> set ss" using ih1 by (metis fst_conv image_eqI list.set_map)
    moreover have "(t, x) \<in> set dts \<longleftrightarrow> (t, x) \<in> set dts1" for x using dts False by (auto split: option.splits)
    ultimately show ?thesis using ih3 [of t raw'] det [of t] by (simp add: Let_def)
  qed
  ultimately show ?case by blast
qed

section \<open>The normal release\<close>

definition finish_of :: "pyval \<Rightarrow> pyval" where
  "finish_of choice = (case choice of PDict c \<Rightarrow> dict_get c ''finish_reason'' | _ \<Rightarrow> PNone)"

definition dget :: "pyval list \<Rightarrow> nat \<Rightarrow> string \<Rightarrow> pyval" where
  "dget choices n f = (case delta_of (choices ! n) of None \<Rightarrow> PNone | Some d \<Rightarrow> dict_get d f)"

text \<open>Only contents of deltas have changed.\<close>

definition same_frame :: "pyval list \<Rightarrow> pyval list \<Rightarrow> bool" where
  "same_frame cs cs' \<longleftrightarrow> length cs' = length cs \<and> (\<forall>n < length cs.
     index_of n (cs' ! n) = index_of n (cs ! n) \<and> (delta_of (cs' ! n) = None \<longleftrightarrow> delta_of (cs ! n) = None)
     \<and> finish_of (cs' ! n) = finish_of (cs ! n))"

lemma same_frame_refl: "same_frame cs cs"
  by (simp add: same_frame_def)

lemma same_frame_trans: "same_frame a b \<Longrightarrow> same_frame b c \<Longrightarrow> same_frame a c"
  by (simp add: same_frame_def)

lemma delta_indices_eq:
  "delta_indices cs = map (\<lambda>n. index_of n (cs ! n)) (filter (\<lambda>n. delta_of (cs ! n) \<noteq> None) [0..<length cs])"
proof -
  have e: "enumerate 0 cs = map (\<lambda>n. (n, cs ! n)) [0..<length cs]"
    by (rule nth_equalityI) (simp_all add: nth_enumerate_eq)
  show ?thesis unfolding delta_indices_def e by (simp add: filter_map comp_def)
qed

lemma same_frame_indices: "same_frame cs cs' \<Longrightarrow> delta_indices cs' = delta_indices cs"
  unfolding delta_indices_eq same_frame_def
  by (intro arg_cong2 [where f = map] map_cong filter_cong) (auto intro!: filter_cong map_cong)

lemma delta_with_delta [simp]: "delta_of (with_delta g ch) = map_option g (delta_of ch)"
  by (auto simp: delta_of_def with_delta_def split: pyval.split)

lemma index_with_delta [simp]: "index_of n (with_delta g ch) = index_of n ch"
  by (auto simp: index_of_def with_delta_def choice_index_def split: pyval.split option.split)

lemma finish_with_delta [simp]: "finish_of (with_delta g ch) = finish_of ch"
  by (auto simp: finish_of_def with_delta_def split: pyval.split)

lemma same_frame_update: "n < length cs \<Longrightarrow> same_frame cs (update_nth n (with_delta g) cs)"
  by (auto simp: same_frame_def update_nth_def nth_list_update)

lemma dget_update:
  "n < length cs \<Longrightarrow> dget (update_nth n (with_delta g) cs) m f =
     (if m = n then (case delta_of (cs ! n) of None \<Rightarrow> PNone | Some d \<Rightarrow> dict_get (g d) f) else dget cs m f)"
  by (auto simp: dget_def update_nth_def nth_list_update split: option.split)

definition pipe_for :: "guard_config \<Rightarrow> guarded_state \<Rightarrow> text_channel \<Rightarrow> marker_filter \<times> text_quarantine" where
  "pipe_for cfg st key = (lookup_default (gs_filters st) key new_marker_filter,
     lookup_default (gs_quarantines st) key (config_quarantine cfg))"

abbreviation release_pipe_feed :: "marker_filter \<times> text_quarantine \<Rightarrow> string \<Rightarrow> string \<times> marker_filter \<times> text_quarantine" where
  "release_pipe_feed \<equiv> pipe_feed marker_feed quarantine_feed"

definition slot_place :: "text_slot \<Rightarrow> nat \<times> string" where
  "slot_place s = (ts_ordinal s, ts_field s)"

definition released_slot :: "guard_config \<Rightarrow> guarded_state \<Rightarrow> guarded_state \<Rightarrow> bool \<Rightarrow> pyval list \<Rightarrow> text_slot \<Rightarrow> string \<Rightarrow> bool" where
  "released_slot cfg st st' changed cs' s raw \<longleftrightarrow>
     (case release_pipe_feed (pipe_for cfg st (slot_key s)) raw of (rel, f, q) \<Rightarrow>
        dget cs' (ts_ordinal s) (ts_field s) = PStr rel \<and> map_of (gs_filters st') (slot_key s) = Some f
        \<and> map_of (gs_quarantines st') (slot_key s) = Some q \<and> (\<not> changed \<longrightarrow> ts_value s = PStr rel))"

lemma release_texts_spec:
  assumes "release_texts cfg es cs st = (changed, cs', st')"
    and "distinct (map (slot_key \<circ> fst) es)" and "distinct (map (slot_place \<circ> fst) es)"
    and "\<forall>s \<in> fst ` set es. ts_ordinal s < length cs \<and> delta_of (cs ! ts_ordinal s) \<noteq> None"
  shows "same_frame cs cs'
    \<and> (\<forall>s raw. (s, raw) \<in> set es \<longrightarrow> released_slot cfg st st' changed cs' s raw)
    \<and> (\<forall>n f. (n, f) \<notin> (slot_place \<circ> fst) ` set es \<longrightarrow> dget cs' n f = dget cs n f)
    \<and> (\<forall>k. k \<notin> (slot_key \<circ> fst) ` set es \<longrightarrow>
         map_of (gs_filters st') k = map_of (gs_filters st) k \<and> map_of (gs_quarantines st') k = map_of (gs_quarantines st) k)
    \<and> gs_detectors st' = gs_detectors st \<and> gs_tool_detectors st' = gs_tool_detectors st
    \<and> gs_template st' = gs_template st \<and> gs_done st' = gs_done st"
  using assms
proof (induction es arbitrary: cs st changed)
  case Nil
  then show ?case by (simp add: same_frame_refl)
next
  case (Cons e es)
  obtain s raw where e: "e = (s, raw)" by fastforce
  obtain rel f q where rel: "release_pipe_feed (pipe_for cfg st (slot_key s)) raw = (rel, f, q)" by (metis surj_pair)
  define st1 where "st1 = st\<lparr>gs_filters := AList.update (slot_key s) f (gs_filters st),
      gs_quarantines := AList.update (slot_key s) q (gs_quarantines st)\<rparr>"
  define cs1 where "cs1 = update_nth (ts_ordinal s) (with_delta (\<lambda>d. dict_set d (ts_field s) (PStr rel))) cs"
  obtain ch where rest: "release_texts cfg es cs1 st1 = (ch, cs', st')" and changed: "changed \<longleftrightarrow> PStr rel \<noteq> ts_value s \<or> ch"
    using Cons.prems(1) rel
    by (auto simp: e pipe_feed_def pipe_for_def Let_def slot_key_def st1_def cs1_def split: prod.splits)
  have s: "ts_ordinal s < length cs" "delta_of (cs ! ts_ordinal s) \<noteq> None" using Cons.prems(4) e by auto
  have frame1: "same_frame cs cs1" unfolding cs1_def by (rule same_frame_update [OF s(1)])
  have bound: "\<forall>t \<in> fst ` set es. ts_ordinal t < length cs1 \<and> delta_of (cs1 ! ts_ordinal t) \<noteq> None"
  proof
    fix t assume "t \<in> fst ` set es"
    then have "ts_ordinal t < length cs \<and> delta_of (cs ! ts_ordinal t) \<noteq> None" using Cons.prems(4) by auto
    then show "ts_ordinal t < length cs1 \<and> delta_of (cs1 ! ts_ordinal t) \<noteq> None"
      using frame1 unfolding same_frame_def by metis
  qed
  have d1: "distinct (map (slot_key \<circ> fst) es)" "distinct (map (slot_place \<circ> fst) es)"
    and k1: "slot_key s \<notin> (slot_key \<circ> fst) ` set es" and p1: "slot_place s \<notin> (slot_place \<circ> fst) ` set es"
    using Cons.prems(2,3) e by (simp_all add: comp_def)
  note ih = Cons.IH [OF rest d1 bound]
  have ih1: "same_frame cs1 cs'" and ih2: "\<And>t r. (t, r) \<in> set es \<Longrightarrow> released_slot cfg st1 st' ch cs' t r"
    and ih3: "\<And>n f. (n, f) \<notin> (slot_place \<circ> fst) ` set es \<Longrightarrow> dget cs' n f = dget cs1 n f"
    and ih4: "\<And>k. k \<notin> (slot_key \<circ> fst) ` set es \<Longrightarrow> map_of (gs_filters st') k = map_of (gs_filters st1) k"
    and ih5: "\<And>k. k \<notin> (slot_key \<circ> fst) ` set es \<Longrightarrow> map_of (gs_quarantines st') k = map_of (gs_quarantines st1) k"
    and ih6: "gs_detectors st' = gs_detectors st1 \<and> gs_tool_detectors st' = gs_tool_detectors st1
    \<and> gs_template st' = gs_template st1 \<and> gs_done st' = gs_done st1"
    using ih by blast+
  have dg: "dget cs1 n g = (if (n, g) = slot_place s then PStr rel else dget cs n g)" for n g
  proof -
    obtain d where d: "delta_of (cs ! ts_ordinal s) = Some d" using s(2) by blast
    then have "dget cs (ts_ordinal s) g = dict_get d g" for g by (simp add: dget_def)
    then show ?thesis unfolding cs1_def dget_update [OF s(1)] d by (auto simp: slot_place_def)
  qed
  have "released_slot cfg st st' changed cs' t r" if t: "(t, r) \<in> set (e # es)" for t r
  proof (cases "(t, r) \<in> set es")
    case True
    then have "slot_key t \<noteq> slot_key s" using k1 by force
    then have "pipe_for cfg st1 (slot_key t) = pipe_for cfg st (slot_key t)"
      by (simp add: pipe_for_def st1_def lookup_default_def)
    moreover have "released_slot cfg st1 st' ch cs' t r" using ih2 True by blast
    ultimately show ?thesis using changed by (auto simp: released_slot_def split: prod.splits)
  next
    case False
    then have "t = s" "r = raw" using t e by simp_all
    moreover have "dget cs' (ts_ordinal s) (ts_field s) = PStr rel"
      using ih3 [of "ts_ordinal s" "ts_field s"] p1 dg [of "ts_ordinal s" "ts_field s"] by (simp add: slot_place_def)
    moreover have "map_of (gs_filters st') (slot_key s) = Some f" "map_of (gs_quarantines st') (slot_key s) = Some q"
      using ih4 [OF k1] ih5 [OF k1] by (simp_all add: st1_def)
    ultimately show ?thesis using rel changed by (auto simp: released_slot_def)
  qed
  moreover have "same_frame cs cs'" using frame1 ih1 same_frame_trans by blast
  moreover have "dget cs' n g = dget cs n g" if "(n, g) \<notin> (slot_place \<circ> fst) ` set (e # es)" for n g
    using that ih3 [of n g] dg [of n g] e by (auto simp del: image_comp)
  moreover have "map_of (gs_filters st') k = map_of (gs_filters st) k \<and> map_of (gs_quarantines st') k = map_of (gs_quarantines st) k"
    if k: "k \<notin> (slot_key \<circ> fst) ` set (e # es)" for k
  proof -
    have "k \<noteq> slot_key s" "k \<notin> (slot_key \<circ> fst) ` set es" using k e by auto
    then show ?thesis using ih4 [of k] ih5 [of k] by (simp add: st1_def)
  qed
  moreover have "gs_detectors st' = gs_detectors st \<and> gs_tool_detectors st' = gs_tool_detectors st
    \<and> gs_template st' = gs_template st \<and> gs_done st' = gs_done st" using ih6 by (simp add: st1_def)
  ultimately show ?case by blast
qed

end
