(* ===== verification/ChannelSafety.thy ===== *)
theory ChannelSafety
  imports GuardedChannels
begin

text \<open>
  The whole guarded stream seen from one text channel: between two flushes of the channel, what
  the client receives is the sanitised form of what the model sent, and what was let through
  held no canary, whichever way the stream ends.
\<close>

section \<open>Draining the pipe\<close>

text \<open>A piece fed after others, then both stages flushed: the sanitised text of all of it.\<close>

lemma config_quarantine_fresh [simp]: "quarantine_ok (config_quarantine cfg)" "tq_carry (config_quarantine cfg) = []"
  by (simp_all add: config_quarantine_def quarantine_ok_def)

lemma sanitize_Nil [simp]: "sanitize_text [] = []"
  by (simp add: sanitize_text_def marker_feed_def new_marker_filter_def scan_markers.simps marker_flush_def)

lemma marker_flush_new: "marker_flush f = (out, f') \<Longrightarrow> f' = new_marker_filter"
  by (auto simp: marker_flush_def new_marker_filter_def Let_def)

lemma quarantine_reset: "quarantine_feed q text = (out, q') \<Longrightarrow> q'\<lparr>tq_carry := []\<rparr> = q\<lparr>tq_carry := []\<rparr>"
  by (auto simp: quarantine_feed_split Let_def)

lemma drain_pipe:
  assumes "release_pipe_feed (new_marker_filter, config_quarantine cfg) a = (out, f, q)"
  shows "out @ fst (flush_quarantine (fst (flush_filter raw f)) q) = sanitize_text (a @ raw)
    \<and> snd (flush_filter raw f) = new_marker_filter
    \<and> snd (flush_quarantine text q) = config_quarantine cfg
    \<and> marker_ok f \<and> quarantine_ok q"
proof -
  obtain x where x: "marker_feed new_marker_filter a = (x, f)" "quarantine_feed (config_quarantine cfg) x = (out, q)"
    using assms by (auto simp: pipe_feed_def split: prod.splits)
  have okf: "marker_ok f" using markers.ok_feed [OF new_marker_ok, of a] x(1) by simp
  have okq: "quarantine_ok q" using quarantine.ok_feed [of "config_quarantine cfg" x] x(2) by simp
  obtain y f' where y: "marker_feed f raw = (y, f')" by fastforce
  obtain z f'' where z: "marker_flush f' = (z, f'')" by fastforce
  have flush: "flush_filter raw f = (y @ z, f'')"
    using y z markers.feed_Nil [OF okf] by (auto simp: flush_filter_def)
  have "marker_feed new_marker_filter (a @ raw) = (x @ y, f')"
    using markers.feed_append [OF new_marker_ok, of a raw] x(1) y by simp
  then have san: "sanitize_text (a @ raw) = x @ y @ z" using z by (simp add: sanitize_text_def)
  have "out @ tq_carry q = x" using quarantine.delayed_only [of "config_quarantine cfg" x] x(2) by simp
  moreover have "fst (flush_quarantine (y @ z) q) = tq_carry q @ y @ z"
    using quarantine.delayed_only [OF okq, of "y @ z"] by (simp add: flush_quarantine_def quarantine_flush_def split_beta)
  ultimately have "out @ fst (flush_quarantine (fst (flush_filter raw f)) q) = sanitize_text (a @ raw)"
    using san flush by simp
  moreover have "snd (flush_filter raw f) = new_marker_filter" using flush marker_flush_new [OF z] by simp
  moreover have "snd (flush_quarantine text q) = config_quarantine cfg"
  proof -
    obtain o1 q1 where q1: "quarantine_feed q text = (o1, q1)" by fastforce
    then have "snd (flush_quarantine text q) = q1\<lparr>tq_carry := []\<rparr>"
      by (simp add: flush_quarantine_def quarantine_flush_def)
    also have "\<dots> = (config_quarantine cfg)\<lparr>tq_carry := []\<rparr>"
      using quarantine_reset [OF q1] quarantine_reset [OF x(2)] by simp
    finally show ?thesis by (simp add: config_quarantine_def)
  qed
  ultimately show ?thesis using okf okq by blast
qed

lemma drain_fresh [simp]:
  "fst (flush_filter [] new_marker_filter) = []" "fst (flush_quarantine [] (config_quarantine cfg)) = []"
  by (simp_all add: flush_filter_def marker_flush_def new_marker_filter_def flush_quarantine_def
      quarantine_feed_def quarantine_flush_def config_quarantine_def)

section \<open>The invariant of a channel\<close>

definition channel_state ::
    "guarded_state \<Rightarrow> text_channel \<Rightarrow> canary_detector option \<times> marker_filter option \<times> text_quarantine option" where
  "channel_state st key = (map_of (gs_detectors st) key, map_of (gs_filters st) key, map_of (gs_quarantines st) key)"

text \<open>What the detector has let through of the text so far.\<close>

definition let_through :: "guard_config \<Rightarrow> string \<Rightarrow> string" where
  "let_through cfg hist =
     (if canary_enabled cfg then take (length hist - cs_required_window (config_canaries cfg)) hist else hist)"

definition channel_inv :: "guard_config \<Rightarrow> guarded_state \<Rightarrow> text_channel \<Rightarrow> string \<Rightarrow> string \<Rightarrow> bool" where
  "channel_inv cfg st key hist out \<longleftrightarrow>
     canary_free (config_canaries cfg) hist
     \<and> (canary_enabled cfg \<longrightarrow> detector_at (config_canaries cfg) hist (detector_for cfg (gs_detectors st) key))
     \<and> (\<not> canary_enabled cfg \<longrightarrow> map_of (gs_detectors st) key = None)
     \<and> release_pipe_feed (new_marker_filter, config_quarantine cfg) (let_through cfg hist) = (out, pipe_for cfg st key)
     \<and> (hist \<noteq> [] \<longrightarrow> map_of (gs_filters st) key \<noteq> None \<and> map_of (gs_quarantines st) key \<noteq> None
          \<and> (canary_enabled cfg \<longrightarrow> map_of (gs_detectors st) key \<noteq> None))"

lemma channel_inv_cong: "channel_state st key = channel_state st' key \<Longrightarrow> channel_inv cfg st key = channel_inv cfg st' key"
  by (intro ext) (simp add: channel_inv_def channel_state_def detector_for_def pipe_for_def lookup_default_def)

lemma config_canaries_off: "\<not> canary_enabled cfg \<Longrightarrow> canary_free (config_canaries cfg) s"
  by (auto simp: canary_enabled_def config_canaries_def canary_count_def canary_free_def empty_canary_set_def
      split: option.splits)

lemma canary_free_Nil: "valid_canary_set cs \<Longrightarrow> canary_free cs []"
  by (auto simp: canary_free_def valid_canary_set_def)

lemma pipe_fresh: "release_pipe_feed (new_marker_filter, config_quarantine cfg) [] = ([], new_marker_filter, config_quarantine cfg)"
  using markers.feed_Nil [OF new_marker_ok] quarantine.feed_Nil [of "config_quarantine cfg"]
  by (simp add: pipe_feed_def)

lemma channel_inv_fresh:
  assumes "valid_canary_set (config_canaries cfg)"
    and "map_of (gs_detectors st) key \<in> {None, Some (new_canary_detector (config_canaries cfg))}"
    and "\<not> canary_enabled cfg \<Longrightarrow> map_of (gs_detectors st) key = None"
    and "map_of (gs_filters st) key \<in> {None, Some new_marker_filter}"
    and "map_of (gs_quarantines st) key \<in> {None, Some (config_quarantine cfg)}"
  shows "channel_inv cfg st key [] []"
proof -
  have "detector_for cfg (gs_detectors st) key = new_canary_detector (config_canaries cfg)"
    and "pipe_for cfg st key = (new_marker_filter, config_quarantine cfg)"
    using assms(2,4,5) by (auto simp: detector_for_def pipe_for_def lookup_default_def)
  then show ?thesis using assms(1,3) pipe_fresh [of cfg] detector_at_new
    by (simp add: channel_inv_def canary_free_Nil let_through_def)
qed

section \<open>Flushing a channel\<close>

lemma flush_key_state:
  "flush_key key st = (tail, st') \<Longrightarrow> key' \<noteq> key \<Longrightarrow> channel_state st' key' = channel_state st key'"
  by (auto simp: flush_key_def channel_state_def Let_def split: option.splits)

lemma flush_key_frame:
  "flush_key key st = (tail, st') \<Longrightarrow>
     gs_template st' = gs_template st \<and> gs_done st' = gs_done st \<and> gs_tool_detectors st' = gs_tool_detectors st
     \<and> (distinct (map fst (gs_detectors st)) \<longrightarrow> distinct (map fst (gs_detectors st')))"
  by (auto simp: flush_key_def Let_def distinct_update split: option.splits)

lemma flush_key_inv:
  assumes valid: "valid_canary_set (config_canaries cfg)" and at: "channel_inv cfg st key hist out"
    and fl: "flush_key key st = (tail, st')"
  shows "out @ tail = sanitize_text hist \<and> channel_inv cfg st' key [] []"
proof -
  let ?cs = "config_canaries cfg" and ?d = "map_of (gs_detectors st) key"
    and ?f = "map_of (gs_filters st) key" and ?q = "map_of (gs_quarantines st) key"
  obtain f q where fq: "pipe_for cfg st key = (f, q)" by fastforce
  define raw where "raw = (case ?d of None \<Rightarrow> [] | Some d \<Rightarrow> cd_carry d)"
  have pipe: "release_pipe_feed (new_marker_filter, config_quarantine cfg) (let_through cfg hist) = (out, f, q)"
    using at fq by (simp add: channel_inv_def)
  have d: "case ?d of None \<Rightarrow> True | Some d \<Rightarrow> cd_canaries d = ?cs"
    using at by (cases "canary_enabled cfg") (auto simp: channel_inv_def detector_at_def detector_for_def lookup_default_def split: option.splits)
  have whole: "let_through cfg hist @ raw = hist"
  proof (cases "canary_enabled cfg")
    case True
    show ?thesis
    proof (cases ?d)
      case None
      then have "hist = []" using at True by (auto simp: channel_inv_def)
      then show ?thesis using None by (simp add: raw_def let_through_def)
    next
      case (Some d)
      then have "cd_carry d = drop (length hist - cs_required_window ?cs) hist"
        using at True by (simp add: channel_inv_def detector_at_def detector_for_def lookup_default_def)
      then show ?thesis using Some True by (simp add: raw_def let_through_def)
    qed
  next
    case False
    then show ?thesis using at by (simp add: channel_inv_def raw_def let_through_def)
  qed
  have fresh: "f = new_marker_filter" "q = config_quarantine cfg" "raw = []" if "hist = []"
    using that pipe pipe_fresh [of cfg] whole by (simp_all add: let_through_def split: if_splits)
  have f: "?f = None \<and> hist = [] \<or> ?f = Some f" and q: "?q = None \<and> hist = [] \<or> ?q = Some q"
    using at fq by (auto simp: channel_inv_def pipe_for_def lookup_default_def split: option.splits)
  have tail: "tail = fst (flush_quarantine (fst (flush_filter raw f)) q)"
    and reset: "map_of (gs_detectors st') key = map_option (\<lambda>d. d\<lparr>cd_carry := []\<rparr>) ?d"
      "map_of (gs_filters st') key = map_option (\<lambda>f. snd (flush_filter raw f)) ?f"
    using fl f q fresh by (auto simp: flush_key_def raw_def flush_safe_def Let_def split: option.splits)
  have "\<exists>text. map_of (gs_quarantines st') key = map_option (\<lambda>q. snd (flush_quarantine text q)) ?q"
    using fl by (auto simp: flush_key_def Let_def split: option.splits)
  then obtain x where reset3: "map_of (gs_quarantines st') key = map_option (\<lambda>q. snd (flush_quarantine x q)) ?q" ..
  note drain = drain_pipe [OF pipe, of raw x]
  have "out @ tail = sanitize_text hist" using drain tail whole by simp
  moreover have "channel_inv cfg st' key [] []"
  proof (rule channel_inv_fresh [OF valid])
    show "map_of (gs_detectors st') key \<in> {None, Some (new_canary_detector ?cs)}"
      using d reset(1) by (cases ?d) (auto simp: new_canary_detector_def)
    show "map_of (gs_detectors st') key = None" if "\<not> canary_enabled cfg"
      using that at reset(1) by (simp add: channel_inv_def)
    show "map_of (gs_filters st') key \<in> {None, Some new_marker_filter}" using f reset(2) drain by auto
    show "map_of (gs_quarantines st') key \<in> {None, Some (config_quarantine cfg)}" using q reset3 drain by auto
  qed
  ultimately show ?thesis by blast
qed

section \<open>Inspecting and releasing an event\<close>

lemma inspected_piece:
  assumes valid: "valid_canary_set (config_canaries cfg)" and at: "channel_inv cfg st key hist out"
    and on: "canary_enabled cfg"
    and fed: "feed_guarded (detector_for cfg (gs_detectors st) key) t = ((raw, found), d')"
  shows "case found of
      None \<Rightarrow> detector_at (config_canaries cfg) (hist @ t) d' \<and> let_through cfg hist @ raw = let_through cfg (hist @ t)
    | Some _ \<Rightarrow> prefix (let_through cfg hist @ raw) (hist @ t) \<and> canary_free (config_canaries cfg) (let_through cfg hist @ raw)"
proof -
  let ?cs = "config_canaries cfg"
  have d: "detector_at ?cs hist (detector_for cfg (gs_detectors st) key)" using at on by (simp add: channel_inv_def)
  show ?thesis
  proof (cases "find_with_position ?cs (hist @ t)")
    case None
    then have "canary_free ?cs (hist @ t)" by (simp add: find_None_iff)
    from feed_guarded_None [OF valid d this] obtain o1 d1 where
      "feed_guarded (detector_for cfg (gs_detectors st) key) t = ((o1, None), d1)" "detector_at ?cs (hist @ t) d1"
      "take (length hist - cs_required_window ?cs) hist @ o1 = take (length (hist @ t) - cs_required_window ?cs) (hist @ t)"
      by metis
    then show ?thesis using fed on by (simp add: let_through_def del: take_append)
  next
    case (Some r)
    obtain m i where r: "r = (m, i)" by fastforce
    from feed_guarded_Some [OF valid d Some [unfolded r]] obtain o1 dt d1 where
      "feed_guarded (detector_for cfg (gs_detectors st) key) t = ((o1, Some dt), d1)"
      "take (length hist - cs_required_window ?cs) hist @ o1 = take i (hist @ t)"
      by metis
    moreover have "canary_free ?cs (take i (hist @ t))" using find_Some_take_free [OF valid Some [unfolded r]] by blast
    ultimately show ?thesis using fed on by (simp add: let_through_def take_is_prefix del: take_append)
  qed
qed

text \<open>A channel is in an event as one slot, or not at all.\<close>

lemma slot_or_silent:
  assumes "distinct (delta_indices choices)" and "f \<in> set TEXT_FIELDS"
  obtains (slot) s where "s \<in> set (text_slots choices)" "slot_key s = (c, f)" "channel_texts (c, f) choices = text_of (ts_value s)"
  | (silent) "(c, f) \<notin> slot_key ` set (text_slots choices)" "channel_texts (c, f) choices = []"
      "\<And>n. n < length choices \<Longrightarrow> index_of n (choices ! n) = c \<Longrightarrow> dget choices n f = PNone"
proof (cases "c \<in> set (delta_indices choices)")
  case True
  then obtain n d where n: "n < length choices" "delta_of (choices ! n) = Some d" "index_of n (choices ! n) = c"
    by (auto simp: in_delta_indices)
  have own: "channel_texts (c, f) choices = text_of (dict_get d f)" by (rule channel_texts_owner [OF assms(1) n])
  show thesis
  proof (cases "dict_get d f = PNone")
    case True
    have "(c, f) \<notin> slot_key ` set (text_slots choices)"
    proof
      assume "(c, f) \<in> slot_key ` set (text_slots choices)"
      then obtain s where s: "ts_ordinal s < length choices" "s \<in> set (text_slots_of (ts_ordinal s, choices ! ts_ordinal s))"
        and key: "slot_key s = (c, f)"
        by (auto simp: in_text_slots)
      have o: "ts_ordinal s = n"
        by (rule delta_indices_inj [OF assms(1) s(1) n(1)])
           (use s(2) key n in \<open>auto simp: in_text_slots_of slot_key_def\<close>)
      show False using s(2) key n True unfolding o by (auto simp: in_text_slots_of slot_key_def)
    qed
    moreover have "dget choices m f = PNone" if m: "m < length choices" "index_of m (choices ! m) = c" for m
    proof (cases "delta_of (choices ! m)")
      case (Some e)
      then have "m = n" using delta_indices_inj [OF assms(1) m(1) n(1)] m(2) n(2,3) by simp
      then show ?thesis using n(2) True by (simp add: dget_def)
    qed (simp add: dget_def)
    ultimately show thesis using silent own True by simp
  next
    case False
    obtain k where k: "k < length TEXT_FIELDS" "f = TEXT_FIELDS ! k" using assms(2) by (metis in_set_conv_nth)
    define s where "s = \<lparr>ts_ordinal = n, ts_order = k, ts_choice = c, ts_field = f, ts_value = dict_get d f\<rparr>"
    have "s \<in> set (text_slots choices)" using n k False by (auto simp: in_text_slots in_text_slots_of s_def)
    then show thesis using slot [of s] own by (simp add: s_def slot_key_def)
  qed
next
  case False
  then have "(c, f) \<notin> slot_key ` set (text_slots choices)"
    by (force simp: in_delta_indices in_text_slots in_text_slots_of slot_key_def)
  moreover have "dget choices m f = PNone" if "m < length choices" "index_of m (choices ! m) = c" for m
    using that False by (force simp: in_delta_indices dget_def)
  ultimately show thesis using silent channel_texts_no_owner [OF False] by blast
qed

lemma channel_texts_dget:
  assumes "distinct (delta_indices choices)" and "n < length choices" and "delta_of (choices ! n) \<noteq> None"
    and "index_of n (choices ! n) = c"
  shows "channel_texts (c, f) choices = text_of (dget choices n f)"
  using channel_texts_owner [OF assms(1,2) _ assms(4)] assms(3) by (auto simp: dget_def)

lemma same_frame_texts:
  assumes "distinct (delta_indices cs)" and "same_frame cs cs'"
    and "\<And>n. n < length cs \<Longrightarrow> index_of n (cs ! n) = c \<Longrightarrow> dget cs' n f = dget cs n f"
  shows "channel_texts (c, f) cs' = channel_texts (c, f) cs"
proof (cases "c \<in> set (delta_indices cs)")
  case True
  then obtain n where n: "n < length cs" "delta_of (cs ! n) \<noteq> None" "index_of n (cs ! n) = c"
    by (auto simp: in_delta_indices)
  then have "n < length cs'" "delta_of (cs' ! n) \<noteq> None" "index_of n (cs' ! n) = c"
    using assms(2) unfolding same_frame_def by metis+
  then show ?thesis
    using channel_texts_dget [OF assms(1) n] channel_texts_dget [of cs' n c f] same_frame_indices [OF assms(2)] assms(1) assms(3) [OF n(1,3)] by simp
next
  case False
  then show ?thesis using channel_texts_no_owner same_frame_indices [OF assms(2)] by metis
qed

lemma distinct_places:
  assumes "distinct (delta_indices choices)"
  shows "distinct (map slot_place (text_slots choices))"
proof -
  have "s = t" if "s \<in> set (text_slots choices)" "t \<in> set (text_slots choices)" "slot_place s = slot_place t" for s t
  proof (rule distinct_slot_keys [OF assms that(1,2)])
    show "slot_key s = slot_key t"
      using that by (auto simp: in_text_slots in_text_slots_of slot_place_def slot_key_def)
  qed
  then show ?thesis using distinct_text_slots [of 0 choices]
    by (simp add: distinct_map text_slots_def [symmetric] inj_on_def)
qed

text \<open>Nothing detected: each slot's channel has let through what belongs to the longer text.\<close>

lemma inspected_slot:
  assumes valid: "valid_canary_set (config_canaries cfg)" and dist: "distinct (delta_indices choices)"
    and at: "channel_inv cfg st (slot_key s) hist out"
    and fed: "feed_text_slots cfg (text_slots choices) (gs_detectors st) = (es, [], dets)" and s: "(s, raw) \<in> set es"
  shows "let_through cfg hist @ raw = let_through cfg (hist @ text_of (ts_value s))
    \<and> canary_free (config_canaries cfg) (hist @ text_of (ts_value s))
    \<and> (canary_enabled cfg \<longrightarrow> map_of dets (slot_key s) \<noteq> None
         \<and> detector_at (config_canaries cfg) (hist @ text_of (ts_value s)) (detector_for cfg dets (slot_key s)))
    \<and> (\<not> canary_enabled cfg \<longrightarrow> map_of dets (slot_key s) = None)"
proof (cases "canary_enabled cfg")
  case True
  define r where "r = feed_guarded (detector_for cfg (gs_detectors st) (slot_key s)) (text_of (ts_value s))"
  have "raw = fst (fst r) \<and> map_of dets (slot_key s) = Some (snd r) \<and> (\<forall>dt. (s, dt) \<in> set [] \<longleftrightarrow> snd (fst r) = Some dt)"
    using feed_text_enabled [OF True distinct_keys [OF dist] fed] s unfolding r_def Let_def by blast
  then have r: "r = ((raw, None), snd r)" and d: "map_of dets (slot_key s) = Some (snd r)"
    by (auto intro!: prod_eqI)
  from inspected_piece [OF valid at True r [unfolded r_def]] True d show ?thesis
    unfolding r_def by (simp add: detector_for_def lookup_default_def detector_at_def)
next
  case False
  then have "raw = text_of (ts_value s)" "dets = gs_detectors st"
    using fed s by (auto simp: feed_text_disabled)
  then show ?thesis using False at config_canaries_off [OF False] by (simp add: let_through_def channel_inv_def)
qed

lemma inspected_slots:
  assumes "distinct (delta_indices choices)" and "feed_text_slots cfg (text_slots choices) dets = (es, dts, dets')"
  shows "map fst es = text_slots choices"
    and "key \<notin> slot_key ` set (text_slots choices) \<Longrightarrow> map_of dets' key = map_of dets key"
proof -
  have "map fst es = text_slots choices \<and> (key \<notin> slot_key ` set (text_slots choices) \<longrightarrow> map_of dets' key = map_of dets key)"
  proof (cases "canary_enabled cfg")
    case True
    from feed_text_enabled [OF True distinct_keys [OF assms(1)] assms(2)] show ?thesis by blast
  next
    case False
    then have "es = map (\<lambda>s. (s, text_of (ts_value s))) (text_slots choices)" "dets' = dets"
      using assms(2) by (simp_all add: feed_text_disabled)
    then show ?thesis by (simp add: comp_def)
  qed
  then show "map fst es = text_slots choices"
    and "key \<notin> slot_key ` set (text_slots choices) \<Longrightarrow> map_of dets' key = map_of dets key" by blast+
qed

lemma pipe_feed_more:
  assumes "release_pipe_feed (new_marker_filter, config_quarantine cfg) a = (out, fq)"
    and "release_pipe_feed fq raw = (rel, fq')"
  shows "release_pipe_feed (new_marker_filter, config_quarantine cfg) (a @ raw) = (out @ rel, fq')"
proof -
  have "chunk_stream release_pipe_feed (\<lambda>(s, t). marker_ok s \<and> quarantine_ok t)"
    by (rule release_pipe.pipe_chunk_stream)
  from chunk_stream.feed_append [OF this, of "(new_marker_filter, config_quarantine cfg)" a raw] assms
  show ?thesis by simp
qed

lemma release_event:
  assumes valid: "valid_canary_set (config_canaries cfg)" and dist: "distinct (delta_indices choices)"
    and f: "f \<in> set TEXT_FIELDS" and at: "channel_inv cfg st (c, f) hist out"
    and fed: "feed_text_slots cfg (text_slots choices) (gs_detectors st) = (es, [], dets)"
    and st1: "gs_detectors st1 = dets" "gs_filters st1 = gs_filters st" "gs_quarantines st1 = gs_quarantines st"
    and rel: "release_texts cfg es choices st1 = (changed, choices', st')"
  shows "channel_inv cfg st' (c, f) (hist @ channel_texts (c, f) choices) (out @ channel_texts (c, f) choices')
    \<and> (\<not> changed \<longrightarrow> channel_texts (c, f) choices' = channel_texts (c, f) choices)
    \<and> (\<forall>n < length choices. index_of n (choices ! n) = c \<longrightarrow> (\<exists>t. dget choices' n f \<in> {PNone, PStr t}))"
proof -
  have es: "map fst es = text_slots choices" by (rule inspected_slots [OF dist fed])
  then have set_es: "fst ` set es = set (text_slots choices)" by (metis list.set_map)
  have keys: "map (slot_key \<circ> fst) es = map slot_key (text_slots choices)"
    and places: "map (slot_place \<circ> fst) es = map slot_place (text_slots choices)"
    using es by (metis map_map)+
  have bound: "\<forall>s \<in> fst ` set es. ts_ordinal s < length choices \<and> delta_of (choices ! ts_ordinal s) \<noteq> None"
    unfolding set_es by (auto simp: in_text_slots in_text_slots_of)
  note spec = release_texts_spec [OF rel _ _ bound, unfolded keys places, OF distinct_keys [OF dist] distinct_places [OF dist]]
  have dets: "gs_detectors st' = dets" using spec st1(1) by simp
  show ?thesis
  proof -
    consider (slot) s where "s \<in> set (text_slots choices)" "slot_key s = (c, f)" "channel_texts (c, f) choices = text_of (ts_value s)"
      | (silent) "(c, f) \<notin> slot_key ` set (text_slots choices)" "channel_texts (c, f) choices = []"
        "\<And>n. n < length choices \<Longrightarrow> index_of n (choices ! n) = c \<Longrightarrow> dget choices n f = PNone"
      using slot_or_silent [OF dist f] by metis
    then show ?thesis
    proof cases
    case (slot s)
    obtain raw where raw: "(s, raw) \<in> set es" using slot(1) set_es by force
    have at_s: "channel_inv cfg st (slot_key s) hist out" using at slot(2) by simp
    note piece = inspected_slot [OF valid dist at_s fed raw]
    obtain o1 f1 q1 where o1: "release_pipe_feed (pipe_for cfg st (c, f)) raw = (o1, f1, q1)" by (metis surj_pair)
    have "pipe_for cfg st1 (slot_key s) = pipe_for cfg st (c, f)" using slot(2) st1 by (simp add: pipe_for_def)
    moreover have "released_slot cfg st1 st' changed choices' s raw" using spec raw by blast
    ultimately have out1: "dget choices' (ts_ordinal s) (ts_field s) = PStr o1"
      and new: "map_of (gs_filters st') (c, f) = Some f1" "map_of (gs_quarantines st') (c, f) = Some q1"
      and same: "\<not> changed \<Longrightarrow> ts_value s = PStr o1"
      using o1 slot(2) by (auto simp: released_slot_def)
    have frame: "same_frame choices choices'" using spec by blast
    have s: "ts_ordinal s < length choices" "delta_of (choices ! ts_ordinal s) \<noteq> None"
      "index_of (ts_ordinal s) (choices ! ts_ordinal s) = c" "ts_field s = f"
      using slot(1,2) by (auto simp: in_text_slots in_text_slots_of slot_key_def)
    have s': "ts_ordinal s < length choices'" "delta_of (choices' ! ts_ordinal s) \<noteq> None"
      "index_of (ts_ordinal s) (choices' ! ts_ordinal s) = c"
      using frame s unfolding same_frame_def by metis+
    have "channel_texts (c, f) choices' = o1"
      using channel_texts_dget [OF _ s', of f] same_frame_indices [OF frame] dist out1 s(4) by simp
    moreover have "release_pipe_feed (new_marker_filter, config_quarantine cfg) (let_through cfg (hist @ text_of (ts_value s)))
        = (out @ o1, f1, q1)"
      using pipe_feed_more [OF _ o1, of cfg "let_through cfg hist" out] at piece by (simp add: channel_inv_def)
    moreover have "\<exists>t. dget choices' n f \<in> {PNone, PStr t}" if n: "n < length choices" "index_of n (choices ! n) = c" for n
    proof (cases "delta_of (choices ! n)")
      case None
      then have "delta_of (choices' ! n) = None" using frame n(1) unfolding same_frame_def by blast
      then show ?thesis by (simp add: dget_def)
    next
      case (Some e)
      then have "n = ts_ordinal s" using delta_indices_inj [OF dist n(1) s(1)] s(2,3) n(2) by simp
      then show ?thesis using out1 s(4) by simp
    qed
    ultimately show ?thesis
      using piece slot(2,3) new same dets by (auto simp: channel_inv_def pipe_for_def lookup_default_def)
  next
    case silent
    have out: "(c, f) \<notin> (slot_key \<circ> fst) ` set es" using silent(1) keys by (metis list.set_map)
    have "channel_state st' (c, f) = channel_state st (c, f)"
      using spec out st1 dets inspected_slots(2) [OF dist fed silent(1)] by (simp add: channel_state_def)
    then have inv: "channel_inv cfg st' (c, f) hist out" using at channel_inv_cong by metis
    have "dget choices' n f = dget choices n f" if "n < length choices" "index_of n (choices ! n) = c" for n
    proof -
      have "(n, f) \<notin> (slot_place \<circ> fst) ` set es"
      proof
        assume "(n, f) \<in> (slot_place \<circ> fst) ` set es"
        then obtain s where "s \<in> set (text_slots choices)" "slot_place s = (n, f)" using set_es by fastforce
        then show False using silent(1) that by (force simp: slot_place_def slot_key_def in_text_slots in_text_slots_of)
      qed
      then show ?thesis using spec by blast
    qed
    note kept = this
    moreover have "same_frame choices choices'" using spec by blast
    ultimately have "channel_texts (c, f) choices' = channel_texts (c, f) choices"
      using same_frame_texts [OF dist] by blast
    then show ?thesis using inv silent(2,3) kept by simp
    qed
  qed
qed

end
