(* ===== verification/StreamSafety.thy ===== *)
theory StreamSafety
  imports ChannelSafety
begin

text \<open>
  The end-to-end guarantee of the guarded stream for one text channel, from the invariant of
  the channel: finished choices and flushes drain the channel, a hard interrupt drains what
  precedes the canary, and every other event extends it.
\<close>

section \<open>Tool calls leave the text alone\<close>

lemma with_call_text: "f \<noteq> ''tool_calls'' \<Longrightarrow> dict_get (with_call o' raw d) f = dict_get d f"
  by (simp add: with_call_def split: pyval.split)

lemma release_tools_frame:
  assumes "release_tools es cs = (changed, cs')" and "f \<noteq> ''tool_calls''"
  shows "same_frame cs cs' \<and> (\<forall>n. dget cs' n f = dget cs n f)"
  using assms(1)
proof (induction es arbitrary: cs changed)
  case (Cons e es)
  obtain s raw where e: "e = (s, raw)" by fastforce
  define cs1 where "cs1 = update_nth (tl_ordinal s) (with_delta (with_call (tl_order s) raw)) cs"
  have "same_frame cs cs1 \<and> (\<forall>n. dget cs1 n f = dget cs n f)"
  proof (cases "tl_ordinal s < length cs")
    case True
    have "dget cs1 m f = dget cs m f" for m
      unfolding cs1_def dget_update [OF True] using with_call_text [OF assms(2)]
      by (auto simp: dget_def split: option.split)
    then show ?thesis using same_frame_update [OF True] by (simp add: cs1_def)
  next
    case False
    then show ?thesis by (simp add: cs1_def update_nth_def list_update_beyond same_frame_refl)
  qed
  moreover obtain ch where "release_tools es cs1 = (ch, cs')"
    using Cons.prems e by (auto simp: cs1_def split: prod.splits)
  ultimately show ?case using Cons.IH same_frame_trans by metis
qed (simp add: same_frame_refl)

section \<open>Finished choices\<close>

definition keeps :: "guarded_state \<Rightarrow> guarded_state \<Rightarrow> bool" where
  "keeps st st' \<longleftrightarrow> gs_template st' = gs_template st \<and> gs_done st' = gs_done st
     \<and> (distinct (map fst (gs_detectors st)) \<longrightarrow> distinct (map fst (gs_detectors st')))"

lemma keeps_refl [simp]: "keeps st st" and keeps_trans: "keeps a b \<Longrightarrow> keeps b c \<Longrightarrow> keeps a c"
  by (auto simp: keeps_def)

lemma flush_key_keeps: "flush_key key st = (tail, st') \<Longrightarrow> keeps st st'"
  using flush_key_frame by (simp add: keeps_def)

lemma flush_other_inv:
  "flush_key key' st = (tail, st') \<Longrightarrow> key \<noteq> key' \<Longrightarrow> channel_inv cfg st' key = channel_inv cfg st key"
  using flush_key_state channel_inv_cong by metis

lemma flush_tool_key_state:
  "flush_tool_key key st = (tail, st') \<Longrightarrow> keeps st st' \<and> channel_state st' k = channel_state st k"
  by (auto simp: flush_tool_key_def keeps_def channel_state_def split: option.splits)

text \<open>A choice that carries a delta and a reason to finish closes the channels of its index; no other
  choice does.\<close>

definition finishing :: "int \<Rightarrow> nat \<Rightarrow> pyval \<Rightarrow> bool" where
  "finishing c k choice \<longleftrightarrow> delta_of choice \<noteq> None \<and> index_of k choice = c \<and> finish_of choice \<noteq> PNone"

definition closes_from :: "nat \<Rightarrow> int \<Rightarrow> pyval list \<Rightarrow> bool" where
  "closes_from k c cs \<longleftrightarrow> (\<exists>n < length cs. finishing c (k + n) (cs ! n))"

lemma closes_from_Nil [simp]: "\<not> closes_from k c []"
  by (simp add: closes_from_def)

lemma closes_from_Cons: "closes_from k c (x # cs) \<longleftrightarrow> finishing c k x \<or> closes_from (Suc k) c cs"
  by (auto simp: closes_from_def less_Suc_eq_0_disj)

text \<open>How a channel is after the choices of an event: drained by \<open>tail\<close> when one of them closed it,
  and untouched otherwise.\<close>

definition drained :: "bool \<Rightarrow> guard_config \<Rightarrow> guarded_state \<Rightarrow> text_channel \<Rightarrow> string \<Rightarrow> string \<Rightarrow> string \<Rightarrow> bool" where
  "drained closed cfg st' key hist out tail \<longleftrightarrow>
     (if closed then channel_inv cfg st' key [] [] \<and> out @ tail = sanitize_text hist
      else channel_inv cfg st' key hist out \<and> tail = [])"

lemma finish_fields:
  assumes valid: "valid_canary_set (config_canaries cfg)"
    and "fold (finish_field n) fs (ch, d, st) = (ch', d', st')" and "distinct fs"
    and "channel_inv cfg st (c, f) hist out"
    and "n = c \<longrightarrow> (\<exists>t. dict_get d f \<in> {PNone, PStr t})"
  shows "keeps st st' \<and> (ch \<longrightarrow> ch') \<and> (\<not> ch' \<longrightarrow> d' = d)
    \<and> (if n = c \<and> f \<in> set fs
       then (\<exists>tail. text_of (dict_get d' f) = text_of (dict_get d f) @ tail
             \<and> channel_inv cfg st' (c, f) [] [] \<and> out @ tail = sanitize_text hist)
       else (n = c \<longrightarrow> dict_get d' f = dict_get d f) \<and> channel_inv cfg st' (c, f) hist out)"
  using assms(2-)
proof (induction fs arbitrary: ch d st hist out)
  case (Cons g fs)
  obtain tail st1 where fl: "flush_key (n, g) st = (tail, st1)" by fastforce
  define ch1 where "ch1 = (ch \<or> tail \<noteq> [])"
  define d1 where "d1 = (if tail \<noteq> [] then dict_set d g (PStr (str_or_empty (dict_get d g) @ tail)) else d)"
  have "finish_field n g (ch, d, st) = (ch1, d1, st1)" using fl by (simp add: finish_field_def ch1_def d1_def)
  then have rest: "fold (finish_field n) fs (ch1, d1, st1) = (ch', d', st')" using Cons.prems(1) by simp
  have keep: "keeps st st1" by (rule flush_key_keeps [OF fl])
  have str: "n = c \<longrightarrow> (\<exists>t. dict_get d1 f \<in> {PNone, PStr t})" using Cons.prems(4) by (simp add: d1_def)
  show ?case
  proof (cases "(c, f) = (n, g)")
    case True
    then have fs: "f \<notin> set fs" using Cons.prems(2) by auto
    have inv: "out @ tail = sanitize_text hist" "channel_inv cfg st1 (c, f) [] []"
      using flush_key_inv [OF valid _ fl] Cons.prems(3) True by auto
    have "text_of (dict_get d1 f) = text_of (dict_get d f) @ tail"
      using True Cons.prems(4) by (auto simp: d1_def)
    then show ?thesis
      using Cons.IH [OF rest _ inv(2) str] Cons.prems(2) True fs inv(1) keep keeps_trans
      by (auto simp: ch1_def d1_def split: if_splits)
  next
    case False
    then have inv: "channel_inv cfg st1 (c, f) hist out" using flush_other_inv [OF fl] Cons.prems(3) by metis
    show ?thesis
      using Cons.IH [OF rest _ inv str] Cons.prems(2) False keep keeps_trans
      by (auto simp: ch1_def d1_def split: if_splits)
  qed
qed auto

lemma finish_tools:
  assumes "fold finish_tool keys (ch, d, st) = (ch', d', st')" and "f \<noteq> ''tool_calls''"
  shows "keeps st st' \<and> (ch \<longrightarrow> ch') \<and> (\<not> ch' \<longrightarrow> d' = d) \<and> dict_get d' f = dict_get d f
    \<and> channel_state st' k = channel_state st k"
  using assms(1)
proof (induction keys arbitrary: ch d st)
  case (Cons key keys)
  obtain tail st1 where fl: "flush_tool_key key st = (tail, st1)" by fastforce
  obtain ch1 d1 where one: "finish_tool key (ch, d, st) = (ch1, d1, st1)"
    and "ch \<longrightarrow> ch1" "\<not> ch1 \<longrightarrow> d1 = d" "dict_get d1 f = dict_get d f"
    using fl assms(2) by (cases "tail = []") (auto simp: finish_tool_def Let_def)
  then show ?case using Cons.IH [of ch1 d1 st1] Cons.prems flush_tool_key_state [OF fl, of k] keeps_trans by auto
qed auto

lemma dict_set_same: "dict_get d k = v \<Longrightarrow> v \<noteq> PNone \<Longrightarrow> dict_set d k v = d"
  by (induction d k v rule: dict_set.induct) (auto simp: dict_get_def)

lemma finish_choice_inv:
  assumes valid: "valid_canary_set (config_canaries cfg)" and fin: "finish_choice k choice st = (ch, choice', st')"
    and f: "f \<in> set TEXT_FIELDS" and inv: "channel_inv cfg st (c, f) hist out"
    and str: "\<And>d. delta_of choice = Some d \<Longrightarrow> index_of k choice = c \<Longrightarrow> \<exists>t. dict_get d f \<in> {PNone, PStr t}"
  shows "keeps st st' \<and> (\<not> ch \<longrightarrow> choice' = choice)
    \<and> (if delta_of choice \<noteq> None \<and> index_of k choice = c
       then \<exists>tail. text_at (c, f) (k, choice') = text_at (c, f) (k, choice) @ tail
         \<and> drained (finishing c k choice) cfg st' (c, f) hist out tail
       else channel_inv cfg st' (c, f) hist out \<and> text_at (c, f) (k, choice') = [])"
proof (cases "delta_of choice")
  case None
  then have "choice' = choice" "st' = st" using fin
    by (auto simp: finish_choice_def delta_of_def split: pyval.splits)
  then show ?thesis using None inv by (simp add: text_at_def)
next
  case (Some d)
  then obtain o1 where o1: "choice = PDict o1" "dict_get o1 ''delta'' = PDict d"
    by (auto simp: delta_of_def split: pyval.splits)
  have idx: "index_of k choice = choice_index k o1" using o1(1) by (simp add: index_of_def)
  show ?thesis
  proof (cases "dict_get o1 ''finish_reason'' = PNone")
    case True
    then have "choice' = choice" "st' = st" "\<not> ch" using fin o1 by (simp_all add: finish_choice_def)
    moreover have "\<not> finishing c k choice" using True o1(1) by (simp add: finishing_def finish_of_def)
    ultimately show ?thesis using inv Some by (auto simp: text_at_def drained_def)
  next
    case False
    let ?n = "choice_index k o1"
    obtain ch1 d1 st1 where fields: "fold (finish_field ?n) TEXT_FIELDS (False, d, st) = (ch1, d1, st1)"
      by (metis surj_pair)
    obtain ch2 d2 st2 where tools: "fold finish_tool (filter (\<lambda>key. fst key = ?n) (sort (map fst (gs_tool_detectors st)))) (ch1, d1, st1) = (ch2, d2, st2)"
      by (metis surj_pair)
    have res: "ch = ch2" "choice' = PDict (dict_set o1 ''delta'' (PDict d2))" "st' = st2"
      using fin o1 False fields tools by (simp_all add: finish_choice_def Let_def)
    have str': "?n = c \<longrightarrow> (\<exists>t. dict_get d f \<in> {PNone, PStr t})" using str [OF Some] idx by simp
    note one = finish_fields [OF valid fields TEXT_FIELDS_distinct inv str']
    have "f \<noteq> ''tool_calls''" using f tool_calls_no_text by auto
    note two = finish_tools [OF tools this, of "(c, f)"]
    have inv2: "channel_inv cfg st2 (c, f) = channel_inv cfg st1 (c, f)"
      by (rule channel_inv_cong) (use two in blast)
    have new: "delta_of choice' = Some d2" "index_of k choice' = index_of k choice"
      using o1 res by (auto simp: delta_of_def index_of_def choice_index_def)
    have "keeps st st'" using one two keeps_trans res(3) by blast
    moreover have "choice' = choice" if "\<not> ch"
      using that one two res o1 dict_set_same [OF o1(2)] by auto
    moreover have "\<exists>tail. text_at (c, f) (k, choice') = text_at (c, f) (k, choice) @ tail
        \<and> drained (finishing c k choice) cfg st' (c, f) hist out tail"
      if "index_of k choice = c"
    proof -
      have "finishing c k choice" using that False Some o1(1) by (simp add: finishing_def finish_of_def)
      then show ?thesis using one two that f idx Some new res(3) inv2 by (auto simp: text_at_def drained_def)
    qed
    moreover have "channel_inv cfg st' (c, f) hist out \<and> text_at (c, f) (k, choice') = []"
      if "index_of k choice \<noteq> c"
      using one that idx new res(3) inv2 by (auto simp: text_at_def)
    ultimately show ?thesis using Some by simp
  qed
qed

text \<open>The choices from the ordinal \<open>k\<close> on.\<close>

definition texts_from :: "nat \<Rightarrow> text_channel \<Rightarrow> pyval list \<Rightarrow> string" where
  "texts_from k key cs = concat (map (text_at key) (enumerate k cs))"

definition owners_from :: "nat \<Rightarrow> pyval list \<Rightarrow> int list" where
  "owners_from k cs = map (\<lambda>(o', c). index_of o' c) (filter (\<lambda>(o', c). delta_of c \<noteq> None) (enumerate k cs))"

lemma texts_from_Cons: "texts_from k key (x # cs) = text_at key (k, x) @ texts_from (Suc k) key cs"
  by (simp add: texts_from_def)

lemma owners_from_Cons:
  "owners_from k (x # cs) = (if delta_of x \<noteq> None then index_of k x # owners_from (Suc k) cs else owners_from (Suc k) cs)"
  by (simp add: owners_from_def)

lemma texts_from_none: "c \<notin> set (owners_from k cs) \<Longrightarrow> texts_from k (c, f) cs = []"
  by (induction cs arbitrary: k) (auto simp: texts_from_def owners_from_def text_at_def split: option.splits if_splits)

lemma closes_from_none: "c \<notin> set (owners_from k cs) \<Longrightarrow> \<not> closes_from k c cs"
  by (induction cs arbitrary: k) (auto simp: closes_from_Cons owners_from_Cons finishing_def split: if_splits)

lemma finish_choices_inv:
  assumes valid: "valid_canary_set (config_canaries cfg)" and f: "f \<in> set TEXT_FIELDS"
    and "finish_choices k cs st = (ch, cs', st')" and "distinct (owners_from k cs)"
    and "channel_inv cfg st (c, f) hist out"
    and "\<forall>n < length cs. index_of (k + n) (cs ! n) = c \<longrightarrow> (\<exists>t. dget cs n f \<in> {PNone, PStr t})"
  shows "keeps st st' \<and> (\<not> ch \<longrightarrow> cs' = cs)
    \<and> (if c \<in> set (owners_from k cs)
       then \<exists>tail. texts_from k (c, f) cs' = texts_from k (c, f) cs @ tail
         \<and> drained (closes_from k c cs) cfg st' (c, f) hist out tail
       else channel_inv cfg st' (c, f) hist out \<and> texts_from k (c, f) cs' = [])"
  using assms(3-)
proof (induction k cs st arbitrary: ch cs' hist out rule: finish_choices.induct)
  case (1 k st)
  then show ?case by (simp add: texts_from_def owners_from_def)
next
  case (2 k x cs st)
  obtain ch1 x' st1 where one: "finish_choice k x st = (ch1, x', st1)" by (metis surj_pair)
  obtain ch2 cs2 where rest: "finish_choices (k + 1) cs st1 = (ch2, cs2, st')"
    and res: "ch = (ch1 \<or> ch2)" "cs' = x' # cs2"
    using 2(2) one by (auto split: prod.splits)
  have str: "\<exists>t. dict_get d f \<in> {PNone, PStr t}" if "delta_of x = Some d" "index_of k x = c" for d
    using 2(5) [rule_format, of 0] that by (simp add: dget_def)
  have str': "\<forall>n < length cs. index_of (k + 1 + n) (cs ! n) = c \<longrightarrow> (\<exists>t. dget cs n f \<in> {PNone, PStr t})"
    using 2(5) by (auto simp: dget_def dest: spec [of _ "Suc _"])
  have dist: "distinct (owners_from (k + 1) cs)" using 2(3) by (simp add: owners_from_Cons split: if_splits)
  note first = finish_choice_inv [OF valid one f 2(4) str]
  show ?case
  proof (cases "delta_of x \<noteq> None \<and> index_of k x = c")
    case True
    then have no: "c \<notin> set (owners_from (Suc k) cs)" using 2(3) by (auto simp: owners_from_Cons)
    obtain tail where tail: "text_at (c, f) (k, x') = text_at (c, f) (k, x) @ tail"
      "drained (finishing c k x) cfg st1 (c, f) hist out tail"
      using first True by auto
    have closes: "closes_from k c (x # cs) = finishing c k x" using closes_from_none [OF no] by (simp add: closes_from_Cons)
    consider (kept) "\<not> finishing c k x" "channel_inv cfg st1 (c, f) hist out" "tail = []"
      | (out) "finishing c k x" "channel_inv cfg st1 (c, f) [] []" "out @ tail = sanitize_text hist"
      using tail(2) by (auto simp: drained_def split: if_splits)
    then have "keeps st1 st' \<and> (\<not> ch2 \<longrightarrow> cs2 = cs) \<and> drained (closes_from k c (x # cs)) cfg st' (c, f) hist out tail \<and> texts_from (Suc k) (c, f) cs2 = []"
    proof cases
      case kept
      then show ?thesis using 2(1) [OF one [symmetric] refl rest dist kept(2) str'] no closes by (auto simp: drained_def)
    next
      case out
      then show ?thesis using 2(1) [OF one [symmetric] refl rest dist out(2) str'] no closes by (auto simp: drained_def)
    qed
    then show ?thesis using first True tail(1) res texts_from_none [OF no, of f] keeps_trans [of st st1 st']
      by (auto simp: texts_from_Cons owners_from_Cons)
  next
    case False
    then have inv: "channel_inv cfg st1 (c, f) hist out" "text_at (c, f) (k, x') = []" "text_at (c, f) (k, x) = []"
      using first by (auto simp: text_at_def split: option.split)
    have "c \<in> set (owners_from k (x # cs)) \<longleftrightarrow> c \<in> set (owners_from (Suc k) cs)"
      using False by (auto simp: owners_from_Cons)
    moreover have "closes_from k c (x # cs) = closes_from (Suc k) c cs"
      using False by (auto simp: closes_from_Cons finishing_def)
    moreover have "keeps st st'" and "\<not> ch \<longrightarrow> cs' = x # cs"
      using first res keeps_trans [of st st1 st'] 2(1) [OF one [symmetric] refl rest dist inv(1) str'] by blast+
    ultimately show ?thesis using 2(1) [OF one [symmetric] refl rest dist inv(1) str'] inv(2,3) res(2)
      by (cases "c \<in> set (owners_from (Suc k) cs)") (simp_all add: texts_from_Cons)
  qed
qed

section \<open>The objects the kernel builds\<close>

definition choice_text :: "(int \<times> pydict) list \<Rightarrow> text_channel \<Rightarrow> string" where
  "choice_text bc key = text_of (dict_get (lookup_default bc (fst key) []) (snd key))"

lemma choice_text_Nil [simp]: "choice_text [] key = []"
  by (simp add: choice_text_def lookup_default_def dict_get_def)

lemma choice_text_set [simp]:
  "choice_text (set_in_choice c g v bc) (c', f) = (if c' = c \<and> f = g then text_of v else choice_text bc (c', f))"
  by (simp add: choice_text_def set_in_choice_def lookup_default_def)

lemma distinct_set_in_choice [simp]: "distinct (map fst bc) \<Longrightarrow> distinct (map fst (set_in_choice c g v bc))"
  by (simp add: set_in_choice_def distinct_update)

lemma concat_keyed:
  "distinct (map fst al) \<Longrightarrow>
     concat (map (\<lambda>(k, v). if k = c then h v else []) al) = (case map_of al c of None \<Rightarrow> [] | Some v \<Rightarrow> h v)"
proof (induction al)
  case (Cons x al)
  obtain a b where x: "x = (a, b)" by fastforce
  have "concat (map (\<lambda>(k, v). if k = a then h v else []) al) = []"
    using Cons.prems x by (force simp: concat_eq_Nil_conv)
  moreover have "map_of al a = None" using Cons.prems x by (simp add: map_of_eq_None_iff)
  ultimately show ?case using Cons x by (cases "a = c") simp_all
qed simp

lemma texts_from_keyed:
  "texts_from k (c, f) (map (\<lambda>(i, delta). PDict [(''index'', PInt i), (''delta'', PDict delta), (''finish_reason'', PNone)]) al)
     = concat (map (\<lambda>(i, delta). if i = c then text_of (dict_get delta f) else []) al)"
proof (induction al arbitrary: k)
  case (Cons x al)
  then show ?case
    by (cases x) (simp add: texts_from_Cons text_at_def delta_of_def index_of_def choice_index_def index_or_def py_int_def dict_get_def)
qed (simp add: texts_from_def)

lemma object_text_choices:
  assumes "distinct (map fst bc)"
  shows "object_text key (choices_object template bc) = choice_text bc key"
proof -
  obtain c f where key: "key = (c, f)" by fastforce
  have "distinct (map fst (sort_key fst bc))" using assms by (metis distinct_map distinct_sort set_sort)
  then show ?thesis
    using concat_keyed [of "sort_key fst bc" c "\<lambda>d. text_of (dict_get d f)"] map_of_sort_key [OF assms]
    by (simp add: object_text_def choices_object_def channel_texts_def texts_from_keyed [unfolded texts_from_def]
        key choice_text_def lookup_default_def dict_get_def split: option.split)
qed

section \<open>Flushing the stream\<close>

lemma channel_inv_Nil: "channel_inv cfg st key [] out \<Longrightarrow> out = []"
  using pipe_fresh [of cfg] by (auto simp: channel_inv_def let_through_def split: if_splits)

lemma flush_into_fold:
  assumes valid: "valid_canary_set (config_canaries cfg)"
    and "fold flush_into keys (bc, st) = (bc', st')" and "distinct keys" and "channel_inv cfg st key hist out"
    and "distinct (map fst bc)" and "key \<in> set keys \<longrightarrow> choice_text bc key = []"
  shows "keeps st st' \<and> distinct (map fst bc')
    \<and> (if key \<in> set keys then out @ choice_text bc' key = sanitize_text hist \<and> channel_inv cfg st' key [] []
       else choice_text bc' key = choice_text bc key \<and> channel_inv cfg st' key hist out)"
  using assms(2-)
proof (induction keys arbitrary: bc st hist out)
  case (Cons k keys)
  obtain tail st1 where fl: "flush_key k st = (tail, st1)" by fastforce
  define bc1 where "bc1 = (if tail \<noteq> [] then set_in_choice (fst k) (snd k) (PStr tail) bc else bc)"
  have "flush_into k (bc, st) = (bc1, st1)" using fl by (simp add: flush_into_def bc1_def)
  then have rest: "fold flush_into keys (bc1, st1) = (bc', st')" using Cons.prems(1) by simp
  have d1: "distinct (map fst bc1)" using Cons.prems(4) by (simp add: bc1_def)
  have keep: "keeps st st1" by (rule flush_key_keeps [OF fl])
  have text1: "choice_text bc1 key = (if key = k \<and> tail \<noteq> [] then tail else choice_text bc key)"
    by (cases key; cases k) (auto simp: bc1_def)
  show ?case
  proof (cases "key = k")
    case True
    have inv: "out @ tail = sanitize_text hist" "channel_inv cfg st1 key [] []"
      using flush_key_inv [OF valid _ fl] Cons.prems(3) True by auto
    have "key \<notin> set keys" using True Cons.prems(2) by simp
    then show ?thesis
      using Cons.IH [OF rest _ inv(2) d1] Cons.prems(2,5) True inv(1) text1 keep keeps_trans by auto
  next
    case False
    then have inv: "channel_inv cfg st1 key hist out" using flush_other_inv [OF fl] Cons.prems(3) by metis
    show ?thesis
      using Cons.IH [OF rest _ inv d1] Cons.prems(2,5) False text1 keep keeps_trans by auto
  qed
qed simp

lemma flush_tools_fold:
  assumes "fold flush_tool_into keys (bc, st) = (bc', st')" and "f \<noteq> ''tool_calls''" and "distinct (map fst bc)"
  shows "keeps st st' \<and> distinct (map fst bc') \<and> choice_text bc' (c, f) = choice_text bc (c, f)
    \<and> channel_state st' (c, f) = channel_state st (c, f)"
  using assms(1,3)
proof (induction keys arbitrary: bc st)
  case (Cons k keys)
  obtain tail st1 where fl: "flush_tool_key k st = (tail, st1)" by fastforce
  obtain bc1 where one: "flush_tool_into k (bc, st) = (bc1, st1)" and "distinct (map fst bc1)"
    "choice_text bc1 (c, f) = choice_text bc (c, f)"
    using fl assms(2) Cons.prems(2) by (cases "tail = []") (auto simp: flush_tool_into_def Let_def)
  then show ?case
    using Cons.IH [of bc1 st1] Cons.prems(1) flush_tool_key_state [OF fl, of "(c, f)"] keeps_trans by auto
qed simp

definition frames_text :: "(string \<Rightarrow> pyval option) \<Rightarrow> text_channel \<Rightarrow> released_frame list \<Rightarrow> string" where
  "frames_text loads key fs = concat (map (frame_text loads key) fs)"

lemma frames_text_append [simp]: "frames_text loads key (a @ b) = frames_text loads key a @ frames_text loads key b"
  and frames_text_Nil [simp]: "frames_text loads key [] = []"
  by (simp_all add: frames_text_def)

text \<open>The template is there, and not empty, as soon as there is text.\<close>

definition template_ok :: "guarded_state \<Rightarrow> string \<Rightarrow> bool" where
  "template_ok st hist \<longleftrightarrow> gs_template st \<noteq> Some [] \<and> (gs_template st = None \<longrightarrow> hist = [])"

lemma flush_event_inv:
  assumes valid: "valid_canary_set (config_canaries cfg)" and fl: "flush_event st = (fr, st')"
    and f: "f \<in> set TEXT_FIELDS" and inv: "channel_inv cfg st (c, f) hist out" and tmpl: "template_ok st hist"
  shows "keeps st st' \<and> channel_inv cfg st' (c, f) [] []
    \<and> out @ frames_text loads (c, f) (case fr of None \<Rightarrow> [] | Some x \<Rightarrow> [x]) = sanitize_text hist"
proof -
  let ?key = "(c, f)"
  obtain bc1 st1 where one: "fold flush_into (state_keys st) ([], st) = (bc1, st1)" by fastforce
  obtain bc2 st2 where two: "fold flush_tool_into (sort (map fst (gs_tool_detectors st))) (bc1, st1) = (bc2, st2)" by fastforce
  have "distinct (state_keys st)" by (simp add: state_keys_def)
  note first = flush_into_fold [OF valid one this inv]
  have keys: "?key \<notin> set (state_keys st) \<Longrightarrow> hist = []"
    using inv by (auto simp: channel_inv_def state_keys_def map_of_eq_None_iff)
  have d1: "distinct (map fst bc1)" using first by simp
  have text1: "out @ choice_text bc1 ?key = sanitize_text hist" "channel_inv cfg st1 ?key [] []"
    using first keys channel_inv_Nil [of cfg st ?key out] inv by (auto split: if_splits)
  have "f \<noteq> ''tool_calls''" using f tool_calls_no_text by auto
  note second = flush_tools_fold [OF two this d1, of c]
  have st': "st' = st2" and fr: "fr = (case gs_template st of None \<Rightarrow> None
      | Some t \<Rightarrow> if t = [] \<or> bc2 = [] then None else Some (EncodedObject (choices_object t bc2)))"
    using fl one two by (auto simp: flush_event_def Let_def split: option.splits)
  have "frames_text loads ?key (case fr of None \<Rightarrow> [] | Some x \<Rightarrow> [x]) = choice_text bc2 ?key"
  proof (cases "gs_template st")
    case None
    then have "hist = []" using tmpl by (simp add: template_ok_def)
    then have "choice_text bc2 ?key = []" using text1(1) second by simp
    then show ?thesis using None fr by simp
  next
    case (Some t)
    have "t \<noteq> []" using tmpl Some by (simp add: template_ok_def)
    moreover have "object_text ?key (choices_object t bc2) = choice_text bc2 ?key"
      using object_text_choices second by blast
    ultimately show ?thesis using Some fr by (cases "bc2 = []") (simp_all add: frames_text_def frame_text_def)
  qed
  moreover have "channel_inv cfg st2 ?key [] []" using channel_inv_cong second text1(2) by metis
  ultimately show ?thesis using first second text1(1) st' keeps_trans by auto
qed

end
