(* ===== verification/StreamGuarantee.thy ===== *)
theory StreamGuarantee
  imports StreamSafety
begin

text \<open>
  The hard interrupt, one event and the whole guarded stream. The text of a channel is cut where the
  model closes the channel, by a choice with a reason to finish or by the end marker, and nowhere else;
  the channel's output is the sanitised form of these pieces, and none of them holds a canary.
\<close>

section \<open>The hard interrupt\<close>

lemma add_raw_fold:
  "lookup_default (fold (\<lambda>x. if P x then id else add_raw (k x) (v x)) xs m) key []
     = lookup_default m key [] @ concat (map v (filter (\<lambda>x. \<not> P x \<and> k x = key) xs))"
proof (induction xs arbitrary: m)
  case (Cons x xs)
  then show ?case by (auto simp: add_raw_def lookup_default_def)
qed simp

lemma concat_one_key:
  assumes "distinct (map k xs)" and "x \<in> set xs"
  shows "concat (map v (filter (\<lambda>y. k y = k x) xs)) = v x"
  using assms
proof (induction xs)
  case (Cons y xs)
  have "filter (\<lambda>y. k y = k x) xs = []" if "k y = k x"
  proof -
    have "k x \<notin> k ` set xs" using that Cons.prems by simp
    then show ?thesis unfolding filter_empty_conv by (metis image_eqI)
  qed
  then show ?case using Cons by (cases "k y = k x") auto
qed simp

lemma raw_safe_lookup:
  "lookup_default (raw_safe_texts es dts dets) key [] =
     concat (map snd (filter (\<lambda>x. slot_key (fst x) = key) es))
     @ (if key \<in> (slot_key \<circ> fst) ` set dts then [] else concat (map (cd_carry \<circ> snd) (filter (\<lambda>x. fst x = key) dets)))"
proof -
  let ?det = "set (map (\<lambda>(s, dt). (ts_choice s, ts_field s)) dts)"
  have det: "?det = (slot_key \<circ> fst) ` set dts" by (auto simp: slot_key_def image_iff split_beta)
  have 1: "(\<lambda>(s, raw). add_raw (ts_choice s, ts_field s) raw) = (\<lambda>x. if False then id else add_raw (slot_key (fst x)) (snd x))"
    by (auto simp: slot_key_def)
  have 2: "(\<lambda>(key, d). if key \<in> ?det then id else add_raw key (cd_carry d))
      = (\<lambda>x. if fst x \<in> ?det then id else add_raw (fst x) ((cd_carry \<circ> snd) x))" by auto
  have 3: "filter (\<lambda>x. fst x \<notin> ?det \<and> fst x = key) dets = (if key \<in> ?det then [] else filter (\<lambda>x. fst x = key) dets)"
    by (auto simp: filter_empty_conv intro: filter_cong)
  have "lookup_default (raw_safe_texts es dts dets) key [] = concat (map snd (filter (\<lambda>x. \<not> False \<and> slot_key (fst x) = key) es))
      @ concat (map (cd_carry \<circ> snd) (filter (\<lambda>x. fst x \<notin> ?det \<and> fst x = key) dets))"
    unfolding raw_safe_texts_def Let_def 1 2 add_raw_fold by (simp add: lookup_default_def comp_def)
  then show ?thesis unfolding 3 unfolding det by simp
qed

lemma carry_lookup:
  assumes "distinct (map fst dets)"
  shows "concat (map (cd_carry \<circ> snd) (filter (\<lambda>x. fst x = key) dets))
    = (case map_of dets key of None \<Rightarrow> [] | Some d \<Rightarrow> cd_carry d)"
proof (cases "map_of dets key")
  case None
  then have "filter (\<lambda>x. fst x = key) dets = []" by (force simp: filter_empty_conv map_of_eq_None_iff)
  then show ?thesis using None by simp
next
  case (Some d)
  then have "(key, d) \<in> set dets" by (rule map_of_SomeD)
  from concat_one_key [OF assms this, of "cd_carry \<circ> snd"] Some show ?thesis by simp
qed

lemma feed_text_distinct:
  "feed_text_slots cfg ss dets = (es, dts, dets') \<Longrightarrow> distinct (map fst dets) \<Longrightarrow> distinct (map fst dets')"
  by (induction cfg ss dets arbitrary: es dts dets' rule: feed_text_slots.induct)
     (auto simp: Let_def distinct_update split: prod.splits if_splits)

text \<open>What an interrupted event lets through of a channel.\<close>

lemma interrupted_piece:
  assumes valid: "valid_canary_set (config_canaries cfg)" and dist: "distinct (delta_indices choices)"
    and f: "f \<in> set TEXT_FIELDS" and inv: "channel_inv cfg st (c, f) hist out"
    and dd: "distinct (map fst (gs_detectors st))" and on: "canary_enabled cfg"
    and fed: "feed_text_slots cfg (text_slots choices) (gs_detectors st) = (es, dts, dets)"
  shows "\<exists>seg. let_through cfg hist @ lookup_default (raw_safe_texts es dts dets) (c, f) [] = seg
    \<and> prefix seg (hist @ channel_texts (c, f) choices) \<and> canary_free (config_canaries cfg) seg"
proof -
  let ?cs = "config_canaries cfg" and ?key = "(c, f)"
  note spec = feed_text_enabled [OF on distinct_keys [OF dist] fed]
  have es: "map fst es = text_slots choices" by (rule inspected_slots [OF dist fed])
  have keys: "map (\<lambda>x. slot_key (fst x)) es = map slot_key (text_slots choices)"
    using arg_cong [OF es, of "map slot_key"] by (simp add: comp_def)
  have dets: "distinct (map fst dets)" by (rule feed_text_distinct [OF fed dd])
  note raw = raw_safe_lookup [of es dts dets ?key, unfolded carry_lookup [OF dets]]
  have drop: "let_through cfg h @ drop (length h - cs_required_window ?cs) h = h" for h
    using on by (simp add: let_through_def)
  consider (slot) s where "s \<in> set (text_slots choices)" "slot_key s = (c, f)" "channel_texts (c, f) choices = text_of (ts_value s)"
    | (silent) "(c, f) \<notin> slot_key ` set (text_slots choices)" "channel_texts (c, f) choices = []"
    using slot_or_silent [OF dist f] by metis
  then show ?thesis
  proof cases
    case (slot s)
    have "s \<in> fst ` set es" using slot(1) unfolding es [symmetric] by simp
    then obtain rs where rs: "(s, rs) \<in> set es" by auto
    define r where "r = feed_guarded (detector_for cfg (gs_detectors st) ?key) (text_of (ts_value s))"
    have sp: "rs = fst (fst r) \<and> map_of dets ?key = Some (snd r) \<and> (\<forall>dt. (s, dt) \<in> set dts \<longleftrightarrow> snd (fst r) = Some dt)"
      using spec rs unfolding r_def slot(2) [symmetric] Let_def by blast
    have "concat (map snd (filter (\<lambda>x. slot_key (fst x) = ?key) es)) = rs"
      using concat_one_key [of "\<lambda>x. slot_key (fst x)" es "(s, rs)" snd] keys distinct_keys [OF dist] rs slot(2) by simp
    moreover have "?key \<in> (slot_key \<circ> fst) ` set dts \<longleftrightarrow> snd (fst r) \<noteq> None"
    proof
      assume "?key \<in> (slot_key \<circ> fst) ` set dts"
      then obtain u dt where u: "(u, dt) \<in> set dts" "slot_key u = ?key" by auto
      then have "u \<in> set (text_slots choices)" using spec by force
      then have "u = s" using distinct_slot_keys [OF dist _ slot(1)] u(2) slot(2) by simp
      then show "snd (fst r) \<noteq> None" using u(1) sp by simp
    next
      assume "snd (fst r) \<noteq> None"
      then obtain dt where "(s, dt) \<in> set dts" using sp by auto
      then show "?key \<in> (slot_key \<circ> fst) ` set dts" using slot(2) by (metis comp_apply fst_conv image_eqI)
    qed
    ultimately have piece: "lookup_default (raw_safe_texts es dts dets) ?key [] =
        rs @ (if snd (fst r) \<noteq> None then [] else cd_carry (snd r))"
      using raw sp by simp
    have "feed_guarded (detector_for cfg (gs_detectors st) ?key) (text_of (ts_value s)) = ((rs, snd (fst r)), snd r)"
      by (subst r_def [symmetric]) (use sp in simp)
    note step = inspected_piece [OF valid inv on this]
    show ?thesis
    proof (cases "snd (fst r)")
      case None
      then have "detector_at ?cs (hist @ text_of (ts_value s)) (snd r)"
        and "let_through cfg hist @ rs = let_through cfg (hist @ text_of (ts_value s))"
        using step by simp_all
      moreover from this have "cd_carry (snd r) = drop (length (hist @ text_of (ts_value s)) - cs_required_window ?cs) (hist @ text_of (ts_value s))"
        and "canary_free ?cs (hist @ text_of (ts_value s))"
        by (simp_all only: detector_at_def)
      ultimately have "let_through cfg hist @ rs @ cd_carry (snd r) = hist @ text_of (ts_value s)"
        using drop [of "hist @ text_of (ts_value s)"] by (simp only: append_assoc [symmetric])
      then show ?thesis using piece None slot(3) \<open>canary_free ?cs (hist @ text_of (ts_value s))\<close> by simp
    next
      case (Some dt)
      then show ?thesis using step piece slot(3) by simp
    qed
  next
    case silent
    have "slot_key (fst x) \<noteq> ?key" if "x \<in> set es" for x
    proof -
      have "fst x \<in> set (text_slots choices)" using that es by (metis image_eqI list.set_map)
      then show ?thesis using silent(1) by (metis image_eqI)
    qed
    then have "filter (\<lambda>x. slot_key (fst x) = ?key) es = []" by (simp add: filter_empty_conv)
    moreover have "fst ` set dts \<subseteq> set (text_slots choices)" using spec by blast
    then have "?key \<notin> (slot_key \<circ> fst) ` set dts" using silent(1) by (auto simp del: image_comp)
    ultimately have piece: "lookup_default (raw_safe_texts es dts dets) ?key [] =
        (case map_of (gs_detectors st) ?key of None \<Rightarrow> [] | Some d \<Rightarrow> cd_carry d)"
      using raw inspected_slots(2) [OF dist fed silent(1)] by simp
    show ?thesis
    proof (cases "map_of (gs_detectors st) ?key")
      case None
      then have "hist = []" using inv on by (auto simp: channel_inv_def)
      then show ?thesis using None piece silent(2) inv on by (simp add: let_through_def channel_inv_def)
    next
      case (Some d)
      then have "cd_carry d = drop (length hist - cs_required_window ?cs) hist" "canary_free ?cs hist"
        using inv on by (simp_all add: channel_inv_def detector_at_def detector_for_def lookup_default_def)
      then show ?thesis using Some piece silent(2) drop by simp
    qed
  qed
qed

lemma settle_channel_eq:
  "settle_channel cfg st rs key = fst (flush_quarantine (fst (flush_filter (lookup_default rs key [])
     (fst (pipe_for cfg st key)))) (snd (pipe_for cfg st key)))"
  by (auto simp: settle_channel_def pipe_for_def lookup_default_def Let_def split: option.split)

lemma settle_fold:
  assumes "distinct (map fst bc)"
  shows "distinct (map fst (fold (\<lambda>key bc. let released = g key in
      if released \<noteq> [] then set_in_choice (fst key) (snd key) (PStr released) bc else bc) keys bc))"
    and "choice_text (fold (\<lambda>key bc. let released = g key in
      if released \<noteq> [] then set_in_choice (fst key) (snd key) (PStr released) bc else bc) keys bc) key
     = (if key \<in> set keys \<and> g key \<noteq> [] then g key else choice_text bc key)"
proof -
  let ?step = "\<lambda>key bc. let released = g key in
      if released \<noteq> [] then set_in_choice (fst key) (snd key) (PStr released) bc else bc"
  show "distinct (map fst (fold ?step keys bc))" using assms by (induction keys arbitrary: bc) (simp_all add: Let_def)
  have "choice_text (?step k bc) key = (if key = k \<and> g key \<noteq> [] then g key else choice_text bc key)" for k bc
    by (cases key; cases k) (auto simp: Let_def)
  then show "choice_text (fold ?step keys bc) key = (if key \<in> set keys \<and> g key \<noteq> [] then g key else choice_text bc key)"
    by (induction keys arbitrary: bc) (auto simp del: Let_def)
qed

lemma calls_fold:
  assumes "distinct (map fst bc)" and "f \<noteq> ''tool_calls''"
  shows "distinct (map fst (fold (\<lambda>(c, calls). if calls \<noteq> [] then set_in_choice c ''tool_calls'' (PList calls) else id) xs bc))
    \<and> choice_text (fold (\<lambda>(c, calls). if calls \<noteq> [] then set_in_choice c ''tool_calls'' (PList calls) else id) xs bc) (c', f)
      = choice_text bc (c', f)"
  using assms by (induction xs arbitrary: bc) (auto split: prod.split)

lemma interrupt_inv:
  assumes valid: "valid_canary_set (config_canaries cfg)" and dist: "distinct (delta_indices choices)"
    and f: "f \<in> set TEXT_FIELDS" and inv: "channel_inv cfg st (c, f) hist out"
    and dd: "distinct (map fst (gs_detectors st))" and on: "canary_enabled cfg"
    and fed: "feed_text_slots cfg (text_slots choices) (gs_detectors st) = (es, dts, dets)"
  shows "\<exists>seg. prefix seg (hist @ channel_texts (c, f) choices) \<and> canary_free (config_canaries cfg) seg
    \<and> out @ frames_text loads (c, f) (interrupt_frames cfg st template (raw_safe_texts es dts dets) calls) = sanitize_text seg"
proof -
  let ?key = "(c, f)" and ?rs = "raw_safe_texts es dts dets"
  let ?keys = "sort (remdups (map fst ?rs @ map fst (gs_filters st) @ map fst (gs_quarantines st)))"
  define texts where "texts = fold (\<lambda>key by_choice. let released = settle_channel cfg st ?rs key in
      if released \<noteq> [] then set_in_choice (fst key) (snd key) (PStr released) by_choice else by_choice) ?keys []"
  define bc where "bc = fold (\<lambda>(c, calls). if calls \<noteq> [] then set_in_choice c ''tool_calls'' (PList calls) else id)
      (sort_key fst calls) texts"
  obtain fi q where fq: "pipe_for cfg st ?key = (fi, q)" by fastforce
  have pipe: "release_pipe_feed (new_marker_filter, config_quarantine cfg) (let_through cfg hist) = (out, fi, q)"
    using inv fq by (simp add: channel_inv_def)
  have settle: "out @ settle_channel cfg st ?rs ?key = sanitize_text (let_through cfg hist @ lookup_default ?rs ?key [])"
    using drain_pipe [OF pipe, of "lookup_default ?rs ?key []"] fq by (simp add: settle_channel_eq)
  have silent: "settle_channel cfg st ?rs ?key = []" if "?key \<notin> set ?keys"
  proof -
    have "map_of ?rs ?key = None" "map_of (gs_filters st) ?key = None" "map_of (gs_quarantines st) ?key = None"
      using that by (simp_all add: map_of_eq_None_iff)
    then show ?thesis by (simp add: settle_channel_eq pipe_for_def lookup_default_def)
  qed
  have "distinct (map fst texts)" and "choice_text texts ?key = settle_channel cfg st ?rs ?key"
    using settle_fold [of "[]" "settle_channel cfg st ?rs" ?keys] silent unfolding texts_def by auto
  moreover have "f \<noteq> ''tool_calls''" using f tool_calls_no_text by auto
  ultimately have bc: "distinct (map fst bc)" "choice_text bc ?key = settle_channel cfg st ?rs ?key"
    using calls_fold [of texts f "sort_key fst calls" c] unfolding bc_def by simp_all
  have "interrupt_frames cfg st template ?rs calls = (if bc = [] then [] else [EncodedObject (choices_object template bc)])"
    unfolding interrupt_frames_def Let_def bc_def texts_def ..
  then have "frames_text loads ?key (interrupt_frames cfg st template ?rs calls) = settle_channel cfg st ?rs ?key"
    using bc object_text_choices [OF bc(1), of ?key template] by (auto simp: frames_text_def frame_text_def)
  then show ?thesis using settle interrupted_piece [OF valid dist f inv dd on fed] by metis
qed

section \<open>One event\<close>

definition stream_inv :: "guard_config \<Rightarrow> guarded_state \<Rightarrow> text_channel \<Rightarrow> string \<Rightarrow> string \<Rightarrow> bool" where
  "stream_inv cfg st key hist out \<longleftrightarrow>
     channel_inv cfg st key hist out \<and> template_ok st hist \<and> distinct (map fst (gs_detectors st))"

text \<open>The text has been added, and it has been drained if the channel was closed.\<close>

definition advanced :: "bool \<Rightarrow> guard_config \<Rightarrow> guarded_state \<Rightarrow> text_channel \<Rightarrow> string \<Rightarrow> string \<Rightarrow> bool" where
  "advanced closed cfg st key hist out \<longleftrightarrow>
     (if closed then stream_inv cfg st key [] [] \<and> out = sanitize_text hist \<and> canary_free (config_canaries cfg) hist
      else stream_inv cfg st key hist out)"

definition chunk_closes :: "(string \<Rightarrow> pyval option) \<Rightarrow> int \<Rightarrow> string \<Rightarrow> bool" where
  "chunk_closes loads c chunk =
     (py_strip chunk = DONE_TEXT
      \<or> (case parse_sse_object loads chunk of
           None \<Rightarrow> False
         | Some obj \<Rightarrow> (case dict_get obj ''choices'' of PList choices \<Rightarrow> closes_from 0 c choices | _ \<Rightarrow> False)))"

lemma same_frame_closes: "same_frame cs cs' \<Longrightarrow> closes_from 0 c cs' \<longleftrightarrow> closes_from 0 c cs"
  unfolding closes_from_def finishing_def same_frame_def by (metis add_0)

text \<open>An event the guard can keep apart by channel: the choices that carry a delta have different
  indices, no index is an infinite float, and there is something to make a template of.\<close>

definition no_overflow :: "pyval list \<Rightarrow> bool" where
  "no_overflow choices \<longleftrightarrow> \<not> list_ex index_overflows choices \<and> \<not> list_ex calls_overflow choices"

lemma no_overflow_read:
  assumes "no_overflow choices"
  shows "choices_read choices = choices" "calls_read choices = choices"
    "\<not> list_ex index_overflows choices" "\<not> list_ex calls_overflow choices"
proof -
  have "\<forall>x \<in> set choices. \<not> index_overflows x" "\<forall>x \<in> set choices. \<not> calls_overflow x"
    using assms by (auto simp: no_overflow_def list_ex_iff)
  then show "choices_read choices = choices" "calls_read choices = choices"
    unfolding choices_read_def calls_read_def
    by (simp_all add: takeWhile_eq_all_conv [THEN iffD2] dropWhile_eq_Nil_conv [THEN iffD2])
qed (use assms in \<open>simp_all add: no_overflow_def\<close>)

lemma guarded_object_plain:
  assumes "no_overflow choices"
  shows "guarded_object cfg chunk obj choices st =
     (case feed_text_slots cfg (text_slots choices) (gs_detectors st) of (es, dts, dets) \<Rightarrow>
      case (if canary_enabled cfg \<and> dts = [] then feed_tool_slots cfg (tool_slots choices) (gs_tool_detectors st)
            else ([], [], gs_tool_detectors st)) of (tes, tdts, tdets) \<Rightarrow>
      if dts \<noteq> [] \<or> tdts \<noteq> [] then
        EventInterrupted (interrupt_frames cfg st (chat_chunk_template obj) (raw_safe_texts es dts dets) (safe_tool_calls tes tdts tdets))
          (primary_match dts tdts)
      else
        (case release_texts cfg es choices
                (st\<lparr>gs_template := Some (chat_chunk_template obj), gs_detectors := dets, gs_tool_detectors := tdets\<rparr>) of (ch1, cs1, st2) \<Rightarrow>
         case release_tools tes cs1 of (ch2, cs2) \<Rightarrow>
         case finish_choices 0 cs2 st2 of (ch3, cs3, st3) \<Rightarrow>
         EventReleased
           [if ch1 \<or> ch2 \<or> ch3 then EncodedObject (dict_set obj ''choices'' (PList cs3)) else PassedThrough chunk] st3))"
  unfolding guarded_object_def no_overflow_read(1,2) [OF assms] Let_def
  using no_overflow_read(3,4) [OF assms] by (simp only: if_False simp_thms)

definition object_ok :: "pydict \<Rightarrow> bool" where
  "object_ok obj = (case dict_get obj ''choices'' of
       PList choices \<Rightarrow> choices = [] \<or> distinct (delta_indices choices) \<and> chat_chunk_template obj \<noteq> [] \<and> no_overflow choices
     | _ \<Rightarrow> True)"

definition event_ok :: "(string \<Rightarrow> pyval option) \<Rightarrow> string \<Rightarrow> bool" where
  "event_ok loads chunk = (case parse_sse_object loads chunk of None \<Rightarrow> True | Some obj \<Rightarrow> object_ok obj)"

lemma owners_delta_indices: "owners_from 0 cs = delta_indices cs"
  by (simp add: owners_from_def delta_indices_def)

lemma texts_channel: "texts_from 0 key cs = channel_texts key cs"
  by (simp add: texts_from_def channel_texts_def)

lemma same_frame_update_any: "same_frame cs (update_nth n (with_delta g) cs)"
proof (cases "n < length cs")
  case False
  then show ?thesis by (simp add: update_nth_def list_update_beyond same_frame_refl)
qed (rule same_frame_update)

lemma release_texts_frame:
  "release_texts cfg es cs st = (ch, cs', st') \<Longrightarrow>
     same_frame cs cs' \<and> gs_template st' = gs_template st \<and> gs_done st' = gs_done st \<and> gs_detectors st' = gs_detectors st"
proof (induction es arbitrary: cs st ch)
  case (Cons e es)
  obtain s raw where e: "e = (s, raw)" by fastforce
  obtain cs1 st1 ch1 where "release_texts cfg es cs1 st1 = (ch1, cs', st')" and "same_frame cs cs1"
    and "gs_template st1 = gs_template st" "gs_done st1 = gs_done st" "gs_detectors st1 = gs_detectors st"
    using Cons.prems same_frame_update_any by (auto simp: e Let_def split: prod.splits)
  then show ?case using Cons.IH [of cs1 st1 ch1] same_frame_trans by auto
qed (simp add: same_frame_refl)

lemma guarded_object_released:
  assumes valid: "valid_canary_set (config_canaries cfg)" and f: "f \<in> set TEXT_FIELDS"
    and inv: "stream_inv cfg st (c, f) hist out"
    and chunk: "chunk_text loads (c, f) chunk = channel_texts (c, f) choices"
    and dist: "distinct (delta_indices choices)" and tmpl: "chat_chunk_template obj \<noteq> []" and fin: "no_overflow choices"
    and res: "guarded_object cfg chunk obj choices st = EventReleased frames st'"
  shows "advanced (closes_from 0 c choices) cfg st' (c, f) (hist @ channel_texts (c, f) choices)
      (out @ frames_text loads (c, f) frames)
    \<and> gs_done st' = gs_done st"
proof -
  let ?key = "(c, f)"
  obtain es dts dets where fed: "feed_text_slots cfg (text_slots choices) (gs_detectors st) = (es, dts, dets)" by (metis surj_pair)
  obtain tes tdts tdets where tools: "(if canary_enabled cfg \<and> dts = []
      then feed_tool_slots cfg (tool_slots choices) (gs_tool_detectors st) else ([], [], gs_tool_detectors st)) = (tes, tdts, tdets)"
    by (metis surj_pair)
  have none: "dts = []" using res by (auto simp: guarded_object_plain [OF fin] fed tools Let_def split: if_splits)
  define st1 where "st1 = st\<lparr>gs_template := Some (chat_chunk_template obj), gs_detectors := dets, gs_tool_detectors := tdets\<rparr>"
  obtain ch1 cs1 st2 where rel: "release_texts cfg es choices st1 = (ch1, cs1, st2)" by (metis surj_pair)
  obtain ch2 cs2 where call: "release_tools tes cs1 = (ch2, cs2)" by fastforce
  obtain ch3 cs3 where finish: "finish_choices 0 cs2 st2 = (ch3, cs3, st')"
    and frames: "frames = [if ch1 \<or> ch2 \<or> ch3 then EncodedObject (dict_set obj ''choices'' (PList cs3)) else PassedThrough chunk]"
    using res by (auto simp: guarded_object_plain [OF fin] fed tools Let_def rel [unfolded st1_def] call split: if_splits prod.splits)
  have chan: "channel_inv cfg st ?key hist out" and dd: "distinct (map fst (gs_detectors st))"
    using inv by (simp_all add: stream_inv_def)
  note one = release_event [OF valid dist f chan fed [unfolded none] _ _ _ rel]
  have rel_inv: "channel_inv cfg st2 ?key (hist @ channel_texts ?key choices) (out @ channel_texts ?key cs1)"
    and same1: "\<not> ch1 \<Longrightarrow> channel_texts ?key cs1 = channel_texts ?key choices"
    and str1: "\<forall>n < length choices. index_of n (choices ! n) = c \<longrightarrow> (\<exists>t. dget cs1 n f \<in> {PNone, PStr t})"
    using one by (simp_all add: st1_def)
  have "f \<noteq> ''tool_calls''" using f tool_calls_no_text by auto
  note two = release_tools_frame [OF call this]
  have frame1: "same_frame choices cs1" and st2: "gs_template st2 = Some (chat_chunk_template obj)"
    "gs_done st2 = gs_done st" "gs_detectors st2 = dets"
    using release_texts_frame [OF rel] by (simp_all add: st1_def)
  have frame2: "same_frame choices cs2" using frame1 two same_frame_trans by blast
  have texts2: "channel_texts ?key cs2 = channel_texts ?key cs1"
    using same_frame_texts [of cs1 cs2 c f] two same_frame_indices [OF frame1] dist by simp
  have str2: "\<forall>n < length cs2. index_of (0 + n) (cs2 ! n) = c \<longrightarrow> (\<exists>t. dget cs2 n f \<in> {PNone, PStr t})"
    using str1 two frame2 unfolding same_frame_def by auto
  have dist2: "distinct (owners_from 0 cs2)"
    using dist same_frame_indices [OF frame2] by (simp add: owners_delta_indices)
  note three = finish_choices_inv [OF valid f finish dist2 rel_inv str2, unfolded texts_channel]
  have keep: "keeps st2 st'" using three by blast
  have dd2: "distinct (map fst (gs_detectors st'))"
    using keep feed_text_distinct [OF fed dd] st2(3) by (simp add: keeps_def)
  have tmpl2: "template_ok st' h" for h using keep st2(1) tmpl by (simp add: keeps_def template_ok_def)
  have out: "frames_text loads ?key frames = channel_texts ?key cs3"
    using chunk same1 texts2 three by (auto simp: frames frames_text_def frame_text_def object_text_def)
  have free: "canary_free (config_canaries cfg) (hist @ channel_texts ?key choices)"
    using rel_inv by (simp add: channel_inv_def)
  have closes: "closes_from 0 c cs2 = closes_from 0 c choices" by (rule same_frame_closes [OF frame2])
  have "advanced (closes_from 0 c choices) cfg st' ?key (hist @ channel_texts ?key choices) (out @ channel_texts ?key cs3)"
  proof (cases "c \<in> set (owners_from 0 cs2)")
    case True
    then obtain tail where "channel_texts ?key cs3 = channel_texts ?key cs2 @ tail"
      "drained (closes_from 0 c cs2) cfg st' ?key (hist @ channel_texts ?key choices) (out @ channel_texts ?key cs1) tail"
      using three by auto
    then show ?thesis using texts2 free tmpl2 dd2 closes by (auto simp: drained_def advanced_def stream_inv_def split: if_splits)
  next
    case False
    then have "channel_texts ?key cs1 = []" using texts2 channel_texts_no_owner by (metis owners_delta_indices)
    then show ?thesis using three False tmpl2 dd2 closes closes_from_none [OF False] by (simp add: advanced_def stream_inv_def)
  qed
  then show ?thesis using out keep st2(2) by (simp add: keeps_def)
qed

text \<open>Every event but a malformed one, and the event the stream ends with.\<close>

lemma passed_on:
  "stream_inv cfg st key hist out \<Longrightarrow> chunk_text loads key chunk = [] \<Longrightarrow>
     advanced False cfg st key (hist @ chunk_text loads key chunk) (out @ frames_text loads key [PassedThrough chunk])"
  by (simp add: advanced_def frames_text_def frame_text_def)

lemma guarded_event_inv:
  assumes valid: "valid_canary_set (config_canaries cfg)" and f: "f \<in> set TEXT_FIELDS"
    and inv: "stream_inv cfg st (c, f) hist out" and ok: "event_ok loads chunk"
  shows "case guarded_event cfg loads chunk st of
      EventReleased frames st' \<Rightarrow>
        advanced (chunk_closes loads c chunk) cfg st' (c, f) (hist @ chunk_text loads (c, f) chunk) (out @ frames_text loads (c, f) frames)
        \<and> (py_strip chunk \<noteq> DONE_TEXT \<longrightarrow> gs_done st' = gs_done st)
    | EventInterrupted frames m \<Rightarrow>
        (\<exists>seg. prefix seg (hist @ chunk_text loads (c, f) chunk) \<and> canary_free (config_canaries cfg) seg
           \<and> out @ frames_text loads (c, f) frames = sanitize_text seg)
    | EventMalformed \<Rightarrow> chunk_text loads (c, f) chunk = []
    | EventOverflowed st' \<Rightarrow> False"
proof (cases "py_strip chunk = DONE_TEXT")
  case True
  let ?key = "(c, f)"
  obtain fr st1 where fl: "flush_event st = (fr, st1)" by fastforce
  have chan: "channel_inv cfg st ?key hist out" and tmpl: "template_ok st hist" and dd: "distinct (map fst (gs_detectors st))"
    using inv by (simp_all add: stream_inv_def)
  note flushed = flush_event_inv [OF valid fl f chan tmpl, of loads]
  have ev: "guarded_event cfg loads chunk st = EventReleased ((case fr of None \<Rightarrow> [] | Some f \<Rightarrow> [f]) @ [PassedThrough chunk])
      (st1\<lparr>gs_done := True\<rparr>)"
    using True fl by (simp add: guarded_event_def)
  have "channel_inv cfg (st1\<lparr>gs_done := True\<rparr>) ?key [] []"
    using flushed channel_inv_cong [of "st1\<lparr>gs_done := True\<rparr>" ?key st1] by (simp add: channel_state_def)
  then have "stream_inv cfg (st1\<lparr>gs_done := True\<rparr>) ?key [] []"
    using flushed tmpl dd by (auto simp: stream_inv_def template_ok_def keeps_def)
  moreover have "chunk_text loads ?key chunk = []" using True by (simp add: chunk_text_def)
  moreover have "canary_free (config_canaries cfg) hist" using chan by (simp add: channel_inv_def)
  ultimately show ?thesis using flushed ev True by (simp add: advanced_def chunk_closes_def frames_text_def frame_text_def)
next
  case False
  let ?key = "(c, f)"
  show ?thesis
  proof (cases "parse_sse_object loads chunk")
    case None
    then have empty: "chunk_text loads ?key chunk = []" by (simp add: chunk_text_def)
    moreover have "\<not> chunk_closes loads c chunk" using False None by (simp add: chunk_closes_def)
    ultimately show ?thesis using passed_on [OF inv empty] False None by (simp add: guarded_event_def)
  next
    case (Some obj)
    then have chunk: "chunk_text loads ?key chunk = object_text ?key obj" using False by (simp add: chunk_text_def)
    show ?thesis
    proof (cases "\<exists>choices. dict_get obj ''choices'' = PList choices \<and> choices \<noteq> []")
      case False
      then have "object_text ?key obj = []" by (auto simp: object_text_def channel_texts_def split: pyval.splits)
      moreover have "\<not> chunk_closes loads c chunk"
        using \<open>py_strip chunk \<noteq> DONE_TEXT\<close> Some False by (auto simp: chunk_closes_def split: pyval.splits)
      moreover have "guarded_event cfg loads chunk st = EventReleased [PassedThrough chunk] st"
        using \<open>py_strip chunk \<noteq> DONE_TEXT\<close> Some False by (auto simp: guarded_event_def split: pyval.splits)
      ultimately show ?thesis using passed_on [OF inv, of loads chunk] \<open>py_strip chunk \<noteq> DONE_TEXT\<close> chunk by simp
    next
      case True
      then obtain choices where choices: "dict_get obj ''choices'' = PList choices" "choices \<noteq> []" by blast
      have dist: "distinct (delta_indices choices)" and tmpl: "chat_chunk_template obj \<noteq> []"
        and fin: "no_overflow choices"
        using ok Some choices by (simp_all add: event_ok_def object_ok_def)
      have txt1: "chunk_text loads ?key chunk = channel_texts ?key choices" using chunk choices by (simp add: object_text_def)
      have closes: "chunk_closes loads c chunk = closes_from 0 c choices"
        using \<open>py_strip chunk \<noteq> DONE_TEXT\<close> Some choices by (simp add: chunk_closes_def)
      have ev: "guarded_event cfg loads chunk st = guarded_object cfg chunk obj choices st"
        using \<open>py_strip chunk \<noteq> DONE_TEXT\<close> Some choices by (simp add: guarded_event_def)
      show ?thesis
      proof (cases "guarded_object cfg chunk obj choices st")
        case (EventReleased frames st')
        then show ?thesis
          using guarded_object_released [OF valid f inv txt1 dist tmpl fin EventReleased] ev txt1 closes by simp
      next
        case (EventInterrupted frames m)
        obtain es dts dets where fed: "feed_text_slots cfg (text_slots choices) (gs_detectors st) = (es, dts, dets)" by (metis surj_pair)
        obtain calls where "frames = interrupt_frames cfg st (chat_chunk_template obj) (raw_safe_texts es dts dets) calls"
          using EventInterrupted by (auto simp: guarded_object_plain [OF fin] fed Let_def split: if_splits prod.splits)
        moreover have "canary_enabled cfg"
        proof (rule ccontr)
          assume off: "\<not> canary_enabled cfg"
          then have "dts = []" using fed by (simp add: feed_text_disabled)
          then show False using EventInterrupted off by (auto simp: guarded_object_plain [OF fin] fed Let_def split: prod.splits)
        qed
        moreover have "channel_inv cfg st ?key hist out" "distinct (map fst (gs_detectors st))"
          using inv by (simp_all add: stream_inv_def)
        ultimately show ?thesis using interrupt_inv [OF valid dist f _ _ _ fed] ev txt1 EventInterrupted by simp
      next
        case EventMalformed
        then show ?thesis by (auto simp: guarded_object_def Let_def split: if_splits prod.splits)
      next
        case (EventOverflowed st')
        then show ?thesis
          by (auto simp: guarded_object_plain [OF fin] Let_def split: if_splits prod.splits)
      qed
    qed
  qed
qed

section \<open>The stream\<close>

text \<open>The end marker is the last chunk, if it comes at all.\<close>

definition done_last :: "string list \<Rightarrow> bool" where
  "done_last chunks = (\<forall>chunk \<in> set (butlast chunks). py_strip chunk \<noteq> DONE_TEXT)"

definition ended_upstream :: "stream_outcome \<Rightarrow> bool" where
  "ended_upstream oc = (case oc of StreamFinished \<Rightarrow> True | StreamUpstreamFailed e \<Rightarrow> True | _ \<Rightarrow> False)"

text \<open>The text of a channel in pieces: a piece ends with the chunk that closes the channel, and the last
  piece is what the channel has received since.\<close>

fun channel_pieces :: "(string \<Rightarrow> pyval option) \<Rightarrow> text_channel \<Rightarrow> string \<Rightarrow> string list \<Rightarrow> string list" where
  "channel_pieces loads key piece [] = [piece]"
| "channel_pieces loads key piece (chunk # chunks) =
     (let piece' = piece @ chunk_text loads key chunk in
      if chunk_closes loads (fst key) chunk then piece' # channel_pieces loads key [] chunks
      else channel_pieces loads key piece' chunks)"

text \<open>The output is the sanitised form of the first pieces, whole, and of a part of the next that starts
  where the piece does; no canary is in any of them. At the end of the pieces nothing is missing.\<close>

definition released_as :: "canary_set \<Rightarrow> string list \<Rightarrow> string \<Rightarrow> bool" where
  "released_as cs pieces output \<longleftrightarrow>
     (\<exists>n < length pieces. \<exists>part. prefix part (pieces ! n)
        \<and> output = concat (map sanitize_text (take n pieces @ [part]))
        \<and> (\<forall>piece \<in> set (take n pieces @ [part]). canary_free cs piece))"

definition released_whole :: "canary_set \<Rightarrow> string list \<Rightarrow> string \<Rightarrow> bool" where
  "released_whole cs pieces output \<longleftrightarrow>
     output = concat (map sanitize_text pieces) \<and> (\<forall>piece \<in> set pieces. canary_free cs piece)"

definition released :: "bool \<Rightarrow> canary_set \<Rightarrow> string list \<Rightarrow> string \<Rightarrow> bool" where
  "released whole cs pieces output = (if whole then released_whole cs pieces output else released_as cs pieces output)"

lemma released_Cons:
  assumes "released whole cs pieces output" and "out = sanitize_text piece" and "canary_free cs piece"
  shows "released whole cs (piece # pieces) (out @ output)"
proof (cases whole)
  case False
  then obtain n part where "n < length pieces" "prefix part (pieces ! n)"
    "output = concat (map sanitize_text (take n pieces @ [part]))" "\<forall>piece \<in> set (take n pieces @ [part]). canary_free cs piece"
    using assms(1) by (auto simp: released_def released_as_def)
  then have "released_as cs (piece # pieces) (out @ output)"
    unfolding released_as_def using assms(2,3) by (intro exI [of _ "Suc n"] conjI exI [of _ part]) auto
  then show ?thesis using False by (simp add: released_def)
qed (use assms in \<open>simp add: released_def released_whole_def\<close>)

lemma channel_pieces_hd: "\<exists>x xs. channel_pieces loads key piece chunks = x # xs \<and> prefix piece x"
proof (induction chunks arbitrary: piece)
  case (Cons chunk chunks)
  show ?case
  proof (cases "chunk_closes loads (fst key) chunk")
    case False
    then show ?thesis using Cons [of "piece @ chunk_text loads key chunk"] by (auto simp: Let_def dest: append_prefixD)
  qed (simp add: Let_def)
qed simp

lemma first_piece:
  assumes "prefix part (piece @ chunk_text loads key chunk)" and "canary_free cs part"
  shows "released_as cs (channel_pieces loads key piece (chunk # chunks)) (sanitize_text part)"
proof -
  obtain x xs where pieces: "channel_pieces loads key piece (chunk # chunks) = x # xs" "prefix (piece @ chunk_text loads key chunk) x"
    using channel_pieces_hd [of loads key "piece @ chunk_text loads key chunk" chunks]
    by (cases "chunk_closes loads (fst key) chunk") (auto simp: Let_def)
  then have "prefix part x" using assms(1) prefix_order.order_trans by blast
  then show ?thesis unfolding released_as_def pieces(1)
    using assms(2) by (intro exI [of _ 0] conjI exI [of _ part]) auto
qed

lemma stream_channel:
  assumes valid: "valid_canary_set (config_canaries cfg)" and f: "f \<in> set TEXT_FIELDS"
    and "stream_inv cfg st (c, f) hist out" and "guarded_stream cfg loads chunks ending st = (frames, oc)"
    and "\<forall>chunk \<in> set chunks. event_ok loads chunk" and "done_last chunks"
    and "gs_done st \<longrightarrow> chunks = [] \<and> hist = []"
  shows "released (ended_upstream oc) (config_canaries cfg) (channel_pieces loads (c, f) hist chunks)
    (out @ frames_text loads (c, f) frames)"
  using assms(3-)
proof (induction chunks arbitrary: st hist out frames)
  case Nil
  have chan: "channel_inv cfg st (c, f) hist out" and tmpl: "template_ok st hist"
    using Nil.prems(1) by (simp_all add: stream_inv_def)
  obtain fr st1 where fl: "flush_event st = (fr, st1)" by fastforce
  note flushed = flush_event_inv [OF valid fl f chan tmpl, of loads]
  have free: "canary_free (config_canaries cfg) hist" using chan by (simp add: channel_inv_def)
  have "out @ frames_text loads (c, f) frames = sanitize_text hist"
  proof (cases "gs_done st \<and> ending = UpstreamFinished")
    case True
    then have "hist = []" "frames = []" using Nil.prems(2,5) fl by auto
    then show ?thesis using channel_inv_Nil chan by simp
  next
    case False
    then have "frames = (case fr of None \<Rightarrow> [] | Some x \<Rightarrow> [x])"
      using Nil.prems(2) fl by (auto simp: Let_def split: upstream_end.splits)
    then show ?thesis using flushed by simp
  qed
  moreover have "ended_upstream oc"
    using Nil.prems(2) by (auto simp: ended_upstream_def Let_def split: upstream_end.splits)
  ultimately show ?case using free by (simp add: released_def released_whole_def)
next
  case (Cons x chunks)
  let ?key = "(c, f)" and ?t = "chunk_text loads (c, f) x"
  have ok: "event_ok loads x" "\<forall>chunk \<in> set chunks. event_ok loads chunk" and undone: "\<not> gs_done st"
    using Cons.prems(3,5) by auto
  have dl: "done_last chunks" and mark: "py_strip x = DONE_TEXT \<Longrightarrow> chunks = []"
    using Cons.prems(4) by (auto simp: done_last_def split: if_splits)
  have chan: "channel_inv cfg st ?key hist out" and tmpl: "template_ok st hist"
    using Cons.prems(1) by (simp_all add: stream_inv_def)
  have free: "canary_free (config_canaries cfg) hist" using chan by (simp add: channel_inv_def)
  note ev = guarded_event_inv [OF valid f Cons.prems(1) ok(1)]
  show ?case
  proof (cases "guarded_event cfg loads x st")
    case EventMalformed
    obtain fr st1 where fl: "flush_event st = (fr, st1)" by fastforce
    have "frames = (case fr of None \<Rightarrow> [] | Some x \<Rightarrow> [x])" "oc = StreamProtocolFailed"
      using Cons.prems(2) EventMalformed fl by (simp_all)
    then show ?thesis
      using flush_event_inv [OF valid fl f chan tmpl, of loads] first_piece [OF _ free, of hist loads ?key x chunks]
      by (simp add: released_def ended_upstream_def)
  next
    case (EventOverflowed st')
    then show ?thesis using ev by simp
  next
    case (EventInterrupted fs m)
    then have "frames = fs" "oc = StreamInterrupted m" using Cons.prems(2) by simp_all
    moreover obtain seg where "prefix seg (hist @ ?t)" "canary_free (config_canaries cfg) seg"
      "out @ frames_text loads ?key fs = sanitize_text seg"
      using ev EventInterrupted by auto
    ultimately show ?thesis using first_piece [of seg hist loads ?key x "config_canaries cfg" chunks]
      by (simp add: released_def ended_upstream_def)
  next
    case (EventReleased fs st')
    obtain rest where rest: "guarded_stream cfg loads chunks ending st' = (rest, oc)" and frames: "frames = fs @ rest"
      using Cons.prems(2) EventReleased by (auto split: prod.splits)
    have adv: "advanced (chunk_closes loads c x) cfg st' ?key (hist @ ?t) (out @ frames_text loads ?key fs)"
      and same: "py_strip x \<noteq> DONE_TEXT \<Longrightarrow> \<not> gs_done st'"
      using ev EventReleased undone by auto
    show ?thesis
    proof (cases "chunk_closes loads c x")
      case True
      then have drained: "stream_inv cfg st' ?key [] []" "out @ frames_text loads ?key fs = sanitize_text (hist @ ?t)"
        "canary_free (config_canaries cfg) (hist @ ?t)"
        using adv by (simp_all add: advanced_def)
      have "gs_done st' \<longrightarrow> chunks = [] \<and> ([]::string) = []" using mark same by auto
      from released_Cons [OF Cons.IH [OF drained(1) rest ok(2) dl this] drained(2,3)] True
      show ?thesis by (simp add: frames Let_def)
    next
      case False
      then have on: "stream_inv cfg st' ?key (hist @ ?t) (out @ frames_text loads ?key fs)" "\<not> gs_done st'"
        using adv same by (auto simp: advanced_def chunk_closes_def)
      then have "gs_done st' \<longrightarrow> chunks = [] \<and> hist @ ?t = []" by simp
      from Cons.IH [OF on(1) rest ok(2) dl this] False show ?thesis by (simp add: frames Let_def)
    qed
  qed
qed

lemma stream_inv_new:
  "valid_canary_set (config_canaries cfg) \<Longrightarrow> stream_inv cfg new_guarded_state key [] []"
  by (simp add: stream_inv_def template_ok_def new_guarded_state_def channel_inv_fresh)

text \<open>C28. End to end, for one text channel of the guarded stream: the text the model sends on the channel
  is cut exactly where the model closes the channel (a choice of its index with a reason to finish, or
  the end marker). When the upstream ends by itself (cleanly or with an error of its own), the client
  receives the sanitised forms of all these pieces and none of them holds a canary; when the guard ends
  the stream, it receives the sanitised forms of the first pieces and of a part of the next, from its
  start, and no canary is in any of them, however the text was cut into events. The premises: the canary
  set is one its constructor accepts, the choices of an event that carry text have different indices, none
  an infinite float (it ends the stream with an \<open>OverflowError\<close>), and the event something to build a template from, and nothing follows the end marker.\<close>

theorem guarded_channel_sound:
  assumes "valid_canary_set (config_canaries cfg)" and "f \<in> set TEXT_FIELDS"
    and "\<forall>chunk \<in> set chunks. event_ok loads chunk" and "done_last chunks"
    and "guarded_stream cfg loads chunks ending new_guarded_state = (frames, oc)"
  shows "if ended_upstream oc
    then released_whole (config_canaries cfg) (channel_pieces loads (c, f) [] chunks) (frames_text loads (c, f) frames)
    else released_as (config_canaries cfg) (channel_pieces loads (c, f) [] chunks) (frames_text loads (c, f) frames)"
  using stream_channel [OF assms(1,2) stream_inv_new [OF assms(1)] assms(5,3,4)]
  by (simp add: new_guarded_state_def released_def)

definition example_event :: "string \<Rightarrow> pyval option" where
  "example_event content = Some (PDict [(''id'', PStr ''e''), (''choices'', PList [PDict [(''index'', PInt 0),
     (''delta'', PDict [(''content'', PStr content)]), (''finish_reason'', PNone)]])])"

definition example_loads :: "string \<Rightarrow> pyval option" where
  "example_loads t = (if t = ''1'' then example_event ''xx <b> abcd'' else if t = ''2'' then example_event ''efgh yy'' else None)"

definition example_config :: guard_config where
  "example_config = \<lparr>gc_quarantine_window = 4, gc_quarantine_max_window = 256, gc_canaries = Some example_single\<rparr>"

theorem guarded_channel_sound_witness:
  "snd (guarded_stream example_config example_loads [''data: 1'', ''data: 2''] UpstreamFinished new_guarded_state)
     = StreamInterrupted \<lparr>cm_id = ''c'', cm_tier = TierA\<rparr>
   \<and> released_as example_single [''xx <b> abcdefgh yy''] ''xx <b> ''"
proof -
  let ?run = "guarded_stream example_config example_loads [''data: 1'', ''data: 2''] UpstreamFinished new_guarded_state"
  have run: "snd ?run = StreamInterrupted \<lparr>cm_id = ''c'', cm_tier = TierA\<rparr>"
    "frames_text example_loads (0, ''content'') (fst ?run) = ''xx <b> ''"
    by code_simp+
  have pieces: "channel_pieces example_loads (0, ''content'') [] [''data: 1'', ''data: 2''] = [''xx <b> abcdefgh yy'']"
    by code_simp
  have cs: "config_canaries example_config = example_single" by (simp add: config_canaries_def example_config_def)
  have ok: "\<forall>chunk \<in> set [''data: 1'', ''data: 2'']. event_ok example_loads chunk" "done_last [''data: 1'', ''data: 2'']"
    "''content'' \<in> set TEXT_FIELDS"
    by code_simp+
  from guarded_channel_sound [OF _ ok(3,1,2), of example_config UpstreamFinished "fst ?run" "snd ?run" 0] cs run pieces
    example_canaries_valid(2)
  show ?thesis by (auto simp: ended_upstream_def)
qed

end
