(* ===== verification/SourceDrift.thy ===== *)
theory SourceDrift
  imports JsonText Complex_Main
begin

text \<open>
  \<open>jack_source_drift_guard.py\<close>: the source authority of one running kernel. The files the kernel
  was loaded from are measured once and sealed as a baseline; every authority boundary measures
  them again. A mismatch ends the authority for good, a failed measurement suspends it.

  What the operating system answers is the record \<open>source_host\<close>, SHA-256 is \<open>sha\<close>, and the UUID of
  a baseline is an argument. The lock makes each method one atomic transition; where a method
  releases it in between, \<open>others\<close> says what the other threads did meanwhile.
\<close>

section \<open>Measuring a file\<close>

datatype os_failure = OsFileNotFound | OsError string | OsRuntimeError string | OsOtherError string

record source_host =
  sh_expand :: "string \<Rightarrow> os_failure + string"
  sh_resolve :: "string \<Rightarrow> os_failure + string"
  sh_resolve_lax :: "string \<Rightarrow> os_failure + string"
  sh_stat_regular :: "string \<Rightarrow> os_failure + bool"
  sh_open_regular :: "string \<Rightarrow> os_failure + bool"
  sh_read :: "string \<Rightarrow> os_failure + string list"
  sh_normcase :: "string \<Rightarrow> string"

datatype measure_failure =
    ComponentMissing string
  | ComponentKindChanged string
  | MeasurementUnavailable string
  | MeasurementRaised string

record measured_source =
  ms_canonical_path :: string
  ms_sha256 :: string

definition os_name :: "os_failure \<Rightarrow> string" where
  "os_name e = (case e of OsFileNotFound \<Rightarrow> ''FileNotFoundError'' | OsError n \<Rightarrow> n
     | OsRuntimeError n \<Rightarrow> n | OsOtherError n \<Rightarrow> n)"

text \<open>The handlers around one call; only the first of them catches \<open>RuntimeError\<close>.\<close>

definition os_guard :: "string \<Rightarrow> bool \<Rightarrow> os_failure + 'a \<Rightarrow> measure_failure + 'a" where
  "os_guard where_at runtime x = (case x of
       Inr v \<Rightarrow> Inr v
     | Inl OsFileNotFound \<Rightarrow> Inl (ComponentMissing where_at)
     | Inl (OsError n) \<Rightarrow> Inl (MeasurementUnavailable n)
     | Inl (OsRuntimeError n) \<Rightarrow> Inl (if runtime then MeasurementUnavailable n else MeasurementRaised n)
     | Inl (OsOtherError n) \<Rightarrow> Inl (MeasurementRaised n))"

text \<open>The digest is fed the chunks that \<open>read\<close> returned, up to the empty one.\<close>

definition sha256_stream :: "(string \<Rightarrow> string) \<Rightarrow> string list \<Rightarrow> string" where
  "sha256_stream sha chunks = sha (concat (takeWhile (\<lambda>c. c \<noteq> []) chunks))"

definition measure_regular_file :: "(string \<Rightarrow> string) \<Rightarrow> source_host \<Rightarrow> string \<Rightarrow> measure_failure + measured_source" where
  "measure_regular_file sha h path =
     try_bind (case sh_expand h path of Inr raw \<Rightarrow> Inr raw | Inl e \<Rightarrow> Inl (MeasurementRaised (os_name e))) (\<lambda>raw.
     try_bind (os_guard raw True (sh_resolve h raw)) (\<lambda>canonical.
     try_bind (os_guard canonical False (sh_stat_regular h canonical)) (\<lambda>regular.
     raise_if (\<not> regular) (ComponentKindChanged canonical)
     (try_bind (os_guard canonical False (sh_open_regular h canonical)) (\<lambda>handle_regular.
      raise_if (\<not> handle_regular) (ComponentKindChanged canonical)
      (try_bind (os_guard canonical False (sh_read h canonical)) (\<lambda>chunks.
         Inr \<lparr>ms_canonical_path = canonical, ms_sha256 = sha256_stream sha chunks\<rparr>)))))))"

section \<open>The baseline and the authority\<close>

definition SOURCE_BASELINE_SCHEMA :: string where
  "SOURCE_BASELINE_SCHEMA = ''jack.source-authority.baseline.v1''"

definition SOURCE_BASELINE_VERSION :: int where
  "SOURCE_BASELINE_VERSION = 1"

datatype source_state = Initializing | Active | SuspendedUnverified | Invalidated

definition state_value :: "source_state \<Rightarrow> string" where
  "state_value s = (case s of Initializing \<Rightarrow> ''INITIALIZING'' | Active \<Rightarrow> ''ACTIVE''
     | SuspendedUnverified \<Rightarrow> ''SUSPENDED_UNVERIFIED'' | Invalidated \<Rightarrow> ''INVALIDATED'')"

datatype source_error =
    SourceValueError string
  | SourceTypeError string
  | SourceRuntimeError string
  | SourceBaselineCreationError string
  | SourceComponentSetSealed string
  | SourceAuthorityUnavailable string
  | SourceAuthorityInvalidated string
  | SourceRaised string

record source_component =
  sc_id :: string
  sc_path :: string
  sc_kind :: string
  sc_sha256 :: string

record source_baseline =
  sb_schema :: string
  sb_version :: int
  sb_instance_id :: string
  sb_runtime_id :: string
  sb_lane_id :: string
  sb_components :: "source_component list"
  sb_aggregate :: string

record source_verification =
  sv_prior :: source_state
  sv_state :: source_state
  sv_sequence :: nat
  sv_instance_id :: string
  sv_verified :: bool
  sv_mismatched :: "string list"
  sv_unavailable :: "string list"

record source_transition =
  st_prior :: source_state
  st_state :: source_state
  st_sequence :: nat
  st_changed :: bool

record source_authority =
  sa_runtime_id :: string
  sa_lane_id :: string
  sa_state :: source_state
  sa_sequence :: nat
  sa_pending :: "(string \<times> string) list"
  sa_baseline :: "source_baseline option"
  sa_interval :: "rat option"
  sa_thread_alive :: bool
  sa_stop :: bool

definition component_material :: "source_component \<Rightarrow> pyval" where
  "component_material c = PDict [(''component_id'', PStr (sc_id c)), (''canonical_path'', PStr (sc_path c)),
     (''expected_kind'', PStr (sc_kind c)), (''sha256'', PStr (sc_sha256 c))]"

definition baseline_material :: "string \<Rightarrow> string \<Rightarrow> source_component list \<Rightarrow> pydict" where
  "baseline_material runtime_id lane_id components =
     [(''schema'', PStr SOURCE_BASELINE_SCHEMA), (''version'', PInt SOURCE_BASELINE_VERSION),
      (''runtime_id'', PStr runtime_id), (''lane_id'', PStr lane_id),
      (''components'', PList (map component_material components))]"

definition baseline_digest :: "(string \<Rightarrow> string) \<Rightarrow> string \<Rightarrow> string \<Rightarrow> source_component list \<Rightarrow> string" where
  "baseline_digest sha runtime_id lane_id components =
     sha (canonical_bytes (PDict (baseline_material runtime_id lane_id components)))"

definition new_source_authority :: "pyval \<Rightarrow> pyval \<Rightarrow> source_error + source_authority" where
  "new_source_authority runtime_id lane_id =
     (let rt = py_strip (str_or_empty runtime_id); lane = py_strip (str_or_empty lane_id) in
      raise_if (rt = []) (SourceValueError ''runtime_id must not be empty'')
      (raise_if (lane = []) (SourceValueError ''lane_id must not be empty'')
        (Inr \<lparr>sa_runtime_id = rt, sa_lane_id = lane, sa_state = Initializing, sa_sequence = 0, sa_pending = [],
              sa_baseline = None, sa_interval = None, sa_thread_alive = False, sa_stop = False\<rparr>)))"

definition authority_baseline :: "source_authority \<Rightarrow> source_error + source_baseline" where
  "authority_baseline a = (case sa_baseline a of
       None \<Rightarrow> Inl (SourceBaselineCreationError ''source baseline is not sealed'') | Some b \<Rightarrow> Inr b)"

definition status_snapshot :: "source_authority \<Rightarrow> pydict \<times> rat option" where
  "status_snapshot a =
     ([(''state'', PStr (state_value (sa_state a))), (''runtime_id'', PStr (sa_runtime_id a)),
       (''lane_id'', PStr (sa_lane_id a)),
       (''baseline_instance_id'', case sa_baseline a of None \<Rightarrow> PNone | Some b \<Rightarrow> PStr (sb_instance_id b)),
       (''baseline_sha256'', case sa_baseline a of None \<Rightarrow> PNone | Some b \<Rightarrow> PStr (sb_aggregate b)),
       (''component_count'', PInt (case sa_baseline a of None \<Rightarrow> 0 | Some b \<Rightarrow> int (length (sb_components b)))),
       (''periodic_verification_running'', PBool (sa_thread_alive a))],
      sa_interval a)"

section \<open>Registering and sealing\<close>

definition component_id_char :: "char \<Rightarrow> bool" where
  "component_id_char c = (ascii_alnum c \<or> c \<in> set ''._:-'')"

definition component_id_ok :: "string \<Rightarrow> bool" where
  "component_id_ok s = (1 \<le> length s \<and> length s \<le> 128 \<and> list_all component_id_char s)"

definition register_component :: "source_host \<Rightarrow> pyval \<Rightarrow> string \<Rightarrow> source_authority \<Rightarrow> source_error + source_authority" where
  "register_component h component_id path a =
     (let cid = py_strip (str_or_empty component_id) in
      raise_if (\<not> component_id_ok cid) (SourceValueError ''invalid Phase-8 source component_id'')
      (try_bind (case sh_expand h path of Inr p \<Rightarrow> Inr p | Inl e \<Rightarrow> Inl (SourceRaised (os_name e))) (\<lambda>candidate.
       raise_if (sa_state a \<noteq> Initializing)
         (SourceComponentSetSealed ''Phase-8 protected source set is sealed; restart is required'')
       (case map_of (sa_pending a) cid of
          Some prior \<Rightarrow>
            raise_if (prior \<noteq> candidate)
              (SourceBaselineCreationError (''source component '' @ repr_str cid @ '' cannot be rebound'')) (Inr a)
        | None \<Rightarrow> Inr (a\<lparr>sa_pending := sa_pending a @ [(cid, candidate)]\<rparr>)))))"

fun seal_components ::
    "(string \<Rightarrow> string) \<Rightarrow> source_host \<Rightarrow> string list \<Rightarrow> (string \<times> string) list \<Rightarrow> source_error + source_component list" where
  "seal_components sha h seen [] = Inr []"
| "seal_components sha h seen ((cid, path) # rest) =
     (case measure_regular_file sha h path of
        Inl (MeasurementUnavailable n) \<Rightarrow>
          Inl (SourceBaselineCreationError ''protected source identity could not be measured before activation'')
      | Inl (MeasurementRaised n) \<Rightarrow> Inl (SourceRaised n)
      | Inl _ \<Rightarrow> Inl (SourceBaselineCreationError ''protected source component is missing or not a regular file'')
      | Inr current \<Rightarrow>
          raise_if (ms_canonical_path current \<in> set seen)
            (SourceBaselineCreationError ''multiple source component identities resolve to one canonical path'')
          (try_bind (seal_components sha h (ms_canonical_path current # seen) rest) (\<lambda>cs.
             Inr (\<lparr>sc_id = cid, sc_path = ms_canonical_path current, sc_kind = ''regular_file'',
                   sc_sha256 = ms_sha256 current\<rparr> # cs))))"

definition seal :: "(string \<Rightarrow> string) \<Rightarrow> source_host \<Rightarrow> string \<Rightarrow> source_authority
    \<Rightarrow> source_error + source_baseline \<times> source_authority" where
  "seal sha h uuid a =
     (if sa_state a \<noteq> Initializing then
        (case sa_baseline a of
           None \<Rightarrow> Inl (SourceBaselineCreationError ''source baseline state is invalid'')
         | Some b \<Rightarrow> Inr (b, a))
      else raise_if (sa_pending a = []) (SourceBaselineCreationError ''protected source set is empty'')
        (try_bind (seal_components sha h [] (sort_key fst (sa_pending a))) (\<lambda>components.
           let b = \<lparr>sb_schema = SOURCE_BASELINE_SCHEMA, sb_version = SOURCE_BASELINE_VERSION, sb_instance_id = uuid,
                    sb_runtime_id = sa_runtime_id a, sb_lane_id = sa_lane_id a, sb_components = components,
                    sb_aggregate = baseline_digest sha (sa_runtime_id a) (sa_lane_id a) components\<rparr>
           in Inr (b, a\<lparr>sa_baseline := Some b, sa_pending := [], sa_state := Active\<rparr>))))"

section \<open>Admission and verification\<close>

definition admit :: "source_authority \<Rightarrow> source_error + source_baseline" where
  "admit a =
     raise_if (sa_state a = Invalidated)
       (SourceAuthorityInvalidated ''Phase-8 source authority is terminally invalidated'')
     (raise_if (sa_state a \<noteq> Active)
       (SourceAuthorityUnavailable ''Phase-8 source authority is not currently verified'')
     (case sa_baseline a of
        None \<Rightarrow> Inl (SourceAuthorityUnavailable ''Phase-8 source baseline is unavailable'')
      | Some b \<Rightarrow> Inr b))"

definition move_state :: "source_state \<Rightarrow> source_authority \<Rightarrow> source_authority" where
  "move_state s a = a\<lparr>sa_state := s, sa_sequence := (if sa_state a \<noteq> s then sa_sequence a + 1 else sa_sequence a)\<rparr>"

definition suspend_unverified :: "source_authority \<Rightarrow> source_transition \<times> source_authority" where
  "suspend_unverified a =
     (let a' = (if sa_state a \<noteq> Invalidated then move_state SuspendedUnverified a else a)
      in (\<lparr>st_prior = sa_state a, st_state = sa_state a', st_sequence = sa_sequence a',
           st_changed = (sa_state a \<noteq> sa_state a')\<rparr>, a'))"

datatype component_verdict = ComponentMatches | ComponentMismatched | ComponentUnavailable

definition verify_component :: "(string \<Rightarrow> string) \<Rightarrow> source_host \<Rightarrow> source_component \<Rightarrow> source_error + component_verdict" where
  "verify_component sha h c =
     (case measure_regular_file sha h (sc_path c) of
        Inl (MeasurementUnavailable n) \<Rightarrow> Inr ComponentUnavailable
      | Inl (MeasurementRaised n) \<Rightarrow> Inl (SourceRaised n)
      | Inl _ \<Rightarrow> Inr ComponentMismatched
      | Inr m \<Rightarrow> Inr (if ms_canonical_path m \<noteq> sc_path c \<or> ms_sha256 m \<noteq> sc_sha256 c
                      then ComponentMismatched else ComponentMatches))"

definition verdict_state :: "component_verdict list \<Rightarrow> source_state" where
  "verdict_state vs = (if ComponentMismatched \<in> set vs then Invalidated
     else if ComponentUnavailable \<in> set vs then SuspendedUnverified else Active)"

definition ids_with :: "component_verdict \<Rightarrow> source_component list \<Rightarrow> component_verdict list \<Rightarrow> string list" where
  "ids_with v cs vs = sort (map (sc_id \<circ> fst) (filter (\<lambda>x. snd x = v) (zip cs vs)))"

definition verify_now :: "(string \<Rightarrow> string) \<Rightarrow> source_host \<Rightarrow> source_authority
    \<Rightarrow> (source_error + source_verification) \<times> source_authority" where
  "verify_now sha h a = (case sa_baseline a of
       None \<Rightarrow> (Inl (SourceBaselineCreationError ''source baseline is not sealed''), a)
     | Some b \<Rightarrow>
         if sa_state a = Invalidated then
           (Inr \<lparr>sv_prior = Invalidated, sv_state = Invalidated, sv_sequence = sa_sequence a,
                 sv_instance_id = sb_instance_id b, sv_verified = False, sv_mismatched = [], sv_unavailable = []\<rparr>, a)
         else (case try_map (verify_component sha h) (sb_components b) of
             Inl e \<Rightarrow> (Inl e, a)
           | Inr vs \<Rightarrow>
               (let a' = move_state (verdict_state vs) a in
                (Inr \<lparr>sv_prior = sa_state a, sv_state = sa_state a', sv_sequence = sa_sequence a',
                      sv_instance_id = sb_instance_id b, sv_verified = (sa_state a' = Active),
                      sv_mismatched = ids_with ComponentMismatched (sb_components b) vs,
                      sv_unavailable = ids_with ComponentUnavailable (sb_components b) vs\<rparr>, a'))))"

text \<open>The lock is released between the measurement and the admission.\<close>

definition verify_for_authority_boundary :: "(string \<Rightarrow> string) \<Rightarrow> source_host \<Rightarrow> (source_authority \<Rightarrow> source_authority)
    \<Rightarrow> source_authority \<Rightarrow> (source_error + unit) \<times> source_authority" where
  "verify_for_authority_boundary sha h others a = (case verify_now sha h a of
       (Inl e, a') \<Rightarrow>
         (Inl (SourceAuthorityUnavailable ''Phase-8 source identity could not be verified at authority boundary''),
          snd (suspend_unverified (others a')))
     | (Inr r, a') \<Rightarrow> (try_bind (admit (others a')) (\<lambda>b. Inr ()), others a'))"

section \<open>The periodic verifier\<close>

definition start_periodic_verification :: "rat \<Rightarrow> source_authority \<Rightarrow> source_error + source_authority" where
  "start_periodic_verification interval a =
     raise_if (\<not> (1 / 20 \<le> interval \<and> interval \<le> 60))
       (SourceValueError ''Phase-8 verification interval must be between 0.05 and 60 seconds'')
     (raise_if (sa_baseline a = None) (SourceBaselineCreationError ''source baseline is not sealed'')
       (Inr (if sa_thread_alive a then a
             else a\<lparr>sa_interval := Some interval, sa_stop := False, sa_thread_alive := True\<rparr>)))"

text \<open>One round of the worker: woken by the stop event or by the interval's end.\<close>

definition periodic_round :: "(string \<Rightarrow> string) \<Rightarrow> source_host \<Rightarrow> (source_authority \<Rightarrow> source_authority)
    \<Rightarrow> source_authority \<Rightarrow> source_authority" where
  "periodic_round sha h others a =
     (if sa_stop a then a\<lparr>sa_thread_alive := False\<rparr>
      else (case verify_now sha h a of
              (Inl e, a') \<Rightarrow> snd (suspend_unverified (others a'))
            | (Inr r, a') \<Rightarrow> if sv_state r = Invalidated then a'\<lparr>sa_thread_alive := False\<rparr> else a'))"

definition stop_periodic_verification :: "source_authority \<Rightarrow> source_authority" where
  "stop_periodic_verification a = a\<lparr>sa_stop := True\<rparr>"

end
