(* ===== verification/SourceEnforcement.thy ===== *)
theory SourceEnforcement
  imports SourceDrift
begin

text \<open>
  The rest of \<open>jack_source_drift_guard.py\<close>: the wrappers that put an authority boundary before
  (and after) what the kernel releases, the stream wrapper, and the installation that seals the
  baseline once. A wrapped function is an argument that maps the authority it runs under to its
  result and the authority afterwards.
\<close>

section \<open>Governed calls\<close>

type_synonym boundary = "source_authority \<Rightarrow> (source_error + unit) \<times> source_authority"
type_synonym 'r governed = "source_authority \<Rightarrow> (source_error + 'r) \<times> source_authority"

text \<open>\<open>verify_for_authority_boundary()\<close>, then the original.\<close>

definition after_boundary :: "boundary \<Rightarrow> 'r governed \<Rightarrow> 'r governed" where
  "after_boundary check original a = (case check a of
       (Inl e, a') \<Rightarrow> (Inl e, a')
     | (Inr u, a') \<Rightarrow> original a')"

definition source_governed_run :: "boundary \<Rightarrow> boundary \<Rightarrow> 'r governed \<Rightarrow> 'r governed" where
  "source_governed_run check_before check_after original =
     after_boundary check_before (\<lambda>a. case original a of
         (Inl e, a') \<Rightarrow> (Inl e, a')
       | (Inr result, a') \<Rightarrow> after_boundary check_after (\<lambda>a''. (Inr result, a'')) a')"

definition source_governed_tool_release :: "boundary \<Rightarrow> 'r governed \<Rightarrow> 'r governed" where
  "source_governed_tool_release check original = after_boundary check original"

definition source_governed_executor_admission :: "boundary \<Rightarrow> 'r governed \<Rightarrow> 'r governed" where
  "source_governed_executor_admission check original = after_boundary check original"

definition source_governed_commit :: "boundary \<Rightarrow> 'r governed \<Rightarrow> 'r governed" where
  "source_governed_commit check original = after_boundary check original"

definition MUTATING_ORCHESTRATION_PATHS :: "string list" where
  "MUTATING_ORCHESTRATION_PATHS = [''/v1/tasks'', ''/v1/tasks/cancel'', ''/v1/session/new'']"

text \<open>\<open>upper() == "POST"\<close>: no character outside ASCII has one of these letters as its upper case
  below 256, and the sharp s becomes two letters that are not among them side by side.\<close>

definition source_governed_proxy :: "boundary \<Rightarrow> pyval \<Rightarrow> pyval \<Rightarrow> 'r governed \<Rightarrow> 'r governed" where
  "source_governed_proxy check method path original =
     (if map ascii_upper_char (str_or_empty method) = ''POST'' \<and> str_or_empty path \<in> set MUTATING_ORCHESTRATION_PATHS
      then after_boundary check original else original)"

section \<open>The governed stream\<close>

text \<open>Each chunk arrives under the authority of that moment. After the first refusal the
  predecessor is drained and nothing is released any more.\<close>

fun release_chunks :: "source_error option \<Rightarrow> (source_authority \<times> 'c) list \<Rightarrow> 'c list \<times> source_error option" where
  "release_chunks blocked [] = ([], blocked)"
| "release_chunks (Some e) ((a, chunk) # rest) = release_chunks (Some e) rest"
| "release_chunks None ((a, chunk) # rest) = (case admit a of
       Inl e \<Rightarrow> release_chunks (Some e) rest
     | Inr b \<Rightarrow> (case release_chunks None rest of (out, blocked) \<Rightarrow> (chunk # out, blocked)))"

datatype governed_end = GovernedFinished | GovernedRaised source_error | GovernedUpstream string

definition source_governed_stream ::
    "boundary \<Rightarrow> (source_authority \<times> 'c) list \<Rightarrow> string option \<Rightarrow> source_authority \<Rightarrow> 'c list \<times> governed_end" where
  "source_governed_stream check chunks upstream_error a = (case fst (check a) of
       Inl e \<Rightarrow> ([], GovernedRaised e)
     | Inr u \<Rightarrow> (case release_chunks None chunks of (out, blocked) \<Rightarrow>
         (out, case blocked of
             Some e \<Rightarrow> GovernedRaised e
           | None \<Rightarrow> (case upstream_error of Some n \<Rightarrow> GovernedUpstream n | None \<Rightarrow> GovernedFinished))))"

section \<open>Installation\<close>

text \<open>What the guard reads and writes of the kernel module: its attributes, and which seams are
  callable or already wrapped.\<close>

record drift_kernel =
  dk_file :: "string option"
  dk_module_file :: "string \<Rightarrow> string option"
  dk_guard_file :: string
  dk_markers :: "string list"
  dk_runtime_id :: pyval
  dk_lane_id :: pyval
  dk_authority :: "source_authority option"
  dk_installed :: bool
  dk_callable :: "string list"
  dk_wrapped :: "string list"
  dk_enforced :: bool
  dk_atexit :: bool
  dk_baseline_sha256 :: "string option"
  dk_baseline_components :: "string list"

definition REQUIRED_AUTHORITY_MODULES :: "(string \<times> string) list" where
  "REQUIRED_AUTHORITY_MODULES =
     [(''jack_evidence_guard.py'', ''jack_evidence_guard''),
      (''jack_path_policy.py'', ''jack_path_policy''),
      (''jack_consequence_gate.py'', ''jack_consequence_gate''),
      (''jack_authority_ledger.py'', ''jack_authority_ledger''),
      (''jack_responses_compat.py'', ''jack_responses_compat''),
      (''jack_credential_guard.py'', ''jack_credential_guard''),
      (''jack_diagnostic_guard.py'', ''jack_diagnostic_guard''),
      (''jack_credential_resource_guard.py'', ''jack_credential_resource_guard''),
      (''jack_phase7_ledger.py'', ''jack_phase7_ledger'')]"

definition REQUIRED_PREDECESSOR_MARKERS :: "string list" where
  "REQUIRED_PREDECESSOR_MARKERS =
     [''_JACK_EVIDENCE_PROVENANCE_GUARD_INSTALLED'', ''_JACK_CONSEQUENCE_GATE_INSTALLED'',
      ''_JACK_AUTHORITY_LEDGER_INSTALLED'', ''_JACK_CREDENTIAL_GUARD_INSTALLED'',
      ''_JACK_DIAGNOSTIC_CREDENTIAL_DLP_INSTALLED'', ''_JACK_CREDENTIAL_RESOURCE_GUARD_INSTALLED'',
      ''_JACK_PHASE7_LEDGER_INSTALLED'']"

definition loaded_module_source :: "drift_kernel \<Rightarrow> string \<Rightarrow> source_error + string" where
  "loaded_module_source jk name = (case dk_module_file jk name of
       Some path \<Rightarrow> raise_if (path = []) (SourceBaselineCreationError
         (''required authority module '' @ repr_str name @ '' was not loaded before Phase-8 sealing'')) (Inr path)
     | None \<Rightarrow> Inl (SourceBaselineCreationError
         (''required authority module '' @ repr_str name @ '' was not loaded before Phase-8 sealing'')))"

definition default_component_paths :: "drift_kernel \<Rightarrow> string option \<Rightarrow> source_error + (string \<times> string) list" where
  "default_component_paths jk entrypoint = (case dk_file jk of
       None \<Rightarrow> Inl (SourceBaselineCreationError ''Jack Kernel source path is unavailable'')
     | Some kernel_path \<Rightarrow>
         raise_if (kernel_path = []) (SourceBaselineCreationError ''Jack Kernel source path is unavailable'')
         (try_bind (try_map (\<lambda>(cid, name). try_bind (loaded_module_source jk name) (\<lambda>p. Inr (cid, p))) REQUIRED_AUTHORITY_MODULES) (\<lambda>modules.
            Inr ((''jack_kernel.py'', kernel_path) # modules @ [(''jack_source_drift_guard.py'', dk_guard_file jk)]
                 @ (case entrypoint of None \<Rightarrow> [] | Some p \<Rightarrow> [(''jack_secure_entrypoint.py'', p)])))))"

text \<open>\<open>expanduser().resolve(strict=False)\<close>: OS and runtime errors are caught.\<close>

definition lax_identity :: "source_host \<Rightarrow> string \<Rightarrow> source_error + string" where
  "lax_identity h path =
     (let caught = (\<lambda>x. case x of
          Inr v \<Rightarrow> Inr v
        | Inl (OsOtherError n) \<Rightarrow> Inl (SourceRaised n)
        | Inl _ \<Rightarrow> Inl (SourceComponentSetSealed ''Phase-8 protected source identity cannot be re-established; restart is required''))
      in try_bind (caught (sh_expand h path)) (\<lambda>p. try_bind (caught (sh_resolve_lax h p)) (\<lambda>c. Inr (sh_normcase h c))))"

fun canonical_requested_identity ::
    "source_host \<Rightarrow> (string \<times> string) list \<Rightarrow> (string \<times> string) list \<Rightarrow> source_error + (string \<times> string) list" where
  "canonical_requested_identity h identity [] = Inr identity"
| "canonical_requested_identity h identity ((cid, path) # rest) =
     try_bind (lax_identity h path) (\<lambda>canonical.
       raise_if (case map_of identity cid of None \<Rightarrow> False | Some prior \<Rightarrow> prior \<noteq> canonical)
         (SourceComponentSetSealed ''Phase-8 protected source set is sealed; restart is required'')
       (canonical_requested_identity h (dict_set identity cid canonical) rest))"

text \<open>Equality of two dicts.\<close>

definition same_dict :: "(string \<times> string) list \<Rightarrow> (string \<times> string) list \<Rightarrow> bool" where
  "same_dict d e = (list_all (\<lambda>(k, v). map_of e k = map_of d k) d \<and> list_all (\<lambda>(k, v). map_of d k = map_of e k) e)"

fun register_components :: "source_host \<Rightarrow> (string \<times> string) list \<Rightarrow> source_authority \<Rightarrow> source_error + source_authority" where
  "register_components h [] a = Inr a"
| "register_components h ((cid, path) # rest) a =
     try_bind (register_component h (PStr cid) path a) (register_components h rest)"

definition install_source_authority ::
    "(string \<Rightarrow> string) \<Rightarrow> source_host \<Rightarrow> string \<Rightarrow> string option \<Rightarrow> drift_kernel
       \<Rightarrow> source_error + source_authority \<times> drift_kernel" where
  "install_source_authority sha h uuid entrypoint jk =
     try_bind (default_component_paths jk entrypoint) (\<lambda>requested.
       if dk_installed jk then
         (case dk_authority jk of
            None \<Rightarrow> Inl (SourceRuntimeError ''Phase-8 source-authority marker exists without valid state'')
          | Some existing \<Rightarrow>
              try_bind (authority_baseline existing) (\<lambda>b.
              try_bind (canonical_requested_identity h [] requested) (\<lambda>requested_identity.
                let sealed_identity = fold (\<lambda>c d. dict_set d (sc_id c) (sh_normcase h (sc_path c))) (sb_components b) [] in
                raise_if (\<not> same_dict sealed_identity requested_identity)
                  (SourceComponentSetSealed ''Phase-8 protected source set is sealed; restart is required'')
                (Inr (existing, jk)))))
       else
         raise_if (\<not> list_all (\<lambda>m. m \<in> set (dk_markers jk)) REQUIRED_PREDECESSOR_MARKERS)
           (SourceBaselineCreationError ''Phase-8 baseline requires all predecessor authority extensions before sealing'')
         (try_bind (new_source_authority (dk_runtime_id jk) (dk_lane_id jk)) (\<lambda>a0.
          try_bind (register_components h requested a0) (\<lambda>a1.
          try_bind (seal sha h uuid a1) (\<lambda>(b, a2).
            Inr (a2, jk\<lparr>dk_authority := Some a2, dk_installed := True, dk_baseline_sha256 := Some (sb_aggregate b),
                        dk_baseline_components := map sc_id (sb_components b)\<rparr>))))))"

text \<open>Installing the wrappers, each at most once.\<close>

definition wrap_seam :: "string \<Rightarrow> drift_kernel \<Rightarrow> drift_kernel" where
  "wrap_seam name jk = (if name \<in> set (dk_callable jk) \<and> name \<notin> set (dk_wrapped jk)
     then jk\<lparr>dk_wrapped := dk_wrapped jk @ [name]\<rparr> else jk)"

definition DEBUGGING_DURABLE_COMMIT_NAMES :: "string list" where
  "DEBUGGING_DURABLE_COMMIT_NAMES =
     [''_debugging_write_open_intake_report'', ''_debugging_freeze_intake'', ''_debugging_atomic_replace_report'']"

definition install_wrappers :: "drift_kernel \<Rightarrow> (source_error + unit) \<times> drift_kernel" where
  "install_wrappers jk =
     (let have = (\<lambda>name. name \<in> set (dk_callable jk)) in
      if \<not> have ''KERNEL'' then (Inl (SourceRuntimeError ''Phase-8C requires Jack KERNEL''), jk)
      else if \<not> have ''KERNEL.run'' \<or> \<not> have ''KERNEL.stream'' then
        (Inl (SourceRuntimeError ''Phase-8C requires Kernel run/stream release seams''), jk)
      else
        (let jk1 = wrap_seam ''_phase4_partition_structured_tool_calls'' (wrap_seam ''KERNEL.stream'' (wrap_seam ''KERNEL.run'' jk)) in
         if \<not> have ''_phase4_executor_admission_decision'' then
           (Inl (SourceRuntimeError ''Phase-8C requires Phase-4 executor admission seam''), jk1)
         else (Inr (), wrap_seam ''_proxy_pi_control_request''
            (fold wrap_seam DEBUGGING_DURABLE_COMMIT_NAMES (wrap_seam ''_phase4_executor_admission_decision'' jk1)))))"

text \<open>\<open>owned\<close>: the authority is the very object the kernel module holds.\<close>

definition activate_runtime_enforcement ::
    "boundary \<Rightarrow> bool \<Rightarrow> rat option \<Rightarrow> source_authority \<Rightarrow> drift_kernel
       \<Rightarrow> (source_error + unit) \<times> source_authority \<times> drift_kernel" where
  "activate_runtime_enforcement check owned periodic a jk =
     (if \<not> owned then (Inl (SourceRuntimeError ''Phase-8C authority does not own this Jack runtime''), a, jk)
      else if \<not> dk_installed jk then
        (Inl (SourceRuntimeError ''Phase-8C requires an installed Phase-8B baseline''), a, jk)
      else case check a of
          (Inl e, a') \<Rightarrow> (Inl e, a', jk)
        | (Inr u, a') \<Rightarrow>
            (case (if dk_enforced jk then (Inr (), jk)
                   else (case install_wrappers jk of
                           (Inl e, jk1) \<Rightarrow> (Inl e, jk1) | (Inr w, jk1) \<Rightarrow> (Inr (), jk1\<lparr>dk_enforced := True\<rparr>))) of
               (Inl e, jk1) \<Rightarrow> (Inl e, a', jk1)
             | (Inr w, jk1) \<Rightarrow>
                 (let jk2 = jk1\<lparr>dk_atexit := True\<rparr> in
                  case periodic of
                    None \<Rightarrow> (Inr (), a', jk2)
                  | Some interval \<Rightarrow> (case start_periodic_verification interval a' of
                        Inl e \<Rightarrow> (Inl e, a', jk2) | Inr a'' \<Rightarrow> (Inr (), a'', jk2)))))"

end
