(* ===== verification/SourceProperties.thy ===== *)
theory SourceProperties
  imports SourceEnforcement
begin

text \<open>
  What the source authority guarantees. The methods are the steps of a transition system whose
  state also remembers the host as it was at the last completed measurement; whoever admits
  does so under a measurement that found the sealed sources, and a confirmed mismatch is final.
\<close>

section \<open>Steps\<close>

type_synonym source_world = "source_authority \<times> source_host option"

inductive source_step :: "(string \<Rightarrow> string) \<Rightarrow> source_world \<Rightarrow> source_world \<Rightarrow> bool" for sha where
  step_register: "register_component h cid path a = Inr a' \<Longrightarrow> source_step sha (a, m) (a', m)"
| step_seal: "seal sha h uuid a = Inr (b, a') \<Longrightarrow>
    source_step sha (a, m) (a', if sa_state a = Initializing then Some h else m)"
| step_verify: "verify_now sha h a = (Inr r, a') \<Longrightarrow> source_step sha (a, m) (a', Some h)"
| step_verify_raised: "verify_now sha h a = (Inl e, a') \<Longrightarrow> source_step sha (a, m) (a', m)"
| step_suspend: "suspend_unverified a = (t, a') \<Longrightarrow> source_step sha (a, m) (a', m)"
| step_start: "start_periodic_verification i a = Inr a' \<Longrightarrow> source_step sha (a, m) (a', m)"
| step_stop: "source_step sha (a, m) (stop_periodic_verification a, m)"
| step_thread_ends: "source_step sha (a, m) (a\<lparr>sa_thread_alive := False\<rparr>, m)"

inductive_cases source_stepE: "source_step sha (a, m) w"

lemmas source_step_cases = source_stepE
  [consumes 1, case_names register seal verify verify_raised suspend start stop thread_ends]

inductive source_runs :: "(string \<Rightarrow> string) \<Rightarrow> source_world \<Rightarrow> source_world \<Rightarrow> bool" for sha where
  runs_refl: "source_runs sha w w"
| runs_step: "source_runs sha w w' \<Longrightarrow> source_step sha w' w'' \<Longrightarrow> source_runs sha w w''"

inductive source_reachable :: "(string \<Rightarrow> string) \<Rightarrow> source_world \<Rightarrow> bool" for sha where
  source_new: "new_source_authority rt lane = Inr a \<Longrightarrow> source_runs sha (a, None) w \<Longrightarrow> source_reachable sha w"

lemma runs_trans: "source_runs sha w' w'' \<Longrightarrow> source_runs sha w w' \<Longrightarrow> source_runs sha w w''"
  by (induction rule: source_runs.induct) (auto intro: source_runs.intros)

lemma one_step: "source_step sha w w' \<Longrightarrow> source_runs sha w w'"
  by (blast intro: source_runs.intros)

text \<open>The compound operations are runs of the system.\<close>

definition interferes :: "(string \<Rightarrow> string) \<Rightarrow> (source_authority \<Rightarrow> source_authority) \<Rightarrow> bool" where
  "interferes sha others \<longleftrightarrow> (\<forall>a m. \<exists>m'. source_runs sha (a, m) (others a, m'))"

lemma verify_step: "verify_now sha h a = (r, a') \<Longrightarrow> \<exists>m'. source_step sha (a, m) (a', m')"
  by (cases r) (blast intro: step_verify step_verify_raised)+

lemma boundary_runs:
  assumes "interferes sha others" and "verify_for_authority_boundary sha h others a = (r, a')"
  shows "\<exists>m'. source_runs sha (a, m) (a', m')"
proof -
  obtain v a1 where v: "verify_now sha h a = (v, a1)" by fastforce
  obtain m1 where m1: "source_runs sha (a, m) (a1, m1)" using verify_step [OF v] one_step by blast
  obtain m2 where "source_runs sha (a1, m1) (others a1, m2)" using assms(1) by (auto simp: interferes_def)
  then have m2: "source_runs sha (a, m) (others a1, m2)" using m1 runs_trans by blast
  show ?thesis
  proof (cases v)
    case (Inl e)
    then have "a' = snd (suspend_unverified (others a1))" using assms(2) v by (simp add: verify_for_authority_boundary_def)
    then have "source_step sha (others a1, m2) (a', m2)" by (metis step_suspend prod.collapse)
    then show ?thesis using m2 runs_step by blast
  next
    case (Inr x)
    then show ?thesis using m2 assms(2) v by (auto simp: verify_for_authority_boundary_def)
  qed
qed

section \<open>What each operation does to the state\<close>

lemma move_state_fields [simp]:
  "sa_state (move_state s a) = s" "sa_baseline (move_state s a) = sa_baseline a"
  "sa_pending (move_state s a) = sa_pending a"
  "sa_sequence (move_state s a) = (if sa_state a \<noteq> s then sa_sequence a + 1 else sa_sequence a)"
  by (simp_all add: move_state_def)

lemma new_authority_fields:
  "new_source_authority rt lane = Inr a \<Longrightarrow> sa_state a = Initializing \<and> sa_baseline a = None"
  by (auto simp: new_source_authority_def Let_def raise_if_Inr_iff)

lemma register_fields:
  "register_component h cid path a = Inr a' \<Longrightarrow>
     sa_state a = Initializing \<and> sa_state a' = sa_state a \<and> sa_baseline a' = sa_baseline a \<and> sa_sequence a' = sa_sequence a"
  by (auto simp: register_component_def Let_def raise_if_Inr_iff try_bind_Inr_iff split: option.splits)

lemma seal_cases:
  assumes "seal sha h uuid a = Inr (b, a')"
  shows "sa_state a \<noteq> Initializing \<and> a' = a \<and> sa_baseline a = Some b
    \<or> sa_state a = Initializing \<and> sa_state a' = Active \<and> sa_baseline a' = Some b \<and> sa_sequence a' = sa_sequence a
      \<and> seal_components sha h [] (sort_key fst (sa_pending a)) = Inr (sb_components b)
      \<and> sb_aggregate b = baseline_digest sha (sa_runtime_id a) (sa_lane_id a) (sb_components b)"
  using assms by (auto simp: seal_def raise_if_Inr_iff try_bind_Inr_iff Let_def split: if_splits option.splits)

lemma suspend_fields:
  "suspend_unverified a = (t, a') \<Longrightarrow>
     sa_baseline a' = sa_baseline a
     \<and> sa_state a' = (if sa_state a = Invalidated then Invalidated else SuspendedUnverified)
     \<and> (sa_state a = Invalidated \<longrightarrow> a' = a)"
  by (auto simp: suspend_unverified_def Let_def)

lemma start_fields:
  "start_periodic_verification i a = Inr a' \<Longrightarrow>
     sa_state a' = sa_state a \<and> sa_baseline a' = sa_baseline a \<and> sa_sequence a' = sa_sequence a"
  by (auto simp: start_periodic_verification_def raise_if_Inr_iff)

lemma verify_cases:
  assumes "verify_now sha h a = (r, a')"
  obtains (unsealed) e where "sa_baseline a = None" "r = Inl e" "a' = a"
  | (final) x b where "sa_baseline a = Some b" "sa_state a = Invalidated" "r = Inr x" "a' = a"
  | (raised) e b where "sa_baseline a = Some b" "sa_state a \<noteq> Invalidated" "r = Inl e" "a' = a"
  | (measured) b vs x where "sa_baseline a = Some b" "sa_state a \<noteq> Invalidated"
      "try_map (verify_component sha h) (sb_components b) = Inr vs" "a' = move_state (verdict_state vs) a" "r = Inr x"
  using assms by (auto simp: verify_now_def Let_def split: option.splits if_splits sum.splits)

lemma verify_component_matches:
  "verify_component sha h c = Inr ComponentMatches \<longleftrightarrow>
     measure_regular_file sha h (sc_path c) = Inr \<lparr>ms_canonical_path = sc_path c, ms_sha256 = sc_sha256 c\<rparr>"
  by (auto simp: verify_component_def split: sum.splits measure_failure.splits if_splits)

lemma verdict_active:
  "try_map (verify_component sha h) cs = Inr vs \<Longrightarrow> verdict_state vs = Active \<longleftrightarrow>
     (\<forall>c \<in> set cs. verify_component sha h c = Inr ComponentMatches)"
proof (induction cs arbitrary: vs)
  case (Cons c cs)
  then obtain v ws where v: "verify_component sha h c = Inr v" "try_map (verify_component sha h) cs = Inr ws" "vs = v # ws"
    by (auto simp: try_bind_Inr_iff)
  then show ?case using Cons.IH [OF v(2)] by (cases v) (auto simp: verdict_state_def split: if_splits)
qed (simp add: verdict_state_def)

section \<open>Admission\<close>

text \<open>The component was found, at some path, with its recorded place and digest.\<close>

definition found_as_sealed :: "(string \<Rightarrow> string) \<Rightarrow> source_host \<Rightarrow> source_component \<Rightarrow> bool" where
  "found_as_sealed sha h c \<longleftrightarrow>
     (\<exists>p. measure_regular_file sha h p = Inr \<lparr>ms_canonical_path = sc_path c, ms_sha256 = sc_sha256 c\<rparr>)"

lemma sealed_found:
  "seal_components sha h seen pending = Inr cs \<Longrightarrow>
     list_all (found_as_sealed sha h) cs \<and> distinct (map sc_path cs) \<and> set (map sc_path cs) \<inter> set seen = {}"
proof (induction sha h seen pending arbitrary: cs rule: seal_components.induct)
  case (2 sha h seen cid path rest)
  then obtain m ds where m: "measure_regular_file sha h path = Inr m" "ms_canonical_path m \<notin> set seen"
    "seal_components sha h (ms_canonical_path m # seen) rest = Inr ds"
    "cs = \<lparr>sc_id = cid, sc_path = ms_canonical_path m, sc_kind = ''regular_file'', sc_sha256 = ms_sha256 m\<rparr> # ds"
    by (auto simp: raise_if_Inr_iff try_bind_Inr_iff split: sum.splits measure_failure.splits)
  have "list_all (found_as_sealed sha h) ds \<and> distinct (map sc_path ds) \<and> set (map sc_path ds) \<inter> set (ms_canonical_path m # seen) = {}"
    using 2(1) [OF m(1) m(3)] .
  moreover have "found_as_sealed sha h \<lparr>sc_id = cid, sc_path = ms_canonical_path m, sc_kind = ''regular_file'',
      sc_sha256 = ms_sha256 m\<rparr>"
    using m(1) by (cases m) (auto simp: found_as_sealed_def)
  ultimately show ?case using m by auto
qed simp

definition source_inv :: "(string \<Rightarrow> string) \<Rightarrow> source_world \<Rightarrow> bool" where
  "source_inv sha w = (case w of (a, m) \<Rightarrow>
     sa_state a = Active \<longrightarrow> (\<exists>h b. m = Some h \<and> sa_baseline a = Some b
       \<and> list_all (found_as_sealed sha h) (sb_components b)))"

lemma source_inv_step:
  assumes "source_step sha (a, m) w" and "source_inv sha (a, m)"
  shows "source_inv sha w"
  using assms(1)
proof (cases rule: source_step_cases)
  case (register h cid path a')
  then show ?thesis using register_fields [of h cid path a a'] assms(2) by (auto simp: source_inv_def)
next
  case (seal h uuid b a')
  then show ?thesis using seal_cases [of sha h uuid a b a'] sealed_found [of sha h "[]"] assms(2)
    by (auto simp: source_inv_def)
next
  case (verify h r a')
  then show ?thesis
  proof (cases rule: verify_cases [OF verify(2)])
    case (4 b vs x)
    then show ?thesis using verify(1) verdict_active [OF 4(3)]
      by (auto simp: source_inv_def list_all_iff found_as_sealed_def verify_component_matches)
  qed (use verify(1) in \<open>auto simp: source_inv_def\<close>)
next
  case (verify_raised h e a')
  then have "a' = a" by (auto elim: verify_cases)
  then show ?thesis using verify_raised assms(2) by simp
next
  case (suspend t a')
  then show ?thesis using suspend_fields [of a t a'] by (auto simp: source_inv_def)
next
  case (start i a')
  then show ?thesis using start_fields [of i a a'] assms(2) by (auto simp: source_inv_def)
qed (use assms(2) in \<open>auto simp: source_inv_def stop_periodic_verification_def\<close>)

lemma source_inv_runs: "source_runs sha w w' \<Longrightarrow> source_inv sha w \<Longrightarrow> source_inv sha w'"
  by (induction rule: source_runs.induct) (auto dest: source_inv_step)

lemma admit_Inr: "admit a = Inr b \<longleftrightarrow> sa_state a = Active \<and> sa_baseline a = Some b"
  by (auto simp: admit_def raise_if_Inr_iff split: option.splits)

text \<open>C38. Whenever a boundary is admitted in a reachable state, the last completed measurement of the
  sources found every component of the sealed baseline at its canonical path with its recorded
  digest: authority never rests on sources that were not seen.\<close>

theorem source_admission_sound:
  assumes "source_reachable sha (a, m)" and "admit a = Inr b"
  shows "\<exists>h. m = Some h \<and> sa_baseline a = Some b \<and> list_all (found_as_sealed sha h) (sb_components b)"
proof -
  obtain rt lane a0 where "new_source_authority rt lane = Inr a0" "source_runs sha (a0, None) (a, m)"
    using assms(1) by (auto elim: source_reachable.cases)
  then have "source_inv sha (a, m)" using new_authority_fields source_inv_runs by (fastforce simp: source_inv_def)
  then show ?thesis using assms(2) by (auto simp: source_inv_def admit_Inr)
qed

definition example_host :: source_host where
  "example_host = \<lparr>sh_expand = Inr, sh_resolve = Inr, sh_resolve_lax = Inr, sh_stat_regular = (\<lambda>p. Inr True),
     sh_open_regular = (\<lambda>p. Inr True), sh_read = (\<lambda>p. Inr [p, [], ''unread'']), sh_normcase = (\<lambda>p. p)\<rparr>"

definition example_authority :: source_authority where
  "example_authority = \<lparr>sa_runtime_id = ''rt'', sa_lane_id = ''lane'', sa_state = Initializing, sa_sequence = 0,
     sa_pending = [(''kernel'', ''/k.py'')], sa_baseline = None, sa_interval = None, sa_thread_alive = False, sa_stop = False\<rparr>"

definition example_baseline :: source_baseline where
  "example_baseline = \<lparr>sb_schema = SOURCE_BASELINE_SCHEMA, sb_version = 1, sb_instance_id = ''u'', sb_runtime_id = ''rt'',
     sb_lane_id = ''lane'', sb_components = [\<lparr>sc_id = ''kernel'', sc_path = ''/k.py'', sc_kind = ''regular_file'', sc_sha256 = ''/k.py''\<rparr>],
     sb_aggregate = ''d''\<rparr>"

theorem source_admission_sound_witness:
  "\<exists>a b. source_reachable (\<lambda>x. x) (a, Some example_host) \<and> admit a = Inr b
     \<and> list_all (found_as_sealed (\<lambda>x. x) example_host) (sb_components b) \<and> length (sb_components b) = 1"
proof -
  let ?sha = "\<lambda>x::string. x"
  let ?a0 = "example_authority\<lparr>sa_pending := []\<rparr>"
  have new: "new_source_authority (PStr ''rt'') (PStr ''lane'') = Inr ?a0" by code_simp
  have reg: "register_component example_host (PStr ''kernel'') ''/k.py'' ?a0 = Inr example_authority" by code_simp
  obtain b a where seal: "seal ?sha example_host ''u'' example_authority = Inr (b, a)"
    and b: "length (sb_components b) = 1" "sa_state a = Active" "sa_baseline a = Some b"
    by (simp add: seal_def example_authority_def example_host_def measure_regular_file_def os_guard_def Let_def)
  have "source_runs ?sha (?a0, None) (example_authority, None)" by (rule one_step [OF step_register [OF reg]])
  moreover have "source_step ?sha (example_authority, None) (a, Some example_host)"
    using step_seal [OF seal, of None] by (simp add: example_authority_def)
  ultimately have reach: "source_reachable ?sha (a, Some example_host)" using source_new [OF new] runs_step by blast
  have adm: "admit a = Inr b" using b by (simp add: admit_Inr)
  from source_admission_sound [OF reach adm] reach adm b(1) show ?thesis by blast
qed

section \<open>Finality\<close>

lemma final_step:
  assumes "source_step sha (a, m) (a', m')" and "sa_state a = Invalidated"
  shows "sa_state a' = Invalidated \<and> sa_sequence a' = sa_sequence a \<and> sa_baseline a' = sa_baseline a"
  using assms(1)
proof (cases rule: source_step_cases)
  case (register h cid path a1)
  then show ?thesis using register_fields [of h cid path a a1] assms(2) by simp
next
  case (seal h uuid b a1)
  then show ?thesis using seal_cases [of sha h uuid a b a1] assms(2) by auto
next
  case (verify h r a1)
  then show ?thesis using assms(2) by (auto elim: verify_cases)
next
  case (verify_raised h e a1)
  then show ?thesis using assms(2) by (auto elim: verify_cases)
next
  case (suspend t a1)
  then show ?thesis using suspend_fields [of a t a1] assms(2) by auto
next
  case (start i a1)
  then show ?thesis using start_fields [of i a a1] assms(2) by auto
qed (use assms(2) in \<open>auto simp: stop_periodic_verification_def\<close>)

text \<open>Invalidation is final: whatever runs afterwards (measurements of any host, suspensions,
  registrations, another seal, the periodic verifier), the state, its sequence number and the
  baseline do not move, and every admission is refused as invalidated.\<close>

theorem source_invalidated_final:
  assumes "source_runs sha (a, m) (a', m')" and "sa_state a = Invalidated"
  shows "sa_state a' = Invalidated \<and> sa_sequence a' = sa_sequence a \<and> sa_baseline a' = sa_baseline a
    \<and> admit a' = Inl (SourceAuthorityInvalidated ''Phase-8 source authority is terminally invalidated'')"
proof -
  have "sa_state (fst w') = Invalidated \<and> sa_sequence (fst w') = sa_sequence (fst w) \<and> sa_baseline (fst w') = sa_baseline (fst w)"
    if "source_runs sha w w'" "sa_state (fst w) = Invalidated" for w w'
    using that by (induction rule: source_runs.induct) (simp, metis final_step prod.collapse)
  from this [OF assms(1)] assms(2) show ?thesis by (simp add: admit_def)
qed

theorem source_invalidated_final_witness:
  "let a = example_authority\<lparr>sa_state := Invalidated, sa_baseline := Some example_baseline, sa_sequence := 1\<rparr>
   in sa_state (snd (verify_now (\<lambda>x. x) example_host a)) = Invalidated
      \<and> admit (snd (verify_now (\<lambda>x. x) example_host a))
        = Inl (SourceAuthorityInvalidated ''Phase-8 source authority is terminally invalidated'')"
proof -
  let ?a = "example_authority\<lparr>sa_state := Invalidated, sa_baseline := Some example_baseline, sa_sequence := 1\<rparr>"
  obtain r a' where v: "verify_now (\<lambda>x. x) example_host ?a = (r, a')" by fastforce
  obtain m where "source_runs (\<lambda>x. x) (?a, None) (a', m)" using verify_step [OF v] one_step by blast
  from source_invalidated_final [OF this] v show ?thesis by (simp add: Let_def)
qed

section \<open>The verdict\<close>

definition differs :: "measure_failure + measured_source \<Rightarrow> source_component \<Rightarrow> bool" where
  "differs m c = (case m of
       Inl (ComponentMissing p) \<Rightarrow> True
     | Inl (ComponentKindChanged p) \<Rightarrow> True
     | Inl _ \<Rightarrow> False
     | Inr x \<Rightarrow> x \<noteq> \<lparr>ms_canonical_path = sc_path c, ms_sha256 = sc_sha256 c\<rparr>)"

lemma measured_eq: "m = \<lparr>ms_canonical_path = p, ms_sha256 = d\<rparr> \<longleftrightarrow> ms_canonical_path m = p \<and> ms_sha256 m = d"
  by (cases m) auto

lemma verify_component_mismatched:
  "verify_component sha h c = Inr ComponentMismatched \<longleftrightarrow> differs (measure_regular_file sha h (sc_path c)) c"
  by (auto simp: verify_component_def differs_def measured_eq split: sum.splits measure_failure.splits)

lemma verdict_invalidated:
  "try_map (verify_component sha h) cs = Inr vs \<Longrightarrow> ComponentMismatched \<in> set vs \<longleftrightarrow>
     (\<exists>c \<in> set cs. differs (measure_regular_file sha h (sc_path c)) c)"
  by (induction cs arbitrary: vs)
     (auto simp: try_bind_Inr_iff simp flip: verify_component_mismatched)

lemma ids_with_set:
  "try_map (verify_component sha h) cs = Inr vs \<Longrightarrow>
     set (ids_with v cs vs) = sc_id ` {c \<in> set cs. verify_component sha h c = Inr v}"
proof (induction cs arbitrary: vs)
  case (Cons c cs)
  then obtain w ws where w: "verify_component sha h c = Inr w" "try_map (verify_component sha h) cs = Inr ws" "vs = w # ws"
    by (auto simp: try_bind_Inr_iff)
  have "set (ids_with v (c # cs) vs) = (if w = v then insert (sc_id c) (set (ids_with v cs ws)) else set (ids_with v cs ws))"
    by (auto simp: ids_with_def w(3))
  then show ?case using Cons.IH [OF w(2)] w(1) by auto
qed (simp add: ids_with_def)

text \<open>C37. A completed verification of a live authority decides exactly: it invalidates when some sealed
  component is missing, of another kind, or measured elsewhere or with another digest; it is
  active when every component measures as sealed; otherwise it suspends. The reported ids are
  those that differ, and the sequence number moves by one exactly when the state changes.\<close>

theorem source_verification_exact:
  assumes "verify_now sha h a = (Inr r, a')" and "sa_baseline a = Some b" and "sa_state a \<noteq> Invalidated"
  shows "(sa_state a' = Invalidated \<longleftrightarrow>
       (\<exists>c \<in> set (sb_components b). differs (measure_regular_file sha h (sc_path c)) c))
    \<and> (sa_state a' = Active \<longleftrightarrow> (\<forall>c \<in> set (sb_components b). measure_regular_file sha h (sc_path c)
         = Inr \<lparr>ms_canonical_path = sc_path c, ms_sha256 = sc_sha256 c\<rparr>))
    \<and> sa_state a' \<noteq> Initializing \<and> sv_state r = sa_state a' \<and> sv_verified r = (sa_state a' = Active)
    \<and> set (sv_mismatched r) = sc_id ` {c \<in> set (sb_components b). differs (measure_regular_file sha h (sc_path c)) c}
    \<and> sa_sequence a' = sa_sequence a + (if sa_state a' \<noteq> sa_state a then 1 else 0)
    \<and> sa_baseline a' = Some b"
  using assms(1)
proof (cases rule: verify_cases)
  case (measured d vs x)
  have d: "d = b" using measured(1) assms(2) by simp
  note vs = measured(3) [unfolded d]
  have r: "sv_state r = sa_state a'" "sv_verified r = (sa_state a' = Active)"
    "sv_mismatched r = ids_with ComponentMismatched (sb_components b) vs"
    using assms vs by (auto simp: verify_now_def Let_def)
  have "sa_state a' = verdict_state vs" using measured(4) by simp
  moreover have "verdict_state vs = Invalidated \<longleftrightarrow> ComponentMismatched \<in> set vs" "verdict_state vs \<noteq> Initializing"
    by (simp_all add: verdict_state_def)
  ultimately show ?thesis
    using r measured(4) verdict_invalidated [OF vs] verdict_active [OF vs] ids_with_set [OF vs, of ComponentMismatched] assms(2)
    by (simp add: verify_component_matches verify_component_mismatched)
qed (use assms(2,3) in auto)

theorem source_verification_exact_witness:
  "\<exists>r a'. verify_now (\<lambda>x. x) (example_host\<lparr>sh_read := (\<lambda>p. Inr [''changed''])\<rparr>)
       (example_authority\<lparr>sa_state := Active, sa_baseline := Some example_baseline\<rparr>) = (Inr r, a')
     \<and> sa_state a' = Invalidated \<and> sa_sequence a' = 1 \<and> sv_mismatched r = [''kernel'']"
proof -
  let ?h = "example_host\<lparr>sh_read := (\<lambda>p. Inr [''changed''])\<rparr>"
  let ?a = "example_authority\<lparr>sa_state := Active, sa_baseline := Some example_baseline\<rparr>"
  have run: "isl (fst (verify_now (\<lambda>x. x) ?h ?a)) = False"
    "map_sum id sv_mismatched (fst (verify_now (\<lambda>x. x) ?h ?a)) = Inr [''kernel'']" by code_simp+
  then obtain r a' where v: "verify_now (\<lambda>x. x) ?h ?a = (Inr r, a')" by (cases "verify_now (\<lambda>x. x) ?h ?a"; cases "fst (verify_now (\<lambda>x. x) ?h ?a)") auto
  have "differs (measure_regular_file (\<lambda>x. x) ?h ''/k.py'') \<lparr>sc_id = ''kernel'', sc_path = ''/k.py'', sc_kind = ''regular_file'', sc_sha256 = ''/k.py''\<rparr>"
    by code_simp
  then have "\<exists>c \<in> set (sb_components example_baseline). differs (measure_regular_file (\<lambda>x. x) ?h (sc_path c)) c"
    by (simp add: example_baseline_def)
  then show ?thesis using source_verification_exact [OF v, of example_baseline] v run(2) by (simp add: example_authority_def)
qed

section \<open>The governed stream\<close>

definition admitted_now :: "source_authority \<Rightarrow> bool" where
  "admitted_now a \<longleftrightarrow> sa_state a = Active \<and> sa_baseline a \<noteq> None"

lemma release_blocked: "release_chunks (Some e) chunks = ([], Some e)"
  by (induction chunks) auto

lemma release_chunks_spec:
  "release_chunks None chunks = (out, blocked) \<Longrightarrow>
     out = map snd (takeWhile (\<lambda>x. admitted_now (fst x)) chunks)
     \<and> (blocked = None \<longleftrightarrow> list_all (\<lambda>x. admitted_now (fst x)) chunks)"
proof (induction chunks arbitrary: out)
  case (Cons x chunks)
  obtain a chunk where x: "x = (a, chunk)" by fastforce
  show ?case
  proof (cases "admit a")
    case (Inl e)
    then have "\<not> admitted_now a" by (auto simp: admitted_now_def admit_def split: option.splits)
    then show ?thesis using Cons.prems Inl x by (simp add: release_blocked) (auto simp: release_blocked)
  next
    case (Inr b)
    then have "admitted_now a" by (simp add: admit_Inr admitted_now_def)
    then show ?thesis using Cons Inr x by (auto split: prod.splits)
  qed
qed auto

text \<open>What a governed stream releases is exactly the chunks that arrive before the first moment
  at which the authority does not admit (nothing, when the opening boundary refuses); nothing is
  released after it, and the stream ends cleanly only when every chunk was admitted and released.\<close>

theorem source_stream_release:
  assumes "source_governed_stream check chunks upstream a = (out, ending)"
  shows "out = (if isl (fst (check a)) then [] else map snd (takeWhile (\<lambda>x. admitted_now (fst x)) chunks))
    \<and> (ending = GovernedFinished \<longrightarrow> out = map snd chunks \<and> upstream = None)
    \<and> ((\<exists>e. ending = GovernedRaised e) \<longleftrightarrow> isl (fst (check a)) \<or> \<not> list_all (\<lambda>x. admitted_now (fst x)) chunks)"
proof (cases "fst (check a)")
  case (Inl e)
  then show ?thesis using assms by (auto simp: source_governed_stream_def)
next
  case (Inr u)
  obtain o1 b where r: "release_chunks None chunks = (o1, b)" by fastforce
  note spec = release_chunks_spec [OF r]
  have "o1 = map snd chunks" if "b = None"
  proof -
    have "takeWhile (\<lambda>x. admitted_now (fst x)) chunks = chunks" using that spec by (simp add: list_all_iff)
    with spec show ?thesis by metis
  qed
  then show ?thesis using assms Inr r spec
    by (cases b; cases upstream) (auto simp: source_governed_stream_def)
qed

theorem source_stream_release_witness:
  "let live = example_authority\<lparr>sa_state := Active, sa_baseline := Some example_baseline\<rparr>;
       dead = live\<lparr>sa_state := Invalidated\<rparr>
   in fst (source_governed_stream (verify_for_authority_boundary (\<lambda>x. x) example_host id)
        [(live, ''a''), (dead, ''b''), (live, ''c'')] None live) = [''a'']"
proof -
  let ?live = "example_authority\<lparr>sa_state := Active, sa_baseline := Some example_baseline\<rparr>"
  let ?check = "verify_for_authority_boundary (\<lambda>x. x) example_host id"
  have ok: "isl (fst (?check ?live)) = False" by code_simp
  obtain out ending where run: "source_governed_stream ?check
      [(?live, ''a''), (?live\<lparr>sa_state := Invalidated\<rparr>, ''b''), (?live, ''c'')] None ?live = (out, ending)" by fastforce
  from source_stream_release [OF run] ok run show ?thesis by (simp add: Let_def admitted_now_def)
qed

end
