(* ===== verification/ShellLex.thy ===== *)
theory ShellLex
  imports PathNormalize
begin

text \<open>
  The shell-like tokens the path policy works on: \<open>shlex.shlex\<close> of the Python standard library,
  as \<open>_shell_tokens\<close> of \<open>jack_path_policy.py\<close> configures it (split at white space, no comments,
  the punctuation \<open>; & | < >\<close>). A word character and any other character that is not white
  space, a quote or punctuation are then treated alike. A character pushed back at the end of a
  token is read again between tokens, which \<open>lex_start\<close> does at once.

  The lemmas bound what tokens weigh, which the recursion over nested commands needs, and show
  that plain words separated by blanks are their own tokens.
\<close>

section \<open>The lexer\<close>

datatype lex_state = LexBlank | LexWord | LexPunct | LexQuote char | LexEscape "char option"

definition shell_white :: "char \<Rightarrow> bool" where
  "shell_white c = (c \<in> {CHR '' '', CHR 0x09, CHR 0x0D, CHR 0x0A})"

definition shell_punctuation :: "char \<Rightarrow> bool" where
  "shell_punctuation c = (c \<in> set '';&|<>'')"

text \<open>A token ends: it is handed out when there is one.\<close>

definition lex_emit :: "bool \<Rightarrow> bool \<Rightarrow> string \<Rightarrow> string list option \<Rightarrow> string list option" where
  "lex_emit posix quoted token rest =
     (if token \<noteq> [] \<or> posix \<and> quoted then map_option (Cons token) rest else rest)"

text \<open>The first character of a token.\<close>

definition lex_start :: "bool \<Rightarrow> char \<Rightarrow> lex_state \<times> string" where
  "lex_start posix c =
     (if posix \<and> c = bslash then (LexEscape None, [])
      else if shell_punctuation c then (LexPunct, [c])
      else if is_quote c then (LexQuote c, if posix then [] else [c])
      else (LexWord, [c]))"

fun lex :: "bool \<Rightarrow> lex_state \<Rightarrow> bool \<Rightarrow> string \<Rightarrow> string \<Rightarrow> string list option" where
  "lex posix (LexQuote q) quoted token [] = None"
| "lex posix (LexEscape e) quoted token [] = None"
| "lex posix st quoted token [] = lex_emit posix quoted token (Some [])"
| "lex posix LexBlank quoted token (c # cs) =
     (if shell_white c then lex posix LexBlank quoted token cs
      else (case lex_start posix c of (st, t) \<Rightarrow> lex posix st quoted t cs))"
| "lex posix (LexQuote q) quoted token (c # cs) =
     (if c = q then
        (if posix then lex posix LexWord True token cs
         else map_option (Cons (token @ [c])) (lex posix LexBlank False [] cs))
      else if posix \<and> c = bslash \<and> q = CHR 0x22 then lex posix (LexEscape (Some q)) True token cs
      else lex posix (LexQuote q) True (token @ [c]) cs)"
| "lex posix (LexEscape None) quoted token (c # cs) = lex posix LexWord quoted (token @ [c]) cs"
| "lex posix (LexEscape (Some q)) quoted token (c # cs) =
     lex posix (LexQuote q) quoted (token @ (if c \<noteq> bslash \<and> c \<noteq> q then [bslash] else []) @ [c]) cs"
| "lex posix LexWord quoted token (c # cs) =
     (if shell_white c then lex_emit posix quoted token (lex posix LexBlank False [] cs)
      else if posix \<and> is_quote c then lex posix (LexQuote c) quoted token cs
      else if posix \<and> c = bslash then lex posix (LexEscape None) quoted token cs
      else if shell_punctuation c then lex_emit posix quoted token (lex posix LexPunct False [c] cs)
      else lex posix LexWord quoted (token @ [c]) cs)"
| "lex posix LexPunct quoted token (c # cs) =
     (if shell_white c then lex_emit posix quoted token (lex posix LexBlank False [] cs)
      else if shell_punctuation c then lex posix LexPunct quoted (token @ [c]) cs
      else lex_emit posix quoted token (case lex_start posix c of (st, t) \<Rightarrow> lex posix st False t cs))"

text \<open>\<open>_shell_tokens\<close>: \<open>None\<close> when the text does not close a quote or an escape.\<close>

definition shell_tokens :: "string \<Rightarrow> string \<Rightarrow> string list option" where
  "shell_tokens command dialect = lex (dialect = ''bash'') LexBlank False [] command"

section \<open>The weight of tokens\<close>

definition heavy :: "string \<Rightarrow> nat" where
  "heavy s = length (filter (\<lambda>c. c \<noteq> CHR '' '') s)"

definition weight :: "string list \<Rightarrow> nat" where
  "weight ts = sum_list (map heavy ts)"

lemma heavy_simps [simp]:
  "heavy [] = 0" "heavy (s @ t) = heavy s + heavy t" "heavy (c # s) = (if c = CHR '' '' then 0 else 1) + heavy s"
  by (simp_all add: heavy_def)

lemma weight_simps [simp]: "weight [] = 0" "weight (t # ts) = heavy t + weight ts" "weight (a @ b) = weight a + weight b"
  by (simp_all add: weight_def)

lemma lex_emit_weight:
  "lex_emit posix quoted token rest = Some ts \<Longrightarrow> \<exists>us. rest = Some us \<and> weight ts \<le> heavy token + weight us"
  by (auto simp: lex_emit_def split: if_splits)

definition pending_escape :: "lex_state \<Rightarrow> nat" where
  "pending_escape st = (case st of LexEscape (Some q) \<Rightarrow> 1 | _ \<Rightarrow> 0)"

lemma lex_start_weight: "lex_start posix c = (st, t) \<Longrightarrow> heavy t + pending_escape st \<le> heavy [c]"
  by (auto simp: lex_start_def pending_escape_def split: if_splits)

lemma lex_weight:
  "lex posix st quoted token s = Some ts \<Longrightarrow> weight ts \<le> heavy token + heavy s + pending_escape st"
by (induction posix st quoted token s arbitrary: ts rule: lex.induct)
   (force simp: pending_escape_def lex_start_def dest!: lex_emit_weight split: if_splits prod.splits)+

lemma shell_tokens_weight: "shell_tokens s d = Some ts \<Longrightarrow> weight ts \<le> heavy s"
  using lex_weight [of "d = ''bash''" LexBlank False "[]" s ts] by (simp add: shell_tokens_def pending_escape_def)

section \<open>Plain words\<close>

definition plain_char :: "char \<Rightarrow> bool" where
  "plain_char c \<longleftrightarrow> \<not> shell_white c \<and> \<not> shell_punctuation c \<and> \<not> is_quote c \<and> c \<noteq> bslash"

definition plain_word :: "string \<Rightarrow> bool" where
  "plain_word w \<longleftrightarrow> w \<noteq> [] \<and> list_all plain_char w"

lemma lex_plain: "list_all plain_char w \<Longrightarrow> lex posix LexWord quoted token (w @ s) = lex posix LexWord quoted (token @ w) s"
  by (induction w arbitrary: token) (auto simp: plain_char_def)

lemma lex_plain_words:
  "list_all plain_word ws \<Longrightarrow> lex posix LexBlank False [] (join_with CHR '' '' ws) = Some ws"
proof (induction ws)
  case (Cons w ws)
  obtain c u where w: "w = c # u" "plain_char c" "list_all plain_char u"
    using Cons.prems by (cases w) (auto simp: plain_word_def)
  have start: "lex posix LexBlank False [] (w @ s) = lex posix LexWord False w s" for s
    using w lex_plain [of u posix False "[c]" s] by (simp add: plain_char_def lex_start_def)
  show ?case
  proof (cases ws)
    case Nil
    then show ?thesis using start [of "[]"] w by (simp add: lex_emit_def)
  next
    case (Cons v vs)
    then show ?thesis using start [of "CHR '' '' # join_with CHR '' '' ws"] Cons.IH Cons.prems w
      by (simp add: lex_emit_def shell_white_def)
  qed
qed (simp add: lex_emit_def)

end
