(* ===== verification/CommandText.thy ===== *)
theory CommandText
  imports ShellLex PathPolicy
begin

text \<open>
  The texts of tool calls in \<open>jack_path_policy.py\<close>: the exact contracts of the structured
  filesystem tools, the dialect and text of a command tool, and what of a shell text the policy
  resolves itself (known environment variables, the home directory, drive spellings, the
  FileSystem provider) or refuses to resolve. \<open>json.loads\<close> is the parameter \<open>loads\<close>.
\<close>

section \<open>Structured tools\<close>

record path_contract =
  pc_tool_name :: string
  pc_path_fields :: "string list"
  pc_default_to_executor_cwd :: bool

definition PI_STRUCTURED_PATH_CONTRACTS :: "path_contract list" where
  "PI_STRUCTURED_PATH_CONTRACTS =
     [\<lparr>pc_tool_name = ''read'', pc_path_fields = [''path''], pc_default_to_executor_cwd = False\<rparr>,
      \<lparr>pc_tool_name = ''edit'', pc_path_fields = [''path''], pc_default_to_executor_cwd = False\<rparr>,
      \<lparr>pc_tool_name = ''write'', pc_path_fields = [''path''], pc_default_to_executor_cwd = False\<rparr>,
      \<lparr>pc_tool_name = ''grep'', pc_path_fields = [''path''], pc_default_to_executor_cwd = True\<rparr>,
      \<lparr>pc_tool_name = ''find'', pc_path_fields = [''path''], pc_default_to_executor_cwd = True\<rparr>,
      \<lparr>pc_tool_name = ''ls'', pc_path_fields = [''path''], pc_default_to_executor_cwd = True\<rparr>]"

record structured_extraction =
  se_applicable :: bool
  se_targets :: "string list"
  se_uses_executor_cwd :: bool
  se_error :: "string option"

definition structured_error :: "string \<Rightarrow> structured_extraction" where
  "structured_error m = \<lparr>se_applicable = True, se_targets = [], se_uses_executor_cwd = False, se_error = Some m\<rparr>"

definition structured_tool_path_contract :: "pyval \<Rightarrow> path_contract option" where
  "structured_tool_path_contract tool_name = (case tool_name of
       PStr s \<Rightarrow> find (\<lambda>c. py_casefold (py_strip s) = pc_tool_name c) PI_STRUCTURED_PATH_CONTRACTS
     | _ \<Rightarrow> None)"

text \<open>The arguments of a call, an object or the JSON text of one; the first message is for text
  that is not JSON, the second for anything but an object.\<close>

definition parsed_arguments :: "(string \<Rightarrow> pyval option) \<Rightarrow> string \<Rightarrow> string \<Rightarrow> pyval \<Rightarrow> string + pydict" where
  "parsed_arguments loads not_json not_object arguments = (case arguments of
       PStr s \<Rightarrow> (case loads s of
           None \<Rightarrow> Inl not_json
         | Some (PDict d) \<Rightarrow> Inr d
         | Some _ \<Rightarrow> Inl not_object)
     | PDict d \<Rightarrow> Inr d
     | _ \<Rightarrow> Inl not_object)"

fun field_targets :: "pydict \<Rightarrow> string list \<Rightarrow> string list \<Rightarrow> string + string list" where
  "field_targets d targets [] = Inr targets"
| "field_targets d targets (field # rest) =
     (if \<not> dict_has d field then field_targets d targets rest
      else (case dict_get d field of
          PStr s \<Rightarrow>
            if py_strip s = [] then Inl ''structured filesystem path field must be a non-empty string''
            else field_targets d (if py_strip s \<in> set targets then targets else targets @ [py_strip s]) rest
        | _ \<Rightarrow> Inl ''structured filesystem path field must be a non-empty string''))"

definition extract_structured_tool_paths :: "(string \<Rightarrow> pyval option) \<Rightarrow> pyval \<Rightarrow> pyval \<Rightarrow> structured_extraction" where
  "extract_structured_tool_paths loads tool_name arguments =
     (case structured_tool_path_contract tool_name of
        None \<Rightarrow> \<lparr>se_applicable = False, se_targets = [], se_uses_executor_cwd = False, se_error = None\<rparr>
      | Some contract \<Rightarrow>
          (case parsed_arguments loads ''structured filesystem tool arguments are not valid JSON''
                  ''structured filesystem tool arguments must be an object'' arguments of
             Inl m \<Rightarrow> structured_error m
           | Inr d \<Rightarrow>
               (case field_targets d [] (pc_path_fields contract) of
                  Inl m \<Rightarrow> structured_error m
                | Inr targets \<Rightarrow>
                    if targets = [] then
                      (if pc_default_to_executor_cwd contract then
                         \<lparr>se_applicable = True, se_targets = [], se_uses_executor_cwd = True, se_error = None\<rparr>
                       else structured_error ''structured filesystem tool did not expose a represented path'')
                    else \<lparr>se_applicable = True, se_targets = targets, se_uses_executor_cwd = False, se_error = None\<rparr>)))"

section \<open>Command tools\<close>

definition COMMAND_TEXT_KEYS :: "string list" where
  "COMMAND_TEXT_KEYS = [''command'', ''cmd'', ''script'']"

definition BASH_EXACT_TOOL_NAMES :: "string list" where
  "BASH_EXACT_TOOL_NAMES = [''bash'']"

definition POWERSHELL_EXACT_TOOL_NAMES :: "string list" where
  "POWERSHELL_EXACT_TOOL_NAMES = [''powershell'', ''pwsh'']"

definition GENERIC_COMMAND_TOOL_NAMES :: "string list" where
  "GENERIC_COMMAND_TOOL_NAMES = [''shell'', ''terminal'', ''command'', ''exec'', ''cmd'']"

definition folded_name :: "pyval \<Rightarrow> string" where
  "folded_name v = py_casefold (py_strip (str_or_empty v))"

definition is_command_capability_tool_name :: "pyval \<Rightarrow> bool" where
  "is_command_capability_tool_name tool_name =
     (folded_name tool_name \<in> set (BASH_EXACT_TOOL_NAMES @ POWERSHELL_EXACT_TOOL_NAMES @ GENERIC_COMMAND_TOOL_NAMES))"

definition command_dialect_for_tool :: "pyval \<Rightarrow> pyval \<Rightarrow> string option" where
  "command_dialect_for_tool tool_name explicit =
     (let name = folded_name tool_name; dialect = folded_name explicit in
      if name \<in> set BASH_EXACT_TOOL_NAMES then (if dialect \<in> {[], ''bash''} then Some ''bash'' else None)
      else if name \<in> set POWERSHELL_EXACT_TOOL_NAMES then (if dialect \<in> {[], ''powershell''} then Some ''powershell'' else None)
      else if name \<in> set GENERIC_COMMAND_TOOL_NAMES then (if dialect \<in> {''bash'', ''powershell''} then Some dialect else None)
      else if dialect \<in> {''bash'', ''powershell''} then Some dialect
      else None)"

definition command_text_from_arguments :: "(string \<Rightarrow> pyval option) \<Rightarrow> pyval \<Rightarrow> string + string" where
  "command_text_from_arguments loads arguments =
     try_bind (parsed_arguments loads ''command tool arguments are not valid JSON''
                 ''command tool arguments must be an object'' arguments) (\<lambda>d.
       case concat (map (\<lambda>k. case dict_get d k of PStr s \<Rightarrow> if py_strip s \<noteq> [] then [s] else [] | _ \<Rightarrow> []) COMMAND_TEXT_KEYS) of
         [s] \<Rightarrow> Inr (py_strip s)
       | _ \<Rightarrow> Inl ''command tool must expose exactly one command string'')"

section \<open>What the policy resolves in a shell text\<close>

definition strip_token_quotes :: "string \<Rightarrow> string" where
  "strip_token_quotes value =
     (let token = py_strip value in
      if 2 \<le> length token \<and> hd token = last token \<and> is_quote (hd token) then butlast (tl token) else token)"

definition token_is_fully_quoted :: "string \<Rightarrow> bool" where
  "token_is_fully_quoted value =
     (let token = py_strip value in 2 \<le> length token \<and> hd token = last token \<and> is_quote (hd token))"

definition environment_aliases :: "string \<Rightarrow> string list" where
  "environment_aliases key =
     (if key = ''home'' then [''home'', ''userprofile'']
      else if key = ''userprofile'' then [''userprofile'', ''home'']
      else if key = ''windir'' then [''windir'', ''systemroot'']
      else if key = ''systemroot'' then [''systemroot'', ''windir'']
      else [key])"

definition bash_environment_value :: "string \<Rightarrow> env \<Rightarrow> string option" where
  "bash_environment_value name e =
     (case filter (\<lambda>v. v \<noteq> []) (map (env_get e) (environment_aliases (py_casefold (py_strip name)))) of
        [] \<Rightarrow> None | v # _ \<Rightarrow> Some v)"

text \<open>A match of \<open>_ENV_BASH_RE\<close> whose dollar sign has been read: the name and the rest.\<close>

definition bash_match :: "string \<Rightarrow> (string \<times> string) option" where
  "bash_match s =
     (if take 1 s = [CHR 0x7B] then
        (let n = ident_prefix (tl s); r = drop (length n) (tl s)
         in if n \<noteq> [] \<and> take 1 r = [CHR 0x7D] then Some (n, tl r) else None)
      else (let n = ident_prefix s in if n \<noteq> [] then Some (n, drop (length n) s) else None))"

lemma bash_match_shorter: "bash_match s = Some (n, r) \<Longrightarrow> length r < length s"
  by (cases s) (auto simp: bash_match_def Let_def ident_prefix_def split: if_splits list.splits)

function expand_known_bash_environment :: "env \<Rightarrow> string \<Rightarrow> path_error + string" where
  "expand_known_bash_environment e [] = Inr []"
| "expand_known_bash_environment e (c # s) =
     (case (if c = CHR ''$'' then bash_match s else None) of
        Some (n, r) \<Rightarrow>
          (case bash_environment_value n e of
             None \<Rightarrow> Inl (PathAmbiguous (''unknown Bash environment variable '' @ repr_str n))
           | Some v \<Rightarrow> try_bind (expand_known_bash_environment e r) (\<lambda>t. Inr (v @ t)))
      | None \<Rightarrow> try_bind (expand_known_bash_environment e s) (\<lambda>t. Inr (c # t)))"
  by pat_completeness auto
termination
  by (relation "measure (\<lambda>(e, s). length s)") (auto dest: bash_match_shorter split: if_splits)

definition expand_shell_home :: "string \<Rightarrow> env \<Rightarrow> path_error + string" where
  "expand_shell_home text e =
     (if text = ''~'' \<or> starts_with ''~/'' text \<or> starts_with [CHR ''~'', bslash] text then
        (case bash_environment_value ''HOME'' e of
           None \<Rightarrow> Inl (PathAmbiguous ''shell home directory is unavailable'')
         | Some home \<Rightarrow>
             (let suffix = dropWhile (\<lambda>c. c = slash \<or> c = bslash) (tl text)
              in Inr (if suffix \<noteq> [] then nt_join home suffix else home)))
      else if starts_with ''~'' text then
        Inl (PathAmbiguous ''named-user home expansion is outside the bounded Phase-4 contract'')
      else Inr text)"

text \<open>One of the patterns \<open>^<prefix>([A-Za-z])(?:/(.*))?$\<close>: the drive and the tail. The end may stand
  before a final line feed, and the dot matches no other.\<close>

definition compat_match :: "string \<Rightarrow> string \<Rightarrow> (char \<times> string) option" where
  "compat_match pre text =
     (let t = (if text \<noteq> [] \<and> last text = CHR 0x0A then butlast text else text) in
      if \<not> starts_with pre t then None
      else case drop (length pre) t of
          [] \<Rightarrow> None
        | d # r \<Rightarrow>
            if \<not> ascii_alpha d then None
            else (case r of
                [] \<Rightarrow> Some (d, [])
              | c # tail \<Rightarrow> if c = slash \<and> CHR 0x0A \<notin> set tail then Some (d, tail) else None))"

definition map_windows_compat_bash_path :: "string \<Rightarrow> pyval \<Rightarrow> string" where
  "map_windows_compat_bash_path text executor_platform =
     (if folded_name executor_platform \<notin> {''win32'', ''windows''} then text
      else case concat (map (\<lambda>pre. case compat_match pre text of None \<Rightarrow> [] | Some x \<Rightarrow> [x]) [''/mnt/'', ''/cygdrive/'', ''/'']) of
          [] \<Rightarrow> text
        | (d, tail) # _ \<Rightarrow> [ascii_upper_char d, colon] @ (if tail \<noteq> [] then bslash # replace_char slash bslash tail else [bslash]))"

text \<open>An identifier of a PowerShell provider.\<close>

definition provider_char :: "char \<Rightarrow> bool" where
  "provider_char c = (ascii_alnum c \<or> c \<in> set ''_.-'')"

definition provider_ident :: "string \<Rightarrow> string" where
  "provider_ident s = (case s of [] \<Rightarrow> []
     | c # cs \<Rightarrow> if ident_start c then c # takeWhile provider_char cs else [])"

text \<open>\<open>::.+$\<close> on a stripped text.\<close>

definition provider_rest :: "string \<Rightarrow> bool" where
  "provider_rest s = (starts_with ''::'' s \<and> drop 2 s \<noteq> [] \<and> CHR 0x0A \<notin> set (drop 2 s))"

definition provider_qualified :: "string \<Rightarrow> bool" where
  "provider_qualified text =
     (let a = provider_ident text; r = drop (length a) text in
      a \<noteq> [] \<and> (provider_rest r
        \<or> take 1 r = [bslash] \<and> (let b = provider_ident (tl r) in b \<noteq> [] \<and> provider_rest (drop (length b) (tl r)))))"

definition filesystem_prefixes :: "string list" where
  "filesystem_prefixes = [''microsoft.powershell.core'' @ [bslash] @ ''filesystem'', ''filesystem'']"

text \<open>\<open>_normalize_powershell_filesystem_target\<close>: \<open>Inl\<close> is \<open>NonFilesystemPowerShellTarget\<close>.\<close>

definition normalize_powershell_filesystem_target :: "string \<Rightarrow> string + string" where
  "normalize_powershell_filesystem_target value =
     (let text = py_strip value in
      case find (\<lambda>pre. py_lower (take (length pre) text) = pre \<and> provider_rest (drop (length pre) text)) filesystem_prefixes of
        Some pre \<Rightarrow> Inr (drop (length pre + 2) text)
      | None \<Rightarrow>
          if (case text of c # d # _ \<Rightarrow> ascii_alpha c \<and> d = colon | _ \<Rightarrow> False)
             \<or> starts_with [bslash] text \<or> starts_with ''.'' text \<or> starts_with ''~'' text then Inr text
          else if provider_qualified text then
            Inl ''PowerShell target belongs to a non-FileSystem or unknown provider''
          else (let drive = provider_ident text in
            if drive \<noteq> [] \<and> take 1 (drop (length drive) text) = [colon] \<and> length drive \<noteq> 1 then
              Inl ''PowerShell target uses a provider drive rather than a Windows drive letter''
            else Inr text))"

datatype prepare_error = NonFilesystemTarget string | PrepareFailed path_error

definition prepare_command_target :: "env \<Rightarrow> string \<Rightarrow> string \<Rightarrow> pyval \<Rightarrow> prepare_error + string" where
  "prepare_command_target e target dialect executor_platform =
     (let failed = (\<lambda>x. case x of Inl err \<Rightarrow> Inl (PrepareFailed err) | Inr v \<Rightarrow> Inr v);
          prepared = strip_token_quotes (py_strip target) in
      try_bind (if dialect = ''powershell''
                then (case normalize_powershell_filesystem_target prepared of
                        Inl m \<Rightarrow> Inl (NonFilesystemTarget m) | Inr t \<Rightarrow> Inr t)
                else Inr prepared) (\<lambda>t1.
      try_bind (failed (expand_shell_home t1 e)) (\<lambda>t2.
        if dialect = ''bash'' then
          try_bind (failed (expand_known_bash_environment e t2)) (\<lambda>t3. Inr (map_windows_compat_bash_path t3 executor_platform))
        else Inr t2)))"

section \<open>What the policy does not resolve\<close>

function scrub_bash :: "env \<Rightarrow> string \<Rightarrow> string" where
  "scrub_bash e [] = []"
| "scrub_bash e (c # s) =
     (case (if c = CHR ''$'' then bash_match s else None) of
        Some (n, r) \<Rightarrow> (if bash_environment_value n e \<noteq> None then [] else c # take (length s - length r) s) @ scrub_bash e r
      | None \<Rightarrow> c # scrub_bash e s)"
  by pat_completeness auto
termination
  by (relation "measure (\<lambda>(e, s). length s)") (auto dest: bash_match_shorter split: if_splits)

fun dynamic_bash :: "string \<Rightarrow> bool" where
  "dynamic_bash [] = False"
| "dynamic_bash (c # s) =
     (c = CHR 0x60
      \<or> c = CHR ''$'' \<and> (case s of [] \<Rightarrow> False
           | d # _ \<Rightarrow> d = CHR ''('' \<or> d = CHR 0x7B \<or> ident_start d \<or> ascii_digit d \<or> d \<in> set ''@*#?$!-'')
      \<or> (c = CHR ''<'' \<or> c = CHR ''>'') \<and> take 1 s = ''(''
      \<or> c = CHR ''*'' \<or> c = CHR ''?'' \<or> c = CHR 0x7B \<or> c = CHR 0x7D
      \<or> c = CHR ''['' \<and> CHR '']'' \<in> set s
      \<or> dynamic_bash s)"

definition bash_command_dynamic_syntax :: "string \<Rightarrow> env option \<Rightarrow> bool" where
  "bash_command_dynamic_syntax text environment =
     dynamic_bash (case environment of None \<Rightarrow> text
       | Some e \<Rightarrow> scrub_bash (normalized_environment (env_source e)) text)"

function scrub_powershell :: "string \<Rightarrow> string" where
  "scrub_powershell [] = []"
| "scrub_powershell (c # s) =
     (case (if c = CHR ''$'' then powershell_match s else None) of
        Some (n, r) \<Rightarrow> scrub_powershell r
      | None \<Rightarrow> c # scrub_powershell s)"
  by pat_completeness auto
termination
  by (relation "measure length") (auto dest: powershell_match_shorter split: if_splits)

fun dynamic_powershell :: "string \<Rightarrow> bool" where
  "dynamic_powershell [] = False"
| "dynamic_powershell (c # s) =
     ((c = CHR ''$'' \<or> c = CHR ''@'') \<and> take 1 s = ''(''
      \<or> c = CHR 0x7B \<or> c = CHR 0x7D
      \<or> c = CHR 0x60 \<and> \<not> (case s of [] \<Rightarrow> False | d # _ \<Rightarrow> is_quote d)
      \<or> c = CHR ''$'' \<and> py_lower (take 4 s) \<noteq> ''env:'' \<and> py_lower (take 5 s) \<noteq> CHR 0x7B # ''env:''
      \<or> c = CHR ''*'' \<or> c = CHR ''?''
      \<or> c = CHR ''['' \<and> CHR '']'' \<in> set s
      \<or> dynamic_powershell s)"

definition has_unresolved_dynamic_shell_syntax :: "string \<Rightarrow> string \<Rightarrow> env option \<Rightarrow> bool" where
  "has_unresolved_dynamic_shell_syntax text dialect environment =
     (if dialect = ''bash'' then bash_command_dynamic_syntax text environment
      else dynamic_powershell (scrub_powershell text))"

definition token_has_unresolved_command_expression :: "string \<Rightarrow> string \<Rightarrow> bool" where
  "token_has_unresolved_command_expression token dialect =
     (let raw = py_strip token in
      if raw = [] \<or> token_is_fully_quoted raw then False
      else if dialect = ''bash'' then starts_with ''~'' raw \<or> CHR 0x7B \<in> set raw \<or> CHR 0x7D \<in> set raw
      else starts_with ''~'' raw \<or> starts_with ''@'' raw \<or> raw = ''+'' \<or> raw = '',''
        \<or> contains_sub ''::'' raw \<and> \<not> provider_qualified raw
        \<or> starts_with ''('' raw \<or> ends_with '')'' raw \<or> starts_with ''['' raw \<or> ends_with '']'' raw
        \<or> py_casefold raw = ''-f'')"

end
