(* ===== verification/CommandSegments.thy ===== *)
theory CommandSegments
  imports CommandText
begin

text \<open>
  The simple commands of a shell text in \<open>jack_path_policy.py\<close>: how tokens are cut into segments
  and redirections, and which paths a Bash or PowerShell segment represents. A command that runs
  another one (\<open>env\<close>, \<open>command\<close>, \<open>exec\<close>, \<open>nohup\<close>, a shell with \<open>-c\<close>) hands over to the segments
  inside it; the recursion ends because every step drops the name of the running command.

  A segment gives its targets, whether the executor's directory is its scope, and whether its
  meaning exceeds the bounded contract.
\<close>

section \<open>Tokens, redirections and segments\<close>

definition COMMAND_CONTROL :: "string list" where
  "COMMAND_CONTROL = ['';'', ''&'', ''&&'', ''||'', ''|'']"

definition REDIRECT_OPS :: "string list" where
  "REDIRECT_OPS = [''>'', ''>>'', ''<'']"

type_synonym segment_facts = "string list \<times> bool \<times> bool"

text \<open>The loop that skips a redirection with its target.\<close>

fun drop_redirects :: "string list \<Rightarrow> string list" where
  "drop_redirects [] = []"
| "drop_redirects (t # ts) =
     (if t \<in> set REDIRECT_OPS then (case ts of [] \<Rightarrow> [] | _ # rest \<Rightarrow> drop_redirects rest)
      else t # drop_redirects ts)"

fun path_operand_tokens :: "string list \<Rightarrow> string list \<times> bool" where
  "path_operand_tokens [] = ([], False)"
| "path_operand_tokens (t # ts) =
     (if t \<in> set REDIRECT_OPS then
        (case ts of
           [] \<Rightarrow> ([], True)
         | n # rest \<Rightarrow>
             if strip_token_quotes n = [] then ([], True)
             else (case path_operand_tokens rest of (targets, amb) \<Rightarrow> (strip_token_quotes n # targets, amb)))
      else (case path_operand_tokens ts of (targets, amb) \<Rightarrow>
        (targets, starts_with ''<<'' t \<or> t \<in> {''>&'', ''<&'', ''>|''} \<or> amb)))"

fun split_segments :: "string list \<Rightarrow> string list \<Rightarrow> string list list" where
  "split_segments current [] = (if current \<noteq> [] then [current] else [])"
| "split_segments current (t # ts) =
     (if t \<in> set COMMAND_CONTROL then
        (if current \<noteq> [] then [current] else []) @ split_segments [] ts
      else split_segments (current @ [t]) ts)"

definition split_command_segments :: "string list \<Rightarrow> string list list" where
  "split_command_segments tokens = split_segments [] tokens"

definition command_of :: "string \<Rightarrow> string" where
  "command_of token = py_casefold (nt_basename (strip_token_quotes token))"

definition segment_command_name :: "string list \<Rightarrow> string" where
  "segment_command_name tokens = (case drop_redirects tokens of [] \<Rightarrow> [] | t # _ \<Rightarrow> command_of t)"

definition segment_changes_cwd :: "string list \<Rightarrow> string \<Rightarrow> bool" where
  "segment_changes_cwd tokens dialect =
     (if dialect = ''bash'' then segment_command_name tokens \<in> {''cd'', ''pushd'', ''popd''}
      else segment_command_name tokens \<in> {''set-location'', ''sl'', ''cd'', ''push-location'', ''pushd'', ''pop-location'', ''popd''})"

section \<open>Commands that run a command\<close>

definition before_eq :: "string \<Rightarrow> string" where
  "before_eq item = takeWhile (\<lambda>c. c \<noteq> CHR ''='') item"

definition after_eq :: "string \<Rightarrow> string" where
  "after_eq item = tl (dropWhile (\<lambda>c. c \<noteq> CHR ''='') item)"

text \<open>What is inside a segment: nothing, an end of the analysis (with its doubt), or segments.\<close>

datatype unwrapped = NotAWrapper | WrapperEnds bool | WrapperRuns "string list list"

definition run_rest :: "string list \<Rightarrow> bool \<Rightarrow> unwrapped" where
  "run_rest wrapped doubt = (if wrapped = [] then WrapperEnds doubt else WrapperRuns [wrapped])"

definition env_operand :: "string \<Rightarrow> bool" where
  "env_operand item = (starts_with ''-'' item \<or> CHR ''='' \<in> set item \<and> before_eq item \<noteq> [] \<and> \<not> starts_with ''='' item)"

text \<open>The options of \<open>exec\<close>; \<open>None\<close> when they are not understood.\<close>

fun exec_operands :: "string list \<Rightarrow> string list option" where
  "exec_operands [] = Some []"
| "exec_operands (t # ts) =
     (if t = ''--'' then Some ts
      else if t = ''-a'' then (if length ts < 2 then None else exec_operands (tl ts))
      else if starts_with ''-'' t then None
      else Some (t # ts))"

definition bash_unwrap :: "string \<Rightarrow> string list \<Rightarrow> unwrapped" where
  "bash_unwrap command args =
     (if command = ''env'' then run_rest (dropWhile env_operand args) False
      else if command = ''command'' then
        (let wrapped = dropWhile (\<lambda>t. t \<in> {''-p'', ''--''}) args in
         if wrapped \<noteq> [] \<and> hd wrapped \<in> {''-v'', ''-V''} then WrapperEnds False else run_rest wrapped True)
      else if command = ''exec'' then
        (case exec_operands args of None \<Rightarrow> WrapperEnds True | Some wrapped \<Rightarrow> run_rest wrapped True)
      else if command = ''nohup'' then
        run_rest (if args \<noteq> [] \<and> hd args = ''--'' then tl args else args) True
      else if command \<in> {''bash'', ''sh''} then
        (if 2 \<le> length args \<and> hd args \<in> {''-c'', ''-lc''} then
           (case shell_tokens (args ! 1) ''bash'' of
              None \<Rightarrow> WrapperEnds True
            | Some tokens \<Rightarrow> WrapperRuns (split_command_segments tokens))
         else WrapperEnds True)
      else NotAWrapper)"

section \<open>Plain Bash commands\<close>

definition BASH_PATH_COMMANDS :: "string list" where
  "BASH_PATH_COMMANDS = [''cd'', ''pushd'', ''ls'', ''cat'', ''head'', ''tail'', ''rm'', ''rmdir'', ''mkdir'', ''touch'', ''cp'', ''mv'']"

definition is_option :: "string \<Rightarrow> bool" where
  "is_option item = starts_with ''-'' item"

definition looks_path_like_cli_value :: "string \<Rightarrow> bool" where
  "looks_path_like_cli_value value =
     (let text = strip_token_quotes value in
      text \<noteq> [] \<and> (bslash \<in> set text \<or> slash \<in> set text \<or> starts_with ''.'' text \<or> starts_with ''~'' text
        \<or> (case text of c # d # _ \<Rightarrow> ascii_alpha c \<and> d = colon | _ \<Rightarrow> False)))"

text \<open>The values of the options that start with one of the prefixes, and the path-like values of
  options.\<close>

definition prefixed_values :: "string list \<Rightarrow> string list \<Rightarrow> string list" where
  "prefixed_values pres args =
     concat (map (\<lambda>item. map (\<lambda>p. after_eq item) (filter (\<lambda>p. starts_with p (py_casefold item)) pres)) args)"

definition path_like_values :: "string list \<Rightarrow> string list" where
  "path_like_values args =
     filter looks_path_like_cli_value (map after_eq (filter (\<lambda>item. CHR ''='' \<in> set item \<and> is_option item) args))"

definition test_operands :: "string list \<Rightarrow> string list" where
  "test_operands args = filter (\<lambda>item. item \<noteq> [] \<and> \<not> is_option item \<and> \<not> contains_sub ''::'' item) args"

fun git_targets :: "string list \<Rightarrow> string list \<times> bool" where
  "git_targets [] = ([], False)"
| "git_targets (item # rest) =
     (if item \<in> {''-C'', ''--git-dir'', ''--work-tree''} then
        (case rest of
           [] \<Rightarrow> ([], True)
         | v # r \<Rightarrow> (case git_targets r of (ts, stuck) \<Rightarrow> (v # ts, stuck)))
      else if item = ''--'' then (filter (\<lambda>arg. arg \<noteq> []) rest, False)
      else (case git_targets rest of (ts, stuck) \<Rightarrow>
        (take 1 (prefixed_values [''--git-dir='', ''--work-tree=''] [item]) @ ts, stuck)))"

fun git_subcommand :: "string list \<Rightarrow> string" where
  "git_subcommand [] = []"
| "git_subcommand (item # rest) =
     (if item \<in> {''-C'', ''--git-dir'', ''--work-tree''} then (case rest of [] \<Rightarrow> [] | _ # r \<Rightarrow> git_subcommand r)
      else if is_option item then git_subcommand rest
      else py_casefold item)"

definition GIT_UNBOUNDED :: "string list" where
  "GIT_UNBOUNDED = [''clone'', ''config'', ''worktree'', ''archive'', ''bundle'', ''apply'', ''am'', ''format-patch'']"

definition dotnet_targets :: "string list \<Rightarrow> string list" where
  "dotnet_targets args =
     concat (map (\<lambda>item.
       if is_option item then (if CHR ''='' \<in> set item \<and> looks_path_like_cli_value (after_eq item) then [after_eq item] else [])
       else if slash \<in> set item \<or> bslash \<in> set item
         \<or> list_ex (\<lambda>e. ends_with e (py_casefold item)) [''.sln'', ''.csproj'', ''.fsproj'', ''.vbproj''] then [item]
       else []) args)"

definition python_segment :: "string list \<Rightarrow> string list \<Rightarrow> bool \<Rightarrow> segment_facts" where
  "python_segment args targets amb =
     (case args of
        [] \<Rightarrow> (targets, False, True)
      | a # rest \<Rightarrow>
          if a = ''-m'' then
            (case rest of
               [] \<Rightarrow> (targets, False, True)
             | m # tail_args \<Rightarrow>
                 if py_casefold m \<in> {''pytest'', ''unittest''}
                 then (targets @ test_operands tail_args @ path_like_values tail_args, True, amb)
                 else (targets, False, True))
          else if a = ''-c'' then (targets, False, True)
          else if \<not> is_option a then (targets @ [a], False, amb)
          else (targets, False, True))"

definition bash_plain_segment :: "string \<Rightarrow> string list \<Rightarrow> string list \<Rightarrow> bool \<Rightarrow> segment_facts" where
  "bash_plain_segment command args targets amb =
     (if command \<in> {''pwd'', ''echo'', ''printf'', ''true'', ''false'', ''printenv'', ''uname'', ''whoami'', ''date''} then
        (targets, False, amb)
      else if command \<in> set BASH_PATH_COMMANDS then
        (let operands = filter (\<lambda>item. item \<noteq> [] \<and> \<not> is_option item) args;
             targets' = targets @ prefixed_values [''--target-directory='', ''--directory=''] args in
         if command \<in> {''cp'', ''mv''} \<and> length operands < 2 then (targets', False, True)
         else if operands = [] then (targets', True, amb)
         else (targets' @ operands, False, amb))
      else if command = ''git'' then
        (case git_targets args of (found, stuck) \<Rightarrow>
          if stuck then (targets @ found, True, True)
          else (targets @ found @ prefixed_values [''--output='', ''--output-directory='', ''--pathspec-from-file=''] args,
                True, amb \<or> git_subcommand args \<in> set GIT_UNBOUNDED))
      else if command \<in> {''pytest'', ''py.test''} then (targets @ test_operands args @ path_like_values args, True, amb)
      else if command \<in> {''python'', ''python3'', ''py''} then python_segment args targets amb
      else if command = ''dotnet'' \<and> args \<noteq> [] \<and> py_casefold (hd args) = ''test'' then
        (targets @ dotnet_targets (tl args), True, amb)
      else (targets, False, True))"

section \<open>The recursion ends\<close>

lemma heavy_filter_le: "heavy (filter P s) \<le> heavy s"
  by (induction s) auto

lemma heavy_dropWhile_le: "heavy (dropWhile P s) \<le> heavy s"
  by (induction s) auto

lemma heavy_takeWhile_le: "heavy (takeWhile P s) \<le> heavy s"
  by (induction s) auto

lemma heavy_tl_le: "heavy (tl s) \<le> heavy s"
  by (cases s) auto

lemma heavy_butlast_le: "heavy (butlast s) \<le> heavy s"
  by (induction s) auto

lemma heavy_rev [simp]: "heavy (rev s) = heavy s"
  by (induction s) auto

lemma heavy_strip: "heavy (py_strip s) \<le> heavy s"
  unfolding py_strip_def py_lstrip_def py_rstrip_by_def
  by (metis heavy_dropWhile_le heavy_rev order_trans)

lemma heavy_strip_token: "heavy (strip_token_quotes s) \<le> heavy s"
proof -
  have "heavy (butlast (tl (py_strip s))) \<le> heavy (py_strip s)"
    using heavy_butlast_le heavy_tl_le order_trans by blast
  then show ?thesis using heavy_strip [of s] by (auto simp: strip_token_quotes_def Let_def)
qed

lemma weight_strip_tokens: "weight (map strip_token_quotes ts) \<le> weight ts"
  by (induction ts) (auto intro: add_mono heavy_strip_token)

lemma weight_dropWhile: "weight (dropWhile P ts) \<le> weight ts"
  by (induction ts) auto

lemma weight_tl: "weight (tl ts) \<le> weight ts"
  by (cases ts) auto

lemma weight_drop_redirects: "weight (drop_redirects ts) \<le> weight ts"
  by (induction ts rule: drop_redirects.induct) (auto split: list.splits)

lemma weight_split_segments: "s \<in> set (split_segments current ts) \<Longrightarrow> weight s \<le> weight current + weight ts"
  by (induction current ts rule: split_segments.induct) (fastforce split: if_splits)+

lemma weight_exec: "exec_operands args = Some ts \<Longrightarrow> weight ts \<le> weight args"
proof (induction args rule: exec_operands.induct)
  case (2 t ts')
  then show ?case using weight_tl [of ts'] by (fastforce split: if_splits)
qed simp

text \<open>A token that names a command weighs something.\<close>

lemma weightless_token: "heavy t = 0 \<Longrightarrow> command_of t = []"
proof -
  assume "heavy t = 0"
  then have "filter (\<lambda>c. c \<noteq> CHR '' '') t = []" by (simp add: heavy_def)
  then have blank: "c = CHR '' ''" if "c \<in> set t" for c using that by (simp add: filter_empty_conv)
  have "py_isspace (CHR '' '')" by (simp add: py_isspace_def)
  then have "\<forall>c \<in> set t. py_isspace c" using blank by metis
  then have "dropWhile py_isspace t = []" by simp
  then have "py_strip t = []" by (simp only: py_strip_def py_lstrip_def py_rstrip_by_def) simp
  moreover have "nt_basename [] = []" by code_simp
  ultimately show ?thesis by (simp add: command_of_def strip_token_quotes_def py_casefold_def Let_def)
qed

lemma unwrap_lighter:
  assumes "bash_unwrap command args = WrapperRuns segs" and "s \<in> set segs"
  shows "weight s \<le> weight args \<and> command \<noteq> []"
proof -
  have run: "weight s \<le> weight ws" if "run_rest ws d = WrapperRuns segs" for ws d
    using that assms(2) by (auto simp: run_rest_def split: if_splits)
  have nested: "weight s \<le> weight args" if "2 \<le> length args" "shell_tokens (args ! 1) ''bash'' = Some ts" "segs = split_command_segments ts" for ts
  proof -
    have args: "args = hd args # args ! 1 # drop 2 args"
      using that(1) by (cases args; cases "tl args") (auto simp: Suc_le_eq)
    have "weight s \<le> weight ts" using assms(2) that(3) weight_split_segments [of s "[]" ts] by (simp add: split_command_segments_def)
    also have "\<dots> \<le> heavy (args ! 1)" using shell_tokens_weight that(2) by simp
    also have "\<dots> \<le> weight args" by (subst args) simp
    finally show ?thesis .
  qed
  have "command \<noteq> []" using assms(1) by (auto simp: bash_unwrap_def)
  moreover consider "command = ''env''" | "command = ''command''" | "command = ''exec''" | "command = ''nohup''" | "command \<in> {''bash'', ''sh''}"
    using assms(1) by (auto simp: bash_unwrap_def split: if_splits)
  then have "weight s \<le> weight args"
  proof cases
    case 1
    then show ?thesis using assms(1) run weight_dropWhile [of env_operand args] by (fastforce simp: bash_unwrap_def)
  next
    case 2
    then show ?thesis using assms(1) run weight_dropWhile [of "\<lambda>t. t \<in> {''-p'', ''--''}" args]
      by (fastforce simp: bash_unwrap_def Let_def split: if_splits)
  next
    case 3
    then show ?thesis using assms(1) run weight_exec by (fastforce simp: bash_unwrap_def split: option.splits)
  next
    case 4
    then show ?thesis using assms(1) run weight_tl [of args] by (fastforce simp: bash_unwrap_def split: if_splits)
  next
    case 5
    then show ?thesis using assms(1) nested by (auto simp: bash_unwrap_def split: if_splits option.splits)
  qed
  ultimately show ?thesis by blast
qed

section \<open>Bash segments\<close>

text \<open>The segments a wrapper runs, one after another.\<close>

definition merge_facts :: "string list \<Rightarrow> bool \<Rightarrow> segment_facts list \<Rightarrow> segment_facts" where
  "merge_facts targets amb inner =
     (targets @ concat (map fst inner), list_ex (\<lambda>x. fst (snd x)) inner, amb \<or> list_ex (\<lambda>x. snd (snd x)) inner)"

function bash_segment_targets :: "string list \<Rightarrow> segment_facts" where
  "bash_segment_targets tokens =
     (if tokens = [] then ([], False, False)
      else (case path_operand_tokens tokens of (redirects, amb) \<Rightarrow>
        (case drop_redirects tokens of
           [] \<Rightarrow> (redirects, False, True)
         | first # rest \<Rightarrow>
             (case bash_unwrap (command_of first) (map strip_token_quotes rest) of
                WrapperEnds doubt \<Rightarrow> (redirects, False, amb \<or> doubt)
              | WrapperRuns segs \<Rightarrow> merge_facts redirects amb (map bash_segment_targets segs)
              | NotAWrapper \<Rightarrow> bash_plain_segment (command_of first) (map strip_token_quotes rest) redirects amb))))"
  by pat_completeness auto
termination
proof (relation "measure weight")
  fix tokens x1 x2 y ys segs s
  assume split: "drop_redirects tokens = y # ys"
    and runs: "bash_unwrap (command_of y) (map strip_token_quotes ys) = WrapperRuns segs" and s: "s \<in> set segs"
  have "heavy y \<noteq> 0" using weightless_token unwrap_lighter [OF runs s] by blast
  moreover have "weight s \<le> weight ys" using unwrap_lighter [OF runs s] weight_strip_tokens [of ys] by linarith
  moreover have "heavy y + weight ys \<le> weight tokens" using weight_drop_redirects [of tokens] split by simp
  ultimately show "(s, tokens) \<in> measure weight" by simp
qed simp

declare bash_segment_targets.simps [simp del]

section \<open>PowerShell segments\<close>

definition POWERSHELL_PATHLESS :: "string list" where
  "POWERSHELL_PATHLESS =
     [''get-process'', ''gps'', ''get-service'', ''gsv'', ''get-ciminstance'', ''get-date'', ''write-output'', ''echo'', ''write-host'']"

definition POWERSHELL_PATH_COMMANDS :: "string list" where
  "POWERSHELL_PATH_COMMANDS =
     [''get-childitem'', ''gci'', ''dir'', ''ls'', ''get-content'', ''gc'', ''cat'', ''type'', ''set-content'', ''sc'',
      ''add-content'', ''ac'', ''out-file'', ''remove-item'', ''ri'', ''rm'', ''del'', ''copy-item'', ''copy'', ''cp'',
      ''move-item'', ''move'', ''mv'', ''new-item'', ''ni'', ''test-path'', ''resolve-path'', ''set-location'', ''sl'', ''cd'',
      ''push-location'', ''pushd'']"

definition POWERSHELL_PATH_SWITCHES :: "string list" where
  "POWERSHELL_PATH_SWITCHES = [''-path'', ''-literalpath'', ''-filepath'', ''-destination'', ''-dest'', ''-source'']"

text \<open>What follows the first switch of that name.\<close>

definition after_switch :: "string \<Rightarrow> string list \<Rightarrow> string list option" where
  "after_switch switch args = (case dropWhile (\<lambda>item. py_casefold item \<noteq> switch) args of [] \<Rightarrow> None | _ # rest \<Rightarrow> Some rest)"

definition first_switch :: "string list \<Rightarrow> string list \<Rightarrow> string list option" where
  "first_switch switches args =
     (case concat (map (\<lambda>s. case after_switch s args of None \<Rightarrow> [] | Some r \<Rightarrow> [r]) switches) of
        [] \<Rightarrow> None | r # _ \<Rightarrow> Some r)"

text \<open>A nested PowerShell: the script it is given, and the segments of its command text.\<close>

definition powershell_unwrap :: "string list \<Rightarrow> string list \<times> unwrapped" where
  "powershell_unwrap args =
     (case first_switch [''-file'', ''-f''] args of
        Some [] \<Rightarrow> ([], WrapperEnds True)
      | Some (file # _) \<Rightarrow> ([file], WrapperEnds False)
      | None \<Rightarrow>
          (case first_switch [''-command'', ''-c''] args of
             None \<Rightarrow> ([], WrapperEnds True)
           | Some [] \<Rightarrow> ([], WrapperEnds True)
           | Some nested \<Rightarrow>
               (case shell_tokens (join_with (CHR '' '') nested) ''powershell'' of
                  None \<Rightarrow> ([], WrapperEnds True)
                | Some tokens \<Rightarrow> ([], WrapperRuns (split_command_segments tokens)))))"

text \<open>The targets of path switches, the positional operands, and whether a switch has no value.\<close>

fun powershell_operands :: "string list \<Rightarrow> string list \<times> string list \<times> bool" where
  "powershell_operands [] = ([], [], False)"
| "powershell_operands (item # rest) =
     (if py_casefold item \<in> set POWERSHELL_PATH_SWITCHES then
        (case rest of
           [] \<Rightarrow> ([], [], True)
         | v # r \<Rightarrow> (case powershell_operands r of (named, positional, stuck) \<Rightarrow> (v # named, positional, stuck)))
      else (case powershell_operands rest of (named, positional, stuck) \<Rightarrow>
        (named, if is_option item then positional else item # positional, stuck)))"

definition powershell_path_segment :: "string \<Rightarrow> string list \<Rightarrow> string list \<Rightarrow> bool \<Rightarrow> segment_facts" where
  "powershell_path_segment command args targets amb =
     (case powershell_operands args of (named, positional, stuck) \<Rightarrow>
        if stuck then (targets @ named, False, True)
        else if positional \<noteq> [] \<or> named \<noteq> [] then (targets @ named @ positional, False, amb)
        else if command \<in> {''get-childitem'', ''gci'', ''dir'', ''ls''} then (targets, True, amb)
        else (targets, False, True))"

lemma weight_first_switch: "first_switch switches args = Some r \<Longrightarrow> weight r \<le> weight args"
proof -
  have step: "weight r \<le> weight args" if s: "after_switch s args = Some r" for s r
  proof -
    have "weight (dropWhile (\<lambda>item. py_casefold item \<noteq> s) args) \<le> weight args" by (rule weight_dropWhile)
    then show ?thesis using s by (auto simp: after_switch_def split: list.splits)
  qed
  let ?found = "concat (map (\<lambda>s. case after_switch s args of None \<Rightarrow> [] | Some r \<Rightarrow> [r]) switches)"
  assume "first_switch switches args = Some r"
  then have "r \<in> set ?found" unfolding first_switch_def by (cases ?found) (simp_all del: set_concat)
  then show ?thesis using step by (auto split: option.splits)
qed

lemma heavy_join: "heavy (join_with (CHR '' '') ts) = weight ts"
  by (induction "CHR '' ''" ts rule: join_with.induct) auto

lemma powershell_unwrap_lighter:
  assumes "powershell_unwrap args = (found, WrapperRuns segs)" and "s \<in> set segs"
  shows "weight s \<le> weight args"
proof -
  obtain nested ts where n: "first_switch [''-command'', ''-c''] args = Some nested"
      "shell_tokens (join_with (CHR '' '') nested) ''powershell'' = Some ts" "segs = split_command_segments ts"
    using assms(1) by (auto simp: powershell_unwrap_def split: option.splits list.splits)
  have "weight s \<le> weight ts" using assms(2) n(3) weight_split_segments [of s "[]" ts] by (simp add: split_command_segments_def)
  also have "\<dots> \<le> weight nested" using shell_tokens_weight [OF n(2)] by (simp add: heavy_join)
  also have "\<dots> \<le> weight args" by (rule weight_first_switch [OF n(1)])
  finally show ?thesis .
qed

definition POWERSHELL_WRAPPERS :: "string list" where
  "POWERSHELL_WRAPPERS = [''powershell'', ''powershell.exe'', ''pwsh'', ''pwsh.exe'']"

function powershell_segment_targets :: "string list \<Rightarrow> segment_facts" where
  "powershell_segment_targets tokens =
     (if tokens = [] then ([], False, False)
      else (case path_operand_tokens tokens of (redirects, amb) \<Rightarrow>
        (case drop_redirects tokens of
           [] \<Rightarrow> (redirects, False, True)
         | first # rest \<Rightarrow>
             (let command = command_of first; args = map strip_token_quotes rest in
              if command \<in> set POWERSHELL_PATHLESS then (redirects, False, amb)
              else if command \<in> set POWERSHELL_WRAPPERS then
                (case powershell_unwrap args of (found, inside) \<Rightarrow>
                  (case inside of
                     WrapperRuns segs \<Rightarrow> merge_facts redirects amb (map powershell_segment_targets segs)
                   | WrapperEnds doubt \<Rightarrow> (redirects @ found, False, amb \<or> doubt)
                   | NotAWrapper \<Rightarrow> (redirects, False, True)))
              else if command \<in> set POWERSHELL_PATH_COMMANDS then powershell_path_segment command args redirects amb
              else if command \<in> {''git'', ''pytest'', ''py.test'', ''python'', ''python3'', ''py'', ''dotnet''} then
                bash_segment_targets (strip_token_quotes first # args)
              else (redirects, False, True)))))"
  by pat_completeness auto
termination
proof (relation "measure weight", simp, goal_cases)
  case (1 tokens redirects amb first rest command args found inside segs s)
  have s: "weight s \<le> weight args" by (rule powershell_unwrap_lighter [of args found segs]) (use 1 in simp_all)
  have "command_of first \<noteq> []" using 1 by (auto simp: POWERSHELL_WRAPPERS_def)
  then have "heavy first \<noteq> 0" using weightless_token by blast
  moreover have "weight args \<le> weight rest" using 1 weight_strip_tokens [of rest] by simp
  moreover have "heavy first + weight rest \<le> weight tokens" using weight_drop_redirects [of tokens] 1 by simp
  ultimately show ?case using s by simp
qed

declare powershell_segment_targets.simps [simp del]

end
