(* ===== verification/CommandExtraction.thy ===== *)
theory CommandExtraction
  imports CommandSegments
begin

text \<open>
  \<open>extract_command_paths\<close> of \<open>jack_path_policy.py\<close>: the represented targets of one command tool
  call, whether the executor's directory is in its scope, and whether its meaning exceeds the
  bounded contract. The targets keep their first spelling and are compared by case folding.
\<close>

section \<open>Definitions\<close>

record command_extraction =
  ce_applicable :: bool
  ce_dialect :: "string option"
  ce_targets :: "string list"
  ce_uses_executor_cwd :: bool
  ce_ambiguous :: bool
  ce_error :: "string option"

definition command_refused :: "string \<Rightarrow> bool \<Rightarrow> string \<Rightarrow> command_extraction" where
  "command_refused dialect amb m =
     \<lparr>ce_applicable = True, ce_dialect = Some dialect, ce_targets = [], ce_uses_executor_cwd = False,
      ce_ambiguous = amb, ce_error = Some m\<rparr>"

definition segment_targets :: "string \<Rightarrow> string list \<Rightarrow> segment_facts" where
  "segment_targets dialect segment =
     (if dialect = ''bash'' then bash_segment_targets segment else powershell_segment_targets segment)"

text \<open>The loop over the segments; a change of directory before another segment is a doubt.\<close>

fun all_segment_targets :: "string \<Rightarrow> string list list \<Rightarrow> segment_facts" where
  "all_segment_targets dialect [] = ([], False, False)"
| "all_segment_targets dialect (segment # rest) =
     (case segment_targets dialect segment of (found, cwd, amb) \<Rightarrow>
      case all_segment_targets dialect rest of (found', cwd', amb') \<Rightarrow>
        (found @ found', cwd \<or> cwd', amb \<or> rest \<noteq> [] \<and> segment_changes_cwd segment dialect \<or> amb'))"

text \<open>The loop that drops dynamic targets and repeated ones.\<close>

fun keep_static_targets :: "env option \<Rightarrow> string \<Rightarrow> string list \<Rightarrow> string list \<Rightarrow> string list \<times> bool" where
  "keep_static_targets environment dialect seen [] = ([], False)"
| "keep_static_targets environment dialect seen (target # rest) =
     (if has_unresolved_dynamic_shell_syntax target dialect environment then
        (fst (keep_static_targets environment dialect seen rest), True)
      else if py_casefold target \<in> set seen then keep_static_targets environment dialect seen rest
      else (case keep_static_targets environment dialect (py_casefold target # seen) rest of
          (kept, amb) \<Rightarrow> (target # kept, amb)))"

definition extract_from_tokens :: "env option \<Rightarrow> string \<Rightarrow> bool \<Rightarrow> string list \<Rightarrow> command_extraction" where
  "extract_from_tokens environment dialect dynamic tokens =
     (case all_segment_targets dialect (split_command_segments tokens) of (found, cwd, amb) \<Rightarrow>
      case keep_static_targets environment dialect [] found of (kept, dropped) \<Rightarrow>
        (let doubt = dynamic \<or> list_ex (\<lambda>token. token_has_unresolved_command_expression token dialect) tokens \<or> amb \<or> dropped in
         \<lparr>ce_applicable = True, ce_dialect = Some dialect, ce_targets = kept, ce_uses_executor_cwd = cwd,
          ce_ambiguous = doubt,
          ce_error = (if doubt then Some ''command semantics exceed the bounded Phase-4 contract'' else None)\<rparr>))"

definition extract_command_paths ::
    "(string \<Rightarrow> pyval option) \<Rightarrow> pyval \<Rightarrow> pyval \<Rightarrow> pyval \<Rightarrow> env option \<Rightarrow> command_extraction" where
  "extract_command_paths loads tool_name arguments command_dialect environment =
     (case command_dialect_for_tool tool_name command_dialect of
        None \<Rightarrow> \<lparr>ce_applicable = False, ce_dialect = None, ce_targets = [], ce_uses_executor_cwd = False,
                 ce_ambiguous = False, ce_error = None\<rparr>
      | Some dialect \<Rightarrow>
          (case command_text_from_arguments loads arguments of
             Inl m \<Rightarrow> command_refused dialect False m
           | Inr command \<Rightarrow>
               if command = [] then command_refused dialect False ''command text must not be empty''
               else (case shell_tokens command dialect of
                   None \<Rightarrow> command_refused dialect True ''command could not be tokenized under the bounded Phase-4 contract''
                 | Some tokens \<Rightarrow>
                     extract_from_tokens environment dialect
                       (has_unresolved_dynamic_shell_syntax command dialect environment
                        \<or> CHR 0x0A \<in> set command \<or> CHR 0x0D \<in> set command) tokens)))"

section \<open>What the extraction keeps\<close>

lemma keep_static_sound:
  "keep_static_targets environment dialect seen ts = (kept, dropped) \<Longrightarrow>
     set kept \<subseteq> {t \<in> set ts. \<not> has_unresolved_dynamic_shell_syntax t dialect environment}
     \<and> distinct (map py_casefold kept) \<and> (\<forall>t \<in> set kept. py_casefold t \<notin> set seen)"
proof (induction environment dialect seen ts arbitrary: kept dropped rule: keep_static_targets.induct)
  case (2 environment dialect seen target rest)
  obtain k d where k: "keep_static_targets environment dialect seen rest = (k, d)" by fastforce
  obtain k' d' where k': "keep_static_targets environment dialect (py_casefold target # seen) rest = (k', d')" by fastforce
  consider "has_unresolved_dynamic_shell_syntax target dialect environment"
    | "\<not> has_unresolved_dynamic_shell_syntax target dialect environment" "py_casefold target \<in> set seen"
    | "\<not> has_unresolved_dynamic_shell_syntax target dialect environment" "py_casefold target \<notin> set seen" by blast
  then show ?case
  proof cases
    case 1
    then have "kept = k" using 2(4) k by simp
    then show ?thesis using 2(1) [OF 1 k] by auto
  next
    case 2
    then have "kept = k" using "2.prems" k by simp
    then show ?thesis using "2.IH"(2) [OF 2 k] by auto
  next
    case 3
    then have "kept = target # k'" using "2.prems" k' by simp
    then show ?thesis using "2.IH"(3) [OF 3 k'] 3 by auto
  qed
qed simp

lemma keep_static_complete:
  "keep_static_targets environment dialect seen ts = (kept, False) \<Longrightarrow> t \<in> set ts \<Longrightarrow>
     py_casefold t \<in> set seen \<or> (\<exists>u \<in> set kept. py_casefold u = py_casefold t)"
proof (induction environment dialect seen ts arbitrary: kept rule: keep_static_targets.induct)
  case (2 environment dialect seen target rest)
  obtain k d where k: "keep_static_targets environment dialect seen rest = (k, d)" by fastforce
  obtain k' d' where k': "keep_static_targets environment dialect (py_casefold target # seen) rest = (k', d')" by fastforce
  show ?case using 2 k k' by (auto split: if_splits)
qed simp

lemma all_segment_targets_Cons:
  assumes "all_segment_targets dialect segments = (found, cwd, False)" and "segment \<in> set segments"
  obtains f c where "segment_targets dialect segment = (f, c, False)" "set f \<subseteq> set found" "c \<longrightarrow> cwd"
  using assms
proof (induction segments arbitrary: found cwd thesis)
  case (Cons s rest)
  obtain f c a where s: "segment_targets dialect s = (f, c, a)" by (metis prod_cases3)
  obtain f' c' a' where r: "all_segment_targets dialect rest = (f', c', a')" by (metis prod_cases3)
  have e: "found = f @ f'" "cwd = (c \<or> c')" "\<not> a" "\<not> a'" using Cons.prems(2) s r by auto
  show ?case
  proof (cases "segment = s")
    case True
    then show ?thesis using Cons.prems(1) s e by simp
  next
    case False
    then have "segment \<in> set rest" using Cons.prems(3) by simp
    moreover have "all_segment_targets dialect rest = (f', c', False)" using r e(4) by simp
    ultimately obtain g b where "segment_targets dialect segment = (g, b, False)" "set g \<subseteq> set f'" "b \<longrightarrow> c'"
      using Cons.IH by metis
    then show ?thesis using Cons.prems(1) e by auto
  qed
qed simp

lemma all_segments_cwd:
  "all_segment_targets dialect segments = (found, cwd, False) \<Longrightarrow> \<forall>s \<in> set (butlast segments). \<not> segment_changes_cwd s dialect"
proof (induction segments arbitrary: found cwd)
  case (Cons s rest)
  obtain f' c' a' where r: "all_segment_targets dialect rest = (f', c', a')" by (metis prod_cases3)
  then have "\<not> a'" "rest \<noteq> [] \<longrightarrow> \<not> segment_changes_cwd s dialect" using Cons.prems by (auto split: prod.splits)
  then show ?case using Cons.IH r by auto
qed simp

end
