(* ===== verification/CommandAuthority.thy ===== *)
theory CommandAuthority
  imports CommandExtraction ResourceGuard JsonText
begin

text \<open>
  The authorisation of tool calls in \<open>jack_path_policy.py\<close>: the narrow exemption for reading the
  Windows tree, the command path (\<open>authorize_command_tool_call\<close>), the structured path
  (\<open>authorize_structured_tool_call\<close>), their dispatch (\<open>authorize_executor_tool_call\<close>) and the
  rewriting of a structured call before it is released under a workspace lock.

  \<open>json.loads\<close> is the parameter \<open>loads\<close>. \<open>inspect\<close> is the credential guard that the exemption
  imports when it runs: \<open>Inl\<close> stands for an exception, a failed import included.
\<close>

section \<open>Reading the Windows tree\<close>

type_synonym resource_inspection = "string \<Rightarrow> string + resource_fact option"

definition SAFE_DEFAULT_READ_STRUCTURED :: "string list" where
  "SAFE_DEFAULT_READ_STRUCTURED = [''read'', ''ls'']"

definition SAFE_DEFAULT_READ_BASH :: "string list" where
  "SAFE_DEFAULT_READ_BASH = [''cat'', ''head'', ''tail'', ''ls'']"

definition SAFE_DEFAULT_READ_POWERSHELL :: "string list" where
  "SAFE_DEFAULT_READ_POWERSHELL =
     [''get-content'', ''gc'', ''cat'', ''type'', ''get-childitem'', ''gci'', ''dir'', ''ls'', ''test-path'']"

definition SAFE_DEFAULT_READ_FLAGS_BASH :: "string list" where
  "SAFE_DEFAULT_READ_FLAGS_BASH = [''--'', ''-n'', ''-b'', ''-A'', ''-a'', ''-l'', ''-la'', ''-al'', ''-h'', ''-1'']"

definition SAFE_DEFAULT_READ_FLAGS_POWERSHELL :: "string list" where
  "SAFE_DEFAULT_READ_FLAGS_POWERSHELL = [''-path'', ''-literalpath'', ''-filepath'', ''-encoding'', ''-force'', ''-name'']"

text \<open>\<open>call["function"]\<close> when the call and its function are objects.\<close>

definition call_function :: "pyval \<Rightarrow> pydict option" where
  "call_function call = (case call of
       PDict d \<Rightarrow> (case dict_get d ''function'' of PDict f \<Rightarrow> Some f | _ \<Rightarrow> None)
     | _ \<Rightarrow> None)"

definition safe_read_tokens :: "string \<Rightarrow> string list \<Rightarrow> bool" where
  "safe_read_tokens dialect tokens =
     (case tokens of
        [] \<Rightarrow> False
      | first # rest \<Rightarrow>
          length (split_command_segments tokens) = 1
          \<and> \<not> list_ex (\<lambda>t. t \<in> set COMMAND_CONTROL \<or> t \<in> set REDIRECT_OPS \<or> starts_with ''<<'' t) tokens
          \<and> (if dialect = ''bash'' then
               command_of first \<in> set SAFE_DEFAULT_READ_BASH
               \<and> list_all (\<lambda>t. is_option t \<longrightarrow> t \<in> set SAFE_DEFAULT_READ_FLAGS_BASH) rest
             else if dialect = ''powershell'' then
               command_of first \<in> set SAFE_DEFAULT_READ_POWERSHELL
               \<and> list_all (\<lambda>t. is_option t \<longrightarrow> py_casefold t \<in> set SAFE_DEFAULT_READ_FLAGS_POWERSHELL) rest
             else False))"

definition safe_default_read_command ::
    "(string \<Rightarrow> pyval option) \<Rightarrow> pyval \<Rightarrow> command_extraction \<Rightarrow> bool" where
  "safe_default_read_command loads call extraction =
     (if ce_ambiguous extraction \<or> ce_error extraction \<notin> {None, Some []} \<or> ce_targets extraction = [] then False
      else case call_function call of
          None \<Rightarrow> False
        | Some f \<Rightarrow>
            (case command_text_from_arguments loads (dict_get f ''arguments'') of
               Inl _ \<Rightarrow> False
             | Inr command \<Rightarrow>
                 (let dialect = (case ce_dialect extraction of None \<Rightarrow> [] | Some d \<Rightarrow> d) in
                  command \<noteq> [] \<and> (case shell_tokens command dialect of None \<Rightarrow> False | Some ts \<Rightarrow> safe_read_tokens dialect ts))))"

definition deny_and_continue :: "string \<Rightarrow> string option \<Rightarrow> path_decision" where
  "deny_and_continue m target = \<lparr>pd_outcome = PathDeny, pd_reason = m, pd_canonical_target = target\<rparr>"

definition allow_because :: "string \<Rightarrow> string option \<Rightarrow> path_decision" where
  "allow_because m target = \<lparr>pd_outcome = PathAllow, pd_reason = m, pd_canonical_target = target\<rparr>"

definition SENSITIVE_SUFFIXES :: "string list" where
  "SENSITIVE_SUFFIXES = map to_bslash
     [''System32/config'', ''System32/Microsoft/Protect'', ''System32/winevt/Logs'', ''System32/GroupPolicy'', ''System32/Tasks'', ''Panther'']"

text \<open>The verdict on a target inside the Windows tree.\<close>

definition windows_read_verdict ::
    "resource_inspection \<Rightarrow> path_facts \<Rightarrow> string \<Rightarrow> string \<Rightarrow> path_error + path_decision" where
  "windows_read_verdict inspect facts target canonical_system =
     (if pf_workspace_configured facts \<and> pf_inside_workspace facts \<noteq> Some True then
        Inr (deny_and_continue ''read-only system inspection lies outside the configured workspace'' (Some target))
      else try_bind (try_any (\<lambda>suffix. path_is_within_or_equal target (normcase (normpath (nt_join canonical_system suffix)))) SENSITIVE_SUFFIXES) (\<lambda>sensitive.
        if sensitive then
          Inr (deny_and_continue ''sensitive Windows resource is not eligible for read-only inspection'' (Some target))
        else (case inspect target of
            Inl _ \<Rightarrow> Inr (deny_and_continue ''credential resource inspection could not be confirmed safe'' (Some target))
          | Inr resource \<Rightarrow>
              if (case resource of None \<Rightarrow> False | Some r \<Rightarrow> rf_protected r) then
                Inr (deny_and_continue ''read-only inspection of protected credential resource is denied'' (Some target))
              else Inr (allow_because ''verified read-only capability targets ordinary Windows system metadata'' (Some target)))))"

text \<open>\<open>_safe_default_windows_read\<close>: \<open>None\<close> leaves the path policy as it is.\<close>

definition safe_default_windows_read ::
    "resource_inspection \<Rightarrow> runtime_path_policy \<Rightarrow> string \<Rightarrow> string option \<Rightarrow> bool
       \<Rightarrow> path_error + path_decision option" where
  "safe_default_windows_read inspect p represented_target executor_cwd defer =
     try_bind (inspect_represented_path p (PStr represented_target) executor_cwd defer) (\<lambda>facts.
       (let target = (case pf_canonical_target facts of None \<Rightarrow> [] | Some t \<Rightarrow> t);
            e = rp_path_environment p;
            system_root = (if env_get e ''systemroot'' \<noteq> [] then env_get e ''systemroot'' else env_get e ''windir'') in
        if \<not> pf_never_match facts \<or> \<not> pf_deterministic facts \<or> target = [] \<or> system_root = [] then Inr None
        else (case normalize_represented_windows_path (PStr system_root) None (policy_env p) of
            Inl (PathValueError m) \<Rightarrow> Inl (PathValueError m)
          | Inl _ \<Rightarrow> Inr None
          | Inr canonical_system \<Rightarrow>
              try_bind (path_is_within_or_equal target canonical_system) (\<lambda>inside.
              if \<not> inside then Inr None
              else try_bind (default_windows_never_roots e) (\<lambda>default_roots.
                try_bind (try_any (path_is_within_or_equal target) (filter (\<lambda>root. root \<notin> set default_roots) (rp_never_roots p))) (\<lambda>user_never.
                if user_never then Inr None
                else try_bind (windows_read_verdict inspect facts target canonical_system) (\<lambda>d. Inr (Some d))))))))"

text \<open>\<open>read_exception or authorize_represented_path(...)\<close>.\<close>

definition read_or_authorize ::
    "resource_inspection \<Rightarrow> bool \<Rightarrow> runtime_path_policy \<Rightarrow> string \<Rightarrow> string option \<Rightarrow> bool
       \<Rightarrow> path_error + path_decision" where
  "read_or_authorize inspect eligible p target executor_cwd defer =
     try_bind (if eligible then safe_default_windows_read inspect p target executor_cwd defer else Inr None) (\<lambda>exception.
       case exception of
         Some d \<Rightarrow> Inr d
       | None \<Rightarrow> authorize_represented_path p (PStr target) executor_cwd defer)"

section \<open>Command tool calls\<close>

text \<open>The executor's directory: a decision that ends the call, or the canonical directory.\<close>

definition command_cwd ::
    "runtime_path_policy \<Rightarrow> bool \<Rightarrow> string option \<Rightarrow> path_error + (path_decision + string option)" where
  "command_cwd p uses_executor_cwd executor_cwd =
     (case executor_cwd of
        None \<Rightarrow>
          Inr (if uses_executor_cwd \<and> workspace_enabled p then
                 Inl (deny_and_continue ''Workspace Lock requires the executor's actual cwd for this filesystem consequence'' None)
               else Inr None)
      | Some cwd \<Rightarrow>
          if uses_executor_cwd then
            try_bind (authorize_represented_path p (PStr cwd) None False) (\<lambda>d.
              Inr (if pd_outcome d \<noteq> PathAllow then Inl d else Inr (pd_canonical_target d)))
          else (case normalize_represented_windows_path (PStr cwd) None (policy_env p) of
              Inl (PathValueError m) \<Rightarrow> Inl (PathValueError m)
            | Inl _ \<Rightarrow> Inr (Inr None)
            | Inr c \<Rightarrow> Inr (Inr (Some c))))"

text \<open>The loop over the targets: the decision that ends it, if one does.\<close>

fun authorize_command_targets ::
    "resource_inspection \<Rightarrow> runtime_path_policy \<Rightarrow> bool \<Rightarrow> string \<Rightarrow> pyval \<Rightarrow> string option \<Rightarrow> string list
       \<Rightarrow> path_error + path_decision option" where
  "authorize_command_targets inspect p eligible dialect executor_platform cwd [] = Inr None"
| "authorize_command_targets inspect p eligible dialect executor_platform cwd (target # rest) =
     (case prepare_command_target (rp_path_environment p) target dialect executor_platform of
        Inl (NonFilesystemTarget m) \<Rightarrow> authorize_command_targets inspect p eligible dialect executor_platform cwd rest
      | Inl (PrepareFailed (PathInvalid m)) \<Rightarrow> Inl (PathInvalid m)
      | Inl (PrepareFailed (PathValueError m)) \<Rightarrow> Inl (PathValueError m)
      | Inl (PrepareFailed _) \<Rightarrow>
          if workspace_enabled p then
            Inr (Some (deny_and_continue ''Workspace Lock requires filesystem command targets to be deterministic'' None))
          else authorize_command_targets inspect p eligible dialect executor_platform cwd rest
      | Inr prepared \<Rightarrow>
          try_bind (read_or_authorize inspect eligible p prepared cwd False) (\<lambda>d.
            if pd_outcome d \<noteq> PathAllow then Inr (Some d)
            else authorize_command_targets inspect p eligible dialect executor_platform cwd rest))"

definition command_verdict :: "runtime_path_policy \<Rightarrow> command_extraction \<Rightarrow> path_decision" where
  "command_verdict p extraction =
     (if ce_ambiguous extraction \<or> ce_error extraction \<notin> {None, Some []} then
        (if workspace_enabled p then
           deny_and_continue ''Workspace Lock requires command semantics to fit the bounded host-owned contract'' None
         else allow_because ''no workspace lock; ambiguous command semantics do not invent a new restriction'' None)
      else allow_because ''command represented targets are authorized by Phase-4 path policy'' None)"

definition authorize_extraction ::
    "(string \<Rightarrow> pyval option) \<Rightarrow> resource_inspection \<Rightarrow> runtime_path_policy \<Rightarrow> pyval \<Rightarrow> string option \<Rightarrow> pyval
       \<Rightarrow> command_extraction \<Rightarrow> path_error + path_decision" where
  "authorize_extraction loads inspect p call executor_cwd executor_platform extraction =
     try_bind (command_cwd p (ce_uses_executor_cwd extraction) executor_cwd) (\<lambda>cwd.
       case cwd of
         Inl d \<Rightarrow> Inr d
       | Inr canonical_cwd \<Rightarrow>
           try_bind (authorize_command_targets inspect p (safe_default_read_command loads call extraction)
               (case ce_dialect extraction of None \<Rightarrow> [] | Some d \<Rightarrow> d) executor_platform canonical_cwd (ce_targets extraction)) (\<lambda>stop.
             Inr (case stop of Some d \<Rightarrow> d | None \<Rightarrow> command_verdict p extraction)))"

definition authorize_command_tool_call ::
    "(string \<Rightarrow> pyval option) \<Rightarrow> resource_inspection \<Rightarrow> runtime_path_policy \<Rightarrow> pyval \<Rightarrow> string option \<Rightarrow> pyval \<Rightarrow> pyval
       \<Rightarrow> path_error + path_decision" where
  "authorize_command_tool_call loads inspect p call executor_cwd command_dialect executor_platform =
     (case call_function call of
        None \<Rightarrow> Inr (allow_because ''no command capability was identified'' None)
      | Some f \<Rightarrow>
          (let extraction = extract_command_paths loads (dict_get f ''name'') (dict_get f ''arguments'') command_dialect
                 (Some (rp_path_environment p)) in
           if \<not> ce_applicable extraction then Inr (allow_because ''no host-owned command contract applies'' None)
           else authorize_extraction loads inspect p call executor_cwd executor_platform extraction))"

section \<open>Structured tool calls\<close>

text \<open>The loop over the structured targets: the decision that ends it, if one does.\<close>

fun authorize_structured_targets ::
    "resource_inspection \<Rightarrow> runtime_path_policy \<Rightarrow> bool \<Rightarrow> string option \<Rightarrow> bool \<Rightarrow> string list
       \<Rightarrow> path_error + path_decision option" where
  "authorize_structured_targets inspect p eligible executor_cwd defer [] = Inr None"
| "authorize_structured_targets inspect p eligible executor_cwd defer (target # rest) =
     try_bind (read_or_authorize inspect eligible p target executor_cwd defer) (\<lambda>d.
       case pd_outcome d of
         PathHardInterrupt \<Rightarrow>
           Inr (Some \<lparr>pd_outcome = PathHardInterrupt, pd_reason = ''structured tool target positively matches a NEVER root'',
                      pd_canonical_target = pd_canonical_target d\<rparr>)
       | PathDeny \<Rightarrow> Inr (Some (deny_and_continue ''structured tool target is not authorized by Workspace Lock'' (pd_canonical_target d)))
       | PathAllow \<Rightarrow>
           if pd_canonical_target d = None \<and> contains_sub ''executor cwd'' (pd_reason d) then Inr (Some d)
           else authorize_structured_targets inspect p eligible executor_cwd defer rest)"

text \<open>The executor's directory of a tool that searches it: the decision that ends the call, if one does.\<close>

definition structured_cwd ::
    "resource_inspection \<Rightarrow> runtime_path_policy \<Rightarrow> bool \<Rightarrow> bool \<Rightarrow> string option \<Rightarrow> bool
       \<Rightarrow> path_error + path_decision option" where
  "structured_cwd inspect p uses_executor_cwd eligible executor_cwd defer =
     (if \<not> uses_executor_cwd then Inr None
      else (case executor_cwd of
          None \<Rightarrow>
            Inr (Some (if defer then allow_because ''executor cwd admission is required before execution'' None
                       else deny_and_continue ''executor cwd is required for this structured filesystem tool'' None))
        | Some cwd \<Rightarrow>
            try_bind (read_or_authorize inspect eligible p cwd None False) (\<lambda>d.
              Inr (if pd_outcome d \<noteq> PathAllow then Some d else None))))"

definition authorize_structured_tool_call ::
    "(string \<Rightarrow> pyval option) \<Rightarrow> resource_inspection \<Rightarrow> runtime_path_policy \<Rightarrow> pyval \<Rightarrow> string option \<Rightarrow> bool
       \<Rightarrow> path_error + path_decision" where
  "authorize_structured_tool_call loads inspect p call executor_cwd defer =
     (case call_function call of
        None \<Rightarrow> Inr (allow_because ''no structured filesystem call was identified'' None)
      | Some f \<Rightarrow>
          (let extraction = extract_structured_tool_paths loads (dict_get f ''name'') (dict_get f ''arguments'');
               eligible = folded_name (dict_get f ''name'') \<in> set SAFE_DEFAULT_READ_STRUCTURED in
           if \<not> se_applicable extraction then Inr (allow_because ''no host-owned structured path contract applies'' None)
           else (case se_error extraction of
               Some m \<Rightarrow> Inr (deny_and_continue m None)
             | None \<Rightarrow>
                 try_bind (structured_cwd inspect p (se_uses_executor_cwd extraction) eligible executor_cwd defer) (\<lambda>stop.
                 case stop of
                   Some d \<Rightarrow> Inr d
                 | None \<Rightarrow>
                     try_bind (authorize_structured_targets inspect p eligible executor_cwd defer (se_targets extraction)) (\<lambda>stop.
                       Inr (case stop of
                           Some d \<Rightarrow> d
                         | None \<Rightarrow> allow_because ''all represented structured-tool targets are authorized'' None))))))"

section \<open>Executor calls\<close>

text \<open>An \<open>AttributeError\<close> of the call's own shape, or an error of the path policy.\<close>

datatype call_error = CallAttributeError | CallPathError path_error

text \<open>\<open>(call.get("function") or {}).get(key) if isinstance(call, dict) else None\<close>.\<close>

definition call_part :: "pyval \<Rightarrow> string \<Rightarrow> call_error + pyval" where
  "call_part call key = (case call of
       PDict d \<Rightarrow>
         (let f = dict_get d ''function'' in
          if \<not> truthy f then Inr PNone
          else (case f of PDict fd \<Rightarrow> Inr (dict_get fd key) | _ \<Rightarrow> Inl CallAttributeError))
     | _ \<Rightarrow> Inr PNone)"

definition under_contract :: "path_error + path_decision \<Rightarrow> call_error + (path_decision \<times> bool)" where
  "under_contract x = (case x of Inl e \<Rightarrow> Inl (CallPathError e) | Inr d \<Rightarrow> Inr (d, True))"

definition authorize_executor_tool_call ::
    "(string \<Rightarrow> pyval option) \<Rightarrow> resource_inspection \<Rightarrow> runtime_path_policy \<Rightarrow> pyval \<Rightarrow> string option \<Rightarrow> pyval \<Rightarrow> pyval
       \<Rightarrow> call_error + (path_decision \<times> bool)" where
  "authorize_executor_tool_call loads inspect p call executor_cwd command_dialect executor_platform =
     try_bind (call_part call ''name'') (\<lambda>name.
     try_bind (call_part call ''arguments'') (\<lambda>arguments.
       if se_applicable (extract_structured_tool_paths loads name arguments) then
         under_contract (authorize_structured_tool_call loads inspect p call executor_cwd False)
       else if ce_applicable (extract_command_paths loads name arguments command_dialect (Some (rp_path_environment p))) then
         under_contract (authorize_command_tool_call loads inspect p call executor_cwd command_dialect executor_platform)
       else Inr (allow_because ''no host-owned Phase-4 executor contract applies'' None, False)))"

section \<open>Release under a workspace lock\<close>

text \<open>The loop that makes the path fields absolute: the new arguments and whether it saw one.\<close>

fun canonical_fields ::
    "runtime_path_policy \<Rightarrow> string list \<Rightarrow> bool \<Rightarrow> pydict \<Rightarrow> path_error + (pydict \<times> bool)" where
  "canonical_fields p [] saw d = Inr (d, saw)"
| "canonical_fields p (field # rest) saw d =
     (case dict_get d field of
        PStr value \<Rightarrow>
          if py_strip value = [] then canonical_fields p rest saw d
          else try_bind (normalize_represented_windows_path (PStr value) (rp_workspace_root p) (policy_env p)) (\<lambda>c.
            canonical_fields p rest True (dict_set d field (PStr c)))
      | _ \<Rightarrow> canonical_fields p rest saw d)"

definition release_arguments :: "runtime_path_policy \<Rightarrow> string \<Rightarrow> path_contract \<Rightarrow> pydict \<Rightarrow> path_error + pydict" where
  "release_arguments p workspace contract d =
     try_bind (canonical_fields p (pc_path_fields contract) False d) (\<lambda>(d', saw).
       Inr (if \<not> saw \<and> pc_default_to_executor_cwd contract
            then dict_set d' (hd (pc_path_fields contract)) (PStr workspace) else d'))"

text \<open>\<open>json.loads(json.dumps(call))\<close> copies the call, which is a tree here; the new arguments are the
  text that \<open>json.dumps\<close> writes with compact separators.\<close>

definition rewrite_structured_tool_call_for_workspace_release ::
    "(string \<Rightarrow> pyval option) \<Rightarrow> runtime_path_policy \<Rightarrow> pyval \<Rightarrow> path_error + pyval" where
  "rewrite_structured_tool_call_for_workspace_release loads p call =
     (case call of
        PDict d \<Rightarrow>
          (case dict_get d ''function'' of
             PDict f \<Rightarrow>
               (case (structured_tool_path_contract (dict_get f ''name''), rp_workspace_root p,
                      parsed_arguments loads [] [] (dict_get f ''arguments'')) of
                  (Some contract, Some workspace, Inr arguments) \<Rightarrow>
                    try_bind (release_arguments p workspace contract arguments) (\<lambda>arguments'.
                      Inr (PDict (dict_set d ''function'' (PDict (dict_set f ''arguments'' (PStr (json_text (PDict arguments'))))))))
                | _ \<Rightarrow> Inr call)
           | _ \<Rightarrow> Inr call)
      | _ \<Rightarrow> Inr (PDict []))"

end
