(* ===== verification/ToolRelease.thy ===== *)
theory ToolRelease
  imports CommandAuthority ConsequenceGate
begin

text \<open>
  The boundary of \<open>jack_kernel.py\<close> where a stage's tool calls are released: the partition of a
  batch by the path policy, what the stage does with it, the executor's facts that a transport
  may bring, and the admission of an executor that asks before it runs a released call.

  \<open>loads\<close> is \<open>json.loads\<close>, \<open>inspect\<close> the credential guard the read exemption imports.
\<close>

section \<open>Errors and executor facts\<close>

datatype kernel_error =
    HttpError nat string
  | RestrictedPathInterrupt
  | KernelCallError call_error
  | KernelRuntimeError string

record executor_context =
  ec_protocol_version :: int
  ec_runtime_id :: string
  ec_lane_id :: string
  ec_cwd :: string
  ec_platform :: string
  ec_adapter :: string
  ec_command_dialect :: "string option"

text \<open>\<open>_phase4_executor_context_from_request\<close>: the headers, by the code's own keys; \<open>None\<close> when the
  request has no headers at all.\<close>

definition CONTEXT_REQUIRED_KEYS :: "string list" where
  "CONTEXT_REQUIRED_KEYS = [''version'', ''runtime_id'', ''lane_id'', ''cwd'', ''platform'', ''adapter'']"

definition header_value :: "(string \<times> string) list \<Rightarrow> string \<Rightarrow> string" where
  "header_value headers key = (case map_of headers key of None \<Rightarrow> [] | Some v \<Rightarrow> py_strip v)"

definition executor_context_from_request ::
    "string \<Rightarrow> string \<Rightarrow> (string \<times> string) list option \<Rightarrow> kernel_error + executor_context option" where
  "executor_context_from_request runtime_id lane_id headers =
     (case headers of
        None \<Rightarrow> Inr None
      | Some hs \<Rightarrow>
          (let v = header_value hs; dialect = py_casefold (v ''command_dialect'') in
           if list_all (\<lambda>k. v k = []) CONTEXT_REQUIRED_KEYS \<and> v ''command_dialect'' = [] then Inr None
           else if list_ex (\<lambda>k. v k = []) CONTEXT_REQUIRED_KEYS then
             Inl (HttpError 400 ''Incomplete Phase-4 executor transport context'')
           else if dialect \<notin> {[], ''bash'', ''powershell''} then
             Inl (HttpError 400 ''Unsupported Phase-4 executor transport command dialect'')
           else (case parse_int (v ''version'') of
               None \<Rightarrow> Inl (HttpError 400 ''Invalid Phase-4 executor transport protocol version'')
             | Some n \<Rightarrow>
                 if n \<noteq> PHASE4_EXECUTOR_ADMISSION_PROTOCOL_VERSION then
                   Inl (HttpError 400 ''Unsupported Phase-4 executor transport protocol version'')
                 else if v ''runtime_id'' \<noteq> runtime_id then
                   Inl (HttpError 409 ''Phase-4 executor transport runtime identity mismatch'')
                 else if v ''lane_id'' \<noteq> lane_id then
                   Inl (HttpError 409 ''Phase-4 executor transport lane identity mismatch'')
                 else Inr (Some \<lparr>ec_protocol_version = n, ec_runtime_id = runtime_id, ec_lane_id = lane_id,
                     ec_cwd = v ''cwd'', ec_platform = py_casefold (v ''platform''), ec_adapter = v ''adapter'',
                     ec_command_dialect = (if dialect = [] then None else Some dialect)\<rparr>))))"

section \<open>The partition of a batch\<close>

definition opt_str :: "string option \<Rightarrow> pyval" where
  "opt_str x = (case x of None \<Rightarrow> PNone | Some s \<Rightarrow> PStr s)"

definition is_dict :: "pyval \<Rightarrow> bool" where
  "is_dict v = (case v of PDict _ \<Rightarrow> True | _ \<Rightarrow> False)"

definition call_tool_name :: "pyval \<Rightarrow> string" where
  "call_tool_name call = (case call_function call of None \<Rightarrow> [] | Some f \<Rightarrow> py_strip (str_or_empty (dict_get f ''name'')))"

definition call_arguments :: "pyval \<Rightarrow> pyval" where
  "call_arguments call = (case call_function call of None \<Rightarrow> PNone | Some f \<Rightarrow> dict_get f ''arguments'')"

text \<open>One call of the batch: the call that may be released, the decision, and whether a contract applied.\<close>

definition judge_call ::
    "(string \<Rightarrow> pyval option) \<Rightarrow> resource_inspection \<Rightarrow> runtime_path_policy \<Rightarrow> executor_context option \<Rightarrow> pyval
       \<Rightarrow> kernel_error + (pyval \<times> path_decision \<times> bool)" where
  "judge_call loads inspect p context call =
     (let path = (\<lambda>x. case x of Inl e \<Rightarrow> Inl (KernelCallError (CallPathError e)) | Inr v \<Rightarrow> Inr v) in
      if se_applicable (extract_structured_tool_paths loads (PStr (call_tool_name call)) (call_arguments call)) then
        (case rewrite_structured_tool_call_for_workspace_release loads p call of
           Inl e \<Rightarrow> Inl (KernelCallError (CallPathError e))
         | Inr candidate \<Rightarrow>
             try_bind (path (authorize_structured_tool_call loads inspect p candidate None False)) (\<lambda>d. Inr (candidate, d, True)))
      else (case authorize_executor_tool_call loads inspect p call (map_option ec_cwd context)
                (opt_str (Option.bind context ec_command_dialect)) (opt_str (map_option ec_platform context)) of
           Inl e \<Rightarrow> Inl (KernelCallError e)
         | Inr (d, applied) \<Rightarrow> Inr (call, d, applied)))"

datatype call_verdict = Released pyval | Withheld string | Interrupts

definition withheld_text :: "nat \<Rightarrow> string \<Rightarrow> string" where
  "withheld_text index m = ''tool call '' @ nat_text index @ '': '' @ m"

definition call_verdict_of :: "runtime_path_policy \<Rightarrow> nat \<Rightarrow> pyval \<Rightarrow> pyval \<times> path_decision \<times> bool \<Rightarrow> call_verdict" where
  "call_verdict_of p index call judged =
     (case judged of (candidate, d, applied) \<Rightarrow>
        if \<not> applied \<and> workspace_enabled p \<and> is_command_capability_tool_name (PStr (call_tool_name call)) then
          Withheld (withheld_text index ''Workspace Lock requires a deterministic command dialect/executor contract'')
        else if \<not> applied then Released candidate
        else (case pd_outcome d of
            PathHardInterrupt \<Rightarrow> Interrupts
          | PathDeny \<Rightarrow> Withheld (withheld_text index ''host-owned Phase-4 path policy denied the represented filesystem target'')
          | PathAllow \<Rightarrow> Released candidate))"

fun partition_calls ::
    "(string \<Rightarrow> pyval option) \<Rightarrow> resource_inspection \<Rightarrow> runtime_path_policy \<Rightarrow> executor_context option \<Rightarrow> nat \<Rightarrow> pyval list
       \<Rightarrow> kernel_error + (pyval list \<times> string list)" where
  "partition_calls loads inspect p context index [] = Inr ([], [])"
| "partition_calls loads inspect p context index (call # rest) =
     (if \<not> is_dict call then partition_calls loads inspect p context (Suc index) rest
      else try_bind (judge_call loads inspect p context call) (\<lambda>judged.
        case call_verdict_of p index call judged of
          Interrupts \<Rightarrow> Inl RestrictedPathInterrupt
        | Released candidate \<Rightarrow>
            try_bind (partition_calls loads inspect p context (Suc index) rest) (\<lambda>(allowed, errors). Inr (candidate # allowed, errors))
        | Withheld m \<Rightarrow>
            try_bind (partition_calls loads inspect p context (Suc index) rest) (\<lambda>(allowed, errors). Inr (allowed, m # errors))))"

text \<open>\<open>_phase4_partition_structured_tool_calls\<close>; the policy is \<open>None\<close> before the runtime has bound one.\<close>

definition partition_structured_tool_calls ::
    "(string \<Rightarrow> pyval option) \<Rightarrow> resource_inspection \<Rightarrow> runtime_path_policy option \<Rightarrow> executor_context option \<Rightarrow> pyval
       \<Rightarrow> kernel_error + (pyval list \<times> string list)" where
  "partition_structured_tool_calls loads inspect policy context calls =
     (case calls of
        PList cs \<Rightarrow>
          (case policy of
             None \<Rightarrow> Inr (filter is_dict cs, [])
           | Some p \<Rightarrow> partition_calls loads inspect p context 0 cs)
      | _ \<Rightarrow> Inr ([], []))"

section \<open>What the stage releases\<close>

definition call_id :: "pyval \<Rightarrow> string" where
  "call_id call = (case call of PDict d \<Rightarrow> py_strip (str_or_empty (dict_get d ''id'')) | _ \<Rightarrow> [])"

text \<open>The message keeps its proposed calls, or it gets the allowed ones with the errors and the withheld
  ids, or the stage runs again with a rejection notice.\<close>

datatype stage_release =
    ReleaseAsProposed "pyval list"
  | ReleasePartly "pyval list" "string list" "string list"
  | RepairStage "string list"

definition stage_tool_release ::
    "(string \<Rightarrow> pyval option) \<Rightarrow> resource_inspection \<Rightarrow> runtime_path_policy option \<Rightarrow> executor_context option \<Rightarrow> string \<Rightarrow> nat
       \<Rightarrow> pyval list \<Rightarrow> kernel_error + stage_release" where
  "stage_tool_release loads inspect policy context stage_name repair_depth proposed =
     try_bind (partition_structured_tool_calls loads inspect policy context (PList proposed)) (\<lambda>(allowed, errors).
       if errors = [] then Inr (ReleaseAsProposed proposed)
       else if allowed = [] then
         (if 2 \<le> repair_depth then Inl (HttpError 502 (stage_name @ '' repeatedly emitted rejected Phase-4 filesystem actions''))
          else Inr (RepairStage errors))
       else (let allowed_ids = filter (\<lambda>i. i \<noteq> []) (map call_id allowed) in
         Inr (ReleasePartly allowed errors
           (filter (\<lambda>i. i \<noteq> [] \<and> i \<notin> set allowed_ids) (map call_id proposed)))))"

section \<open>The admission of an executor\<close>

text \<open>\<open>json.dumps(arguments, ensure_ascii=False)\<close>, with the default separators.\<close>

fun spaced_text :: "pyval \<Rightarrow> string"
  and spaced_items :: "pyval list \<Rightarrow> string"
  and spaced_members :: "pydict \<Rightarrow> string" where
  "spaced_text (PList vs) = ''['' @ spaced_items vs @ '']''"
| "spaced_text (PDict d) = [CHR 0x7B] @ spaced_members d @ [CHR 0x7D]"
| "spaced_text (PStr s) = json_str s"
| "spaced_text PNone = ''null''"
| "spaced_text (PBool b) = (if b then ''true'' else ''false'')"
| "spaced_text (PInt i) = int_text i"
| "spaced_text (PFloat s) = s"
| "spaced_items [] = []"
| "spaced_items (v # vs) = spaced_text v @ (if vs = [] then [] else '', '' @ spaced_items vs)"
| "spaced_members [] = []"
| "spaced_members ((k, v) # d) = json_str k @ '': '' @ spaced_text v @ (if d = [] then [] else '', '' @ spaced_members d)"

definition refuse :: "nat \<Rightarrow> string \<Rightarrow> kernel_error + 'a" where
  "refuse status m = Inl (HttpError status (''Phase-4 executor admission '' @ m))"

text \<open>The checks against the call that was released; \<open>None\<close> when the caller has no such call at hand.\<close>

definition check_expected_call ::
    "(string \<Rightarrow> pyval option) \<Rightarrow> string \<Rightarrow> string \<Rightarrow> pydict \<Rightarrow> pyval option \<Rightarrow> kernel_error + unit" where
  "check_expected_call loads tool_call_id tool_name arguments expected_call =
     (case expected_call of
        None \<Rightarrow> Inr ()
      | Some (PDict e) \<Rightarrow>
          if py_strip (str_or_empty (dict_get e ''id'')) \<noteq> tool_call_id then refuse 409 ''tool-call identity mismatch''
          else (case dict_get e ''function'' of
              PDict f \<Rightarrow>
                if py_strip (str_or_empty (dict_get f ''name'')) \<noteq> tool_name then refuse 409 ''tool identity mismatch''
                else (case (case dict_get f ''arguments'' of PStr s \<Rightarrow> loads s | v \<Rightarrow> Some v) of
                    None \<Rightarrow> refuse 409 ''pending arguments are malformed''
                  | Some (PDict a) \<Rightarrow>
                      if py_eq (PDict a) (PDict arguments) then Inr ()
                      else refuse 409 ''arguments do not match the released call''
                  | Some _ \<Rightarrow> refuse 409 ''arguments do not match the released call'')
            | _ \<Rightarrow> refuse 409 ''pending call is malformed'')
      | Some _ \<Rightarrow> refuse 409 ''has no valid pending call'')"

record admission_request =
  ar_tool_call_id :: string
  ar_tool_name :: string
  ar_arguments :: pydict
  ar_executor_cwd :: string
  ar_executor_platform :: string
  ar_command_dialect :: pyval

text \<open>The checks of the payload itself.\<close>

definition admission_request_of :: "string \<Rightarrow> string \<Rightarrow> pyval \<Rightarrow> kernel_error + admission_request" where
  "admission_request_of runtime_id lane_id payload =
     (case payload of
        PDict d \<Rightarrow>
          (let field = (\<lambda>k. py_strip (str_or_empty (dict_get d k))); dialect = dict_get d ''command_dialect'' in
           if \<not> set (map fst d) \<subseteq> set ADMISSION_FIELDS then refuse 400 ''contains unsupported fields''
           else if \<not> py_eq (dict_get d ''protocol_version'') (PInt PHASE4_EXECUTOR_ADMISSION_PROTOCOL_VERSION) then
             Inl (HttpError 400 ''Unsupported Phase-4 executor admission protocol version'')
           else if field ''runtime_id'' \<noteq> runtime_id then refuse 409 ''runtime identity mismatch''
           else if field ''lane_id'' \<noteq> lane_id then refuse 409 ''lane identity mismatch''
           else if field ''tool_call_id'' = [] then refuse 400 ''requires tool_call_id''
           else if field ''tool_name'' = [] then refuse 400 ''requires tool_name''
           else (case dict_get d ''arguments'' of
               PDict arguments \<Rightarrow>
                 (case dict_get d ''executor_cwd'' of
                    PStr cwd \<Rightarrow>
                      if py_strip cwd = [] then refuse 400 ''requires executor_cwd''
                      else if py_casefold (field ''executor_platform'') = [] then refuse 400 ''requires executor_platform''
                      else if dialect \<noteq> PNone \<and> py_casefold (py_strip (py_str dialect)) \<notin> {''bash'', ''powershell''} then
                        Inl (HttpError 400 ''Unsupported Phase-4 command dialect'')
                      else Inr \<lparr>ar_tool_call_id = field ''tool_call_id'', ar_tool_name = field ''tool_name'',
                          ar_arguments = arguments, ar_executor_cwd = cwd,
                          ar_executor_platform = py_casefold (field ''executor_platform''), ar_command_dialect = dialect\<rparr>
                  | _ \<Rightarrow> refuse 400 ''requires executor_cwd'')
             | _ \<Rightarrow> refuse 400 ''arguments must be an object''))
      | _ \<Rightarrow> refuse 400 ''body must be an object'')"

definition admission_call :: "admission_request \<Rightarrow> pyval" where
  "admission_call r = PDict [(''id'', PStr (ar_tool_call_id r)), (''type'', PStr ''function''),
     (''function'', PDict [(''name'', PStr (ar_tool_name r)), (''arguments'', PStr (spaced_text (PDict (ar_arguments r))))])]"

definition path_outcome_value :: "path_outcome \<Rightarrow> string" where
  "path_outcome_value out = (case out of
       PathAllow \<Rightarrow> ''ALLOW'' | PathDeny \<Rightarrow> ''DENY_AND_CONTINUE'' | PathHardInterrupt \<Rightarrow> ''HARD_INTERRUPT'')"

definition admission_response :: "string \<Rightarrow> string \<Rightarrow> string \<Rightarrow> path_outcome \<Rightarrow> bool \<Rightarrow> pyval" where
  "admission_response runtime_id lane_id tool_call_id out applied = PDict
     [(''protocol_version'', PInt PHASE4_EXECUTOR_ADMISSION_PROTOCOL_VERSION), (''runtime_id'', PStr runtime_id),
      (''lane_id'', PStr lane_id), (''tool_call_id'', PStr tool_call_id),
      (''outcome'', PStr (path_outcome_value out)), (''contract_applied'', PBool applied)]"

definition executor_admission_decision ::
    "(string \<Rightarrow> pyval option) \<Rightarrow> resource_inspection \<Rightarrow> string \<Rightarrow> string \<Rightarrow> runtime_path_policy option \<Rightarrow> pyval \<Rightarrow> pyval option
       \<Rightarrow> kernel_error + pyval" where
  "executor_admission_decision loads inspect runtime_id lane_id policy payload expected_call =
     try_bind (admission_request_of runtime_id lane_id payload) (\<lambda>r.
     try_bind (check_expected_call loads (ar_tool_call_id r) (ar_tool_name r) (ar_arguments r) expected_call) (\<lambda>_.
       case policy of
         None \<Rightarrow> Inl (KernelRuntimeError ''Phase-4 runtime path policy is not bound'')
       | Some p \<Rightarrow>
           (case authorize_executor_tool_call loads inspect p (admission_call r) (Some (ar_executor_cwd r))
                (ar_command_dialect r) (PStr (ar_executor_platform r)) of
              Inl e \<Rightarrow> Inl (KernelCallError e)
            | Inr (d, applied) \<Rightarrow> Inr (admission_response runtime_id lane_id (ar_tool_call_id r) (pd_outcome d) applied))))"

end
