(* ===== verification/CommandProperties.thy ===== *)
theory CommandProperties
  imports CommandAuthority PathProperties
begin

text \<open>
  What the inspection of tool calls guarantees: each operand of an allowed command or structured
  call, resolved against the executor's own directory, names an object outside every NEVER root;
  under a workspace lock the call is understood completely and its objects lie in the workspace. A wrapped command is judged as the command it runs; plain words are tokens. The last section
  holds the spellings that escape the inspection.
\<close>

section \<open>What a target names\<close>








section \<open>Allowed targets\<close>





section \<open>Command calls\<close>













definition tool_call :: "string \<Rightarrow> pydict \<Rightarrow> pyval" where
  "tool_call name arguments = PDict [(''function'', PDict [(''name'', PStr name), (''arguments'', PDict arguments)])]"

definition no_json :: "string \<Rightarrow> pyval option" where
  "no_json s = None"

definition unguarded :: resource_inspection where
  "unguarded t = Inr None"

definition example_extraction :: command_extraction where
  "example_extraction = extract_command_paths no_json (PStr ''bash'') (PDict [(''command'', PStr ''git add . && env A=1 cat $TEMP/a.txt'')])
     PNone (Some (rp_path_environment example_policy))"

text \<open>An extraction without an error is complete: every segment of the command's text was
  understood, only the last one may change the directory, and every path any segment represents is
  among the targets, up to case; the targets are static and distinct.\<close>

theorem extraction_complete:
  assumes "x = extract_command_paths loads tool_name arguments command_dialect environment"
    and "ce_applicable x" and "ce_error x = None"
  shows "\<exists>dialect command tokens. ce_dialect x = Some dialect
     \<and> command_text_from_arguments loads arguments = Inr command \<and> shell_tokens command dialect = Some tokens
     \<and> \<not> has_unresolved_dynamic_shell_syntax command dialect environment
     \<and> (\<forall>segment \<in> set (split_command_segments tokens). \<exists>found cwd.
          segment_targets dialect segment = (found, cwd, False) \<and> (cwd \<longrightarrow> ce_uses_executor_cwd x)
          \<and> (\<forall>t \<in> set found. \<exists>u \<in> set (ce_targets x). py_casefold u = py_casefold t))
     \<and> (\<forall>segment \<in> set (butlast (split_command_segments tokens)). \<not> segment_changes_cwd segment dialect)
     \<and> (\<forall>u \<in> set (ce_targets x). \<not> has_unresolved_dynamic_shell_syntax u dialect environment)
     \<and> distinct (map py_casefold (ce_targets x))"
proof -
  obtain dialect command tokens where c: "command_dialect_for_tool tool_name command_dialect = Some dialect"
    "command_text_from_arguments loads arguments = Inr command" "shell_tokens command dialect = Some tokens"
    "x = extract_from_tokens environment dialect
       (has_unresolved_dynamic_shell_syntax command dialect environment \<or> CHR 0x0A \<in> set command \<or> CHR 0x0D \<in> set command) tokens"
    using assms by (auto simp: extract_command_paths_def command_refused_def split: option.splits sum.splits if_splits)
  let ?segs = "split_command_segments tokens"
  obtain found cwd amb where all: "all_segment_targets dialect ?segs = (found, cwd, amb)" by (metis prod_cases3)
  obtain kept dropped where k: "keep_static_targets environment dialect [] found = (kept, dropped)" by fastforce
  have x: "ce_dialect x = Some dialect" "ce_targets x = kept" "ce_uses_executor_cwd x = cwd"
    and ok: "\<not> has_unresolved_dynamic_shell_syntax command dialect environment" "\<not> amb" "\<not> dropped"
    using c(4) assms(3) all k by (auto simp: extract_from_tokens_def Let_def split: if_splits)
  have all': "all_segment_targets dialect ?segs = (found, cwd, False)" using all ok(2) by simp
  have k': "keep_static_targets environment dialect [] found = (kept, False)" using k ok(3) by simp
  have 1: "\<exists>f b. segment_targets dialect s = (f, b, False) \<and> (b \<longrightarrow> cwd)
      \<and> (\<forall>t \<in> set f. \<exists>u \<in> set kept. py_casefold u = py_casefold t)" if "s \<in> set ?segs" for s
    using all_segment_targets_Cons [OF all' that] keep_static_complete [OF k'] by (metis empty_iff list.set(1) subsetD)
  have 2: "\<forall>s \<in> set (butlast ?segs). \<not> segment_changes_cwd s dialect"
    using all_segments_cwd [OF all'] .
  show ?thesis using c(2,3) x ok(1) 1 2 keep_static_sound [OF k] by auto
qed

theorem extraction_complete_witness:
  "\<exists>command tokens. command_text_from_arguments no_json (PDict [(''command'', PStr ''git add . && env A=1 cat $TEMP/a.txt'')]) = Inr command
     \<and> shell_tokens command ''bash'' = Some tokens \<and> distinct (map py_casefold (ce_targets example_extraction))"
proof -
  have "ce_applicable example_extraction" "ce_error example_extraction = None" "ce_dialect example_extraction = Some ''bash''"
    by code_simp+
  with extraction_complete [of example_extraction, OF example_extraction_def] show ?thesis by auto
qed

section \<open>Structured calls\<close>





section \<open>Executor calls\<close>





section \<open>Released calls\<close>

lemma contract_fields:
  "structured_tool_path_contract name = Some contract \<Longrightarrow> pc_path_fields contract = [''path'']"
  by (auto simp: structured_tool_path_contract_def PI_STRUCTURED_PATH_CONTRACTS_def split: pyval.splits if_splits)

lemma dict_set_fixed: "dict_set d k v = d \<Longrightarrow> map_of d k = Some v"
  by (metis fun_upd_same map_of_dict_set)

text \<open>The extraction of arguments whose path, when there is one, is canonical.\<close>

lemma extract_canonical:
  assumes "structured_tool_path_contract name = Some contract"
    and "loads s = Some (PDict a)"
    and "case dict_get a ''path'' of PStr v \<Rightarrow> py_strip v = [] \<or> canonical v | _ \<Rightarrow> True"
    and "pc_default_to_executor_cwd contract \<Longrightarrow> dict_has a ''path''"
  shows "\<not> se_uses_executor_cwd (extract_structured_tool_paths loads name (PStr s))
     \<and> (\<forall>t \<in> set (se_targets (extract_structured_tool_paths loads name (PStr s))). \<exists>c. canonical c \<and> t = py_strip c)"
  using assms contract_fields [OF assms(1)]
  by (auto simp: extract_structured_tool_paths_def parsed_arguments_def structured_error_def
      split: pyval.splits if_splits)

lemma release_arguments_canonical:
  assumes "structured_tool_path_contract name = Some contract" and "canonical w"
    and "release_arguments p w contract a = Inr a'"
  shows "(case dict_get a' ''path'' of PStr v \<Rightarrow> py_strip v = [] \<or> canonical v | _ \<Rightarrow> True)
     \<and> (pc_default_to_executor_cwd contract \<longrightarrow> dict_has a' ''path'')"
  using assms(2,3) contract_fields [OF assms(1)] normalize_canonical
  by (auto simp: release_arguments_def try_bind_Inr_iff dict_get_def dict_has_def
      split: pyval.splits if_splits option.splits dest: dict_set_fixed)

text \<open>A structured call that is rewritten for release under a workspace lock no longer depends on
  the executor: it keeps its tool, it never falls back on the executor's directory, and every path it
  represents is the trimmed text of a canonical absolute one.\<close>

theorem released_call_absolute:
  assumes "rp_workspace_root p = Some w" and "valid_policy p" and "call_function call = Some f"
    and "structured_tool_path_contract (dict_get f ''name'') = Some contract"
    and "rewrite_structured_tool_call_for_workspace_release loads p call = Inr call'"
    and "\<forall>a a'. parsed_arguments loads [] [] (dict_get f ''arguments'') = Inr a \<longrightarrow> release_arguments p w contract a = Inr a'
           \<longrightarrow> loads (json_text (PDict a')) = Some (PDict a')"
  shows "\<exists>f' x. call_function call' = Some f' \<and> dict_get f' ''name'' = dict_get f ''name''
     \<and> x = extract_structured_tool_paths loads (dict_get f' ''name'') (dict_get f' ''arguments'')
     \<and> \<not> se_uses_executor_cwd x \<and> (\<forall>t \<in> set (se_targets x). \<exists>c. canonical c \<and> t = py_strip c)"
proof -
  obtain d where call: "call = PDict d" "dict_get d ''function'' = PDict f"
    using assms(3) by (auto simp: call_function_def split: pyval.splits)
  show ?thesis
  proof (cases "parsed_arguments loads [] [] (dict_get f ''arguments'')")
    case (Inl m)
    then have "call' = call" using assms(1,4,5) call
      by (simp add: rewrite_structured_tool_call_for_workspace_release_def)
    moreover obtain m' where "parsed_arguments loads ''structured filesystem tool arguments are not valid JSON''
        ''structured filesystem tool arguments must be an object'' (dict_get f ''arguments'') = Inl m'"
      using Inl by (auto simp: parsed_arguments_def split: pyval.splits option.splits)
    ultimately show ?thesis using assms(3,4) by (simp add: extract_structured_tool_paths_def structured_error_def)
  next
    case (Inr a)
    then obtain a' where a': "release_arguments p w contract a = Inr a'"
      and call': "call' = PDict (dict_set d ''function'' (PDict (dict_set f ''arguments'' (PStr (json_text (PDict a'))))))"
      using assms(1,4,5) call
      by (auto simp: rewrite_structured_tool_call_for_workspace_release_def try_bind_Inr_iff)
    have "canonical w" using assms(1,2) by (simp add: valid_policy_iff)
    note rel = release_arguments_canonical [OF assms(4) this a']
    have "loads (json_text (PDict a')) = Some (PDict a')" using assms(6) Inr a' by blast
    then show ?thesis
      using extract_canonical [OF assms(4), of loads "json_text (PDict a')" a'] rel call'
      by (simp add: call_function_def dict_get_def)
  qed
qed

definition example_released :: pydict where
  "example_released = [(''path'', PStr (to_bslash ''c:/ws/src/a.txt''))]"

definition example_loads :: "string \<Rightarrow> pyval option" where
  "example_loads s = (if s = json_text (PDict example_released) then Some (PDict example_released) else None)"

theorem released_call_absolute_witness:
  "\<exists>call' f' x. rewrite_structured_tool_call_for_workspace_release example_loads example_policy
       (tool_call ''write'' [(''path'', PStr ''src/a.txt'')]) = Inr call' \<and> call_function call' = Some f'
     \<and> x = extract_structured_tool_paths example_loads (dict_get f' ''name'') (dict_get f' ''arguments'')
     \<and> \<not> se_uses_executor_cwd x"
proof -
  let ?call = "tool_call ''write'' [(''path'', PStr ''src/a.txt'')]"
  let ?f = "[(''name'', PStr ''write''), (''arguments'', PDict [(''path'', PStr ''src/a.txt'')])]"
  let ?k = "\<lparr>pc_tool_name = ''write'', pc_path_fields = [''path''], pc_default_to_executor_cwd = False\<rparr>"
  have "case rewrite_structured_tool_call_for_workspace_release example_loads example_policy ?call of Inl _ \<Rightarrow> False | Inr _ \<Rightarrow> True"
    by code_simp
  then obtain call' where r: "rewrite_structured_tool_call_for_workspace_release example_loads example_policy ?call = Inr call'"
    by (auto split: sum.splits)
  have rel: "release_arguments example_policy (to_bslash ''c:/ws'') ?k [(''path'', PStr ''src/a.txt'')] = Inr example_released"
    by code_simp
  have "valid_policy example_policy" "call_function ?call = Some ?f"
    "structured_tool_path_contract (dict_get ?f ''name'') = Some ?k"
    "example_loads (json_text (PDict example_released)) = Some (PDict example_released)" by code_simp+
  moreover have "parsed_arguments example_loads [] [] (dict_get ?f ''arguments'') = Inr a \<longrightarrow> a = [(''path'', PStr ''src/a.txt'')]" for a
    by (simp add: parsed_arguments_def dict_get_def)
  ultimately show ?thesis
    using released_call_absolute [where p = example_policy and f = ?f and contract = ?k and w = "to_bslash ''c:/ws''", OF _ _ _ _ r] r rel
    by (fastforce simp: example_policy_def)
qed

section \<open>Wrapped commands\<close>

definition bare_word :: "string \<Rightarrow> bool" where
  "bare_word w \<longleftrightarrow> plain_word w \<and> (\<forall>c \<in> set w. \<not> py_isspace c)"

lemma dropWhile_none: "\<forall>c \<in> set w. \<not> P c \<Longrightarrow> dropWhile P w = w"
  by (cases w) auto

lemma unspaced_strip: "\<forall>c \<in> set w. \<not> py_isspace c \<Longrightarrow> py_strip w = w"
  by (simp add: py_strip_def py_lstrip_def py_rstrip_by_def dropWhile_none)

lemma bare_strip: "bare_word w \<Longrightarrow> strip_token_quotes w = w"
  by (cases w) (auto simp: strip_token_quotes_def bare_word_def plain_word_def plain_char_def unspaced_strip Let_def)

lemma bare_not_operator: "bare_word w \<Longrightarrow> \<exists>c s. w = c # s \<and> \<not> shell_punctuation c"
  by (cases w) (auto simp: bare_word_def plain_word_def plain_char_def)

lemma punctuation_tokens:
  "t \<in> set REDIRECT_OPS \<or> t \<in> set COMMAND_CONTROL \<or> starts_with ''<<'' t \<or> t \<in> {''>&'', ''<&'', ''>|''}
     \<Longrightarrow> \<exists>c s. t = c # s \<and> shell_punctuation c"
  by (auto simp: REDIRECT_OPS_def COMMAND_CONTROL_def starts_with_def shell_punctuation_def take_Suc_conv_app_nth split: if_splits)
    (cases t, auto)

lemma bare_ordinary:
  "bare_word w \<Longrightarrow> w \<notin> set REDIRECT_OPS \<and> w \<notin> set COMMAND_CONTROL \<and> \<not> starts_with ''<<'' w \<and> w \<notin> {''>&'', ''<&'', ''>|''}"
proof -
  assume "bare_word w"
  from bare_not_operator [OF this] obtain c s where w: "w = c # s" "\<not> shell_punctuation c" by blast
  then have "\<nexists>c s. w = c # s \<and> shell_punctuation c" by simp
  then show ?thesis using punctuation_tokens [of w] by blast
qed

lemma bare_words:
  assumes "\<forall>w \<in> set ws. bare_word w"
  shows "path_operand_tokens ws = ([], False)" and "drop_redirects ws = ws" and "map strip_token_quotes ws = ws"
    and "split_segments current ws = (if current @ ws = [] then [] else [current @ ws])"
  using assms bare_ordinary bare_strip
  by (induction ws arbitrary: current) (auto simp: map_idI)

lemma strip_ends:
  assumes "s \<noteq> []" and "\<not> py_isspace (hd s)" and "\<not> py_isspace (last s)"
  shows "py_strip s = s"
proof -
  have l: "dropWhile py_isspace s = s" using assms(1,2) by (cases s) simp_all
  have "dropWhile py_isspace (rev s) = rev s" using assms(1,3) by (cases s rule: rev_cases) simp_all
  then show ?thesis by (simp add: py_strip_def py_lstrip_def py_rstrip_by_def l)
qed

lemma bare_join:
  assumes "\<forall>w \<in> set ws. bare_word w" and "ws \<noteq> []"
  shows "\<exists>c s. join_with (CHR '' '') ws = c # s \<and> plain_char c \<and> \<not> py_isspace c \<and> \<not> py_isspace (last (c # s))"
  using assms
proof (induction ws)
  case (Cons w ws)
  have "bare_word w" using Cons.prems(1) by simp
  then obtain c u where w: "w = c # u" "plain_char c" "\<forall>x \<in> set w. \<not> py_isspace x"
    by (cases w) (auto simp: bare_word_def plain_word_def)
  show ?case
  proof (cases ws)
    case Nil
    have "last w \<in> set w" using w(1) by simp
    then show ?thesis using Nil w by auto
  next
    case (Cons v vs)
    then obtain d s where "join_with (CHR '' '') ws = d # s" "\<not> py_isspace (last (d # s))"
      using Cons.IH Cons.prems(1) by auto
    then show ?thesis using w Cons by auto
  qed
qed simp

lemma joined_token:
  assumes "\<forall>w \<in> set ws. bare_word w" and "ws \<noteq> []"
  shows "strip_token_quotes (join_with (CHR '' '') ws) = join_with (CHR '' '') ws"
    and "\<exists>c s. join_with (CHR '' '') ws = c # s \<and> \<not> shell_punctuation c"
proof -
  obtain c s where j: "join_with (CHR '' '') ws = c # s" "plain_char c" "\<not> py_isspace c" "\<not> py_isspace (last (c # s))"
    using bare_join [OF assms] by blast
  then have "py_strip (c # s) = c # s" by (intro strip_ends) simp_all
  then show "strip_token_quotes (join_with (CHR '' '') ws) = join_with (CHR '' '') ws"
    using j(1,2) by (auto simp: strip_token_quotes_def Let_def plain_char_def)
  show "\<exists>c s. join_with (CHR '' '') ws = c # s \<and> \<not> shell_punctuation c"
    using j by (auto simp: plain_char_def)
qed

lemma run_one:
  assumes "tokens \<noteq> []" and "path_operand_tokens tokens = ([], False)" and "drop_redirects tokens = first # rest"
    and "bash_unwrap (command_of first) (map strip_token_quotes rest) = run_rest ws doubt" and "ws \<noteq> []"
    and "bash_segment_targets ws = (targets, cwd, amb)"
  shows "bash_segment_targets tokens = (targets, cwd, amb)"
  using assms by (simp add: bash_segment_targets.simps [of tokens] run_rest_def merge_facts_def)

text \<open>A wrapped command is judged as the command it runs: \<open>env\<close> with its assignments and options,
  \<open>nohup\<close>, and a shell given the command as one text, have exactly the targets, the scope and the doubt
  of the plain words inside.\<close>

theorem wrapped_command_targets:
  assumes "\<forall>w \<in> set ws. bare_word w" and "ws \<noteq> []" and "\<forall>a \<in> set assigns. bare_word a \<and> env_operand a"
    and "\<not> env_operand (hd ws)" and "hd ws \<noteq> ''--''"
  shows "bash_segment_targets (''env'' # assigns @ ws) = bash_segment_targets ws
     \<and> bash_segment_targets (''nohup'' # ws) = bash_segment_targets ws
     \<and> bash_segment_targets [''bash'', ''-c'', join_with (CHR '' '') ws] = bash_segment_targets ws"
proof -
  obtain targets cwd amb where inner: "bash_segment_targets ws = (targets, cwd, amb)" by (metis prod_cases3)
  have bare: "bare_word ''env''" "bare_word ''nohup''" "bare_word ''bash''" "bare_word ''-c''" by code_simp+
  have cmd: "command_of ''env'' = ''env''" "command_of ''nohup'' = ''nohup''" "command_of ''bash'' = ''bash''" by code_simp+
  have all: "\<forall>w \<in> set (''env'' # assigns @ ws). bare_word w" "\<forall>w \<in> set (''nohup'' # ws). bare_word w"
    using assms(1,3) bare by auto
  have "dropWhile env_operand (assigns @ ws) = ws"
    using assms(2-4) by (cases ws) (auto simp: dropWhile_append2)
  moreover have rest: "\<forall>w \<in> set (assigns @ ws). bare_word w" using assms(1,3) by auto
  ultimately have "bash_unwrap (command_of ''env'') (map strip_token_quotes (assigns @ ws)) = run_rest ws False"
    by (simp add: bash_unwrap_def cmd(1) bare_words(3) [OF rest] del: map_append)
  from run_one [OF _ bare_words(1,2) [OF all(1)] this assms(2) inner]
  have env: "bash_segment_targets (''env'' # assigns @ ws) = (targets, cwd, amb)" by simp
  have "bash_unwrap (command_of ''nohup'') (map strip_token_quotes ws) = run_rest ws True"
    using assms(5) by (simp add: bash_unwrap_def cmd(2) bare_words(3) [OF assms(1)])
  from run_one [OF _ bare_words(1,2) [OF all(2)] this assms(2) inner]
  have nohup: "bash_segment_targets (''nohup'' # ws) = (targets, cwd, amb)" by simp
  let ?j = "join_with (CHR '' '') ws"
  note j = joined_token [OF assms(1,2)]
  have ops: "?j \<notin> set REDIRECT_OPS" "\<not> starts_with ''<<'' ?j" "?j \<notin> {''>&'', ''<&'', ''>|''}"
    using j(2) punctuation_tokens [of ?j] by (metis list.inject)+
  have ts: "path_operand_tokens [''bash'', ''-c'', ?j] = ([], False)" "drop_redirects [''bash'', ''-c'', ?j] = [''bash'', ''-c'', ?j]"
    using ops bare_ordinary [OF bare(3)] bare_ordinary [OF bare(4)] by auto
  have "shell_tokens ?j ''bash'' = Some ws"
    using lex_plain_words [of ws] assms(1) by (simp add: shell_tokens_def bare_word_def list_all_iff)
  then have "bash_unwrap (command_of ''bash'') (map strip_token_quotes [''-c'', ?j]) = run_rest ws False"
    using bare_words(4) [OF assms(1), of "[]"] assms(2) j(1) bare_strip [OF bare(4)]
    by (simp add: bash_unwrap_def cmd split_command_segments_def run_rest_def)
  then have "bash_segment_targets [''bash'', ''-c'', ?j] = (targets, cwd, amb)"
    by (intro run_one [OF _ ts _ assms(2) inner]) simp_all
  then show ?thesis using env nohup inner by simp
qed

theorem wrapped_command_targets_witness:
  "bash_segment_targets [''env'', ''A=1'', ''rm'', ''-f'', ''a.txt''] = bash_segment_targets [''rm'', ''-f'', ''a.txt'']
   \<and> bash_segment_targets [''bash'', ''-c'', ''rm -f a.txt''] = bash_segment_targets [''rm'', ''-f'', ''a.txt'']"
proof -
  have "\<forall>w \<in> set [''rm'', ''-f'', ''a.txt'']. bare_word w" "\<forall>a \<in> set [''A=1'']. bare_word a \<and> env_operand a"
    "\<not> env_operand (hd [''rm'', ''-f'', ''a.txt''])" by code_simp+
  then show ?thesis using wrapped_command_targets [of "[''rm'', ''-f'', ''a.txt'']" "[''A=1'']"] by simp
qed

section \<open>Spellings that escape the inspection\<close>

lemma drop_redirects_append: "\<forall>w \<in> set ws. bare_word w \<Longrightarrow> drop_redirects (ws @ [''>'', x]) = ws"
  using bare_ordinary by (induction ws) (auto simp: REDIRECT_OPS_def)

text \<open>In PowerShell the redirections of a developer command are lost: for \<open>git\<close>, \<open>pytest\<close>, \<open>python\<close> and
  \<open>dotnet\<close> the file after \<open>>\<close>, whichever it is, does not count among the targets.\<close>

theorem powershell_redirect_dropped:
  assumes "command \<in> {''git'', ''pytest'', ''py.test'', ''python'', ''python3'', ''py'', ''dotnet''}"
    and "\<forall>w \<in> set args. bare_word w"
  shows "powershell_segment_targets (command # args @ [''>'', x]) = bash_segment_targets (command # args)"
proof -
  have dev: "\<forall>c \<in> set [''git'', ''pytest'', ''py.test'', ''python'', ''python3'', ''py'', ''dotnet''].
      bare_word c \<and> command_of c = c \<and> c \<notin> set POWERSHELL_PATHLESS \<and> c \<notin> set POWERSHELL_WRAPPERS
      \<and> c \<notin> set POWERSHELL_PATH_COMMANDS" by code_simp
  then have c: "bare_word command" "command_of command = command" "command \<notin> set POWERSHELL_PATHLESS"
    "command \<notin> set POWERSHELL_WRAPPERS" "command \<notin> set POWERSHELL_PATH_COMMANDS" using assms(1) by auto
  have d: "drop_redirects (command # args @ [''>'', x]) = command # args"
    using drop_redirects_append [of "command # args" x] assms(2) c(1) by simp
  show ?thesis using assms(1) c
    by (subst powershell_segment_targets.simps)
      (auto simp: d bare_words(3) [OF assms(2)] bare_strip [OF c(1)] Let_def simp del: drop_redirects.simps split: prod.splits)
qed

definition lock_allows :: "string \<Rightarrow> string \<Rightarrow> bool" where
  "lock_allows tool command =
     outcome_is PathAllow (authorize_command_tool_call no_json unguarded example_policy
       (tool_call tool [(''command'', PStr command)]) (Some ''C:/ws'') PNone PNone)"

theorem powershell_redirect_dropped_witness:
  "powershell_segment_targets [''git'', ''log'', ''>'', ''C:/Windows/x''] = bash_segment_targets [''git'', ''log'']
   \<and> lock_allows ''powershell'' ''git log > C:/Windows/x''"
proof -
  have "\<forall>w \<in> set [''log'']. bare_word w" by code_simp
  moreover have "lock_allows ''powershell'' ''git log > C:/Windows/x''" by code_simp
  ultimately show ?thesis using powershell_redirect_dropped [of "''git''" "[''log'']" "''C:/Windows/x''"] by simp
qed

text \<open>An operand attached to its option is not seen: the destination in \<open>Copy-Item -Destination:x\<close> and
  in \<open>cp -tx\<close> never reaches the path policy, whatever the remaining operands are.\<close>

theorem attached_operand_unseen:
  assumes "\<forall>w \<in> set args. bare_word w" and "bare_word (''-Destination:'' @ x)" and "bare_word (''-t'' @ x)"
  shows "powershell_segment_targets (''Copy-Item'' # (''-Destination:'' @ x) # args) = powershell_segment_targets (''Copy-Item'' # args)
     \<and> bash_segment_targets (''cp'' # (''-t'' @ x) # args) = bash_segment_targets (''cp'' # args)"
proof -
  have c: "bare_word ''Copy-Item''" "command_of ''Copy-Item'' = ''copy-item''" "bare_word ''cp''" "command_of ''cp'' = ''cp''" by code_simp+
  have cmd: "''copy-item'' \<notin> set POWERSHELL_PATHLESS" "''copy-item'' \<notin> set POWERSHELL_WRAPPERS"
    "''copy-item'' \<in> set POWERSHELL_PATH_COMMANDS" "''cp'' \<in> set BASH_PATH_COMMANDS" by code_simp+
  have ws: "\<forall>w \<in> set (''Copy-Item'' # (''-Destination:'' @ x) # args). bare_word w" "\<forall>w \<in> set (''Copy-Item'' # args). bare_word w"
    "\<forall>w \<in> set (''cp'' # (''-t'' @ x) # args). bare_word w" "\<forall>w \<in> set (''cp'' # args). bare_word w"
    using assms c by auto
  have ops: "powershell_operands ((''-Destination:'' @ x) # args) = powershell_operands args"
    by (auto simp: POWERSHELL_PATH_SWITCHES_def py_casefold_def casefold_char_def lower_char_def is_option_def starts_with_def
        split: prod.splits)
  have ps: "powershell_segment_targets (''Copy-Item'' # as) = powershell_path_segment ''copy-item'' as [] False"
    if "\<forall>w \<in> set (''Copy-Item'' # as). bare_word w" for as
  proof -
    have "map strip_token_quotes as = as" using that by (intro bare_words(3)) simp
    then show ?thesis
      using c cmd by (subst powershell_segment_targets.simps)
        (simp add: bare_words(1,2) [OF that] Let_def del: path_operand_tokens.simps drop_redirects.simps)
  qed
  have bs: "bash_segment_targets (''cp'' # as) = bash_plain_segment ''cp'' as [] False"
    if "\<forall>w \<in> set (''cp'' # as). bare_word w" for as
  proof -
    have "map strip_token_quotes as = as" using that by (intro bare_words(3)) simp
    then show ?thesis
      using c by (subst bash_segment_targets.simps)
        (simp add: bare_words(1,2) [OF that] bash_unwrap_def del: path_operand_tokens.simps drop_redirects.simps)
  qed
  have "prefixed_values [''--target-directory='', ''--directory=''] [''-t'' @ x] = []"
    by (simp add: prefixed_values_def py_casefold_def casefold_char_def lower_char_def starts_with_def)
  then have "bash_plain_segment ''cp'' ((''-t'' @ x) # args) [] False = bash_plain_segment ''cp'' args [] False"
    using cmd(4) by (simp add: bash_plain_segment_def is_option_def starts_with_def prefixed_values_def Let_def)
  then show ?thesis by (simp only: ps [OF ws(1)] ps [OF ws(2)] bs [OF ws(3)] bs [OF ws(4)] powershell_path_segment_def ops)
qed

theorem attached_operand_unseen_witness:
  "bash_segment_targets [''cp'', ''-tC:/Windows'', ''a'', ''b''] = bash_segment_targets [''cp'', ''a'', ''b'']
   \<and> lock_allows ''bash'' ''cp -tC:/Windows a b'' \<and> lock_allows ''powershell'' ''Copy-Item -Destination:C:/Windows a''"
proof -
  have "\<forall>w \<in> set [''a'', ''b'']. bare_word w" "bare_word (''-Destination:'' @ ''C:/Windows'')" "bare_word (''-t'' @ ''C:/Windows'')"
    by code_simp+
  moreover have "lock_allows ''bash'' ''cp -tC:/Windows a b''" by code_simp
  moreover have "lock_allows ''powershell'' ''Copy-Item -Destination:C:/Windows a''" by code_simp
  ultimately show ?thesis using attached_operand_unseen [of "[''a'', ''b'']" "''C:/Windows''"] by simp
qed

definition secret_document :: policy_document where
  "secret_document = Document (PDict [(''version'', PInt 1), (''workspace_root'', PNone),
     (''never_paths'', PList [PStr ''C:/Windows/secret.txt''])])"

definition secret_policy :: runtime_path_policy where
  "secret_policy = \<lparr>rp_runtime_id = ''rt'', rp_lane_id = ''lane'', rp_workspace_root = None,
     rp_never_roots = map to_bslash [''c:/windows'', ''c:/boot'', ''c:/recovery'', ''c:/system volume information'', ''c:/windows/secret.txt''],
     rp_path_environment = [(''systemroot'', to_bslash ''C:/Windows'')]\<rparr>"

definition read_outcome :: "path_outcome \<Rightarrow> string \<Rightarrow> bool" where
  "read_outcome out path = outcome_is out
     (authorize_structured_tool_call no_json unguarded secret_policy (tool_call ''read'' [(''path'', PStr path)]) None False)"

text \<open>The read exemption compares the spelling, not the object, with the user's NEVER roots: under a
  policy that startup builds for a NEVER file inside the Windows tree, reading the file is a hard
  interrupt, and reading the stream that is its content is allowed.\<close>

theorem stream_read_escapes:
  "build_runtime_path_policy ''rt'' ''lane'' secret_document example_host = Inr secret_policy
   \<and> policy_object_windows_path (to_bslash ''c:/windows/secret.txt::$data'') = Inr (to_bslash ''c:/windows/secret.txt'')
   \<and> read_outcome PathHardInterrupt ''C:/Windows/secret.txt'' \<and> read_outcome PathAllow ''C:/Windows/secret.txt::$DATA''"
proof (intro conjI)
  show "build_runtime_path_policy ''rt'' ''lane'' secret_document example_host = Inr secret_policy" by code_simp
  show "policy_object_windows_path (to_bslash ''c:/windows/secret.txt::$data'') = Inr (to_bslash ''c:/windows/secret.txt'')" by code_simp
  show "read_outcome PathHardInterrupt ''C:/Windows/secret.txt''" by code_simp
  show "read_outcome PathAllow ''C:/Windows/secret.txt::$DATA''" by code_simp
qed

end
