(* ===== verification/ReleaseProperties.thy ===== *)
theory ReleaseProperties
  imports ToolRelease CommandProperties
begin

text \<open>
  What the release boundary guarantees: a batch is judged call by call, a NEVER match releases
  nothing, every released call a contract covers lies in the workspace, and an executor is
  admitted only for the call that was released. The rewriting for release, however, reaches the
  caller only when another call of the batch is withheld.
\<close>

section \<open>The partition\<close>

text \<open>The verdicts of the batch, each call with its position.\<close>

definition judged_batch ::
    "(string \<Rightarrow> pyval option) \<Rightarrow> resource_inspection \<Rightarrow> runtime_path_policy \<Rightarrow> executor_context option \<Rightarrow> nat \<Rightarrow> pyval list
       \<Rightarrow> (kernel_error + call_verdict) list" where
  "judged_batch loads inspect p context index calls =
     map (\<lambda>(i, call). try_bind (judge_call loads inspect p context call) (\<lambda>j. Inr (call_verdict_of p i call j)))
       (filter (\<lambda>(i, call). is_dict call) (enumerate index calls))"

definition released_of :: "(kernel_error + call_verdict) list \<Rightarrow> pyval list" where
  "released_of vs = concat (map (\<lambda>v. case v of Inr (Released c) \<Rightarrow> [c] | _ \<Rightarrow> []) vs)"

definition withheld_of :: "(kernel_error + call_verdict) list \<Rightarrow> string list" where
  "withheld_of vs = concat (map (\<lambda>v. case v of Inr (Withheld m) \<Rightarrow> [m] | _ \<Rightarrow> []) vs)"

definition settled :: "kernel_error + call_verdict \<Rightarrow> bool" where
  "settled v = (case v of Inl _ \<Rightarrow> False | Inr c \<Rightarrow> c \<noteq> Interrupts)"

lemma judged_batch_simps [simp]:
  "judged_batch loads inspect p context index [] = []"
  "judged_batch loads inspect p context index (call # rest) =
     (if is_dict call then [try_bind (judge_call loads inspect p context call) (\<lambda>j. Inr (call_verdict_of p index call j))] else [])
       @ judged_batch loads inspect p context (Suc index) rest"
  by (simp_all add: judged_batch_def)

lemma partition_calls_iff:
  "partition_calls loads inspect p context index calls = Inr (allowed, errors) \<longleftrightarrow>
     list_all settled (judged_batch loads inspect p context index calls)
     \<and> allowed = released_of (judged_batch loads inspect p context index calls)
     \<and> errors = withheld_of (judged_batch loads inspect p context index calls)"
proof (induction calls arbitrary: index allowed errors)
  case Nil
  then show ?case by (auto simp: released_of_def withheld_of_def)
next
  case (Cons call rest)
  show ?case
  proof (cases "is_dict call")
    case False
    then show ?thesis using Cons.IH by (simp add: released_of_def withheld_of_def)
  next
    case True
    show ?thesis
    proof (cases "judge_call loads inspect p context call")
      case (Inl e)
      then show ?thesis using True by (simp add: settled_def)
    next
      case (Inr j)
      then show ?thesis using True Cons.IH
        by (cases "call_verdict_of p index call j")
          (auto simp: settled_def released_of_def withheld_of_def try_bind_Inr_iff)
    qed
  qed
qed



text \<open>C3. The partition of a batch by a bound policy is the list of its verdicts: it succeeds exactly
  when every call is judged without an error and none matches a NEVER root, and then it is the released
  candidates and the reasons of the withheld calls, in the order of the batch. In particular no sibling
  of a NEVER match is released.\<close>

theorem partition_exact:
  "partition_structured_tool_calls loads inspect (Some p) context (PList calls) = Inr (allowed, errors) \<longleftrightarrow>
     list_all settled (judged_batch loads inspect p context 0 calls)
     \<and> allowed = released_of (judged_batch loads inspect p context 0 calls)
     \<and> errors = withheld_of (judged_batch loads inspect p context 0 calls)"
  unfolding partition_structured_tool_calls_def by (simp add: partition_calls_iff)








section \<open>Witnesses of the partition\<close>

definition example_calls :: "pyval list" where
  "example_calls = [tool_call ''write'' [(''path'', PStr ''src/a.txt'')], tool_call ''write'' [(''path'', PStr ''C:/other/a.txt'')]]"

definition example_candidate :: pyval where
  "example_candidate = PDict [(''function'', PDict [(''name'', PStr ''write''), (''arguments'', PStr (json_text (PDict example_released)))])]"

definition batch_loads :: "string \<Rightarrow> pyval option" where
  "batch_loads s = (if s = json_text (PDict example_released) then Some (PDict example_released)
     else if s = json_text (PDict [(''path'', PStr (to_bslash ''c:/other/a.txt''))]) then Some (PDict [(''path'', PStr (to_bslash ''c:/other/a.txt''))])
     else None)"



section \<open>What the stage releases\<close>

lemma partition_pair:
  assumes "is_dict call" and "judge_call loads inspect p context call = Inr (candidate, d, True)" and "pd_outcome d = PathAllow"
    and "is_dict sibling" and "judge_call loads inspect p context sibling = Inr (candidate', d', True)" and "pd_outcome d' = PathDeny"
  shows "partition_calls loads inspect p context 0 [call] = Inr ([candidate], [])"
    and "\<exists>m. partition_calls loads inspect p context 0 [call, sibling] = Inr ([candidate], [m])"
  using assms by (auto simp: call_verdict_of_def)

text \<open>The rewriting for release takes effect by accident: a call that is allowed after its rewriting is
  released as the model proposed it when nothing is withheld, and as it was rewritten when a sibling is
  denied. So the decision and the released call can be about different paths.\<close>

theorem rewriting_released_only_with_denial:
  assumes "is_dict call" and "judge_call loads inspect p context call = Inr (candidate, d, True)" and "pd_outcome d = PathAllow"
    and "is_dict sibling" and "judge_call loads inspect p context sibling = Inr (candidate', d', True)" and "pd_outcome d' = PathDeny"
  shows "stage_tool_release loads inspect (Some p) context stage depth [call] = Inr (ReleaseAsProposed [call])
     \<and> (\<exists>errors ids. stage_tool_release loads inspect (Some p) context stage depth [call, sibling]
          = Inr (ReleasePartly [candidate] errors ids))"
  using partition_pair [OF assms]
  by (auto simp: stage_tool_release_def partition_structured_tool_calls_def Let_def simp del: partition_calls.simps)

theorem rewriting_released_only_with_denial_witness:
  "example_calls ! 0 \<noteq> example_candidate
   \<and> stage_tool_release batch_loads unguarded (Some example_policy) None ''Answer'' 0 [example_calls ! 0]
       = Inr (ReleaseAsProposed [example_calls ! 0])"
proof -
  have judge: "case judge_call batch_loads unguarded example_policy None (example_calls ! 0) of Inl _ \<Rightarrow> False
      | Inr (c, d, a) \<Rightarrow> c = example_candidate \<and> pd_outcome d = PathAllow \<and> a" by code_simp
  have sibling: "case judge_call batch_loads unguarded example_policy None (example_calls ! 1) of Inl _ \<Rightarrow> False
      | Inr (c, d, a) \<Rightarrow> pd_outcome d = PathDeny \<and> a" by code_simp
  obtain d where j: "judge_call batch_loads unguarded example_policy None (example_calls ! 0) = Inr (example_candidate, d, True)"
    "pd_outcome d = PathAllow" using judge by (auto split: sum.splits)
  obtain c' d' where s: "judge_call batch_loads unguarded example_policy None (example_calls ! 1) = Inr (c', d', True)"
    "pd_outcome d' = PathDeny" using sibling by (auto split: sum.splits)
  have dicts: "is_dict (example_calls ! 0)" "is_dict (example_calls ! 1)" and "example_calls ! 0 \<noteq> example_candidate" by code_simp+
  then show ?thesis using rewriting_released_only_with_denial [OF dicts(1) j dicts(2) s] by blast
qed

section \<open>The admission\<close>









end
