(* ===== verification/PendingTools.thy ===== *)
theory PendingTools
  imports ToolRelease
begin

text \<open>
  The pending tool transactions of \<open>JackQwenKernel\<close> (\<open>jack_kernel.py\<close>): a stage that released tool
  calls is checkpointed under every one of their ids, the caller's results take it up again, and
  it is retired or armed again when the resumed stage ends. The transactions are objects, shared by
  the ids of the table, so the store holds them once and the table refers to them by position. Each
  operation runs under the kernel's lock, hence in one step; the clock is in microseconds.
\<close>

section \<open>The store\<close>

record pending_resume =
  pt_resume_id :: string
  pt_stage_key :: string
  pt_history :: "pyval list"
  pt_secondary_system :: string
  pt_usage :: pyval
  pt_tools :: pyval
  pt_tool_choice :: pyval
  pt_expected :: "string list"
  pt_created_at :: int
  pt_debugging_run_id :: "string option"
  pt_rejections :: "string list"
  pt_withheld :: "string list"
  pt_in_flight :: bool
  pt_accepted :: "pydict list option"
  pt_frozen_history :: "pyval list option"
  pt_frozen_answer :: "string option"

record resume_store =
  st_objects :: "pending_resume list"
  st_table :: "(string \<times> nat) list"

definition empty_resume_store :: resume_store where
  "empty_resume_store = \<lparr>st_objects = [], st_table = []\<rparr>"

definition pending_at :: "resume_store \<Rightarrow> nat \<Rightarrow> pending_resume" where
  "pending_at st r = st_objects st ! r"

definition update_pending :: "resume_store \<Rightarrow> nat \<Rightarrow> (pending_resume \<Rightarrow> pending_resume) \<Rightarrow> resume_store" where
  "update_pending st r f = st\<lparr>st_objects := (st_objects st)[r := f (pending_at st r)]\<rparr>"

definition lookup_pending :: "resume_store \<Rightarrow> string \<Rightarrow> nat option" where
  "lookup_pending st i = map_of (st_table st) i"

text \<open>\<open>_expire_pending_tool_resumes_locked\<close>: six hours.\<close>

definition RESUME_LIFETIME :: int where
  "RESUME_LIFETIME = 6 * 60 * 60 * 1000000"

definition stale_resumes :: "int \<Rightarrow> resume_store \<Rightarrow> string list" where
  "stale_resumes now st =
     map pt_resume_id (filter (\<lambda>s. pt_created_at s < now - RESUME_LIFETIME \<and> \<not> pt_in_flight s)
       (map (\<lambda>(i, r). pending_at st r) (st_table st)))"

definition expire_pending :: "int \<Rightarrow> resume_store \<Rightarrow> resume_store" where
  "expire_pending now st =
     st\<lparr>st_table := filter (\<lambda>(i, r). pt_resume_id (pending_at st r) \<notin> set (stale_resumes now st)) (st_table st)\<rparr>"

section \<open>Registering a checkpoint\<close>

text \<open>\<open>_tool_call_ids\<close> of the stage's calls.\<close>

fun stable_call_ids :: "pyval list \<Rightarrow> kernel_error + string list" where
  "stable_call_ids [] = Inr []"
| "stable_call_ids (call # rest) =
     (case call of
        PDict d \<Rightarrow>
          (case dict_get d ''id'' of
             PStr i \<Rightarrow>
               if py_strip i = [] then
                 Inl (HttpError 502 ''A tool-enabled Jack stage emitted a tool call without a stable tool_call id; stage-local resume is impossible.'')
               else try_bind (stable_call_ids rest) (\<lambda>ids. Inr (py_strip i # ids))
           | _ \<Rightarrow> Inl (HttpError 502 ''A tool-enabled Jack stage emitted a tool call without a stable tool_call id; stage-local resume is impossible.''))
      | _ \<Rightarrow> stable_call_ids rest)"

definition tool_call_ids :: "pyval list \<Rightarrow> kernel_error + string list" where
  "tool_call_ids calls =
     try_bind (stable_call_ids calls) (\<lambda>ids.
       if \<not> distinct ids then
         Inl (HttpError 502 ''A tool-enabled Jack stage emitted duplicate tool_call ids; stage-local resume is impossible.'')
       else Inr ids)"

record reasoning_modes =
  rm_ultra :: bool
  rm_deep :: bool
  rm_agentic :: bool
  rm_debugging :: bool

definition DEBUGGING_PASS_COUNT :: nat where
  "DEBUGGING_PASS_COUNT = 5"

definition allowed_tool_stages :: "reasoning_modes \<Rightarrow> string list" where
  "allowed_tool_stages m =
     (if rm_ultra m then [''extended_synthesis'']
      else if rm_deep m then [''deep_reasoning_antithesis'', ''deep_reasoning_synthesis'', ''deep_reasoning_thesis'']
      else if rm_agentic m then [''extended_initial'']
      else if rm_debugging m then map (\<lambda>i. ''debug_pass_'' @ nat_text i) [1..<DEBUGGING_PASS_COUNT + 1]
      else [''thesis''])"

definition nonempty_str :: "pyval \<Rightarrow> string option" where
  "nonempty_str v = (case v of PStr s \<Rightarrow> if s = [] then None else Some s | _ \<Rightarrow> None)"

text \<open>The checkpointed assistant message: the first of the three reasoning fields that is a text.\<close>

definition reasoning_fields :: "pydict \<Rightarrow> pydict" where
  "reasoning_fields msg =
     (case nonempty_str (dict_get msg ''reasoning_content'') of
        Some s \<Rightarrow> [(''reasoning_content'', PStr s), (''reasoning'', PStr s)]
      | None \<Rightarrow>
          (case nonempty_str (dict_get msg ''reasoning'') of
             Some s \<Rightarrow> [(''reasoning'', PStr s)]
           | None \<Rightarrow> (case nonempty_str (dict_get msg ''thinking'') of Some s \<Rightarrow> [(''thinking'', PStr s)] | None \<Rightarrow> [])))"

definition checkpoint_message :: "pydict \<Rightarrow> pyval list \<Rightarrow> string \<Rightarrow> pyval" where
  "checkpoint_message msg calls stage_key =
     PDict ([(''role'', PStr ''assistant''),
             (''content'', if truthy (dict_get msg ''content'') then dict_get msg ''content'' else PStr []),
             (''tool_calls'', PList calls), (''_jack_internal_tool_exchange'', PBool True), (''_jack_stage_key'', PStr stage_key)]
            @ reasoning_fields msg)"

definition text_items :: "pyval \<Rightarrow> string list" where
  "text_items v = (case v of PList items \<Rightarrow> filter (\<lambda>s. py_strip s \<noteq> []) (map py_str items) | _ \<Rightarrow> [])"

text \<open>\<open>dict.fromkeys\<close> keeps the first of equal ids.\<close>

fun first_of_each :: "string list \<Rightarrow> string list" where
  "first_of_each [] = []"
| "first_of_each (s # ss) = s # filter (\<lambda>t. t \<noteq> s) (first_of_each ss)"

definition withheld_ids :: "pydict \<Rightarrow> string list" where
  "withheld_ids msg = first_of_each (map py_strip (text_items (dict_get msg ''_jack_phase4_withheld_tool_call_ids'')))"

record stage_checkpoint =
  sc_stage_key :: string
  sc_history :: "pyval list"
  sc_secondary_system :: string
  sc_usage :: pyval
  sc_tools :: pyval
  sc_tool_choice :: pyval
  sc_message :: pydict
  sc_debugging_run_id :: "string option"

definition message_calls :: "pydict \<Rightarrow> pyval list" where
  "message_calls msg = (case dict_get msg ''tool_calls'' of PList cs \<Rightarrow> cs | _ \<Rightarrow> [])"

definition new_pending :: "string \<Rightarrow> int \<Rightarrow> stage_checkpoint \<Rightarrow> string list \<Rightarrow> pending_resume" where
  "new_pending resume_id now c ids =
     \<lparr>pt_resume_id = resume_id, pt_stage_key = sc_stage_key c,
      pt_history = sc_history c @ [checkpoint_message (sc_message c) (message_calls (sc_message c)) (sc_stage_key c)],
      pt_secondary_system = sc_secondary_system c, pt_usage = sc_usage c, pt_tools = sc_tools c, pt_tool_choice = sc_tool_choice c,
      pt_expected = ids, pt_created_at = now, pt_debugging_run_id = sc_debugging_run_id c,
      pt_rejections = text_items (dict_get (sc_message c) ''_jack_phase4_deferred_tool_rejection_errors''),
      pt_withheld = withheld_ids (sc_message c), pt_in_flight = False, pt_accepted = None,
      pt_frozen_history = None, pt_frozen_answer = None\<rparr>"

text \<open>\<open>_register_stage_tool_resume\<close> from the history that is to be checkpointed (how the mode prepares it is
  not modelled); \<open>stage_name\<close> is \<open>STAGES[...].name\<close>. The expiry happens before the collision is found.\<close>

definition register_stage_tool_resume ::
    "(string \<Rightarrow> string) \<Rightarrow> reasoning_modes \<Rightarrow> string \<Rightarrow> int \<Rightarrow> stage_checkpoint \<Rightarrow> resume_store
       \<Rightarrow> resume_store \<times> (kernel_error + pending_resume)" where
  "register_stage_tool_resume stage_name modes resume_id now c st =
     (let calls = message_calls (sc_message c) in
      if sc_stage_key c \<notin> set (allowed_tool_stages modes) then
        (st, Inl (HttpError 500 (''Stage '' @ sc_stage_key c @ '' is not tool-enabled'')))
      else (case tool_call_ids calls of
          Inl e \<Rightarrow> (st, Inl e)
        | Inr ids \<Rightarrow>
            if ids = [] then (st, Inl (HttpError 500 (''Attempted to checkpoint '' @ sc_stage_key c @ '' without a tool call'')))
            else if set (withheld_ids (sc_message c)) \<inter> set ids \<noteq> {} then
              (st, Inl (HttpError 500 ''Jack checkpoint provenance overlaps released and withheld tool_call ids.''))
            else (let st' = expire_pending now st; collision = filter (\<lambda>i. lookup_pending st' i \<noteq> None) ids;
                      state = new_pending resume_id now c ids in
              if collision \<noteq> [] then
                (st', Inl (HttpError 409 (stage_name (sc_stage_key c) @ '' tool_call_id collision with an existing pending transaction: ''
                   @ comma_join collision)))
              else (st'\<lparr>st_objects := st_objects st' @ [state],
                      st_table := st_table st' @ map (\<lambda>i. (i, length (st_objects st'))) ids\<rparr>, Inr state))))"

text \<open>\<open>_phase4_pending_tool_call_snapshot\<close>.\<close>

definition history_call :: "pyval list \<Rightarrow> string \<Rightarrow> pyval option" where
  "history_call history i =
     (case filter (\<lambda>call. is_dict call \<and> call_id call = i)
        (concat (map (\<lambda>m. case m of PDict d \<Rightarrow> message_calls d | _ \<Rightarrow> []) (rev history))) of
        [] \<Rightarrow> None | call # _ \<Rightarrow> Some call)"

definition pending_tool_call_snapshot :: "int \<Rightarrow> string \<Rightarrow> resume_store \<Rightarrow> resume_store \<times> (kernel_error + pyval)" where
  "pending_tool_call_snapshot now tool_call_id st =
     (let i = py_strip tool_call_id in
      if i = [] then (st, refuse 400 ''requires tool_call_id'')
      else (let st' = expire_pending now st in
        (st', case lookup_pending st' i of
            None \<Rightarrow> refuse 409 ''does not match a pending Jack tool call''
          | Some r \<Rightarrow>
              (case history_call (pt_history (pending_at st' r)) i of
                 None \<Rightarrow> Inl (HttpError 500 ''Pending Jack tool transaction is missing its released call'')
               | Some call \<Rightarrow> Inr call))))"

section \<open>The caller's results\<close>

definition tool_result_explicitly_failed :: "pydict \<Rightarrow> bool" where
  "tool_result_explicitly_failed m =
     (dict_get m ''is_error'' = PBool True \<or> dict_get m ''success'' = PBool False
      \<or> py_lower (py_strip (str_or_empty (dict_get m ''status''))) \<in> {''error'', ''failed'', ''failure''}
      \<or> \<not> list_ex (py_eq (dict_get m ''error'')) [PNone, PBool False, PStr [], PDict [], PList []])"

definition result_message :: "string \<Rightarrow> pydict \<Rightarrow> pydict" where
  "result_message i raw =
     [(''role'', PStr ''tool''), (''tool_call_id'', PStr i), (''content'', dict_get raw ''content''),
      (''_jack_internal_tool_exchange'', PBool True)]
     @ (if dict_get raw ''name'' \<noteq> PNone then [(''name'', dict_get raw ''name'')] else [])
     @ (if tool_result_explicitly_failed raw then [(''_jack_internal_tool_failed'', PBool True), (''_jack_failure_carry_hops'', PInt 1)] else [])"

text \<open>The tool results among the messages: their ids and the messages that are kept of them.\<close>

definition is_tool_message :: "pyval \<Rightarrow> bool" where
  "is_tool_message m = (case m of PDict d \<Rightarrow> dict_get d ''role'' = PStr ''tool'' | _ \<Rightarrow> False)"

fun tool_results :: "pyval list \<Rightarrow> (string \<times> pydict) list" where
  "tool_results [] = []"
| "tool_results (m # ms) =
     (case m of
        PDict d \<Rightarrow>
          (case dict_get d ''tool_call_id'' of
             PStr i \<Rightarrow>
               if is_tool_message m \<and> py_strip i \<noteq> [] then (py_strip i, result_message (py_strip i) d) # tool_results ms
               else tool_results ms
           | _ \<Rightarrow> tool_results ms)
      | _ \<Rightarrow> tool_results ms)"

definition conflict :: "string \<Rightarrow> kernel_error + 'a" where
  "conflict m = Inl (HttpError 409 m)"

definition sorted_ids :: "string list \<Rightarrow> string" where
  "sorted_ids ids = comma_join (sort (remdups ids))"

text \<open>The evidence of the transaction: what it accepted before, or the results it is given.\<close>

definition bind_evidence :: "pending_resume \<Rightarrow> pydict list \<Rightarrow> kernel_error + pydict list" where
  "bind_evidence s given =
     (case pt_accepted s of
        None \<Rightarrow> Inr given
      | Some accepted \<Rightarrow>
          if py_eq (PList (map PDict accepted)) (PList (map PDict given)) then Inr accepted
          else conflict ''Retried tool results differ from authenticated results already accepted by Jack.'')"

text \<open>The checks that select the transaction, on the store without its stale entries.\<close>

definition select_pending ::
    "(string \<Rightarrow> string) \<Rightarrow> (string \<times> pydict) list \<Rightarrow> resume_store \<Rightarrow> kernel_error + (nat \<times> pydict list) option" where
  "select_pending stage_name results st =
     (let ids = map fst results;
          withheld = concat (map (\<lambda>(i, r). pt_withheld (pending_at st r)) (st_table st));
          live = filter (\<lambda>i. lookup_pending st i \<noteq> None) ids in
      if list_ex (\<lambda>i. i \<in> set withheld) ids then
        conflict (''Tool-result request contains result(s) for Jack-withheld tool_call_id(s): '' @ sorted_ids (filter (\<lambda>i. i \<in> set withheld) ids))
      else (case live of
          [] \<Rightarrow> Inr None
        | first # _ \<Rightarrow>
            if \<not> distinct live then conflict ''Duplicate tool_call_id values in one Jack tool-result request.''
            else (let refs = map (\<lambda>i. the (lookup_pending st i)) live; r = hd refs; s = pending_at st r; expected = pt_expected s in
              if list_ex (\<lambda>q. pt_resume_id (pending_at st q) \<noteq> pt_resume_id s) refs then
                conflict ''Tool-result request matches multiple pending Jack stage transactions.''
              else if pt_in_flight s then
                conflict (stage_name (pt_stage_key s) @ '' tool-result transaction is already being resumed.'')
              else if \<not> set live \<subseteq> set expected then
                conflict (''Unexpected '' @ stage_name (pt_stage_key s) @ '' tool-result tool_call_id(s): ''
                  @ sorted_ids (filter (\<lambda>i. i \<notin> set expected) live))
              else if \<not> set expected \<subseteq> set live then
                conflict (''Incomplete '' @ stage_name (pt_stage_key s) @ '' tool-result set; missing tool_call_id(s): ''
                  @ sorted_ids (filter (\<lambda>i. i \<notin> set live) expected))
              else try_bind (bind_evidence s (map snd (sort_key fst (filter (\<lambda>(i, m). i \<in> set expected) results))))
                (\<lambda>evidence. Inr (Some (r, evidence))))))"

text \<open>\<open>_consume_pending_tool_resume\<close>: \<open>None\<close> when the request is no continuation of a live transaction.\<close>

definition consume_pending_tool_resume ::
    "(string \<Rightarrow> string) \<Rightarrow> int \<Rightarrow> pyval list \<Rightarrow> resume_store
       \<Rightarrow> resume_store \<times> (kernel_error + (nat \<times> pydict list) option)" where
  "consume_pending_tool_resume stage_name now messages st =
     (if messages = [] \<or> \<not> is_tool_message (last messages) then (st, Inr None)
      else if tool_results messages = [] then (st, Inr None)
      else (let st' = expire_pending now st in
        case select_pending stage_name (tool_results messages) st' of
          Inr (Some (r, evidence)) \<Rightarrow>
            (update_pending st' r (\<lambda>s. s\<lparr>pt_accepted := Some evidence, pt_in_flight := True\<rparr>), Inr (Some (r, evidence)))
        | answer \<Rightarrow> (st', answer)))"

text \<open>\<open>_pending_tool_resume_history\<close>; \<open>notice\<close> is the message of \<open>_tool_rejection_notice\<close>, whose fixed text
  has characters beyond the modelled range.\<close>

definition pending_tool_resume_history ::
    "(string list \<Rightarrow> string \<Rightarrow> pyval) \<Rightarrow> (string \<Rightarrow> string) \<Rightarrow> pending_resume \<Rightarrow> pydict list \<Rightarrow> pyval list" where
  "pending_tool_resume_history notice stage_name s results =
     pt_history s @ map PDict results
       @ (if pt_rejections s \<noteq> [] then [notice (pt_rejections s) (stage_name (pt_stage_key s))] else [])"

section \<open>The end of a resumption\<close>

definition retire_pending :: "nat \<Rightarrow> resume_store \<Rightarrow> resume_store" where
  "retire_pending r st =
     update_pending (st\<lparr>st_table := filter (\<lambda>(i, q). \<not> (i \<in> set (pt_expected (pending_at st r)) \<and> q = r)) (st_table st)\<rparr>)
       r (\<lambda>s. s\<lparr>pt_in_flight := False\<rparr>)"

definition rearm_pending :: "nat \<Rightarrow> resume_store \<Rightarrow> resume_store" where
  "rearm_pending r st =
     (if list_ex (\<lambda>i. lookup_pending st i = Some r) (pt_expected (pending_at st r))
      then update_pending st r (\<lambda>s. s\<lparr>pt_in_flight := False\<rparr>) else st)"

definition message_ids :: "pyval list \<Rightarrow> string list" where
  "message_ids messages =
     filter (\<lambda>i. i \<noteq> []) (map (\<lambda>m. case m of PDict d \<Rightarrow> py_strip (str_or_empty (dict_get d ''tool_call_id'')) | _ \<Rightarrow> [])
       (filter is_tool_message messages))"

definition rearm_for_messages :: "pyval \<Rightarrow> resume_store \<Rightarrow> resume_store" where
  "rearm_for_messages messages st =
     (case messages of
        PList ms \<Rightarrow> fold (\<lambda>i st. case lookup_pending st i of None \<Rightarrow> st
            | Some r \<Rightarrow> update_pending st r (\<lambda>s. s\<lparr>pt_in_flight := False\<rparr>)) (message_ids ms) st
      | _ \<Rightarrow> st)"

end
