(* ===== verification/PendingProperties.thy ===== *)
theory PendingProperties
  imports PendingTools "HOL-Library.Multiset"
begin

text \<open>
  What the pending tool transactions guarantee in every interleaving of the kernel's requests: the
  table holds a transaction under all of its ids or under none, a resumed transaction has the
  complete results of its calls, and the results it accepted first are the ones every later
  resumption gets. One operation, the re-arming by message ids, is shown to undo the exclusion of a
  second resumption.
\<close>

section \<open>Steps\<close>

inductive resume_step :: "resume_store \<Rightarrow> resume_store \<Rightarrow> bool" where
  register: "resume_id \<notin> pt_resume_id ` set (st_objects st) \<Longrightarrow>
     resume_step st (fst (register_stage_tool_resume stage_name modes resume_id now c st))"
| snapshot: "resume_step st (fst (pending_tool_call_snapshot now i st))"
| consume: "resume_step st (fst (consume_pending_tool_resume stage_name now messages st))"
| retire: "resume_step st (retire_pending r st)"
| rearm: "resume_step st (rearm_pending r st)"
| rearm_messages: "resume_step st (rearm_for_messages v st)"

section \<open>The invariant\<close>

definition evidence_ok :: "pending_resume \<Rightarrow> bool" where
  "evidence_ok s \<longleftrightarrow> distinct (pt_expected s) \<and> (pt_in_flight s \<longrightarrow> pt_accepted s \<noteq> None)
     \<and> (\<forall>ms. pt_accepted s = Some ms \<longrightarrow> map (\<lambda>m. dict_get m ''tool_call_id'') ms = map PStr (sort (pt_expected s)))"

definition store_ok :: "resume_store \<Rightarrow> bool" where
  "store_ok st \<longleftrightarrow> distinct (map fst (st_table st)) \<and> distinct (map pt_resume_id (st_objects st))
     \<and> (\<forall>(i, r) \<in> set (st_table st). r < length (st_objects st) \<and> i \<in> set (pt_expected (pending_at st r))
          \<and> (\<forall>j \<in> set (pt_expected (pending_at st r)). (j, r) \<in> set (st_table st)))
     \<and> (\<forall>s \<in> set (st_objects st). evidence_ok s)"

lemma store_okD:
  assumes "store_ok st"
  shows "distinct (map fst (st_table st))" and "distinct (map pt_resume_id (st_objects st))"
    and "(i, r) \<in> set (st_table st) \<Longrightarrow> r < length (st_objects st)"
    and "(i, r) \<in> set (st_table st) \<Longrightarrow> i \<in> set (pt_expected (pending_at st r))"
    and "(i, r) \<in> set (st_table st) \<Longrightarrow> j \<in> set (pt_expected (pending_at st r)) \<Longrightarrow> (j, r) \<in> set (st_table st)"
    and "r < length (st_objects st) \<Longrightarrow> evidence_ok (pending_at st r)"
  using assms by (auto simp: store_ok_def pending_at_def)

lemma pending_at_update:
  "r < length (st_objects st) \<Longrightarrow> pending_at (update_pending st r f) q = (if q = r then f (pending_at st r) else pending_at st q)"
  by (simp add: update_pending_def pending_at_def)

lemma update_pending_outside: "\<not> r < length (st_objects st) \<Longrightarrow> update_pending st r f = st"
  by (simp add: update_pending_def list_update_beyond)

lemma update_pending_fields [simp]:
  "st_table (update_pending st r f) = st_table st" "length (st_objects (update_pending st r f)) = length (st_objects st)"
  by (simp_all add: update_pending_def)

lemma update_pending_ok:
  assumes "store_ok st" and "\<And>s. pt_resume_id (f s) = pt_resume_id s" and "\<And>s. pt_expected (f s) = pt_expected s"
    and "r < length (st_objects st) \<Longrightarrow> evidence_ok (f (pending_at st r))"
  shows "store_ok (update_pending st r f)"
proof (cases "r < length (st_objects st)")
  case True
  have ids: "map pt_resume_id (st_objects (update_pending st r f)) = map pt_resume_id (st_objects st)"
    using True assms(2) by (simp add: update_pending_def map_update pending_at_def list_update_same_conv)
  have expected: "pt_expected (pending_at (update_pending st r f) q) = pt_expected (pending_at st q)" for q
    using True assms(3) by (simp add: pending_at_update)
  have "evidence_ok s" if "s \<in> set (st_objects (update_pending st r f))" for s
    using that True assms(4) store_okD(6) [OF assms(1)] set_update_subset_insert [of "st_objects st" r "f (pending_at st r)"]
      assms(1) by (auto simp: update_pending_def store_ok_def)
  then show ?thesis using assms(1) ids expected by (simp add: store_ok_def case_prod_beta)
qed (use assms(1) in \<open>simp add: update_pending_outside\<close>)

lemma table_filter_ok:
  assumes "store_ok st"
    and "\<And>i j r. (i, r) \<in> set (st_table st) \<Longrightarrow> P (i, r) \<Longrightarrow> j \<in> set (pt_expected (pending_at st r)) \<Longrightarrow> P (j, r)"
  shows "store_ok (st\<lparr>st_table := filter P (st_table st)\<rparr>)"
  using assms(1) assms(2) unfolding store_ok_def pending_at_def
  by (auto simp: distinct_map_filter)

lemma expire_pending_ok: "store_ok st \<Longrightarrow> store_ok (expire_pending now st)"
  unfolding expire_pending_def by (rule table_filter_ok) auto

lemma expire_pending_fields [simp]:
  "st_objects (expire_pending now st) = st_objects st" "pending_at (expire_pending now st) r = pending_at st r"
  by (simp_all add: expire_pending_def pending_at_def)

lemma retire_pending_ok: "store_ok st \<Longrightarrow> store_ok (retire_pending r st)"
  unfolding retire_pending_def
  by (rule update_pending_ok [OF table_filter_ok])
    (auto simp: evidence_ok_def pending_at_def dest: store_okD(4,6) [unfolded pending_at_def evidence_ok_def])

lemma rearm_object_ok:
  "store_ok st \<Longrightarrow> store_ok (update_pending st r (\<lambda>s. s\<lparr>pt_in_flight := False\<rparr>))"
  by (rule update_pending_ok) (auto simp: evidence_ok_def dest: store_okD(6) [of _ r, unfolded evidence_ok_def])

lemma rearm_for_messages_ok: "store_ok st \<Longrightarrow> store_ok (rearm_for_messages v st)"
proof -
  have "store_ok (fold (\<lambda>i st. case lookup_pending st i of None \<Rightarrow> st
      | Some r \<Rightarrow> update_pending st r (\<lambda>s. s\<lparr>pt_in_flight := False\<rparr>)) ids st)" if "store_ok st" for ids
    using that rearm_object_ok by (induction ids arbitrary: st) (auto split: option.split)
  then show "store_ok st \<Longrightarrow> ?thesis" by (simp add: rearm_for_messages_def split: pyval.split)
qed

lemma stable_call_ids_PStr: "tool_call_ids calls = Inr ids \<Longrightarrow> distinct ids"
  by (auto simp: tool_call_ids_def try_bind_Inr_iff split: if_splits)

lemma register_ok:
  assumes "store_ok st" and "resume_id \<notin> pt_resume_id ` set (st_objects st)"
  shows "store_ok (fst (register_stage_tool_resume stage_name modes resume_id now c st))"
proof -
  let ?st = "expire_pending now st"
  have ok: "store_ok ?st" by (rule expire_pending_ok [OF assms(1)])
  have new: "store_ok (?st\<lparr>st_objects := st_objects ?st @ [s], st_table := st_table ?st @ map (\<lambda>i. (i, length (st_objects ?st))) ids\<rparr>)"
    if "tool_call_ids calls = Inr ids" and "\<forall>i \<in> set ids. lookup_pending ?st i = None" and "s = new_pending resume_id now c ids"
    for s ids calls
  proof -
    have d: "distinct ids" using that(1) by (rule stable_call_ids_PStr)
    have "\<forall>i \<in> set ids. i \<notin> fst ` set (st_table ?st)" using that(2) by (simp add: lookup_pending_def map_of_eq_None_iff)
    then have dt: "distinct (map fst (st_table ?st @ map (\<lambda>i. (i, length (st_objects ?st))) ids))"
      using d store_okD(1) [OF ok] by (auto simp: comp_def)
    have old: "(st_objects ?st @ [s]) ! r = st_objects ?st ! r" if "(i, r) \<in> set (st_table ?st)" for i r
      using store_okD(3) [OF ok that] by (simp add: nth_append)
    have ev: "evidence_ok s" using d that(3) by (simp add: evidence_ok_def new_pending_def)
    have rid: "pt_resume_id s = resume_id" "pt_expected s = ids" using that(3) by (simp_all add: new_pending_def)
    let ?new = "?st\<lparr>st_objects := st_objects ?st @ [s], st_table := st_table ?st @ map (\<lambda>i. (i, length (st_objects ?st))) ids\<rparr>"
    have "r < length (st_objects ?new) \<and> i \<in> set (pt_expected (pending_at ?new r))
        \<and> (\<forall>j \<in> set (pt_expected (pending_at ?new r)). (j, r) \<in> set (st_table ?new))" if "(i, r) \<in> set (st_table ?new)" for i r
    proof (cases "(i, r) \<in> set (st_table ?st)")
      case True
      then have at: "pending_at ?new r = pending_at ?st r" using old by (simp add: pending_at_def)
      show ?thesis using store_okD(3-5) [OF ok True] unfolding at by auto
    next
      case False
      then have "i \<in> set ids" "r = length (st_objects ?st)" using that by auto
      then show ?thesis using rid(2) by (simp add: pending_at_def)
    qed
    then have entries: "\<forall>(i, r) \<in> set (st_table ?new). r < length (st_objects ?new) \<and> i \<in> set (pt_expected (pending_at ?new r))
        \<and> (\<forall>j \<in> set (pt_expected (pending_at ?new r)). (j, r) \<in> set (st_table ?new))" by blast
    have "distinct (map pt_resume_id (st_objects ?new))" using store_okD(2) [OF assms(1)] assms(2) rid(1) by simp
    moreover have "\<forall>x \<in> set (st_objects ?new). evidence_ok x" using ev assms(1) by (simp add: store_ok_def)
    ultimately show ?thesis using dt entries unfolding store_ok_def by simp
  qed
  show ?thesis
    using assms(1) ok new
    by (auto simp: register_stage_tool_resume_def Let_def filter_empty_conv split: sum.split)
qed

lemma tool_results_ids: "(i, m) \<in> set (tool_results ms) \<Longrightarrow> dict_get m ''tool_call_id'' = PStr i"
proof (induction ms rule: tool_results.induct)
  case (2 x ms)
  show ?case
  proof (cases "\<exists>d k. x = PDict d \<and> dict_get d ''tool_call_id'' = PStr k \<and> is_tool_message x \<and> py_strip k \<noteq> []")
    case True
    then obtain d k where x: "x = PDict d" "dict_get d ''tool_call_id'' = PStr k" "is_tool_message x" "py_strip k \<noteq> []" by blast
    then have "(i, m) = (py_strip k, result_message (py_strip k) d) \<or> (i, m) \<in> set (tool_results ms)"
      using "2.prems" by simp
    then show ?thesis using "2.IH" x by (auto simp: result_message_def dict_get_def)
  next
    case False
    then have "tool_results (x # ms) = tool_results ms" by (auto split: pyval.splits)
    then show ?thesis using "2.prems" "2.IH" False by (auto split: pyval.splits if_splits)
  qed
qed simp

section \<open>Selecting a transaction\<close>

lemma select_pending_steps:
  assumes "select_pending stage_name results st = Inr (Some (r, evidence))"
  obtains live where "live = filter (\<lambda>i. lookup_pending st i \<noteq> None) (map fst results)" "live \<noteq> []" "distinct live"
    "lookup_pending st (hd live) = Some r" "\<not> pt_in_flight (pending_at st r)"
    "set live = set (pt_expected (pending_at st r))"
    "bind_evidence (pending_at st r) (map snd (sort_key fst (filter (\<lambda>(i, m). i \<in> set (pt_expected (pending_at st r))) results)))
       = Inr evidence"
proof -
  let ?live = "filter (\<lambda>i. lookup_pending st i \<noteq> None) (map fst results)"
  obtain first rest where l: "?live = first # rest"
    using assms by (cases ?live) (auto simp: select_pending_def Let_def conflict_def split: if_splits)
  then have "first \<in> set ?live" by (metis list.set_intros(1))
  then obtain q where q: "lookup_pending st first = Some q" by auto
  have "distinct ?live \<and> r = q \<and> \<not> pt_in_flight (pending_at st q)
      \<and> set ?live \<subseteq> set (pt_expected (pending_at st q)) \<and> set (pt_expected (pending_at st q)) \<subseteq> set ?live
      \<and> bind_evidence (pending_at st q) (map snd (sort_key fst (filter (\<lambda>(i, m). i \<in> set (pt_expected (pending_at st q))) results)))
         = Inr evidence"
    using assms unfolding select_pending_def Let_def l
    by (simp add: q conflict_def try_bind_Inr_iff split: if_splits) (blast?)
  then show thesis using that [OF refl] l q by auto
qed

lemma select_pending_first:
  assumes "select_pending stage_name results st = Inr (Some (r, evidence))"
  obtains i where "i \<in> set (map fst results)" "lookup_pending st i = Some r"
proof -
  from assms obtain live where live: "live = filter (\<lambda>i. lookup_pending st i \<noteq> None) (map fst results)" "live \<noteq> []"
    "lookup_pending st (hd live) = Some r" by (rule select_pending_steps)
  have "hd live \<in> set live" by (rule list.set_sel(1) [OF live(2)])
  then have "hd live \<in> set (map fst results)" using filter_is_subset [of _ "map fst results"] unfolding live(1) by (rule subsetD [rotated])
  then show thesis using that live(3) by blast
qed

lemma filter_by_live:
  assumes "distinct live" and "live = filter P (map fst results)" and "set live = set expected" and "distinct expected"
    and "\<forall>i \<in> set expected. P i"
  shows "map fst (sort_key fst (filter (\<lambda>(i, m). i \<in> set expected) results)) = sort expected"
proof -
  let ?f = "filter (\<lambda>(i, m). i \<in> set expected) results"
  have "map fst ?f = filter (\<lambda>i. i \<in> set expected) (map fst results)"
    by (induction results) auto
  also have "\<dots> = live" unfolding assms(2)
    by (rule filter_cong [OF refl]) (use assms(2,3,5) in auto)
  finally have f: "map fst ?f = live" .
  have m: "mset live = mset expected" using assms(1,3,4) by (simp add: set_eq_iff_mset_eq_distinct)
  have "mset (map fst (sort_key fst ?f)) = mset expected" by (metis f m mset_map mset_sort)
  moreover have "sorted (map fst (sort_key fst ?f))" by simp
  ultimately show ?thesis by (metis properties_for_sort)
qed

lemma select_pending_evidence:
  assumes "store_ok st" and "select_pending stage_name results st = Inr (Some (r, evidence))"
    and "\<forall>(i, m) \<in> set results. dict_get m ''tool_call_id'' = PStr i"
  shows "r < length (st_objects st) \<and> \<not> pt_in_flight (pending_at st r)
     \<and> (\<forall>i \<in> set (pt_expected (pending_at st r)). lookup_pending st i = Some r)
     \<and> map (\<lambda>m. dict_get m ''tool_call_id'') evidence = map PStr (sort (pt_expected (pending_at st r)))
     \<and> (pt_accepted (pending_at st r) = None \<or> pt_accepted (pending_at st r) = Some evidence)"
proof -
  from assms(2) obtain live where live: "live = filter (\<lambda>i. lookup_pending st i \<noteq> None) (map fst results)" "live \<noteq> []" "distinct live"
    "lookup_pending st (hd live) = Some r" "\<not> pt_in_flight (pending_at st r)"
    "set live = set (pt_expected (pending_at st r))"
    "bind_evidence (pending_at st r) (map snd (sort_key fst (filter (\<lambda>(i, m). i \<in> set (pt_expected (pending_at st r))) results)))
       = Inr evidence"
    by (rule select_pending_steps)
  let ?s = "pending_at st r" and ?given = "sort_key fst (filter (\<lambda>(i, m). i \<in> set (pt_expected (pending_at st r))) results)"
  have "(hd live, r) \<in> set (st_table st)" using live(4) by (simp add: lookup_pending_def map_of_SomeD)
  note t = store_okD(3,5) [OF assms(1) this]
  have look: "lookup_pending st i = Some r" if "i \<in> set (pt_expected ?s)" for i
    using t(2) [OF that] store_okD(1) [OF assms(1)] by (simp add: lookup_pending_def)
  have ev: "evidence_ok ?s" using store_okD(6) [OF assms(1) t(1)] .
  have "map fst ?given = sort (pt_expected ?s)"
    by (rule filter_by_live [OF live(3,1,6)]) (use ev look in \<open>auto simp: evidence_ok_def\<close>)
  moreover have "map (\<lambda>m. dict_get m ''tool_call_id'') (map snd ?given) = map PStr (map fst ?given)"
    using assms(3) by auto
  ultimately have given: "map (\<lambda>m. dict_get m ''tool_call_id'') (map snd ?given) = map PStr (sort (pt_expected ?s))" by simp
  have "map (\<lambda>m. dict_get m ''tool_call_id'') evidence = map PStr (sort (pt_expected ?s))
      \<and> (pt_accepted ?s = None \<or> pt_accepted ?s = Some evidence)"
  proof (cases "pt_accepted ?s")
    case None
    then show ?thesis using live(7) given by (simp add: bind_evidence_def)
  next
    case (Some ms)
    then have "evidence = ms" using live(7) by (simp add: bind_evidence_def conflict_def split: if_splits)
    then show ?thesis using Some ev by (simp add: evidence_ok_def)
  qed
  then show ?thesis using t(1) live(5) look by blast
qed

lemma consume_steps:
  assumes "consume_pending_tool_resume stage_name now messages st = (st', Inr (Some (r, evidence)))"
  shows "select_pending stage_name (tool_results messages) (expire_pending now st) = Inr (Some (r, evidence))
     \<and> st' = update_pending (expire_pending now st) r (\<lambda>s. s\<lparr>pt_accepted := Some evidence, pt_in_flight := True\<rparr>)"
  using assms by (auto simp: consume_pending_tool_resume_def Let_def split: if_splits sum.splits option.splits)

lemma consume_cases:
  obtains (kept) "fst (consume_pending_tool_resume stage_name now messages st) = st"
    | (expired) "fst (consume_pending_tool_resume stage_name now messages st) = expire_pending now st"
    | (taken) r evidence where "consume_pending_tool_resume stage_name now messages st =
        (update_pending (expire_pending now st) r (\<lambda>s. s\<lparr>pt_accepted := Some evidence, pt_in_flight := True\<rparr>), Inr (Some (r, evidence)))"
proof (cases "messages = [] \<or> \<not> is_tool_message (last messages) \<or> tool_results messages = []")
  case True
  then show thesis by (intro kept) (auto simp: consume_pending_tool_resume_def)
next
  case False
  then have c: "consume_pending_tool_resume stage_name now messages st =
      (case select_pending stage_name (tool_results messages) (expire_pending now st) of
         Inr (Some (r, evidence)) \<Rightarrow>
           (update_pending (expire_pending now st) r (\<lambda>s. s\<lparr>pt_accepted := Some evidence, pt_in_flight := True\<rparr>), Inr (Some (r, evidence)))
       | answer \<Rightarrow> (expire_pending now st, answer))"
    by (simp add: consume_pending_tool_resume_def Let_def)
  show thesis
  proof (cases "select_pending stage_name (tool_results messages) (expire_pending now st)")
    case (Inl e)
    then show thesis by (intro expired) (simp add: c)
  next
    case (Inr answer)
    then show thesis
      by (cases answer) (auto simp: c intro: expired taken)
  qed
qed

lemma tool_results_wf: "\<forall>(i, m) \<in> set (tool_results ms). dict_get m ''tool_call_id'' = PStr i"
  using tool_results_ids by blast

lemma consume_ok: "store_ok st \<Longrightarrow> store_ok (fst (consume_pending_tool_resume stage_name now messages st))"
proof (cases rule: consume_cases [of stage_name now messages st])
  case (taken r evidence)
  assume ok: "store_ok st"
  have sel: "select_pending stage_name (tool_results messages) (expire_pending now st) = Inr (Some (r, evidence))"
    using consume_steps [OF taken] by simp
  note ev = select_pending_evidence [OF expire_pending_ok [OF ok] sel tool_results_wf]
  have "evidence_ok (pending_at st r)" using ev store_okD(6) [OF ok] by simp
  then have "store_ok (update_pending (expire_pending now st) r (\<lambda>s. s\<lparr>pt_accepted := Some evidence, pt_in_flight := True\<rparr>))"
    using ev by (intro update_pending_ok [OF expire_pending_ok [OF ok]]) (auto simp: evidence_ok_def)
  then show ?thesis using taken by simp
qed (simp_all add: expire_pending_ok)

lemma snapshot_store: "fst (pending_tool_call_snapshot now i st) \<in> {st, expire_pending now st}"
  by (simp add: pending_tool_call_snapshot_def Let_def)

lemma rearm_pending_ok: "store_ok st \<Longrightarrow> store_ok (rearm_pending r st)"
  using rearm_object_ok by (simp add: rearm_pending_def)

lemma resume_step_ok: "resume_step st st' \<Longrightarrow> store_ok st \<Longrightarrow> store_ok st'"
proof (induction rule: resume_step.induct)
  case (snapshot st now i)
  then show ?case using snapshot_store [of now i st] expire_pending_ok by fastforce
qed (simp_all add: register_ok consume_ok retire_pending_ok rearm_pending_ok rearm_for_messages_ok)

lemma reachable_ok: "resume_step\<^sup>*\<^sup>* empty_resume_store st \<Longrightarrow> store_ok st"
proof (induction rule: rtranclp_induct)
  case base
  then show ?case by (simp add: store_ok_def empty_resume_store_def)
next
  case (step st st')
  then show ?case by (simp add: resume_step_ok)
qed

text \<open>C24. In every reachable store the transactions are whole: the table names each live transaction under all
  of its call ids and under no other, a transaction that is being resumed has accepted results, and
  accepted results are exactly one per call.\<close>

theorem pending_store_ok:
  assumes "resume_step\<^sup>*\<^sup>* empty_resume_store st"
  shows "distinct (map fst (st_table st))
     \<and> (\<forall>(i, r) \<in> set (st_table st). r < length (st_objects st) \<and> i \<in> set (pt_expected (pending_at st r))
          \<and> (\<forall>j \<in> set (pt_expected (pending_at st r)). lookup_pending st j = Some r))
     \<and> (\<forall>s \<in> set (st_objects st). (pt_in_flight s \<longrightarrow> pt_accepted s \<noteq> None)
          \<and> (\<forall>ms. pt_accepted s = Some ms \<longrightarrow> map (\<lambda>m. dict_get m ''tool_call_id'') ms = map PStr (sort (pt_expected s))))"
proof -
  note ok = reachable_ok [OF assms]
  have "lookup_pending st j = Some r" if "(i, r) \<in> set (st_table st)" "j \<in> set (pt_expected (pending_at st r))" for i j r
    using store_okD(5) [OF ok that] store_okD(1) [OF ok] by (simp add: lookup_pending_def)
  then show ?thesis using ok by (auto simp: store_ok_def evidence_ok_def)
qed

definition example_checkpoint :: stage_checkpoint where
  "example_checkpoint = \<lparr>sc_stage_key = ''thesis'', sc_history = [], sc_secondary_system = [], sc_usage = PDict [], sc_tools = PNone,
     sc_tool_choice = PNone, sc_message = [(''content'', PNone), (''tool_calls'', PList [PDict [(''id'', PStr ''a'')], PDict [(''id'', PStr '' b'')]])],
     sc_debugging_run_id = None\<rparr>"

definition plain_modes :: reasoning_modes where
  "plain_modes = \<lparr>rm_ultra = False, rm_deep = False, rm_agentic = False, rm_debugging = False\<rparr>"

definition example_store :: resume_store where
  "example_store = fst (register_stage_tool_resume (\<lambda>k. k) plain_modes ''r0'' 0 example_checkpoint empty_resume_store)"

definition result_of :: "string \<Rightarrow> string \<Rightarrow> pyval" where
  "result_of i text = PDict [(''role'', PStr ''tool''), (''tool_call_id'', PStr i), (''content'', PStr text)]"

lemma example_step: "resume_step empty_resume_store example_store"
  unfolding example_store_def by (rule register) (simp add: empty_resume_store_def)

lemma example_store_reachable: "resume_step\<^sup>*\<^sup>* empty_resume_store example_store"
  by (rule r_into_rtranclp) (rule example_step)

theorem pending_store_ok_witness:
  "distinct (map fst (st_table example_store)) \<and> lookup_pending example_store ''b'' = Some 0"
proof -
  have "lookup_pending example_store ''b'' = Some 0" by code_simp
  then show ?thesis using pending_store_ok [OF example_store_reachable] by blast
qed

section \<open>Accepted results are final\<close>

definition keeps_evidence :: "resume_store \<Rightarrow> resume_store \<Rightarrow> bool" where
  "keeps_evidence st st' \<longleftrightarrow> length (st_objects st) \<le> length (st_objects st')
     \<and> (\<forall>r < length (st_objects st). \<forall>ms. pt_accepted (pending_at st r) = Some ms \<longrightarrow> pt_accepted (pending_at st' r) = Some ms)"

lemma keeps_evidence_refl [simp]: "keeps_evidence st st"
  by (simp add: keeps_evidence_def)

lemma keeps_evidence_trans: "keeps_evidence st st' \<Longrightarrow> keeps_evidence st' st'' \<Longrightarrow> keeps_evidence st st''"
  unfolding keeps_evidence_def by (meson order_trans order_less_le_trans)

lemma keeps_evidence_update:
  "(\<And>ms. pt_accepted (pending_at st r) = Some ms \<Longrightarrow> pt_accepted (f (pending_at st r)) = Some ms) \<Longrightarrow>
     keeps_evidence st (update_pending st r f)"
  by (cases "r < length (st_objects st)") (auto simp: keeps_evidence_def pending_at_update update_pending_outside)

lemma keeps_evidence_table [simp]: "keeps_evidence st (st\<lparr>st_table := t\<rparr>)"
  by (simp add: keeps_evidence_def pending_at_def)

lemma keeps_evidence_expire [simp]: "keeps_evidence st (expire_pending now st)"
  by (simp add: expire_pending_def)

lemma keeps_evidence_register:
  "keeps_evidence st (fst (register_stage_tool_resume stage_name modes resume_id now c st))"
proof -
  have "keeps_evidence st (expire_pending now st\<lparr>st_objects := st_objects (expire_pending now st) @ [s], st_table := t\<rparr>)" for s t
    by (simp add: keeps_evidence_def pending_at_def nth_append)
  then show ?thesis
    by (auto simp: register_stage_tool_resume_def Let_def split: sum.split)
qed

lemma keeps_evidence_consume: "keeps_evidence st (fst (consume_pending_tool_resume stage_name now messages st))"
proof (cases rule: consume_cases [of stage_name now messages st])
  case (taken r evidence)
  from consume_steps [OF taken] have "select_pending stage_name (tool_results messages) (expire_pending now st) = Inr (Some (r, evidence))"
    by blast
  then obtain given where "bind_evidence (pending_at st r) given = Inr evidence"
    by (rule select_pending_steps) simp
  then have "pt_accepted (pending_at st r) = Some ms \<Longrightarrow> evidence = ms" for ms
    by (auto simp: bind_evidence_def conflict_def split: if_splits)
  then have "keeps_evidence (expire_pending now st)
      (update_pending (expire_pending now st) r (\<lambda>s. s\<lparr>pt_accepted := Some evidence, pt_in_flight := True\<rparr>))"
    by (intro keeps_evidence_update) simp
  then show ?thesis using taken keeps_evidence_trans [OF keeps_evidence_expire] by simp
qed simp_all

lemma keeps_evidence_rearm_messages: "keeps_evidence st (rearm_for_messages v st)"
proof -
  have "keeps_evidence st (fold (\<lambda>i st. case lookup_pending st i of None \<Rightarrow> st
      | Some r \<Rightarrow> update_pending st r (\<lambda>s. s\<lparr>pt_in_flight := False\<rparr>)) ids st)" for ids
  proof (induction ids arbitrary: st)
    case (Cons i ids)
    have "keeps_evidence st (case lookup_pending st i of None \<Rightarrow> st | Some r \<Rightarrow> update_pending st r (\<lambda>s. s\<lparr>pt_in_flight := False\<rparr>))"
      by (auto intro: keeps_evidence_update split: option.split)
    then show ?case using Cons keeps_evidence_trans by fastforce
  qed simp
  then show ?thesis by (simp add: rearm_for_messages_def split: pyval.split)
qed

lemma keeps_evidence_retire: "keeps_evidence st (retire_pending r st)"
  unfolding retire_pending_def
  by (rule keeps_evidence_trans [OF keeps_evidence_table]) (rule keeps_evidence_update, simp)

lemma resume_step_evidence: "resume_step st st' \<Longrightarrow> keeps_evidence st st'"
proof (induction rule: resume_step.induct)
  case (snapshot st now i)
  then show ?case using snapshot_store [of now i st] by fastforce
next
  case (rearm st r)
  then show ?case by (auto simp: rearm_pending_def intro: keeps_evidence_update)
qed (simp_all add: keeps_evidence_register keeps_evidence_consume keeps_evidence_retire keeps_evidence_rearm_messages)

lemma resume_steps_evidence: "resume_step\<^sup>*\<^sup>* st st' \<Longrightarrow> keeps_evidence st st'"
  by (induction rule: rtranclp_induct) (auto intro: keeps_evidence_trans resume_step_evidence)

text \<open>The tool results that a transaction accepted first are final: whatever the requests do afterwards, in
  any order, the transaction keeps them, and every later resumption of it is given exactly them, so a
  caller that repeats its request cannot exchange the evidence.\<close>

theorem accepted_evidence_final:
  assumes "r < length (st_objects st)" and "pt_accepted (pending_at st r) = Some ms" and "resume_step\<^sup>*\<^sup>* st st'"
    and "consume_pending_tool_resume stage_name now messages st' = (st'', Inr (Some (r, evidence)))"
  shows "evidence = ms \<and> pt_accepted (pending_at st'' r) = Some ms"
proof -
  have k: "keeps_evidence st st'" by (rule resume_steps_evidence [OF assms(3)])
  then have a: "pt_accepted (pending_at st' r) = Some ms" "r < length (st_objects st')"
    using assms(1,2) by (auto simp: keeps_evidence_def)
  have "keeps_evidence st' st''" using keeps_evidence_consume [of st' stage_name now messages] assms(4) by simp
  then have "pt_accepted (pending_at st'' r) = Some ms" using a by (auto simp: keeps_evidence_def)
  moreover have "pt_accepted (pending_at st'' r) = Some evidence"
    using consume_steps [OF assms(4)] a(2) by (simp add: pending_at_update)
  ultimately show ?thesis by simp
qed

definition example_results :: "pyval list" where
  "example_results = [result_of ''b'' ''done'', result_of ''a'' ''ok'']"

definition example_resumed :: resume_store where
  "example_resumed = fst (consume_pending_tool_resume (\<lambda>k. k) 5 example_results example_store)"

definition example_evidence :: "pydict list" where
  "example_evidence = map snd (sort_key fst (tool_results example_results))"

lemma example_consume:
  "consume_pending_tool_resume (\<lambda>k. k) 5 example_results example_store = (example_resumed, Inr (Some (0, example_evidence)))"
proof (rule prod_eqI)
  show "snd (consume_pending_tool_resume (\<lambda>k. k) 5 example_results example_store) = snd (example_resumed, Inr (Some (0, example_evidence)))"
    by code_simp
qed (simp add: example_resumed_def)

theorem accepted_evidence_final_witness:
  "\<exists>st''. consume_pending_tool_resume (\<lambda>k. k) 9 example_results (rearm_pending 0 example_resumed) = (st'', Inr (Some (0, example_evidence)))"
proof -
  have acc: "pt_accepted (pending_at example_resumed 0) = Some example_evidence" and len: "0 < length (st_objects example_resumed)" by code_simp+
  have "resume_step\<^sup>*\<^sup>* example_resumed (rearm_pending 0 example_resumed)" by (rule r_into_rtranclp) (rule rearm)
  note final = accepted_evidence_final [OF len acc this]
  have "case snd (consume_pending_tool_resume (\<lambda>k. k) 9 example_results (rearm_pending 0 example_resumed)) of
      Inr (Some (r, e)) \<Rightarrow> r = 0 | _ \<Rightarrow> False" by code_simp
  then obtain st'' e where "consume_pending_tool_resume (\<lambda>k. k) 9 example_results (rearm_pending 0 example_resumed) = (st'', Inr (Some (0, e)))"
    by (cases "consume_pending_tool_resume (\<lambda>k. k) 9 example_results (rearm_pending 0 example_resumed)") (auto split: sum.splits option.splits)
  with final show ?thesis by blast
qed

section \<open>One resumption at a time\<close>

text \<open>The steps of other requests, and of the clean-ups, that do not free the transaction \<open>r\<close>: everything but
  its own retirement, its own re-arming and a re-arming for messages that name one of its calls.\<close>

inductive held_step :: "nat \<Rightarrow> resume_store \<Rightarrow> resume_store \<Rightarrow> bool" for r where
  held_register: "held_step r st (fst (register_stage_tool_resume stage_name modes resume_id now c st))"
| held_snapshot: "held_step r st (fst (pending_tool_call_snapshot now i st))"
| held_consume: "held_step r st (fst (consume_pending_tool_resume stage_name now messages st))"
| held_retire: "q \<noteq> r \<Longrightarrow> held_step r st (retire_pending q st)"
| held_rearm: "q \<noteq> r \<Longrightarrow> held_step r st (rearm_pending q st)"
| held_no_list: "\<nexists>ms. v = PList ms \<Longrightarrow> held_step r st (rearm_for_messages v st)"
| held_messages: "\<forall>i \<in> set (message_ids ms). lookup_pending st i \<noteq> Some r \<Longrightarrow>
     held_step r st (rearm_for_messages (PList ms) st)"

lemma resume_step_held:
  "resume_step st st' \<Longrightarrow> held_step r st st' \<or> st' = retire_pending r st \<or> st' = rearm_pending r st
     \<or> (\<exists>ms. st' = rearm_for_messages (PList ms) st \<and> (\<exists>i \<in> set (message_ids ms). lookup_pending st i = Some r))"
  by (induction rule: resume_step.induct) (metis held_step.intros)+

text \<open>A transaction that is in flight.\<close>

definition resuming :: "nat \<Rightarrow> resume_store \<Rightarrow> bool" where
  "resuming r st \<longleftrightarrow> r < length (st_objects st) \<and> pt_in_flight (pending_at st r)"

lemma resuming_update:
  "resuming r st \<Longrightarrow> (q = r \<Longrightarrow> pt_in_flight (f (pending_at st r))) \<Longrightarrow> resuming r (update_pending st q f)"
  by (cases "q < length (st_objects st)") (auto simp: resuming_def pending_at_update update_pending_outside)

lemma resuming_table [simp]: "resuming r (st\<lparr>st_table := t\<rparr>) = resuming r st"
  by (simp add: resuming_def pending_at_def)

lemma resuming_expire [simp]: "resuming r (expire_pending now st) = resuming r st"
  by (simp add: expire_pending_def)

lemma resuming_fold:
  assumes "\<forall>i \<in> set ids. lookup_pending st i \<noteq> Some r" and "resuming r st"
  shows "resuming r (fold (\<lambda>i st. case lookup_pending st i of None \<Rightarrow> st
      | Some q \<Rightarrow> update_pending st q (\<lambda>s. s\<lparr>pt_in_flight := False\<rparr>)) ids st)"
  using assms
proof (induction ids arbitrary: st)
  case (Cons i ids)
  show ?case
  proof (cases "lookup_pending st i")
    case None
    then show ?thesis using Cons by simp
  next
    case (Some q)
    then have "q \<noteq> r" using Cons.prems(1) by auto
    then have "resuming r (update_pending st q (\<lambda>s. s\<lparr>pt_in_flight := False\<rparr>))"
      using Cons.prems(2) by (simp add: resuming_update)
    moreover have "\<forall>i \<in> set ids. lookup_pending (update_pending st q (\<lambda>s. s\<lparr>pt_in_flight := False\<rparr>)) i \<noteq> Some r"
      using Cons.prems(1) by (simp add: lookup_pending_def)
    ultimately show ?thesis using Cons.IH Some by simp
  qed
qed simp

lemma held_step_resuming: "held_step r st st' \<Longrightarrow> resuming r st \<Longrightarrow> resuming r st'"
proof (induction rule: held_step.induct)
  case (held_register st stage_name modes resume_id now c)
  have "resuming r (expire_pending now st\<lparr>st_objects := st_objects (expire_pending now st) @ [s], st_table := t\<rparr>)" for s t
    using held_register by (simp add: resuming_def pending_at_def nth_append)
  then show ?case using held_register
    by (auto simp: register_stage_tool_resume_def Let_def split: sum.split)
next
  case (held_snapshot st now i)
  then show ?case using snapshot_store [of now i st] by fastforce
next
  case (held_consume st stage_name now messages)
  then show ?case
    by (cases rule: consume_cases [of stage_name now messages st]) (auto intro: resuming_update)
next
  case (held_retire q st)
  then show ?case unfolding retire_pending_def by (intro resuming_update) simp_all
next
  case (held_rearm q st)
  then show ?case by (auto simp: rearm_pending_def intro: resuming_update)
next
  case (held_no_list v st)
  then show ?case by (auto simp: rearm_for_messages_def split: pyval.split)
next
  case (held_messages ms st)
  then show ?case by (simp add: rearm_for_messages_def resuming_fold)
qed

lemma held_steps_resuming: "(held_step r)\<^sup>*\<^sup>* st st' \<Longrightarrow> resuming r st \<Longrightarrow> resuming r st'"
  by (induction rule: rtranclp_induct) (auto intro: held_step_resuming)

lemma consume_not_resuming:
  "resuming r st \<Longrightarrow> consume_pending_tool_resume stage_name now messages st \<noteq> (st', Inr (Some (r, evidence)))"
proof
  assume r: "resuming r st" and taken: "consume_pending_tool_resume stage_name now messages st = (st', Inr (Some (r, evidence)))"
  from conjunct1 [OF consume_steps [OF taken]] have "\<not> pt_in_flight (pending_at (expire_pending now st) r)"
    by (rule select_pending_steps)
  then show False using r by (simp add: resuming_def)
qed

text \<open>C25. A request takes up a transaction only when nobody else is resuming it, with one result for each of its
  calls. From then on, whatever the other requests and clean-ups do, in any order, no request takes it up
  again until it is retired, re-armed, or re-armed for messages that name one of its calls: a resumption
  excludes the others until one of these three steps.\<close>

theorem resumption_exclusive:
  assumes "resume_step\<^sup>*\<^sup>* empty_resume_store st"
    and "consume_pending_tool_resume stage_name now messages st = (st', Inr (Some (r, evidence)))"
  shows "\<not> pt_in_flight (pending_at st r) \<and> pt_in_flight (pending_at st' r)
     \<and> map (\<lambda>m. dict_get m ''tool_call_id'') evidence = map PStr (sort (pt_expected (pending_at st r)))
     \<and> (\<forall>i \<in> set (pt_expected (pending_at st r)). lookup_pending st' i = Some r)
     \<and> (\<forall>later. (held_step r)\<^sup>*\<^sup>* st' later \<longrightarrow> pt_in_flight (pending_at later r)
          \<and> (\<forall>stage_name' now' messages' st'' evidence'.
               consume_pending_tool_resume stage_name' now' messages' later \<noteq> (st'', Inr (Some (r, evidence')))))"
proof -
  have ok: "store_ok st" by (rule reachable_ok [OF assms(1)])
  note c = consume_steps [OF assms(2)]
  note ev = select_pending_evidence [OF expire_pending_ok [OF ok] conjunct1 [OF c] tool_results_wf]
  have flight: "resuming r st'" using c ev by (simp add: resuming_def pending_at_update)
  have "resuming r later" if "(held_step r)\<^sup>*\<^sup>* st' later" for later
    by (rule held_steps_resuming [OF that flight])
  then have "\<forall>later. (held_step r)\<^sup>*\<^sup>* st' later \<longrightarrow> pt_in_flight (pending_at later r)
      \<and> (\<forall>stage_name' now' messages' st'' evidence'.
           consume_pending_tool_resume stage_name' now' messages' later \<noteq> (st'', Inr (Some (r, evidence'))))"
    using consume_not_resuming resuming_def by blast
  moreover have "\<forall>i \<in> set (pt_expected (pending_at st r)). lookup_pending st' i = Some r"
    using ev c by (simp add: lookup_pending_def)
  ultimately show ?thesis using ev flight by (simp add: resuming_def)
qed

text \<open>A second copy of the request changes nothing, and neither does the retirement of another transaction.\<close>

theorem resumption_exclusive_witness:
  "pt_in_flight (pending_at example_resumed 0)
   \<and> map (\<lambda>m. dict_get m ''tool_call_id'') example_evidence = [PStr ''a'', PStr ''b'']
   \<and> pt_in_flight (pending_at (retire_pending 1 (fst (consume_pending_tool_resume (\<lambda>k. k) 6 example_results example_resumed))) 0)"
proof -
  have ids: "map PStr (sort (pt_expected (pending_at example_store 0))) = [PStr ''a'', PStr ''b'']" by code_simp
  let ?second = "fst (consume_pending_tool_resume (\<lambda>k. k) 6 example_results example_resumed)"
  have "held_step 0 example_resumed ?second" by (rule held_consume)
  moreover have "held_step 0 ?second (retire_pending 1 ?second)" by (rule held_retire) simp
  ultimately have "(held_step 0)\<^sup>*\<^sup>* example_resumed (retire_pending 1 ?second)"
    by (rule rtranclp.rtrancl_into_rtrancl [OF r_into_rtranclp])
  with resumption_exclusive [OF example_store_reachable example_consume] ids show ?thesis by presburger
qed

section \<open>Re-arming by message ids\<close>

definition same_but_flight :: "resume_store \<Rightarrow> resume_store \<Rightarrow> bool" where
  "same_but_flight st st' \<longleftrightarrow> st_table st' = st_table st \<and> length (st_objects st') = length (st_objects st)
     \<and> (\<forall>r < length (st_objects st). pt_in_flight (pending_at st' r) \<longrightarrow> pt_in_flight (pending_at st r))
     \<and> (\<forall>r < length (st_objects st). (pending_at st' r)\<lparr>pt_in_flight := False\<rparr> = (pending_at st r)\<lparr>pt_in_flight := False\<rparr>)"

lemma rearm_fold:
  fixes st :: resume_store
  defines "arm \<equiv> \<lambda>i st. case lookup_pending st i of None \<Rightarrow> st | Some r \<Rightarrow> update_pending st r (\<lambda>s. s\<lparr>pt_in_flight := False\<rparr>)"
  shows "same_but_flight st (fold arm ids st)
    \<and> (\<forall>i \<in> set ids. \<forall>r < length (st_objects st). lookup_pending st i = Some r \<longrightarrow> \<not> pt_in_flight (pending_at (fold arm ids st) r))"
proof (induction ids arbitrary: st)
  case Nil
  then show ?case by (simp add: same_but_flight_def)
next
  case (Cons i ids)
  have one: "same_but_flight st (arm i st)"
  proof (cases "lookup_pending st i")
    case (Some q)
    then show ?thesis
      by (cases "q < length (st_objects st)") (auto simp: arm_def same_but_flight_def pending_at_update update_pending_outside)
  qed (simp add: arm_def same_but_flight_def)
  have off: "\<not> pt_in_flight (pending_at (arm i st) r)" if "lookup_pending st i = Some r" "r < length (st_objects st)" for r
    using that by (simp add: arm_def pending_at_update)
  have rest: "same_but_flight (arm i st) (fold arm ids (arm i st))"
    "\<forall>j \<in> set ids. \<forall>r < length (st_objects (arm i st)). lookup_pending (arm i st) j = Some r \<longrightarrow> \<not> pt_in_flight (pending_at (fold arm ids (arm i st)) r)"
    using Cons.IH [of "arm i st"] by auto
  have "same_but_flight st (fold arm ids (arm i st))" using one rest(1) by (simp add: same_but_flight_def)
  moreover have "\<not> pt_in_flight (pending_at (fold arm ids (arm i st)) r)"
    if "j \<in> set (i # ids)" "r < length (st_objects st)" "lookup_pending st j = Some r" for j r
  proof (cases "j = i")
    case True
    then show ?thesis using off that one rest(1) by (auto simp: same_but_flight_def)
  next
    case False
    then have "j \<in> set ids" using that(1) by simp
    then show ?thesis using rest(2) that(2,3) one by (auto simp: same_but_flight_def lookup_pending_def)
  qed
  ultimately show ?case by simp
qed

lemma rearm_for_messages_effect:
  "same_but_flight st (rearm_for_messages (PList ms) st)"
  "i \<in> set (message_ids ms) \<Longrightarrow> r < length (st_objects st) \<Longrightarrow> lookup_pending st i = Some r \<Longrightarrow>
     \<not> pt_in_flight (pending_at (rearm_for_messages (PList ms) st) r)"
  using rearm_fold [of st "message_ids ms"] by (simp_all add: rearm_for_messages_def)

lemma result_ids_listed: "i \<in> set (map fst (tool_results ms)) \<Longrightarrow> i \<in> set (message_ids ms)"
proof (induction ms)
  case (Cons x ms)
  show ?case
  proof (cases "\<exists>d k. x = PDict d \<and> dict_get d ''tool_call_id'' = PStr k \<and> is_tool_message x \<and> py_strip k \<noteq> []")
    case True
    then obtain d k where x: "x = PDict d" "dict_get d ''tool_call_id'' = PStr k" "is_tool_message x" "py_strip k \<noteq> []" by blast
    then have "i = py_strip k \<or> i \<in> set (map fst (tool_results ms))" using Cons.prems by auto
    then show ?thesis using Cons.IH x by (auto simp: message_ids_def)
  next
    case False
    then have "tool_results (x # ms) = tool_results ms" by (auto split: pyval.splits)
    then have "i \<in> set (message_ids ms)" using Cons by simp
    then show ?thesis by (auto simp: message_ids_def)
  qed
qed simp

text \<open>\<open>rearm_for_messages\<close> frees the transaction that carries the same results, whoever asks for it: a second
  copy of the request that is refused while the first runs goes through that clean-up too, and its next
  repetition takes the transaction up a second time while the first is still running.\<close>

theorem rearm_undoes_exclusion:
  assumes "resume_step\<^sup>*\<^sup>* empty_resume_store st"
    and "consume_pending_tool_resume stage_name now messages st = (st', Inr (Some (r, evidence)))"
  shows "pt_in_flight (pending_at st' r) \<and> \<not> pt_in_flight (pending_at (rearm_for_messages (PList messages) st') r)
     \<and> pt_accepted (pending_at (rearm_for_messages (PList messages) st') r) = Some evidence"
proof -
  note ok = reachable_ok [OF assms(1)]
  note c = consume_steps [OF assms(2)]
  note ev = select_pending_evidence [OF expire_pending_ok [OF ok] conjunct1 [OF c] tool_results_wf]
  obtain i where i: "i \<in> set (map fst (tool_results messages))" "lookup_pending (expire_pending now st) i = Some r"
    using conjunct1 [OF c] by (rule select_pending_first)
  have r: "r < length (st_objects st')" using c ev by simp
  have l: "lookup_pending st' i = Some r" using c i(2) by (simp add: lookup_pending_def)
  have flight: "pt_in_flight (pending_at st' r)" "pt_accepted (pending_at st' r) = Some evidence"
    using c ev by (simp_all add: pending_at_update)
  have same: "(pending_at (rearm_for_messages (PList messages) st') r)\<lparr>pt_in_flight := False\<rparr> = (pending_at st' r)\<lparr>pt_in_flight := False\<rparr>"
    using rearm_for_messages_effect(1) [of st' messages] r by (simp add: same_but_flight_def)
  have "pt_accepted ((pending_at (rearm_for_messages (PList messages) st') r)\<lparr>pt_in_flight := False\<rparr>) = Some evidence"
    unfolding same using flight by simp
  then show ?thesis
    using flight rearm_for_messages_effect(2) [OF result_ids_listed [OF i(1)] r l] by simp
qed

theorem rearm_undoes_exclusion_witness:
  "\<not> pt_in_flight (pending_at (rearm_for_messages (PList example_results) example_resumed) 0)
   \<and> snd (consume_pending_tool_resume (\<lambda>k. k) 6 example_results example_resumed)
       = conflict ''thesis tool-result transaction is already being resumed.''
   \<and> snd (consume_pending_tool_resume (\<lambda>k. k) 7 example_results (rearm_for_messages (PList example_results) example_resumed))
       = Inr (Some (0, example_evidence))"
proof -
  have "snd (consume_pending_tool_resume (\<lambda>k. k) 6 example_results example_resumed)
       = conflict ''thesis tool-result transaction is already being resumed.''" by code_simp
  moreover have "snd (consume_pending_tool_resume (\<lambda>k. k) 7 example_results (rearm_for_messages (PList example_results) example_resumed))
       = Inr (Some (0, example_evidence))" by code_simp
  ultimately show ?thesis using rearm_undoes_exclusion [OF example_store_reachable example_consume] by simp
qed

end
