(* ===== verification/CredentialGuard.thy ===== *)
theory CredentialGuard
  imports EvidenceProvenance JsonText
begin

text \<open>
  The credential guard of \<open>jack_credential_guard.py\<close>: the snapshot of the credentials the runtime
  was configured with, the exact search for them in a JSON-like value, the guards in front of the
  model's HTTP client, the release guards of the orchestration proxy and of its event stream, the
  merge into the canary policy, and the installation.
\<close>

section \<open>Credentials and errors\<close>

definition CREDENTIAL_CANARY_MAX_WINDOW :: nat where
  "CREDENTIAL_CANARY_MAX_WINDOW = 4096"

definition BOUNDARY_MODEL_INPUT_DISPATCH :: string where
  "BOUNDARY_MODEL_INPUT_DISPATCH = ''model_input_dispatch''"

definition BOUNDARY_ORCHESTRATION_HTTP_RELEASE :: string where
  "BOUNDARY_ORCHESTRATION_HTTP_RELEASE = ''orchestration_http_release''"

definition BOUNDARY_ORCHESTRATION_EVENT_RELEASE :: string where
  "BOUNDARY_ORCHESTRATION_EVENT_RELEASE = ''orchestration_event_release''"

definition DIRECTION_MODEL_BOUND :: string where
  "DIRECTION_MODEL_BOUND = ''model_bound''"

definition DIRECTION_CALLER_BOUND :: string where
  "DIRECTION_CALLER_BOUND = ''caller_bound''"

definition ORCHESTRATION_RELEASE_BLOCK_ERROR :: string where
  "ORCHESTRATION_RELEASE_BLOCK_ERROR = ''orchestration_credential_release_blocked''"

definition ORCHESTRATION_RELEASE_BLOCK_STATUS :: int where
  "ORCHESTRATION_RELEASE_BLOCK_STATUS = 502"

datatype credential_class =
    JackApi | BackendBearer | BackendNamedHeader | BackendBasicPassword | BackendBasicWire | BackendAuthorization | PiControl

definition credential_id :: "credential_class \<Rightarrow> string" where
  "credential_id c = (case c of
       JackApi \<Rightarrow> ''credential:jack-api''
     | BackendBearer \<Rightarrow> ''credential:backend-bearer''
     | BackendNamedHeader \<Rightarrow> ''credential:backend-header''
     | BackendBasicPassword \<Rightarrow> ''credential:backend-basic-password''
     | BackendBasicWire \<Rightarrow> ''credential:backend-basic-wire''
     | BackendAuthorization \<Rightarrow> ''credential:backend-authorization''
     | PiControl \<Rightarrow> ''credential:pi-control'')"

record protected_credential =
  cr_id :: string
  cr_class :: credential_class
  cr_source :: string
  cr_destinations :: "string set"
  cr_aliases :: "string list"
  cr_alias_classes :: "credential_class list"
  cr_value :: string

record credential_match =
  cx_id :: string
  cx_class :: credential_class
  cx_boundary :: string
  cx_direction :: string
  cx_aliases :: "string list"
  cx_alias_classes :: "credential_class list"

datatype credential_error =
    CredentialTypeError string
  | CredentialValueError string
  | CredentialRuntimeError string
  | ProtectedCredentialInterrupt credential_match
  | CredentialCanaryError stream_error

text \<open>\<open>ProtectedCredential.__post_init__\<close>, the checks a typed value can fail.\<close>

definition make_credential :: "protected_credential \<Rightarrow> credential_error + protected_credential" where
  "make_credential c =
     raise_if (cr_id c = []) (CredentialTypeError ''credential_id must be a non-empty string'')
     (raise_if (cr_source c = []) (CredentialTypeError ''source_kind must be a non-empty string'')
     (raise_if (cr_value c = []) (CredentialValueError ''credential value must not be empty'')
       (Inr c)))"

section \<open>The policy\<close>

record credential_policy =
  cg_runtime_id :: string
  cg_lane_id :: string
  cg_credentials :: "protected_credential list"
  cg_resources :: "string list"

fun check_credentials :: "string set \<Rightarrow> string set \<Rightarrow> protected_credential list \<Rightarrow> credential_error + unit" where
  "check_credentials ids vals [] = Inr ()"
| "check_credentials ids vals (c # cs) =
     raise_if (cr_id c \<in> ids) (CredentialValueError ''duplicate credential_id'')
     (raise_if (cr_value c \<in> vals) (CredentialValueError ''duplicate credential value'')
       (check_credentials (insert (cr_id c) ids) (insert (cr_value c) vals) cs))"

definition make_credential_policy ::
    "string \<Rightarrow> string \<Rightarrow> protected_credential list \<Rightarrow> string list \<Rightarrow> credential_error + credential_policy" where
  "make_credential_policy runtime_id lane_id credentials resources =
     raise_if (runtime_id = []) (CredentialValueError ''runtime_id must be a non-empty string'')
     (raise_if (lane_id = []) (CredentialValueError ''lane_id must be a non-empty string'')
     (try_bind (check_credentials {} {} credentials) (\<lambda>_.
       Inr \<lparr>cg_runtime_id = runtime_id, cg_lane_id = lane_id, cg_credentials = credentials, cg_resources = resources\<rparr>)))"

definition credential_window :: "credential_policy \<Rightarrow> nat" where
  "credential_window p = foldr (\<lambda>c w. max (length (cr_value c) - 1) w) (cg_credentials p) 0"

text \<open>\<open>find\<close>: in one text the least occurrence by position, length and id; in a value the first text that
  has one. Keys are not scanned.\<close>

type_synonym credential_hit = "(nat \<times> nat \<times> string) \<times> protected_credential"

definition consider_credential :: "string \<Rightarrow> protected_credential \<Rightarrow> credential_hit option \<Rightarrow> credential_hit option" where
  "consider_credential node c best =
     (case find_sub (cr_value c) node of
        None \<Rightarrow> best
      | Some i \<Rightarrow>
          (let key = (i, length (cr_value c), cr_id c) in
           if (case best of None \<Rightarrow> True | Some b \<Rightarrow> key < fst b) then Some (key, c) else best))"

definition scan_text :: "credential_policy \<Rightarrow> string \<Rightarrow> protected_credential option" where
  "scan_text p node = map_option snd (fold (consider_credential node) (cg_credentials p) None)"

fun scan_value :: "credential_policy \<Rightarrow> pyval \<Rightarrow> protected_credential option" where
  "scan_value p (PStr s) = scan_text p s"
| "scan_value p (PDict d) = first_some (map (\<lambda>(k, v). scan_value p v) d)"
| "scan_value p (PList vs) = first_some (map (scan_value p) vs)"
| "scan_value p v = None"

definition match_for :: "string \<Rightarrow> string \<Rightarrow> protected_credential \<Rightarrow> credential_match" where
  "match_for boundary direction c =
     \<lparr>cx_id = cr_id c, cx_class = cr_class c, cx_boundary = boundary, cx_direction = direction,
      cx_aliases = cr_aliases c, cx_alias_classes = cr_alias_classes c\<rparr>"

definition find_credential :: "credential_policy \<Rightarrow> string \<Rightarrow> string \<Rightarrow> pyval \<Rightarrow> credential_match option" where
  "find_credential p boundary direction v = map_option (match_for boundary direction) (scan_value p v)"

definition guard_model_payload :: "credential_policy \<Rightarrow> pyval \<Rightarrow> credential_error + unit" where
  "guard_model_payload p payload =
     (case find_credential p BOUNDARY_MODEL_INPUT_DISPATCH DIRECTION_MODEL_BOUND payload of
        None \<Rightarrow> Inr () | Some m \<Rightarrow> Inl (ProtectedCredentialInterrupt m))"

section \<open>The snapshot of the configuration\<close>

definition validated_secret :: "string \<Rightarrow> pyval \<Rightarrow> credential_error + string option" where
  "validated_secret source_kind v =
     (case v of
        PNone \<Rightarrow> Inr None
      | PStr s \<Rightarrow> Inr (if s = [] then None else Some s)
      | _ \<Rightarrow> Inl (CredentialRuntimeError (''Phase-7 credential source '' @ source_kind @ '' is not textual'')))"

text \<open>\<open>base64.b64encode\<close> of the UTF-8 bytes.\<close>

definition base64_char :: "nat \<Rightarrow> char" where
  "base64_char n =
     (if n < 26 then char_of (65 + n) else if n < 52 then char_of (71 + n) else if n < 62 then char_of (n - 4)
      else if n = 62 then CHR ''+'' else CHR ''/'')"

fun base64 :: "nat list \<Rightarrow> string" where
  "base64 [] = []"
| "base64 [a] = [base64_char (a div 4), base64_char (a mod 4 * 16), CHR ''='', CHR ''='']"
| "base64 [a, b] = [base64_char (a div 4), base64_char (a mod 4 * 16 + b div 16), base64_char (b mod 16 * 4), CHR ''='']"
| "base64 (a # b # c # bytes) =
     base64_char (a div 4) # base64_char (a mod 4 * 16 + b div 16) # base64_char (b mod 16 * 4 + c div 64)
       # base64_char (c mod 64) # base64 bytes"

definition basic_wire :: "pyval \<Rightarrow> string option \<Rightarrow> string option" where
  "basic_wire username password =
     map_option (\<lambda>pw. ''Basic '' @ base64 (map of_char
         (utf8 ((if username = PNone then [] else py_str username) @ '':'' @ pw)))) password"

text \<open>The attributes of \<open>jk.CFG\<close>, and the answer of \<open>jk._load_pi_control_bridge\<close>: absent, raising, or a value.\<close>

record credential_config =
  cc_api_key :: pyval
  cc_backend_api_key :: pyval
  cc_backend_header_value :: pyval
  cc_backend_username :: pyval
  cc_backend_password :: pyval
  cc_backend_authorization_value :: pyval

type_synonym credential_source = "credential_class \<times> string \<times> string option \<times> string set"

definition pi_control_secret :: "(unit + pyval) option \<Rightarrow> credential_error + string option" where
  "pi_control_secret loader =
     (case loader of
        None \<Rightarrow> Inr None
      | Some (Inl _) \<Rightarrow> Inl (CredentialRuntimeError ''Phase-7 Pi control credential resolution failed'')
      | Some (Inr (PDict bridge)) \<Rightarrow>
          validated_secret ''resolved_pi_control_token'' (if dict_has bridge ''token'' then dict_get bridge ''token'' else PStr [])
      | Some (Inr _) \<Rightarrow> Inr None)"

definition logical_sources :: "credential_config option \<Rightarrow> (unit + pyval) option \<Rightarrow> credential_error + credential_source list" where
  "logical_sources config loader =
     (case config of
        None \<Rightarrow> Inl (CredentialRuntimeError ''Phase-7 credential policy requires Jack CFG'')
      | Some cfg \<Rightarrow>
          try_bind (validated_secret ''CFG.api_key'' (cc_api_key cfg)) (\<lambda>jack_api.
          try_bind (validated_secret ''CFG.backend_api_key'' (cc_backend_api_key cfg)) (\<lambda>backend_bearer.
          try_bind (validated_secret ''CFG.backend_header_value'' (cc_backend_header_value cfg)) (\<lambda>backend_header.
          try_bind (validated_secret ''CFG.backend_password'' (cc_backend_password cfg)) (\<lambda>backend_password.
          try_bind (validated_secret ''CFG.backend_authorization_value'' (cc_backend_authorization_value cfg)) (\<lambda>backend_authorization.
          try_bind (pi_control_secret loader) (\<lambda>pi_control. Inr
            [(JackApi, ''CFG.api_key'', jack_api, {''jack_public_auth''}),
             (BackendBearer, ''CFG.backend_api_key'', backend_bearer, {''backend_auth_header''}),
             (BackendNamedHeader, ''CFG.backend_header_value'', backend_header, {''backend_named_auth_header''}),
             (BackendBasicPassword, ''CFG.backend_password'', backend_password, {''backend_basic_derivation''}),
             (BackendBasicWire, ''derived_backend_basic_wire'', basic_wire (cc_backend_username cfg) backend_password,
                {''backend_authorization_header''}),
             (BackendAuthorization, ''CFG.backend_authorization_value'', backend_authorization, {''backend_authorization_header''}),
             (PiControl, ''resolved_pi_control_token'', pi_control, {''pi_control_authorization_header''})])))))))"

text \<open>One value, one credential: a further identity of a known value becomes an alias of its entry.\<close>

definition first_entry :: "credential_class \<Rightarrow> string \<Rightarrow> string \<Rightarrow> string set \<Rightarrow> protected_credential" where
  "first_entry c source_kind v destinations =
     \<lparr>cr_id = credential_id c, cr_class = c, cr_source = source_kind, cr_destinations = destinations,
      cr_aliases = [], cr_alias_classes = [], cr_value = v\<rparr>"

definition merge_entry :: "credential_class \<Rightarrow> string set \<Rightarrow> protected_credential \<Rightarrow> protected_credential" where
  "merge_entry c destinations e =
     e\<lparr>cr_destinations := cr_destinations e \<union> destinations,
       cr_aliases := (if credential_id c \<noteq> cr_id e \<and> credential_id c \<notin> set (cr_aliases e)
                      then cr_aliases e @ [credential_id c] else cr_aliases e),
       cr_alias_classes := (if c \<noteq> cr_class e \<and> c \<notin> set (cr_alias_classes e)
                            then cr_alias_classes e @ [c] else cr_alias_classes e)\<rparr>"

definition add_source :: "credential_source \<Rightarrow> protected_credential list \<Rightarrow> protected_credential list" where
  "add_source source entries = (case source of (c, source_kind, secret, destinations) \<Rightarrow>
     (case secret of
        None \<Rightarrow> entries
      | Some v \<Rightarrow>
          if v \<notin> set (map cr_value entries) then entries @ [first_entry c source_kind v destinations]
          else map (\<lambda>e. if cr_value e = v then merge_entry c destinations e else e) entries))"

text \<open>\<open>_credential_resource_paths\<close>: \<open>home\<close> and a configured \<open>APPDATA\<close> as \<open>pathlib\<close> shows them.\<close>

definition path_join :: "char \<Rightarrow> string \<Rightarrow> string list \<Rightarrow> string" where
  "path_join sep root parts = join_with sep ((if ends_with [sep] root then butlast root else root) # parts)"

definition credential_resource_paths :: "bool \<Rightarrow> string \<Rightarrow> string \<Rightarrow> string list" where
  "credential_resource_paths windows home appdata =
     (let sep = (if windows then CHR 0x5C else CHR ''/'');
          jack_config =
            (if windows then
               path_join sep (if appdata \<noteq> [] then appdata else path_join sep home [''AppData'', ''Roaming''])
                 [''JackKernelLMStudio'', ''config.json'']
             else path_join sep home [''.jack-kernel-lm-studio'', ''config.json'']) in
      [jack_config, path_join sep home [''.pi'', ''agent'', ''jack-kernel.json'']])"

definition build_credential_policy ::
    "pyval \<Rightarrow> pyval \<Rightarrow> credential_config option \<Rightarrow> (unit + pyval) option \<Rightarrow> string list \<Rightarrow> credential_error + credential_policy" where
  "build_credential_policy runtime lane config loader resources =
     (let runtime_id = py_strip (str_or_empty runtime); lane_id = py_strip (str_or_empty lane) in
      raise_if (runtime_id = []) (CredentialRuntimeError ''Phase-7 runtime identity is unavailable'')
      (raise_if (lane_id = []) (CredentialRuntimeError ''Phase-7 lane identity is unavailable'')
      (try_bind (logical_sources config loader) (\<lambda>sources.
       try_bind (try_map make_credential (fold add_source sources [])) (\<lambda>credentials.
         make_credential_policy runtime_id lane_id credentials resources)))))"

section \<open>The canaries of the credentials\<close>

text \<open>What the canary constructors raise passes through.\<close>

definition canary_result :: "stream_error + 'a \<Rightarrow> credential_error + 'a" where
  "canary_result x = (case x of Inl e \<Rightarrow> Inl (CredentialCanaryError e) | Inr v \<Rightarrow> Inr v)"

lemma canary_result_Inr_iff: "canary_result x = Inr v \<longleftrightarrow> x = Inr v"
  by (cases x) (simp_all add: canary_result_def)

definition credential_pattern :: "protected_credential \<Rightarrow> credential_error + canary_pattern" where
  "credential_pattern c = canary_result (make_canary_pattern (PStr (cr_id c)) TierA (PStr (cr_value c)))"

definition credential_addition :: "canary_pattern list \<Rightarrow> protected_credential \<Rightarrow> credential_error + canary_pattern" where
  "credential_addition existing c =
     raise_if (cr_id c \<in> set (map cp_id existing) \<or> cr_value c \<in> set (map cp_value existing))
       (CredentialRuntimeError ''Phase-7 credential/Canary policy collision'')
       (credential_pattern c)"

definition merge_runtime_canary_policy :: "canary_policy \<Rightarrow> credential_policy \<Rightarrow> credential_error + canary_policy" where
  "merge_runtime_canary_policy canaries p =
     raise_if (cy_runtime_id canaries \<noteq> cg_runtime_id p) (CredentialRuntimeError ''Phase-7 credential/Canary runtime ownership mismatch'')
     (raise_if (cy_lane_id canaries \<noteq> cg_lane_id p) (CredentialRuntimeError ''Phase-7 credential/Canary lane ownership mismatch'')
     (raise_if (CREDENTIAL_CANARY_MAX_WINDOW < credential_window p)
        (CredentialRuntimeError ''Phase-7 credential Canary merge exceeds the bounded output-DLP ceiling'')
     (let existing = cs_patterns (cy_canaries canaries) in
      try_bind (try_map (credential_addition existing) (cg_credentials p)) (\<lambda>additions.
      try_bind (canary_result (make_canary_set (existing @ additions)
          (PInt (max (cs_max_window (cy_canaries canaries)) (int (credential_window p)))))) (\<lambda>cs.
        canary_result (make_canary_policy (cg_runtime_id p) (cg_lane_id p) cs))))))"

end
