(* ===== verification/CredentialRelease.thy ===== *)
theory CredentialRelease
  imports CredentialGuard
begin

text \<open>
  The boundaries of \<open>jack_credential_guard.py\<close>: the two dispatch seams of the model's HTTP client,
  the proxied orchestration response, the orchestration event stream with its carry of partial
  credentials, and the installation of all of them. \<open>loads\<close> is \<open>json.loads\<close>; a response body is
  given as the text its bytes decode to.
\<close>

section \<open>The model's HTTP client\<close>

text \<open>\<open>str.upper\<close>; the two code points whose capital is beyond 255 are kept, no modelled comparison meets them.\<close>

definition upper_char :: "char \<Rightarrow> string" where
  "upper_char c = (let n = of_char c :: nat in
     if n = 223 then ''SS''
     else if (97 \<le> n \<and> n \<le> 122) \<or> (224 \<le> n \<and> n \<le> 254 \<and> n \<noteq> 247) then [char_of (n - 32)] else [c])"

definition py_upper :: "string \<Rightarrow> string" where
  "py_upper s = concat (map upper_char s)"

definition chat_completion_url :: "pyval \<Rightarrow> bool" where
  "chat_completion_url v =
     ends_with ''/chat/completions'' (py_rstrip_by (\<lambda>c. c = CHR ''/'') (takeWhile (\<lambda>c. c \<noteq> CHR ''?'') (str_or_empty v)))"

definition guard_payload_argument :: "credential_policy \<Rightarrow> pydict \<Rightarrow> credential_error + unit" where
  "guard_payload_argument p kwargs = (if dict_has kwargs ''json'' then guard_model_payload p (dict_get kwargs ''json'') else Inr ())"

definition guard_post_call :: "credential_policy \<Rightarrow> pyval list \<Rightarrow> pydict \<Rightarrow> credential_error + unit" where
  "guard_post_call p args kwargs =
     (let url = (if dict_get kwargs ''url'' = PNone \<and> args \<noteq> [] then hd args else dict_get kwargs ''url'') in
      if \<not> chat_completion_url url then Inr () else guard_payload_argument p kwargs)"

definition guard_build_request_call :: "credential_policy \<Rightarrow> pyval list \<Rightarrow> pydict \<Rightarrow> credential_error + unit" where
  "guard_build_request_call p args kwargs =
     (let http_method = (if dict_get kwargs ''method'' = PNone \<and> args \<noteq> [] then hd args else dict_get kwargs ''method'');
          url = (if dict_get kwargs ''url'' = PNone \<and> 1 < length args then args ! 1 else dict_get kwargs ''url'') in
      if py_upper (str_or_empty http_method) \<noteq> ''POST'' \<or> \<not> chat_completion_url url then Inr ()
      else guard_payload_argument p kwargs)"

section \<open>What is released to the caller\<close>

definition release_value_match :: "credential_policy \<Rightarrow> string \<Rightarrow> pyval \<Rightarrow> credential_match option" where
  "release_value_match p boundary v = find_credential p boundary DIRECTION_CALLER_BOUND v"

text \<open>\<open>_release_match\<close> on bytes: the decoded JSON value first, then the text itself.\<close>

definition release_body_match ::
    "(string \<Rightarrow> pyval option) \<Rightarrow> credential_policy \<Rightarrow> string \<Rightarrow> string \<Rightarrow> credential_match option" where
  "release_body_match loads p boundary text =
     (case (case loads text of None \<Rightarrow> None | Some decoded \<Rightarrow>
              if decoded = PNone then None else release_value_match p boundary decoded) of
        Some m \<Rightarrow> Some m
      | None \<Rightarrow> release_value_match p boundary (PStr text))"

definition block_payload :: "string \<Rightarrow> pyval" where
  "block_payload boundary = PDict [(''error'', PStr ORCHESTRATION_RELEASE_BLOCK_ERROR),
     (''security_outcome'', PStr ''HARD_INTERRUPT''), (''release_boundary'', PStr boundary)]"

text \<open>\<open>guarded_proxy\<close>: the response itself, or the blocked answer.\<close>

datatype proxy_response = UpstreamResponse string | BlockedResponse int pyval

definition guarded_proxy :: "(string \<Rightarrow> pyval option) \<Rightarrow> credential_policy \<Rightarrow> string \<Rightarrow> proxy_response" where
  "guarded_proxy loads p body =
     (case release_body_match loads p BOUNDARY_ORCHESTRATION_HTTP_RELEASE body of
        None \<Rightarrow> UpstreamResponse body
      | Some _ \<Rightarrow> BlockedResponse ORCHESTRATION_RELEASE_BLOCK_STATUS (block_payload BOUNDARY_ORCHESTRATION_HTTP_RELEASE))"

section \<open>The orchestration event stream\<close>

type_synonym stream_key = "(string \<times> string \<times> string) \<times> string"
type_synonym carry_state = "stream_key \<Rightarrow> string option"

definition delta_fragments :: "pyval \<Rightarrow> (string \<times> string) list" where
  "delta_fragments source_event =
     (case source_event of
        PDict e \<Rightarrow>
          (case dict_get e ''data'' of
             PDict data \<Rightarrow>
               (case dict_get data ''delta'' of PStr s \<Rightarrow> [(''data.delta'', s)] | _ \<Rightarrow> [])
               @ (case dict_get data ''assistantMessageEvent'' of
                    PDict a \<Rightarrow> (case dict_get a ''delta'' of PStr s \<Rightarrow> [(''data.assistantMessageEvent.delta'', s)] | _ \<Rightarrow> [])
                  | _ \<Rightarrow> [])
           | _ \<Rightarrow> [])
      | _ \<Rightarrow> [])"

definition stream_identity :: "pydict \<Rightarrow> string \<times> string \<times> string" where
  "stream_identity e = (str_or_empty (dict_get e ''task_id''), str_or_empty (dict_get e ''run_id''), str_or_empty (dict_get e ''run_epoch''))"

text \<open>\<open>_credential_prefix_carry\<close>: the longest end of the text that begins a credential without completing it.\<close>

fun overlap_from :: "string \<Rightarrow> string \<Rightarrow> nat \<Rightarrow> string" where
  "overlap_from v text 0 = []"
| "overlap_from v text (Suc n) =
     (let candidate = drop (length text - Suc n) text in
      if starts_with candidate v then candidate else overlap_from v text n)"

definition credential_overlap :: "string \<Rightarrow> string \<Rightarrow> string" where
  "credential_overlap v text = overlap_from v text (min (length text) (length v - 1))"

definition credential_prefix_carry :: "credential_policy \<Rightarrow> string \<Rightarrow> string" where
  "credential_prefix_carry p text =
     fold (\<lambda>c best. let candidate = credential_overlap (cr_value c) text in
             if length best < length candidate then candidate else best) (cg_credentials p) []"

fun match_fragments ::
    "credential_policy \<Rightarrow> string \<times> string \<times> string \<Rightarrow> (string \<times> string) list \<Rightarrow> carry_state \<Rightarrow> carry_state \<times> credential_match option" where
  "match_fragments p i [] state = (state, None)"
| "match_fragments p i ((channel, fragment) # rest) state =
     (let key = (i, channel);
          combined = (case state key of None \<Rightarrow> [] | Some carry \<Rightarrow> carry) @ fragment in
      case find_credential p BOUNDARY_ORCHESTRATION_EVENT_RELEASE DIRECTION_CALLER_BOUND (PStr combined) of
        Some m \<Rightarrow> (state(key := None), Some m)
      | None \<Rightarrow>
          (let carry = credential_prefix_carry p combined in
           match_fragments p i rest (state(key := (if carry = [] then None else Some carry)))))"

definition stream_match :: "credential_policy \<Rightarrow> carry_state \<Rightarrow> pyval \<Rightarrow> carry_state \<times> credential_match option" where
  "stream_match p state source_event =
     (case source_event of
        PDict e \<Rightarrow> match_fragments p (stream_identity e) (delta_fragments source_event) state
      | _ \<Rightarrow> (state, None))"

definition clear_stream_state :: "pyval \<Rightarrow> carry_state \<Rightarrow> carry_state" where
  "clear_stream_state source_event state =
     (case source_event of
        PDict e \<Rightarrow> (\<lambda>key. if fst key = stream_identity e then None else state key)
      | _ \<Rightarrow> state)"

definition IDENTITY_FIELDS :: "string list" where
  "IDENTITY_FIELDS = [''task_id'', ''run_id'', ''run_epoch'', ''attribution'', ''at'']"

definition safe_identity :: "credential_policy \<Rightarrow> pyval \<Rightarrow> pydict" where
  "safe_identity p source_event =
     (case source_event of
        PDict e \<Rightarrow>
          map (\<lambda>k. (k, dict_get e k))
            (filter (\<lambda>k. dict_has e k \<and> release_value_match p BOUNDARY_ORCHESTRATION_EVENT_RELEASE (dict_get e k) = None) IDENTITY_FIELDS)
      | _ \<Rightarrow> [])"

definition blocked_event :: "credential_policy \<Rightarrow> pyval \<Rightarrow> pyval" where
  "blocked_event p source_event =
     PDict ([(''type'', PStr ORCHESTRATION_RELEASE_BLOCK_ERROR),
             (''data'', block_payload BOUNDARY_ORCHESTRATION_EVENT_RELEASE)] @ safe_identity p source_event)"

definition END_EVENTS :: "string list" where
  "END_EVENTS = [''message_end'', ''agent_end'', ''agent_settled'']"

text \<open>\<open>guarded_publish\<close>: the next carries and the event that is handed to the original \<open>_publish\<close>.\<close>

definition guarded_publish :: "credential_policy \<Rightarrow> string \<times> pyval \<Rightarrow> carry_state \<Rightarrow> carry_state \<times> (string \<times> pyval)" where
  "guarded_publish p event state =
     (case event of (event_type, source_event) \<Rightarrow>
        (case stream_match p state source_event of (state', streamed) \<Rightarrow>
          (case (case streamed of None \<Rightarrow> release_value_match p BOUNDARY_ORCHESTRATION_EVENT_RELEASE source_event | Some m \<Rightarrow> Some m) of
             None \<Rightarrow>
               (if event_type \<in> set END_EVENTS then clear_stream_state source_event state' else state', event)
           | Some _ \<Rightarrow>
               (clear_stream_state source_event state', (ORCHESTRATION_RELEASE_BLOCK_ERROR, blocked_event p source_event)))))"

fun publish_all :: "credential_policy \<Rightarrow> (string \<times> pyval) list \<Rightarrow> carry_state \<Rightarrow> carry_state \<times> (string \<times> pyval) list" where
  "publish_all p [] state = (state, [])"
| "publish_all p (e # es) state =
     (case guarded_publish p e state of (state', out) \<Rightarrow>
       (case publish_all p es state' of (state'', outs) \<Rightarrow> (state'', out # outs)))"

section \<open>Installation\<close>

text \<open>The host module: what its attributes are when the guard asks for them. The guards in front of the client
  and of the orchestration functions are listed by the policy they hold, the outermost first.\<close>

record credential_host =
  ch_runtime_id :: pyval
  ch_lane_id :: pyval
  ch_installed :: bool
  ch_policy :: "credential_policy option"
  ch_client :: bool
  ch_post_callable :: bool
  ch_build_callable :: bool
  ch_post_guards :: "credential_policy list"
  ch_build_guards :: "credential_policy list"
  ch_orchestration_installed :: bool
  ch_orchestration_callable :: bool
  ch_json_response :: bool
  ch_proxy_guards :: "credential_policy list"
  ch_publish_guards :: "credential_policy list"
  ch_manifest_callable :: bool
  ch_manifest :: "string list"

definition install_orchestration :: "credential_policy \<Rightarrow> credential_host \<Rightarrow> credential_host \<times> (credential_error + unit)" where
  "install_orchestration p h =
     (if ch_orchestration_installed h \<or> \<not> ch_orchestration_callable h then (h, Inr ())
      else if \<not> ch_json_response h then
        (h, Inl (CredentialRuntimeError ''Phase-7 orchestration release guard requires JSONResponse''))
      else (h\<lparr>ch_proxy_guards := p # ch_proxy_guards h, ch_publish_guards := p # ch_publish_guards h,
              ch_orchestration_installed := True\<rparr>, Inr ()))"

text \<open>\<open>install\<close>; \<open>built\<close> is what \<open>build_runtime_credential_policy\<close> returns for the host.\<close>

definition install_credential_guard ::
    "credential_error + credential_policy \<Rightarrow> credential_policy option \<Rightarrow> credential_host
       \<Rightarrow> credential_host \<times> (credential_error + credential_policy)" where
  "install_credential_guard built supplied h =
     (if ch_installed h then
        (h, case ch_policy h of
              None \<Rightarrow> Inl (CredentialRuntimeError ''Phase-7 installed policy state is invalid'')
            | Some p \<Rightarrow> Inr p)
      else (case (case supplied of None \<Rightarrow> built | Some p \<Rightarrow> Inr p) of
          Inl e \<Rightarrow> (h, Inl e)
        | Inr p \<Rightarrow>
            if cg_runtime_id p \<noteq> py_strip (str_or_empty (ch_runtime_id h)) then
              (h, Inl (CredentialRuntimeError ''Phase-7 credential policy runtime ownership mismatch''))
            else if cg_lane_id p \<noteq> py_strip (str_or_empty (ch_lane_id h)) then
              (h, Inl (CredentialRuntimeError ''Phase-7 credential policy lane ownership mismatch''))
            else if \<not> ch_client h then
              (h, Inl (CredentialRuntimeError ''Phase-7 backend transport is unavailable''))
            else if \<not> ch_post_callable h \<or> \<not> ch_build_callable h then
              (h, Inl (CredentialRuntimeError ''Phase-7 backend transport does not expose required dispatch seams''))
            else (case install_orchestration p (h\<lparr>ch_post_guards := p # ch_post_guards h, ch_build_guards := p # ch_build_guards h\<rparr>) of
                (h', Inl e) \<Rightarrow> (h', Inl e)
              | (h', Inr _) \<Rightarrow>
                  (h'\<lparr>ch_policy := Some p, ch_installed := True,
                      ch_manifest := (if ch_manifest_callable h' then ch_manifest h' @ [''jack_credential_guard.py''] else ch_manifest h')\<rparr>,
                   Inr p))))"

text \<open>A call of the client through the guards in front of it.\<close>

fun guarded_call :: "(credential_policy \<Rightarrow> credential_error + unit) \<Rightarrow> credential_policy list \<Rightarrow> credential_error + unit" where
  "guarded_call check [] = Inr ()"
| "guarded_call check (p # ps) = try_bind (check p) (\<lambda>_. guarded_call check ps)"

definition client_post :: "credential_host \<Rightarrow> pyval list \<Rightarrow> pydict \<Rightarrow> credential_error + unit" where
  "client_post h args kwargs = guarded_call (\<lambda>p. guard_post_call p args kwargs) (ch_post_guards h)"

definition client_build_request :: "credential_host \<Rightarrow> pyval list \<Rightarrow> pydict \<Rightarrow> credential_error + unit" where
  "client_build_request h args kwargs = guarded_call (\<lambda>p. guard_build_request_call p args kwargs) (ch_build_guards h)"

end
