(* ===== verification/CredentialProperties.thy ===== *)
theory CredentialProperties
  imports CredentialRelease CanaryProperties
begin

text \<open>
  What the credential guard guarantees: the search is exact, the snapshot protects every configured
  credential under one entry, the client dispatches no payload with one, the released orchestration
  bodies and events hold none, and the texts streamed on a channel spell none; and the two ways in
  which a blocked event lets the rest of a credential through.
\<close>

section \<open>The search\<close>

fun leaves :: "pyval \<Rightarrow> string list" where
  "leaves (PStr s) = [s]"
| "leaves (PDict d) = concat (map (\<lambda>(k, v). leaves v) d)"
| "leaves (PList vs) = concat (map leaves vs)"
| "leaves v = []"

definition credential_free :: "credential_policy \<Rightarrow> string \<Rightarrow> bool" where
  "credential_free p s \<longleftrightarrow> (\<forall>c \<in> set (cg_credentials p). \<not> sublist (cr_value c) s)"

definition value_free :: "credential_policy \<Rightarrow> pyval \<Rightarrow> bool" where
  "value_free p v \<longleftrightarrow> (\<forall>s \<in> set (leaves v). credential_free p s)"

definition credential_key :: "nat \<Rightarrow> protected_credential \<Rightarrow> nat \<times> nat \<times> string" where
  "credential_key i c = (i, length (cr_value c), cr_id c)"

lemma fold_credential_None:
  "fold (consider_credential node) cs best = None \<longleftrightarrow> best = None \<and> (\<forall>c \<in> set cs. find_sub (cr_value c) node = None)"
proof (induction cs arbitrary: best)
  case (Cons c cs)
  have "consider_credential node c best = None \<longleftrightarrow> best = None \<and> find_sub (cr_value c) node = None"
    by (auto simp: consider_credential_def Let_def split: option.splits)
  then show ?case using Cons.IH by auto
qed simp

lemma fold_credential_Some:
  assumes "fold (consider_credential node) cs best = Some b"
    and "\<forall>b'. best = Some b' \<longrightarrow> (\<exists>i. find_sub (cr_value (snd b')) node = Some i \<and> fst b' = credential_key i (snd b'))"
  shows "(best = Some b \<or> snd b \<in> set cs) \<and> (\<exists>i. find_sub (cr_value (snd b)) node = Some i \<and> fst b = credential_key i (snd b))
    \<and> (\<forall>b'. best = Some b' \<longrightarrow> fst b \<le> fst b')
    \<and> (\<forall>c \<in> set cs. \<forall>i. find_sub (cr_value c) node = Some i \<longrightarrow> fst b \<le> credential_key i c)"
  using assms
proof (induction cs arbitrary: best)
  case (Cons c cs)
  show ?case
  proof (cases "find_sub (cr_value c) node")
    case None
    then have "consider_credential node c best = best" by (simp add: consider_credential_def)
    then show ?thesis using Cons None by auto
  next
    case (Some i)
    define best' where "best' = consider_credential node c best"
    have step: "best' = Some (credential_key i c, c) \<and> (\<forall>b'. best = Some b' \<longrightarrow> credential_key i c \<le> fst b')
        \<or> best' = best \<and> (\<exists>b'. best = Some b' \<and> fst b' \<le> credential_key i c)"
      by (auto simp: best'_def consider_credential_def credential_key_def Let_def Some not_less split: option.splits)
    then have "\<forall>b'. best' = Some b' \<longrightarrow> (\<exists>i. find_sub (cr_value (snd b')) node = Some i \<and> fst b' = credential_key i (snd b'))"
      using Cons.prems(2) Some by auto
    moreover have "fold (consider_credential node) cs best' = Some b" using Cons.prems(1) by (simp add: best'_def)
    ultimately have rest: "(best' = Some b \<or> snd b \<in> set cs)" "\<exists>i. find_sub (cr_value (snd b)) node = Some i \<and> fst b = credential_key i (snd b)"
      "\<And>b'. best' = Some b' \<Longrightarrow> fst b \<le> fst b'"
      "\<forall>c \<in> set cs. \<forall>i. find_sub (cr_value c) node = Some i \<longrightarrow> fst b \<le> credential_key i c"
      using Cons.IH [of best'] by blast+
    from step show ?thesis
    proof
      assume new: "best' = Some (credential_key i c, c) \<and> (\<forall>b'. best = Some b' \<longrightarrow> credential_key i c \<le> fst b')"
      then have le: "fst b \<le> credential_key i c" using rest(3) by simp
      have "best = Some b \<or> snd b \<in> set (c # cs)" using rest(1) new by auto
      moreover have "\<forall>b'. best = Some b' \<longrightarrow> fst b \<le> fst b'" using new le order_trans by blast
      moreover have "\<forall>d \<in> set (c # cs). \<forall>j. find_sub (cr_value d) node = Some j \<longrightarrow> fst b \<le> credential_key j d"
        using rest(4) le Some by simp
      ultimately show ?thesis using rest(2) by blast
    next
      assume old: "best' = best \<and> (\<exists>b'. best = Some b' \<and> fst b' \<le> credential_key i c)"
      then obtain b' where b': "best = Some b'" "fst b' \<le> credential_key i c" by blast
      have le: "fst b \<le> credential_key i c" using rest(3) [of b'] old b' order_trans by blast
      have "best = Some b \<or> snd b \<in> set (c # cs)" using rest(1) old by auto
      moreover have "\<forall>b'. best = Some b' \<longrightarrow> fst b \<le> fst b'" using rest(3) old by blast
      moreover have "\<forall>d \<in> set (c # cs). \<forall>j. find_sub (cr_value d) node = Some j \<longrightarrow> fst b \<le> credential_key j d"
        using rest(4) le Some by simp
      ultimately show ?thesis using rest(2) by blast
    qed
  qed
qed simp

lemma scan_text_None: "scan_text p s = None \<longleftrightarrow> credential_free p s"
  by (simp add: scan_text_def fold_credential_None credential_free_def find_sub_None_iff)

lemma scan_text_Some:
  assumes "scan_text p s = Some c"
  shows "c \<in> set (cg_credentials p) \<and> (\<exists>i. find_sub (cr_value c) s = Some i
    \<and> (\<forall>d \<in> set (cg_credentials p). \<forall>j. find_sub (cr_value d) s = Some j \<longrightarrow> credential_key i c \<le> credential_key j d))"
proof -
  obtain b where "fold (consider_credential s) (cg_credentials p) None = Some b" "snd b = c"
    using assms by (auto simp: scan_text_def)
  with fold_credential_Some [OF this(1)] show ?thesis by auto
qed

lemma first_some_None: "first_some xs = None \<longleftrightarrow> (\<forall>x \<in> set xs. x = None)"
  by (induction xs) (auto split: option.splits)

lemma first_some_Some: "first_some xs = Some v \<Longrightarrow> Some v \<in> set xs"
  by (induction xs) (auto split: option.splits)

lemma scan_value_None: "scan_value p v = None \<longleftrightarrow> value_free p v"
proof (induction v rule: leaves.induct)
  case (2 d)
  then have "(\<forall>(k, v) \<in> set d. scan_value p v = None) \<longleftrightarrow> (\<forall>(k, v) \<in> set d. value_free p v)" by blast
  then show ?case by (auto simp: first_some_None value_free_def)
next
  case (3 vs)
  then show ?case by (auto simp: first_some_None value_free_def)
qed (simp_all add: value_free_def scan_text_None)

lemma scan_value_Some:
  "scan_value p v = Some c \<Longrightarrow> \<exists>s \<in> set (leaves v). scan_text p s = Some c"
proof (induction v rule: leaves.induct)
  case (2 d)
  have "first_some (map (\<lambda>(k, v). scan_value p v) d) = Some c" using 2(2) by simp
  then have "Some c \<in> set (map (\<lambda>(k, v). scan_value p v) d)" by (rule first_some_Some)
  then obtain k v where "(k, v) \<in> set d" "scan_value p v = Some c" by auto
  with 2 show ?case by fastforce
next
  case (3 vs)
  have "first_some (map (scan_value p) vs) = Some c" using 3(2) by simp
  then have "Some c \<in> set (map (scan_value p) vs)" by (rule first_some_Some)
  then obtain v where "v \<in> set vs" "scan_value p v = Some c" by auto
  with 3 show ?case by fastforce
qed simp_all

lemma find_credential_None: "find_credential p b d v = None \<longleftrightarrow> value_free p v"
  by (simp add: find_credential_def scan_value_None)

lemma find_credential_Some: "find_credential p b d v = Some m \<Longrightarrow> \<not> value_free p v"
  by (simp flip: find_credential_None [of p b d])

text \<open>C23. The search is exact: it finds nothing exactly when no text inside the value, at any depth, holds a
  protected value; and what it reports is a protected credential that stands in one of the texts, there
  before every other one (by position, then the shorter, then the lesser id).\<close>

theorem credential_search_exact:
  "case find_credential p boundary direction v of
     None \<Rightarrow> \<forall>s \<in> set (leaves v). credential_free p s
   | Some m \<Rightarrow> \<exists>c \<in> set (cg_credentials p). m = match_for boundary direction c
       \<and> (\<exists>s \<in> set (leaves v). \<exists>i. find_sub (cr_value c) s = Some i
           \<and> (\<forall>d \<in> set (cg_credentials p). \<forall>j. find_sub (cr_value d) s = Some j \<longrightarrow> credential_key i c \<le> credential_key j d))"
proof (cases "find_credential p boundary direction v")
  case None
  then show ?thesis using find_credential_None [of p boundary direction v] by (simp add: value_free_def)
next
  case (Some m)
  then obtain c where c: "scan_value p v = Some c" "m = match_for boundary direction c"
    by (auto simp: find_credential_def)
  then obtain s where "s \<in> set (leaves v)" "scan_text p s = Some c" using scan_value_Some by blast
  then show ?thesis using scan_text_Some [of p s c] Some c by auto
qed

section \<open>The snapshot\<close>

definition valid_credential_policy :: "credential_policy \<Rightarrow> bool" where
  "valid_credential_policy p \<longleftrightarrow>
     cg_runtime_id p \<noteq> [] \<and> cg_lane_id p \<noteq> [] \<and> distinct (map cr_id (cg_credentials p))
     \<and> distinct (map cr_value (cg_credentials p)) \<and> (\<forall>c \<in> set (cg_credentials p). cr_value c \<noteq> [])"

text \<open>A credential of the policy stands for a source: its value, its identity, and where it may go.\<close>

definition stands_for :: "protected_credential \<Rightarrow> credential_source \<Rightarrow> bool" where
  "stands_for e source = (case source of (c, k, secret, destinations) \<Rightarrow>
     secret = Some (cr_value e) \<and> (c = cr_class e \<or> c \<in> set (cr_alias_classes e))
     \<and> (credential_id c = cr_id e \<or> credential_id c \<in> set (cr_aliases e)) \<and> destinations \<subseteq> cr_destinations e)"

definition entries_ok :: "credential_source list \<Rightarrow> protected_credential list \<Rightarrow> bool" where
  "entries_ok sources es \<longleftrightarrow>
     distinct (map cr_value es) \<and> distinct (map cr_class es) \<and> set (map cr_class es) \<subseteq> set (map fst sources)
     \<and> (\<forall>e \<in> set es. cr_id e = credential_id (cr_class e) \<and> cr_source e \<noteq> [] \<and> cr_value e \<noteq> [])
     \<and> (\<forall>s \<in> set sources. fst (snd (snd s)) \<noteq> None \<longrightarrow> (\<exists>e \<in> set es. stands_for e s))"

definition source_ok :: "credential_source \<Rightarrow> bool" where
  "source_ok s \<longleftrightarrow> fst (snd s) \<noteq> [] \<and> fst (snd (snd s)) \<noteq> Some []"

lemma stands_for_merge: "stands_for e s \<Longrightarrow> stands_for (merge_entry c d e) s"
  by (auto simp: stands_for_def merge_entry_def split: prod.splits)

lemma merge_entry_fields [simp]:
  "cr_value (merge_entry c d e) = cr_value e" "cr_class (merge_entry c d e) = cr_class e"
  "cr_id (merge_entry c d e) = cr_id e" "cr_source (merge_entry c d e) = cr_source e"
  by (simp_all add: merge_entry_def)

lemma add_source_ok:
  assumes "entries_ok sources es" and "source_ok s" and "fst s \<notin> set (map fst sources)"
  shows "entries_ok (sources @ [s]) (add_source s es)"
proof -
  obtain c k secret d where s: "s = (c, k, secret, d)" by (cases s)
  note ok = assms(1)[unfolded entries_ok_def]
  show ?thesis
  proof (cases secret)
    case None
    then show ?thesis using ok s by (auto simp: entries_ok_def add_source_def)
  next
    case (Some v)
    have k: "k \<noteq> []" "v \<noteq> []" using assms(2) s Some by (simp_all add: source_ok_def)
    show ?thesis
    proof (cases "v \<in> set (map cr_value es)")
      case False
      then have add: "add_source s es = es @ [first_entry c k v d]" using s Some by (simp add: add_source_def)
      have "c \<notin> set (map cr_class es)" using ok assms(3) s by auto
      moreover have "stands_for (first_entry c k v d) s" using s Some by (simp add: stands_for_def first_entry_def)
      ultimately show ?thesis using ok k False unfolding add entries_ok_def
        by (auto simp: first_entry_def s)
    next
      case True
      let ?f = "\<lambda>e. if cr_value e = v then merge_entry c d e else e"
      have add: "add_source s es = map ?f es" using s Some True by (simp add: add_source_def)
      have keep: "map cr_value (map ?f es) = map cr_value es" "map cr_class (map ?f es) = map cr_class es" by (simp_all cong: map_cong)
      obtain e where e: "e \<in> set es" "cr_value e = v" using True by auto
      have "stands_for (merge_entry c d e) s"
        using e(2) s Some by (auto simp: stands_for_def merge_entry_def)
      then have new: "\<exists>e' \<in> set (map ?f es). stands_for e' s" using e by auto
      have old: "\<exists>e' \<in> set (map ?f es). stands_for e' t" if t: "t \<in> set sources" "fst (snd (snd t)) \<noteq> None" for t
      proof -
        obtain e0 where "e0 \<in> set es" "stands_for e0 t" using ok t by blast
        then have "?f e0 \<in> set (map ?f es)" "stands_for (?f e0) t" by (auto simp: stands_for_merge)
        then show ?thesis by blast
      qed
      have "\<forall>e' \<in> set (map ?f es). cr_id e' = credential_id (cr_class e') \<and> cr_source e' \<noteq> [] \<and> cr_value e' \<noteq> []"
        using ok by auto
      moreover have "\<forall>t \<in> set (sources @ [s]). fst (snd (snd t)) \<noteq> None \<longrightarrow> (\<exists>e' \<in> set (map ?f es). stands_for e' t)"
      proof (intro ballI impI)
        fix t assume t: "t \<in> set (sources @ [s])" "fst (snd (snd t)) \<noteq> None"
        show "\<exists>e' \<in> set (map ?f es). stands_for e' t"
        proof (cases "t = s")
          case True
          show ?thesis unfolding True by (rule new)
        next
          case False
          then have "t \<in> set sources" using t(1) by simp
          then show ?thesis using t(2) by (rule old)
        qed
      qed
      moreover have "distinct (map cr_value es)" "distinct (map cr_class es)" "set (map cr_class es) \<subseteq> set (map fst (sources @ [s]))"
        using ok by auto
      ultimately show ?thesis unfolding add entries_ok_def keep by blast
    qed
  qed
qed

lemma fold_sources_ok:
  assumes "\<forall>s \<in> set sources. source_ok s" and "distinct (map fst (before @ sources))" and "entries_ok before es"
  shows "entries_ok (before @ sources) (fold add_source sources es)"
  using assms
proof (induction sources arbitrary: before es)
  case (Cons s sources)
  have "entries_ok (before @ [s]) (add_source s es)" by (rule add_source_ok) (use Cons.prems in auto)
  then have "entries_ok ((before @ [s]) @ sources) (fold add_source sources (add_source s es))"
    by (intro Cons.IH) (use Cons.prems in auto)
  then show ?case by simp
qed simp

lemma validated_secret_nonempty [simp]: "validated_secret k v \<noteq> Inr (Some [])"
  by (cases v) (auto simp: validated_secret_def split: if_splits)

lemma pi_control_nonempty [simp]: "pi_control_secret loader \<noteq> Inr (Some [])"
  by (auto simp: pi_control_secret_def split: option.splits sum.splits pyval.splits)

lemma basic_wire_nonempty [simp]: "basic_wire u pw \<noteq> Some []"
  by (simp add: basic_wire_def)

lemma basic_wire_nonempty' [simp]: "Some [] \<noteq> basic_wire u pw"
  using basic_wire_nonempty [of u pw] by metis

lemma logical_sources_ok:
  assumes "logical_sources config loader = Inr sources"
  shows "(\<forall>s \<in> set sources. source_ok s) \<and> map fst sources =
    [JackApi, BackendBearer, BackendNamedHeader, BackendBasicPassword, BackendBasicWire, BackendAuthorization, PiControl]"
  using assms by (auto simp: logical_sources_def try_bind_Inr_iff source_ok_def split: option.splits)

lemma credential_id_inj: "credential_id c = credential_id d \<longleftrightarrow> c = d"
  by (cases c; cases d) (simp_all add: credential_id_def)

lemma check_credentials_Inr:
  "check_credentials ids vals cs = Inr () \<longleftrightarrow>
     distinct (map cr_id cs) \<and> distinct (map cr_value cs) \<and> cr_id ` set cs \<inter> ids = {} \<and> cr_value ` set cs \<inter> vals = {}"
  by (induction ids vals cs rule: check_credentials.induct) (auto simp: raise_if_Inr_iff)

lemma entries_checked:
  assumes "entries_ok sources es"
  shows "try_map make_credential es = Inr es \<and> distinct (map cr_id es)"
proof
  have "make_credential e = Inr e" if "e \<in> set es" for e
    using assms that by (auto simp: entries_ok_def make_credential_def credential_id_def split: credential_class.splits)
  then have "try_map make_credential es = Inr (map (\<lambda>e. e) es)" by (rule try_map_pure)
  then show "try_map make_credential es = Inr es" by simp
  have "map cr_id es = map credential_id (map cr_class es)" using assms by (auto simp: entries_ok_def)
  moreover have "inj credential_id" by (simp add: inj_def credential_id_inj)
  ultimately show "distinct (map cr_id es)"
    using assms inj_on_subset by (auto simp: entries_ok_def distinct_map simp del: map_map)
qed

text \<open>The snapshot is whole: where the runtime has its identities and every source is textual it is built, it is
  well-formed, and every configured non-empty credential (the derived Basic wire and the control token
  included) is the value of one entry, which carries the source's identity, as its own or an alias, and
  allows its destinations.\<close>

theorem credential_snapshot_whole:
  assumes "logical_sources config loader = Inr sources"
    and "py_strip (str_or_empty runtime) \<noteq> []" and "py_strip (str_or_empty lane) \<noteq> []"
  shows "\<exists>p. build_credential_policy runtime lane config loader resources = Inr p \<and> valid_credential_policy p
     \<and> cg_runtime_id p = py_strip (str_or_empty runtime) \<and> cg_lane_id p = py_strip (str_or_empty lane)
     \<and> (\<forall>s \<in> set sources. fst (snd (snd s)) \<noteq> None \<longrightarrow> (\<exists>e \<in> set (cg_credentials p). stands_for e s))"
proof -
  let ?es = "fold add_source sources []"
  have "distinct (map fst sources)" using logical_sources_ok [OF assms(1)] by simp
  then have ok: "entries_ok sources ?es"
    using fold_sources_ok [of sources "[]" "[]"] logical_sources_ok [OF assms(1)] by (simp add: entries_ok_def)
  note checked = entries_checked [OF ok]
  have "check_credentials {} {} ?es = Inr ()" using ok checked by (simp add: check_credentials_Inr entries_ok_def)
  then show ?thesis using assms ok checked
    by (simp add: build_credential_policy_def make_credential_policy_def valid_credential_policy_def entries_ok_def)
qed

definition example_config :: credential_config where
  "example_config = \<lparr>cc_api_key = PStr ''k1'', cc_backend_api_key = PStr ''k1'', cc_backend_header_value = PNone,
     cc_backend_username = PStr ''u'', cc_backend_password = PStr ''pw'', cc_backend_authorization_value = PStr []\<rparr>"

theorem credential_snapshot_whole_witness:
  "\<exists>p. build_credential_policy (PStr ''r'') (PStr '' l '') (Some example_config) None [] = Inr p \<and> valid_credential_policy p
     \<and> (\<exists>e \<in> set (cg_credentials p). stands_for e
          (BackendBasicWire, ''derived_backend_basic_wire'', Some ''Basic dTpwdw=='', {''backend_authorization_header''}))"
proof -
  let ?wire = "(BackendBasicWire, ''derived_backend_basic_wire'', Some ''Basic dTpwdw=='', {''backend_authorization_header''})"
  have "basic_wire (PStr ''u'') (Some ''pw'') = Some ''Basic dTpwdw==''" by code_simp
  then obtain sources where s: "logical_sources (Some example_config) None = Inr sources" "?wire \<in> set sources"
    by (simp add: logical_sources_def example_config_def validated_secret_def pi_control_secret_def)
  have id: "py_strip (str_or_empty (PStr ''r'')) \<noteq> []" "py_strip (str_or_empty (PStr '' l '')) \<noteq> []" by code_simp+
  from credential_snapshot_whole [OF s(1) id] s(2) show ?thesis by fastforce
qed

section \<open>The Basic wire\<close>

definition base64_value :: "char \<Rightarrow> nat" where
  "base64_value c = (let n = of_char c :: nat in
     if 65 \<le> n \<and> n \<le> 90 then n - 65 else if 97 \<le> n \<and> n \<le> 122 then n - 71 else if 48 \<le> n \<and> n \<le> 57 then n + 4
     else if c = CHR ''+'' then 62 else 63)"

fun unbase64 :: "string \<Rightarrow> nat list" where
  "unbase64 (w # x # y # z # rest) =
     (let a = base64_value w; b = base64_value x; c = base64_value y; d = base64_value z in
      if y = CHR ''='' then [a * 4 + b div 16]
      else if z = CHR ''='' then [a * 4 + b div 16, b mod 16 * 16 + c div 4]
      else [a * 4 + b div 16, b mod 16 * 16 + c div 4, c mod 4 * 64 + d] @ unbase64 rest)"
| "unbase64 _ = []"

lemma base64_value_char: "n < 64 \<Longrightarrow> base64_value (base64_char n) = n"
  by (auto simp: base64_value_def base64_char_def Let_def)

lemma sextets:
  fixes a b c :: nat
  assumes "b < 256" and "c < 256"
  shows "a div 4 * 4 + (a mod 4 * 16 + b div 16) div 16 = a"
    and "(a mod 4 * 16 + b div 16) mod 16 * 16 + (b mod 16 * 4 + c div 64) div 4 = b"
    and "(b mod 16 * 4 + c div 64) mod 4 * 64 + c mod 64 = c"
proof -
  have "b div 16 < 16" "c div 64 < 4" using assms by auto
  then have "(a mod 4 * 16 + b div 16) div 16 = a mod 4" "(a mod 4 * 16 + b div 16) mod 16 = b div 16"
    "(b mod 16 * 4 + c div 64) div 4 = b mod 16" "(b mod 16 * 4 + c div 64) mod 4 = c div 64" by simp_all
  then show "a div 4 * 4 + (a mod 4 * 16 + b div 16) div 16 = a"
    "(a mod 4 * 16 + b div 16) mod 16 * 16 + (b mod 16 * 4 + c div 64) div 4 = b"
    "(b mod 16 * 4 + c div 64) mod 4 * 64 + c mod 64 = c" by simp_all
qed

lemma base64_char_pad: "n < 64 \<Longrightarrow> base64_char n \<noteq> CHR ''=''"
proof
  assume "n < 64" "base64_char n = CHR ''=''"
  then have "(of_char (base64_char n) :: nat) = 61" by simp
  then show False using \<open>n < 64\<close> by (simp add: base64_char_def split: if_splits)
qed

text \<open>Base64 loses nothing: a decoder gets the bytes back, so the Basic wire identifies the name and the password it
  was derived from.\<close>

theorem base64_roundtrip:
  assumes "\<forall>b \<in> set bytes. b < 256"
  shows "unbase64 (base64 bytes) = bytes"
  using assms
proof (induction bytes rule: base64.induct)
  case (4 a b c bytes)
  have *: "a div 4 < 64" "a mod 4 * 16 + b div 16 < 64" "b mod 16 * 4 + c div 64 < 64" "c mod 64 < 64" using 4 by auto
  have small: "b < 256" "c < 256" using 4(2) by simp_all
  have "unbase64 (base64 (a # b # c # bytes)) =
      [a div 4 * 4 + (a mod 4 * 16 + b div 16) div 16,
       (a mod 4 * 16 + b div 16) mod 16 * 16 + (b mod 16 * 4 + c div 64) div 4,
       (b mod 16 * 4 + c div 64) mod 4 * 64 + c mod 64] @ unbase64 (base64 bytes)"
    by (simp only: base64.simps unbase64.simps Let_def * base64_value_char base64_char_pad if_False)
  then have "unbase64 (base64 (a # b # c # bytes)) = [a, b, c] @ unbase64 (base64 bytes)"
    unfolding sextets [OF small] .
  then show ?case using 4 by simp
next
  case (3 a b)
  have *: "a div 4 < 64" "a mod 4 * 16 + b div 16 < 64" "b mod 16 * 4 < 64" using 3 by auto
  have small: "b < 256" "(0::nat) < 256" using 3 by simp_all
  have "unbase64 (base64 [a, b]) =
      [a div 4 * 4 + (a mod 4 * 16 + b div 16) div 16, (a mod 4 * 16 + b div 16) mod 16 * 16 + (b mod 16 * 4 + 0 div 64) div 4]"
    by (simp only: base64.simps unbase64.simps Let_def * base64_value_char base64_char_pad if_False if_True div_0 add_0_right simp_thms)
  then show ?case unfolding sextets [OF small] .
next
  case (2 a)
  have *: "a div 4 < 64" "a mod 4 * 16 < 64" using 2 by auto
  then show ?case by (simp add: base64_value_char base64_char_pad Let_def)
qed simp

theorem base64_roundtrip_witness: "unbase64 (base64 [0, 255, 58, 7]) = [0, 255, 58, 7]"
  by (rule base64_roundtrip) simp

section \<open>The partial credential at the end of a stream\<close>

text \<open>\<open>overlaps p carry seen\<close>: \<open>carry\<close> is the longest end of \<open>seen\<close> that begins a credential without completing it.\<close>

definition overlaps :: "credential_policy \<Rightarrow> string \<Rightarrow> string \<Rightarrow> bool" where
  "overlaps p carry seen \<longleftrightarrow> suffix carry seen
     \<and> (carry = [] \<or> (\<exists>c \<in> set (cg_credentials p). strict_prefix carry (cr_value c)))
     \<and> (\<forall>c \<in> set (cg_credentials p). \<forall>s. suffix s seen \<and> strict_prefix s (cr_value c) \<longrightarrow> length s \<le> length carry)"

lemma suffix_is_drop: "suffix s t \<Longrightarrow> s = drop (length t - length s) t"
  by (auto simp: suffix_def)

lemma overlap_from_longest:
  assumes "n \<le> length t" and "n < length v"
  shows "suffix (overlap_from v t n) t \<and> (overlap_from v t n = [] \<or> strict_prefix (overlap_from v t n) v)
    \<and> (\<forall>s. suffix s t \<and> prefix s v \<and> length s \<le> n \<longrightarrow> length s \<le> length (overlap_from v t n))"
  using assms
proof (induction n)
  case (Suc n)
  let ?c = "drop (length t - Suc n) t"
  have len: "length ?c = Suc n" using Suc.prems by simp
  show ?case
  proof (cases "starts_with ?c v")
    case True
    then have p: "prefix ?c v" by (simp add: starts_with_prefix)
    moreover have "?c \<noteq> v" using len Suc.prems by auto
    ultimately have "strict_prefix ?c v" by (simp add: strict_prefix_def)
    moreover have "overlap_from v t (Suc n) = ?c" using True by (simp add: Let_def)
    ultimately show ?thesis using len suffix_drop by (metis (no_types, lifting))
  next
    case False
    then have np: "\<not> prefix ?c v" by (simp add: starts_with_prefix)
    have "length s \<le> n" if "suffix s t" "prefix s v" "length s \<le> Suc n" for s
    proof (rule ccontr)
      assume "\<not> length s \<le> n"
      then have "length s = Suc n" using that(3) by simp
      then have "s = ?c" using suffix_is_drop [OF that(1)] by simp
      then show False using np that(2) by simp
    qed
    moreover have "overlap_from v t (Suc n) = overlap_from v t n" using False by (simp add: Let_def)
    ultimately show ?thesis using Suc by auto
  qed
qed simp

lemma credential_overlap_longest:
  assumes "v \<noteq> []"
  shows "suffix (credential_overlap v t) t \<and> (credential_overlap v t = [] \<or> strict_prefix (credential_overlap v t) v)
    \<and> (\<forall>s. suffix s t \<and> strict_prefix s v \<longrightarrow> length s \<le> length (credential_overlap v t))"
proof -
  let ?n = "min (length t) (length v - 1)"
  have "?n \<le> length t" "?n < length v" using assms by (simp_all add: min.strict_coboundedI2)
  note o = overlap_from_longest [OF this]
  have "length s \<le> ?n" if "suffix s t" "strict_prefix s v" for s
    using suffix_length_le [OF that(1)] prefix_length_less [OF that(2)] by simp
  then show ?thesis using o unfolding credential_overlap_def strict_prefix_def by blast
qed

lemma prefix_carry_overlaps:
  assumes "\<forall>c \<in> set (cg_credentials p). cr_value c \<noteq> []"
  shows "overlaps p (credential_prefix_carry p t) t"
proof -
  let ?f = "\<lambda>c best. let candidate = credential_overlap (cr_value c) t in if length best < length candidate then candidate else best"
  have "suffix (fold ?f cs best) t
      \<and> (fold ?f cs best = [] \<or> (\<exists>c \<in> set cs \<union> ds. strict_prefix (fold ?f cs best) (cr_value c)))
      \<and> (\<forall>c \<in> set cs \<union> ds. \<forall>s. suffix s t \<and> strict_prefix s (cr_value c) \<longrightarrow> length s \<le> length (fold ?f cs best))"
    if "\<forall>c \<in> set cs. cr_value c \<noteq> []" "suffix best t" "best = [] \<or> (\<exists>c \<in> ds. strict_prefix best (cr_value c))"
      "\<forall>c \<in> ds. \<forall>s. suffix s t \<and> strict_prefix s (cr_value c) \<longrightarrow> length s \<le> length best" for cs best ds
    using that
  proof (induction cs arbitrary: best ds)
    case (Cons c cs)
    have v: "cr_value c \<noteq> []" using Cons.prems(1) by simp
    note o = credential_overlap_longest [OF v, of t]
    have pick: "?f c best = (if length best < length (credential_overlap (cr_value c) t) then credential_overlap (cr_value c) t else best)"
      by (simp add: Let_def)
    have "suffix (?f c best) t" unfolding pick using o Cons.prems(2) by simp
    moreover have "?f c best = [] \<or> (\<exists>d \<in> insert c ds. strict_prefix (?f c best) (cr_value d))"
      unfolding pick using o Cons.prems(3) by auto
    moreover have "\<forall>d \<in> insert c ds. \<forall>s. suffix s t \<and> strict_prefix s (cr_value d) \<longrightarrow> length s \<le> length (?f c best)"
    proof (intro ballI allI impI)
      fix d s assume d: "d \<in> insert c ds" and s: "suffix s t \<and> strict_prefix s (cr_value d)"
      have "length s \<le> length best \<or> length s \<le> length (credential_overlap (cr_value c) t)"
        using d s o Cons.prems(4) by auto
      then show "length s \<le> length (?f c best)" unfolding pick by auto
    qed
    ultimately show ?case
      using Cons.IH [of "?f c best" "insert c ds"] Cons.prems(1) by simp
  qed simp
  from this [of "cg_credentials p" "[]" "{}"] assms show ?thesis
    by (simp add: overlaps_def credential_prefix_carry_def)
qed

text \<open>The carry is all that matters of what was seen: new text completes a credential over the carry exactly when it
  does over everything.\<close>

lemma suffix_same: "suffix s t \<Longrightarrow> suffix r t \<Longrightarrow> length s \<le> length r \<Longrightarrow> suffix s r"
  by (metis suffix_same_cases suffix_length_le suffix_order.eq_iff le_antisym suffix_is_drop drop_0 diff_self_eq_0)

lemma sublist_beyond:
  assumes "sublist v (t @ f)" and "\<not> sublist v t"
  obtains "sublist v f" | s y where "suffix s t" "strict_prefix s v" "v @ y = s @ f"
proof -
  obtain x y where xy: "t @ f = x @ v @ y" using assms(1) by (auto simp: sublist_def)
  then obtain us where "t = x @ us \<and> us @ f = v @ y \<or> t @ us = x \<and> f = us @ v @ y"
    by (auto simp: append_eq_append_conv2)
  then show thesis
  proof
    assume l: "t = x @ us \<and> us @ f = v @ y"
    then have "prefix us (v @ y)" by (metis prefixI)
    moreover have "\<not> prefix v us" using l assms(2) by (auto simp: prefix_def sublist_def)
    ultimately have "strict_prefix us v"
      by (metis prefixI prefix_same_cases strict_prefix_def)
    then show thesis using that(2) [of us y] l by (simp add: suffix_def)
  next
    assume "t @ us = x \<and> f = us @ v @ y"
    then show thesis using that(1) by (auto simp: sublist_def)
  qed
qed

lemma carry_decides:
  assumes "credential_free p seen" and "overlaps p carry seen"
  shows "credential_free p (carry @ f) \<longleftrightarrow> credential_free p (seen @ f)"
proof
  assume "credential_free p (seen @ f)"
  moreover obtain x where "seen = x @ carry" using assms(2) by (auto simp: overlaps_def suffix_def)
  ultimately show "credential_free p (carry @ f)"
    by (metis (no_types) append.assoc credential_free_def sublist_appendI sublist_order.order_trans append.right_neutral)
next
  assume free: "credential_free p (carry @ f)"
  show "credential_free p (seen @ f)" unfolding credential_free_def
  proof (intro ballI notI)
    fix c assume c: "c \<in> set (cg_credentials p)" and sub: "sublist (cr_value c) (seen @ f)"
    have "\<not> sublist (cr_value c) seen" using assms(1) c by (simp add: credential_free_def)
    with sub show False
    proof (cases rule: sublist_beyond)
      case 1
      then have "sublist (cr_value c) (carry @ f)" by (auto simp: sublist_append)
      then show False using free c by (simp add: credential_free_def)
    next
      case (2 s y)
      then have "suffix s carry" using assms(2) c suffix_same [of s seen carry] by (auto simp: overlaps_def)
      then obtain z where "carry = z @ s" by (auto simp: suffix_def)
      then have "carry @ f = z @ cr_value c @ y" using 2(3) by simp
      then have "sublist (cr_value c) (carry @ f)" by (auto simp: sublist_def)
      then show False using free c by (simp add: credential_free_def)
    qed
  qed
qed

lemma overlaps_extend:
  assumes "overlaps p carry seen" and "overlaps p carry' (carry @ f)"
  shows "overlaps p carry' (seen @ f)"
proof -
  have s: "suffix carry seen" using assms(1) by (simp add: overlaps_def)
  then have up: "suffix (carry @ f) (seen @ f)" by simp
  have "length s \<le> length carry'" if c: "c \<in> set (cg_credentials p)" and su: "suffix s (seen @ f)" and pre: "strict_prefix s (cr_value c)" for c s
  proof -
    have "suffix s (carry @ f)"
    proof (cases "suffix s f")
      case False
      then obtain s' where s': "s = s' @ f" "suffix s' seen" using su by (auto simp: suffix_append)
      have "strict_prefix s' (cr_value c)" using pre s'(1)
        by (metis append_prefixD prefix_length_less length_append not_add_less1 strict_prefix_def)
      then have "length s' \<le> length carry" using assms(1) c s'(2) by (auto simp: overlaps_def)
      then have "suffix s' carry" using suffix_same [OF s'(2) s] by simp
      then show ?thesis using s'(1) by simp
    qed (simp add: suffix_append)
    then show ?thesis using assms(2) c pre by (auto simp: overlaps_def)
  qed
  then show ?thesis using assms(2) up suffix_order.order_trans unfolding overlaps_def by blast
qed

section \<open>The event stream\<close>

definition carried :: "carry_state \<Rightarrow> stream_key \<Rightarrow> string" where
  "carried state key = (case state key of None \<Rightarrow> [] | Some carry \<Rightarrow> carry)"

text \<open>The carry of a channel fits what the channel has shown since it was last cleared.\<close>

definition channel_at :: "credential_policy \<Rightarrow> carry_state \<Rightarrow> stream_key \<Rightarrow> string \<Rightarrow> bool" where
  "channel_at p state key seen \<longleftrightarrow> credential_free p seen \<and> overlaps p (carried state key) seen"

definition on_channel :: "string \<Rightarrow> (string \<times> string) list \<Rightarrow> string" where
  "on_channel channel fragments = concat (map snd (filter (\<lambda>f. fst f = channel) fragments))"

definition event_text :: "stream_key \<Rightarrow> pyval \<Rightarrow> string" where
  "event_text key source_event =
     (case source_event of
        PDict e \<Rightarrow> if stream_identity e = fst key then on_channel (snd key) (delta_fragments source_event) else []
      | _ \<Rightarrow> [])"

lemma value_free_text: "value_free p (PStr s) \<longleftrightarrow> credential_free p s"
  by (simp add: value_free_def)

lemma match_fragments_channel:
  assumes "\<forall>c \<in> set (cg_credentials p). cr_value c \<noteq> []"
    and "match_fragments p i fragments state = (state', None)" and "channel_at p state (j, channel) seen"
  shows "channel_at p state' (j, channel) (seen @ (if i = j then on_channel channel fragments else []))"
  using assms(2,3)
proof (induction fragments arbitrary: state seen)
  case Nil
  then show ?case by (simp add: on_channel_def)
next
  case (Cons f fragments)
  obtain ch frag where f: "f = (ch, frag)" by (cases f)
  let ?combined = "carried state (i, ch) @ frag" and ?carry = "credential_prefix_carry p (carried state (i, ch) @ frag)"
  let ?next = "state((i, ch) := (if ?carry = [] then None else Some ?carry))"
  have none: "find_credential p BOUNDARY_ORCHESTRATION_EVENT_RELEASE DIRECTION_CALLER_BOUND (PStr ?combined) = None"
    and rest: "match_fragments p i fragments ?next = (state', None)"
    using Cons.prems(1) by (auto simp: f Let_def carried_def split: option.splits)
  have free: "credential_free p ?combined" using none by (simp add: find_credential_None value_free_text)
  show ?case
  proof (cases "(i, ch) = (j, channel)")
    case True
    have c: "carried ?next (j, channel) = ?carry" using True by (simp add: carried_def)
    have at: "credential_free p seen" "overlaps p (carried state (i, ch)) seen" using Cons.prems(2) True by (simp_all add: channel_at_def)
    have "credential_free p (seen @ frag)" using carry_decides [OF at] free by simp
    moreover have "overlaps p ?carry (seen @ frag)"
      using overlaps_extend [OF at(2) prefix_carry_overlaps [OF assms(1)]] .
    ultimately have "channel_at p ?next (j, channel) (seen @ frag)" unfolding channel_at_def c by simp
    from Cons.IH [OF rest this] show ?thesis using True by (simp add: f on_channel_def)
  next
    case False
    then have "?next (j, channel) = state (j, channel)" by auto
    then have "channel_at p ?next (j, channel) seen" using Cons.prems(2) unfolding channel_at_def carried_def by simp
    from Cons.IH [OF rest this] show ?thesis using False by (auto simp: f on_channel_def)
  qed
qed

lemma channel_at_clear: "carried state key = [] \<Longrightarrow> \<forall>c \<in> set (cg_credentials p). cr_value c \<noteq> [] \<Longrightarrow> channel_at p state key []"
  by (auto simp: channel_at_def overlaps_def credential_free_def)

text \<open>An event is released as it is exactly when neither its streams nor its own texts hold a credential.\<close>

lemma guarded_publish_cases:
  obtains (released) state' where "stream_match p state source_event = (state', None)" "value_free p source_event"
      "guarded_publish p (event_type, source_event) state =
         (if event_type \<in> set END_EVENTS then clear_stream_state source_event state' else state', (event_type, source_event))"
    | (blocked) state' where "guarded_publish p (event_type, source_event) state =
         (clear_stream_state source_event state', (ORCHESTRATION_RELEASE_BLOCK_ERROR, blocked_event p source_event))"
proof -
  obtain state' m where s: "stream_match p state source_event = (state', m)" by fastforce
  show thesis
  proof (cases "m = None \<and> value_free p source_event")
    case True
    then have "release_value_match p BOUNDARY_ORCHESTRATION_EVENT_RELEASE source_event = None"
      by (simp add: release_value_match_def find_credential_None)
    then show thesis using that(1) [of state'] s True by (simp add: guarded_publish_def)
  next
    case False
    then have "(case m of None \<Rightarrow> release_value_match p BOUNDARY_ORCHESTRATION_EVENT_RELEASE source_event | Some m \<Rightarrow> Some m) \<noteq> None"
      by (cases m) (auto simp: release_value_match_def find_credential_None)
    then show thesis using that(2) [of state'] s by (auto simp: guarded_publish_def)
  qed
qed

lemma released_channel:
  assumes "\<forall>c \<in> set (cg_credentials p). cr_value c \<noteq> []"
    and "stream_match p state source_event = (state', None)" and "channel_at p state key seen"
  shows "channel_at p state' key (seen @ event_text key source_event)"
proof (cases source_event)
  case (PDict e)
  obtain j channel where key: "key = (j, channel)" by (cases key)
  have "match_fragments p (stream_identity e) (delta_fragments source_event) state = (state', None)"
    using assms(2) PDict by (simp add: stream_match_def)
  from match_fragments_channel [OF assms(1) this assms(3)[unfolded key]]
  show ?thesis by (simp add: key event_text_def PDict cong: if_cong split: if_splits)
qed (use assms in \<open>simp_all add: stream_match_def event_text_def\<close>)

lemma publish_all_channel:
  assumes "\<forall>c \<in> set (cg_credentials p). cr_value c \<noteq> []"
    and "publish_all p events state = (state', outs)" and "channel_at p state key seen"
    and "\<forall>e \<in> set outs. fst e \<noteq> ORCHESTRATION_RELEASE_BLOCK_ERROR" and "\<forall>e \<in> set events. fst e \<notin> set END_EVENTS"
  shows "outs = events \<and> channel_at p state' key (seen @ concat (map (\<lambda>e. event_text key (snd e)) events))"
  using assms(2-5)
proof (induction events arbitrary: state outs seen)
  case (Cons e events)
  obtain event_type source_event where e: "e = (event_type, source_event)" by (cases e)
  obtain st out where g: "guarded_publish p e state = (st, out)" by (rule prod.exhaust)
  obtain outs' where outs: "publish_all p events st = (state', outs')" "outs = out # outs'"
    using Cons.prems(1) g by (auto split: prod.splits)
  show ?case
  proof (cases rule: guarded_publish_cases [of p state source_event event_type])
    case (released st')
    have "event_type \<notin> set END_EVENTS" using Cons.prems(4) by (simp add: e)
    then have st: "st = st'" "out = e" using released(3) g by (simp_all add: e)
    have "channel_at p st key (seen @ event_text key source_event)"
      unfolding st(1) by (rule released_channel [OF assms(1) released(1) Cons.prems(2)])
    from Cons.IH [OF outs(1) this] Cons.prems(3,4) outs(2) st(2) e show ?thesis by simp
  next
    case (blocked st')
    then have "fst out = ORCHESTRATION_RELEASE_BLOCK_ERROR" using g by (auto simp: e)
    then show ?thesis using Cons.prems(3) outs(2) by simp
  qed
qed simp

text \<open>C21. While nothing is blocked and no message ends, the texts streamed on a channel spell no credential, however
  they are cut into events and whatever the other channels show in between; and the events are released as they are.\<close>

theorem streamed_text_free:
  assumes "valid_credential_policy p" and "publish_all p events state = (state', outs)" and "state key = None"
    and "\<forall>e \<in> set outs. fst e \<noteq> ORCHESTRATION_RELEASE_BLOCK_ERROR" and "\<forall>e \<in> set events. fst e \<notin> set END_EVENTS"
  shows "outs = events \<and> credential_free p (concat (map (\<lambda>e. event_text key (snd e)) outs))"
proof -
  have v: "\<forall>c \<in> set (cg_credentials p). cr_value c \<noteq> []" using assms(1) by (simp add: valid_credential_policy_def)
  have "channel_at p state key []" by (rule channel_at_clear) (use assms(3) v in \<open>simp_all add: carried_def\<close>)
  from publish_all_channel [OF v assms(2) this assms(4,5)] show ?thesis by (simp add: channel_at_def)
qed

text \<open>A policy with one credential, and an event with a piece of text on the direct channel.\<close>

definition one_credential :: "string \<Rightarrow> credential_policy" where
  "one_credential v = \<lparr>cg_runtime_id = ''r'', cg_lane_id = ''l'',
     cg_credentials = [first_entry JackApi ''CFG.api_key'' v {''jack_public_auth''}], cg_resources = []\<rparr>"

theorem credential_search_exact_witness:
  "\<exists>m c. find_credential (one_credential ''SECRET'') ''b'' ''d'' (PList [PStr ''x'', PStr ''a SECRET'']) = Some m
     \<and> c \<in> set (cg_credentials (one_credential ''SECRET'')) \<and> m = match_for ''b'' ''d'' c
     \<and> find_credential (one_credential ''SECRET'') ''b'' ''d'' (PList [PStr ''x'']) = None \<and> credential_free (one_credential ''SECRET'') ''x''"
proof -
  let ?p = "one_credential ''SECRET''"
  have "find_credential ?p ''b'' ''d'' (PList [PStr ''x'', PStr ''a SECRET'']) \<noteq> None" by code_simp
  then obtain m where m: "find_credential ?p ''b'' ''d'' (PList [PStr ''x'', PStr ''a SECRET'']) = Some m" by blast
  have n: "find_credential ?p ''b'' ''d'' (PList [PStr ''x'']) = None" by code_simp
  have "\<exists>c \<in> set (cg_credentials ?p). m = match_for ''b'' ''d'' c"
    using credential_search_exact [where p = ?p and boundary = "''b''" and direction = "''d''" and v = "PList [PStr ''x'', PStr ''a SECRET'']"] m by auto
  moreover have "credential_free ?p ''x''"
    using credential_search_exact [where p = ?p and boundary = "''b''" and direction = "''d''" and v = "PList [PStr ''x'']"] n by simp
  ultimately show ?thesis using m n by blast
qed

definition delta_event :: "string \<Rightarrow> string \<times> pyval" where
  "delta_event s = (''message_update'', PDict [(''task_id'', PStr ''t''), (''data'', PDict [(''delta'', PStr s)])])"

definition delta_key :: stream_key where
  "delta_key = ((''t'', [], []), ''data.delta'')"

lemma one_credential_valid: "v \<noteq> [] \<Longrightarrow> valid_credential_policy (one_credential v)"
  by (simp add: valid_credential_policy_def one_credential_def first_entry_def)

theorem streamed_text_free_witness:
  "credential_free (one_credential ''SECRET'') (concat [''xSE'', ''CRE'', ''xT''])"
proof -
  let ?events = "map delta_event [''xSE'', ''CRE'', ''xT'']"
  obtain state' where run: "publish_all (one_credential ''SECRET'') ?events (\<lambda>_. None) = (state', ?events)"
  proof -
    have "snd (publish_all (one_credential ''SECRET'') ?events (\<lambda>_. None)) = ?events" by code_simp
    then show thesis using that by (metis prod.collapse)
  qed
  have "\<forall>e \<in> set ?events. fst e \<noteq> ORCHESTRATION_RELEASE_BLOCK_ERROR" "\<forall>e \<in> set ?events. fst e \<notin> set END_EVENTS" by code_simp+
  from streamed_text_free [OF one_credential_valid run _ this, of delta_key]
  have "credential_free (one_credential ''SECRET'') (concat (map (\<lambda>e. event_text delta_key (snd e)) ?events))" by simp
  moreover have "map (\<lambda>e. event_text delta_key (snd e)) ?events = [''xSE'', ''CRE'', ''xT'']" by code_simp
  ultimately show ?thesis by simp
qed

text \<open>What the guard publishes: either the event itself, when no text in it holds a credential, or the block notice
  with those of the event's identity fields that hold none. So a published event holds a credential only if a
  credential stands in the notice's own fixed words.\<close>

theorem published_event_clean:
  "case snd (guarded_publish p (event_type, source_event) state) of (published_type, published) \<Rightarrow>
     (published_type = event_type \<and> published = source_event \<and> value_free p source_event)
     \<or> (published_type = ORCHESTRATION_RELEASE_BLOCK_ERROR \<and> published = blocked_event p source_event
        \<and> (value_free p published \<longleftrightarrow> credential_free p ORCHESTRATION_RELEASE_BLOCK_ERROR
             \<and> value_free p (block_payload BOUNDARY_ORCHESTRATION_EVENT_RELEASE)))"
proof (cases rule: guarded_publish_cases [of p state source_event event_type])
  case (released state')
  then show ?thesis by simp
next
  case (blocked state')
  have "\<forall>(k, v) \<in> set (safe_identity p source_event). value_free p v"
    by (auto simp: safe_identity_def release_value_match_def find_credential_None split: pyval.split)
  then have "\<forall>s \<in> set (leaves (PDict (safe_identity p source_event))). credential_free p s"
    by (fastforce simp: value_free_def)
  then have "value_free p (blocked_event p source_event) \<longleftrightarrow> credential_free p ORCHESTRATION_RELEASE_BLOCK_ERROR
             \<and> value_free p (block_payload BOUNDARY_ORCHESTRATION_EVENT_RELEASE)"
    unfolding value_free_def blocked_event_def leaves.simps by auto
  then show ?thesis using blocked by simp
qed

lemma delta_event_parts:
  "delta_fragments (snd (delta_event s)) = [(''data.delta'', s)]"
  "\<exists>e. snd (delta_event s) = PDict e \<and> stream_identity e = (''t'', [], [])"
  "value_free p (snd (delta_event s)) \<longleftrightarrow> credential_free p ''t'' \<and> credential_free p s"
  "fst (delta_event s) \<notin> set END_EVENTS"
  by (auto simp: delta_event_def delta_fragments_def dict_get_def stream_identity_def value_free_def END_EVENTS_def)

lemma delta_stream:
  "stream_match p state (snd (delta_event s)) =
     match_fragments p (''t'', [], []) [(''data.delta'', s)] state"
  using delta_event_parts(1,2) [of s] by (auto simp: stream_match_def)

lemma delta_released:
  assumes "\<forall>c \<in> set (cg_credentials p). cr_value c \<noteq> []" and "channel_at p state delta_key seen"
    and "credential_free p (seen @ s)" and "credential_free p ''t''"
  obtains state' where "guarded_publish p (delta_event s) state = (state', delta_event s)" "channel_at p state' delta_key (seen @ s)"
proof -
  have at: "credential_free p seen" "overlaps p (carried state delta_key) seen" using assms(2) by (simp_all add: channel_at_def)
  have "credential_free p (carried state delta_key @ s)" using carry_decides [OF at] assms(3) by simp
  then have "find_credential p BOUNDARY_ORCHESTRATION_EVENT_RELEASE DIRECTION_CALLER_BOUND (PStr (carried state delta_key @ s)) = None"
    by (simp add: find_credential_None value_free_text)
  then obtain state' where m: "stream_match p state (snd (delta_event s)) = (state', None)"
    by (simp add: delta_stream Let_def carried_def delta_key_def)
  have "credential_free p s" using assms(3) by (auto simp: credential_free_def sublist_append)
  then have "value_free p (snd (delta_event s))" using assms(4) by (simp add: delta_event_parts)
  then have "release_value_match p BOUNDARY_ORCHESTRATION_EVENT_RELEASE (snd (delta_event s)) = None"
    by (simp add: release_value_match_def find_credential_None)
  then have "guarded_publish p (delta_event s) state = (state', delta_event s)"
    using m delta_event_parts(4) [of s] by (cases "delta_event s") (simp add: guarded_publish_def)
  moreover have "event_text delta_key (snd (delta_event s)) = s"
    using delta_event_parts(1,2) [of s] by (auto simp: event_text_def delta_key_def on_channel_def)
  then have "channel_at p state' delta_key (seen @ s)" using released_channel [OF assms(1) m assms(2)] by simp
  ultimately show thesis by (rule that)
qed

lemma delta_blocked:
  assumes "channel_at p state delta_key seen" and "\<not> credential_free p (seen @ s)"
  obtains state' where "guarded_publish p (delta_event s) state =
      (state', (ORCHESTRATION_RELEASE_BLOCK_ERROR, blocked_event p (snd (delta_event s))))" "carried state' delta_key = []"
proof -
  have at: "credential_free p seen" "overlaps p (carried state delta_key) seen" using assms(1) by (simp_all add: channel_at_def)
  have "\<not> credential_free p (carried state delta_key @ s)" using carry_decides [OF at] assms(2) by simp
  then have "find_credential p BOUNDARY_ORCHESTRATION_EVENT_RELEASE DIRECTION_CALLER_BOUND (PStr (carried state delta_key @ s)) \<noteq> None"
    by (simp add: find_credential_None value_free_text)
  then obtain m where "stream_match p state (snd (delta_event s)) = (state(delta_key := None), Some m)"
    by (auto simp: delta_stream Let_def carried_def delta_key_def)
  then have "guarded_publish p (delta_event s) state =
      (clear_stream_state (snd (delta_event s)) (state(delta_key := None)), (ORCHESTRATION_RELEASE_BLOCK_ERROR, blocked_event p (snd (delta_event s))))"
    by (cases "delta_event s") (simp add: guarded_publish_def)
  moreover have "carried (clear_stream_state (snd (delta_event s)) (state(delta_key := None))) delta_key = []"
    using delta_event_parts(2) [of s] by (auto simp: clear_stream_state_def carried_def delta_key_def)
  ultimately show thesis by (rule that)
qed

text \<open>A blocked event forgets too much. The carry of its stream is dropped with it, although the beginning of the
  credential is already released: of a credential sent in two pieces the second piece is blocked once, and
  released when it is sent again. The released texts spell the credential.\<close>

theorem blocked_piece_passes_again:
  assumes "a \<noteq> []" and "b \<noteq> []"
  shows "snd (publish_all (one_credential (a @ b)) [delta_event a, delta_event b, delta_event b] (\<lambda>_. None))
     = [delta_event a, (ORCHESTRATION_RELEASE_BLOCK_ERROR, blocked_event (one_credential (a @ b)) (snd (delta_event b))), delta_event b]"
proof -
  let ?p = "one_credential (a @ b)"
  have v: "\<forall>c \<in> set (cg_credentials ?p). cr_value c \<noteq> []" using assms by (simp add: one_credential_def first_entry_def)
  have short: "credential_free ?p s" if "length s < length (a @ b)" for s
    using that sublist_length_le [of "a @ b" s] by (auto simp: credential_free_def one_credential_def first_entry_def)
  have "length ''t'' < length (a @ b)" using assms by (cases a; cases b) auto
  then have t: "credential_free ?p ''t''" by (rule short)
  have a: "credential_free ?p ([] @ a)" and b: "credential_free ?p ([] @ b)" using assms short by simp_all
  have whole: "\<not> credential_free ?p (([] @ a) @ b)" by (simp add: credential_free_def one_credential_def first_entry_def)
  have start: "channel_at ?p (\<lambda>_. None) delta_key []" by (rule channel_at_clear) (use v in \<open>simp_all add: carried_def\<close>)
  obtain s1 where 1: "guarded_publish ?p (delta_event a) (\<lambda>_. None) = (s1, delta_event a)" "channel_at ?p s1 delta_key ([] @ a)"
    using v start a t by (rule delta_released)
  obtain s2 where 2: "guarded_publish ?p (delta_event b) s1 = (s2, (ORCHESTRATION_RELEASE_BLOCK_ERROR, blocked_event ?p (snd (delta_event b))))"
    "carried s2 delta_key = []"
    using 1(2) whole by (rule delta_blocked)
  obtain s3 where 3: "guarded_publish ?p (delta_event b) s2 = (s3, delta_event b)"
    using v channel_at_clear [OF 2(2) v] b t by (rule delta_released)
  show ?thesis by (simp add: 1(1) 2(1) 3)
qed

theorem blocked_piece_passes_again_witness:
  "snd (publish_all (one_credential ''SECRET'') (map delta_event [''SEC'', ''RET'', ''RET'']) (\<lambda>_. None)) ! 2 = delta_event ''RET''"
  using blocked_piece_passes_again [of "''SEC''" "''RET''"] by simp

section \<open>The proxied response\<close>

text \<open>The proxied response is the upstream's exactly when neither its text nor any text inside the JSON value it
  decodes to holds a credential; any other is replaced by the fixed notice.\<close>

theorem proxied_body_exact:
  "guarded_proxy loads p body =
     (if credential_free p body \<and> (\<forall>v. loads body = Some v \<longrightarrow> value_free p v) then UpstreamResponse body
      else BlockedResponse 502 (block_payload BOUNDARY_ORCHESTRATION_HTTP_RELEASE))"
proof -
  let ?m = "release_body_match loads p BOUNDARY_ORCHESTRATION_HTTP_RELEASE body"
  have "value_free p PNone" by (simp add: value_free_def)
  then have iff: "?m = None \<longleftrightarrow> credential_free p body \<and> (\<forall>v. loads body = Some v \<longrightarrow> value_free p v)"
    by (auto simp: release_body_match_def release_value_match_def find_credential_None value_free_text dest: find_credential_Some
        split: option.splits)
  show ?thesis unfolding iff [symmetric]
    by (cases ?m) (simp_all add: guarded_proxy_def ORCHESTRATION_RELEASE_BLOCK_STATUS_def)
qed

theorem proxied_body_exact_witness:
  "guarded_proxy (\<lambda>_. Some (PList [PStr ''a SECRET''])) (one_credential ''SECRET'') ''[escaped]''
     = BlockedResponse 502 (block_payload BOUNDARY_ORCHESTRATION_HTTP_RELEASE)"
proof -
  have "\<not> value_free (one_credential ''SECRET'') (PList [PStr ''a SECRET''])"
    unfolding find_credential_None [of _ "[]" "[]", symmetric] by code_simp
  then show ?thesis using proxied_body_exact [of "\<lambda>_. Some (PList [PStr ''a SECRET''])" "one_credential ''SECRET''" "''[escaped]''"] by simp
qed

section \<open>The dispatch to the model\<close>

lemma guard_model_payload_Inr: "guard_model_payload p v = Inr u \<longleftrightarrow> value_free p v"
  by (auto simp: guard_model_payload_def find_credential_None dest: find_credential_Some split: option.split)

lemma guarded_call_Inr: "guarded_call check ps = Inr u \<longleftrightarrow> (\<forall>p \<in> set ps. check p = Inr ())"
  by (induction ps) (auto simp: try_bind_Inr_iff)

text \<open>An installed host has its policy in front of both seams of its client.\<close>

definition host_ok :: "credential_host \<Rightarrow> bool" where
  "host_ok h \<longleftrightarrow> (ch_installed h \<longrightarrow>
     (\<exists>p. ch_policy h = Some p \<and> p \<in> set (ch_post_guards h) \<and> p \<in> set (ch_build_guards h)))"

lemma install_orchestration_fields:
  "install_orchestration p h = (h', r) \<Longrightarrow>
     ch_installed h' = ch_installed h \<and> ch_policy h' = ch_policy h \<and> ch_post_guards h' = ch_post_guards h
     \<and> ch_build_guards h' = ch_build_guards h \<and> ch_runtime_id h' = ch_runtime_id h \<and> ch_lane_id h' = ch_lane_id h"
  by (auto simp: install_orchestration_def split: if_splits)

lemma install_cases:
  assumes "install_credential_guard built supplied h = (h', r)"
  obtains (again) "ch_installed h" "h' = h" "\<And>p. r = Inr p \<Longrightarrow> ch_policy h = Some p"
    | (failed) e where "r = Inl e" "\<not> ch_installed h'" "\<not> ch_installed h"
    | (installed) p where "r = Inr p" "\<not> ch_installed h" "ch_installed h'" "ch_policy h' = Some p"
        "ch_post_guards h' = p # ch_post_guards h" "ch_build_guards h' = p # ch_build_guards h"
        "cg_runtime_id p = py_strip (str_or_empty (ch_runtime_id h))" "cg_lane_id p = py_strip (str_or_empty (ch_lane_id h))"
proof (cases "ch_installed h")
  case True
  then show thesis using assms
    by (intro again) (auto simp: install_credential_guard_def split: option.splits)
next
  case False
  show thesis
  proof (cases r)
    case (Inl e)
    then have "\<not> ch_installed h'" using assms False install_orchestration_fields
      by (auto simp: install_credential_guard_def split: sum.splits prod.splits if_splits)
    then show thesis using failed Inl False by blast
  next
    case (Inr p)
    let ?g = "h\<lparr>ch_post_guards := p # ch_post_guards h, ch_build_guards := p # ch_build_guards h\<rparr>"
    obtain h1 u where o: "install_orchestration p ?g = (h1, Inr u)"
      and h': "h' = h1\<lparr>ch_policy := Some p, ch_installed := True,
                      ch_manifest := (if ch_manifest_callable h1 then ch_manifest h1 @ [''jack_credential_guard.py''] else ch_manifest h1)\<rparr>"
      and own: "cg_runtime_id p = py_strip (str_or_empty (ch_runtime_id h))" "cg_lane_id p = py_strip (str_or_empty (ch_lane_id h))"
      using assms False Inr by (auto simp: install_credential_guard_def split: sum.splits prod.splits if_splits)
    show thesis
      by (rule installed [OF Inr False]) (use install_orchestration_fields [OF o] h' own in simp_all)
  qed
qed

lemma install_ok: "host_ok h \<Longrightarrow> install_credential_guard built supplied h = (h', r) \<Longrightarrow> host_ok h'"
  by (erule install_cases) (auto simp: host_ok_def)

text \<open>An argument of a call, by its name or else by its position.\<close>

definition call_argument :: "pyval list \<Rightarrow> pydict \<Rightarrow> string \<Rightarrow> nat \<Rightarrow> pyval" where
  "call_argument args kwargs name i =
     (if dict_get kwargs name = PNone \<and> i < length args then args ! i else dict_get kwargs name)"

text \<open>The method of a request, read without regard to case.\<close>

definition posts :: "pyval \<Rightarrow> bool" where
  "posts method \<longleftrightarrow> (\<exists>s. method = PStr s
     \<and> list_all2 (\<in>) s [{CHR ''P'', CHR ''p''}, {CHR ''O'', CHR ''o''}, {CHR ''S'', CHR ''s''}, {CHR ''T'', CHR ''t''}])"

lemma posts_upper: "posts (PStr s) \<Longrightarrow> py_upper s = ''POST'' \<and> s \<noteq> []"
proof -
  have u: "upper_char c = [c]" if "c \<in> {CHR ''P'', CHR ''O'', CHR ''S'', CHR ''T''}" for c
    using that by (auto simp: CredentialRelease.upper_char_def)
  have l: "upper_char (CHR ''p'') = ''P''" "upper_char (CHR ''o'') = ''O''" "upper_char (CHR ''s'') = ''S''" "upper_char (CHR ''t'') = ''T''"
    by code_simp+
  show "posts (PStr s) \<Longrightarrow> py_upper s = ''POST'' \<and> s \<noteq> []"
    by (auto simp: posts_def py_upper_def list_all2_Cons2 u l)
qed

lemma post_guard_Inr:
  assumes "guard_post_call p args kwargs = Inr ()" and "chat_completion_url (call_argument args kwargs ''url'' 0)" and "dict_has kwargs ''json''"
  shows "value_free p (dict_get kwargs ''json'')"
  using assms
  by (cases args) (auto simp: guard_post_call_def guard_payload_argument_def call_argument_def guard_model_payload_Inr Let_def split: if_splits)

lemma build_guard_Inr:
  assumes "guard_build_request_call p args kwargs = Inr ()" and "posts (call_argument args kwargs ''method'' 0)"
    and "chat_completion_url (call_argument args kwargs ''url'' 1)" and "dict_has kwargs ''json''"
  shows "value_free p (dict_get kwargs ''json'')"
proof -
  let ?http_method = "if dict_get kwargs ''method'' = PNone \<and> args \<noteq> [] then hd args else dict_get kwargs ''method''"
  have m: "call_argument args kwargs ''method'' 0 = ?http_method" by (cases args) (simp_all add: call_argument_def)
  obtain s where s: "?http_method = PStr s" "posts (PStr s)" using assms(2) unfolding m by (auto simp: posts_def)
  then have "py_upper (str_or_empty ?http_method) = ''POST''" using posts_upper [OF s(2)] by (simp add: str_or_empty_def)
  then have "guard_payload_argument p kwargs = Inr ()"
    using assms(1,3) unfolding guard_build_request_call_def Let_def call_argument_def by (simp split: if_splits)
  then show ?thesis using assms(4) by (simp add: guard_payload_argument_def guard_model_payload_Inr)
qed

text \<open>C22. Once the guard is installed, neither seam of the client lets a chat completion pass whose JSON payload holds a
  credential in a text value: a call of \<open>post\<close> to such a URL, and a request that is built with the method POST, in
  any case, for such a URL, however the method and the URL are passed. (A body that is not passed as the JSON payload is
  not searched.) Installing again changes nothing and returns the same policy; and the policy installed is
  one of the runtime's own.\<close>

theorem installed_guard_isolates:
  assumes "host_ok h" and "install_credential_guard built supplied h = (h', Inr p)"
  shows "(client_post h' args kwargs = Inr () \<and> chat_completion_url (call_argument args kwargs ''url'' 0) \<and> dict_has kwargs ''json''
           \<longrightarrow> value_free p (dict_get kwargs ''json''))
     \<and> (client_build_request h' args kwargs = Inr () \<and> posts (call_argument args kwargs ''method'' 0)
           \<and> chat_completion_url (call_argument args kwargs ''url'' 1) \<and> dict_has kwargs ''json''
           \<longrightarrow> value_free p (dict_get kwargs ''json''))
     \<and> install_credential_guard built' supplied' h' = (h', Inr p)
     \<and> (ch_installed h \<or> cg_runtime_id p = py_strip (str_or_empty (ch_runtime_id h)) \<and> cg_lane_id p = py_strip (str_or_empty (ch_lane_id h)))"
proof -
  have ok: "host_ok h'" by (rule install_ok [OF assms])
  from assms(2) have inst: "ch_installed h'" "ch_policy h' = Some p"
    by (cases rule: install_cases; simp)+
  then have g: "p \<in> set (ch_post_guards h')" "p \<in> set (ch_build_guards h')" using ok by (simp_all add: host_ok_def)
  have own: "ch_installed h \<or> cg_runtime_id p = py_strip (str_or_empty (ch_runtime_id h)) \<and> cg_lane_id p = py_strip (str_or_empty (ch_lane_id h))"
    using assms(2) by (cases rule: install_cases; simp)
  have post: "guard_post_call p args kwargs = Inr ()" if "client_post h' args kwargs = Inr ()"
    using that g by (simp add: client_post_def guarded_call_Inr)
  have build: "guard_build_request_call p args kwargs = Inr ()" if "client_build_request h' args kwargs = Inr ()"
    using that g by (simp add: client_build_request_def guarded_call_Inr)
  have "install_credential_guard built' supplied' h' = (h', Inr p)" using inst by (simp add: install_credential_guard_def)
  then show ?thesis using own post_guard_Inr [OF post] build_guard_Inr [OF build] by blast
qed

definition example_credential_host :: credential_host where
  "example_credential_host = \<lparr>ch_runtime_id = PStr ''r'', ch_lane_id = PStr ''l'', ch_installed = False, ch_policy = None,
     ch_client = True, ch_post_callable = True, ch_build_callable = True, ch_post_guards = [], ch_build_guards = [],
     ch_orchestration_installed = False, ch_orchestration_callable = True, ch_json_response = True, ch_proxy_guards = [],
     ch_publish_guards = [], ch_manifest_callable = True, ch_manifest = []\<rparr>"

theorem installed_guard_isolates_witness:
  "value_free (one_credential ''SECRET'') (PDict [(''messages'', PList [PStr ''hello''])])"
proof -
  let ?kwargs = "[(''json'', PDict [(''messages'', PList [PStr ''hello''])])]"
  let ?h = "fst (install_credential_guard (Inl (CredentialValueError [])) (Some (one_credential ''SECRET'')) example_credential_host)"
  have i: "install_credential_guard (Inl (CredentialValueError [])) (Some (one_credential ''SECRET'')) example_credential_host
      = (?h, Inr (one_credential ''SECRET''))"
  proof (rule prod_eqI)
    show "snd (install_credential_guard (Inl (CredentialValueError [])) (Some (one_credential ''SECRET'')) example_credential_host)
        = snd (?h, Inr (one_credential ''SECRET''))"
      by (simp add: install_credential_guard_def install_orchestration_def example_credential_host_def one_credential_def py_strip_def
          py_lstrip_def py_rstrip_by_def py_isspace_code)
  qed simp
  have h: "host_ok example_credential_host" by (simp add: host_ok_def example_credential_host_def)
  have d: "client_post ?h [PStr ''http://h/v1/chat/completions/?x''] ?kwargs = Inr ()" by code_simp
  have u: "chat_completion_url (call_argument [PStr ''http://h/v1/chat/completions/?x''] ?kwargs ''url'' 0)" "dict_has ?kwargs ''json''"
    "dict_get ?kwargs ''json'' = PDict [(''messages'', PList [PStr ''hello''])]" by code_simp+
  from installed_guard_isolates [OF h i, of "[PStr ''http://h/v1/chat/completions/?x'']" ?kwargs] d u show ?thesis by simp
qed

section \<open>The credentials as canaries\<close>

lemma credential_patterns:
  assumes "try_map (credential_addition existing) cs = Inr additions"
  shows "map cp_value additions = map cr_value cs \<and> (\<forall>a \<in> set additions. cp_value a \<noteq> [])"
proof -
  have "cp_value a = cr_value c \<and> cp_value a \<noteq> []" if "credential_addition existing c = Inr a" for c a
    using that by (auto simp: credential_addition_def credential_pattern_def make_canary_pattern_def raise_if_Inr_iff canary_result_Inr_iff split: if_splits)
  moreover have "list_all2 (\<lambda>c a. credential_addition existing c = Inr a) cs additions"
    using assms by (simp add: try_map_Inr_iff)
  ultimately have "list_all2 (\<lambda>c a. cp_value a = cr_value c \<and> cp_value a \<noteq> []) cs additions"
    by (rule list_all2_mono [rotated])
  then show ?thesis by (induction rule: list_all2_induct) auto
qed

lemma merged_set:
  assumes "valid_canary_set (cy_canaries canaries)" and "merge_runtime_canary_policy canaries p = Inr merged"
  shows "valid_canary_set (cy_canaries merged)
     \<and> cp_value ` set (cs_patterns (cy_canaries merged)) = cp_value ` set (cs_patterns (cy_canaries canaries)) \<union> cr_value ` set (cg_credentials p)"
proof -
  let ?existing = "cs_patterns (cy_canaries canaries)"
  obtain additions w cs where a: "try_map (credential_addition ?existing) (cg_credentials p) = Inr additions"
    and cs: "make_canary_set (?existing @ additions) w = Inr cs" and m: "cy_canaries merged = cs"
    using assms(2)
    by (auto simp: merge_runtime_canary_policy_def raise_if_Inr_iff try_bind_Inr_iff canary_result_Inr_iff Let_def make_canary_policy_def)
  note v = credential_patterns [OF a]
  have "cp_value q \<noteq> []" if "q \<in> set (?existing @ additions)" for q
    using that assms(1) v by (auto simp: valid_canary_set_def)
  note ok = make_canary_set_ok [OF cs this]
  have "cp_value ` set additions = cr_value ` set (cg_credentials p)"
    using v by (metis set_map)
  then show ?thesis using ok m by (auto simp: image_Un)
qed

lemma merged_free:
  assumes "cp_value ` set (cs_patterns cs) = cp_value ` set (cs_patterns ds) \<union> cr_value ` set (cg_credentials p)"
  shows "canary_free cs s \<longleftrightarrow> canary_free ds s \<and> credential_free p s"
proof -
  have "canary_free cs s \<longleftrightarrow> (\<forall>v \<in> cp_value ` set (cs_patterns cs). \<not> sublist v s)" by (simp add: canary_free_def)
  also have "\<dots> \<longleftrightarrow> canary_free ds s \<and> credential_free p s" unfolding assms by (auto simp: canary_free_def credential_free_def)
  finally show ?thesis .
qed

text \<open>The merged policy brings the credentials under the output guard: it is a well-formed canary set, and the
  streaming detector that runs on it releases neither a canary of the original policy nor a credential,
  however the model's text is split; it stops exactly on texts that hold one.\<close>

theorem merged_canaries_guard_credentials:
  assumes "valid_canary_set (cy_canaries canaries)" and "merge_runtime_canary_policy canaries p = Inr merged"
    and "guard_chunks (new_canary_detector (cy_canaries merged)) pieces = ((out, r), d)"
  shows "credential_free p out \<and> canary_free (cy_canaries canaries) out \<and> prefix out (concat pieces)
     \<and> (r = None \<longleftrightarrow> credential_free p (concat pieces) \<and> canary_free (cy_canaries canaries) (concat pieces))"
proof -
  note m = merged_set [OF assms(1,2)]
  note free = merged_free [OF conjunct2 [OF m]]
  from guard_chunks_sound [OF conjunct1 [OF m] assms(3)] show ?thesis by (auto simp: free)
qed

theorem merged_canaries_guard_credentials_witness:
  "credential_free (one_credential ''SECRET'') ''xx SE''"
proof -
  let ?canaries = "\<lparr>cy_runtime_id = ''r'', cy_lane_id = ''l'', cy_canaries = example_single\<rparr>"
  have v: "valid_canary_set (cy_canaries ?canaries)" by (simp add: example_canaries_valid)
  obtain merged where m: "merge_runtime_canary_policy ?canaries (one_credential ''SECRET'') = Inr merged"
  proof -
    have "case merge_runtime_canary_policy ?canaries (one_credential ''SECRET'') of Inr _ \<Rightarrow> True | _ \<Rightarrow> False" by code_simp
    then show thesis using that by (auto split: sum.splits)
  qed
  obtain out r d where run: "guard_chunks (new_canary_detector (cy_canaries merged)) [''xx SE'', ''RE''] = ((out, r), d)"
    by (metis prod.exhaust)
  have "case merge_runtime_canary_policy ?canaries (one_credential ''SECRET'') of
      Inr m \<Rightarrow> snd (fst (guard_chunks (new_canary_detector (cy_canaries m)) [''xx SE'', ''RE''])) = None | _ \<Rightarrow> False" by code_simp
  then have "r = None" using m run by simp
  with merged_canaries_guard_credentials [OF v m run] have "credential_free (one_credential ''SECRET'') ''xx SERE''" by simp
  then show ?thesis by (auto simp: credential_free_def dest: sublist_order.order_trans [of _ "''xx SE''" "''xx SERE''"] simp: sublist_appendI)
qed

end
