(* ===== verification/DiagnosticGuard.thy ===== *)
theory DiagnosticGuard
  imports CredentialRelease
begin

text \<open>
  The diagnostic guard of \<open>jack_diagnostic_guard.py\<close>: the surfaces on which errors become visible
  (HTTP error responses, exceptions that end a stream, log records, the retained last error of the
  event hub), and what is withheld on each. Exceptions are nodes of a finite store, since their
  causes and contexts may form a cycle.
\<close>

section \<open>The search in diagnostic material\<close>

definition BOUNDARY_HTTP_EXCEPTION_RELEASE :: string where
  "BOUNDARY_HTTP_EXCEPTION_RELEASE = ''diagnostic_http_exception_release''"

definition BOUNDARY_STREAM_EXCEPTION_RELEASE :: string where
  "BOUNDARY_STREAM_EXCEPTION_RELEASE = ''diagnostic_stream_exception_release''"

definition BOUNDARY_LOG_RELEASE :: string where
  "BOUNDARY_LOG_RELEASE = ''diagnostic_log_release''"

definition BOUNDARY_INTERNAL_DIAGNOSTIC_STATE :: string where
  "BOUNDARY_INTERNAL_DIAGNOSTIC_STATE = ''diagnostic_internal_state''"

definition DIRECTION_OBSERVER_BOUND :: string where
  "DIRECTION_OBSERVER_BOUND = ''observer_bound''"

definition DIRECTION_HOST_STATE :: string where
  "DIRECTION_HOST_STATE = ''host_state''"

definition DIAGNOSTIC_BLOCK_ERROR :: string where
  "DIAGNOSTIC_BLOCK_ERROR = ''protected_credential_diagnostic_withheld''"

definition DIAGNOSTIC_LOG_MESSAGE :: string where
  "DIAGNOSTIC_LOG_MESSAGE = ''Jack diagnostic withheld because it contained a protected runtime credential''"

definition DIAGNOSTIC_STATE_MESSAGE :: string where
  "DIAGNOSTIC_STATE_MESSAGE = ''protected credential diagnostic withheld''"

text \<open>\<open>_policy_match\<close>: keys as well as values.\<close>

fun policy_match :: "credential_policy \<Rightarrow> string \<Rightarrow> string \<Rightarrow> pyval \<Rightarrow> credential_match option" where
  "policy_match p b d (PDict items) =
     (case find_credential p b d (PDict items) of
        Some m \<Rightarrow> Some m
      | None \<Rightarrow> first_some (map (\<lambda>(k, v).
            case find_credential p b d (PStr k) of Some m \<Rightarrow> Some m | None \<Rightarrow> policy_match p b d v) items))"
| "policy_match p b d (PList vs) =
     (case find_credential p b d (PList vs) of Some m \<Rightarrow> Some m | None \<Rightarrow> first_some (map (policy_match p b d) vs))"
| "policy_match p b d v = find_credential p b d v"

definition diagnostic_block_payload :: "string \<Rightarrow> pyval" where
  "diagnostic_block_payload boundary = PDict [(''error'', PStr DIAGNOSTIC_BLOCK_ERROR),
     (''security_outcome'', PStr ''HARD_INTERRUPT''), (''release_boundary'', PStr boundary)]"

text \<open>\<open>_safe_headers\<close>: the headers that may stay, and whether one was dropped.\<close>

definition header_violates :: "credential_policy \<Rightarrow> string \<Rightarrow> string \<Rightarrow> string \<times> pyval \<Rightarrow> bool" where
  "header_violates p b d h = (policy_match p b d (PDict [(fst h, PStr (py_str (snd h)))]) \<noteq> None)"

definition safe_headers :: "credential_policy \<Rightarrow> string \<Rightarrow> string \<Rightarrow> pyval \<Rightarrow> (string \<times> string) list option \<times> bool" where
  "safe_headers p b d headers =
     (case headers of
        PNone \<Rightarrow> (None, False)
      | PDict items \<Rightarrow>
          (let safe = map (\<lambda>(k, v). (k, py_str v)) (filter (\<lambda>h. \<not> header_violates p b d h) items) in
           (if safe = [] then None else Some safe, list_ex (header_violates p b d) items))
      | v \<Rightarrow> (None, policy_match p b d v \<noteq> None))"

section \<open>Exceptions\<close>

record exception_node =
  en_type :: string
  en_text :: "string option"
  en_cause :: "nat option"
  en_suppress :: bool
  en_context :: "nat option"

definition next_exception :: "exception_node \<Rightarrow> nat option" where
  "next_exception e = (case en_cause e of Some c \<Rightarrow> Some c | None \<Rightarrow> if en_suppress e then None else en_context e)"

definition exception_part :: "exception_node \<Rightarrow> string" where
  "exception_part e = (case en_text e of None \<Rightarrow> en_type e | Some s \<Rightarrow> en_type e @ '': '' @ s)"

text \<open>The chain, until it ends or meets an exception it has seen.\<close>

function exception_chain :: "exception_node list \<Rightarrow> nat list \<Rightarrow> nat option \<Rightarrow> nat list" where
  "exception_chain es seen None = []"
| "exception_chain es seen (Some r) =
     (if r \<in> set seen \<or> length es \<le> r then []
      else r # exception_chain es (r # seen) (next_exception (es ! r)))"
  by pat_completeness auto
termination
proof (relation "measure (\<lambda>(es, seen, r). card ({..<length es} - set seen))")
  fix es :: "exception_node list" and seen :: "nat list" and r :: nat
  assume "\<not> (r \<in> set seen \<or> length es \<le> r)"
  then have r: "r \<in> {..<length es} - set seen" by simp
  have "card (({..<length es} - set seen) - {r}) < card ({..<length es} - set seen)"
    by (rule card_Diff1_less [OF _ r]) simp
  moreover have "({..<length es} - set seen) - {r} = {..<length es} - set (r # seen)"
    unfolding list.set by blast
  ultimately have "card ({..<length es} - set (r # seen)) < card ({..<length es} - set seen)" by (simp only:)
  then show "((es, r # seen, next_exception (es ! r)), es, seen, Some r) \<in> measure (\<lambda>(es, seen, r). card ({..<length es} - set seen))"
    by simp
qed simp

definition exception_material :: "exception_node list \<Rightarrow> nat \<Rightarrow> string" where
  "exception_material es r = join_with (CHR 0x0A) (map (\<lambda>i. exception_part (es ! i)) (exception_chain es [] (Some r)))"

text \<open>A raised exception: its node, and its attributes as far as the guard asks for them.\<close>

record raised_exception =
  rx_node :: nat
  rx_http :: bool
  rx_status :: "int option"
  rx_detail :: pyval
  rx_headers :: pyval

definition status_or :: "int \<Rightarrow> int option \<Rightarrow> int" where
  "status_or fallback status = (case status of None \<Rightarrow> fallback | Some n \<Rightarrow> if n = 0 then fallback else n)"

definition exception_has_credential ::
    "credential_policy \<Rightarrow> string \<Rightarrow> string \<Rightarrow> exception_node list \<Rightarrow> raised_exception \<Rightarrow> bool" where
  "exception_has_credential p b d es x =
     (rx_detail x \<noteq> PNone \<and> policy_match p b d (rx_detail x) \<noteq> None
      \<or> rx_headers x \<noteq> PNone \<and> policy_match p b d (rx_headers x) \<noteq> None
      \<or> policy_match p b d (PStr (exception_material es (rx_node x))) \<noteq> None)"

section \<open>HTTP errors\<close>

text \<open>\<open>guarded_http_exception\<close>: the notice, or the exception goes to the handler that was there before.\<close>

datatype http_answer = WithheldAnswer int pyval "(string \<times> string) list option" | Delegated raised_exception

definition guarded_http_exception :: "credential_policy \<Rightarrow> raised_exception \<Rightarrow> http_answer" where
  "guarded_http_exception p x =
     (case safe_headers p BOUNDARY_HTTP_EXCEPTION_RELEASE DIRECTION_CALLER_BOUND (rx_headers x) of (safe, violated) \<Rightarrow>
        if policy_match p BOUNDARY_HTTP_EXCEPTION_RELEASE DIRECTION_CALLER_BOUND (rx_detail x) \<noteq> None \<or> violated then
          WithheldAnswer (status_or 500 (rx_status x))
            (PDict [(''detail'', diagnostic_block_payload BOUNDARY_HTTP_EXCEPTION_RELEASE)]) safe
        else Delegated x)"

section \<open>Streams\<close>

text \<open>A stream run: the chunks, and how it ended.\<close>

datatype stream_end = StreamEnds | StreamRaises raised_exception | StreamWithheld int pyval "(string \<times> string) list option"

definition guarded_end :: "credential_policy \<Rightarrow> exception_node list \<Rightarrow> stream_end \<Rightarrow> stream_end" where
  "guarded_end p es e =
     (case e of
        StreamRaises x \<Rightarrow>
          if \<not> exception_has_credential p BOUNDARY_STREAM_EXCEPTION_RELEASE DIRECTION_CALLER_BOUND es x then e
          else StreamWithheld (if rx_http x then status_or 502 (rx_status x) else 502)
            (diagnostic_block_payload BOUNDARY_STREAM_EXCEPTION_RELEASE)
            (fst (safe_headers p BOUNDARY_STREAM_EXCEPTION_RELEASE DIRECTION_CALLER_BOUND (if rx_http x then rx_headers x else PNone)))
      | _ \<Rightarrow> e)"

definition diagnostic_stream :: "credential_policy \<Rightarrow> exception_node list \<Rightarrow> 'c list \<times> stream_end \<Rightarrow> 'c list \<times> stream_end" where
  "diagnostic_stream p es run = (case run of (chunks, e) \<Rightarrow> (chunks, guarded_end p es e))"

section \<open>Logs\<close>

text \<open>The policies of the process-wide filter; the number tells the objects apart.\<close>

type_synonym log_policies = "(nat \<times> credential_policy) list"

definition log_identity :: "credential_policy \<Rightarrow> string \<times> string" where
  "log_identity p = (cg_runtime_id p, cg_lane_id p)"

definition add_log_policy :: "nat \<times> credential_policy \<Rightarrow> log_policies \<Rightarrow> credential_error + log_policies" where
  "add_log_policy entry ps =
     (if cg_runtime_id (snd entry) = [] \<or> cg_lane_id (snd entry) = [] then
        Inl (CredentialRuntimeError ''diagnostic log policy requires runtime/lane identity'')
      else (case filter (\<lambda>e. log_identity (snd e) = log_identity (snd entry)) ps of
          existing # _ \<Rightarrow>
            if fst existing = fst entry then Inr ps
            else if cg_credentials (snd existing) \<noteq> cg_credentials (snd entry) then
              Inl (CredentialRuntimeError ''diagnostic log policy identity cannot be rebound to different credentials'')
            else Inr ps
        | [] \<Rightarrow> Inr (ps @ [entry])))"

record log_record =
  lr_message :: string
  lr_exception :: "nat option"
  lr_exc_text :: "string option"
  lr_stack_info :: "string option"

definition log_material :: "exception_node list \<Rightarrow> log_record \<Rightarrow> string" where
  "log_material es r = (case lr_exception r of None \<Rightarrow> lr_message r | Some x \<Rightarrow> lr_message r @ [CHR 0x0A] @ exception_material es x)"

definition log_match :: "log_policies \<Rightarrow> string \<Rightarrow> (nat \<times> credential_policy) option" where
  "log_match ps material =
     find (\<lambda>e. policy_match (snd e) BOUNDARY_LOG_RELEASE DIRECTION_OBSERVER_BOUND (PStr material) \<noteq> None) ps"

definition filter_log :: "log_policies \<Rightarrow> exception_node list \<Rightarrow> log_record \<Rightarrow> log_record" where
  "filter_log ps es r =
     (case log_match ps (log_material es r) of
        None \<Rightarrow> r
      | Some _ \<Rightarrow> r\<lparr>lr_message := DIAGNOSTIC_LOG_MESSAGE, lr_exception := None, lr_exc_text := None, lr_stack_info := None\<rparr>)"

section \<open>The retained error\<close>

text \<open>\<open>guarded_setattr\<close> on the attributes of the hub.\<close>

definition guarded_setattr :: "credential_policy \<Rightarrow> string \<Rightarrow> pyval \<Rightarrow> (string \<Rightarrow> pyval option) \<Rightarrow> (string \<Rightarrow> pyval option)" where
  "guarded_setattr p name v attrs =
     attrs(name \<mapsto> (if name = ''_last_error'' \<and> v \<noteq> PNone
         \<and> policy_match p BOUNDARY_INTERNAL_DIAGNOSTIC_STATE DIRECTION_HOST_STATE v \<noteq> None
       then PStr DIAGNOSTIC_STATE_MESSAGE else v))"

section \<open>Installation\<close>

text \<open>The host: each surface with the policy its guard holds, \<open>None\<close> while it is unguarded.\<close>

record diagnostic_host =
  dh_installed :: bool
  dh_live :: bool
  dh_app :: bool
  dh_http_type :: bool
  dh_http_guard :: "credential_policy option"
  dh_stream_callable :: bool
  dh_stream_guard :: "credential_policy option"
  dh_logger :: bool
  dh_log_guarded :: bool
  dh_log_filter :: "log_policies option"
  dh_hub :: bool
  dh_state_guard :: "credential_policy option"
  dh_hub_attributes :: "(string \<Rightarrow> pyval option) option"
  dh_manifest_callable :: bool
  dh_manifest :: "string list"

definition install_http_guard :: "credential_policy \<Rightarrow> diagnostic_host \<Rightarrow> diagnostic_host \<times> bool" where
  "install_http_guard p h =
     (if \<not> dh_app h \<or> \<not> dh_http_type h then (h, False)
      else if dh_http_guard h \<noteq> None then (h, True)
      else (h\<lparr>dh_http_guard := Some p\<rparr>, True))"

definition install_stream_guard :: "credential_policy \<Rightarrow> diagnostic_host \<Rightarrow> diagnostic_host \<times> bool" where
  "install_stream_guard p h =
     (if \<not> dh_stream_callable h \<or> \<not> dh_http_type h then (h, False)
      else if dh_stream_guard h \<noteq> None then (h, True)
      else (h\<lparr>dh_stream_guard := Some p\<rparr>, True))"

definition install_log_guard :: "nat \<times> credential_policy \<Rightarrow> diagnostic_host \<Rightarrow> diagnostic_host \<times> (credential_error + bool)" where
  "install_log_guard entry h =
     (if \<not> dh_logger h then (h, Inr False)
      else if dh_log_guarded h \<and> dh_log_filter h = None then
        (h, Inl (CredentialRuntimeError ''installed diagnostic log guard state is invalid''))
      else (case add_log_policy entry (if dh_log_guarded h then the (dh_log_filter h) else []) of
          Inl e \<Rightarrow> (h, Inl e)
        | Inr ps \<Rightarrow> (h\<lparr>dh_log_filter := Some ps, dh_log_guarded := True\<rparr>, Inr True)))"

definition install_state_guard :: "credential_policy \<Rightarrow> diagnostic_host \<Rightarrow> diagnostic_host \<times> bool" where
  "install_state_guard p h =
     (if \<not> dh_hub h then (h, False)
      else if dh_state_guard h \<noteq> None then (h, True)
      else (h\<lparr>dh_state_guard := Some p,
          dh_hub_attributes := (case dh_hub_attributes h of
              None \<Rightarrow> None
            | Some attrs \<Rightarrow>
                (case attrs ''_last_error'' of
                   None \<Rightarrow> Some attrs
                 | Some current \<Rightarrow> Some (guarded_setattr p ''_last_error'' current attrs)))\<rparr>, True))"

text \<open>\<open>install\<close>: all four surfaces or an error; what was bound before the error stays bound.\<close>

definition install_diagnostic_guard :: "nat \<times> credential_policy \<Rightarrow> diagnostic_host \<Rightarrow> diagnostic_host \<times> (credential_error + unit)" where
  "install_diagnostic_guard entry h =
     (if dh_installed h \<or> \<not> dh_live h then (h, Inr ())
      else (case install_http_guard (snd entry) h of (h1, http) \<Rightarrow>
        (case install_stream_guard (snd entry) h1 of (h2, stream) \<Rightarrow>
          (case install_log_guard entry h2 of
             (h3, Inl e) \<Rightarrow> (h3, Inl e)
           | (h3, Inr log) \<Rightarrow>
               (case install_state_guard (snd entry) h3 of (h4, state) \<Rightarrow>
                 if \<not> (http \<and> stream \<and> log \<and> state) then
                   (h4, Inl (CredentialRuntimeError ''Phase-7 diagnostic credential DLP could not bind all live surfaces''))
                 else (h4\<lparr>dh_installed := True,
                     dh_manifest := (if dh_manifest_callable h4 then dh_manifest h4 @ [''jack_diagnostic_guard.py''] else dh_manifest h4)\<rparr>, Inr ()))))))"

end
