(* ===== verification/DiagnosticProperties.thy ===== *)
theory DiagnosticProperties
  imports DiagnosticGuard CredentialProperties
begin

text \<open>
  What the diagnostic guard guarantees: an exception chain is read completely, however its causes are
  tied, and no surface releases diagnostic material that holds a credential, in a key or a value.
\<close>

section \<open>The search\<close>

fun all_texts :: "pyval \<Rightarrow> string list" where
  "all_texts (PStr s) = [s]"
| "all_texts (PDict items) = concat (map (\<lambda>(k, v). k # all_texts v) items)"
| "all_texts (PList vs) = concat (map all_texts vs)"
| "all_texts v = []"

definition material_free :: "credential_policy \<Rightarrow> pyval \<Rightarrow> bool" where
  "material_free p v \<longleftrightarrow> (\<forall>s \<in> set (all_texts v). credential_free p s)"

lemma material_free_simps [simp]:
  "material_free p (PStr s) \<longleftrightarrow> credential_free p s" "material_free p PNone"
  "material_free p (PDict items) \<longleftrightarrow> (\<forall>(k, v) \<in> set items. credential_free p k \<and> material_free p v)"
  "material_free p (PList vs) \<longleftrightarrow> (\<forall>v \<in> set vs. material_free p v)"
  by (auto simp: material_free_def)

lemma leaves_texts: "set (leaves v) \<subseteq> set (all_texts v)"
proof (induction v rule: leaves.induct)
  case (2 d)
  then show ?case by fastforce
next
  case (3 vs)
  then show ?case by fastforce
qed simp_all

lemma material_value_free: "material_free p v \<Longrightarrow> value_free p v"
  using leaves_texts [of v] by (auto simp: material_free_def value_free_def)

lemma first_match_None: "(case x of Some m \<Rightarrow> Some m | None \<Rightarrow> y) = None \<longleftrightarrow> x = None \<and> y = None"
  by (cases x) simp_all

lemma policy_match_None: "policy_match p b d v = None \<longleftrightarrow> material_free p v"
proof (induction v rule: all_texts.induct)
  case (2 items)
  have "material_free p (PDict items) \<Longrightarrow> value_free p (PDict items)" by (rule material_value_free)
  then show ?case using 2
    by (auto simp: first_match_None first_some_None find_credential_None value_free_text simp del: leaves.simps)
next
  case (3 vs)
  have "material_free p (PList vs) \<Longrightarrow> value_free p (PList vs)" by (rule material_value_free)
  then show ?case using 3
    by (auto simp: first_match_None first_some_None find_credential_None simp del: leaves.simps)
qed (simp_all add: find_credential_None value_free_def material_free_def)

section \<open>Exception chains\<close>

definition raised_from :: "exception_node list \<Rightarrow> nat \<Rightarrow> nat \<Rightarrow> bool" where
  "raised_from es i j \<longleftrightarrow> i < length es \<and> j < length es \<and> next_exception (es ! i) = Some j"

lemma chain_distinct: "distinct (exception_chain es seen r) \<and> set (exception_chain es seen r) \<subseteq> {..<length es} - set seen"
  by (induction es seen r rule: exception_chain.induct) (auto split: if_splits)

lemma chain_connected: "i \<in> set (exception_chain es seen (Some r)) \<Longrightarrow> (raised_from es)\<^sup>*\<^sup>* r i"
proof (induction es seen "Some r" arbitrary: r rule: exception_chain.induct)
  case (2 es seen r)
  then have ok: "\<not> (r \<in> set seen \<or> length es \<le> r)" by (auto split: if_splits)
  show ?case
  proof (cases "i = r")
    case False
    then have i: "i \<in> set (exception_chain es (r # seen) (next_exception (es ! r)))" using 2(2) ok by simp
    then obtain j where j: "next_exception (es ! r) = Some j" by (cases "next_exception (es ! r)") auto
    then have "j < length es" using i by (auto split: if_splits)
    then have "raised_from es r j" using j ok by (simp add: raised_from_def)
    moreover have "(raised_from es)\<^sup>*\<^sup>* j i" using 2(1) [OF ok j] i j by simp
    ultimately show ?thesis by (rule converse_rtranclp_into_rtranclp)
  qed simp
qed

lemma chain_closed:
  "i \<in> set (exception_chain es seen r) \<Longrightarrow> raised_from es i j \<Longrightarrow> j \<in> set seen \<or> j \<in> set (exception_chain es seen r)"
proof (induction es seen r rule: exception_chain.induct)
  case (2 es seen r)
  then have ok: "\<not> (r \<in> set seen \<or> length es \<le> r)" by (auto split: if_splits)
  let ?rest = "exception_chain es (r # seen) (next_exception (es ! r))"
  show ?case
  proof (cases "i = r")
    case True
    then have n: "next_exception (es ! r) = Some j" "j < length es" using 2(3) by (auto simp: raised_from_def)
    then have "j \<in> set (r # seen) \<or> j \<in> set ?rest" by simp
    then show ?thesis using ok by auto
  next
    case False
    then have "i \<in> set ?rest" using 2(2) ok by simp
    then have "j \<in> set (r # seen) \<or> j \<in> set ?rest" using 2(1) [OF ok] 2(3) by blast
    then show ?thesis using ok by auto
  qed
qed simp

text \<open>C39. Collecting an exception's material ends, also when causes and contexts form a cycle, and misses nothing:
  the chain has every exception that the raised one leads to, each once.\<close>

theorem exception_chain_complete:
  assumes "r < length es"
  shows "distinct (exception_chain es [] (Some r)) \<and> set (exception_chain es [] (Some r)) = {i. (raised_from es)\<^sup>*\<^sup>* r i}"
proof -
  have r: "r \<in> set (exception_chain es [] (Some r))" using assms by simp
  have "i \<in> set (exception_chain es [] (Some r))" if "(raised_from es)\<^sup>*\<^sup>* r i" for i
    using that
  proof (induction rule: rtranclp_induct)
    case (step i j)
    then show ?case using chain_closed [of i es "[]" "Some r" j] by simp
  qed (rule r)
  then show ?thesis using chain_distinct [of es "[]" "Some r"] chain_connected [of _ es "[]" r] by blast
qed

definition example_exceptions :: "exception_node list" where
  "example_exceptions =
     [\<lparr>en_type = ''RuntimeError'', en_text = Some ''outer'', en_cause = None, en_suppress = False, en_context = Some 1\<rparr>,
      \<lparr>en_type = ''KeyError'', en_text = Some ''SECRET'', en_cause = Some 0, en_suppress = False, en_context = None\<rparr>]"

theorem exception_chain_complete_witness: "{i. (raised_from example_exceptions)\<^sup>*\<^sup>* 0 i} = {0, 1}"
proof -
  have "set (exception_chain example_exceptions [] (Some 0)) = {0, 1}" by code_simp
  then show ?thesis using exception_chain_complete [of 0 example_exceptions] by (simp add: example_exceptions_def)
qed

lemma sublist_join: "x \<in> set xs \<Longrightarrow> sublist x (join_with c xs)"
proof (induction c xs rule: join_with.induct)
  case (3 c p q ps)
  show ?case
  proof (cases "x = p")
    case False
    then have "sublist x (join_with c (q # ps))" using 3 by simp
    moreover have "sublist (join_with c (q # ps)) ((p @ [c]) @ join_with c (q # ps))" by (rule sublist_append_leftI)
    ultimately show ?thesis using sublist_order.order_trans by fastforce
  qed simp
qed simp_all

lemma part_in_material:
  assumes "credential_free p (exception_material es r)" and "i \<in> set (exception_chain es [] (Some r))"
  shows "credential_free p (exception_part (es ! i))"
proof -
  have "sublist (exception_part (es ! i)) (exception_material es r)"
    unfolding exception_material_def by (rule sublist_join) (use assms(2) in simp)
  then show ?thesis using assms(1) sublist_order.order_trans unfolding credential_free_def by blast
qed

section \<open>The surfaces\<close>

definition headers_free :: "credential_policy \<Rightarrow> (string \<times> string) list \<Rightarrow> bool" where
  "headers_free p hs \<longleftrightarrow> (\<forall>(k, v) \<in> set hs. credential_free p k \<and> credential_free p v)"

text \<open>Exception headers as the framework sends them.\<close>

definition sent_headers :: "pyval \<Rightarrow> (string \<times> string) list" where
  "sent_headers v = (case v of PDict items \<Rightarrow> map (\<lambda>(k, v). (k, py_str v)) items | _ \<Rightarrow> [])"

lemma safe_headers_free:
  assumes "safe_headers p b d headers = (safe, violated)"
  shows "(case safe of None \<Rightarrow> True | Some hs \<Rightarrow> headers_free p hs) \<and> (\<not> violated \<longrightarrow> headers_free p (sent_headers headers))"
proof -
  have v: "header_violates p b d (k, v) \<longleftrightarrow> \<not> (credential_free p k \<and> credential_free p (py_str v))" for k v
    by (simp add: header_violates_def policy_match_None del: policy_match.simps)
  have f: "headers_free p (map (\<lambda>(k, v). (k, py_str v)) (filter (\<lambda>h. \<not> header_violates p b d h) items))" for items
    by (auto simp: headers_free_def v)
  have g: "\<not> list_ex (header_violates p b d) items \<Longrightarrow> headers_free p (map (\<lambda>(k, v). (k, py_str v)) items)" for items
    by (auto simp: headers_free_def list_ex_iff v)
  show ?thesis
  proof (cases headers)
    case (PDict items)
    then show ?thesis using assms f [of items] g [of items]
      by (auto simp: safe_headers_def sent_headers_def Let_def split: if_splits)
  qed (use assms in \<open>auto simp: safe_headers_def sent_headers_def headers_free_def\<close>)
qed

text \<open>An HTTP error reaches the caller unchanged only when neither its detail (keys and values) nor its headers
  hold a credential; otherwise the caller gets the fixed notice, with the clean headers only.\<close>

theorem http_error_clean:
  "case guarded_http_exception p x of
     Delegated x' \<Rightarrow> x' = x \<and> material_free p (rx_detail x) \<and> headers_free p (sent_headers (rx_headers x))
   | WithheldAnswer status body safe \<Rightarrow>
       body = PDict [(''detail'', diagnostic_block_payload BOUNDARY_HTTP_EXCEPTION_RELEASE)] \<and> status \<noteq> 0
       \<and> (case safe of None \<Rightarrow> True | Some hs \<Rightarrow> headers_free p hs)"
proof -
  obtain safe violated where s: "safe_headers p BOUNDARY_HTTP_EXCEPTION_RELEASE DIRECTION_CALLER_BOUND (rx_headers x) = (safe, violated)"
    by fastforce
  have "status_or 500 st \<noteq> 0" for st by (simp add: status_or_def split: option.split)
  then show ?thesis using safe_headers_free [OF s]
    by (simp add: guarded_http_exception_def s policy_match_None)
qed

text \<open>C7. A stream passes its chunks on, and an exception that ends it leaves unchanged only when its detail, its headers
  and the text of every exception in its chain are free of credentials; otherwise the caller gets the notice, with
  clean headers.\<close>

theorem stream_error_clean:
  assumes "diagnostic_stream p es (chunks, StreamRaises x) = (out, ending)"
  shows "out = chunks \<and> (case ending of
       StreamEnds \<Rightarrow> False
     | StreamRaises x' \<Rightarrow> x' = x \<and> material_free p (rx_detail x) \<and> material_free p (rx_headers x)
         \<and> (\<forall>i \<in> set (exception_chain es [] (Some (rx_node x))). credential_free p (exception_part (es ! i)))
     | StreamWithheld status body safe \<Rightarrow>
         body = diagnostic_block_payload BOUNDARY_STREAM_EXCEPTION_RELEASE \<and> status \<noteq> 0
         \<and> (case safe of None \<Rightarrow> True | Some hs \<Rightarrow> headers_free p hs))"
proof -
  let ?h = "if rx_http x then rx_headers x else PNone"
  obtain safe violated where s: "safe_headers p BOUNDARY_STREAM_EXCEPTION_RELEASE DIRECTION_CALLER_BOUND ?h = (safe, violated)"
    by fastforce
  have status: "(if rx_http x then status_or 502 (rx_status x) else 502) \<noteq> (0 :: int)"
    by (simp add: status_or_def split: option.split)
  show ?thesis
  proof (cases "exception_has_credential p BOUNDARY_STREAM_EXCEPTION_RELEASE DIRECTION_CALLER_BOUND es x")
    case True
    then show ?thesis using assms s status safe_headers_free [OF s]
      by (auto simp: diagnostic_stream_def guarded_end_def)
  next
    case False
    then have "material_free p (rx_detail x)" "material_free p (rx_headers x)" "credential_free p (exception_material es (rx_node x))"
      by (auto simp: exception_has_credential_def policy_match_None simp del: policy_match.simps)
    then show ?thesis using assms False part_in_material
      by (auto simp: diagnostic_stream_def guarded_end_def)
  qed
qed

theorem stream_error_clean_witness:
  "case snd (diagnostic_stream (one_credential ''SECRET'') example_exceptions
      ([''c1''], StreamRaises \<lparr>rx_node = 0, rx_http = False, rx_status = None, rx_detail = PNone, rx_headers = PNone\<rparr>)) of
     StreamWithheld status body safe \<Rightarrow> body = diagnostic_block_payload BOUNDARY_STREAM_EXCEPTION_RELEASE | _ \<Rightarrow> False"
proof -
  let ?x = "\<lparr>rx_node = 0, rx_http = False, rx_status = None, rx_detail = PNone, rx_headers = PNone\<rparr> :: raised_exception"
  obtain out ending where run: "diagnostic_stream (one_credential ''SECRET'') example_exceptions ([''c1''], StreamRaises ?x) = (out, ending)"
    by fastforce
  have "\<not> credential_free (one_credential ''SECRET'') (exception_part (example_exceptions ! 1))"
    unfolding scan_text_None [symmetric] by code_simp
  moreover have "1 \<in> set (exception_chain example_exceptions [] (Some (rx_node ?x)))" by code_simp
  ultimately have "\<not> (\<forall>i \<in> set (exception_chain example_exceptions [] (Some (rx_node ?x))).
      credential_free (one_credential ''SECRET'') (exception_part (example_exceptions ! i)))" by blast
  then show ?thesis using stream_error_clean [OF run] run by (cases ending) auto
qed

lemma find_NoneD: "find P xs = None \<Longrightarrow> x \<in> set xs \<Longrightarrow> \<not> P x"
  by (induction xs) (auto split: if_splits)

text \<open>A log record is released as it is, or replaced by the fixed notice; as it is only when its message and the
  chain of its exception are free of the credentials of every registered policy.\<close>

theorem log_record_clean:
  "let r' = filter_log ps es r in
     (r' = r \<and> (\<forall>e \<in> set ps. credential_free (snd e) (log_material es r)))
     \<or> (lr_message r' = DIAGNOSTIC_LOG_MESSAGE \<and> lr_exception r' = None \<and> lr_exc_text r' = None \<and> lr_stack_info r' = None)"
proof (cases "log_match ps (log_material es r)")
  case None
  then have "\<forall>e \<in> set ps. policy_match (snd e) BOUNDARY_LOG_RELEASE DIRECTION_OBSERVER_BOUND (PStr (log_material es r)) = None"
    using find_NoneD [OF None [unfolded log_match_def]] by blast
  then have "\<forall>e \<in> set ps. credential_free (snd e) (log_material es r)" by (simp only: policy_match_None material_free_simps)
  then show ?thesis using None by (simp add: filter_log_def)
next
  case (Some e)
  then show ?thesis by (simp add: filter_log_def Let_def)
qed

text \<open>The retained error is never a credential: each assignment stores a clean value or the notice.\<close>

definition retained_ok :: "credential_policy \<Rightarrow> (string \<Rightarrow> pyval option) \<Rightarrow> bool" where
  "retained_ok p attrs \<longleftrightarrow> (\<forall>v. attrs ''_last_error'' = Some v \<longrightarrow> material_free p v \<or> v = PStr DIAGNOSTIC_STATE_MESSAGE)"

lemma guarded_setattr_ok: "retained_ok p attrs \<or> name = ''_last_error'' \<Longrightarrow> retained_ok p (guarded_setattr p name v attrs)"
  by (auto simp: guarded_setattr_def retained_ok_def policy_match_None simp del: policy_match.simps)

section \<open>Installation\<close>

text \<open>The filter holds at most one policy for each runtime and lane.\<close>

definition log_registry_ok :: "log_policies \<Rightarrow> bool" where
  "log_registry_ok ps \<longleftrightarrow> distinct (map (log_identity \<circ> snd) ps) \<and> (\<forall>e \<in> set ps. cg_runtime_id (snd e) \<noteq> [] \<and> cg_lane_id (snd e) \<noteq> [])"

lemma registry_Nil: "log_registry_ok []"
  by (simp add: log_registry_ok_def)

lemma add_log_policy_ok:
  assumes "log_registry_ok ps" and "add_log_policy entry ps = Inr ps'"
  shows "log_registry_ok ps' \<and> set ps \<subseteq> set ps'
    \<and> (\<exists>e \<in> set ps'. log_identity (snd e) = log_identity (snd entry) \<and> (fst e = fst entry \<or> cg_credentials (snd e) = cg_credentials (snd entry)))"
proof (cases "filter (\<lambda>e. log_identity (snd e) = log_identity (snd entry)) ps")
  case Nil
  then have "\<forall>e \<in> set ps. log_identity (snd e) \<noteq> log_identity (snd entry)" by (simp add: filter_empty_conv)
  then have "log_identity (snd entry) \<notin> set (map (log_identity \<circ> snd) ps)" by auto
  then show ?thesis using assms Nil by (auto simp: add_log_policy_def log_registry_ok_def split: if_splits)
next
  case (Cons e rest)
  then have "e \<in> set ps" "log_identity (snd e) = log_identity (snd entry)"
    by (auto dest: filter_eq_ConsD)
  then show ?thesis using assms Cons by (auto simp: add_log_policy_def split: if_splits)
qed

text \<open>An installed host has all four surfaces bound.\<close>

definition surfaces_bound :: "diagnostic_host \<Rightarrow> bool" where
  "surfaces_bound h \<longleftrightarrow> dh_http_guard h \<noteq> None \<and> dh_stream_guard h \<noteq> None \<and> dh_log_guarded h \<and> dh_state_guard h \<noteq> None
     \<and> (case dh_log_filter h of None \<Rightarrow> False | Some ps \<Rightarrow> log_registry_ok ps)"

text \<open>Installing is all or nothing for a live host: when it succeeds every surface is bound and the log filter knows the
  runtime's credentials; when a surface cannot be bound an error is raised and the host is not marked as installed.\<close>

theorem diagnostic_install_complete:
  assumes "install_diagnostic_guard entry h = (h', r)" and "dh_live h" and "\<not> dh_installed h"
    and "\<forall>ps. dh_log_filter h = Some ps \<longrightarrow> log_registry_ok ps"
  shows "case r of
       Inr _ \<Rightarrow> dh_installed h' \<and> surfaces_bound h'
         \<and> (\<exists>e \<in> set (the (dh_log_filter h')). log_identity (snd e) = log_identity (snd entry)
              \<and> (fst e = fst entry \<or> cg_credentials (snd e) = cg_credentials (snd entry)))
     | Inl _ \<Rightarrow> \<not> dh_installed h'"
proof -
  obtain h1 http h2 stream h3 lg where i: "install_http_guard (snd entry) h = (h1, http)" "install_stream_guard (snd entry) h1 = (h2, stream)"
    "install_log_guard entry h2 = (h3, lg)" by (metis prod.exhaust)
  have h1: "dh_installed h1 = dh_installed h" "dh_log_filter h1 = dh_log_filter h" "http \<Longrightarrow> dh_http_guard h1 \<noteq> None"
    using i(1) by (auto simp: install_http_guard_def split: if_splits)
  have h2: "dh_installed h2 = dh_installed h1" "dh_log_filter h2 = dh_log_filter h1" "stream \<Longrightarrow> dh_stream_guard h2 \<noteq> None"
    "dh_http_guard h2 = dh_http_guard h1"
    using i(2) by (auto simp: install_stream_guard_def split: if_splits)
  have h3: "dh_installed h3 = dh_installed h2" "dh_http_guard h3 = dh_http_guard h2" "dh_stream_guard h3 = dh_stream_guard h2"
    using i(3) by (auto simp: install_log_guard_def split: if_splits sum.splits)
  show ?thesis
  proof (cases lg)
    case (Inl e)
    then show ?thesis using assms i h1 h2 h3 by (auto simp: install_diagnostic_guard_def)
  next
    case (Inr bound)
    obtain h4 state where i4: "install_state_guard (snd entry) h3 = (h4, state)" by fastforce
    have h4: "dh_installed h4 = dh_installed h3" "dh_http_guard h4 = dh_http_guard h3" "dh_stream_guard h4 = dh_stream_guard h3"
      "dh_log_guarded h4 = dh_log_guarded h3" "dh_log_filter h4 = dh_log_filter h3" "state \<Longrightarrow> dh_state_guard h4 \<noteq> None"
      using i4 by (auto simp: install_state_guard_def split: if_splits)
    have log: "dh_log_guarded h3 \<and> (\<exists>ps. dh_log_filter h3 = Some ps \<and> log_registry_ok ps
        \<and> (\<exists>e \<in> set ps. log_identity (snd e) = log_identity (snd entry)
             \<and> (fst e = fst entry \<or> cg_credentials (snd e) = cg_credentials (snd entry))))" if b: "bound"
    proof -
      define ps0 where "ps0 = (if dh_log_guarded h2 then the (dh_log_filter h2) else [])"
      obtain ps where a: "add_log_policy entry ps0 = Inr ps" "dh_log_guarded h3" "dh_log_filter h3 = Some ps"
        using i(3) Inr b by (auto simp: install_log_guard_def ps0_def split: if_splits sum.splits)
      have "log_registry_ok ps0"
        using assms(4) h1 h2 i(3) Inr b
        using registry_Nil by (auto simp: ps0_def install_log_guard_def split: if_splits)
      then show ?thesis using add_log_policy_ok [OF _ a(1)] a by blast
    qed
    have "install_diagnostic_guard entry h = (if \<not> (http \<and> stream \<and> bound \<and> state)
        then (h4, Inl (CredentialRuntimeError ''Phase-7 diagnostic credential DLP could not bind all live surfaces''))
        else (h4\<lparr>dh_installed := True,
                 dh_manifest := (if dh_manifest_callable h4 then dh_manifest h4 @ [''jack_diagnostic_guard.py''] else dh_manifest h4)\<rparr>, Inr ()))"
      using assms(2,3) i i4 Inr by (simp add: install_diagnostic_guard_def)
    then show ?thesis using assms(1,3) h1 h2 h3 h4 log
      by (cases "http \<and> stream \<and> bound \<and> state") (auto simp: surfaces_bound_def)
  qed
qed

definition example_diagnostic_host :: diagnostic_host where
  "example_diagnostic_host = \<lparr>dh_installed = False, dh_live = True, dh_app = True, dh_http_type = True, dh_http_guard = None,
     dh_stream_callable = True, dh_stream_guard = None, dh_logger = True, dh_log_guarded = False, dh_log_filter = None,
     dh_hub = True, dh_state_guard = None, dh_hub_attributes = None, dh_manifest_callable = True, dh_manifest = []\<rparr>"

theorem diagnostic_install_complete_witness:
  "surfaces_bound (fst (install_diagnostic_guard (0, one_credential ''SECRET'') example_diagnostic_host))
   \<and> \<not> dh_installed (fst (install_diagnostic_guard (0, one_credential ''SECRET'') (example_diagnostic_host\<lparr>dh_logger := False\<rparr>)))"
proof -
  let ?e = "(0, one_credential ''SECRET'')" and ?h = example_diagnostic_host
  have inst: "dh_installed (fst (install_diagnostic_guard ?e ?h))" by code_simp
  have bad: "\<not> dh_installed (fst (install_diagnostic_guard ?e (?h\<lparr>dh_logger := False\<rparr>)))" by code_simp
  have h: "dh_live ?h" "\<not> dh_installed ?h" "\<forall>ps. dh_log_filter ?h = Some ps \<longrightarrow> log_registry_ok ps"
    by (simp_all add: example_diagnostic_host_def)
  obtain h' r where run: "install_diagnostic_guard ?e ?h = (h', r)" by fastforce
  show ?thesis using diagnostic_install_complete [OF run h] run inst bad by (cases r) auto
qed

end
