(* ===== verification/EventHub.thy ===== *)
theory EventHub
  imports ToolRelease JsonText
begin

text \<open>
  \<open>OrchestrationEventHub\<close> of \<open>jack_kernel.py\<close>: the parser of the control bridge's event stream, the
  envelope each event gets, the replay buffer, the bounded queues of the subscribers, and what the
  events endpoint asks of them. \<open>publish\<close> runs in one step: after the lock is released nothing
  suspends until the subscribers have the event. \<open>int_of_float\<close> is \<open>int\<close> of a float literal.
\<close>

section \<open>Envelopes\<close>

definition ORCHESTRATION_REPLAY_DEFAULT :: int where
  "ORCHESTRATION_REPLAY_DEFAULT = 512"

definition orchestration_replay_limit :: "string option \<Rightarrow> int" where
  "orchestration_replay_limit env =
     (let raw = py_strip (case env of None \<Rightarrow> [] | Some s \<Rightarrow> s);
          value = (if raw = [] then ORCHESTRATION_REPLAY_DEFAULT
                   else (case parse_int raw of None \<Rightarrow> ORCHESTRATION_REPLAY_DEFAULT | Some i \<Rightarrow> i)) in
      max 32 (min value 10000))"

record envelope =
  ev_seq :: nat
  ev_task_id :: "string option"
  ev_run_id :: "string option"
  ev_run_epoch :: "int option"
  ev_attribution :: "string option"
  ev_type :: string
  ev_source_at :: pyval
  ev_received_at :: string
  ev_data :: pyval
  ev_source_event :: pyval

definition event_field :: "pyval \<Rightarrow> string \<Rightarrow> pyval" where
  "event_field v k = (case v of PDict d \<Rightarrow> dict_get d k | _ \<Rightarrow> PNone)"

text \<open>The first of the values that is true, as text.\<close>

fun first_text :: "pyval list \<Rightarrow> string option" where
  "first_text [] = None"
| "first_text (v # vs) = (if truthy v then Some (py_str v) else first_text vs)"

definition source_task_id :: "string \<Rightarrow> pyval \<Rightarrow> string option" where
  "source_task_id event_type source =
     first_text ([event_field source ''task_id'']
       @ (if event_type = ''task'' then [event_field (event_field source ''data'') ''id'', event_field source ''id''] else [])
       @ (if event_type = ''status'' then [event_field source ''id''] else []))"

definition source_run_id :: "pyval \<Rightarrow> string option" where
  "source_run_id source =
     first_text [event_field source ''run_id'', event_field (event_field source ''data'') ''runId'', event_field source ''runId'']"

fun first_present :: "pyval list \<Rightarrow> pyval" where
  "first_present [] = PNone"
| "first_present (v # vs) = (if v \<noteq> PNone then v else first_present vs)"

definition int_value :: "(string \<Rightarrow> int option) \<Rightarrow> pyval \<Rightarrow> int option" where
  "int_value int_of_float v =
     (case v of
        PInt i \<Rightarrow> Some i | PBool b \<Rightarrow> Some (if b then 1 else 0) | PFloat s \<Rightarrow> int_of_float s
      | PStr s \<Rightarrow> parse_int (py_strip s) | _ \<Rightarrow> None)"

definition source_run_epoch :: "(string \<Rightarrow> int option) \<Rightarrow> pyval \<Rightarrow> int option" where
  "source_run_epoch int_of_float source =
     int_value int_of_float (first_present
       [event_field source ''run_epoch'', event_field (event_field source ''data'') ''runEpoch'', event_field source ''runEpoch''])"

definition source_attribution :: "pyval \<Rightarrow> string option" where
  "source_attribution source = first_text [event_field source ''attribution'']"

definition or_text :: "string \<Rightarrow> string \<Rightarrow> string" where
  "or_text s t = (if s = [] then t else s)"

definition make_envelope :: "(string \<Rightarrow> int option) \<Rightarrow> nat \<Rightarrow> string \<Rightarrow> string \<Rightarrow> pyval \<Rightarrow> envelope" where
  "make_envelope int_of_float seq now event_type source =
     (let wrapped = (case source of PDict d \<Rightarrow> dict_has d ''data'' \<and> dict_has d ''type'' | _ \<Rightarrow> False);
          fallback = or_text event_type ''message'';
          source_type = (if wrapped \<and> truthy (event_field source ''type'') then py_str (event_field source ''type'') else fallback) in
      \<lparr>ev_seq = seq, ev_task_id = source_task_id source_type source, ev_run_id = source_run_id source,
       ev_run_epoch = source_run_epoch int_of_float source, ev_attribution = source_attribution source,
       ev_type = source_type, ev_source_at = event_field source ''at'', ev_received_at = now,
       ev_data = (if wrapped then event_field source ''data'' else source), ev_source_event = source\<rparr>)"

definition opt_int :: "int option \<Rightarrow> pyval" where
  "opt_int x = (case x of None \<Rightarrow> PNone | Some i \<Rightarrow> PInt i)"

definition envelope_dict :: "envelope \<Rightarrow> pydict" where
  "envelope_dict e =
     [(''seq'', PInt (int (ev_seq e))), (''task_id'', ToolRelease.opt_str (ev_task_id e)), (''run_id'', ToolRelease.opt_str (ev_run_id e)),
      (''run_epoch'', opt_int (ev_run_epoch e)), (''attribution'', ToolRelease.opt_str (ev_attribution e)), (''type'', PStr (ev_type e)),
      (''source'', PStr ''pi''), (''source_at'', ev_source_at e), (''jack_received_at'', PStr (ev_received_at e)),
      (''data'', ev_data e), (''source_event'', ev_source_event e)]"

definition sse_text :: "envelope \<Rightarrow> string" where
  "sse_text e = ''id: '' @ nat_text (ev_seq e) @ [CHR 0x0A] @ ''event: '' @ ev_type e @ [CHR 0x0A]
     @ ''data: '' @ json_text (PDict (envelope_dict e)) @ [CHR 0x0A, CHR 0x0A]"

definition encode_sse :: "envelope \<Rightarrow> string" where
  "encode_sse e = utf8 (sse_text e)"

section \<open>The hub\<close>

definition QUEUE_SIZE :: nat where
  "QUEUE_SIZE = 1024"

text \<open>A queue holds encoded events, \<open>None\<close> at the end of the stream. The queues that exist have numbers;
  \<open>hb_subscribers\<close> are the registered ones.\<close>

record event_hub =
  hb_replay_limit :: nat
  hb_buffer :: "envelope list"
  hb_seq :: nat
  hb_subscribers :: "nat list"
  hb_queues :: "string option list list"
  hb_stopping :: bool
  hb_last_error :: "string option"

definition new_hub :: "nat \<Rightarrow> event_hub" where
  "new_hub limit = \<lparr>hb_replay_limit = limit, hb_buffer = [], hb_seq = 0, hb_subscribers = [], hb_queues = [],
     hb_stopping = False, hb_last_error = None\<rparr>"

text \<open>The buffer is a \<open>deque\<close> with a maximal length.\<close>

definition buffer_append :: "nat \<Rightarrow> envelope \<Rightarrow> envelope list \<Rightarrow> envelope list" where
  "buffer_append limit e es = drop (Suc (length es) - limit) (es @ [e])"

definition unsubscribe :: "nat \<Rightarrow> event_hub \<Rightarrow> event_hub" where
  "unsubscribe q h = h\<lparr>hb_subscribers := filter (\<lambda>s. s \<noteq> q) (hb_subscribers h)\<rparr>"

definition deliver :: "string \<Rightarrow> nat \<Rightarrow> event_hub \<Rightarrow> event_hub" where
  "deliver encoded q h =
     (if length (hb_queues h ! q) < QUEUE_SIZE
      then h\<lparr>hb_queues := (hb_queues h)[q := hb_queues h ! q @ [Some encoded]]\<rparr>
      else (unsubscribe q h)\<lparr>hb_queues := (hb_queues h)[q := [None]]\<rparr>)"

definition hub_publish :: "(string \<Rightarrow> int option) \<Rightarrow> string \<Rightarrow> string \<Rightarrow> pyval \<Rightarrow> event_hub \<Rightarrow> event_hub" where
  "hub_publish int_of_float now event_type source h =
     (let e = make_envelope int_of_float (Suc (hb_seq h)) now event_type source;
          h' = h\<lparr>hb_seq := Suc (hb_seq h), hb_buffer := buffer_append (hb_replay_limit h) e (hb_buffer h)\<rparr> in
      fold (deliver (encode_sse e)) (hb_subscribers h) h')"

datatype replay_gap = ReplayGap int nat nat

definition hub_subscribe :: "int option \<Rightarrow> event_hub \<Rightarrow> replay_gap + (event_hub \<times> nat \<times> string list)" where
  "hub_subscribe after h =
     (let oldest = (case hb_buffer h of [] \<Rightarrow> Suc (hb_seq h) | e # _ \<Rightarrow> ev_seq e);
          latest = (if hb_buffer h = [] then hb_seq h else ev_seq (last (hb_buffer h)));
          q = length (hb_queues h);
          registered = h\<lparr>hb_subscribers := hb_subscribers h @ [q], hb_queues := hb_queues h @ [[]]\<rparr> in
      case after of
        None \<Rightarrow> Inr (registered, q, [])
      | Some a \<Rightarrow>
          if a < int oldest - 1 then Inl (ReplayGap a oldest latest)
          else Inr (registered, q, map encode_sse (filter (\<lambda>e. a < int (ev_seq e)) (hb_buffer h))))"

text \<open>\<open>close\<close>: the end goes into every queue that is not full.\<close>

definition hub_close :: "event_hub \<Rightarrow> event_hub" where
  "hub_close h =
     fold (\<lambda>q h. if length (hb_queues h ! q) < QUEUE_SIZE
         then h\<lparr>hb_queues := (hb_queues h)[q := hb_queues h ! q @ [None]]\<rparr> else h)
       (hb_subscribers h) (h\<lparr>hb_stopping := True, hb_subscribers := []\<rparr>)"

section \<open>The upstream stream\<close>

text \<open>\<open>_consume_stream\<close>: the events it publishes, from the event name and the data lines collected so far.\<close>

definition parse_event :: "(string \<Rightarrow> pyval option) \<Rightarrow> string list \<Rightarrow> pyval" where
  "parse_event loads data_lines =
     (let raw = join_with (CHR 0x0A) data_lines in
      case loads raw of None \<Rightarrow> PDict [(''raw'', PStr raw)] | Some v \<Rightarrow> v)"

definition pending_event :: "(string \<Rightarrow> pyval option) \<Rightarrow> string \<Rightarrow> string list \<Rightarrow> (string \<times> pyval) list" where
  "pending_event loads event_name data_lines =
     (if data_lines = [] then [] else [(event_name, parse_event loads data_lines)])"

fun consume_lines :: "(string \<Rightarrow> pyval option) \<Rightarrow> string \<Rightarrow> string list \<Rightarrow> string list \<Rightarrow> (string \<times> pyval) list" where
  "consume_lines loads event_name data_lines [] = pending_event loads event_name data_lines"
| "consume_lines loads event_name data_lines (line # lines) =
     (if line = [] then pending_event loads event_name data_lines @ consume_lines loads ''message'' [] lines
      else if starts_with '':'' line then consume_lines loads event_name data_lines lines
      else if starts_with ''event:'' line then
        consume_lines loads (or_text (py_strip (drop 6 line)) ''message'') data_lines lines
      else if starts_with ''data:'' line then
        consume_lines loads event_name (data_lines @ [py_lstrip (drop 5 line)]) lines
      else consume_lines loads event_name data_lines lines)"

definition consume_stream :: "(string \<Rightarrow> pyval option) \<Rightarrow> string list \<Rightarrow> (string \<times> pyval) list" where
  "consume_stream loads lines = consume_lines loads ''message'' [] lines"

section \<open>The endpoint\<close>

text \<open>The cursor of a request: the query parameter, else the header.\<close>

definition requested_cursor :: "string \<Rightarrow> string \<Rightarrow> kernel_error + int option" where
  "requested_cursor query_after last_event_id =
     (let after_raw = or_text (py_strip query_after) (py_strip last_event_id) in
      if after_raw = [] then Inr None
      else (case parse_int after_raw of
          None \<Rightarrow> Inl (HttpError 400 ''after/Last-Event-ID must be an integer'')
        | Some i \<Rightarrow> if i < 0 then Inl (HttpError 400 ''after/Last-Event-ID must be non-negative'') else Inr (Some i)))"

text \<open>\<open>relay\<close>: what a client has received of the replay and of its queue; it stops at \<open>None\<close>.\<close>

definition hub_get :: "nat \<Rightarrow> event_hub \<Rightarrow> (string option \<times> event_hub) option" where
  "hub_get q h =
     (case hb_queues h ! q of
        [] \<Rightarrow> None
      | item # rest \<Rightarrow> Some (item, h\<lparr>hb_queues := (hb_queues h)[q := rest]\<rparr>))"

end
