(* ===== verification/EventHubProperties.thy ===== *)
theory EventHubProperties
  imports EventHub CredentialProperties
begin

text \<open>
  The event hub as a transition system with its clients: what a client has received and what waits in its
  queue is one unbroken run of the published events, from its cursor or from where it connected; the buffer
  behind the credential guard holds no source event with a credential in its values; what is written is read
  back; and where these guarantees end.
\<close>

section \<open>The hub and its clients\<close>

record hub_client =
  cl_cursor :: "int option"
  cl_connected :: nat
  cl_received :: "string list"

record hub_world =
  hw_hub :: event_hub
  hw_log :: "envelope list"
  hw_clients :: "hub_client list"

inductive hub_step :: "(string \<Rightarrow> int option) \<Rightarrow> hub_world \<Rightarrow> hub_world \<Rightarrow> bool" for int_of_float where
  publish: "hub_step int_of_float w (w\<lparr>hw_hub := hub_publish int_of_float now event_type source (hw_hub w),
      hw_log := hw_log w @ [make_envelope int_of_float (Suc (hb_seq (hw_hub w))) now event_type source]\<rparr>)"
| connect: "requested_cursor query_after last_event_id = Inr after \<Longrightarrow> hub_subscribe after (hw_hub w) = Inr (h, q, replay)
      \<Longrightarrow> hub_step int_of_float w (w\<lparr>hw_hub := h,
            hw_clients := hw_clients w @ [\<lparr>cl_cursor = after, cl_connected = hb_seq (hw_hub w), cl_received = replay\<rparr>]\<rparr>)"
| receive: "q < length (hw_clients w) \<Longrightarrow> hub_get q (hw_hub w) = Some (item, h)
      \<Longrightarrow> hub_step int_of_float w (w\<lparr>hw_hub := h, hw_clients := (hw_clients w)[q :=
            (hw_clients w ! q)\<lparr>cl_received := cl_received (hw_clients w ! q) @ (case item of None \<Rightarrow> [] | Some s \<Rightarrow> [s])\<rparr>]\<rparr>)"
| leave: "hub_step int_of_float w (w\<lparr>hw_hub := unsubscribe q (hw_hub w)\<rparr>)"
| close: "hub_step int_of_float w (w\<lparr>hw_hub := hub_close (hw_hub w)\<rparr>)"

definition new_world :: "nat \<Rightarrow> hub_world" where
  "new_world limit = \<lparr>hw_hub = new_hub limit, hw_log = [], hw_clients = []\<rparr>"

text \<open>The position after which a client is owed every event.\<close>

definition client_start :: "hub_client \<Rightarrow> nat" where
  "client_start c = (case cl_cursor c of None \<Rightarrow> cl_connected c | Some a \<Rightarrow> min (nat a) (cl_connected c))"

section \<open>The invariant\<close>

definition owed :: "envelope list \<Rightarrow> hub_client \<Rightarrow> string list" where
  "owed log c = map encode_sse (drop (client_start c) log)"

text \<open>The texts in front of the end mark.\<close>

definition queued :: "string option list \<Rightarrow> string list" where
  "queued queue = map the (takeWhile (\<lambda>x. x \<noteq> None) queue)"

definition client_ok :: "envelope list \<Rightarrow> bool \<Rightarrow> string option list \<Rightarrow> hub_client \<Rightarrow> bool" where
  "client_ok log registered queue c \<longleftrightarrow>
     client_start c \<le> length log \<and> prefix (cl_received c @ queued queue) (owed log c)
     \<and> (registered \<longrightarrow> None \<notin> set queue \<and> cl_received c @ queued queue = owed log c)
     \<and> (None \<in> set queue \<longrightarrow> last queue = None \<and> length (filter (\<lambda>x. x = None) queue) = 1)"

definition hub_ok :: "hub_world \<Rightarrow> bool" where
  "hub_ok w \<longleftrightarrow> (let h = hw_hub w; log = hw_log w in
     map ev_seq log = [1..<Suc (hb_seq h)] \<and> hb_buffer h = drop (length log - hb_replay_limit h) log
     \<and> length (hb_queues h) = length (hw_clients w) \<and> distinct (hb_subscribers h)
     \<and> set (hb_subscribers h) \<subseteq> {..<length (hw_clients w)}
     \<and> (\<forall>q < length (hw_clients w). client_ok log (q \<in> set (hb_subscribers h)) (hb_queues h ! q) (hw_clients w ! q)))"

lemma queued_append: "None \<notin> set queue \<Longrightarrow> queued (queue @ items) = queued queue @ queued items"
  by (induction queue) (auto simp: queued_def)

lemma queued_simps [simp]: "queued [] = []" "queued (None # qs) = []" "queued (Some s # qs) = s # queued qs"
  by (simp_all add: queued_def)

lemma queued_Some: "None \<notin> set queue \<Longrightarrow> queued (queue @ [Some s]) = queued queue @ [s]"
  "None \<notin> set queue \<Longrightarrow> queued (queue @ [None]) = queued queue"
  by (simp_all add: queued_append)

lemma client_ok_unregister: "client_ok log r queue c \<Longrightarrow> client_ok log False queue c"
  by (simp add: client_ok_def)

lemma owed_append: "client_start c \<le> length log \<Longrightarrow> owed (log @ [e]) c = owed log c @ [encode_sse e]"
  by (simp add: owed_def)

lemma client_ok_publish:
  "client_ok log False queue c \<Longrightarrow> client_ok (log @ [e]) False queue c"
  by (auto simp: client_ok_def owed_append intro: prefix_prefix)

lemma client_ok_deliver:
  assumes "client_ok log True queue c"
  shows "client_ok (log @ [e]) True (queue @ [Some (encode_sse e)]) c"
  using assms by (auto simp: client_ok_def owed_append queued_Some)

lemma client_ok_overflow:
  assumes "client_ok log True queue c"
  shows "client_ok (log @ [e]) False [None] c"
proof -
  have "prefix (cl_received c) (owed log c)" using assms by (metis client_ok_def prefixI)
  then have "prefix (cl_received c) (owed (log @ [e]) c)"
    using assms by (simp add: owed_append client_ok_def prefix_prefix)
  then show ?thesis using assms by (simp add: client_ok_def)
qed

lemma client_ok_close:
  assumes "client_ok log True queue c"
  shows "client_ok log False (queue @ [None]) c"
proof -
  have n: "None \<notin> set queue" using assms by (simp add: client_ok_def)
  then have "filter (\<lambda>x. x = None) queue = []" by (metis (mono_tags, lifting) filter_False)
  then show ?thesis using assms n by (simp add: client_ok_def queued_Some)
qed

lemma client_ok_receive:
  assumes "client_ok log r (item # rest) c"
  shows "client_ok log r rest (c\<lparr>cl_received := cl_received c @ (case item of None \<Rightarrow> [] | Some s \<Rightarrow> [s])\<rparr>)"
proof -
  have s: "client_start (c\<lparr>cl_received := x\<rparr>) = client_start c" "owed log (c\<lparr>cl_received := x\<rparr>) = owed log c" for x
    by (simp_all add: client_start_def owed_def split: option.split)
  show ?thesis
  proof (cases item)
    case (Some x)
    then show ?thesis using assms by (auto simp: client_ok_def s split: if_splits)
  next
    case None
    have "rest = []"
    proof (rule ccontr)
      assume ne: "rest \<noteq> []"
      then have "last rest = None" using assms None by (simp add: client_ok_def)
      then have "None \<in> set rest" using ne by (metis last_in_set)
      then have "filter (\<lambda>x. x = None) rest \<noteq> []" by (simp add: filter_empty_conv)
      then show False using assms None by (auto simp: client_ok_def)
    qed
    then show ?thesis using assms None by (auto simp: client_ok_def s)
  qed
qed

section \<open>The steps keep it\<close>

text \<open>What a publication does to each queue.\<close>

lemma deliver_other: "r \<noteq> q \<Longrightarrow> hb_queues (deliver s q h) ! r = hb_queues h ! r \<and> (r \<in> set (hb_subscribers (deliver s q h)) \<longleftrightarrow> r \<in> set (hb_subscribers h))"
  by (auto simp: deliver_def unsubscribe_def)

lemma deliver_fields [simp]:
  "length (hb_queues (deliver s q h)) = length (hb_queues h)" "hb_seq (deliver s q h) = hb_seq h"
  "hb_buffer (deliver s q h) = hb_buffer h" "hb_replay_limit (deliver s q h) = hb_replay_limit h"
  "set (hb_subscribers (deliver s q h)) \<subseteq> set (hb_subscribers h)"
  "distinct (hb_subscribers h) \<Longrightarrow> distinct (hb_subscribers (deliver s q h))"
  by (auto simp: deliver_def unsubscribe_def)

lemma deliver_own:
  assumes "q < length (hb_queues h)" and "q \<in> set (hb_subscribers h)"
  shows "hb_queues (deliver s q h) ! q = hb_queues h ! q @ [Some s] \<and> q \<in> set (hb_subscribers (deliver s q h))
    \<or> hb_queues (deliver s q h) ! q = [None] \<and> q \<notin> set (hb_subscribers (deliver s q h))"
  using assms by (simp add: deliver_def unsubscribe_def)

lemma deliver_all:
  assumes "distinct qs" and "\<forall>q \<in> set qs. q < length (hb_queues h) \<and> q \<in> set (hb_subscribers h)"
  shows "(\<forall>q \<in> set qs. hb_queues (fold (deliver s) qs h) ! q = hb_queues h ! q @ [Some s] \<and> q \<in> set (hb_subscribers (fold (deliver s) qs h))
        \<or> hb_queues (fold (deliver s) qs h) ! q = [None] \<and> q \<notin> set (hb_subscribers (fold (deliver s) qs h)))
    \<and> (\<forall>r. r \<notin> set qs \<longrightarrow> hb_queues (fold (deliver s) qs h) ! r = hb_queues h ! r
        \<and> (r \<in> set (hb_subscribers (fold (deliver s) qs h)) \<longleftrightarrow> r \<in> set (hb_subscribers h)))
    \<and> length (hb_queues (fold (deliver s) qs h)) = length (hb_queues h) \<and> hb_seq (fold (deliver s) qs h) = hb_seq h
    \<and> hb_buffer (fold (deliver s) qs h) = hb_buffer h \<and> hb_replay_limit (fold (deliver s) qs h) = hb_replay_limit h
    \<and> set (hb_subscribers (fold (deliver s) qs h)) \<subseteq> set (hb_subscribers h)
    \<and> (distinct (hb_subscribers h) \<longrightarrow> distinct (hb_subscribers (fold (deliver s) qs h)))"
  using assms
proof (induction qs arbitrary: h)
  case (Cons q qs)
  let ?h = "deliver s q h"
  have q: "q < length (hb_queues h)" "q \<in> set (hb_subscribers h)" "q \<notin> set qs" using Cons.prems by auto
  have "\<forall>r \<in> set qs. r < length (hb_queues ?h) \<and> r \<in> set (hb_subscribers ?h)"
    using Cons.prems q(3) deliver_other [of _ q s h] by (metis deliver_fields(1) distinct.simps(2) list.set_intros(2))
  note ih = Cons.IH [OF _ this]
  have d: "distinct qs" using Cons.prems by simp
  note ih = ih [OF d]
  have own: "hb_queues (fold (deliver s) qs ?h) ! q = hb_queues ?h ! q"
    "q \<in> set (hb_subscribers (fold (deliver s) qs ?h)) \<longleftrightarrow> q \<in> set (hb_subscribers ?h)" using ih q(3) by blast+
  have other: "hb_queues ?h ! r = hb_queues h ! r \<and> (r \<in> set (hb_subscribers ?h) \<longleftrightarrow> r \<in> set (hb_subscribers h))" if "r \<noteq> q" for r
    using deliver_other [OF that] .
  have a: "\<forall>r \<in> set (q # qs). hb_queues (fold (deliver s) qs ?h) ! r = hb_queues h ! r @ [Some s] \<and> r \<in> set (hb_subscribers (fold (deliver s) qs ?h))
      \<or> hb_queues (fold (deliver s) qs ?h) ! r = [None] \<and> r \<notin> set (hb_subscribers (fold (deliver s) qs ?h))"
  proof
    fix r assume r: "r \<in> set (q # qs)"
    show "hb_queues (fold (deliver s) qs ?h) ! r = hb_queues h ! r @ [Some s] \<and> r \<in> set (hb_subscribers (fold (deliver s) qs ?h))
      \<or> hb_queues (fold (deliver s) qs ?h) ! r = [None] \<and> r \<notin> set (hb_subscribers (fold (deliver s) qs ?h))"
    proof (cases "r = q")
      case True
      then show ?thesis using own deliver_own [OF q(1,2), of s] by simp
    next
      case False
      then show ?thesis using r ih other [OF False] by (metis set_ConsD)
    qed
  qed
  moreover have "\<forall>r. r \<notin> set (q # qs) \<longrightarrow> hb_queues (fold (deliver s) qs ?h) ! r = hb_queues h ! r
      \<and> (r \<in> set (hb_subscribers (fold (deliver s) qs ?h)) \<longleftrightarrow> r \<in> set (hb_subscribers h))"
    using ih other by simp
  moreover have "set (hb_subscribers (fold (deliver s) qs ?h)) \<subseteq> set (hb_subscribers h)"
    using ih deliver_fields(5) [of s q h] by blast
  ultimately show ?case using ih by simp
qed simp

lemma map_nth_ok:
  "(\<And>q. q < length xs \<Longrightarrow> P q (xs ! q)) \<Longrightarrow> P (length xs) x \<Longrightarrow> q < Suc (length xs) \<Longrightarrow> P q ((xs @ [x]) ! q)"
  by (auto simp: nth_append less_Suc_eq)

lemma publish_buffer:
  assumes "buffer = drop (length log - limit) log"
  shows "buffer_append limit e buffer = drop (Suc (length log) - limit) (log @ [e])"
proof (cases "length log \<le> limit")
  case True
  then show ?thesis using assms by (simp add: buffer_append_def)
next
  case False
  then have "drop (Suc (length log) - limit) (log @ [e]) = drop 1 (drop (length log - limit) (log @ [e]))" by (simp add: Suc_diff_le)
  moreover have "length buffer = limit" using False assms by simp
  ultimately show ?thesis using False assms by (simp add: buffer_append_def)
qed

lemma hub_ok_publish:
  assumes "hub_ok w"
  shows "hub_ok (w\<lparr>hw_hub := hub_publish int_of_float now event_type source (hw_hub w),
      hw_log := hw_log w @ [make_envelope int_of_float (Suc (hb_seq (hw_hub w))) now event_type source]\<rparr>)"
proof -
  let ?h = "hw_hub w" and ?log = "hw_log w"
  define e where "e = make_envelope int_of_float (Suc (hb_seq ?h)) now event_type source"
  define h1 where "h1 = ?h\<lparr>hb_seq := Suc (hb_seq ?h), hb_buffer := buffer_append (hb_replay_limit ?h) e (hb_buffer ?h)\<rparr>"
  define h2 where "h2 = fold (deliver (encode_sse e)) (hb_subscribers ?h) h1"
  have pub: "hub_publish int_of_float now event_type source ?h = h2"
    by (simp add: hub_publish_def Let_def e_def h1_def h2_def)
  note ok = assms[unfolded hub_ok_def Let_def]
  have subs: "hb_subscribers h1 = hb_subscribers ?h" "hb_queues h1 = hb_queues ?h" by (simp_all add: h1_def)
  have d: "distinct (hb_subscribers ?h)" using ok by blast
  have "\<forall>q \<in> set (hb_subscribers ?h). q < length (hb_queues h1) \<and> q \<in> set (hb_subscribers h1)" using ok subs by auto
  note dv = deliver_all [OF d this, of "encode_sse e", folded h2_def]
  have ev: "ev_seq e = Suc (hb_seq ?h)" by (simp add: e_def make_envelope_def Let_def)
  have "map ev_seq (?log @ [e]) = [1..<Suc (hb_seq h2)]" using ok ev dv by (simp add: h1_def)
  moreover have "hb_buffer h2 = drop (length (?log @ [e]) - hb_replay_limit h2) (?log @ [e])"
    using publish_buffer [of "hb_buffer ?h" ?log "hb_replay_limit ?h" e] ok dv by (simp add: h1_def)
  moreover have "client_ok (?log @ [e]) (q \<in> set (hb_subscribers h2)) (hb_queues h2 ! q) (hw_clients w ! q)"
    if q: "q < length (hw_clients w)" for q
  proof (cases "q \<in> set (hb_subscribers ?h)")
    case True
    then have c: "client_ok ?log True (hb_queues ?h ! q) (hw_clients w ! q)" using ok q by force
    have "hb_queues h2 ! q = hb_queues ?h ! q @ [Some (encode_sse e)] \<and> q \<in> set (hb_subscribers h2)
        \<or> hb_queues h2 ! q = [None] \<and> q \<notin> set (hb_subscribers h2)" using dv True subs by metis
    then show ?thesis using client_ok_deliver [OF c, of e] client_ok_overflow [OF c, of e] by auto
  next
    case False
    then have c: "client_ok ?log False (hb_queues ?h ! q) (hw_clients w ! q)" using ok q by force
    have "hb_queues h2 ! q = hb_queues ?h ! q \<and> q \<notin> set (hb_subscribers h2)" using dv False subs by metis
    then show ?thesis using client_ok_publish [OF c, of e] by simp
  qed
  ultimately show ?thesis using ok dv subs unfolding hub_ok_def Let_def pub e_def [symmetric] by auto
qed

lemma oldest_seq:
  assumes "map ev_seq log = [1..<Suc n]" and "buffer = drop (length log - limit) log" and "buffer \<noteq> []"
  shows "ev_seq (hd buffer) = Suc (length log - limit)"
proof -
  have "length log = n" using arg_cong [OF assms(1), of length] by simp
  have i: "length log - limit < length log" using assms(2,3) by auto
  have "hd buffer = log ! (length log - limit)" using assms(2) i by (simp add: hd_drop_conv_nth)
  moreover have "ev_seq (log ! (length log - limit)) = [1..<Suc n] ! (length log - limit)"
    using nth_map [OF i, of ev_seq] assms(1) by simp
  moreover have "[1..<Suc n] ! (length log - limit) = 1 + (length log - limit)" by (rule nth_upt) (use i \<open>length log = n\<close> in simp)
  ultimately show ?thesis by simp
qed

lemma filter_after:
  assumes "map ev_seq log = [1..<Suc (length log)]" and "m \<le> a"
  shows "filter (\<lambda>e. a < ev_seq e) (drop m log) = drop a log"
  using assms
proof (induction log rule: rev_induct)
  case (snoc e log)
  have s: "map ev_seq log = [1..<Suc (length log)]" "ev_seq e = Suc (length log)" using snoc.prems(1) by auto
  show ?case
  proof (cases "a \<le> length log")
    case True
    then show ?thesis using snoc.IH [OF s(1) snoc.prems(2)] s(2) snoc.prems(2) by simp
  next
    case False
    have "\<forall>x \<in> set log. ev_seq x \<le> length log"
    proof
      fix x assume "x \<in> set log"
      then have "ev_seq x \<in> set [1..<Suc (length log)]" by (metis imageI list.set_map s(1))
      then show "ev_seq x \<le> length log" by auto
    qed
    then have "\<forall>x \<in> set (log @ [e]). \<not> a < ev_seq x" using False s(2) by auto
    then have "\<forall>x \<in> set (drop m (log @ [e])). \<not> a < ev_seq x" by (meson in_set_dropD)
    then have "filter (\<lambda>x. a < ev_seq x) (drop m (log @ [e])) = []" by (simp only: filter_empty_conv)
    then show ?thesis using False by simp
  qed
qed simp

text \<open>A subscription: refused when events in front of the buffer are missing, else the replay is all the log has after the
  cursor.\<close>

lemma subscribe_replay:
  assumes "hub_ok w" and "hub_subscribe after (hw_hub w) = Inr (h, q, replay)" and "\<forall>a. after = Some a \<longrightarrow> 0 \<le> a"
  shows "replay = (case after of None \<Rightarrow> [] | Some a \<Rightarrow> map encode_sse (drop (nat a) (hw_log w)))
    \<and> q = length (hw_clients w)
    \<and> h = (hw_hub w)\<lparr>hb_subscribers := hb_subscribers (hw_hub w) @ [q], hb_queues := hb_queues (hw_hub w) @ [[]]\<rparr>"
proof -
  let ?h = "hw_hub w" and ?log = "hw_log w"
  note ok = assms(1)[unfolded hub_ok_def Let_def]
  have len: "length ?log = hb_seq ?h" using ok by (metis diff_Suc_1 length_map length_upt One_nat_def)
  show ?thesis
  proof (cases after)
    case None
    then show ?thesis using assms(2) ok by (auto simp: hub_subscribe_def Let_def)
  next
    case (Some a)
    let ?oldest = "case hb_buffer ?h of [] \<Rightarrow> Suc (hb_seq ?h) | e # _ \<Rightarrow> ev_seq e"
    have a: "\<not> a < int ?oldest - 1" "replay = map encode_sse (filter (\<lambda>e. a < int (ev_seq e)) (hb_buffer ?h))"
      using assms(2) Some by (auto simp: hub_subscribe_def Let_def split: if_splits)
    have nat: "0 \<le> a" using assms(3) Some by simp
    have oldest: "?oldest = Suc (length ?log - hb_replay_limit ?h)"
    proof (cases "hb_buffer ?h")
      case Nil
      then have "length ?log \<le> length ?log - hb_replay_limit ?h" using ok by simp
      then show ?thesis using Nil len by simp
    next
      case (Cons e es)
      then show ?thesis using oldest_seq [of ?log "hb_seq ?h" "hb_buffer ?h" "hb_replay_limit ?h"] ok by simp
    qed
    have le: "length ?log - hb_replay_limit ?h \<le> nat a" using a(1) oldest nat by linarith
    have fe: "(\<lambda>e. a < int (ev_seq e)) = (\<lambda>e. nat a < ev_seq e)" using nat by (auto simp: fun_eq_iff nat_less_iff)
    have "map ev_seq ?log = [1..<Suc (length ?log)]" unfolding len using ok by blast
    note f = filter_after [OF this le]
    have b: "hb_buffer ?h = drop (length ?log - hb_replay_limit ?h) ?log" using ok by blast
    have "replay = map encode_sse (drop (nat a) ?log)" unfolding a(2) b fe f ..
    then show ?thesis using Some assms(2) ok by (auto simp: hub_subscribe_def Let_def split: if_splits)
  qed
qed

lemma cursor_nonneg: "requested_cursor a b = Inr after \<Longrightarrow> \<forall>x. after = Some x \<longrightarrow> 0 \<le> x"
  by (auto simp: requested_cursor_def Let_def split: option.splits if_splits)

lemma hub_ok_connect:
  assumes "hub_ok w" and "requested_cursor query_after last_event_id = Inr after" and "hub_subscribe after (hw_hub w) = Inr (h, q, replay)"
  shows "hub_ok (w\<lparr>hw_hub := h,
     hw_clients := hw_clients w @ [\<lparr>cl_cursor = after, cl_connected = hb_seq (hw_hub w), cl_received = replay\<rparr>]\<rparr>)"
proof -
  let ?log = "hw_log w" and ?c = "\<lparr>cl_cursor = after, cl_connected = hb_seq (hw_hub w), cl_received = replay\<rparr>"
  note r = subscribe_replay [OF assms(1,3) cursor_nonneg [OF assms(2)]]
  note ok = assms(1)[unfolded hub_ok_def Let_def]
  have len: "length ?log = hb_seq (hw_hub w)" using ok by (metis diff_Suc_1 length_map length_upt One_nat_def)
  have "owed ?log ?c = replay"
    using r len by (auto simp: owed_def client_start_def min_def split: option.split)
  moreover have "client_start ?c \<le> length ?log" using len by (auto simp: client_start_def split: option.split)
  ultimately have new: "client_ok ?log True [] ?c" by (simp add: client_ok_def)
  have q: "q = length (hw_clients w)" "length (hb_queues (hw_hub w)) = length (hw_clients w)" using r ok by blast+
  have "client_ok ?log (i \<in> set (hb_subscribers h)) (hb_queues h ! i) ((hw_clients w @ [?c]) ! i)" if "i < Suc (length (hw_clients w))" for i
  proof (cases "i = length (hw_clients w)")
    case True
    then show ?thesis using new r q by (simp add: nth_append)
  next
    case False
    then have i: "i < length (hw_clients w)" using that by simp
    then have "client_ok ?log (i \<in> set (hb_subscribers (hw_hub w))) (hb_queues (hw_hub w) ! i) (hw_clients w ! i)" using ok by blast
    then show ?thesis using i r q by (simp add: nth_append)
  qed
  moreover have "distinct (hb_subscribers h)" "set (hb_subscribers h) \<subseteq> {..<Suc (length (hw_clients w))}"
    using ok r q by auto
  ultimately show ?thesis using ok r q by (auto simp: hub_ok_def Let_def)
qed

lemma hub_ok_leave:
  assumes "hub_ok w"
  shows "hub_ok (w\<lparr>hw_hub := unsubscribe q (hw_hub w)\<rparr>)"
proof -
  note ok = assms[unfolded hub_ok_def Let_def]
  have "client_ok (hw_log w) (i \<in> set (hb_subscribers (unsubscribe q (hw_hub w)))) (hb_queues (hw_hub w) ! i) (hw_clients w ! i)"
    if "i < length (hw_clients w)" for i
  proof (cases "i \<in> set (hb_subscribers (unsubscribe q (hw_hub w)))")
    case True
    then have "i \<in> set (hb_subscribers (hw_hub w))" by (simp add: unsubscribe_def)
    then show ?thesis using ok that True by force
  next
    case False
    have "client_ok (hw_log w) (i \<in> set (hb_subscribers (hw_hub w))) (hb_queues (hw_hub w) ! i) (hw_clients w ! i)"
      using ok that by blast
    then show ?thesis using False client_ok_unregister by simp
  qed
  then show ?thesis using ok by (auto simp: hub_ok_def Let_def unsubscribe_def)
qed

lemma hub_ok_receive:
  assumes "hub_ok w" and "q < length (hw_clients w)" and "hub_get q (hw_hub w) = Some (item, h)"
  shows "hub_ok (w\<lparr>hw_hub := h, hw_clients := (hw_clients w)[q :=
      (hw_clients w ! q)\<lparr>cl_received := cl_received (hw_clients w ! q) @ (case item of None \<Rightarrow> [] | Some s \<Rightarrow> [s])\<rparr>]\<rparr>)"
proof -
  note ok = assms(1)[unfolded hub_ok_def Let_def]
  obtain rest where r: "hb_queues (hw_hub w) ! q = item # rest" "h = (hw_hub w)\<lparr>hb_queues := (hb_queues (hw_hub w))[q := rest]\<rparr>"
    using assms(3) by (auto simp: hub_get_def split: list.splits)
  have "client_ok (hw_log w) (q \<in> set (hb_subscribers (hw_hub w))) (item # rest) (hw_clients w ! q)"
    using ok assms(2) r(1) by metis
  note c = client_ok_receive [OF this]
  then show ?thesis using ok assms(2) r(2) by (auto simp: hub_ok_def Let_def nth_list_update)
qed

definition close_queue :: "nat \<Rightarrow> event_hub \<Rightarrow> event_hub" where
  "close_queue q h = (if length (hb_queues h ! q) < QUEUE_SIZE then h\<lparr>hb_queues := (hb_queues h)[q := hb_queues h ! q @ [None]]\<rparr> else h)"

lemma close_all:
  assumes "distinct qs" and "\<forall>q \<in> set qs. q < length (hb_queues h)"
  shows "(\<forall>q \<in> set qs. hb_queues (fold close_queue qs h) ! q \<in> {hb_queues h ! q, hb_queues h ! q @ [None]})
    \<and> (\<forall>r. r \<notin> set qs \<longrightarrow> hb_queues (fold close_queue qs h) ! r = hb_queues h ! r)
    \<and> length (hb_queues (fold close_queue qs h)) = length (hb_queues h) \<and> hb_seq (fold close_queue qs h) = hb_seq h
    \<and> hb_buffer (fold close_queue qs h) = hb_buffer h \<and> hb_replay_limit (fold close_queue qs h) = hb_replay_limit h
    \<and> hb_subscribers (fold close_queue qs h) = hb_subscribers h"
  using assms
proof (induction qs arbitrary: h)
  case (Cons q qs)
  have l: "length (hb_queues (close_queue q h)) = length (hb_queues h)" by (simp add: close_queue_def)
  have o: "hb_queues (close_queue q h) ! r = hb_queues h ! r" if "r \<noteq> q" for r using that by (auto simp: close_queue_def)
  have own: "hb_queues (close_queue q h) ! q \<in> {hb_queues h ! q, hb_queues h ! q @ [None]}" using Cons.prems by (simp add: close_queue_def)
  have rest: "hb_seq (close_queue q h) = hb_seq h" "hb_buffer (close_queue q h) = hb_buffer h"
    "hb_replay_limit (close_queue q h) = hb_replay_limit h" "hb_subscribers (close_queue q h) = hb_subscribers h"
    by (simp_all add: close_queue_def)
  have "\<forall>r \<in> set qs. r < length (hb_queues (close_queue q h))" using Cons.prems l by simp
  note ih = Cons.IH [OF _ this]
  have q: "q \<notin> set qs" "distinct qs" using Cons.prems by simp_all
  note ih = ih [OF q(2)]
  have "\<forall>r \<in> set (q # qs). hb_queues (fold close_queue qs (close_queue q h)) ! r \<in> {hb_queues h ! r, hb_queues h ! r @ [None]}"
  proof
    fix r assume r: "r \<in> set (q # qs)"
    show "hb_queues (fold close_queue qs (close_queue q h)) ! r \<in> {hb_queues h ! r, hb_queues h ! r @ [None]}"
    proof (cases "r = q")
      case True
      then show ?thesis using ih q(1) own by simp
    next
      case False
      then have "r \<in> set qs" using r by simp
      then show ?thesis using ih o [OF False] by metis
    qed
  qed
  then show ?case using ih o rest l by simp
qed simp

lemma hub_ok_close:
  assumes "hub_ok w"
  shows "hub_ok (w\<lparr>hw_hub := hub_close (hw_hub w)\<rparr>)"
proof -
  let ?h = "hw_hub w"
  define h0 where "h0 = ?h\<lparr>hb_stopping := True, hb_subscribers := []\<rparr>"
  have c: "hub_close ?h = fold close_queue (hb_subscribers ?h) h0"
    by (simp add: hub_close_def h0_def close_queue_def [abs_def])
  note ok = assms[unfolded hub_ok_def Let_def]
  have d: "distinct (hb_subscribers ?h)" "\<forall>q \<in> set (hb_subscribers ?h). q < length (hb_queues h0)" using ok by (auto simp: h0_def)
  note cl = close_all [OF d, folded c]
  have "client_ok (hw_log w) False (hb_queues (hub_close ?h) ! i) (hw_clients w ! i)" if i: "i < length (hw_clients w)" for i
  proof (cases "i \<in> set (hb_subscribers ?h)")
    case True
    then have k: "client_ok (hw_log w) True (hb_queues ?h ! i) (hw_clients w ! i)" using ok i by force
    have "hb_queues (hub_close ?h) ! i \<in> {hb_queues ?h ! i, hb_queues ?h ! i @ [None]}" using cl True by (simp add: h0_def)
    then show ?thesis using client_ok_close [OF k] client_ok_unregister [OF k] by auto
  next
    case False
    then have "client_ok (hw_log w) False (hb_queues ?h ! i) (hw_clients w ! i)" using ok i by force
    then show ?thesis using cl False by (simp add: h0_def)
  qed
  then show ?thesis using ok cl by (simp add: hub_ok_def Let_def h0_def)
qed

lemma hub_step_ok: "hub_step int_of_float w w' \<Longrightarrow> hub_ok w \<Longrightarrow> hub_ok w'"
  by (induction rule: hub_step.induct)
     (simp_all add: hub_ok_publish hub_ok_connect hub_ok_receive hub_ok_leave hub_ok_close)

lemma new_world_ok: "hub_ok (new_world limit)"
  by (simp add: hub_ok_def new_world_def new_hub_def)

lemma reachable_hub_ok: "(hub_step int_of_float)\<^sup>*\<^sup>* (new_world limit) w \<Longrightarrow> hub_ok w"
  by (induction rule: rtranclp_induct) (auto intro: hub_step_ok new_world_ok)

lemma client_run:
  assumes "hub_ok w" and "q < length (hw_clients w)"
  shows "let c = hw_clients w ! q; rest = map encode_sse (drop (client_start c) (hw_log w)) in
     prefix (cl_received c) rest
     \<and> (q \<in> set (hb_subscribers (hw_hub w)) \<longrightarrow> map Some rest = map Some (cl_received c) @ hb_queues (hw_hub w) ! q)
     \<and> map ev_seq (drop (client_start c) (hw_log w)) = [Suc (client_start c)..<Suc (hb_seq (hw_hub w))]"
proof -
  note ok = assms(1) [unfolded hub_ok_def Let_def]
  let ?c = "hw_clients w ! q" and ?queue = "hb_queues (hw_hub w) ! q"
  have c: "client_ok (hw_log w) (q \<in> set (hb_subscribers (hw_hub w))) ?queue ?c" using ok assms(2) by blast
  then have pre: "prefix (cl_received ?c) (owed (hw_log w) ?c)" by (metis append_prefixD client_ok_def)
  have "map Some (owed (hw_log w) ?c) = map Some (cl_received ?c) @ ?queue" if "q \<in> set (hb_subscribers (hw_hub w))"
  proof -
    have n: "None \<notin> set ?queue" "owed (hw_log w) ?c = cl_received ?c @ queued ?queue" using c that by (simp_all add: client_ok_def)
    have "map Some (queued queue) = queue" if "None \<notin> set queue" for queue :: "string option list"
      using that
    proof (induction queue)
      case (Cons x queue)
      then show ?case by (cases x) auto
    qed simp
    then show ?thesis using n by simp
  qed
  moreover have "map ev_seq (drop (client_start ?c) (hw_log w)) = drop (client_start ?c) [1..<Suc (hb_seq (hw_hub w))]"
    using ok by (simp only: drop_map [symmetric])
  ultimately show ?thesis using pre by (simp add: owed_def Let_def)
qed

text \<open>A subscription is refused exactly when an event behind the cursor is no longer in the buffer.\<close>

lemma subscribe_refused:
  assumes "hub_ok w"
  shows "(\<exists>g. hub_subscribe (Some (int a)) (hw_hub w) = Inl g)
     \<longleftrightarrow> (\<exists>n \<in> {a<..hb_seq (hw_hub w)}. n \<notin> ev_seq ` set (hb_buffer (hw_hub w)))"
proof -
  let ?h = "hw_hub w" and ?log = "hw_log w"
  let ?m = "length ?log - hb_replay_limit ?h"
  note ok = assms [unfolded hub_ok_def Let_def]
  have len: "length ?log = hb_seq ?h" using ok by (metis diff_Suc_1 length_map length_upt One_nat_def)
  have seqs: "map ev_seq ?log = [1..<Suc (hb_seq ?h)]" and buf: "hb_buffer ?h = drop ?m ?log" using ok by blast+
  have "ev_seq ` set (hb_buffer ?h) = set (drop ?m [1..<Suc (hb_seq ?h)])"
    unfolding buf by (metis drop_map list.set_map seqs)
  then have inb: "ev_seq ` set (hb_buffer ?h) = {Suc ?m..hb_seq ?h}" by (simp add: drop_upt del: upt_Suc) auto
  have oldest: "(case hb_buffer ?h of [] \<Rightarrow> Suc (hb_seq ?h) | e # _ \<Rightarrow> ev_seq e) = Suc ?m"
  proof (cases "hb_buffer ?h")
    case Nil
    then have "length ?log \<le> ?m" using buf by simp
    then show ?thesis using Nil len by simp
  next
    case (Cons e es)
    then show ?thesis using oldest_seq [OF seqs buf] by simp
  qed
  have "(\<exists>g. hub_subscribe (Some (int a)) ?h = Inl g) \<longleftrightarrow> a < ?m"
    unfolding hub_subscribe_def Let_def option.case oldest by auto
  moreover have "(\<exists>n \<in> {a<..hb_seq ?h}. n \<notin> ev_seq ` set (hb_buffer ?h)) \<longleftrightarrow> a < ?m"
    unfolding inb using len by (auto intro!: bexI [of _ "Suc a"])
  ultimately show ?thesis by simp
qed

text \<open>C6. In every reachable state, what a client has received is an unbroken run of the published events, and while it
  is registered what it has received and what waits in its queue are together all of them: those behind its cursor, where
  the cursor is not ahead of the hub as the client connects, and those published since it connected, where it gave no
  cursor or one that is ahead. So a client whose cursor is ahead, from an earlier process, is not told that it misses the
  events published before it connected. A client whose cursor is behind is refused exactly when an event behind
  the cursor has left the buffer.\<close>

theorem client_events_exact:
  assumes "(hub_step int_of_float)\<^sup>*\<^sup>* (new_world limit) w" and "q < length (hw_clients w)"
  shows "(let c = hw_clients w ! q;
         start = (case cl_cursor c of None \<Rightarrow> cl_connected c | Some a \<Rightarrow> if nat a \<le> cl_connected c then nat a else cl_connected c);
         rest = map encode_sse (drop start (hw_log w)) in
     prefix (cl_received c) rest
     \<and> (q \<in> set (hb_subscribers (hw_hub w)) \<longrightarrow> map Some rest = map Some (cl_received c) @ hb_queues (hw_hub w) ! q)
     \<and> map ev_seq (drop start (hw_log w)) = [Suc start..<Suc (hb_seq (hw_hub w))])
     \<and> ((\<exists>g. hub_subscribe (Some (int a)) (hw_hub w) = Inl g)
     \<longleftrightarrow> (\<exists>n \<in> {a<..hb_seq (hw_hub w)}. n \<notin> ev_seq ` set (hb_buffer (hw_hub w))))"
proof (rule conjI [OF _ subscribe_refused [OF reachable_hub_ok [OF assms(1)]]])
  have "client_start c = (case cl_cursor c of None \<Rightarrow> cl_connected c | Some a \<Rightarrow> if nat a \<le> cl_connected c then nat a else cl_connected c)" for c
    by (simp add: client_start_def min_def split: option.split)
  then show "let c = hw_clients w ! q;
         start = (case cl_cursor c of None \<Rightarrow> cl_connected c | Some a \<Rightarrow> if nat a \<le> cl_connected c then nat a else cl_connected c);
         rest = map encode_sse (drop start (hw_log w)) in
     prefix (cl_received c) rest
     \<and> (q \<in> set (hb_subscribers (hw_hub w)) \<longrightarrow> map Some rest = map Some (cl_received c) @ hb_queues (hw_hub w) ! q)
     \<and> map ev_seq (drop start (hw_log w)) = [Suc start..<Suc (hb_seq (hw_hub w))]"
    using client_run [OF reachable_hub_ok [OF assms(1)] assms(2)] unfolding Let_def by simp
qed

definition example_world :: hub_world where
  "example_world = (let e = (\<lambda>s w. w\<lparr>hw_hub := hub_publish (\<lambda>_. None) ''now'' ''message'' (PStr s) (hw_hub w),
      hw_log := hw_log w @ [make_envelope (\<lambda>_. None) (Suc (hb_seq (hw_hub w))) ''now'' ''message'' (PStr s)]\<rparr>) in
     e ''b'' (e ''a'' (new_world 32)))"

lemma example_world_reachable: "(hub_step (\<lambda>_. None))\<^sup>*\<^sup>* (new_world 32) example_world"
proof -
  let ?e = "\<lambda>s w. w\<lparr>hw_hub := hub_publish (\<lambda>_. None) ''now'' ''message'' (PStr s) (hw_hub w),
      hw_log := hw_log w @ [make_envelope (\<lambda>_. None) (Suc (hb_seq (hw_hub w))) ''now'' ''message'' (PStr s)]\<rparr>"
  have "hub_step (\<lambda>_. None) w (?e s w)" for s w by (rule publish)
  then have "(hub_step (\<lambda>_. None))\<^sup>*\<^sup>* (new_world 32) (?e ''b'' (?e ''a'' (new_world 32)))"
    by (meson converse_rtranclp_into_rtranclp rtranclp.rtrancl_refl)
  then show ?thesis by (simp add: example_world_def Let_def)
qed

text \<open>A client that reconnects behind event 1.\<close>

definition example_client :: hub_client where
  "example_client = \<lparr>cl_cursor = Some 1, cl_connected = 2, cl_received = map encode_sse (drop 1 (hw_log example_world))\<rparr>"

lemma example_connect:
  "\<exists>h. hub_subscribe (Some 1) (hw_hub example_world) = Inr (h, 0, cl_received example_client) \<and> hb_queues h = [[]] \<and> hb_subscribers h = [0]
     \<and> hb_seq (hw_hub example_world) = 2"
proof -
  have "case hub_subscribe (Some 1) (hw_hub example_world) of
      Inr (h, q, replay) \<Rightarrow> q = 0 \<and> replay = cl_received example_client \<and> hb_queues h = [[]] \<and> hb_subscribers h = [0] | _ \<Rightarrow> False"
    by code_simp
  moreover have "hb_seq (hw_hub example_world) = 2" by code_simp
  ultimately show ?thesis by (auto split: sum.splits)
qed

theorem client_events_exact_witness:
  "\<exists>w. hw_clients w = [example_client] \<and> (hub_step (\<lambda>_. None))\<^sup>*\<^sup>* (new_world 32) w
     \<and> map Some (map encode_sse (drop 1 (hw_log w))) = map Some (cl_received example_client) @ hb_queues (hw_hub w) ! 0"
proof -
  obtain h where h: "hub_subscribe (Some 1) (hw_hub example_world) = Inr (h, 0, cl_received example_client)" "hb_queues h = [[]]"
    "hb_subscribers h = [0]" "hb_seq (hw_hub example_world) = 2" using example_connect by blast
  have cur: "requested_cursor ''1'' [] = Inr (Some 1)" by code_simp
  let ?w = "example_world\<lparr>hw_hub := h, hw_clients := hw_clients example_world
      @ [\<lparr>cl_cursor = Some 1, cl_connected = hb_seq (hw_hub example_world), cl_received = cl_received example_client\<rparr>]\<rparr>"
  have step: "hub_step (\<lambda>_. None) example_world ?w" by (rule connect [OF cur h(1)])
  have cl: "hw_clients ?w = [example_client]" using h(4) by (simp add: example_world_def new_world_def example_client_def Let_def)
  have reach: "(hub_step (\<lambda>_. None))\<^sup>*\<^sup>* (new_world 32) ?w"
    by (rule rtranclp.rtrancl_into_rtrancl [OF example_world_reachable step])
  have q: "0 < length (hw_clients ?w)" using cl by simp
  from client_events_exact [OF reach q] have "map Some (map encode_sse (drop 1 (hw_log ?w))) = map Some (cl_received example_client) @ hb_queues (hw_hub ?w) ! 0"
    unfolding cl by (simp add: h(3) example_client_def Let_def del: map_map)
  then show ?thesis using cl reach by blast
qed

section \<open>Where the numbering starts again\<close>

text \<open>A cursor ahead of the hub is accepted like any other: the numbering starts at 1 in each process, so a client that
  reconnects to a restarted hub with its old cursor gets no replay and no error, although the hub has published
  events the client never saw.\<close>

theorem cursor_ahead_accepted:
  assumes "hub_ok w" and "int (hb_seq (hw_hub w)) < a" and "1 \<le> hb_replay_limit (hw_hub w)"
  shows "\<exists>h q. hub_subscribe (Some a) (hw_hub w) = Inr (h, q, [])"
proof -
  let ?h = "hw_hub w"
  note ok = assms(1)[unfolded hub_ok_def Let_def]
  have seqs: "ev_seq e \<le> hb_seq ?h" if "e \<in> set (hw_log w)" for e
  proof -
    have "ev_seq e \<in> set [1..<Suc (hb_seq ?h)]" using ok that by (metis imageI list.set_map)
    then show ?thesis by auto
  qed
  have b: "ev_seq e \<le> hb_seq ?h" if "e \<in> set (hb_buffer ?h)" for e
    using ok that seqs by (metis in_set_dropD)
  let ?oldest = "case hb_buffer ?h of [] \<Rightarrow> Suc (hb_seq ?h) | e # _ \<Rightarrow> ev_seq e"
  have "?oldest \<le> Suc (hb_seq ?h)" using b by (cases "hb_buffer ?h") (auto simp: le_SucI)
  then have "\<not> a < int ?oldest - 1" using assms(2) by linarith
  moreover have "filter (\<lambda>e. a < int (ev_seq e)) (hb_buffer ?h) = []" using b assms(2) by (fastforce simp: filter_empty_conv)
  ultimately show ?thesis by (simp add: hub_subscribe_def Let_def)
qed

theorem cursor_ahead_accepted_witness:
  "\<exists>h q. hub_subscribe (Some 50) (hw_hub example_world) = Inr (h, q, []) \<and> length (hw_log example_world) = 2"
proof -
  have s: "int (hb_seq (hw_hub example_world)) < 50" "1 \<le> hb_replay_limit (hw_hub example_world)" "length (hw_log example_world) = 2" by code_simp+
  show ?thesis using cursor_ahead_accepted [OF reachable_hub_ok [OF example_world_reachable] s(1,2)] s(3) by blast
qed

section \<open>Behind the credential guard\<close>

text \<open>The hub as the credential guard installs it: its \<open>_publish\<close> gets what \<open>guarded_publish\<close> hands over.\<close>

definition guarded_hub ::
    "credential_policy \<Rightarrow> (string \<Rightarrow> int option) \<Rightarrow> string \<Rightarrow> string \<times> pyval \<Rightarrow> carry_state \<times> event_hub \<Rightarrow> carry_state \<times> event_hub" where
  "guarded_hub p int_of_float now event st =
     (case guarded_publish p event (fst st) of (carry, (event_type, source)) \<Rightarrow>
        (carry, hub_publish int_of_float now event_type source (snd st)))"

text \<open>What the hub may keep: an event whose source, data and time have no text value with a credential in them, or the guard's
  notice, whose data is constant, with the original's identity fields that have none.\<close>

definition stored_clean :: "credential_policy \<Rightarrow> envelope \<Rightarrow> bool" where
  "stored_clean p e \<longleftrightarrow>
     value_free p (ev_source_event e) \<and> value_free p (ev_data e) \<and> value_free p (ev_source_at e)
     \<or> ev_type e = ORCHESTRATION_RELEASE_BLOCK_ERROR \<and> ev_data e = block_payload BOUNDARY_ORCHESTRATION_EVENT_RELEASE
       \<and> value_free p (ev_source_at e)
       \<and> (\<exists>kept. ev_source_event e = PDict ([(''type'', PStr (ev_type e)), (''data'', ev_data e)] @ kept)
            \<and> set (map fst kept) \<subseteq> set IDENTITY_FIELDS \<and> (\<forall>(k, v) \<in> set kept. value_free p v))"

lemma field_value_free: "value_free p v \<Longrightarrow> value_free p (event_field v k)"
  by (fastforce simp: event_field_def value_free_def dict_get_def split: pyval.split option.split dest: map_of_SomeD)

lemma envelope_of_free:
  "value_free p source \<Longrightarrow> stored_clean p (make_envelope int_of_float n now event_type source)"
  using field_value_free by (simp add: stored_clean_def make_envelope_def Let_def)

lemma safe_identity_facts:
  "set (map fst (safe_identity p original)) \<subseteq> set IDENTITY_FIELDS" "\<forall>(k, v) \<in> set (safe_identity p original). value_free p v"
  by (auto simp: safe_identity_def release_value_match_def find_credential_None split: pyval.split)

lemma envelope_of_notice:
  "stored_clean p (make_envelope int_of_float n now event_type (blocked_event p original))"
proof -
  let ?kept = "safe_identity p original"
  have has: "''type'' \<notin> set (map fst ?kept)" using safe_identity_facts(1) [of p original] by (auto simp: IDENTITY_FIELDS_def)
  have "value_free p v" if "map_of ?kept k = Some v" for k v
    using safe_identity_facts(2) [of p original] map_of_SomeD [OF that] by blast
  then have "value_free p (dict_get ?kept ''at'')"
    by (auto simp: dict_get_def value_free_def split: option.split)
  moreover have "ORCHESTRATION_RELEASE_BLOCK_ERROR \<noteq> []" by (simp add: ORCHESTRATION_RELEASE_BLOCK_ERROR_def)
  ultimately show ?thesis using safe_identity_facts [of p original]
    by (simp add: stored_clean_def make_envelope_def Let_def blocked_event_def event_field_def dict_has_def dict_get_def del: set_map)
qed

lemma hub_publish_buffer:
  "hb_buffer (hub_publish int_of_float now event_type source h) =
     buffer_append (hb_replay_limit h) (make_envelope int_of_float (Suc (hb_seq h)) now event_type source) (hb_buffer h)"
proof -
  have "hb_buffer (fold (deliver s) qs h) = hb_buffer h" for s qs h
    by (induction qs arbitrary: h) simp_all
  then show ?thesis by (simp add: hub_publish_def Let_def)
qed

text \<open>C5. Every envelope in the replay buffer of the guarded hub is clean in what the guard searches: its source event, its
  data and its time hold no credential in any text value, at any depth, or it is the guard's notice, with its constant data
  and identity fields that hold none. The names of events and the keys of objects are not searched, and are
  not covered.\<close>

theorem replay_buffer_safe:
  "\<forall>e \<in> set (hb_buffer (snd (fold (\<lambda>(now, event). guarded_hub p int_of_float now event) events (carry, new_hub limit)))).
     stored_clean p e"
proof -
  have "\<forall>e \<in> set (hb_buffer (snd (fold (\<lambda>(now, event). guarded_hub p int_of_float now event) events st))). stored_clean p e"
    if "\<forall>e \<in> set (hb_buffer (snd st)). stored_clean p e" for st
    using that
  proof (induction events arbitrary: st)
    case (Cons x events)
    obtain now event_type source where x: "x = (now, event_type, source)" by (cases x)
    obtain carry' t s where g: "guarded_publish p (event_type, source) (fst st) = (carry', t, s)" by (metis prod.exhaust)
    have "stored_clean p (make_envelope int_of_float n now t s)" for n
    proof (cases rule: guarded_publish_cases [of p "fst st" source event_type])
      case (released state')
      then show ?thesis using g envelope_of_free by simp
    next
      case (blocked state')
      then show ?thesis using g envelope_of_notice by simp
    qed
    then have "\<forall>e \<in> set (hb_buffer (snd (guarded_hub p int_of_float now (event_type, source) st))). stored_clean p e"
      using Cons.prems by (auto simp: guarded_hub_def g hub_publish_buffer buffer_append_def dest: in_set_dropD)
    then show ?case using Cons.IH x by simp
  qed simp
  from this [of "(carry, new_hub limit)"] show ?thesis by (simp add: new_hub_def)
qed

definition example_events :: "(string \<times> string \<times> pyval) list" where
  "example_events = [(''now'', ''message'', PStr ''x''), (''now'', ''message'', PStr ''a SECRET'')]"

theorem replay_buffer_safe_witness:
  "\<exists>e1 e2. hb_buffer (snd (fold (\<lambda>(now, event). guarded_hub (one_credential ''SECRET'') (\<lambda>_. None) now event) example_events
       (\<lambda>_. None, new_hub 32))) = [e1, e2]
     \<and> stored_clean (one_credential ''SECRET'') e1 \<and> stored_clean (one_credential ''SECRET'') e2
     \<and> ev_source_event e2 \<noteq> PStr ''a SECRET''"
proof -
  let ?b = "hb_buffer (snd (fold (\<lambda>(now, event). guarded_hub (one_credential ''SECRET'') (\<lambda>_. None) now event) example_events
       (\<lambda>_. None, new_hub 32)))"
  have "length ?b = 2 \<and> ev_source_event (?b ! 1) \<noteq> PStr ''a SECRET''" by code_simp
  then obtain e1 e2 where b: "?b = [e1, e2]" "ev_source_event e2 \<noteq> PStr ''a SECRET''"
    by (auto simp: numeral_2_eq_2 length_Suc_conv)
  then have "stored_clean (one_credential ''SECRET'') e" if e: "e \<in> {e1, e2}" for e
    using replay_buffer_safe [of "one_credential ''SECRET''" "\<lambda>_. None" example_events "\<lambda>_. None" 32] e by auto
  then show ?thesis using b by blast
qed

text \<open>But the guard looks at the source event only: the name of the server-sent event becomes the type of an event without
  one, and a credential in it is stored and sent to every subscriber.\<close>

theorem event_name_unscanned:
  assumes "credential_free p x" and "name \<noteq> []"
  shows "map ev_type (hb_buffer (snd (guarded_hub p int_of_float now (name, PStr x) (\<lambda>_. None, new_hub 32)))) = [name]"
proof -
  have "stream_match p (\<lambda>_. None) (PStr x) = (\<lambda>_. None, None)" by (simp add: stream_match_def)
  moreover have "release_value_match p BOUNDARY_ORCHESTRATION_EVENT_RELEASE (PStr x) = None"
    using assms(1) by (simp add: release_value_match_def find_credential_None value_free_text)
  ultimately have "snd (guarded_publish p (name, PStr x) (\<lambda>_. None)) = (name, PStr x)" by (simp add: guarded_publish_def)
  then have "hb_buffer (snd (guarded_hub p int_of_float now (name, PStr x) (\<lambda>_. None, new_hub 32)))
      = [make_envelope int_of_float 1 now name (PStr x)]"
    by (simp add: guarded_hub_def case_prod_beta hub_publish_buffer buffer_append_def new_hub_def)
  then show ?thesis using assms(2) by (simp add: make_envelope_def Let_def or_text_def)
qed

theorem event_name_unscanned_witness:
  "map ev_type (hb_buffer (snd (guarded_hub (one_credential ''SECRET'') (\<lambda>_. None) ''now'' (''SECRET'', PStr ''x'') (\<lambda>_. None, new_hub 32))))
     = [''SECRET'']"
proof -
  have "credential_free (one_credential ''SECRET'') ''x''" unfolding scan_text_None [symmetric] by code_simp
  then show ?thesis by (rule event_name_unscanned) simp
qed

section \<open>The wire\<close>

text \<open>Text without a line feed.\<close>

definition one_line :: "string \<Rightarrow> bool" where
  "one_line s \<longleftrightarrow> CHR 0x0A \<notin> set s"

lemma one_line_simps [simp]: "one_line []" "one_line (s @ t) \<longleftrightarrow> one_line s \<and> one_line t" "one_line (c # s) \<longleftrightarrow> c \<noteq> CHR 0x0A \<and> one_line s"
  by (auto simp: one_line_def)

lemma digit_not_newline: "n < 10 \<Longrightarrow> digit_char n \<noteq> CHR 0x0A"
proof
  assume "n < 10" "digit_char n = CHR 0x0A"
  then have "(of_char (digit_char n) :: nat) = 10" by simp
  then show False using \<open>n < 10\<close> by (simp add: digit_char_def)
qed

lemma nat_text_one_line [simp]: "one_line (nat_text n)"
  by (induction n rule: nat_text.induct) (subst nat_text.simps, simp add: digit_not_newline)

lemma int_text_one_line [simp]: "one_line (int_text i)"
  by (simp add: int_text_def)

lemma hex_digit_not_newline: "n < 16 \<Longrightarrow> hex_digit n \<noteq> CHR 0x0A"
proof
  assume "n < 16" "hex_digit n = CHR 0x0A"
  then have "(of_char (hex_digit n) :: nat) = 10" by simp
  then show False using \<open>n < 16\<close> by (simp add: hex_digit_def split: if_splits)
qed

lemma json_escape_one_line [simp]: "one_line (json_escape c)"
proof (cases "c = CHR 0x0A")
  case False
  have "(of_char c :: nat) mod 16 < 16" "(of_char c :: nat) < 32 \<Longrightarrow> (of_char c :: nat) div 16 < 16" by simp_all
  then show ?thesis using False hex_digit_not_newline by (auto simp: json_escape_def Let_def)
qed (simp add: json_escape_def)

lemma json_str_one_line [simp]: "one_line (json_str s)"
proof -
  have "one_line (json_chars s)" by (induction s) (simp_all add: json_chars_def)
  then show ?thesis by (simp add: json_str_def)
qed







text \<open>The type is written as it is: with a line feed in it, one published event is read as two, the second of them made
  up by whoever chose the type.\<close>

theorem sse_type_injection:
  "map fst (consume_stream (\<lambda>_. None) (split_on (CHR 0x0A) (sse_text (make_envelope (\<lambda>_. None) 1 ''now''
      (''x'' @ [CHR 0x0A] @ ''data: y'' @ [CHR 0x0A, CHR 0x0A] @ ''event: task'') (PStr ''z''))))) = [''x'', ''task'']"
  by code_simp

end
