(* ===== verification/Phase7Ledger.thy ===== *)
theory Phase7Ledger
  imports AuthorityLedger DiagnosticGuard EventHub
begin

text \<open>
  \<open>jack_phase7_ledger.py\<close>: the hooks that append what the credential, diagnostic and resource guards
  withheld to the chain of \<open>jack_authority_ledger.py\<close>. A hook is a function from the result of the call
  it wraps and the ledger to the result it hands on, the ledger, and the record it made. \<open>clock\<close>
  gives the time at which the record of a sequence number is made.
\<close>

section \<open>Requests\<close>

datatype phase7_event = ProtectedCredentialMatchEvent | ProtectedCredentialResourceBlockedEvent

definition phase7_event_value :: "phase7_event \<Rightarrow> string" where
  "phase7_event_value e = (case e of
       ProtectedCredentialMatchEvent \<Rightarrow> ''PROTECTED_CREDENTIAL_MATCH''
     | ProtectedCredentialResourceBlockedEvent \<Rightarrow> ''PROTECTED_CREDENTIAL_RESOURCE_BLOCKED'')"

definition CREDENTIAL_BOUNDARIES :: "string list" where
  "CREDENTIAL_BOUNDARIES = [''model_input_dispatch'', ''model_output_release'', ''orchestration_http_release'',
     ''orchestration_event_release'', ''diagnostic_http_exception_release'', ''diagnostic_stream_exception_release'',
     ''diagnostic_log_release'', ''diagnostic_internal_state'']"

definition CREDENTIAL_DIRECTIONS :: "string list" where
  "CREDENTIAL_DIRECTIONS = [''model_bound'', ''caller_bound'', ''observer_bound'', ''host_state'']"

text \<open>The values of the classes.\<close>

definition class_value :: "credential_class \<Rightarrow> string" where
  "class_value c = (case c of
       JackApi \<Rightarrow> ''JACK_API'' | BackendBearer \<Rightarrow> ''BACKEND_BEARER'' | BackendNamedHeader \<Rightarrow> ''BACKEND_NAMED_HEADER''
     | BackendBasicPassword \<Rightarrow> ''BACKEND_BASIC_PASSWORD'' | BackendBasicWire \<Rightarrow> ''BACKEND_BASIC_WIRE''
     | BackendAuthorization \<Rightarrow> ''BACKEND_AUTHORIZATION'' | PiControl \<Rightarrow> ''PI_CONTROL'')"

definition safe_credential_id :: "pyval \<Rightarrow> string option" where
  "safe_credential_id v =
     (let text = py_strip (str_or_empty v) in
      if text = [] then None
      else if length text > 128 \<or> list_ex (\<lambda>c. \<not> (ascii_alnum c \<or> c \<in> set ''._:-'')) text then None
      else Some text)"

text \<open>\<open>str.isalnum\<close> on one character: letters, and whatever has a numeric value.\<close>

definition py_isalnum :: "char \<Rightarrow> bool" where
  "py_isalnum c = (let n = (of_char c :: nat) in
     ascii_alnum c \<or> n \<in> {0xAA, 0xB2, 0xB3, 0xB5, 0xB9, 0xBA, 0xBC, 0xBD, 0xBE}
     \<or> (0xC0 \<le> n \<and> n \<noteq> 0xD7 \<and> n \<noteq> 0xF7))"

definition safe_class :: "pyval \<Rightarrow> string option" where
  "safe_class v =
     (let text = py_strip (str_or_empty v); letters = filter (\<lambda>c. c \<noteq> CHR ''_'') text in
      if text = [] then None
      else if length text > 64 \<or> \<not> (letters \<noteq> [] \<and> list_all py_isalnum letters) then None
      else Some text)"

text \<open>A refused request carries the text of its \<open>ValueError\<close>.\<close>

definition credential_match_request :: "string \<Rightarrow> string \<Rightarrow> pyval \<Rightarrow> pyval \<Rightarrow> string \<Rightarrow> string + record_request" where
  "credential_match_request boundary direction cid cls producer =
     raise_if (boundary \<notin> set CREDENTIAL_BOUNDARIES) ''unsupported Phase-7 credential boundary''
     (raise_if (direction \<notin> set CREDENTIAL_DIRECTIONS) ''unsupported Phase-7 credential direction''
     (Inr \<lparr>rq_event = phase7_event_value ProtectedCredentialMatchEvent, rq_producer = producer,
        rq_boundary = boundary, rq_outcome = ''HARD_INTERRUPT'', rq_scope = boundary,
        rq_fact_type = ''ProtectedCredentialMatch'',
        rq_payload = [(''boundary'', PStr boundary), (''direction'', PStr direction),
          (''credential_id'', AuthorityLedger.opt_str (safe_credential_id cid)),
          (''credential_class'', AuthorityLedger.opt_str (safe_class cls))]\<rparr>))"

definition resource_block_request :: "string \<Rightarrow> string \<Rightarrow> string + record_request" where
  "resource_block_request resource_id scope =
     (case safe_credential_id (PStr resource_id) of
        None \<Rightarrow> Inl ''invalid credential resource_id''
      | Some safe_id \<Rightarrow> Inr \<lparr>rq_event = phase7_event_value ProtectedCredentialResourceBlockedEvent,
          rq_producer = ''phase7.credential_resource_gate'', rq_boundary = ''credential_resource_path'',
          rq_outcome = ''DENY_AND_CONTINUE'', rq_scope = or_text scope ''tool_call'',
          rq_fact_type = ''CredentialResourceAuthorityFact'', rq_payload = [(''resource_id'', PStr safe_id)]\<rparr>)"

section \<open>Recording\<close>

text \<open>\<open>_record_failsoft\<close>: it answers whether there is a record; here, which.\<close>

definition record_failsoft ::
    "(string \<Rightarrow> string) \<Rightarrow> (nat \<Rightarrow> string) \<Rightarrow> record_request \<Rightarrow> authority_ledger \<Rightarrow> authority_ledger \<times> authority_record option" where
  "record_failsoft sha clock rq l =
     (case advance sha (clock (lh_sequence (al_head l) + 1)) rq l of
        (l', Inr r) \<Rightarrow> (l', Some r)
      | (l', Inl (LedgerAuthorityFrozen m)) \<Rightarrow> (l', None)
      | (l', Inl e) \<Rightarrow> (freeze_authority (''Phase-7 ledger recording failure: '' @ error_name e) l', None))"

type_synonym recorded = "authority_ledger \<times> (string + authority_record option)"

definition record_requested ::
    "(string \<Rightarrow> string) \<Rightarrow> (nat \<Rightarrow> string) \<Rightarrow> string + record_request \<Rightarrow> authority_ledger \<Rightarrow> recorded" where
  "record_requested sha clock request l =
     (case request of
        Inl e \<Rightarrow> (l, Inl e)
      | Inr rq \<Rightarrow> (case record_failsoft sha clock rq l of (l', r) \<Rightarrow> (l', Inr r)))"

definition record_credential_match ::
    "(string \<Rightarrow> string) \<Rightarrow> (nat \<Rightarrow> string) \<Rightarrow> string \<Rightarrow> string \<Rightarrow> pyval \<Rightarrow> pyval \<Rightarrow> string \<Rightarrow> authority_ledger \<Rightarrow> recorded" where
  "record_credential_match sha clock boundary direction cid cls producer =
     record_requested sha clock (credential_match_request boundary direction cid cls producer)"

definition record_resource_block ::
    "(string \<Rightarrow> string) \<Rightarrow> (nat \<Rightarrow> string) \<Rightarrow> string \<Rightarrow> string \<Rightarrow> authority_ledger \<Rightarrow> recorded" where
  "record_resource_block sha clock resource_id scope = record_requested sha clock (resource_block_request resource_id scope)"

text \<open>What the governed path authorisation hands over: the Phase-6 records, and the resource block of Phase 7.\<close>

definition record_governed :: "(string \<Rightarrow> string) \<Rightarrow> (nat \<Rightarrow> string) \<Rightarrow> gate_record \<Rightarrow> authority_ledger \<Rightarrow> recorded" where
  "record_governed sha clock g l =
     (case g of
        ResourceBlockRecord resource_id scope \<Rightarrow> record_resource_block sha clock resource_id scope l
      | _ \<Rightarrow> (case record_gate sha (clock (lh_sequence (al_head l) + 1)) g l of (l', r) \<Rightarrow> (l', Inr r)))"

section \<open>Hooks\<close>

text \<open>What a hook hands on after it has recorded: the wrapped result, or its own \<open>ValueError\<close>.\<close>

definition hooked :: "(string \<Rightarrow> 'r) \<Rightarrow> 'r \<Rightarrow> recorded \<Rightarrow> 'r \<times> authority_ledger \<times> authority_record option" where
  "hooked raised result rec = (case rec of (l, Inl e) \<Rightarrow> (raised e, l, None) | (l, Inr r) \<Rightarrow> (result, l, r))"

text \<open>\<open>recorded_post\<close> and \<open>recorded_build_request\<close>.\<close>

definition recorded_transport ::
    "(string \<Rightarrow> string) \<Rightarrow> (nat \<Rightarrow> string) \<Rightarrow> credential_error + 'a \<Rightarrow> authority_ledger
       \<Rightarrow> (credential_error + 'a) \<times> authority_ledger \<times> authority_record option" where
  "recorded_transport sha clock result l =
     (case result of
        Inl (ProtectedCredentialInterrupt m) \<Rightarrow>
          hooked (\<lambda>e. Inl (CredentialValueError e)) result
            (record_credential_match sha clock (cx_boundary m) (cx_direction m) (PStr (cx_id m)) (PStr (class_value (cx_class m)))
               ''phase7.model_input'' l)
      | _ \<Rightarrow> (result, l, None))"

text \<open>What the kernel's calls raise: the canary interrupt with the id of its match, or another
  exception with its detail (\<open>PNone\<close> if it has none).\<close>

datatype kernel_raise = CanaryRaise string | OtherRaise pyval

definition detail_is_diagnostic_block :: "pyval \<Rightarrow> bool" where
  "detail_is_diagnostic_block detail =
     (case detail of PDict d \<Rightarrow> dict_get d ''error'' = PStr ''protected_credential_diagnostic_withheld'' | _ \<Rightarrow> False)"

definition record_canary ::
    "(string \<Rightarrow> string) \<Rightarrow> (nat \<Rightarrow> string) \<Rightarrow> string \<Rightarrow> 'r \<Rightarrow> (string \<Rightarrow> 'r) \<Rightarrow> authority_ledger
       \<Rightarrow> 'r \<times> authority_ledger \<times> authority_record option" where
  "record_canary sha clock canary_id result raised l =
     (if starts_with ''credential:'' canary_id then
        hooked raised result (record_credential_match sha clock ''model_output_release'' ''caller_bound'' (PStr canary_id) PNone
          ''phase7.model_output'' l)
      else (result, l, None))"

definition phase7_run ::
    "(string \<Rightarrow> string) \<Rightarrow> (nat \<Rightarrow> string) \<Rightarrow> kernel_raise + 'a \<Rightarrow> authority_ledger
       \<Rightarrow> (kernel_raise + 'a) \<times> authority_ledger \<times> authority_record option" where
  "phase7_run sha clock result l =
     (case result of
        Inl (CanaryRaise canary_id) \<Rightarrow> record_canary sha clock canary_id result (\<lambda>_. Inl (OtherRaise PNone)) l
      | _ \<Rightarrow> (result, l, None))"

text \<open>A stream's run: its chunks, and what it raised.\<close>

definition phase7_stream ::
    "(string \<Rightarrow> string) \<Rightarrow> (nat \<Rightarrow> string) \<Rightarrow> 'c list \<times> kernel_raise option \<Rightarrow> authority_ledger
       \<Rightarrow> ('c list \<times> kernel_raise option) \<times> authority_ledger \<times> authority_record option" where
  "phase7_stream sha clock run l =
     (let raised = (\<lambda>_. (fst run, Some (OtherRaise PNone))) in
      case snd run of
        None \<Rightarrow> (run, l, None)
      | Some (CanaryRaise canary_id) \<Rightarrow> record_canary sha clock canary_id run raised l
      | Some (OtherRaise detail) \<Rightarrow>
          if detail_is_diagnostic_block detail then
            hooked raised run (record_credential_match sha clock ''diagnostic_stream_exception_release'' ''caller_bound'' PNone PNone
              ''phase7.diagnostic_stream'' l)
          else (run, l, None))"

text \<open>\<open>recorded_handler\<close>: \<open>loads\<close> decodes and parses a body; a response without one is \<open>None\<close>.\<close>

definition body_detail :: "(string \<Rightarrow> pyval option) \<Rightarrow> string option \<Rightarrow> pyval" where
  "body_detail loads body =
     (case Option.bind body loads of Some (PDict d) \<Rightarrow> dict_get d ''detail'' | _ \<Rightarrow> PNone)"

definition recorded_handler ::
    "(string \<Rightarrow> pyval option) \<Rightarrow> (string \<Rightarrow> string) \<Rightarrow> (nat \<Rightarrow> string) \<Rightarrow> string option \<Rightarrow> authority_ledger
       \<Rightarrow> (string + string option) \<times> authority_ledger \<times> authority_record option" where
  "recorded_handler loads sha clock body l =
     (if detail_is_diagnostic_block (body_detail loads body) then
        hooked Inl (Inr body) (record_credential_match sha clock ''diagnostic_http_exception_release'' ''caller_bound'' PNone PNone
          ''phase7.diagnostic_http'' l)
      else (Inr body, l, None))"

definition response_is_orchestration_block :: "(string \<Rightarrow> pyval option) \<Rightarrow> string option \<Rightarrow> bool" where
  "response_is_orchestration_block loads body =
     (case Option.bind body loads of
        Some (PDict d) \<Rightarrow> dict_get d ''error'' = PStr ''orchestration_credential_release_blocked''
      | _ \<Rightarrow> False)"

definition recorded_proxy ::
    "(string \<Rightarrow> pyval option) \<Rightarrow> (string \<Rightarrow> string) \<Rightarrow> (nat \<Rightarrow> string) \<Rightarrow> string option \<Rightarrow> authority_ledger
       \<Rightarrow> (string + string option) \<times> authority_ledger \<times> authority_record option" where
  "recorded_proxy loads sha clock body l =
     (if response_is_orchestration_block loads body then
        hooked Inl (Inr body) (record_credential_match sha clock ''orchestration_http_release'' ''caller_bound'' PNone PNone
          ''phase7.orchestration_http'' l)
      else (Inr body, l, None))"

text \<open>\<open>recorded_publish\<close>: the hub, the highest number already looked at, and the ledger.\<close>

fun record_blocked_events ::
    "(string \<Rightarrow> string) \<Rightarrow> (nat \<Rightarrow> string) \<Rightarrow> envelope list \<Rightarrow> authority_ledger
       \<Rightarrow> string option \<times> authority_ledger \<times> authority_record list" where
  "record_blocked_events sha clock [] l = (None, l, [])"
| "record_blocked_events sha clock (e # es) l =
     (if ev_type e = ''orchestration_credential_release_blocked'' then
        (case record_credential_match sha clock ''orchestration_event_release'' ''caller_bound'' PNone PNone
             ''phase7.orchestration_event'' l of
           (l', Inl err) \<Rightarrow> (Some err, l', [])
         | (l', Inr r) \<Rightarrow>
             (case record_blocked_events sha clock es l' of
                (err, l'', rs) \<Rightarrow> (err, l'', (case r of None \<Rightarrow> rs | Some x \<Rightarrow> x # rs))))
      else record_blocked_events sha clock es l)"

definition recorded_publish ::
    "(string \<Rightarrow> string) \<Rightarrow> (nat \<Rightarrow> string) \<Rightarrow> (event_hub \<Rightarrow> event_hub) \<Rightarrow> event_hub \<times> nat \<times> authority_ledger
       \<Rightarrow> string option \<times> (event_hub \<times> nat \<times> authority_ledger) \<times> authority_record list" where
  "recorded_publish sha clock publish st =
     (case st of (h, last_recorded, l) \<Rightarrow>
       (let h' = publish h;
            events = filter (\<lambda>e. last_recorded < ev_seq e) (hb_buffer h');
            seen = (if events = [] then last_recorded else fold max (map ev_seq events) 0) in
        case record_blocked_events sha clock events l of (err, l', rs) \<Rightarrow> (err, (h', seen, l'), rs)))"

text \<open>\<open>recorded_setattr\<close> around the setter it found.\<close>

definition recorded_setattr ::
    "(string \<Rightarrow> string) \<Rightarrow> (nat \<Rightarrow> string) \<Rightarrow> credential_policy \<Rightarrow> string \<Rightarrow> pyval \<Rightarrow> 'a \<Rightarrow> authority_ledger
       \<Rightarrow> (string + 'a) \<times> authority_ledger \<times> authority_record option" where
  "recorded_setattr sha clock p name v attrs l =
     (if name = ''_last_error'' \<and> v \<noteq> PNone then
        (case find_credential p ''diagnostic_internal_state'' ''host_state'' v of
           None \<Rightarrow> (Inr attrs, l, None)
         | Some m \<Rightarrow>
             hooked Inl (Inr attrs) (record_credential_match sha clock ''diagnostic_internal_state'' ''host_state''
               (PStr (cx_id m)) (PStr (class_value (cx_class m))) ''phase7.diagnostic_state'' l))
      else (Inr attrs, l, None))"

text \<open>\<open>ledger_filter\<close>: the registry maps the number of a policy object to the number of its ledger.\<close>

definition ledger_filter ::
    "(string \<Rightarrow> string) \<Rightarrow> (nat \<Rightarrow> string) \<Rightarrow> log_policies \<Rightarrow> exception_node list \<Rightarrow> (nat \<rightharpoonup> nat) \<Rightarrow> log_record \<Rightarrow> (nat \<Rightarrow> authority_ledger)
       \<Rightarrow> (string + log_record) \<times> (nat \<Rightarrow> authority_ledger) \<times> authority_record option" where
  "ledger_filter sha clock ps es registry r ledgers =
     (let result = filter_log ps es r in
      case Option.bind (log_match ps (log_material es r)) (\<lambda>(i, p). registry i) of
        None \<Rightarrow> (Inr result, ledgers, None)
      | Some k \<Rightarrow>
          (case hooked Inl (Inr result) (record_credential_match sha clock ''diagnostic_log_release'' ''observer_bound'' PNone PNone
               ''phase7.diagnostic_log'' (ledgers k)) of
             (result', l, rec) \<Rightarrow> (result', ledgers(k := l), rec)))"

section \<open>Installation\<close>

text \<open>A seam that is missing or cannot be called, or one with the ledger whose hook it carries.\<close>

datatype seam = NoSeam | Seam "nat option"

definition hook :: "nat \<Rightarrow> seam \<Rightarrow> seam" where
  "hook k s = (case s of NoSeam \<Rightarrow> NoSeam | Seam None \<Rightarrow> Seam (Some k) | Seam (Some k') \<Rightarrow> Seam (Some k'))"

record phase7_host =
  ph_installed :: bool
  ph_client :: bool
  ph_post :: seam
  ph_build :: seam
  ph_kernel :: bool
  ph_run :: seam
  ph_stream :: seam
  ph_handler :: seam
  ph_proxy :: seam
  ph_publish :: seam
  ph_setattr :: seam
  ph_log_hook :: bool
  ph_registry :: "nat \<rightharpoonup> nat"
  ph_manifest_callable :: bool
  ph_manifest :: "string list"

definition phase7_identity :: "string \<Rightarrow> string \<Rightarrow> string \<times> string" where
  "phase7_identity runtime_id lane_id = (py_strip runtime_id, py_strip lane_id)"

definition install_transport_hooks :: "nat \<Rightarrow> phase7_host \<Rightarrow> phase7_host" where
  "install_transport_hooks k h =
     (if ph_client h then h\<lparr>ph_post := hook k (ph_post h), ph_build := hook k (ph_build h)\<rparr> else h)"

definition install_kernel_hooks :: "nat \<Rightarrow> phase7_host \<Rightarrow> string + phase7_host" where
  "install_kernel_hooks k h =
     (if \<not> ph_kernel h then Inl ''Phase-7 ledger requires Jack KERNEL''
      else if ph_run h = NoSeam \<or> ph_stream h = NoSeam then Inl ''Phase-7 ledger requires Kernel release seams''
      else Inr (h\<lparr>ph_run := hook k (ph_run h), ph_stream := hook k (ph_stream h)\<rparr>))"

definition install_other_hooks :: "nat \<Rightarrow> phase7_host \<Rightarrow> phase7_host" where
  "install_other_hooks k h =
     h\<lparr>ph_handler := hook k (ph_handler h), ph_proxy := hook k (ph_proxy h), ph_publish := hook k (ph_publish h),
       ph_setattr := hook k (ph_setattr h), ph_log_hook := True\<rparr>"

text \<open>\<open>install\<close>: a failure leaves what was bound before it. \<open>k\<close> and \<open>pk\<close> are the ledger and policy objects.\<close>

definition install_phase7 ::
    "nat \<times> authority_ledger \<Rightarrow> nat \<times> credential_policy \<Rightarrow> phase7_host \<Rightarrow> phase7_host \<times> (string + unit)" where
  "install_phase7 ledger policy h =
     (case (ledger, policy) of ((k, l), (pk, p)) \<Rightarrow>
       if ph_installed h then (h, Inr ())
       else if phase7_identity (al_runtime_id l) (al_lane_id l) \<noteq> phase7_identity (cg_runtime_id p) (cg_lane_id p) then
         (h, Inl ''Phase-7 ledger/credential policy ownership mismatch'')
       else if ph_registry h pk \<notin> {None, Some k} then
         (h, Inl ''Phase-7 credential policy cannot bind two ledgers'')
       else
         (let h1 = install_transport_hooks k (h\<lparr>ph_registry := (ph_registry h)(pk \<mapsto> k)\<rparr>) in
          case install_kernel_hooks k h1 of
            Inl e \<Rightarrow> (h1, Inl e)
          | Inr h2 \<Rightarrow>
              ((install_other_hooks k h2)\<lparr>ph_installed := True,
                 ph_manifest := (if ph_manifest_callable h2 then ph_manifest h2 @ [''jack_phase7_ledger.py''] else ph_manifest h2)\<rparr>,
               Inr ())))"

end
