(* ===== verification/Phase7Properties.thy ===== *)
theory Phase7Properties
  imports Phase7Ledger LedgerChain EventHubProperties
begin

text \<open>
  What the Phase-7 hooks leave in the chain: they change no result, keep the chain's invariant, and
  each credential that was withheld is one record; the numbers of the hub make the record of a
  published notice unique.
\<close>

section \<open>Recording and the chain\<close>

lemma record_failsoft_safe:
  "record_failsoft sha clock rq l = safe_record sha (clock (lh_sequence (al_head l) + 1)) (Inr rq) l"
proof (cases "advance sha (clock (lh_sequence (al_head l) + 1)) rq l")
  case (Pair l' x)
  show ?thesis
  proof (cases x)
    case (Inl e)
    then show ?thesis using advance_Inl(1) Pair by (fastforce simp: record_failsoft_def safe_record_def)
  qed (use Pair in \<open>simp add: record_failsoft_def safe_record_def\<close>)
qed

definition made :: "string + authority_record option \<Rightarrow> authority_record list" where
  "made r = (case r of Inr (Some x) \<Rightarrow> [x] | _ \<Rightarrow> [])"

text \<open>The records of a hook are records of the chain.\<close>

lemma record_requested_reachable:
  assumes "ledger_reachable sha (l, dk, log)" and "record_requested sha clock request l = (l', r)"
  shows "ledger_reachable sha (l', dk, log @ made r)"
proof (cases request)
  case (Inl e)
  then show ?thesis using assms by (auto simp: record_requested_def made_def)
next
  case (Inr rq)
  obtain l1 x where s: "safe_record sha (clock (lh_sequence (al_head l) + 1)) (Inr rq) l = (l1, x)" by (rule prod.exhaust)
  have "l' = l1" "r = Inr x" using assms(2) s by (simp_all add: record_requested_def record_failsoft_safe Inr)
  moreover have "log @ made (Inr x) = log @ (case x of None \<Rightarrow> [] | Some y \<Rightarrow> [y])" by (simp add: made_def split: option.split)
  ultimately show ?thesis using reach_step [OF assms(1) step_record [OF s]] by simp
qed

text \<open>While the ledger is not frozen, a request is a record, and the next one is possible.\<close>

lemma record_requested_made:
  assumes "ledger_reachable sha (l, dk, log)" and "\<not> al_frozen l" and "\<And>b. digest_shape (sha b)"
  obtains l' r where "record_requested sha clock (Inr rq) l = (l', Inr (Some r))" and "ar_request r = rq" and "\<not> al_frozen l'"
    and "ledger_reachable sha (l', dk, log @ [r])"
proof -
  let ?now = "clock (lh_sequence (al_head l) + 1)"
  obtain l' r where a: "advance sha ?now rq l = (l', Inr r)"
    using advance_ready [OF assms(2) reachable_head_valid [OF assms(1,3)]] by blast
  then have rec: "record_requested sha clock (Inr rq) l = (l', Inr (Some r))"
    by (simp add: record_requested_def record_failsoft_def)
  have "ar_request r = rq" using advance_Inr(3) [OF a] by (simp add: next_record_def Let_def)
  moreover have "\<not> al_frozen l'" using advance_Inr(1,4) [OF a] by (simp add: move_head_def Let_def)
  ultimately show thesis using that rec record_requested_reachable [OF assms(1) rec] by (simp add: made_def)
qed

definition match_record_request :: "string \<Rightarrow> string \<Rightarrow> pyval \<Rightarrow> pyval \<Rightarrow> string \<Rightarrow> record_request" where
  "match_record_request boundary direction cid cls producer =
     \<lparr>rq_event = ''PROTECTED_CREDENTIAL_MATCH'', rq_producer = producer, rq_boundary = boundary, rq_outcome = ''HARD_INTERRUPT'',
      rq_scope = boundary, rq_fact_type = ''ProtectedCredentialMatch'',
      rq_payload = [(''boundary'', PStr boundary), (''direction'', PStr direction),
        (''credential_id'', AuthorityLedger.opt_str (safe_credential_id cid)), (''credential_class'', AuthorityLedger.opt_str (safe_class cls))]\<rparr>"

lemma credential_match_request_Inr:
  assumes "boundary \<in> set CREDENTIAL_BOUNDARIES" and "direction \<in> set CREDENTIAL_DIRECTIONS"
  shows "credential_match_request boundary direction cid cls producer = Inr (match_record_request boundary direction cid cls producer)"
  using assms by (simp add: credential_match_request_def match_record_request_def raise_if_def phase7_event_value_def)

lemma record_match_Inr:
  assumes "boundary \<in> set CREDENTIAL_BOUNDARIES" and "direction \<in> set CREDENTIAL_DIRECTIONS"
  shows "\<exists>l' r. record_credential_match sha clock boundary direction cid cls producer l = (l', Inr r)"
  by (simp add: record_credential_match_def credential_match_request_Inr [OF assms] record_requested_def split: prod.split)

lemma hooked_result:
  assumes "boundary \<in> set CREDENTIAL_BOUNDARIES" and "direction \<in> set CREDENTIAL_DIRECTIONS"
  shows "fst (hooked raised result (record_credential_match sha clock boundary direction cid cls producer l)) = result"
  using record_match_Inr [OF assms, of sha clock cid cls producer l] by (auto simp: hooked_def)

lemma boundaries [simp]:
  "''model_input_dispatch'' \<in> set CREDENTIAL_BOUNDARIES" "''model_output_release'' \<in> set CREDENTIAL_BOUNDARIES"
  "''orchestration_http_release'' \<in> set CREDENTIAL_BOUNDARIES" "''orchestration_event_release'' \<in> set CREDENTIAL_BOUNDARIES"
  "''diagnostic_http_exception_release'' \<in> set CREDENTIAL_BOUNDARIES" "''diagnostic_stream_exception_release'' \<in> set CREDENTIAL_BOUNDARIES"
  "''diagnostic_log_release'' \<in> set CREDENTIAL_BOUNDARIES" "''diagnostic_internal_state'' \<in> set CREDENTIAL_BOUNDARIES"
  "''model_bound'' \<in> set CREDENTIAL_DIRECTIONS" "''caller_bound'' \<in> set CREDENTIAL_DIRECTIONS"
  "''observer_bound'' \<in> set CREDENTIAL_DIRECTIONS" "''host_state'' \<in> set CREDENTIAL_DIRECTIONS"
  by (simp_all add: CREDENTIAL_BOUNDARIES_def CREDENTIAL_DIRECTIONS_def)

section \<open>No result changes\<close>

lemma record_canary_result: "fst (record_canary sha clock canary_id result raised l) = result"
  by (simp add: record_canary_def hooked_result)

lemma record_blocked_events_result: "fst (record_blocked_events sha clock es l) = None"
proof (induction es arbitrary: l)
  case (Cons e es)
  obtain l' r where "record_credential_match sha clock ''orchestration_event_release'' ''caller_bound'' PNone PNone ''phase7.orchestration_event'' l = (l', Inr r)"
    using record_match_Inr [of "''orchestration_event_release''" "''caller_bound''"] by fastforce
  then show ?case using Cons.IH [of l] Cons.IH [of l'] by (simp add: case_prod_beta)
qed simp

text \<open>Recording changes no disposition: whatever the state of the ledger, also when it is frozen, a call of the
  kernel, a stream, an error handler, the proxy, the hub's publishing and its attributes and the log filter end
  exactly as without the hook.\<close>

theorem hooks_transparent:
  "fst (phase7_run sha clock result l) = result
   \<and> fst (phase7_stream sha clock run l) = run
   \<and> fst (recorded_handler loads sha clock body l) = Inr body
   \<and> fst (recorded_proxy loads sha clock body l) = Inr body
   \<and> fst (recorded_publish sha clock publish (h, n, l)) = None
   \<and> fst (fst (snd (recorded_publish sha clock publish (h, n, l)))) = publish h
   \<and> fst (recorded_setattr sha clock p name v attrs l) = Inr attrs
   \<and> fst (ledger_filter sha clock ps es registry r ledgers) = Inr (filter_log ps es r)"
proof (intro conjI)
  show "fst (phase7_run sha clock result l) = result"
    by (simp add: phase7_run_def record_canary_result split: sum.split kernel_raise.split)
  show "fst (phase7_stream sha clock run l) = run"
    by (simp add: phase7_stream_def Let_def record_canary_result hooked_result split: option.split kernel_raise.split)
  show "fst (recorded_handler loads sha clock body l) = Inr body" by (simp add: recorded_handler_def hooked_result)
  show "fst (recorded_proxy loads sha clock body l) = Inr body" by (simp add: recorded_proxy_def hooked_result)
  show "fst (recorded_publish sha clock publish (h, n, l)) = None"
    "fst (fst (snd (recorded_publish sha clock publish (h, n, l)))) = publish h"
    using record_blocked_events_result by (auto simp: recorded_publish_def Let_def case_prod_beta)
  show "fst (recorded_setattr sha clock p name v attrs l) = Inr attrs"
    by (simp add: recorded_setattr_def hooked_result split: option.split)
  show "fst (ledger_filter sha clock ps es registry r ledgers) = Inr (filter_log ps es r)"
    by (simp add: ledger_filter_def Let_def case_prod_beta hooked_result split: option.split)
qed

section \<open>A blocked dispatch is a record\<close>

lemma guarded_call_Inl: "guarded_call check ps = Inl e \<Longrightarrow> \<exists>p \<in> set ps. check p = Inl e"
  by (induction ps) (auto simp: try_bind_def split: sum.splits)

lemma dispatch_match:
  assumes "client_post h args kwargs = Inl (ProtectedCredentialInterrupt m) \<or> client_build_request h args kwargs = Inl (ProtectedCredentialInterrupt m)"
  shows "cx_boundary m = ''model_input_dispatch'' \<and> cx_direction m = ''model_bound''"
proof -
  have pay: "cx_boundary m = ''model_input_dispatch'' \<and> cx_direction m = ''model_bound''"
    if "guard_model_payload p v = Inl (ProtectedCredentialInterrupt m)" for p v
    using that by (auto simp: guard_model_payload_def find_credential_def match_for_def
        BOUNDARY_MODEL_INPUT_DISPATCH_def DIRECTION_MODEL_BOUND_def split: option.splits)
  have "cx_boundary m = ''model_input_dispatch'' \<and> cx_direction m = ''model_bound''"
    if "guard_post_call p args kwargs = Inl (ProtectedCredentialInterrupt m) \<or> guard_build_request_call p args kwargs = Inl (ProtectedCredentialInterrupt m)" for p
    using that pay by (auto simp: guard_post_call_def guard_build_request_call_def guard_payload_argument_def Let_def split: if_splits)
  then show ?thesis using assms guarded_call_Inl unfolding client_post_def client_build_request_def by metis
qed

lemma transport_transparent:
  assumes "result \<in> {client_post h args kwargs, client_build_request h args kwargs}"
  shows "fst (recorded_transport sha clock result l) = result"
proof (cases "\<exists>m. result = Inl (ProtectedCredentialInterrupt m)")
  case True
  then obtain m where m: "result = Inl (ProtectedCredentialInterrupt m)" by blast
  then have "cx_boundary m = ''model_input_dispatch''" "cx_direction m = ''model_bound''" using assms dispatch_match [of h args kwargs m] by auto
  then show ?thesis by (simp add: m recorded_transport_def hooked_result)
qed (auto simp: recorded_transport_def split: sum.split credential_error.split)

text \<open>C9. Through either seam of the client, the plain call and the request that is built for a stream, the hook hands on what the
  credential guard answered, an interrupt included. A dispatch that the guard interrupts leaves exactly one record while the ledger is
  not frozen, with the boundary, the direction and the identity of the credential, and later calls can be recorded
  too; on a frozen ledger it leaves none, and a dispatch that passes leaves none.\<close>

theorem interrupted_dispatch_recorded:
  assumes "result = client_post h args kwargs \<or> result = client_build_request h args kwargs"
    and "ledger_reachable sha (l, dk, log)" and "\<And>b. digest_shape (sha b)"
  shows "\<exists>l' made. recorded_transport sha clock result l = (result, l', made)
     \<and> ledger_reachable sha (l', dk, log @ (case made of None \<Rightarrow> [] | Some r \<Rightarrow> [r])) \<and> al_frozen l' = al_frozen l
     \<and> (case result of
          Inl (ProtectedCredentialInterrupt m) \<Rightarrow>
            if al_frozen l then made = None
            else \<exists>r. made = Some r \<and> ar_request r = match_record_request ''model_input_dispatch'' ''model_bound''
                 (PStr (cx_id m)) (PStr (class_value (cx_class m))) ''phase7.model_input''
        | _ \<Rightarrow> made = None \<and> l' = l)"
proof (cases "\<exists>m. result = Inl (ProtectedCredentialInterrupt m)")
  case True
  then obtain m where m: "result = Inl (ProtectedCredentialInterrupt m)" by blast
  then have b: "cx_boundary m = ''model_input_dispatch''" "cx_direction m = ''model_bound''" using assms(1) dispatch_match [of h args kwargs m] by auto
  let ?rq = "match_record_request ''model_input_dispatch'' ''model_bound'' (PStr (cx_id m)) (PStr (class_value (cx_class m))) ''phase7.model_input''"
  have hook: "recorded_transport sha clock result l = hooked (\<lambda>e. Inl (CredentialValueError e)) result (record_requested sha clock (Inr ?rq) l)"
    by (simp add: m recorded_transport_def b record_credential_match_def credential_match_request_Inr)
  show ?thesis
  proof (cases "al_frozen l")
    case True
    then have "record_requested sha clock (Inr ?rq) l = (l, Inr None)"
      by (simp add: record_requested_def record_failsoft_def advance_def)
    then show ?thesis using assms(2) True unfolding hook by (auto simp: hooked_def m)
  next
    case False
    obtain l' r where r: "record_requested sha clock (Inr ?rq) l = (l', Inr (Some r))" "ar_request r = ?rq" "\<not> al_frozen l'"
      "ledger_reachable sha (l', dk, log @ [r])"
      using record_requested_made [OF assms(2) False assms(3)] by metis
    have "recorded_transport sha clock result l = (result, l', Some r)" unfolding hook r(1) by (simp add: hooked_def)
    then show ?thesis
      by (intro exI [of _ l'] exI [of _ "Some r"]) (use r False in \<open>simp add: m\<close>)
  qed
next
  case False
  then have "recorded_transport sha clock result l = (result, l, None)"
    by (auto simp: recorded_transport_def split: sum.split credential_error.split)
  then show ?thesis using False assms(2) by (auto split: sum.split credential_error.split)
qed

section \<open>One record for one notice\<close>

definition notice_request :: record_request where
  "notice_request = match_record_request ''orchestration_event_release'' ''caller_bound'' PNone PNone ''phase7.orchestration_event''"

definition is_notice :: "envelope \<Rightarrow> bool" where
  "is_notice e \<longleftrightarrow> ev_type e = ORCHESTRATION_RELEASE_BLOCK_ERROR"

lemma record_blocked_events_made:
  assumes "ledger_reachable sha (l, dk, log)" and "\<not> al_frozen l" and "\<And>b. digest_shape (sha b)"
  shows "\<exists>l' rs. record_blocked_events sha clock es l = (None, l', rs) \<and> \<not> al_frozen l' \<and> ledger_reachable sha (l', dk, log @ rs)
     \<and> map ar_request rs = map (\<lambda>_. notice_request) (filter is_notice es)"
  using assms(1,2)
proof (induction es arbitrary: l log)
  case (Cons e es)
  show ?case
  proof (cases "is_notice e")
    case False
    then show ?thesis using Cons.IH [OF Cons.prems] by (simp add: is_notice_def ORCHESTRATION_RELEASE_BLOCK_ERROR_def)
  next
    case True
    obtain l1 r where r: "record_requested sha clock (Inr notice_request) l = (l1, Inr (Some r))" "ar_request r = notice_request"
      "\<not> al_frozen l1" "ledger_reachable sha (l1, dk, log @ [r])"
      using record_requested_made [OF Cons.prems assms(3)] by metis
    obtain l' rs where es: "record_blocked_events sha clock es l1 = (None, l', rs)" "\<not> al_frozen l'"
      "ledger_reachable sha (l', dk, (log @ [r]) @ rs)" "map ar_request rs = map (\<lambda>_. notice_request) (filter is_notice es)"
      using Cons.IH [OF r(4,3)] by blast
    have "record_blocked_events sha clock (e # es) l = (None, l', r # rs)"
      using True r(1) es(1) by (simp add: is_notice_def ORCHESTRATION_RELEASE_BLOCK_ERROR_def record_credential_match_def
          credential_match_request_Inr notice_request_def)
    then show ?thesis using True es r(2) by simp
  qed
qed simp

text \<open>The hub behind the credential guard and the hook: each event is guarded, published and looked at.\<close>

fun publish_recorded ::
    "(string \<Rightarrow> string) \<Rightarrow> (nat \<Rightarrow> string) \<Rightarrow> credential_policy \<Rightarrow> (string \<Rightarrow> int option) \<Rightarrow> (string \<times> string \<times> pyval) list
       \<Rightarrow> carry_state \<times> event_hub \<times> nat \<times> authority_ledger \<Rightarrow> (event_hub \<times> nat \<times> authority_ledger) \<times> authority_record list" where
  "publish_recorded sha clock p iof [] st = (snd st, [])"
| "publish_recorded sha clock p iof ((now, event) # events) st =
     (case recorded_publish sha clock (\<lambda>h. snd (guarded_hub p iof now event (fst st, h))) (snd st) of
        (_, st', rs) \<Rightarrow>
          (case publish_recorded sha clock p iof events (fst (guarded_publish p event (fst st)), st') of
             (st'', rs') \<Rightarrow> (st'', rs @ rs')))"

text \<open>The hook has looked at everything in the buffer.\<close>

definition looked_at :: "event_hub \<Rightarrow> nat \<Rightarrow> bool" where
  "looked_at h n \<longleftrightarrow> n = hb_seq h \<and> 1 \<le> hb_replay_limit h \<and> (\<forall>e \<in> set (hb_buffer h). ev_seq e \<le> n)"

lemma hub_publish_fields [simp]:
  "hb_seq (hub_publish iof now t s h) = Suc (hb_seq h)" "hb_replay_limit (hub_publish iof now t s h) = hb_replay_limit h"
proof -
  have "hb_seq (fold (deliver x) qs h) = hb_seq h" "hb_replay_limit (fold (deliver x) qs h) = hb_replay_limit h" for x qs h
    by (induction qs arbitrary: h) (simp_all add: deliver_def unsubscribe_def)
  then show "hb_seq (hub_publish iof now t s h) = Suc (hb_seq h)" "hb_replay_limit (hub_publish iof now t s h) = hb_replay_limit h"
    by (simp_all add: hub_publish_def Let_def)
qed

lemma publish_news:
  assumes "looked_at h n"
  shows "filter (\<lambda>e. n < ev_seq e) (hb_buffer (hub_publish iof now t s h)) = [make_envelope iof (Suc n) now t s]"
    and "looked_at (hub_publish iof now t s h) (Suc n)"
proof -
  let ?e = "make_envelope iof (Suc n) now t s"
  have e: "ev_seq ?e = Suc n" by (simp add: make_envelope_def Let_def)
  have buf: "hb_buffer (hub_publish iof now t s h) = drop (Suc (length (hb_buffer h)) - hb_replay_limit h) (hb_buffer h) @ [?e]"
    using assms by (simp add: hub_publish_buffer buffer_append_def looked_at_def)
  have old: "\<forall>x \<in> set (drop k (hb_buffer h)). ev_seq x \<le> n" for k
    using assms by (auto simp: looked_at_def dest: in_set_dropD)
  have "filter (\<lambda>x. n < ev_seq x) (drop k (hb_buffer h)) = []" for k using old by (simp add: filter_empty_conv not_less)
  then show "filter (\<lambda>x. n < ev_seq x) (hb_buffer (hub_publish iof now t s h)) = [?e]" by (simp add: buf e)
  have "\<forall>x \<in> set (hb_buffer (hub_publish iof now t s h)). ev_seq x \<le> Suc n" using old by (fastforce simp: buf e)
  then show "looked_at (hub_publish iof now t s h) (Suc n)" using assms by (simp add: looked_at_def)
qed

lemma recorded_publish_one:
  assumes "looked_at h n" and "ledger_reachable sha (l, dk, log)" and "\<not> al_frozen l" and "\<And>b. digest_shape (sha b)"
  shows "\<exists>l' rs. recorded_publish sha clock (hub_publish iof now t s) (h, n, l) = (None, (hub_publish iof now t s h, Suc n, l'), rs)
     \<and> \<not> al_frozen l' \<and> ledger_reachable sha (l', dk, log @ rs)
     \<and> map ar_request rs = (if is_notice (make_envelope iof 0 now t s) then [notice_request] else [])"
proof -
  have n: "is_notice (make_envelope iof (Suc n) now t s) = is_notice (make_envelope iof 0 now t s)"
    by (simp add: is_notice_def make_envelope_def Let_def)
  obtain l' rs where r: "record_blocked_events sha clock [make_envelope iof (Suc n) now t s] l = (None, l', rs)" "\<not> al_frozen l'"
    "ledger_reachable sha (l', dk, log @ rs)"
    "map ar_request rs = map (\<lambda>_. notice_request) (filter is_notice [make_envelope iof (Suc n) now t s])"
    using record_blocked_events_made [OF assms(2,3,4)] by metis
  have seq: "ev_seq (make_envelope iof (Suc n) now t s) = Suc n" by (simp add: make_envelope_def Let_def)
  have "recorded_publish sha clock (hub_publish iof now t s) (h, n, l) = (None, (hub_publish iof now t s h, Suc n, l'), rs)"
    unfolding recorded_publish_def prod.case publish_news(1) [OF assms(1)] Let_def r(1) by (simp add: seq)
  then show ?thesis using r(2,3,4) n by (simp split: if_splits)
qed

text \<open>C8. Behind the credential guard each notice the hub publishes is exactly one record of the chain, in the order of the
  events, and nothing else is recorded for them, over every sequence of events and however short the replay buffer is.\<close>

theorem notices_recorded_once:
  assumes "1 \<le> limit" and "ledger_reachable sha (l, dk, log)" and "\<not> al_frozen l" and "\<And>b. digest_shape (sha b)"
  shows "\<exists>h' n' l' rs. publish_recorded sha clock p iof events (carry, new_hub limit, 0, l) = ((h', n', l'), rs)
     \<and> ledger_reachable sha (l', dk, log @ rs) \<and> n' = length events
     \<and> map ar_request rs = map (\<lambda>_. notice_request)
         (filter (\<lambda>(t, s). is_notice (make_envelope iof 0 [] t s)) (snd (publish_all p (map snd events) carry)))"
proof -
  have "\<exists>h' n' l' rs. publish_recorded sha clock p iof events (carry, h, n, l) = ((h', n', l'), rs)
     \<and> ledger_reachable sha (l', dk, log @ rs) \<and> n' = n + length events
     \<and> map ar_request rs = map (\<lambda>_. notice_request)
         (filter (\<lambda>(t, s). is_notice (make_envelope iof 0 [] t s)) (snd (publish_all p (map snd events) carry)))"
    if "looked_at h n" "ledger_reachable sha (l, dk, log)" "\<not> al_frozen l" for h n
    using that
  proof (induction events arbitrary: carry h n l log)
    case (Cons x events)
    obtain now event where x: "x = (now, event)" by (cases x)
    obtain carry' t s where g: "guarded_publish p event carry = (carry', t, s)" by (metis prod.exhaust)
    have hub: "(\<lambda>h. snd (guarded_hub p iof now event (carry, h))) = hub_publish iof now t s"
      by (simp add: guarded_hub_def g)
    obtain l1 rs1 where one: "recorded_publish sha clock (hub_publish iof now t s) (h, n, l) = (None, (hub_publish iof now t s h, Suc n, l1), rs1)"
      "\<not> al_frozen l1" "ledger_reachable sha (l1, dk, log @ rs1)"
      "map ar_request rs1 = (if is_notice (make_envelope iof 0 now t s) then [notice_request] else [])"
      using recorded_publish_one [OF Cons.prems assms(4)] by metis
    obtain h' l' rs where rest: "publish_recorded sha clock p iof events (carry', hub_publish iof now t s h, Suc n, l1) = ((h', Suc n + length events, l'), rs)"
      "ledger_reachable sha (l', dk, (log @ rs1) @ rs)"
      "map ar_request rs = map (\<lambda>_. notice_request)
         (filter (\<lambda>(t, s). is_notice (make_envelope iof 0 [] t s)) (snd (publish_all p (map snd events) carry')))"
      using Cons.IH [OF publish_news(2) [OF Cons.prems(1)] one(3,2)] by metis
    have type: "is_notice (make_envelope iof 0 now t s) = is_notice (make_envelope iof 0 [] t s)"
      by (simp add: is_notice_def make_envelope_def Let_def)
    have "publish_recorded sha clock p iof (x # events) (carry, h, n, l) = ((h', Suc n + length events, l'), rs1 @ rs)"
      using one(1) rest(1) by (simp add: x hub g)
    moreover have "snd (publish_all p (map snd (x # events)) carry) = (t, s) # snd (publish_all p (map snd events) carry')"
      by (simp add: x g split: prod.split)
    moreover have "map ar_request (rs1 @ rs) = map (\<lambda>_. notice_request)
         (filter (\<lambda>(t, s). is_notice (make_envelope iof 0 [] t s)) ((t, s) # snd (publish_all p (map snd events) carry')))"
      using rest(3) one(4) type by simp
    moreover have "ledger_reachable sha (l', dk, log @ rs1 @ rs)" using rest(2) by simp
    ultimately show ?case
      by (intro exI [of _ h'] exI [of _ "Suc n + length events"] exI [of _ l'] exI [of _ "rs1 @ rs"] conjI) (simp_all only: list.size add_Suc_right add_Suc add_0_right plus_1_eq_Suc)
  qed simp
  moreover have "looked_at (new_hub limit) 0" using assms(1) by (simp add: looked_at_def new_hub_def)
  ultimately show ?thesis using assms(2,3) by (metis add_0)
qed

section \<open>What is recorded without a match\<close>

text \<open>The hook looks at the type of an event only: an event of the control bridge that bears the notice's type is
  recorded as a credential match, although the guard has found nothing in it.\<close>

lemma foreign_notice_recorded:
  "let e = (''message'', PDict [(''type'', PStr ''orchestration_credential_release_blocked''), (''data'', PStr ''x'')]) in
     snd (publish_all (one_credential ''SECRET'') [e] (\<lambda>_. None)) = [e] \<and> is_notice (make_envelope (\<lambda>_. None) 0 [] (fst e) (snd e))"
  by code_simp

text \<open>The same holds of a proxied response whose body is an object with the notice's error.\<close>

lemma foreign_error_recorded:
  "response_is_orchestration_block (\<lambda>_. Some (PDict [(''error'', PStr ''orchestration_credential_release_blocked'')])) (Some ''x'')"
  by code_simp

section \<open>Witnesses\<close>

text \<open>A host whose client is guarded, and a ledger on which the hook records.\<close>

definition phase7_client :: credential_host where
  "phase7_client = example_credential_host\<lparr>ch_post_guards := [one_credential ''SECRET'']\<rparr>"

definition secret_call :: pydict where
  "secret_call = [(''json'', PDict [(''messages'', PList [PStr ''the SECRET''])])]"

theorem interrupted_dispatch_recorded_witness:
  "\<exists>m l' r. client_post phase7_client [PStr ''http://h/v1/chat/completions''] secret_call = Inl (ProtectedCredentialInterrupt m)
     \<and> ledger_reachable zero_sha (l', \<lparr>dk_files = [], dk_head = None\<rparr>, [r])
     \<and> rq_payload (ar_request r) = [(''boundary'', PStr ''model_input_dispatch''), (''direction'', PStr ''model_bound''),
          (''credential_id'', PStr ''credential:jack-api''), (''credential_class'', PStr ''JACK_API'')]"
proof -
  let ?post = "client_post phase7_client [PStr ''http://h/v1/chat/completions''] secret_call"
  let ?m = "match_for ''model_input_dispatch'' ''model_bound'' (hd (cg_credentials (one_credential ''SECRET'')))"
  have "guard_post_call (one_credential ''SECRET'') [PStr ''http://h/v1/chat/completions''] secret_call = Inl (ProtectedCredentialInterrupt ?m)"
    by code_simp
  then have post: "?post = Inl (ProtectedCredentialInterrupt ?m)" by (simp add: client_post_def phase7_client_def try_bind_def)
  have safe: "safe_credential_id (PStr ''credential:jack-api'') = Some ''credential:jack-api''" "safe_class (PStr ''JACK_API'') = Some ''JACK_API''"
    by code_simp+
  have ids: "cx_id ?m = ''credential:jack-api''" "class_value (cx_class ?m) = ''JACK_API''" by code_simp+
  obtain l' r where r: "ledger_reachable zero_sha (l', \<lparr>dk_files = [], dk_head = None\<rparr>, [] @ [r])"
    "ar_request r = match_record_request ''model_input_dispatch'' ''model_bound'' (PStr (cx_id ?m)) (PStr (class_value (cx_class ?m)))
         ''phase7.model_input''"
    using interrupted_dispatch_recorded [OF disjI1 [OF refl] example_reachable zero_sha_shape, where h = phase7_client
        and args = "[PStr ''http://h/v1/chat/completions'']" and kwargs = secret_call and clock = "\<lambda>_. ''now''"] example_unfrozen unfolding post by auto
  have "rq_payload (ar_request r) = [(''boundary'', PStr ''model_input_dispatch''), (''direction'', PStr ''model_bound''),
          (''credential_id'', PStr ''credential:jack-api''), (''credential_class'', PStr ''JACK_API'')]"
    unfolding r(2) ids match_record_request_def safe by (simp add: AuthorityLedger.opt_str_def)
  then show ?thesis using post r(1) by (metis append_Nil)
qed

theorem notices_recorded_once_witness:
  "\<exists>h' n' l' r. publish_recorded zero_sha (\<lambda>_. ''now'') (one_credential ''SECRET'') (\<lambda>_. None) example_events
       (\<lambda>_. None, new_hub 1, 0, example_ledger) = ((h', n', l'), [r])
     \<and> ledger_reachable zero_sha (l', \<lparr>dk_files = [], dk_head = None\<rparr>, [r]) \<and> ar_request r = notice_request"
proof -
  have "length (filter (\<lambda>(t, s). is_notice (make_envelope (\<lambda>_. None) 0 [] t s))
      (snd (publish_all (one_credential ''SECRET'') (map snd example_events) (\<lambda>_. None)))) = 1" by code_simp
  then obtain e where e: "filter (\<lambda>(t, s). is_notice (make_envelope (\<lambda>_. None) 0 [] t s))
      (snd (publish_all (one_credential ''SECRET'') (map snd example_events) (\<lambda>_. None))) = [e]"
    by (auto simp: length_Suc_conv)
  have "\<exists>h' n' l' rs. publish_recorded zero_sha (\<lambda>_. ''now'') (one_credential ''SECRET'') (\<lambda>_. None) example_events
       (\<lambda>_. None, new_hub 1, 0, example_ledger) = ((h', n', l'), rs)
     \<and> ledger_reachable zero_sha (l', \<lparr>dk_files = [], dk_head = None\<rparr>, [] @ rs) \<and> n' = length example_events
     \<and> map ar_request rs = map (\<lambda>_. notice_request) [e]"
    unfolding e [symmetric] by (rule notices_recorded_once [OF _ example_reachable example_unfrozen zero_sha_shape]) simp
  then show ?thesis by (auto simp: map_eq_Cons_conv)
qed

section \<open>Installation\<close>

definition hooked_seam :: "seam \<Rightarrow> bool" where
  "hooked_seam s \<longleftrightarrow> s \<noteq> Seam None"

lemma hook_hooked [simp]: "hooked_seam (hook k s)"
  by (simp add: hooked_seam_def hook_def split: seam.split option.split)

lemma hook_twice [simp]: "hook k (hook k' s) = hook k' s"
  by (simp add: hook_def split: seam.split option.split)





end
