(* ===== verification/DeepReasoning.thy ===== *)
theory DeepReasoning
  imports DeepContext
begin

text \<open>
  \<open>jack_deep_reasoning_orchestrator.py\<close>: the stage machine of a deep-reasoning turn. The backend is the
  sequence of its answers: the answer to the request number \<open>n\<close> is \<open>b n\<close>, whatever it was asked, so a
  property of every sequence is one of every backend. The requests sent so far are a list.
\<close>

section \<open>Stages and prompts\<close>

datatype stage = Thesis | Antithesis | Synthesis

definition stage_name :: "stage \<Rightarrow> string" where
  "stage_name s = (case s of Thesis \<Rightarrow> ''thesis'' | Antithesis \<Rightarrow> ''antithesis'' | Synthesis \<Rightarrow> ''synthesis'')"

definition prompt_name :: "stage \<Rightarrow> string" where
  "prompt_name s = (case s of Thesis \<Rightarrow> ''ULTRA_STAGE1_THESIS_PROMPT'' | Antithesis \<Rightarrow> ''ULTRA_STAGE2_ANTITHESIS_PROMPT''
     | Synthesis \<Rightarrow> ''ULTRA_STAGE3_SYNTHESIS_PROMPT'')"

definition V6_PROMPT_HASHES :: "(string \<times> string) list" where
  "V6_PROMPT_HASHES =
     [(''ULTRA_STAGE1_THESIS_PROMPT'', ''b1552c9fa6398ed0b8c45e5e1119a0e10bf198e8d621c8f8e7beb0813400cae4''),
      (''ULTRA_STAGE2_ANTITHESIS_PROMPT'', ''54c470e77f0c67dce134b00e2b9117bbd7d58dfd39fcdd8e960cf281eda59c21''),
      (''ULTRA_STAGE3_SYNTHESIS_PROMPT'', ''a507ab1934ae62970ef6911b4625d4180fe4aeece9fa2b16ef93476cbeb560cb'')]"

text \<open>\<open>load_exact_v6_prompts\<close> on the document in the file; \<open>sha\<close> maps bytes to the hexadecimal digest.\<close>

definition load_exact_v6_prompts :: "(string \<Rightarrow> string) \<Rightarrow> pydict \<Rightarrow> reasoning_error + pydict" where
  "load_exact_v6_prompts sha document =
     try_map (\<lambda>(name, expected).
       case dict_get document name of
         PStr val \<Rightarrow> if sha (utf8 val) = expected then Inr (name, PStr val)
           else Inl (ProjectionValueError (''TAS v6 prompt missing or changed: '' @ name))
       | _ \<Rightarrow> Inl (ProjectionValueError (''TAS v6 prompt missing or changed: '' @ name))) V6_PROMPT_HASHES"

record orchestrator =
  do_prompts :: pydict
  do_tools :: "pyval list"
  do_max_rounds :: "nat option"
  do_preserve :: bool

definition new_orchestrator :: "pydict \<Rightarrow> pyval list \<Rightarrow> int option \<Rightarrow> bool \<Rightarrow> reasoning_error + orchestrator" where
  "new_orchestrator prompts tools max_rounds preserve =
     raise_if (case max_rounds of None \<Rightarrow> False | Some m \<Rightarrow> m < 1)
       (ProjectionValueError ''max_tool_rounds must be a positive integer or None'')
     (raise_if (list_ex (\<lambda>s. case dict_get prompts (prompt_name s) of PStr t \<Rightarrow> py_strip t = [] | _ \<Rightarrow> True) [Thesis, Antithesis, Synthesis])
       (ProjectionValueError ''three nonempty TAS v6 prompts required'')
     (Inr \<lparr>do_prompts = prompts, do_tools = tools, do_max_rounds = map_option nat max_rounds, do_preserve = preserve\<rparr>))"

section \<open>State\<close>

text \<open>An entry of the evidence, and a file named by a tool call.\<close>

record receipt =
  rc_stage :: stage
  rc_call_id :: pyval
  rc_tool_name :: pyval
  rc_arguments :: string
  rc_arguments_total :: nat
  rc_raw :: string
  rc_sha :: string
  rc_raw_total :: nat

record locator =
  lc_stage :: stage
  lc_tool :: pyval
  lc_path :: string

definition receipt_dict :: "receipt \<Rightarrow> pydict" where
  "receipt_dict r =
     [(''stage'', PStr (stage_name (rc_stage r))), (''tool_call_id'', rc_call_id r), (''tool_name'', rc_tool_name r),
      (''arguments'', PStr (rc_arguments r)), (''arguments_total_chars'', PInt (int (rc_arguments_total r))),
      (''arguments_truncated'', PBool (rc_arguments_total r > length (rc_arguments r))),
      (''raw_result'', PStr (rc_raw r)), (''raw_result_sha256'', PStr (rc_sha r)),
      (''raw_result_total_chars'', PInt (int (rc_raw_total r))),
      (''raw_result_truncated'', PBool (rc_raw_total r > length (rc_raw r))),
      (''origin'', PStr ''external_tool_result_not_authenticated_by_phase2''), (''methodology_verified'', PBool False)]"

definition locator_dict :: "locator \<Rightarrow> pydict" where
  "locator_dict l = [(''stage'', PStr (stage_name (lc_stage l))), (''tool_name'', lc_tool l), (''path'', PStr (lc_path l)),
     (''tool_result_received'', PBool True)]"

record session =
  ds_request :: string
  ds_stage :: stage
  ds_messages :: "pydict list"
  ds_thesis :: string
  ds_history :: "pydict list"
  ds_findings :: string
  ds_evidence :: "receipt list"
  ds_artifacts :: "locator list"
  ds_outstanding :: "pydict list"
  ds_tool_rounds :: nat
  ds_generation :: nat
  ds_first_verified :: bool
  ds_verification_required :: bool
  ds_closed :: bool

record pending_request =
  pr_stage :: stage
  pr_calls :: "pydict list"
  pr_generation :: nat
  pr_native :: string

record completed_answer =
  ca_answer :: string
  ca_reasoning :: string
  ca_thesis :: string
  ca_findings :: string
  ca_evidence :: "receipt list"

datatype outcome = Pending pending_request | Completed completed_answer

record backend_request =
  br_stage :: stage
  br_system :: pyval
  br_messages :: "pydict list"
  br_temperature :: string
  br_effort :: string
  br_tools :: "pyval list"
  br_choice :: string

type_synonym backend = "nat \<Rightarrow> reasoning_error + pyval"

section \<open>Reading an answer\<close>

definition answer_reasoning :: "pydict \<Rightarrow> string" where
  "answer_reasoning answer =
     (case List.map_filter (\<lambda>k. case dict_get answer k of PStr s \<Rightarrow> if s = [] then None else Some s | _ \<Rightarrow> None)
         [''reasoning_content'', ''reasoning'', ''thinking''] of s # _ \<Rightarrow> s | [] \<Rightarrow> [])"

definition visible_content :: "pydict \<Rightarrow> string option" where
  "visible_content answer = (case dict_get answer ''content'' of PStr s \<Rightarrow> if py_strip s = [] then None else Some s | _ \<Rightarrow> None)"

definition answer_content :: "pydict \<Rightarrow> stage \<Rightarrow> reasoning_error + string" where
  "answer_content answer s =
     (case visible_content answer of
        Some content \<Rightarrow> Inr content
      | None \<Rightarrow> Inl (ProtocolError (stage_name s @ '' stopped without a visible answer (backend_finish_reason=''
          @ (if truthy (dict_get answer ''_tas_finish_reason'') then py_str (dict_get answer ''_tas_finish_reason'') else ''unknown'')
          @ '', native_reasoning_chars='' @ nat_text (length (answer_reasoning answer)) @ '', completion_tokens=''
          @ (case dict_get answer ''_tas_completion_tokens'' of
               PInt i \<Rightarrow> int_text i | PBool b \<Rightarrow> py_str (PBool b) | _ \<Rightarrow> ''unknown'') @ '')'')))"

definition mapping_of :: "pyval \<Rightarrow> pydict option" where
  "mapping_of v = (case v of PDict d \<Rightarrow> Some d | _ \<Rightarrow> None)"

definition well_formed_call :: "pydict \<Rightarrow> bool" where
  "well_formed_call c = (case dict_get c ''function'' of PDict f \<Rightarrow> is_str (dict_get f ''name'') | _ \<Rightarrow> False)"

definition answer_calls :: "pydict \<Rightarrow> reasoning_error + pydict list" where
  "answer_calls answer =
     (case dict_get answer ''tool_calls'' of
        PList vs \<Rightarrow>
          (let calls = List.map_filter mapping_of vs in
           raise_if (length calls \<noteq> length vs \<or> \<not> nonempty_ids calls) (ProtocolError ''tool calls require unique, nonempty IDs'')
           (raise_if (\<not> list_all well_formed_call calls) (ProtocolError ''malformed function tool call'')
           (Inr calls)))
      | v \<Rightarrow> if truthy v then Inl (ProtocolError ''tool_calls must be a structured list'') else Inr [])"

section \<open>A model call\<close>

definition request_for :: "orchestrator \<Rightarrow> session \<Rightarrow> string \<Rightarrow> backend_request" where
  "request_for o' s choice = \<lparr>br_stage = ds_stage s, br_system = dict_get (do_prompts o') (prompt_name (ds_stage s)),
     br_messages = ds_messages s, br_temperature = (if ds_stage s = Thesis then ''1.0'' else ''0.5''),
     br_effort = (if ds_stage s = Antithesis then ''medium'' else ''xhigh''), br_tools = do_tools o', br_choice = choice\<rparr>"

definition generate :: "orchestrator \<Rightarrow> backend \<Rightarrow> session \<Rightarrow> string \<Rightarrow> backend_request list \<Rightarrow> backend_request list \<times> (reasoning_error + pydict)" where
  "generate o' b s choice sent =
     (sent @ [request_for o' s choice],
      (case b (length sent) of
         Inl e \<Rightarrow> Inl e
       | Inr (PDict answer) \<Rightarrow> Inr answer
       | Inr _ \<Rightarrow> Inl (ProtocolError ''backend returned no structured response'')))"

text \<open>One attempt: the calls and the answer, unless it was cut at the token limit.\<close>

definition attempt ::
    "orchestrator \<Rightarrow> backend \<Rightarrow> session \<Rightarrow> string \<Rightarrow> string \<Rightarrow> backend_request list \<Rightarrow> backend_request list \<times> (reasoning_error + pydict list \<times> pydict)" where
  "attempt o' b s choice ending sent =
     (case generate o' b s choice sent of (sent', r) \<Rightarrow>
       (sent', try_bind r (\<lambda>answer. try_bind (answer_calls answer) (\<lambda>calls.
          raise_if (dict_get answer ''_tas_finish_reason'' = PStr ''length'')
            (ProtocolError (stage_name (ds_stage s) @ '' backend generation truncated at token limit'' @ ending))
          (Inr (calls, answer))))))"

text \<open>An answer with neither a call nor visible text is asked for once more.\<close>

definition stage_answer ::
    "orchestrator \<Rightarrow> backend \<Rightarrow> session \<Rightarrow> string \<Rightarrow> backend_request list \<Rightarrow> backend_request list \<times> (reasoning_error + pydict list \<times> pydict)" where
  "stage_answer o' b s choice sent =
     (case attempt o' b s choice ''; refusing to accept an incomplete stage or tool proposal'' sent of
        (sent', Inl e) \<Rightarrow> (sent', Inl e)
      | (sent', Inr (calls, answer)) \<Rightarrow>
          if calls = [] \<and> visible_content answer = None then attempt o' b s choice '' on retry; refusing incomplete stage output'' sent'
          else (sent', Inr (calls, answer)))"

section \<open>The stage machine\<close>

definition budget_spent :: "orchestrator \<Rightarrow> session \<Rightarrow> bool" where
  "budget_spent o' s = (case do_max_rounds o' of None \<Rightarrow> False | Some m \<Rightarrow> m \<le> ds_tool_rounds s)"

definition budget_error :: "orchestrator \<Rightarrow> session \<Rightarrow> reasoning_error" where
  "budget_error o' s = ProtocolError (''configured '' @ stage_name (ds_stage s) @ '' tool round budget exceeded (''
     @ (case do_max_rounds o' of None \<Rightarrow> ''None'' | Some m \<Rightarrow> nat_text m) @ '' rounds)'')"

definition issue_calls :: "orchestrator \<Rightarrow> pydict list \<Rightarrow> pydict \<Rightarrow> session \<Rightarrow> reasoning_error + session \<times> outcome" where
  "issue_calls o' calls answer s =
     (if budget_spent o' s then Inl (budget_error o' s)
      else Inr (s\<lparr>ds_outstanding := calls, ds_generation := ds_generation s + 1\<rparr>,
        Pending \<lparr>pr_stage = ds_stage s, pr_calls = calls, pr_generation = ds_generation s + 1,
          pr_native = (if do_preserve o' then answer_reasoning answer else [])\<rparr>))"

definition enter_antithesis :: "string \<Rightarrow> session \<Rightarrow> reasoning_error + session" where
  "enter_antithesis thesis s =
     try_bind (antithesis_messages (ds_request s) thesis (ds_history s) (map locator_dict (ds_artifacts s))) (\<lambda>messages.
       Inr (s\<lparr>ds_thesis := thesis, ds_stage := Antithesis, ds_tool_rounds := 0, ds_messages := messages\<rparr>))"

definition enter_synthesis :: "string \<Rightarrow> session \<Rightarrow> reasoning_error + session" where
  "enter_synthesis findings s =
     try_bind (synthesis_messages (ds_request s) (ds_thesis s) findings (ds_history s)
         (map receipt_dict (ds_evidence s)) (map locator_dict (ds_artifacts s))) (\<lambda>messages.
       Inr (s\<lparr>ds_findings := findings, ds_stage := Synthesis, ds_tool_rounds := 0, ds_messages := messages\<rparr>))"

definition complete :: "string \<Rightarrow> pydict \<Rightarrow> session \<Rightarrow> session \<times> outcome" where
  "complete answer_text answer s =
     (s\<lparr>ds_closed := True, ds_messages := [], ds_history := [], ds_evidence := [], ds_artifacts := []\<rparr>,
      Completed \<lparr>ca_answer = answer_text, ca_reasoning = answer_reasoning answer, ca_thesis = ds_thesis s,
        ca_findings = ds_findings s, ca_evidence = ds_evidence s\<rparr>)"

fun stage_rank :: "stage \<Rightarrow> nat" where
  "stage_rank Thesis = 2" | "stage_rank Antithesis = 1" | "stage_rank Synthesis = 0"

lemma enter_antithesis_stage: "enter_antithesis thesis s = Inr s' \<Longrightarrow> ds_stage s' = Antithesis"
  by (auto simp: enter_antithesis_def try_bind_Inr_iff)

lemma enter_synthesis_stage: "enter_synthesis findings s = Inr s' \<Longrightarrow> ds_stage s' = Synthesis"
  by (auto simp: enter_synthesis_def try_bind_Inr_iff)

text \<open>\<open>_advance\<close>: it ends because each call of itself is in a later stage.\<close>

function advance_stage ::
    "orchestrator \<Rightarrow> backend \<Rightarrow> string \<Rightarrow> bool \<Rightarrow> session \<Rightarrow> backend_request list
       \<Rightarrow> backend_request list \<times> (reasoning_error + session \<times> outcome)" where
  "advance_stage o' b choice verification s sent =
     (if ds_closed s then (sent, Inl (ProtocolError ''closed session cannot advance''))
      else (case stage_answer o' b s choice sent of
          (sent', Inl e) \<Rightarrow> (sent', Inl e)
        | (sent', Inr (calls, answer)) \<Rightarrow>
            if calls \<noteq> [] then (sent', issue_calls o' calls answer s)
            else if ds_stage s = Thesis then
              (case try_bind (answer_content answer Thesis) (\<lambda>thesis. enter_antithesis thesis s) of
                 Inl e \<Rightarrow> (sent', Inl e)
               | Inr s' \<Rightarrow>
                   advance_stage o' b (if ds_verification_required s then ''required'' else ''auto'') (ds_verification_required s) s' sent')
            else if ds_stage s = Antithesis then
              (if verification then (sent', Inl (ProtocolError ''first Antithesis response did not contain a required structured tool call''))
               else (case try_bind (answer_content answer Antithesis) (\<lambda>findings. enter_synthesis findings s) of
                   Inl e \<Rightarrow> (sent', Inl e)
                 | Inr s' \<Rightarrow> advance_stage o' b ''auto'' False s' sent'))
            else (sent', try_bind (answer_content answer Synthesis) (\<lambda>text. Inr (complete text answer s)))))"
  by pat_completeness auto
termination
  by (relation "measure (\<lambda>(o', b, choice, verification, s, sent). stage_rank (ds_stage s))")
    (auto simp: try_bind_Inr_iff enter_antithesis_stage enter_synthesis_stage)

declare advance_stage.simps [simp del]

definition new_session :: "string \<Rightarrow> pydict list \<Rightarrow> pydict list \<Rightarrow> bool \<Rightarrow> session" where
  "new_session request messages history verification =
     \<lparr>ds_request = request, ds_stage = Thesis, ds_messages = messages, ds_thesis = [], ds_history = history, ds_findings = [],
      ds_evidence = [], ds_artifacts = [], ds_outstanding = [], ds_tool_rounds = 0, ds_generation = 0,
      ds_first_verified = False, ds_verification_required = verification, ds_closed = False\<rparr>"

definition start ::
    "orchestrator \<Rightarrow> backend \<Rightarrow> string \<Rightarrow> pyval list \<Rightarrow> completed_synthesis option \<Rightarrow> bool \<Rightarrow> bool \<Rightarrow> backend_request list
       \<Rightarrow> backend_request list \<times> (reasoning_error + session \<times> outcome)" where
  "start o' b request visible prior preserve_thinking verification sent =
     (if verification \<and> do_tools o' = [] then
        (sent, Inl (ProtocolError ''Tool-first verification requires authorized tools; no tools supplied''))
      else (case try_bind (next_thesis_messages request visible prior preserve_thinking) (\<lambda>messages.
          try_bind (safe_visible_history (map PDict (butlast messages))) (\<lambda>history.
            Inr (new_session request messages history verification))) of
          Inl e \<Rightarrow> (sent, Inl e)
        | Inr s \<Rightarrow> advance_stage o' b ''auto'' False s sent))"

section \<open>Tool results\<close>

definition MAX_EVIDENCE_CHARS :: nat where
  "MAX_EVIDENCE_CHARS = 131072"

definition MAX_ARTIFACT_CHARS :: nat where
  "MAX_ARTIFACT_CHARS = 16384"

definition FILE_TOOL_NAMES :: "string list" where
  "FILE_TOOL_NAMES = [''read'', ''edit'', ''write'', ''read_file'', ''write_file'', ''apply_patch'', ''patch'']"

definition FILE_PATH_KEYS :: "string list" where
  "FILE_PATH_KEYS = [''path'', ''file_path'', ''filename'', ''target_file'', ''relative_path'', ''file'']"

definition call_field :: "pydict \<Rightarrow> string \<Rightarrow> pyval" where
  "call_field c k = (case dict_get c ''function'' of PDict f \<Rightarrow> dict_get f k | _ \<Rightarrow> PNone)"

definition locator_path :: "pydict \<Rightarrow> string option" where
  "locator_path args =
     (case List.map_filter (\<lambda>k. case dict_get args k of
          PStr s \<Rightarrow> if 0 < length s \<and> length s \<le> 512 \<and> py_strip s \<noteq> [] \<and> list_all (\<lambda>c. c \<notin> {CHR 0x0D, CHR 0x0A, CHR 0x00}) s
                  then Some s else None
        | _ \<Rightarrow> None) FILE_PATH_KEYS of
        s # _ \<Rightarrow> Some s | [] \<Rightarrow> None)"

definition tool_target_locator :: "(string \<Rightarrow> pyval option) \<Rightarrow> stage \<Rightarrow> pydict \<Rightarrow> locator option" where
  "tool_target_locator loads s call =
     (if call_field call ''name'' \<notin> PStr ` set FILE_TOOL_NAMES then None
      else Option.bind
        (case call_field call ''arguments'' of
           PStr raw \<Rightarrow> Option.bind (loads raw) mapping_of
         | PDict d \<Rightarrow> Some d
         | _ \<Rightarrow> None)
        (\<lambda>args. map_option (\<lambda>path. \<lparr>lc_stage = s, lc_tool = call_field call ''name'', lc_path = path\<rparr>) (locator_path args)))"

definition add_receipt :: "(string \<Rightarrow> string) \<Rightarrow> stage \<Rightarrow> pydict list \<Rightarrow> pydict \<Rightarrow> receipt list \<Rightarrow> receipt list" where
  "add_receipt sha s results c evidence =
     (let content = (case find (\<lambda>r. dict_get r ''tool_call_id'' = dict_get c ''id'') results of
              Some r \<Rightarrow> (case dict_get r ''content'' of PStr t \<Rightarrow> t | _ \<Rightarrow> []) | None \<Rightarrow> []);
          used = sum_list (map (\<lambda>e. length (rc_raw e)) evidence);
          arguments = (case call_field c ''arguments'' of PStr a \<Rightarrow> a | v \<Rightarrow> spaced_text v) in
      evidence @ [\<lparr>rc_stage = s, rc_call_id = dict_get c ''id'', rc_tool_name = call_field c ''name'',
        rc_arguments = take 4096 arguments, rc_arguments_total = length arguments,
        rc_raw = take (MAX_EVIDENCE_CHARS - used) content, rc_sha = sha (utf8 content), rc_raw_total = length content\<rparr>])"

definition add_locator :: "(string \<Rightarrow> pyval option) \<Rightarrow> stage \<Rightarrow> pydict \<Rightarrow> locator list \<Rightarrow> locator list" where
  "add_locator loads s c artifacts =
     (case tool_target_locator loads s c of
        None \<Rightarrow> artifacts
      | Some l \<Rightarrow> filter (\<lambda>r. (lc_stage r, lc_path r) \<noteq> (lc_stage l, lc_path l)) artifacts @ [l])"

definition artifact_chars :: "locator list \<Rightarrow> nat" where
  "artifact_chars ls = sum_list (map (\<lambda>l. length (lc_path l) + 96) ls)"

fun trim_artifacts :: "locator list \<Rightarrow> locator list" where
  "trim_artifacts [] = []"
| "trim_artifacts (l # ls) = (if artifact_chars (l # ls) > MAX_ARTIFACT_CHARS then trim_artifacts ls else l # ls)"

definition projection_text :: "reasoning_error \<Rightarrow> string" where
  "projection_text e = (case e of
       ProtocolError t \<Rightarrow> t | ProjectionValueError t \<Rightarrow> t | BackendError t \<Rightarrow> t
     | ProjectionTypeError t \<Rightarrow> ''unhashable type: '' @ [CHR 0x27] @ t @ [CHR 0x27])"

text \<open>The session once the results are in.\<close>

definition take_results ::
    "(string \<Rightarrow> pyval option) \<Rightarrow> (string \<Rightarrow> string) \<Rightarrow> pydict list \<Rightarrow> pydict list \<Rightarrow> pydict list \<Rightarrow> session \<Rightarrow> session" where
  "take_results loads sha messages calls results s =
     s\<lparr>ds_messages := messages,
       ds_evidence := fold (add_receipt sha (ds_stage s) results) calls (ds_evidence s),
       ds_artifacts := trim_artifacts (fold (add_locator loads (ds_stage s)) calls (ds_artifacts s)),
       ds_tool_rounds := ds_tool_rounds s + 1, ds_outstanding := [], ds_generation := ds_generation s + 1,
       ds_first_verified := (ds_first_verified s \<or> ds_stage s = Antithesis)\<rparr>"

text \<open>\<open>resume\<close>: whatever is raised, the session is as it was.\<close>

definition resume ::
    "orchestrator \<Rightarrow> backend \<Rightarrow> (string \<Rightarrow> pyval option) \<Rightarrow> (string \<Rightarrow> string) \<Rightarrow> pending_request \<Rightarrow> pydict list \<Rightarrow> session
       \<Rightarrow> backend_request list \<Rightarrow> backend_request list \<times> session \<times> (reasoning_error + outcome)" where
  "resume o' b loads sha pending results s sent =
     (if ds_closed s \<or> ds_stage s \<noteq> pr_stage pending \<or> ds_outstanding s \<noteq> pr_calls pending \<or> ds_generation s \<noteq> pr_generation pending then
        (sent, s, Inl (ProtocolError ''stale, mutated, or mismatched tool continuation''))
      else if budget_spent o' s then (sent, s, Inl (budget_error o' s))
      else (case append_stage_local_tool_results (ds_messages s) (pr_calls pending) results (pr_native pending) (do_preserve o') of
          Inl e \<Rightarrow> (sent, s, Inl (ProtocolError (''invalid tool result linkage: '' @ projection_text e)))
        | Inr messages \<Rightarrow>
            (case advance_stage o' b ''auto'' False (take_results loads sha messages (pr_calls pending) results s) sent of
               (sent', Inl e) \<Rightarrow> (sent', s, Inl e)
             | (sent', Inr (s', out)) \<Rightarrow> (sent', s', Inr out))))"

end
