(* ===== verification/DeepProperties.thy ===== *)
theory DeepProperties
  imports DeepReasoning
begin

text \<open>
  What a deep-reasoning turn keeps: the native reasoning of a stage reaches no later stage, an answer
  under required verification rests on a tool result of Antithesis, the evidence and the locators
  stay in their budgets, and a tool continuation is taken up once.
\<close>

section \<open>Native reasoning stays in its stage\<close>

text \<open>What is left of a dict without the native reasoning fields.\<close>

definition visible :: "pydict \<Rightarrow> pydict" where
  "visible m = filter (\<lambda>(k, v). k \<notin> set NATIVE_REASONING_FIELDS) m"

lemma visible_get: "k \<notin> set NATIVE_REASONING_FIELDS \<Longrightarrow> dict_get (visible m) k = dict_get m k"
proof -
  assume "k \<notin> set NATIVE_REASONING_FIELDS"
  then have "map_of (visible m) k = map_of m k" by (induction m) (auto simp: visible_def)
  then show ?thesis by (simp add: dict_get_def)
qed

lemma visible_same:
  assumes "visible a = visible a'" and "k \<notin> set NATIVE_REASONING_FIELDS"
  shows "dict_get a k = dict_get a' k"
  using visible_get [OF assms(2)] assms(1) by metis

lemma visible_idem [simp]: "visible (visible m) = visible m"
  by (simp add: visible_def)

lemma native_keys [simp]:
  "''content'' \<notin> set NATIVE_REASONING_FIELDS" "''tool_calls'' \<notin> set NATIVE_REASONING_FIELDS" "''role'' \<notin> set NATIVE_REASONING_FIELDS"
  "''_tas_finish_reason'' \<notin> set NATIVE_REASONING_FIELDS"
  by (simp_all add: NATIVE_REASONING_FIELDS_def)

lemma visible_reading:
  assumes "visible a = visible a'"
  shows "answer_calls a = answer_calls a'" and "visible_content a = visible_content a'"
    and "dict_get a ''_tas_finish_reason'' = dict_get a' ''_tas_finish_reason''"
  using visible_same [OF assms] by (simp_all add: answer_calls_def visible_content_def)

text \<open>Two backends whose answers differ in native reasoning only.\<close>

definition same_visible :: "backend \<Rightarrow> backend \<Rightarrow> bool" where
  "same_visible b b' \<longleftrightarrow> (\<forall>n. b n = b' n \<or> (\<exists>a a'. b n = Inr (PDict a) \<and> b' n = Inr (PDict a') \<and> visible a = visible a'))"

definition same_answer :: "reasoning_error + pydict list \<times> pydict \<Rightarrow> reasoning_error + pydict list \<times> pydict \<Rightarrow> bool" where
  "same_answer r r' \<longleftrightarrow> (\<exists>e. r = Inl e \<and> r' = Inl e) \<or> (\<exists>calls a a'. r = Inr (calls, a) \<and> r' = Inr (calls, a') \<and> visible a = visible a')"

lemma same_answerE [consumes 1, case_names failed answered]:
  assumes "same_answer r r'"
  obtains e where "r = Inl e" "r' = Inl e" | calls a a' where "r = Inr (calls, a)" "r' = Inr (calls, a')" "visible a = visible a'"
  using assms by (auto simp: same_answer_def)

lemma attempt_same:
  assumes "same_visible b b'" and "length sent = length sent'" and "ds_stage s = ds_stage s'"
  shows "same_answer (snd (attempt o' b s choice ending sent)) (snd (attempt o' b' s' choice ending sent'))"
proof -
  have "b (length sent) = b' (length sent') \<or> (\<exists>a a'. b (length sent) = Inr (PDict a) \<and> b' (length sent') = Inr (PDict a') \<and> visible a = visible a')"
    using assms(1,2) by (simp add: same_visible_def)
  then show ?thesis
  proof
    assume eq: "b (length sent) = b' (length sent')"
    show ?thesis
      by (simp add: attempt_def generate_def eq assms(3) same_answer_def try_bind_def raise_if_def
          split: sum.split pyval.split)
  next
    assume "\<exists>a a'. b (length sent) = Inr (PDict a) \<and> b' (length sent') = Inr (PDict a') \<and> visible a = visible a'"
    then obtain a a' where a: "b (length sent) = Inr (PDict a)" "b' (length sent') = Inr (PDict a')" "visible a = visible a'" by blast
    show ?thesis
      using a(3) visible_reading [OF a(3)]
      by (simp add: attempt_def generate_def a(1,2) assms(3) same_answer_def try_bind_def raise_if_def split: sum.split)
  qed
qed

lemma attempt_sent: "fst (attempt o' b s choice ending sent) = sent @ [request_for o' s choice]"
  by (simp add: attempt_def generate_def)

text \<open>The answer of a stage, and the one or two requests it took.\<close>

lemma stage_answer_same:
  assumes "same_visible b b'" and "length sent = length sent'" and "ds_stage s = ds_stage s'"
  shows "same_answer (snd (stage_answer o' b s choice sent)) (snd (stage_answer o' b' s' choice sent'))"
    and "\<exists>n. fst (stage_answer o' b s choice sent) = sent @ replicate n (request_for o' s choice)
        \<and> fst (stage_answer o' b' s' choice sent') = sent' @ replicate n (request_for o' s' choice) \<and> n \<le> 2"
proof -
  let ?ending = "''; refusing to accept an incomplete stage or tool proposal''" and ?again = "'' on retry; refusing incomplete stage output''"
  obtain t r where t: "attempt o' b s choice ?ending sent = (t, r)" by (rule prod.exhaust)
  obtain t' r' where t': "attempt o' b' s' choice ?ending sent' = (t', r')" by (rule prod.exhaust)
  have sent: "t = sent @ [request_for o' s choice]" "t' = sent' @ [request_for o' s' choice]"
    using attempt_sent [of o' b s choice ?ending sent] attempt_sent [of o' b' s' choice ?ending sent'] t t' by simp_all
  then have len: "length t = length t'" using assms(2) by simp
  have first: "same_answer r r'" using attempt_same [OF assms, of o' choice ?ending] t t' by simp
  have again: "same_answer (snd (attempt o' b s choice ?again t)) (snd (attempt o' b' s' choice ?again t'))"
    by (rule attempt_same [OF assms(1) len assms(3)])
  have vis: "visible_content a = visible_content a'" if "r = Inr (calls, a)" "r' = Inr (calls', a')" for calls calls' a a'
    using first
  proof (cases rule: same_answerE)
    case (answered c x x')
    then show ?thesis using that visible_reading(2) [OF answered(3)] by simp
  qed (use that in simp)
  show "same_answer (snd (stage_answer o' b s choice sent)) (snd (stage_answer o' b' s' choice sent'))"
    using first
  proof (cases rule: same_answerE)
    case (failed e)
    then show ?thesis by (simp add: stage_answer_def t t' same_answer_def)
  next
    case (answered calls a a')
    show ?thesis
    proof (cases "calls = [] \<and> visible_content a = None")
      case True
      then show ?thesis using again answered vis by (simp add: stage_answer_def t t')
    next
      case False
      then show ?thesis using first answered vis [OF answered(1,2)] by (auto simp: stage_answer_def t t')
    qed
  qed
  have one: "sent @ [q] = sent @ replicate 1 q" "(sent @ [q]) @ [q] = sent @ replicate 2 q" for sent :: "backend_request list" and q
    by (simp_all add: numeral_2_eq_2)
  show "\<exists>n. fst (stage_answer o' b s choice sent) = sent @ replicate n (request_for o' s choice)
      \<and> fst (stage_answer o' b' s' choice sent') = sent' @ replicate n (request_for o' s' choice) \<and> n \<le> 2"
  proof (cases "\<exists>a. r = Inr ([], a) \<and> visible_content a = None")
    case True
    then obtain a where "r = Inr ([], a)" "visible_content a = None" by blast
    moreover obtain a' where "r' = Inr ([], a')" "visible_content a' = None"
      using first calculation vis by (auto simp: same_answer_def)
    ultimately have "fst (stage_answer o' b s choice sent) = (sent @ [request_for o' s choice]) @ [request_for o' s choice]"
      "fst (stage_answer o' b' s' choice sent') = (sent' @ [request_for o' s' choice]) @ [request_for o' s' choice]"
      by (simp_all add: stage_answer_def t t' attempt_sent sent)
    then show ?thesis by (intro exI [of _ 2]) (simp add: numeral_2_eq_2)
  next
    case False
    have "fst (stage_answer o' b s choice sent) = sent @ [request_for o' s choice]
      \<and> fst (stage_answer o' b' s' choice sent') = sent' @ [request_for o' s' choice]"
      using first
    proof (cases rule: same_answerE)
      case (failed e)
      then show ?thesis by (simp add: stage_answer_def t t' sent)
    next
      case (answered calls a a')
      then show ?thesis using False vis [OF answered(1,2)] by (auto simp: stage_answer_def t t' sent)
    qed
    then show ?thesis unfolding one by (intro exI [of _ 1]) simp
  qed
qed

text \<open>Results that differ in native reasoning only; a run that fails does so on both sides.\<close>

fun hide_native :: "outcome \<Rightarrow> outcome" where
  "hide_native (Pending p) = Pending (p\<lparr>pr_native := []\<rparr>)"
| "hide_native (Completed a) = Completed (a\<lparr>ca_reasoning := []\<rparr>)"

definition hide_messages :: "session \<Rightarrow> session" where
  "hide_messages s = s\<lparr>ds_messages := map visible (ds_messages s)\<rparr>"

definition agree :: "bool \<Rightarrow> reasoning_error + session \<times> outcome \<Rightarrow> reasoning_error + session \<times> outcome \<Rightarrow> bool" where
  "agree exact r r' \<longleftrightarrow> (isl r \<and> isl r') \<or> (\<exists>s out s' out'. r = Inr (s, out) \<and> r' = Inr (s', out')
     \<and> hide_messages s = hide_messages s' \<and> hide_native out = hide_native out'
     \<and> (exact \<longrightarrow> s = s' \<and> (\<forall>p. out = Pending p \<longrightarrow> out' = Pending p)))"

lemma agree_weaken: "agree x r r' \<Longrightarrow> (y \<Longrightarrow> x) \<Longrightarrow> agree y r r'"
  unfolding agree_def by blast

lemma agree_failed [simp]: "agree x (Inl e) (Inl e')"
  by (simp add: agree_def)

lemma hide_messages_fields:
  assumes "hide_messages s = hide_messages s'"
  shows "s' = s\<lparr>ds_messages := ds_messages s'\<rparr>" and "map visible (ds_messages s) = map visible (ds_messages s')"
  using assms by (cases s, cases s', simp add: hide_messages_def)+

lemma issue_same:
  assumes "hide_messages s = hide_messages s'"
  shows "agree (s = s' \<and> \<not> do_preserve o') (issue_calls o' calls a s) (issue_calls o' calls a' s')"
proof -
  obtain ms where s': "s' = s\<lparr>ds_messages := ms\<rparr>" "map visible (ds_messages s) = map visible ms"
    using hide_messages_fields [OF assms] by (metis session.select_convs(3) session.surjective session.update_convs(3))
  show ?thesis by (simp add: issue_calls_def s' agree_def budget_spent_def budget_error_def hide_messages_def split: option.split)
qed

lemma complete_same:
  assumes "hide_messages s = hide_messages s'"
  shows "agree x (Inr (complete t a s)) (Inr (complete t a' s'))"
proof -
  obtain ms where s': "s' = s\<lparr>ds_messages := ms\<rparr>"
    using hide_messages_fields [OF assms] by metis
  show ?thesis by (simp add: complete_def s' agree_def hide_messages_def)
qed

lemma content_same:
  assumes "visible a = visible a'"
  shows "(\<exists>t. answer_content a s = Inr t \<and> answer_content a' s = Inr t) \<or> (isl (answer_content a s) \<and> isl (answer_content a' s))"
  using visible_reading(2) [OF assms] by (auto simp: answer_content_def split: option.split)

lemma enter_same:
  assumes "hide_messages s = hide_messages s'"
  shows "enter_antithesis t s = enter_antithesis t s'" and "enter_synthesis t s = enter_synthesis t s'"
proof -
  obtain ms where "s' = s\<lparr>ds_messages := ms\<rparr>" using hide_messages_fields [OF assms] by metis
  then show "enter_antithesis t s = enter_antithesis t s'" "enter_synthesis t s = enter_synthesis t s'"
    by (simp_all add: enter_antithesis_def enter_synthesis_def)
qed

text \<open>Requests that differ in the native reasoning of their messages only, those of another stage not at all.\<close>

definition same_request :: "stage \<Rightarrow> backend_request \<Rightarrow> backend_request \<Rightarrow> bool" where
  "same_request st q q' \<longleftrightarrow> q\<lparr>br_messages := map visible (br_messages q)\<rparr> = q'\<lparr>br_messages := map visible (br_messages q')\<rparr>
     \<and> (br_stage q \<noteq> st \<longrightarrow> q = q')"

lemma same_request_refl [simp]: "same_request st q q"
  by (simp add: same_request_def)

lemma request_same:
  assumes "hide_messages s = hide_messages s'"
  shows "same_request (ds_stage s) (request_for o' s choice) (request_for o' s' choice)"
proof -
  obtain ms where "s' = s\<lparr>ds_messages := ms\<rparr>" "map visible (ds_messages s) = map visible ms"
    using hide_messages_fields [OF assms] by (metis session.select_convs(3) session.surjective session.update_convs(3))
  then show ?thesis by (simp add: same_request_def request_for_def)
qed

lemma list_all2_refl_eq: "(\<And>q. P q q) \<Longrightarrow> list_all2 P qs qs"
  by (simp add: list_all2_same)

lemma advance_same:
  assumes "same_visible b b'" and "length sent = length sent'" and "hide_messages s = hide_messages s'"
  shows "\<exists>new new'. fst (advance_stage o' b c v s sent) = sent @ new \<and> fst (advance_stage o' b' c v s' sent') = sent' @ new'
     \<and> agree (s = s' \<and> \<not> do_preserve o') (snd (advance_stage o' b c v s sent)) (snd (advance_stage o' b' c v s' sent'))
     \<and> list_all2 (same_request (ds_stage s)) new new' \<and> (s = s' \<longrightarrow> new = new')"
  using assms(2,3)
proof (induction "stage_rank (ds_stage s)" arbitrary: s s' c v sent sent' rule: less_induct)
  case less
  let ?x = "s = s' \<and> \<not> do_preserve o'"
  have fields: "ds_closed s = ds_closed s'" "ds_stage s = ds_stage s'" "ds_verification_required s = ds_verification_required s'"
    using less.prems(2) hide_messages_fields [OF less.prems(2)] by (metis session.select_convs session.surjective session.update_convs(3))+
  obtain t r where t: "stage_answer o' b s c sent = (t, r)" by (rule prod.exhaust)
  obtain t' r' where t': "stage_answer o' b' s' c sent' = (t', r')" by (rule prod.exhaust)
  obtain n where n: "t = sent @ replicate n (request_for o' s c)" "t' = sent' @ replicate n (request_for o' s' c)"
    using stage_answer_same(2) [OF assms(1) less.prems(1) fields(2), of o' c] t t' by auto
  have len: "length t = length t'" using less.prems(1) n by simp
  have reqs: "list_all2 (same_request (ds_stage s)) (replicate n (request_for o' s c)) (replicate n (request_for o' s' c))"
    using request_same [OF less.prems(2)] by (simp add: list_all2_conv_all_nth)
  have same: "same_answer r r'" using stage_answer_same(1) [OF assms(1) less.prems(1) fields(2), of o' c] t t' by simp
  let ?goal = "\<lambda>u u'. \<exists>new new'. fst u = sent @ new \<and> fst u' = sent' @ new' \<and> agree ?x (snd u) (snd u')
     \<and> list_all2 (same_request (ds_stage s)) new new' \<and> (s = s' \<longrightarrow> new = new')"
  have stop: "?goal (t, x) (t', x')" if "agree ?x x x'" for x x'
    using that reqs by (intro exI [of _ "replicate n (request_for o' s c)"] exI [of _ "replicate n (request_for o' s' c)"]) (simp add: n)
  have go_on: "?goal (advance_stage o' b c' v' s1 t) (advance_stage o' b' c' v' s1 t')" if rank: "stage_rank (ds_stage s1) < stage_rank (ds_stage s)" for s1 c' v'
  proof -
    obtain new where new: "fst (advance_stage o' b c' v' s1 t) = t @ new" "fst (advance_stage o' b' c' v' s1 t') = t' @ new"
      "agree (\<not> do_preserve o') (snd (advance_stage o' b c' v' s1 t)) (snd (advance_stage o' b' c' v' s1 t'))"
      using less.hyps [OF rank len refl, of c' v'] by auto
    have "list_all2 (same_request (ds_stage s)) new new" by (rule list_all2_refl_eq) simp
    then have "list_all2 (same_request (ds_stage s)) (replicate n (request_for o' s c) @ new) (replicate n (request_for o' s' c) @ new)"
      using reqs by (rule list_all2_appendI [rotated])
    moreover have "agree ?x (snd (advance_stage o' b c' v' s1 t)) (snd (advance_stage o' b' c' v' s1 t'))"
      using new(3) by (rule agree_weaken) simp
    ultimately show ?thesis using new(1,2)
      by (intro exI [of _ "replicate n (request_for o' s c) @ new"] exI [of _ "replicate n (request_for o' s' c) @ new"]) (simp add: n)
  qed
  have "?goal (advance_stage o' b c v s sent) (advance_stage o' b' c v s' sent')"
  proof (cases "ds_closed s")
    case True
    then show ?thesis using fields(1) by (simp add: advance_stage.simps)
  next
    case opened: False
    show ?thesis
      using same
    proof (cases rule: same_answerE)
      case (failed e)
      then show ?thesis using stop [of "Inl e" "Inl e"] opened fields(1) by (simp add: advance_stage.simps t t')
    next
      case (answered calls a a')
      note content = content_same [OF answered(3)]
      show ?thesis
      proof (cases "calls = []")
        case False
        then show ?thesis using stop [OF issue_same [OF less.prems(2)]] opened fields(1)
          by (simp add: advance_stage.simps [of o' b c v s sent] advance_stage.simps [of o' b' c v s' sent'] t t' answered)
      next
        case nocalls: True
        show ?thesis
        proof (cases "ds_stage s")
          case Thesis
          show ?thesis
          proof (cases "try_bind (answer_content a Thesis) (\<lambda>thesis. enter_antithesis thesis s)")
            case (Inl e)
            then obtain e' where "try_bind (answer_content a' Thesis) (\<lambda>thesis. enter_antithesis thesis s') = Inl e'"
              using content [of Thesis] enter_same(1) [OF less.prems(2)] by (auto simp: try_bind_def isl_def split: sum.splits)
            then show ?thesis using stop [of "Inl e" "Inl e'"] opened fields nocalls Thesis Inl
              by (simp add: advance_stage.simps [of o' b c v s sent] advance_stage.simps [of o' b' c v s' sent'] t t' answered)
          next
            case (Inr s1)
            then have "try_bind (answer_content a' Thesis) (\<lambda>thesis. enter_antithesis thesis s') = Inr s1"
              using content [of Thesis] enter_same(1) [OF less.prems(2)] by (auto simp: try_bind_def isl_def split: sum.splits)
            moreover have "ds_stage s1 = Antithesis" using Inr by (auto simp: try_bind_Inr_iff enter_antithesis_stage)
            ultimately show ?thesis using go_on [of s1] opened fields nocalls Thesis Inr
              by (simp add: advance_stage.simps [of o' b c v s sent] advance_stage.simps [of o' b' c v s' sent'] t t' answered)
          qed
        next
          case Antithesis
          show ?thesis
          proof (cases v)
            case True
            then show ?thesis using stop [OF agree_failed] opened fields nocalls Antithesis
              by (simp add: advance_stage.simps [of o' b c True s sent] advance_stage.simps [of o' b' c True s' sent'] t t' answered)
          next
            case noverify: False
            show ?thesis
            proof (cases "try_bind (answer_content a Antithesis) (\<lambda>findings. enter_synthesis findings s)")
              case (Inl e)
              then obtain e' where "try_bind (answer_content a' Antithesis) (\<lambda>findings. enter_synthesis findings s') = Inl e'"
                using content [of Antithesis] enter_same(2) [OF less.prems(2)] by (auto simp: try_bind_def isl_def split: sum.splits)
              then show ?thesis using stop [of "Inl e" "Inl e'"] opened fields nocalls Antithesis noverify Inl
                by (simp add: advance_stage.simps [of o' b c False s sent] advance_stage.simps [of o' b' c False s' sent'] t t' answered)
            next
              case (Inr s1)
              then have "try_bind (answer_content a' Antithesis) (\<lambda>findings. enter_synthesis findings s') = Inr s1"
                using content [of Antithesis] enter_same(2) [OF less.prems(2)] by (auto simp: try_bind_def isl_def split: sum.splits)
              moreover have "ds_stage s1 = Synthesis" using Inr by (auto simp: try_bind_Inr_iff enter_synthesis_stage)
              ultimately show ?thesis using go_on [of s1] opened fields nocalls Antithesis noverify Inr
                by (simp add: advance_stage.simps [of o' b c False s sent] advance_stage.simps [of o' b' c False s' sent'] t t' answered)
            qed
          qed
        next
          case Synthesis
          have "agree ?x (try_bind (answer_content a Synthesis) (\<lambda>text. Inr (complete text a s)))
              (try_bind (answer_content a' Synthesis) (\<lambda>text. Inr (complete text a' s')))"
            using content [of Synthesis] complete_same [OF less.prems(2)] by (auto simp: try_bind_def isl_def)
          then show ?thesis using stop opened fields nocalls Synthesis
            by (simp add: advance_stage.simps [of o' b c v s sent] advance_stage.simps [of o' b' c v s' sent'] t t' answered)
        qed
      qed
    qed
  qed
  then show ?case by simp
qed

section \<open>A whole turn\<close>

definition state_agree :: "bool \<Rightarrow> session \<times> outcome \<Rightarrow> session \<times> outcome \<Rightarrow> bool" where
  "state_agree exact st st' \<longleftrightarrow> hide_messages (fst st) = hide_messages (fst st') \<and> hide_native (snd st) = hide_native (snd st')
     \<and> (exact \<longrightarrow> fst st = fst st' \<and> (\<forall>p. snd st = Pending p \<longrightarrow> snd st' = Pending p))"

lemma agree_cases:
  assumes "agree x r r'"
  obtains e e' where "r = Inl e" "r' = Inl e'" | st st' where "r = Inr st" "r' = Inr st'" "state_agree x st st'"
  using assms unfolding agree_def state_agree_def isl_def by auto

lemma visible_without_native [simp]: "visible (without_native p m) = visible m"
  by (auto simp: visible_def without_native_def intro: filter_cong)

lemma visible_tool_call [simp]:
  "visible (tool_call_message p native calls) = [(''role'', PStr ''assistant''), (''content'', PStr []), (''tool_calls'', PList (map PDict calls))]"
  by (simp add: tool_call_message_def visible_def NATIVE_REASONING_FIELDS_def)

lemma append_results_cases:
  obtains e where "\<And>ms native. append_stage_local_tool_results ms calls results native preserve = Inl e"
  | outputs where "\<And>ms native. append_stage_local_tool_results ms calls results native preserve
      = Inr (map (without_native preserve) ms @ [tool_call_message preserve native calls] @ outputs)"
proof (cases "append_stage_local_tool_results [] calls results [] preserve")
  case (Inl e)
  then have "append_stage_local_tool_results ms calls results native preserve = Inl e" for ms native
    by (auto simp: append_stage_local_tool_results_def raise_if_def try_bind_def split: if_splits sum.splits)
  then show ?thesis using that by blast
next
  case (Inr x)
  then obtain outputs where "try_map tool_output_message results = Inr outputs" "calls \<noteq> []" "nonempty_ids calls" "check_linkage calls results = Inr ()"
    by (auto simp: append_stage_local_tool_results_def raise_if_def try_bind_def split: if_splits sum.splits)
  then show ?thesis using that(2) by (simp add: append_stage_local_tool_results_def raise_if_def try_bind_def)
qed

lemma take_results_same:
  assumes "hide_messages s = hide_messages s'" and "map visible ms = map visible ms'"
  shows "hide_messages (take_results loads sha ms calls results s) = hide_messages (take_results loads sha ms' calls results s')"
proof -
  obtain xs where "s' = s\<lparr>ds_messages := xs\<rparr>" using hide_messages_fields [OF assms(1)] by metis
  then show ?thesis using assms(2) by (simp add: take_results_def hide_messages_def)
qed

lemma resume_same:
  assumes "same_visible b b'" and "length sent = length sent'" and "state_agree x (s, Pending p) (s', Pending p')" and "x \<Longrightarrow> \<not> do_preserve o'"
    and "resume o' b loads sha p results s sent = (t, s1, r)" and "resume o' b' loads sha p' results s' sent' = (t', s1', r')"
  shows "\<exists>new new'. t = sent @ new \<and> t' = sent' @ new' \<and> list_all2 (same_request (ds_stage s)) new new' \<and> (x \<longrightarrow> new = new')
     \<and> (isl r \<and> isl r' \<and> s1 = s \<and> s1' = s'
        \<or> (\<exists>out out'. r = Inr out \<and> r' = Inr out' \<and> state_agree x (s1, out) (s1', out')))"
proof -
  have s: "hide_messages s = hide_messages s'" and x: "x \<Longrightarrow> s = s' \<and> p = p'" and
    h: "p\<lparr>pr_native := []\<rparr> = p'\<lparr>pr_native := []\<rparr>"
    using assms(3) by (simp_all add: state_agree_def)
  have p: "p' = p\<lparr>pr_native := pr_native p'\<rparr>" using h by (cases p, cases p') simp
  have fields: "ds_closed s = ds_closed s'" "ds_stage s = ds_stage s'" "ds_outstanding s = ds_outstanding s'" "ds_generation s = ds_generation s'"
    "budget_spent o' s = budget_spent o' s'" "pr_stage p = pr_stage p'" "pr_calls p = pr_calls p'" "pr_generation p = pr_generation p'"
    using hide_messages_fields(1) [OF s] p
    by (metis session.select_convs session.surjective session.update_convs(3) pending_request.select_convs pending_request.surjective
        pending_request.update_convs(4) budget_spent_def)+
  show ?thesis
  proof (cases "ds_closed s \<or> ds_stage s \<noteq> pr_stage p \<or> ds_outstanding s \<noteq> pr_calls p \<or> ds_generation s \<noteq> pr_generation p \<or> budget_spent o' s")
    case True
    then show ?thesis using assms(5,6) fields by (auto simp: resume_def isl_def split: if_splits)
  next
    case ok: False
    show ?thesis
    proof (rule append_results_cases [of "pr_calls p" results "do_preserve o'"])
      fix e assume "\<And>ms native. append_stage_local_tool_results ms (pr_calls p) results native (do_preserve o') = Inl e"
      then show ?thesis using assms(5,6) ok fields by (auto simp: resume_def)
    next
      fix outputs
      assume app: "\<And>ms native. append_stage_local_tool_results ms (pr_calls p) results native (do_preserve o')
          = Inr (map (without_native (do_preserve o')) ms @ [tool_call_message (do_preserve o') native (pr_calls p)] @ outputs)"
      let ?ms = "\<lambda>s p. map (without_native (do_preserve o')) (ds_messages s) @ [tool_call_message (do_preserve o') (pr_native p) (pr_calls p)] @ outputs"
      let ?s = "take_results loads sha (?ms s p) (pr_calls p) results s" and ?s' = "take_results loads sha (?ms s' p') (pr_calls p') results s'"
      have "map visible (?ms s p) = map visible (?ms s' p')"
        using hide_messages_fields(2) [OF s] fields(7) by (simp add: comp_def map_eq_conv)
      then have hid: "hide_messages ?s = hide_messages ?s'" using take_results_same [OF s] fields(7) by simp
      obtain new new' where new: "fst (advance_stage o' b ''auto'' False ?s sent) = sent @ new" "fst (advance_stage o' b' ''auto'' False ?s' sent') = sent' @ new'"
        "agree (?s = ?s' \<and> \<not> do_preserve o') (snd (advance_stage o' b ''auto'' False ?s sent)) (snd (advance_stage o' b' ''auto'' False ?s' sent'))"
        "list_all2 (same_request (ds_stage ?s)) new new'" "?s = ?s' \<longrightarrow> new = new'"
        using advance_same [OF assms(1,2) hid] by blast
      have st: "ds_stage ?s = ds_stage s" by (simp add: take_results_def)
      have eq: "?s = ?s'" if x using x [OF that] by simp
      have res: "resume o' b loads sha p results s sent = (case advance_stage o' b ''auto'' False ?s sent of
          (t, Inl e) \<Rightarrow> (t, s, Inl e) | (t, Inr (s', out)) \<Rightarrow> (t, s', Inr out))"
        using ok by (simp add: resume_def app)
      have res': "resume o' b' loads sha p' results s' sent' = (case advance_stage o' b' ''auto'' False ?s' sent' of
          (t, Inl e) \<Rightarrow> (t, s', Inl e) | (t, Inr (s', out)) \<Rightarrow> (t, s', Inr out))"
        using ok fields by (simp add: resume_def app [unfolded fields(7)])
      obtain ra ra' where ra: "advance_stage o' b ''auto'' False ?s sent = (sent @ new, ra)" "advance_stage o' b' ''auto'' False ?s' sent' = (sent' @ new', ra')"
        using new(1,2) by (metis prod.collapse)
      have ag: "agree x ra ra'" using new(3) unfolding ra snd_conv by (rule agree_weaken) (use eq assms(4) in simp_all)
      have reqs: "list_all2 (same_request (ds_stage s)) new new'" "x \<longrightarrow> new = new'" using new(4,5) st eq by simp_all
      show ?thesis
        using ag
      proof (cases rule: agree_cases)
        case (1 e e')
        then show ?thesis using reqs assms(5,6) unfolding res res' ra by auto
      next
        case (2 st st')
        then show ?thesis using reqs assms(5,6) unfolding res res' ra by (auto simp: case_prod_beta)
      qed
    qed
  qed
qed

text \<open>A turn: its start, and the results of its tool calls one round after the other. A round that is refused leaves
  the proposal open.\<close>

fun continue_turn ::
    "orchestrator \<Rightarrow> backend \<Rightarrow> (string \<Rightarrow> pyval option) \<Rightarrow> (string \<Rightarrow> string) \<Rightarrow> pydict list list
       \<Rightarrow> backend_request list \<times> session \<times> outcome \<Rightarrow> backend_request list \<times> session \<times> outcome" where
  "continue_turn o' b loads sha [] st = st"
| "continue_turn o' b loads sha (results # rounds) (sent, s, Completed a) = (sent, s, Completed a)"
| "continue_turn o' b loads sha (results # rounds) (sent, s, Pending p) =
     (case resume o' b loads sha p results s sent of
        (sent', s', Inl e) \<Rightarrow> continue_turn o' b loads sha rounds (sent', s', Pending p)
      | (sent', s', Inr out) \<Rightarrow> continue_turn o' b loads sha rounds (sent', s', out))"

definition hide_request :: "backend_request \<Rightarrow> backend_request" where
  "hide_request q = q\<lparr>br_messages := map visible (br_messages q)\<rparr>"

lemma same_hidden: "list_all2 (same_request st) qs qs' \<Longrightarrow> map hide_request qs = map hide_request qs'"
  by (induction rule: list_all2_induct) (simp_all add: same_request_def hide_request_def)

lemma continue_same:
  assumes "same_visible b b'" and "map hide_request sent = map hide_request sent'" and "x \<longrightarrow> sent = sent'"
    and "state_agree x (s, out) (s', out')" and "x \<Longrightarrow> \<not> do_preserve o'"
    and "continue_turn o' b loads sha rounds (sent, s, out) = (t, s1, r)" and "continue_turn o' b' loads sha rounds (sent', s', out') = (t', s1', r')"
  shows "map hide_request t = map hide_request t' \<and> (x \<longrightarrow> t = t') \<and> state_agree x (s1, r) (s1', r')"
  using assms(2-4,6,7)
proof (induction rounds arbitrary: sent sent' s s' out out')
  case (Cons results rounds)
  show ?case
  proof (cases out)
    case (Completed a)
    then obtain a' where "out' = Completed a'" using Cons.prems(3) by (cases out') (auto simp: state_agree_def)
    then show ?thesis using Cons.prems Completed by simp
  next
    case (Pending p)
    then obtain p' where out': "out' = Pending p'" using Cons.prems(3) by (cases out') (auto simp: state_agree_def)
    obtain u s2 q where u: "resume o' b loads sha p results s sent = (u, s2, q)" by (metis prod.exhaust)
    obtain u' s2' q' where u': "resume o' b' loads sha p' results s' sent' = (u', s2', q')" by (metis prod.exhaust)
    have len: "length sent = length sent'" using Cons.prems(1) by (metis length_map)
    obtain new new' where new: "u = sent @ new" "u' = sent' @ new'" "list_all2 (same_request (ds_stage s)) new new'" "x \<longrightarrow> new = new'"
      "isl q \<and> isl q' \<and> s2 = s \<and> s2' = s' \<or> (\<exists>o1 o2. q = Inr o1 \<and> q' = Inr o2 \<and> state_agree x (s2, o1) (s2', o2))"
      using resume_same [OF assms(1) len Cons.prems(3)[unfolded Pending out'] assms(5) u u'] by blast
    have sent: "map hide_request u = map hide_request u'" "x \<longrightarrow> u = u'"
      using Cons.prems(1,2) new(1-4) same_hidden by auto
    show ?thesis
    proof (cases q)
      case (Inl e)
      then obtain e' where q': "q' = Inl e'" "s2 = s" "s2' = s'" using new(5) by (auto simp: isl_def)
      show ?thesis
        using Cons.IH [OF sent Cons.prems(3)] Cons.prems(4,5) q' Inl by (simp add: Pending out' u u')
    next
      case (Inr o1)
      then obtain o2 where q': "q' = Inr o2" "state_agree x (s2, o1) (s2', o2)" using new(5) by (auto simp: isl_def)
      show ?thesis
        using Cons.IH [OF sent q'(2)] Cons.prems(4,5) q'(1) Inr by (simp add: Pending out' u u')
    qed
  qed
qed simp

definition run_turn ::
    "orchestrator \<Rightarrow> backend \<Rightarrow> (string \<Rightarrow> pyval option) \<Rightarrow> (string \<Rightarrow> string) \<Rightarrow> string \<Rightarrow> pyval list \<Rightarrow> completed_synthesis option \<Rightarrow> bool \<Rightarrow> bool
       \<Rightarrow> pydict list list \<Rightarrow> backend_request list \<times> outcome option" where
  "run_turn o' b loads sha request history prior preserve verification rounds =
     (case start o' b request history prior preserve verification [] of
        (sent, Inl e) \<Rightarrow> (sent, None)
      | (sent, Inr st) \<Rightarrow> (case continue_turn o' b loads sha rounds (sent, st) of (t, s, out) \<Rightarrow> (t, Some out)))"

text \<open>C11. What a turn asks the backend, and what it answers in the end, does not depend on the native reasoning of the
  backend's answers: two backends that differ in it only are sent the same requests up to native reasoning in
  the messages, and exactly the same ones when the stage-local lease is off, and both turns end with the same
  visible answer, findings and evidence, or fail both.\<close>

theorem turn_isolation:
  assumes "same_visible b b'"
  shows "map hide_request (fst (run_turn o' b loads sha request history prior preserve verification rounds))
       = map hide_request (fst (run_turn o' b' loads sha request history prior preserve verification rounds))
     \<and> (\<not> do_preserve o' \<longrightarrow> fst (run_turn o' b loads sha request history prior preserve verification rounds)
       = fst (run_turn o' b' loads sha request history prior preserve verification rounds))
     \<and> map_option hide_native (snd (run_turn o' b loads sha request history prior preserve verification rounds))
       = map_option hide_native (snd (run_turn o' b' loads sha request history prior preserve verification rounds))"
proof -
  let ?x = "\<not> do_preserve o'"
  obtain t r where t: "start o' b request history prior preserve verification [] = (t, r)" by (rule prod.exhaust)
  obtain t' r' where t': "start o' b' request history prior preserve verification [] = (t', r')" by (rule prod.exhaust)
  have start: "t = t' \<and> agree ?x r r'"
  proof -
    have adv: "fst (advance_stage o' b c v s []) = fst (advance_stage o' b' c v s [])
        \<and> agree ?x (snd (advance_stage o' b c v s [])) (snd (advance_stage o' b' c v s []))" for c v s
        using advance_same [OF assms, where sent = "[]" and sent' = "[]" and s = s and s' = s and c = c and v = v] by auto
    show ?thesis using t t' adv by (auto simp: start_def split: if_splits sum.splits) (metis fst_conv snd_conv)+
  qed
  from start have "agree ?x r r'" by simp
  then show ?thesis
  proof (cases rule: agree_cases)
    case (1 e e')
    then show ?thesis using start t t' by (simp add: run_turn_def)
  next
    case (2 st st')
    obtain s out s' out' where st: "st = (s, out)" "st' = (s', out')" by (metis prod.exhaust)
    obtain u s1 q where u: "continue_turn o' b loads sha rounds (t, s, out) = (u, s1, q)" by (metis prod.exhaust)
    obtain u' s1' q' where u': "continue_turn o' b' loads sha rounds (t', s', out') = (u', s1', q')" by (metis prod.exhaust)
    have "map hide_request u = map hide_request u' \<and> (?x \<longrightarrow> u = u') \<and> state_agree ?x (s1, q) (s1', q')"
      by (rule continue_same [OF assms _ _ _ _ u u']) (use start 2(3) st in simp_all)
    moreover have "run_turn o' b loads sha request history prior preserve verification rounds = (u, Some q)"
      by (simp add: run_turn_def t 2(1) st(1) u)
    moreover have "run_turn o' b' loads sha request history prior preserve verification rounds = (u', Some q')"
      by (simp add: run_turn_def t' 2(2) st(2) u')
    ultimately show ?thesis by (simp add: state_agree_def)
  qed
qed

text \<open>With the lease on, the native reasoning of a proposal is sent in its own stage only: what a continuation asks in a
  later stage is the same whatever the proposal, the messages and the answers held.\<close>

theorem reasoning_stays_in_stage:
  assumes "same_visible b b'" and "hide_messages s = hide_messages s'"
    and "resume o' b loads sha p results s sent = (t, s1, r)" and "resume o' b' loads sha (p\<lparr>pr_native := native\<rparr>) results s' sent = (t', s1', r')"
  shows "\<exists>new new'. t = sent @ new \<and> t' = sent @ new' \<and> list_all2 (same_request (ds_stage s)) new new'"
  using resume_same [OF assms(1) refl, of False s p s' "p\<lparr>pr_native := native\<rparr>"] assms(2-4) by (fastforce simp: state_agree_def)

section \<open>The states of a turn\<close>

inductive turn_state :: "orchestrator \<Rightarrow> session \<times> outcome \<Rightarrow> bool" for o' where
  started: "start o' b request history prior preserve verification sent = (sent', Inr st) \<Longrightarrow> turn_state o' st"
| resumed: "turn_state o' (s, Pending p) \<Longrightarrow> resume o' b loads sha p results s sent = (sent', s', Inr out) \<Longrightarrow> turn_state o' (s', out)"

definition evidence_chars :: "receipt list \<Rightarrow> nat" where
  "evidence_chars evidence = sum_list (map (\<lambda>e. length (rc_raw e)) evidence)"

text \<open>Each receipt keeps as much of its result as the receipts before it leave of the common bound, and as much
  of its arguments as its own bound allows; it says how long they were.\<close>

definition well_cut :: "receipt list \<Rightarrow> bool" where
  "well_cut evidence \<longleftrightarrow> evidence_chars evidence \<le> MAX_EVIDENCE_CHARS
     \<and> (\<forall>n < length evidence.
          length (rc_raw (evidence ! n)) = min (rc_raw_total (evidence ! n)) (MAX_EVIDENCE_CHARS - evidence_chars (take n evidence))
          \<and> length (rc_arguments (evidence ! n)) = min (rc_arguments_total (evidence ! n)) 4096)"

lemma well_cut_Nil [simp]: "well_cut []"
  by (simp add: well_cut_def evidence_chars_def)

definition verified :: "receipt list \<Rightarrow> bool" where
  "verified evidence \<longleftrightarrow> (\<exists>r \<in> set evidence. rc_stage r = Antithesis)"

definition session_ok :: "session \<Rightarrow> bool" where
  "session_ok s \<longleftrightarrow> \<not> ds_closed s \<and> well_cut (ds_evidence s) \<and> artifact_chars (ds_artifacts s) \<le> MAX_ARTIFACT_CHARS
     \<and> (ds_stage s = Synthesis \<and> ds_verification_required s \<longrightarrow> verified (ds_evidence s))"

text \<open>What an outcome promises of its session.\<close>

fun outcome_ok :: "session \<Rightarrow> outcome \<Rightarrow> bool" where
  "outcome_ok s (Pending p) \<longleftrightarrow> session_ok s \<and> pr_stage p = ds_stage s \<and> pr_calls p = ds_outstanding s \<and> pr_calls p \<noteq> []
     \<and> pr_generation p = ds_generation s"
| "outcome_ok s (Completed a) \<longleftrightarrow> ds_closed s \<and> well_cut (ca_evidence a) \<and> ds_artifacts s = []
     \<and> (ds_verification_required s \<longrightarrow> verified (ca_evidence a))"

lemma enter_fields:
  "enter_antithesis t s = Inr s' \<Longrightarrow> ds_closed s' = ds_closed s \<and> ds_evidence s' = ds_evidence s \<and> ds_artifacts s' = ds_artifacts s
     \<and> ds_verification_required s' = ds_verification_required s \<and> ds_generation s' = ds_generation s"
  "enter_synthesis t s = Inr s' \<Longrightarrow> ds_closed s' = ds_closed s \<and> ds_evidence s' = ds_evidence s \<and> ds_artifacts s' = ds_artifacts s
     \<and> ds_verification_required s' = ds_verification_required s \<and> ds_generation s' = ds_generation s"
  by (auto simp: enter_antithesis_def enter_synthesis_def try_bind_Inr_iff)

lemma advance_ok:
  assumes "advance_stage o' b c v s sent = (sent', Inr (s', out))" and "session_ok s"
    and "ds_stage s = Antithesis \<Longrightarrow> ds_verification_required s \<Longrightarrow> v \<or> verified (ds_evidence s)"
  shows "outcome_ok s' out \<and> ds_verification_required s' = ds_verification_required s \<and> ds_generation s \<le> ds_generation s'"
  using assms
proof (induction "stage_rank (ds_stage s)" arbitrary: s c v sent rule: less_induct)
  case less
  obtain t r where t: "stage_answer o' b s c sent = (t, r)" by (rule prod.exhaust)
  have opened: "\<not> ds_closed s" using less.prems(2) by (simp add: session_ok_def)
  note run = less.prems(1)[unfolded advance_stage.simps [of o' b c v s sent] t prod.case]
  obtain calls a where r: "r = Inr (calls, a)" using run opened by (auto split: sum.splits)
  show ?case
  proof (cases "calls = []")
    case False
    then have "issue_calls o' calls a s = Inr (s', out)" using run opened r by simp
    then show ?thesis using less.prems(2) False by (auto simp: issue_calls_def session_ok_def split: if_splits)
  next
    case nocalls: True
    show ?thesis
    proof (cases "ds_stage s")
      case Thesis
      then obtain s1 where s1: "try_bind (answer_content a Thesis) (\<lambda>thesis. enter_antithesis thesis s) = Inr s1"
        "advance_stage o' b (if ds_verification_required s then ''required'' else ''auto'') (ds_verification_required s) s1 t = (sent', Inr (s', out))"
        using run opened r nocalls by (auto split: sum.splits)
      obtain thesis where e: "enter_antithesis thesis s = Inr s1" using s1(1) by (auto simp: try_bind_Inr_iff)
      have "session_ok s1" using less.prems(2) enter_fields(1) [OF e] enter_antithesis_stage [OF e] by (simp add: session_ok_def)
      then show ?thesis
        using less.hyps [OF _ s1(2)] enter_fields(1) [OF e] enter_antithesis_stage [OF e] Thesis by simp
    next
      case Antithesis
      then obtain s1 where s1: "try_bind (answer_content a Antithesis) (\<lambda>findings. enter_synthesis findings s) = Inr s1" "\<not> v"
        "advance_stage o' b ''auto'' False s1 t = (sent', Inr (s', out))"
        using run opened r nocalls by (auto split: sum.splits if_splits)
      obtain findings where e: "enter_synthesis findings s = Inr s1" using s1(1) by (auto simp: try_bind_Inr_iff)
      have "session_ok s1" using less.prems(2,3) s1(2) Antithesis enter_fields(2) [OF e] by (auto simp: session_ok_def)
      then show ?thesis
        using less.hyps [OF _ s1(3)] enter_fields(2) [OF e] enter_synthesis_stage [OF e] Antithesis by simp
    next
      case Synthesis
      then obtain ans where "complete ans a s = (s', out)" using run opened r nocalls by (auto simp: try_bind_Inr_iff)
      then show ?thesis using less.prems(2) Synthesis by (auto simp: complete_def session_ok_def)
    qed
  qed
qed

section \<open>The evidence\<close>

lemma add_receipt_props:
  assumes "well_cut evidence"
  shows "well_cut (add_receipt sha s results c evidence)"
    and "\<exists>r. add_receipt sha s results c evidence = evidence @ [r] \<and> rc_stage r = s"
proof -
  show "well_cut (add_receipt sha s results c evidence)"
    using assms by (auto simp: well_cut_def add_receipt_def Let_def evidence_chars_def nth_append less_Suc_eq min_def)
qed (simp add: add_receipt_def Let_def)

lemma fold_receipts:
  assumes "well_cut evidence"
  shows "well_cut (fold (add_receipt sha s results) calls evidence)"
    and "\<exists>rs. fold (add_receipt sha s results) calls evidence = evidence @ rs \<and> length rs = length calls \<and> (\<forall>r \<in> set rs. rc_stage r = s)"
proof -
  have "well_cut (fold (add_receipt sha s results) calls evidence)
      \<and> (\<exists>rs. fold (add_receipt sha s results) calls evidence = evidence @ rs \<and> length rs = length calls \<and> (\<forall>r \<in> set rs. rc_stage r = s))"
    using assms
  proof (induction calls arbitrary: evidence)
    case (Cons c calls)
    obtain r where r: "add_receipt sha s results c evidence = evidence @ [r]" "rc_stage r = s" using add_receipt_props(2) [OF Cons.prems] by blast
    from Cons.IH [OF add_receipt_props(1) [OF Cons.prems, of sha s results c]] obtain rs where
      "well_cut (fold (add_receipt sha s results) calls (evidence @ [r]))"
      "fold (add_receipt sha s results) calls (evidence @ [r]) = (evidence @ [r]) @ rs" "length rs = length calls" "\<forall>r \<in> set rs. rc_stage r = s"
      unfolding r(1) by blast
    then show ?case using r by (auto intro!: exI [of _ "r # rs"])
  qed simp
  then show "well_cut (fold (add_receipt sha s results) calls evidence)"
    and "\<exists>rs. fold (add_receipt sha s results) calls evidence = evidence @ rs \<and> length rs = length calls \<and> (\<forall>r \<in> set rs. rc_stage r = s)"
    by blast+
qed

lemma trim_artifacts_bound: "artifact_chars (trim_artifacts ls) \<le> MAX_ARTIFACT_CHARS"
  by (induction ls rule: trim_artifacts.induct) (auto simp: artifact_chars_def not_less)

lemma take_results_ok:
  assumes "session_ok s" and "calls \<noteq> []"
  shows "session_ok (take_results loads sha ms calls results s)"
    and "ds_stage s = Antithesis \<Longrightarrow> verified (ds_evidence (take_results loads sha ms calls results s))"
proof -
  have e: "well_cut (ds_evidence s)" using assms(1) by (simp add: session_ok_def)
  obtain rs where rs: "fold (add_receipt sha (ds_stage s) results) calls (ds_evidence s) = ds_evidence s @ rs" "length rs = length calls"
    "\<forall>r \<in> set rs. rc_stage r = ds_stage s" using fold_receipts(2) [OF e] by blast
  show "session_ok (take_results loads sha ms calls results s)"
    using assms(1) fold_receipts(1) [OF e, of sha "ds_stage s" results calls]
    by (auto simp: session_ok_def take_results_def trim_artifacts_bound rs(1) verified_def)
  show "verified (ds_evidence (take_results loads sha ms calls results s))" if "ds_stage s = Antithesis"
  proof -
    have "rs \<noteq> []" using rs(2) assms(2) by auto
    then obtain r where "r \<in> set rs" by (cases rs) auto
    then show ?thesis using rs that by (auto simp: take_results_def verified_def)
  qed
qed

text \<open>A continuation that succeeds answers the calls, and moves the session on.\<close>

lemma resume_Inr:
  assumes "resume o' b loads sha p results s sent = (sent', s', Inr out)"
  obtains ms where "check_linkage (pr_calls p) results = Inr ()" and "ds_closed s = False" and "ds_stage s = pr_stage p"
    and "ds_outstanding s = pr_calls p" and "ds_generation s = pr_generation p" and "\<not> budget_spent o' s"
    and "advance_stage o' b ''auto'' False (take_results loads sha ms (pr_calls p) results s) sent = (sent', Inr (s', out))"
proof -
  have ok: "\<not> ds_closed s" "ds_stage s = pr_stage p" "ds_outstanding s = pr_calls p" "ds_generation s = pr_generation p" "\<not> budget_spent o' s"
    using assms by (auto simp: resume_def split: if_splits)
  then obtain ms where ms: "append_stage_local_tool_results (ds_messages s) (pr_calls p) results (pr_native p) (do_preserve o') = Inr ms"
    "advance_stage o' b ''auto'' False (take_results loads sha ms (pr_calls p) results s) sent = (sent', Inr (s', out))"
    using assms by (auto simp: resume_def split: sum.splits prod.splits)
  moreover have "check_linkage (pr_calls p) results = Inr ()"
    using ms(1) by (auto simp: append_stage_local_tool_results_def raise_if_def try_bind_Inr_iff split: if_splits)
  ultimately show thesis using that ok by simp
qed

lemma turn_state_ok: "turn_state o' st \<Longrightarrow> outcome_ok (fst st) (snd st)"
proof (induction rule: turn_state.induct)
  case (started b request history prior preserve verification sent sent' st)
  obtain s where s: "advance_stage o' b ''auto'' False s sent = (sent', Inr st)" "\<exists>ms h. s = new_session request ms h verification"
    using started by (auto simp: start_def try_bind_Inr_iff split: if_splits sum.splits)
  then have "session_ok s" "ds_stage s = Thesis" by (auto simp: session_ok_def new_session_def artifact_chars_def)
  then show ?case using advance_ok [of o' b "''auto''" False s sent sent' "fst st" "snd st"] s(1) by simp
next
  case (resumed s p b loads sha results sent sent' s' out)
  have ok: "session_ok s" "pr_calls p \<noteq> []" using resumed.IH by auto
  obtain ms where "advance_stage o' b ''auto'' False (take_results loads sha ms (pr_calls p) results s) sent = (sent', Inr (s', out))"
    using resume_Inr [OF resumed.hyps(2)] by metis
  moreover have "ds_stage (take_results loads sha ms (pr_calls p) results s) = ds_stage s" by (simp add: take_results_def)
  ultimately show ?case using advance_ok take_results_ok [OF ok] by fastforce
qed

text \<open>C12. Under required verification every answer rests on evidence: a completed turn has a receipt of a tool result that
  Antithesis asked for, whatever the backend answers and whichever rounds were refused in between.\<close>

theorem verification_precedes_answer:
  assumes "turn_state o' (s, Completed a)" and "ds_verification_required s"
  shows "\<exists>r \<in> set (ca_evidence a). rc_stage r = Antithesis"
  using turn_state_ok [OF assms(1)] assms(2) by (simp add: verified_def)


text \<open>C14. A tool continuation is taken up at most once, and only by results for exactly its calls: after one that succeeded
  it is stale whatever it is offered; one that failed leaves the session as it was, so it can be retried.\<close>

theorem continuation_once:
  assumes "turn_state o' (s, Pending p)" and "resume o' b loads sha p results s sent = (sent', s', r)"
  shows "case r of
       Inl _ \<Rightarrow> s' = s
     | Inr _ \<Rightarrow> set (map (\<lambda>x. dict_get x ''tool_call_id'') results) = set (map (\<lambda>c. dict_get c ''id'') (pr_calls p))
         \<and> length results = length (pr_calls p)
         \<and> resume o'' b' loads' sha' p results' s' sent'' = (sent'', s', Inl (ProtocolError ''stale, mutated, or mismatched tool continuation''))"
proof (cases r)
  case (Inl e)
  then show ?thesis using assms(2) by (auto simp: resume_def split: if_splits sum.splits prod.splits)
next
  case (Inr out)
  have ok: "session_ok s" "pr_calls p \<noteq> []" using turn_state_ok [OF assms(1)] by auto
  obtain ms where r: "check_linkage (pr_calls p) results = Inr ()" "ds_generation s = pr_generation p"
    "advance_stage o' b ''auto'' False (take_results loads sha ms (pr_calls p) results s) sent = (sent', Inr (s', out))"
    using resume_Inr [OF assms(2)[unfolded Inr]] by metis
  have "ds_generation (take_results loads sha ms (pr_calls p) results s) = ds_generation s + 1"
    "ds_stage (take_results loads sha ms (pr_calls p) results s) = ds_stage s" by (simp_all add: take_results_def)
  then have "pr_generation p < ds_generation s'"
    using advance_ok [OF r(3) take_results_ok(1) [OF ok]] take_results_ok(2) [OF ok] r(2) by fastforce
  moreover have "set (map (\<lambda>x. dict_get x ''tool_call_id'') results) = set (map (\<lambda>c. dict_get c ''id'') (pr_calls p)) \<and> length results = length (pr_calls p)"
    using r(1) by (auto simp: check_linkage_def Let_def split: if_splits list.splits)
  ultimately show ?thesis using Inr by (simp add: resume_def)
qed

section \<open>An example turn\<close>

text \<open>Antithesis reads a file before it answers; \<open>native\<close> is the native reasoning of every answer.\<close>

definition example_orchestrator :: orchestrator where
  "example_orchestrator = \<lparr>do_prompts = map (\<lambda>s. (prompt_name s, PStr (stage_name s))) [Thesis, Antithesis, Synthesis],
     do_tools = [PDict []], do_max_rounds = Some 2, do_preserve = True\<rparr>"

definition example_call :: pydict where
  "example_call = [(''id'', PStr ''c1''), (''function'', PDict [(''name'', PStr ''read''), (''arguments'', PDict [(''path'', PStr ''a.txt'')])])]"

definition example_backend :: "string \<Rightarrow> backend" where
  "example_backend native n = Inr (PDict ((''reasoning_content'', PStr native)
     # (if n = 0 then [(''content'', PStr ''A1'')] else if n = 1 then [(''tool_calls'', PList [PDict example_call])]
        else if n = 2 then [(''content'', PStr ''A2'')] else [(''content'', PStr ''A3'')])))"

lemma example_same_visible: "same_visible (example_backend x) (example_backend y)"
  by (simp add: same_visible_def example_backend_def visible_def NATIVE_REASONING_FIELDS_def)

definition example_tool_results :: "pydict list" where
  "example_tool_results = [[(''tool_call_id'', PStr ''c1''), (''content'', PStr ''text'')]]"

definition example_start :: "string \<Rightarrow> backend_request list \<times> (reasoning_error + session \<times> outcome)" where
  "example_start native = start example_orchestrator (example_backend native) ''q'' [] None False True []"

definition example_resume :: "string \<Rightarrow> backend_request list \<times> session \<times> pending_request \<Rightarrow> backend_request list \<times> session \<times> (reasoning_error + outcome)" where
  "example_resume native st = (case st of (sent, s, p) \<Rightarrow>
     resume example_orchestrator (example_backend native) (\<lambda>_. None) (\<lambda>_. ''h'') p example_tool_results s sent)"

text \<open>A stage that is answered at once: it proposes calls, or its visible text goes on.\<close>

lemma stage_answered:
  assumes "b (length sent) = Inr (PDict a)" and "answer_calls a = Inr calls" and "dict_get a ''_tas_finish_reason'' \<noteq> PStr ''length''"
    and "calls \<noteq> [] \<or> visible_content a \<noteq> None"
  shows "stage_answer o' b s c sent = (sent @ [request_for o' s c], Inr (calls, a))"
  using assms by (auto simp: stage_answer_def attempt_def generate_def raise_if_def)

lemma enter_ok:
  assumes "ds_history s = []" and "py_strip (ds_request s) \<noteq> []" and "py_strip t \<noteq> []"
  shows "\<exists>ms. enter_antithesis t s = Inr (s\<lparr>ds_thesis := t, ds_stage := Antithesis, ds_tool_rounds := 0, ds_messages := ms\<rparr>)"
    and "py_strip (ds_thesis s) \<noteq> [] \<Longrightarrow>
      \<exists>ms. enter_synthesis t s = Inr (s\<lparr>ds_findings := t, ds_stage := Synthesis, ds_tool_rounds := 0, ds_messages := ms\<rparr>)"
  using assms by (auto simp: enter_antithesis_def enter_synthesis_def antithesis_messages_def synthesis_messages_def
      safe_visible_history_def nonempty_text_def try_bind_def)

lemma example_texts: "py_strip ''q'' \<noteq> []" "py_strip ''A1'' \<noteq> []" "py_strip ''A2'' \<noteq> []" "py_strip ''A3'' \<noteq> []"
  by code_simp+

lemma example_answers:
  "answer_calls [(''reasoning_content'', x), (''content'', y)] = Inr []"
  "answer_calls [(''reasoning_content'', x), (''tool_calls'', PList [PDict example_call])] = Inr [example_call]"
  "visible_content [(''reasoning_content'', x), (''content'', PStr t)] = (if py_strip t = [] then None else Some t)"
  by (simp_all add: answer_calls_def dict_get_def visible_content_def raise_if_def nonempty_ids_def example_call_def is_str_def
      well_formed_call_def mapping_of_def map_filter_simps)

lemma example_states:
  obtains sent s p sent' s' a where "example_start x = (sent, Inr (s, Pending p))"
    and "example_resume x (sent, s, p) = (sent', s', Inr (Completed a))" and "length sent' = 4"
    and "ds_verification_required s'" and "map rc_raw (ca_evidence a) = [''text'']"
    and "turn_state example_orchestrator (s, Pending p)" and "turn_state example_orchestrator (s', Completed a)"
proof -
  let ?o = example_orchestrator and ?b = "example_backend x"
  let ?s0 = "new_session ''q'' [text_message ''user'' ''q''] [] True"
  have start: "example_start x = advance_stage ?o ?b ''auto'' False ?s0 []"
    by (simp add: example_start_def start_def example_orchestrator_def next_thesis_messages_def safe_visible_history_def
        nonempty_text_def example_texts try_bind_def)
  have none: "dict_get [(''reasoning_content'', y), (''content'', z)] ''_tas_finish_reason'' = PNone"
    "dict_get [(''reasoning_content'', y), (''tool_calls'', z)] ''_tas_finish_reason'' = PNone" for y z by (simp_all add: dict_get_def)
  obtain ms where e1: "enter_antithesis ''A1'' ?s0 = Inr (?s0\<lparr>ds_thesis := ''A1'', ds_stage := Antithesis, ds_tool_rounds := 0, ds_messages := ms\<rparr>)"
    using enter_ok(1) [of ?s0 "''A1''"] by (auto simp: new_session_def example_texts)
  let ?s1 = "?s0\<lparr>ds_thesis := ''A1'', ds_stage := Antithesis, ds_tool_rounds := 0, ds_messages := ms\<rparr>"
  let ?q0 = "request_for ?o ?s0 ''auto''" and ?q1 = "request_for ?o ?s1 ''required''"
  have a0: "stage_answer ?o ?b ?s0 ''auto'' [] = ([?q0], Inr ([], [(''reasoning_content'', PStr x), (''content'', PStr ''A1'')]))"
    using stage_answered [of ?b "[]" "[(''reasoning_content'', PStr x), (''content'', PStr ''A1'')]" "[]"]
    by (simp add: example_backend_def example_answers none example_texts)
  have a1: "stage_answer ?o ?b ?s1 ''required'' [?q0]
      = ([?q0, ?q1], Inr ([example_call], [(''reasoning_content'', PStr x), (''tool_calls'', PList [PDict example_call])]))"
    using stage_answered [of ?b "[?q0]" "[(''reasoning_content'', PStr x), (''tool_calls'', PList [PDict example_call])]" "[example_call]" ?o ?s1 "''required''"]
    by (simp add: example_backend_def example_answers none)
  let ?s2 = "?s1\<lparr>ds_outstanding := [example_call], ds_generation := 1\<rparr>"
  let ?p = "\<lparr>pr_stage = Antithesis, pr_calls = [example_call], pr_generation = 1, pr_native = answer_reasoning [(''reasoning_content'', PStr x), (''tool_calls'', PList [PDict example_call])]\<rparr>"
  have n: "ds_stage ?s0 = Thesis" "\<not> ds_closed ?s0" "ds_verification_required ?s0" "ds_generation ?s0 = 0" by (simp_all add: new_session_def)
  have om: "do_max_rounds ?o = Some 2" "do_preserve ?o" by (simp_all add: example_orchestrator_def)
  have adv1: "advance_stage ?o ?b ''required'' True ?s1 [?q0] = ([?q0, ?q1], Inr (?s2, Pending ?p))"
    unfolding advance_stage.simps [of ?o ?b "''required''" True ?s1 "[?q0]"] a1 prod.case
    using n om by (simp add: issue_calls_def budget_spent_def new_session_def)
  have run1: "example_start x = ([?q0, ?q1], Inr (?s2, Pending ?p))"
    unfolding start advance_stage.simps [of ?o ?b "''auto''" False ?s0 "[]"] a0 prod.case
    using n adv1 e1 by (simp add: answer_content_def example_answers example_texts)
  obtain ms' where ms': "append_stage_local_tool_results (ds_messages ?s2) [example_call] example_tool_results (pr_native ?p) (do_preserve ?o) = Inr ms'"
    by (simp add: append_stage_local_tool_results_def raise_if_def nonempty_ids_def example_call_def example_tool_results_def dict_get_def is_str_def
        check_linkage_def unhashable_def map_filter_simps tool_output_message_def try_bind_def)
  let ?s3 = "take_results (\<lambda>_. None) (\<lambda>_. ''h'') ms' [example_call] example_tool_results ?s2"
  have f3: "ds_stage ?s3 = Antithesis" "\<not> ds_closed ?s3" "ds_history ?s3 = []" "ds_request ?s3 = ''q''" "ds_thesis ?s3 = ''A1''"
    "ds_verification_required ?s3" "map rc_raw (ds_evidence ?s3) = [''text'']"
    by (simp_all add: take_results_def new_session_def add_receipt_def Let_def example_tool_results_def example_call_def dict_get_def MAX_EVIDENCE_CHARS_def)
  obtain ms'' where e3: "enter_synthesis ''A2'' ?s3 = Inr (?s3\<lparr>ds_findings := ''A2'', ds_stage := Synthesis, ds_tool_rounds := 0, ds_messages := ms''\<rparr>)"
    using enter_ok(2) [of ?s3 "''A2''"] f3 example_texts by auto
  let ?s4 = "?s3\<lparr>ds_findings := ''A2'', ds_stage := Synthesis, ds_tool_rounds := 0, ds_messages := ms''\<rparr>"
  let ?q2 = "request_for ?o ?s3 ''auto''" and ?q3 = "request_for ?o ?s4 ''auto''"
  have a2: "stage_answer ?o ?b ?s3 ''auto'' [?q0, ?q1] = ([?q0, ?q1, ?q2], Inr ([], [(''reasoning_content'', PStr x), (''content'', PStr ''A2'')]))"
    using stage_answered [of ?b "[?q0, ?q1]" "[(''reasoning_content'', PStr x), (''content'', PStr ''A2'')]" "[]" ?o ?s3 "''auto''"]
    by (simp add: example_backend_def example_answers none example_texts)
  have a3: "stage_answer ?o ?b ?s4 ''auto'' [?q0, ?q1, ?q2] = ([?q0, ?q1, ?q2, ?q3], Inr ([], [(''reasoning_content'', PStr x), (''content'', PStr ''A3'')]))"
    using stage_answered [of ?b "[?q0, ?q1, ?q2]" "[(''reasoning_content'', PStr x), (''content'', PStr ''A3'')]" "[]" ?o ?s4 "''auto''"]
    by (simp add: example_backend_def example_answers none example_texts)
  have f4: "ds_stage ?s4 = Synthesis" "\<not> ds_closed ?s4" using f3 by simp_all
  have adv4: "advance_stage ?o ?b ''auto'' False ?s4 [?q0, ?q1, ?q2]
      = ([?q0, ?q1, ?q2, ?q3], Inr (complete ''A3'' [(''reasoning_content'', PStr x), (''content'', PStr ''A3'')] ?s4))"
    unfolding advance_stage.simps [of ?o ?b "''auto''" False ?s4 "[?q0, ?q1, ?q2]"] a3 prod.case
    using f4 by (simp add: answer_content_def example_answers example_texts)
  have adv3: "advance_stage ?o ?b ''auto'' False ?s3 [?q0, ?q1]
      = ([?q0, ?q1, ?q2, ?q3], Inr (complete ''A3'' [(''reasoning_content'', PStr x), (''content'', PStr ''A3'')] ?s4))"
    unfolding advance_stage.simps [of ?o ?b "''auto''" False ?s3 "[?q0, ?q1]"] a2 prod.case
    using f3(1,2) e3 adv4 by (simp add: answer_content_def example_answers example_texts)
  obtain s' a where c: "complete ''A3'' [(''reasoning_content'', PStr x), (''content'', PStr ''A3'')] ?s4 = (s', Completed a)"
    "ds_verification_required s'" "map rc_raw (ca_evidence a) = [''text'']"
    using f3(6,7) by (simp add: complete_def)
  have g: "ds_stage ?s2 = Antithesis" "\<not> ds_closed ?s2" "ds_outstanding ?s2 = [example_call]" "ds_generation ?s2 = 1" "\<not> budget_spent ?o ?s2"
    using n om by (simp_all add: budget_spent_def new_session_def)
  have run2: "example_resume x ([?q0, ?q1], ?s2, ?p) = ([?q0, ?q1, ?q2, ?q3], s', Inr (Completed a))"
    unfolding example_resume_def prod.case resume_def pending_request.select_convs ms'[unfolded pending_request.select_convs] sum.case adv3 c(1)
    using g by simp
  have p: "turn_state ?o (?s2, Pending ?p)" by (rule started [OF run1[unfolded example_start_def]])
  have "turn_state ?o (s', Completed a)" by (rule resumed [OF p run2[unfolded example_resume_def prod.case]])
  then show thesis using that [OF run1 run2] c p by simp
qed

lemma example_turn_length:
  "length (fst (run_turn example_orchestrator (example_backend x) (\<lambda>_. None) (\<lambda>_. ''h'') ''q'' [] None False True [example_tool_results])) = 4"
proof (rule example_states [of x])
  fix sent s p sent' s' a
  assume "example_start x = (sent, Inr (s, Pending p))" "example_resume x (sent, s, p) = (sent', s', Inr (Completed a))" "length sent' = 4"
  then show ?thesis by (simp add: run_turn_def example_start_def example_resume_def)
qed

theorem turn_isolation_witness:
  "map hide_request (fst (run_turn example_orchestrator (example_backend ''R'') (\<lambda>_. None) (\<lambda>_. ''h'') ''q'' [] None False True [example_tool_results]))
     = map hide_request (fst (run_turn example_orchestrator (example_backend ''other'') (\<lambda>_. None) (\<lambda>_. ''h'') ''q'' [] None False True [example_tool_results]))
   \<and> length (fst (run_turn example_orchestrator (example_backend ''R'') (\<lambda>_. None) (\<lambda>_. ''h'') ''q'' [] None False True [example_tool_results])) = 4"
  using turn_isolation [OF example_same_visible] example_turn_length by blast

theorem verification_precedes_answer_witness:
  "\<exists>s a. turn_state example_orchestrator (s, Completed a) \<and> ds_verification_required s \<and> verified (ca_evidence a)"
proof (rule example_states [of "''R''"])
  fix s' a
  assume "ds_verification_required s'" "turn_state example_orchestrator (s', Completed a)"
  then show ?thesis using verification_precedes_answer unfolding verified_def by blast
qed


theorem continuation_once_witness:
  "\<exists>sent s p sent' s' a. example_resume ''R'' (sent, s, p) = (sent', s', Inr (Completed a))
     \<and> example_resume ''R'' (sent', s', p) = (sent', s', Inl (ProtocolError ''stale, mutated, or mismatched tool continuation''))"
proof (rule example_states [of "''R''"])
  fix sent s p sent' s' a
  assume r: "example_resume ''R'' (sent, s, p) = (sent', s', Inr (Completed a))" and t: "turn_state example_orchestrator (s, Pending p)"
  from continuation_once [OF t r[unfolded example_resume_def prod.case],
      of example_orchestrator "example_backend ''R''" "\<lambda>_. None" "\<lambda>_. ''h''" example_tool_results sent']
  have "example_resume ''R'' (sent', s', p) = (sent', s', Inl (ProtocolError ''stale, mutated, or mismatched tool continuation''))"
    by (simp add: example_resume_def)
  then show ?thesis using r by blast
qed

section \<open>How often the backend is asked\<close>

text \<open>A start or a continuation ends, and asks the backend at most twice for each stage it passes.\<close>

theorem backend_calls_bounded:
  "\<exists>new. fst (advance_stage o' b c v s sent) = sent @ new \<and> length new \<le> 2 * (stage_rank (ds_stage s) + 1)"
proof (induction "stage_rank (ds_stage s)" arbitrary: s c v sent rule: less_induct)
  case less
  have same: "same_visible b b" by (simp add: same_visible_def)
  obtain t r where t: "stage_answer o' b s c sent = (t, r)" by (rule prod.exhaust)
  obtain n where n: "t = sent @ replicate n (request_for o' s c)" "n \<le> 2"
    using stage_answer_same(2) [OF same refl refl, of o' s c sent] t by auto
  have stop: "\<exists>new. t = sent @ new \<and> length new \<le> 2 * (stage_rank (ds_stage s) + 1)" using n by simp
  have go_on: "\<exists>new. fst (advance_stage o' b c' v' s1 t) = sent @ new \<and> length new \<le> 2 * (stage_rank (ds_stage s) + 1)"
    if r: "stage_rank (ds_stage s1) < stage_rank (ds_stage s)" for s1 c' v'
  proof -
    obtain new where "fst (advance_stage o' b c' v' s1 t) = t @ new" "length new \<le> 2 * (stage_rank (ds_stage s1) + 1)"
      using less.hyps [OF r] by blast
    then show ?thesis using n r by (intro exI [of _ "replicate n (request_for o' s c) @ new"]) simp
  qed
  have th: "stage_rank (ds_stage s1) < stage_rank (ds_stage s)"
    if "try_bind (answer_content a Thesis) (\<lambda>x. enter_antithesis x s) = Inr s1" "ds_stage s = Thesis" for a s1
    using that by (auto simp: try_bind_Inr_iff enter_antithesis_stage)
  have an: "stage_rank (ds_stage s1) < stage_rank (ds_stage s)"
    if "try_bind (answer_content a Antithesis) (\<lambda>x. enter_synthesis x s) = Inr s1" "ds_stage s = Antithesis" for a s1
    using that by (auto simp: try_bind_Inr_iff enter_synthesis_stage)
  show ?case
    unfolding advance_stage.simps [of o' b c v s sent] t prod.case
    using stop go_on th an by (auto split: sum.splits)
qed

end
