(* ===== verification/DeepBridge.thy ===== *)
theory DeepBridge
  imports DeepContext
begin

text \<open>
  \<open>jack_deep_reasoning_bridge.py\<close>: the native reasoning of a completed Synthesis waits for the Thesis of the
  next turn. A lease on it is exclusive, and it is used once. The clock is an argument, a token the
  fresh number of a published entry.
\<close>

section \<open>The bridge\<close>

record frontier =
  fr_user :: string
  fr_answer :: string
  fr_reasoning :: string
  fr_created :: int
  fr_token :: nat
  fr_owner :: "string option"

record bridge =
  bg_frontiers :: "frontier list"
  bg_max_entries :: nat
  bg_ttl :: int
  bg_require_owner :: bool
  bg_reserved :: "nat set"

definition new_bridge :: "int \<Rightarrow> int \<Rightarrow> bool \<Rightarrow> reasoning_error + bridge" where
  "new_bridge max_entries ttl require_owner =
     (if max_entries < 1 \<or> ttl < 1 then Inl (ProjectionValueError ''Invalid R3 bridge bounds'')
      else Inr \<lparr>bg_frontiers = [], bg_max_entries = nat max_entries, bg_ttl = ttl, bg_require_owner = require_owner, bg_reserved = {}\<rparr>)"

definition tokens :: "bridge \<Rightarrow> nat set" where
  "tokens g = fr_token ` set (bg_frontiers g)"

definition expire :: "int \<Rightarrow> bridge \<Rightarrow> bridge" where
  "expire now g = (let live = filter (\<lambda>r. now - fr_created r < bg_ttl g) (bg_frontiers g) in
     g\<lparr>bg_frontiers := live, bg_reserved := bg_reserved g \<inter> fr_token ` set live\<rparr>)"

definition nonblank :: "pyval \<Rightarrow> string option" where
  "nonblank v = (case v of PStr s \<Rightarrow> if py_strip s = [] then None else Some s | _ \<Rightarrow> None)"

definition no_owner :: "string option \<Rightarrow> bool" where
  "no_owner key = (case key of None \<Rightarrow> True | Some k \<Rightarrow> k = [])"

text \<open>The frontiers are a \<open>deque\<close> with a maximal length.\<close>

definition publish :: "int \<Rightarrow> nat \<Rightarrow> pyval \<Rightarrow> pyval \<Rightarrow> pyval \<Rightarrow> string option \<Rightarrow> bridge \<Rightarrow> bridge \<times> bool" where
  "publish now token user answer reasoning key g =
     (let g' = expire now g in
      if bg_require_owner g \<and> no_owner key then (g', False)
      else (case (nonblank user, nonblank answer, nonblank reasoning) of
          (Some u, Some a, Some r) \<Rightarrow>
            (g'\<lparr>bg_frontiers := drop (Suc (length (bg_frontiers g')) - bg_max_entries g) (bg_frontiers g'
               @ [\<lparr>fr_user = u, fr_answer = a, fr_reasoning = r, fr_created = now, fr_token = token, fr_owner = key\<rparr>])\<rparr>, True)
        | _ \<Rightarrow> (g', False)))"

definition bridge_message :: "pyval \<Rightarrow> reasoning_error + string \<times> string" where
  "bridge_message msg =
     (case msg of
        PDict m \<Rightarrow>
          (case (dict_get m ''role'', dict_get m ''content'') of
             (PStr role, PStr content) \<Rightarrow>
               if role \<in> {''user'', ''assistant''} then Inr (role, content)
               else Inl (ProjectionValueError ''Bridge requires filtered visible user/assistant history'')
           | _ \<Rightarrow> Inl (ProjectionValueError ''Bridge requires filtered visible user/assistant history''))
      | _ \<Rightarrow> Inl (ProjectionValueError ''Bridge requires filtered visible user/assistant history''))"

definition frontier_matches :: "bridge \<Rightarrow> string option \<Rightarrow> string \<Rightarrow> string \<Rightarrow> frontier \<Rightarrow> bool" where
  "frontier_matches g key user answer r \<longleftrightarrow> fr_user r = user \<and> fr_answer r = answer
     \<and> (\<not> bg_require_owner g \<or> key \<noteq> None \<and> fr_owner r = key)"

text \<open>\<open>_matching_frontier\<close>: the bridge has been expired before; the last two messages choose the frontier.\<close>

definition last_pair :: "(string \<times> string) list \<Rightarrow> (string \<times> string) option" where
  "last_pair msgs = (case rev msgs of
       (role2, answer) # (role1, user) # _ \<Rightarrow> if role1 = ''user'' \<and> role2 = ''assistant'' then Some (user, answer) else None
     | _ \<Rightarrow> None)"

definition matching_frontier :: "pyval list \<Rightarrow> string option \<Rightarrow> bridge \<Rightarrow> reasoning_error + (string \<times> string) list \<times> frontier option" where
  "matching_frontier history key g =
     try_bind (try_map bridge_message history) (\<lambda>msgs. Inr (msgs,
       case last_pair msgs of
         None \<Rightarrow> None
       | Some (user, answer) \<Rightarrow>
           (case filter (frontier_matches g key user answer) (bg_frontiers g) of
              [r] \<Rightarrow> if fr_token r \<in> bg_reserved g then None else Some r
            | _ \<Rightarrow> None)))"

definition completed_of :: "frontier \<Rightarrow> completed_synthesis" where
  "completed_of r = \<lparr>cs_user_request = fr_user r, cs_answer = fr_answer r, cs_reasoning = fr_reasoning r\<rparr>"

definition reserve ::
    "int \<Rightarrow> pyval list \<Rightarrow> string option \<Rightarrow> bridge \<Rightarrow> bridge \<times> (reasoning_error + (string \<times> string) list \<times> (completed_synthesis \<times> nat) option)" where
  "reserve now history key g =
     (let g' = expire now g in
      case matching_frontier history key g' of
        Inl e \<Rightarrow> (g', Inl e)
      | Inr (msgs, None) \<Rightarrow> (g', Inr (msgs, None))
      | Inr (msgs, Some r) \<Rightarrow>
          (g'\<lparr>bg_reserved := insert (fr_token r) (bg_reserved g')\<rparr>, Inr (take (length msgs - 2) msgs, Some (completed_of r, fr_token r))))"

definition retire :: "int \<Rightarrow> nat \<Rightarrow> bridge \<Rightarrow> bridge \<times> bool" where
  "retire now token g =
     (let g' = expire now g in
      if token \<notin> bg_reserved g' then (g', False)
      else (case find (\<lambda>r. fr_token r = token) (bg_frontiers g') of
          None \<Rightarrow> (g'\<lparr>bg_reserved := bg_reserved g' - {token}\<rparr>, False)
        | Some r \<Rightarrow> (g'\<lparr>bg_frontiers := remove1 r (bg_frontiers g'), bg_reserved := bg_reserved g' - {token}\<rparr>, True)))"

definition release :: "nat \<Rightarrow> bridge \<Rightarrow> bridge" where
  "release token g = g\<lparr>bg_reserved := bg_reserved g - {token}\<rparr>"

definition claim ::
    "int \<Rightarrow> pyval list \<Rightarrow> string option \<Rightarrow> bridge \<Rightarrow> bridge \<times> (reasoning_error + (string \<times> string) list \<times> (completed_synthesis \<times> nat) option)" where
  "claim now history key g =
     (let g' = expire now g in
      case matching_frontier history key g' of
        Inl e \<Rightarrow> (g', Inl e)
      | Inr (msgs, None) \<Rightarrow> (g', Inr (msgs, None))
      | Inr (msgs, Some r) \<Rightarrow>
          (g'\<lparr>bg_frontiers := remove1 r (bg_frontiers g')\<rparr>, Inr (take (length msgs - 2) msgs, Some (completed_of r, fr_token r))))"

section \<open>Leases\<close>

text \<open>The bridge, the leases that are held, the tokens whose reasoning was used, and all tokens given out.\<close>

record bridge_world =
  bw_bridge :: bridge
  bw_held :: "nat list"
  bw_spent :: "nat list"
  bw_issued :: "nat set"

inductive bridge_step :: "bridge_world \<Rightarrow> bridge_world \<Rightarrow> bool" where
  publish: "token \<notin> bw_issued w \<Longrightarrow> publish now token user answer reasoning key (bw_bridge w) = (g, b)
     \<Longrightarrow> bridge_step w (w\<lparr>bw_bridge := g, bw_issued := insert token (bw_issued w)\<rparr>)"
| leased: "reserve now history key (bw_bridge w) = (g, Inr (msgs, Some (c, token)))
     \<Longrightarrow> bridge_step w (w\<lparr>bw_bridge := g, bw_held := bw_held w @ [token]\<rparr>)"
| refused: "reserve now history key (bw_bridge w) = (g, r) \<Longrightarrow> (\<nexists>msgs c token. r = Inr (msgs, Some (c, token)))
     \<Longrightarrow> bridge_step w (w\<lparr>bw_bridge := g\<rparr>)"
| retire: "token \<in> set (bw_held w) \<Longrightarrow> retire now token (bw_bridge w) = (g, b)
     \<Longrightarrow> bridge_step w (w\<lparr>bw_bridge := g, bw_held := remove1 token (bw_held w), bw_spent := (if b then token # bw_spent w else bw_spent w)\<rparr>)"
| release: "token \<in> set (bw_held w) \<Longrightarrow> bridge_step w (w\<lparr>bw_bridge := release token (bw_bridge w), bw_held := remove1 token (bw_held w)\<rparr>)"
| claimed: "claim now history key (bw_bridge w) = (g, Inr (msgs, Some (c, token)))
     \<Longrightarrow> bridge_step w (w\<lparr>bw_bridge := g, bw_spent := token # bw_spent w\<rparr>)"
| unclaimed: "claim now history key (bw_bridge w) = (g, r) \<Longrightarrow> (\<nexists>msgs c token. r = Inr (msgs, Some (c, token)))
     \<Longrightarrow> bridge_step w (w\<lparr>bw_bridge := g\<rparr>)"

definition new_world_of :: "bridge \<Rightarrow> bridge_world" where
  "new_world_of g = \<lparr>bw_bridge = g, bw_held = [], bw_spent = [], bw_issued = {}\<rparr>"

text \<open>Each entry has its own token; a held lease is reserved, or its entry is gone; what was used is gone.\<close>

definition bridge_ok :: "bridge_world \<Rightarrow> bool" where
  "bridge_ok w \<longleftrightarrow> distinct (map fr_token (bg_frontiers (bw_bridge w))) \<and> tokens (bw_bridge w) \<subseteq> bw_issued w
     \<and> distinct (bw_held w) \<and> set (bw_held w) \<subseteq> bw_issued w \<and> (\<forall>t \<in> set (bw_held w). t \<in> tokens (bw_bridge w) \<longrightarrow> t \<in> bg_reserved (bw_bridge w))
     \<and> distinct (bw_spent w) \<and> set (bw_spent w) \<subseteq> bw_issued w \<and> set (bw_spent w) \<inter> tokens (bw_bridge w) = {}"

text \<open>A bridge with some of the entries, in their order, and at least the reservations of those.\<close>

definition shrunk :: "bridge \<Rightarrow> bridge \<Rightarrow> bool" where
  "shrunk g g' \<longleftrightarrow> (\<exists>P. bg_frontiers g' = filter P (bg_frontiers g)) \<and> bg_reserved g \<inter> tokens g' \<subseteq> bg_reserved g'"

lemma shrunk_tokens: "shrunk g g' \<Longrightarrow> tokens g' \<subseteq> tokens g"
  by (auto simp: shrunk_def tokens_def)

lemma shrunk_ok:
  assumes "bridge_ok w" and "shrunk (bw_bridge w) g"
  shows "bridge_ok (w\<lparr>bw_bridge := g\<rparr>)"
proof -
  obtain P where P: "bg_frontiers g = filter P (bg_frontiers (bw_bridge w))" using assms(2) by (auto simp: shrunk_def)
  have "distinct (map fr_token (bg_frontiers g))" using assms(1) by (simp add: P bridge_ok_def distinct_map_filter)
  moreover have sub: "tokens g \<subseteq> tokens (bw_bridge w)" by (rule shrunk_tokens [OF assms(2)])
  moreover have "bg_reserved (bw_bridge w) \<inter> tokens g \<subseteq> bg_reserved g" using assms(2) by (simp add: shrunk_def)
  then have "\<forall>t \<in> set (bw_held w). t \<in> tokens g \<longrightarrow> t \<in> bg_reserved g" using assms(1) sub unfolding bridge_ok_def by blast
  moreover have "set (bw_spent w) \<inter> tokens g = {}" using assms(1) sub unfolding bridge_ok_def by blast
  ultimately show ?thesis using assms(1) by (auto simp: bridge_ok_def)
qed

lemma expire_shrunk: "shrunk g (expire now g)"
  by (auto simp: shrunk_def expire_def Let_def tokens_def)

lemma matching_frontier_Some:
  assumes "matching_frontier history key g = Inr (msgs, Some r)"
  shows "r \<in> set (bg_frontiers g)" and "fr_token r \<notin> bg_reserved g"
    and "last_pair msgs = Some (fr_user r, fr_answer r)" and "bg_require_owner g \<Longrightarrow> key \<noteq> None \<and> fr_owner r = key"
proof -
  obtain user answer where m: "last_pair msgs = Some (user, answer)" "filter (frontier_matches g key user answer) (bg_frontiers g) = [r]"
    "fr_token r \<notin> bg_reserved g"
    using assms by (auto simp: matching_frontier_def try_bind_Inr_iff split: option.splits list.splits if_splits prod.splits)
  have "r \<in> set (filter (frontier_matches g key user answer) (bg_frontiers g))" using m(2) by simp
  then have r: "r \<in> set (bg_frontiers g)" "frontier_matches g key user answer r" by simp_all
  show "r \<in> set (bg_frontiers g)" by (rule r(1))
  show "fr_token r \<notin> bg_reserved g" by (rule m(3))
  show "last_pair msgs = Some (fr_user r, fr_answer r)" using m(1) r(2) by (simp add: frontier_matches_def)
  show "key \<noteq> None \<and> fr_owner r = key" if "bg_require_owner g" using r(2) that by (simp add: frontier_matches_def)
qed

lemma reserve_Some:
  assumes "reserve now history key g = (g', Inr (msgs, Some (c, token)))"
  obtains r ms where "matching_frontier history key (expire now g) = Inr (ms, Some r)"
    and "g' = (expire now g)\<lparr>bg_reserved := insert (fr_token r) (bg_reserved (expire now g))\<rparr>" and "token = fr_token r" and "c = completed_of r"
proof (cases "matching_frontier history key (expire now g)")
  case (Inl e)
  then show ?thesis using assms by (simp add: reserve_def Let_def)
next
  case (Inr x)
  obtain ms f where x: "x = (ms, f)" by (cases x)
  show ?thesis
  proof (cases f)
    case None
    then show ?thesis using assms Inr x by (simp add: reserve_def Let_def)
  next
    case (Some r)
    show ?thesis by (rule that [of ms r]) (use assms Inr x Some in \<open>auto simp: reserve_def Let_def\<close>)
  qed
qed

lemma claim_Some:
  assumes "claim now history key g = (g', Inr (msgs, Some (c, token)))"
  obtains r ms where "matching_frontier history key (expire now g) = Inr (ms, Some r)"
    and "g' = (expire now g)\<lparr>bg_frontiers := remove1 r (bg_frontiers (expire now g))\<rparr>" and "token = fr_token r"
proof (cases "matching_frontier history key (expire now g)")
  case (Inl e)
  then show ?thesis using assms by (simp add: claim_def Let_def)
next
  case (Inr x)
  obtain ms f where x: "x = (ms, f)" by (cases x)
  show ?thesis
  proof (cases f)
    case None
    then show ?thesis using assms Inr x by (simp add: claim_def Let_def)
  next
    case (Some r)
    show ?thesis by (rule that [of ms r]) (use assms Inr x Some in \<open>auto simp: claim_def Let_def\<close>)
  qed
qed

lemma nothing_given:
  "reserve now history key g = (g', r) \<Longrightarrow> \<nexists>msgs c token. r = Inr (msgs, Some (c, token)) \<Longrightarrow> g' = expire now g"
  "claim now history key g = (g', r) \<Longrightarrow> \<nexists>msgs c token. r = Inr (msgs, Some (c, token)) \<Longrightarrow> g' = expire now g"
  by (cases "matching_frontier history key (expire now g)"; force simp: reserve_def claim_def Let_def split: prod.splits option.splits)+

lemma remove1_filter:
  "distinct (map fr_token rs) \<Longrightarrow> r \<in> set rs \<Longrightarrow> remove1 r rs = filter (\<lambda>x. fr_token x \<noteq> fr_token r) rs"
proof (induction rs)
  case (Cons x rs)
  then show ?case by (auto simp: image_iff intro!: filter_True [symmetric])
qed simp

lemma fresh_filter: "r \<in> set rs \<Longrightarrow> fr_token r \<notin> fr_token ` set (filter (\<lambda>x. fr_token x \<noteq> fr_token r) rs)"
  by auto

lemma found: "find P xs = Some x \<Longrightarrow> x \<in> set xs \<and> P x"
  by (induction xs) (auto split: if_splits)

lemma distinct_map_drop: "distinct (map f xs) \<Longrightarrow> distinct (map f (drop n xs))"
  by (simp add: drop_map [symmetric])

lemma bridge_ok_step:
  assumes "bridge_step w w'" and "bridge_ok w"
  shows "bridge_ok w'"
  using assms(1)
proof cases
  case (publish token now user answer reasoning key g b)
  let ?e = "expire now (bw_bridge w)"
  have e: "bridge_ok (w\<lparr>bw_bridge := ?e\<rparr>)" by (rule shrunk_ok [OF assms(2) expire_shrunk])
  have "bridge_ok (w\<lparr>bw_bridge := g, bw_issued := insert token (bw_issued w)\<rparr>)"
  proof (cases "g = ?e")
    case True
    then show ?thesis using e by (auto simp: bridge_ok_def)
  next
    case False
    then obtain u a r where g: "g = ?e\<lparr>bg_frontiers := drop (Suc (length (bg_frontiers ?e)) - bg_max_entries (bw_bridge w)) (bg_frontiers ?e
        @ [\<lparr>fr_user = u, fr_answer = a, fr_reasoning = r, fr_created = now, fr_token = token, fr_owner = key\<rparr>])\<rparr>"
      using publish(3) by (auto simp: publish_def Let_def split: if_splits option.splits)
    let ?all = "bg_frontiers ?e @ [\<lparr>fr_user = u, fr_answer = a, fr_reasoning = r, fr_created = now, fr_token = token, fr_owner = key\<rparr>]"
    have new: "token \<notin> tokens ?e" using e publish(2) by (auto simp: bridge_ok_def)
    have d: "distinct (map fr_token ?all)" using e new by (simp add: bridge_ok_def tokens_def)
    have sub: "tokens g \<subseteq> insert token (tokens ?e)" by (auto simp: g tokens_def dest: in_set_dropD)
    have "bg_frontiers g = drop (Suc (length (bg_frontiers ?e)) - bg_max_entries (bw_bridge w)) ?all" unfolding g by simp
    then have "distinct (map fr_token (bg_frontiers g))" using distinct_map_drop [OF d] by (simp only:)
    moreover have "\<forall>t \<in> set (bw_held w). t \<in> tokens g \<longrightarrow> t \<in> bg_reserved g"
      using e sub publish(2) unfolding bridge_ok_def by (auto simp: g)
    moreover have "set (bw_spent w) \<inter> tokens g = {}" using e sub publish(2) unfolding bridge_ok_def by auto
    ultimately show ?thesis using e sub unfolding bridge_ok_def by auto
  qed
  then show ?thesis by (simp add: publish(1))
next
  case (leased now history key g msgs c token)
  let ?e = "expire now (bw_bridge w)"
  have e: "bridge_ok (w\<lparr>bw_bridge := ?e\<rparr>)" by (rule shrunk_ok [OF assms(2) expire_shrunk])
  obtain r ms where m: "matching_frontier history key ?e = Inr (ms, Some r)" "g = ?e\<lparr>bg_reserved := insert (fr_token r) (bg_reserved ?e)\<rparr>" "token = fr_token r"
    using reserve_Some [OF leased(2)] by metis
  have tk: "token \<in> tokens ?e" "token \<notin> bg_reserved ?e" using matching_frontier_Some(1,2) [OF m(1)] m(3) by (auto simp: tokens_def)
  then have "token \<notin> set (bw_held w)" using e unfolding bridge_ok_def by auto
  moreover have "tokens g = tokens ?e" by (simp add: m(2) tokens_def)
  ultimately have "bridge_ok (w\<lparr>bw_bridge := g, bw_held := bw_held w @ [token]\<rparr>)"
    using e tk unfolding bridge_ok_def by (auto simp: m(2,3))
  then show ?thesis by (simp add: leased(1))
next
  case (refused now history key g r)
  have "g = expire now (bw_bridge w)" by (rule nothing_given(1) [OF refused(2,3)])
  then show ?thesis using shrunk_ok [OF assms(2) expire_shrunk] refused(1) by simp
next
  case (retire token now g b)
  let ?e = "expire now (bw_bridge w)"
  have e: "bridge_ok (w\<lparr>bw_bridge := ?e\<rparr>)" by (rule shrunk_ok [OF assms(2) expire_shrunk])
  have ns: "token \<in> tokens ?e \<Longrightarrow> token \<notin> set (bw_spent w)" using e unfolding bridge_ok_def by auto
  show ?thesis
  proof (cases b)
    case False
    then have g: "tokens g = tokens ?e" "bg_frontiers g = bg_frontiers ?e" "bg_reserved ?e - {token} \<subseteq> bg_reserved g"
      using retire(3) by (auto simp: retire_def Let_def tokens_def split: if_splits option.splits)
    then show ?thesis using e False unfolding retire(1) bridge_ok_def by (auto dest: in_set_remove1 simp: distinct_remove1)
  next
    case True
    then obtain r where r: "r \<in> set (bg_frontiers ?e)" "fr_token r = token" "token \<in> bg_reserved ?e"
      "g = ?e\<lparr>bg_frontiers := remove1 r (bg_frontiers ?e), bg_reserved := bg_reserved ?e - {token}\<rparr>"
      using retire(3) by (auto simp: retire_def Let_def dest!: found split: if_splits option.splits)
    have d: "distinct (map fr_token (bg_frontiers ?e))" using e by (simp add: bridge_ok_def)
    have f: "bg_frontiers g = filter (\<lambda>x. fr_token x \<noteq> token) (bg_frontiers ?e)" using remove1_filter [OF d r(1)] r(2,4) by simp
    then have tk: "tokens g = tokens ?e - {token}" by (auto simp: tokens_def)
    have "token \<in> tokens ?e" using r(1,2) by (auto simp: tokens_def)
    then show ?thesis using e True tk f ns d unfolding retire(1) bridge_ok_def
      by (auto simp: r(4) distinct_map_filter distinct_remove1)
  qed
next
  case (release token)
  have "set (remove1 token (bw_held w)) = set (bw_held w) - {token}" using assms(2) by (simp add: bridge_ok_def)
  then show ?thesis using assms(2) unfolding release(1) bridge_ok_def by (auto simp: release_def tokens_def distinct_remove1)
next
  case (claimed now history key g msgs c token)
  let ?e = "expire now (bw_bridge w)"
  have e: "bridge_ok (w\<lparr>bw_bridge := ?e\<rparr>)" by (rule shrunk_ok [OF assms(2) expire_shrunk])
  obtain r ms where m: "matching_frontier history key ?e = Inr (ms, Some r)" "g = ?e\<lparr>bg_frontiers := remove1 r (bg_frontiers ?e)\<rparr>" "token = fr_token r"
    using claim_Some [OF claimed(2)] by metis
  have d: "distinct (map fr_token (bg_frontiers ?e))" using e by (simp add: bridge_ok_def)
  have f: "bg_frontiers g = filter (\<lambda>x. fr_token x \<noteq> token) (bg_frontiers ?e)"
    using remove1_filter [OF d matching_frontier_Some(1) [OF m(1)]] m(2,3) by simp
  then have tk: "tokens g = tokens ?e - {token}" by (auto simp: tokens_def)
  have "token \<in> tokens ?e" using matching_frontier_Some(1) [OF m(1)] m(3) by (auto simp: tokens_def)
  then show ?thesis using e tk f d unfolding claimed(1) bridge_ok_def by (auto simp: m(2) distinct_map_filter)
next
  case (unclaimed now history key g r)
  have "g = expire now (bw_bridge w)" by (rule nothing_given(2) [OF unclaimed(2,3)])
  then show ?thesis using shrunk_ok [OF assms(2) expire_shrunk] unclaimed(1) by simp
qed

lemma bridge_ok_reachable: "bridge_step\<^sup>*\<^sup>* (new_world_of g) w \<Longrightarrow> bg_frontiers g = [] \<Longrightarrow> bridge_ok w"
proof (induction rule: rtranclp_induct)
  case base
  then show ?case by (simp add: bridge_ok_def new_world_of_def tokens_def)
next
  case (step w w')
  then show ?case using bridge_ok_step by blast
qed

text \<open>C13. The native reasoning of a completed turn is leased to one receiver at a time and used once: in every reachable state
  of the bridge the leases that are held are distinct, none of them has been used, what was used is never leased
  again, and whoever gets reasoning has shown the request and the answer it belongs to as the last two messages, before its time ran
  out.\<close>

theorem reasoning_leased_once:
  assumes "bridge_step\<^sup>*\<^sup>* (new_world_of g) w" and "bg_frontiers g = []"
    and "reserve now history key (bw_bridge w) = (g', Inr (msgs, Some (c, token)))"
  shows "distinct (bw_held w @ [token]) \<and> distinct (token # bw_spent w)
     \<and> (\<exists>r \<in> set (bg_frontiers (bw_bridge w)). c = completed_of r \<and> fr_token r = token \<and> now - fr_created r < bg_ttl (bw_bridge w)
         \<and> (\<exists>all. try_map bridge_message history = Inr all \<and> last_pair all = Some (cs_user_request c, cs_answer c))
         \<and> (bg_require_owner (bw_bridge w) \<longrightarrow> key \<noteq> None \<and> fr_owner r = key))"
proof -
  let ?e = "expire now (bw_bridge w)"
  have "bridge_ok w" by (rule bridge_ok_reachable [OF assms(1,2)])
  then have e: "bridge_ok (w\<lparr>bw_bridge := ?e\<rparr>)" by (rule shrunk_ok [OF _ expire_shrunk])
  obtain r ms where m: "matching_frontier history key ?e = Inr (ms, Some r)" "token = fr_token r" "c = completed_of r"
    using reserve_Some [OF assms(3)] by metis
  note r = matching_frontier_Some [OF m(1)]
  have tk: "token \<in> tokens ?e" "token \<notin> bg_reserved ?e" using r(1,2) m(2) by (auto simp: tokens_def)
  have "token \<notin> set (bw_held w)" "token \<notin> set (bw_spent w)" using e tk unfolding bridge_ok_def by auto
  moreover have "r \<in> set (bg_frontiers (bw_bridge w))" "now - fr_created r < bg_ttl (bw_bridge w)"
    using r(1) by (auto simp: expire_def Let_def)
  moreover have "bg_require_owner ?e = bg_require_owner (bw_bridge w)" by (simp add: expire_def Let_def)
  moreover have "try_map bridge_message history = Inr ms" using m(1) by (auto simp: matching_frontier_def try_bind_Inr_iff)
  ultimately show ?thesis using e r(3,4) m(2,3) unfolding bridge_ok_def by (auto simp: completed_of_def)
qed

definition example_bridge :: bridge where
  "example_bridge = \<lparr>bg_frontiers = [], bg_max_entries = 2, bg_ttl = 10, bg_require_owner = False, bg_reserved = {}\<rparr>"

definition pair_history :: "pyval list" where
  "pair_history = map PDict [text_message ''user'' ''q'', text_message ''assistant'' ''a'']"

theorem reasoning_leased_once_witness:
  "\<exists>w g c. bridge_step\<^sup>*\<^sup>* (new_world_of example_bridge) w \<and> reserve 5 pair_history None (bw_bridge w) = (g, Inr ([], Some (c, 7)))
     \<and> cs_reasoning c = ''R'' \<and> 7 \<notin> set (bw_held w) \<and> snd (reserve 6 pair_history None g) = Inr ([(''user'', ''q''), (''assistant'', ''a'')], None)"
proof -
  let ?g = "fst (publish 1 7 (PStr ''q'') (PStr ''a'') (PStr ''R'') None example_bridge)"
  let ?w = "(new_world_of example_bridge)\<lparr>bw_bridge := ?g, bw_issued := insert 7 (bw_issued (new_world_of example_bridge))\<rparr>"
  have "bridge_step (new_world_of example_bridge) ?w"
    by (rule bridge_step.publish [where token = 7 and now = 1 and user = "PStr ''q''" and answer = "PStr ''a''" and reasoning = "PStr ''R''" and key = None])
      (simp_all add: new_world_of_def prod_eq_iff)
  then have reach: "bridge_step\<^sup>*\<^sup>* (new_world_of example_bridge) ?w" by blast
  let ?c = "\<lparr>cs_user_request = ''q'', cs_answer = ''a'', cs_reasoning = ''R''\<rparr>"
  have "snd (reserve 5 pair_history None ?g) = Inr ([], Some (?c, 7))"
    "snd (reserve 6 pair_history None (fst (reserve 5 pair_history None ?g))) = Inr ([(''user'', ''q''), (''assistant'', ''a'')], None)"
    by code_simp+
  then obtain g c where r: "reserve 5 pair_history None ?g = (g, Inr ([], Some (c, 7)))" "cs_reasoning c = ''R''"
    "snd (reserve 6 pair_history None g) = Inr ([(''user'', ''q''), (''assistant'', ''a'')], None)"
    by (metis completed_synthesis.select_convs(3) prod.collapse)
  have "bg_frontiers example_bridge = []" by (simp add: example_bridge_def)
  then have "7 \<notin> set (bw_held ?w)" using reasoning_leased_once [OF reach, of 5 pair_history None g "[]" c 7] r(1) by simp
  then show ?thesis using reach r by (intro exI [of _ ?w] exI [of _ g] exI [of _ c]) simp
qed

end
