(* ===== verification/ResponsesCompat.thy ===== *)
theory ResponsesCompat
  imports EvidenceProvenance PendingTools EventHub
begin

text \<open>
  \<open>jack_responses_compat.py\<close>: the Responses API on top of the kernel's chat interface. A request is
  converted to a chat request and cut down to what a caller may decide (\<open>sanitize_agent_request\<close> of
  \<open>jack_kernel.py\<close>); the kernel's chat chunks are converted back, event by event. Identifiers and times
  are arguments, a chunk is its decoded text, \<open>loads\<close> is \<open>json.loads\<close>.
\<close>

section \<open>Content\<close>

text \<open>What the converters raise, and what the kernel raises into them. The detail of an \<open>HTTPException\<close> is a value.\<close>

datatype compat_error = HttpDetail nat pyval | TypeFailure | ValueFailure | OtherFailure string

definition TEXT_TYPES :: "string list" where
  "TEXT_TYPES = [''input_text'', ''output_text'', ''text'']"

definition IMAGE_TYPES :: "string list" where
  "IMAGE_TYPES = [''input_image'', ''image_url'']"

definition is_container :: "pyval \<Rightarrow> bool" where
  "is_container v = (case v of PList _ \<Rightarrow> True | PDict _ \<Rightarrow> True | _ \<Rightarrow> False)"

text \<open>An item of a list of content: the texts it adds. A list or a dict cannot be looked up in a set.\<close>

definition text_part :: "pyval \<Rightarrow> compat_error + string list" where
  "text_part item =
     (case item of
        PStr s \<Rightarrow> Inr [s]
      | PDict d \<Rightarrow>
          if is_container (dict_get d ''type'') then Inl TypeFailure
          else Inr (if dict_get d ''type'' \<in> PStr ` set TEXT_TYPES then [str_or_empty (dict_get d ''text'')] else [])
      | _ \<Rightarrow> Inr [])"

lemma map_of_size: "map_of d k = Some v \<Longrightarrow> size v < size (PDict d)"
proof (induction d)
  case (Cons p d)
  then show ?case by (cases p) (auto split: if_splits)
qed simp

function content_text :: "pyval \<Rightarrow> compat_error + string" where
  "content_text v =
     (case v of
        PNone \<Rightarrow> Inr []
      | PStr s \<Rightarrow> Inr s
      | PList vs \<Rightarrow> try_bind (try_map text_part vs) (\<lambda>parts. Inr (join_with (CHR 0x0A) (filter (\<lambda>p. p \<noteq> []) (concat parts))))
      | PDict d \<Rightarrow>
          (case map_of d ''body'' of
             Some w \<Rightarrow> content_text w
           | None \<Rightarrow>
               (case map_of d ''content'' of
                  Some w \<Rightarrow> content_text w
                | None \<Rightarrow> Inr (if dict_has d ''text'' then str_or_empty (dict_get d ''text'') else spaced_text v)))
      | _ \<Rightarrow> Inr (py_str v))"
  by pat_completeness auto
termination
  by (relation "measure size") (auto dest: map_of_size)

declare content_text.simps [simp del]

text \<open>The blocks of a message: text and images.\<close>

datatype content_block = TextBlock string | ImageBlock string

definition block_value :: "content_block \<Rightarrow> pyval" where
  "block_value b = (case b of
       TextBlock s \<Rightarrow> PDict [(''type'', PStr ''text''), (''text'', PStr s)]
     | ImageBlock url \<Rightarrow> PDict [(''type'', PStr ''image_url''), (''image_url'', PDict [(''url'', PStr url)])])"

definition block_text :: "content_block \<Rightarrow> string option" where
  "block_text b = (case b of TextBlock s \<Rightarrow> Some s | ImageBlock _ \<Rightarrow> None)"

definition buffered :: "string list \<Rightarrow> content_block list" where
  "buffered buf = (if buf = [] then [] else [TextBlock (concat buf)])"

fun content_blocks :: "pyval list \<Rightarrow> content_block list \<Rightarrow> string list \<Rightarrow> compat_error + content_block list" where
  "content_blocks [] blocks buf = Inr (blocks @ buffered buf)"
| "content_blocks (item # items) blocks buf =
     (case item of
        PDict d \<Rightarrow>
          (let typ = str_or_empty (dict_get d ''type'') in
           if typ \<in> set TEXT_TYPES then content_blocks items blocks (buf @ [str_or_empty (dict_get d ''text'')])
           else if typ \<in> set IMAGE_TYPES then
             (let url = (if truthy (dict_get d ''image_url'') then dict_get d ''image_url'' else dict_get d ''url'') in
              if truthy url then content_blocks items (blocks @ buffered buf @ [ImageBlock (py_str url)]) []
              else content_blocks items blocks buf)
           else content_blocks items blocks buf)
      | _ \<Rightarrow> try_bind (content_text item) (\<lambda>s. content_blocks items blocks (buf @ [s])))"

definition blocks_content :: "content_block list \<Rightarrow> pyval" where
  "blocks_content blocks =
     (if blocks = [] then PStr []
      else if list_all (\<lambda>b. block_text b \<noteq> None) blocks then PStr (concat (List.map_filter block_text blocks))
      else PList (map block_value blocks))"

definition message_content :: "pyval \<Rightarrow> compat_error + pyval" where
  "message_content v =
     (case v of
        PList items \<Rightarrow> try_bind (content_blocks items [] []) (\<lambda>blocks. Inr (blocks_content blocks))
      | _ \<Rightarrow> try_bind (content_text v) (\<lambda>s. Inr (PStr s)))"

section \<open>Tools\<close>

text \<open>A tool of the request: its chat form, its name and its kind.\<close>

definition chat_tool :: "pydict \<Rightarrow> string \<Rightarrow> pyval \<Rightarrow> pyval" where
  "chat_tool tool name parameters =
     PDict [(''type'', PStr ''function''), (''function'', PDict [(''name'', PStr name),
       (''description'', PStr (str_or_empty (dict_get tool ''description''))), (''parameters'', parameters)])]"

definition SURROGATE_PARAMETERS :: pyval where
  "SURROGATE_PARAMETERS = PDict [(''type'', PStr ''object''), (''properties'', PDict [(''input'', PDict [(''type'', PStr ''string'')])]),
     (''required'', PList [PStr ''input'']), (''additionalProperties'', PBool False)]"

definition compat_tool :: "pyval \<Rightarrow> (pyval \<times> string \<times> string) option" where
  "compat_tool v =
     (case v of
        PDict tool \<Rightarrow>
          (let typ = str_or_empty (dict_get tool ''type''); name = str_or_empty (dict_get tool ''name'') in
           if typ = ''function'' \<and> name \<noteq> [] then
             Some (chat_tool tool name (if is_dict (dict_get tool ''parameters'') then dict_get tool ''parameters''
               else PDict [(''type'', PStr ''object''), (''properties'', PDict [])]), name, ''function'')
           else if typ = ''custom'' \<and> name \<noteq> [] then Some (chat_tool tool name SURROGATE_PARAMETERS, name, ''custom'')
           else None)
      | _ \<Rightarrow> None)"

type_synonym tool_kinds = "(string \<times> string) list"

definition compat_tools :: "pyval \<Rightarrow> pyval list \<times> tool_kinds" where
  "compat_tools v =
     (case v of
        PList ts \<Rightarrow>
          (let found = List.map_filter compat_tool ts in
           (map fst found, fold (\<lambda>(t, name, kind) kinds. dict_set kinds name kind) found []))
      | _ \<Rightarrow> ([], []))"

section \<open>Messages\<close>

text \<open>\<open>json.dumps(args, separators=(",", ":"))\<close> with \<open>ensure_ascii\<close>.\<close>

definition ascii_escape :: "char \<Rightarrow> string" where
  "ascii_escape c = (if 127 \<le> (of_char c :: nat)
     then [CHR 0x5C, CHR ''u'', CHR ''0'', CHR ''0'', hex_digit (of_char c div 16), hex_digit (of_char c mod 16)] else json_escape c)"

definition ascii_str :: "string \<Rightarrow> string" where
  "ascii_str s = CHR 0x22 # concat (map ascii_escape s) @ [CHR 0x22]"

fun ascii_text :: "pyval \<Rightarrow> string"
  and ascii_items :: "pyval list \<Rightarrow> string"
  and ascii_members :: "pydict \<Rightarrow> string" where
  "ascii_text PNone = ''null''"
| "ascii_text (PBool b) = (if b then ''true'' else ''false'')"
| "ascii_text (PInt i) = int_text i"
| "ascii_text (PFloat s) = s"
| "ascii_text (PStr s) = ascii_str s"
| "ascii_text (PList vs) = ''['' @ ascii_items vs @ '']''"
| "ascii_text (PDict d) = [CHR 0x7B] @ ascii_members d @ [CHR 0x7D]"
| "ascii_items [] = []"
| "ascii_items (v # vs) = ascii_text v @ (if vs = [] then [] else '','' @ ascii_items vs)"
| "ascii_members [] = []"
| "ascii_members ((k, v) # d) = ascii_str k @ '':'' @ ascii_text v @ (if d = [] then [] else '','' @ ascii_members d)"

text \<open>What one item of the input does: a call waits until something else ends the run of calls.\<close>

datatype item_effect = Ignored | CallItem pyval | Messages "pyval list"

definition chat_message :: "string \<Rightarrow> pyval \<Rightarrow> pyval" where
  "chat_message role content = PDict [(''role'', PStr role), (''content'', content)]"

definition arguments_text :: "pyval \<Rightarrow> string" where
  "arguments_text v = (case v of PStr s \<Rightarrow> s | _ \<Rightarrow> ascii_text v)"

definition get_or :: "pydict \<Rightarrow> string \<Rightarrow> pyval \<Rightarrow> pyval" where
  "get_or d k v = (case map_of d k of None \<Rightarrow> v | Some w \<Rightarrow> w)"

definition MESSAGE_ROLES :: "string list" where
  "MESSAGE_ROLES = [''user'', ''assistant'', ''system'', ''developer'', ''tool'']"

definition chat_call :: "string \<Rightarrow> string \<Rightarrow> string \<Rightarrow> pyval" where
  "chat_call cid name arguments = PDict [(''id'', PStr cid), (''type'', PStr ''function''),
     (''function'', PDict [(''name'', PStr name), (''arguments'', PStr arguments)])]"

definition output_message :: "string \<Rightarrow> string \<Rightarrow> pyval" where
  "output_message cid content = PDict [(''role'', PStr ''tool''), (''tool_call_id'', PStr cid), (''content'', PStr content)]"

definition effect_of_item :: "string \<Rightarrow> pyval \<Rightarrow> compat_error + item_effect" where
  "effect_of_item fresh item =
     (case item of
        PStr s \<Rightarrow> Inr (Messages [chat_message ''user'' (PStr s)])
      | PDict d \<Rightarrow>
          (let typ = (if truthy (dict_get d ''type'') then py_str (dict_get d ''type'') else ''message'') in
           if typ = ''message'' then
             (let role = (if truthy (dict_get d ''role'') then py_str (dict_get d ''role'') else ''user'') in
              try_bind (message_content (dict_get d ''content'')) (\<lambda>content.
                Inr (Messages [chat_message (if role \<in> set MESSAGE_ROLES then role else ''user'') content])))
           else if typ \<in> {''function_call'', ''custom_tool_call''} then
             (let cid = (case first_text [dict_get d ''call_id'', dict_get d ''id''] of Some i \<Rightarrow> i | None \<Rightarrow> ''call_'' @ fresh);
                  arguments = (if typ = ''function_call'' then get_or d ''arguments'' (PStr [CHR 0x7B, CHR 0x7D])
                    else PStr (ascii_text (PDict [(''input'', PStr (str_or_empty (dict_get d ''input'')))]))) in
              Inr (CallItem (chat_call cid (str_or_empty (dict_get d ''name'')) (arguments_text arguments))))
           else if typ \<in> {''function_call_output'', ''custom_tool_call_output''} then
             (let cid = str_or_empty (dict_get d ''call_id'') in
              if cid = [] then Inr (Messages [])
              else try_bind (content_text (dict_get d ''output'')) (\<lambda>content. Inr (Messages [output_message cid content])))
           else Inr Ignored)
      | _ \<Rightarrow> Inr Ignored)"

definition flushed :: "pyval list \<Rightarrow> pyval list" where
  "flushed pending = (if pending = [] then []
     else [PDict [(''role'', PStr ''assistant''), (''content'', PStr []), (''tool_calls'', PList pending)]])"

text \<open>The items of the input; the call made up for item \<open>n\<close> is \<open>fresh n\<close>.\<close>

fun input_messages :: "(nat \<Rightarrow> string) \<Rightarrow> nat \<Rightarrow> pyval list \<Rightarrow> pyval list \<Rightarrow> compat_error + pyval list" where
  "input_messages fresh n pending [] = Inr (flushed pending)"
| "input_messages fresh n pending (item # items) =
     try_bind (effect_of_item (fresh n) item) (\<lambda>effect.
       case effect of
         Ignored \<Rightarrow> input_messages fresh (Suc n) pending items
       | CallItem call \<Rightarrow> input_messages fresh (Suc n) (pending @ [call]) items
       | Messages ms \<Rightarrow> try_bind (input_messages fresh (Suc n) [] items) (\<lambda>rest. Inr (flushed pending @ ms @ rest)))"

definition compat_messages :: "(nat \<Rightarrow> string) \<Rightarrow> pydict \<Rightarrow> compat_error + pyval list" where
  "compat_messages fresh body =
     (let instructions = (if truthy (dict_get body ''instructions'')
            then [chat_message ''developer'' (PStr (py_str (dict_get body ''instructions'')))] else []) in
      case dict_get body ''input'' of
        PStr s \<Rightarrow> Inr (instructions @ [chat_message ''user'' (PStr s)])
      | PNone \<Rightarrow> Inr instructions
      | PList items \<Rightarrow> try_bind (input_messages fresh 0 [] items) (\<lambda>ms. Inr (instructions @ ms))
      | _ \<Rightarrow> Inl (HttpDetail 400 (PStr ''Responses input must be a string or array'')))"

section \<open>The chat request\<close>

definition compat_choice :: "pyval \<Rightarrow> compat_error + pyval" where
  "compat_choice v =
     (if v \<in> {PNone, PStr ''auto'', PStr ''none''} then Inr (if truthy v then v else PStr ''auto'')
      else if v = PStr ''required'' then Inr (PStr ''required'')
      else Inl (HttpDetail 400 (PStr ''unsupported Responses tool_choice'')))"

text \<open>The name and kind that a choice asks for.\<close>

definition named_choice :: "pyval \<Rightarrow> compat_error + (string \<times> string) option" where
  "named_choice v =
     (case v of
        PDict d \<Rightarrow>
          if is_container (dict_get d ''type'') then Inl TypeFailure
          else Inr (if dict_get d ''type'' \<in> {PStr ''function'', PStr ''custom''} \<and> truthy (dict_get d ''name'')
            then Some (py_str (dict_get d ''type''), py_str (dict_get d ''name'')) else None)
      | _ \<Rightarrow> Inr None)"

definition tool_name :: "pyval \<Rightarrow> string" where
  "tool_name v = (case v of
       PDict tool \<Rightarrow> (case dict_get tool ''function'' of PDict f \<Rightarrow> str_or_empty (dict_get f ''name'') | _ \<Rightarrow> [])
     | _ \<Rightarrow> [])"

definition select_tools :: "pyval list \<Rightarrow> tool_kinds \<Rightarrow> pyval \<Rightarrow> compat_error + pydict" where
  "select_tools tools kinds requested =
     try_bind (named_choice requested) (\<lambda>named.
       case named of
         Some (kind, name) \<Rightarrow>
           raise_if (map_of kinds name \<noteq> Some kind)
             (HttpDetail 400 (PStr ''Responses named tool_choice does not match an available tool''))
             (let selected = filter (\<lambda>t. tool_name t = name) tools in
              raise_if (length selected \<noteq> 1) (HttpDetail 400 (PStr ''Responses named tool_choice is ambiguous or unavailable''))
                (Inr [(''tools'', PList selected), (''tool_choice'', PStr ''required'')]))
       | None \<Rightarrow> try_bind (compat_choice requested) (\<lambda>choice. Inr [(''tools'', PList tools), (''tool_choice'', choice)]))"

definition chat_body :: "(nat \<Rightarrow> string) \<Rightarrow> pydict \<Rightarrow> compat_error + pydict \<times> tool_kinds" where
  "chat_body fresh body =
     (case compat_tools (dict_get body ''tools'') of (tools, kinds) \<Rightarrow>
        try_bind (compat_messages fresh body) (\<lambda>messages.
          let requested = get_or body ''tool_choice'' (PStr ''auto'');
              chat = [(''messages'', PList messages), (''stream'', PBool (truthy (get_or body ''stream'' (PBool False))))]
                @ (if dict_get body ''model'' \<noteq> PNone then [(''model'', dict_get body ''model'')] else []) in
          raise_if (tools = [] \<and> requested \<notin> {PNone, PStr ''auto'', PStr ''none''})
            (HttpDetail 400 (PStr ''Responses forced tool_choice requires at least one supported tool.''))
            (if tools = [] then Inr (chat, kinds)
             else try_bind (select_tools tools kinds requested) (\<lambda>choice. Inr (chat @ choice, kinds)))))"

section \<open>What a caller may decide\<close>

definition AGENT_REQUEST_ALLOWLIST :: "string list" where
  "AGENT_REQUEST_ALLOWLIST = [''messages'', ''tools'', ''tool_choice'', ''stream'']"

definition available_names :: "pyval list \<Rightarrow> string list" where
  "available_names tools = List.map_filter (\<lambda>t. case t of
       PDict tool \<Rightarrow> (case dict_get tool ''function'' of PDict f \<Rightarrow> Some (py_str (dict_get f ''name'')) | _ \<Rightarrow> None)
     | _ \<Rightarrow> None) tools"

definition normalize_tool_choice :: "pyval \<Rightarrow> pyval list option \<Rightarrow> compat_error + pyval option" where
  "normalize_tool_choice v tools =
     (case v of
        PStr s \<Rightarrow>
          (let lowered = py_lower (py_strip s) in
           if lowered \<in> {''auto'', ''none''} then Inr (Some (PStr lowered))
           else if lowered = ''required'' then
             raise_if (tools = None \<or> tools = Some []) (HttpDetail 400 (PStr (''tool_choice='' @ [CHR 0x27] @ ''required'' @ [CHR 0x27]
                 @ '' requires at least one available tool.''))) (Inr (Some (PStr lowered)))
           else Inr None)
      | PDict d \<Rightarrow>
          (case (dict_get d ''type'', dict_get d ''function'') of
             (PStr t, PDict f) \<Rightarrow>
               (case dict_get f ''name'' of
                  PStr name \<Rightarrow>
                    if t \<noteq> ''function'' \<or> py_strip name = [] then Inr None
                    else raise_if (name \<notin> set (available_names (case tools of None \<Rightarrow> [] | Some ts \<Rightarrow> ts)))
                      (HttpDetail 400 (PStr (''tool_choice function '' @ repr_str name @ '' is not available in the supplied tool surface.'')))
                      (Inr (Some (PDict [(''type'', PStr ''function''), (''function'', PDict [(''name'', PStr name)])])))
                | _ \<Rightarrow> Inr None)
           | _ \<Rightarrow> Inr None)
      | _ \<Rightarrow> Inr None)"

text \<open>A message without the fields that are the host's own.\<close>

definition without_private :: "pyval \<Rightarrow> pyval" where
  "without_private m = (case m of PDict d \<Rightarrow> PDict (filter (\<lambda>(k, v). \<not> starts_with ''_jack_'' k) d) | _ \<Rightarrow> m)"

definition sanitize_agent_request :: "pydict \<Rightarrow> compat_error + pydict" where
  "sanitize_agent_request body =
     (let messages = (case dict_get body ''messages'' of PList ms \<Rightarrow> PList (map without_private ms) | v \<Rightarrow> v);
          tools = (case dict_get body ''tools'' of PList ts \<Rightarrow> Some ts | _ \<Rightarrow> None) in
      try_bind (normalize_tool_choice (dict_get body ''tool_choice'') tools) (\<lambda>choice.
        Inr ([(''messages'', messages), (''stream'', PBool (truthy (get_or body ''stream'' (PBool False))))]
          @ (case tools of
               None \<Rightarrow> []
             | Some ts \<Rightarrow> (''tools'', PList ts) # (case choice of None \<Rightarrow> [] | Some c \<Rightarrow> [(''tool_choice'', c)])))))"

section \<open>Answers\<close>

text \<open>\<open>int(v)\<close> of a value that is not \<open>None\<close>.\<close>

definition to_int :: "pyval \<Rightarrow> compat_error + int" where
  "to_int v = (case py_int v of Some i \<Rightarrow> Inr i | None \<Rightarrow> 
     Inl (case v of
            PStr s \<Rightarrow> ValueFailure
          | PFloat s \<Rightarrow> (if s = ''nan'' then ValueFailure else OtherFailure ''cannot convert float infinity to integer'')
          | _ \<Rightarrow> TypeFailure))"

definition int_or :: "pyval \<Rightarrow> int \<Rightarrow> compat_error + int" where
  "int_or v i = (if truthy v then to_int v else Inr i)"

definition compat_usage :: "pyval \<Rightarrow> compat_error + pydict" where
  "compat_usage v =
     (let d = (case v of PDict d \<Rightarrow> d | _ \<Rightarrow> []) in
      try_bind (int_or (dict_get d ''prompt_tokens'') 0) (\<lambda>i.
      try_bind (int_or (dict_get d ''completion_tokens'') 0) (\<lambda>o'.
      try_bind (int_or (dict_get d ''total_tokens'') (i + o')) (\<lambda>total.
        Inr [(''input_tokens'', PInt i), (''input_tokens_details'', PDict [(''cached_tokens'', PInt 0)]), (''output_tokens'', PInt o'),
          (''output_tokens_details'', PDict [(''reasoning_tokens'', PInt 0)]), (''total_tokens'', PInt total)]))))"

text \<open>A tool call as an item of the output, with the identifiers made up for it.\<close>

record item_ids =
  ii_call :: string
  ii_item :: string

definition custom_input :: "(string \<Rightarrow> pyval option) \<Rightarrow> string \<Rightarrow> string" where
  "custom_input loads arguments =
     (case loads arguments of
        Some (PDict d) \<Rightarrow> if dict_has d ''input'' then str_or_empty (dict_get d ''input'') else arguments
      | _ \<Rightarrow> arguments)"

definition tool_item :: "(string \<Rightarrow> pyval option) \<Rightarrow> tool_kinds \<Rightarrow> item_ids \<Rightarrow> pydict \<Rightarrow> pydict" where
  "tool_item loads kinds ids call =
     (let f = (case dict_get call ''function'' of PDict f \<Rightarrow> f | _ \<Rightarrow> []);
          name = str_or_empty (dict_get f ''name'');
          arguments = arguments_text (get_or f ''arguments'' (PStr [CHR 0x7B, CHR 0x7D]));
          cid = (if truthy (dict_get call ''id'') then py_str (dict_get call ''id'') else ''call_'' @ ii_call ids) in
      if map_of kinds name = Some ''custom'' then
        [(''id'', PStr (''ctc_'' @ ii_item ids)), (''type'', PStr ''custom_tool_call''), (''call_id'', PStr cid), (''name'', PStr name),
         (''input'', PStr (custom_input loads arguments)), (''status'', PStr ''completed'')]
      else
        [(''id'', PStr (''fc_'' @ ii_item ids)), (''type'', PStr ''function_call''), (''call_id'', PStr cid), (''name'', PStr name),
         (''arguments'', PStr arguments), (''status'', PStr ''completed'')])"

definition reasoning_item :: "string \<Rightarrow> string \<Rightarrow> pydict" where
  "reasoning_item rid reasoning =
     [(''id'', PStr rid), (''type'', PStr ''reasoning''),
      (''summary'', PList [PDict [(''type'', PStr ''summary_text''), (''text'', PStr reasoning)]]),
      (''content'', PList [PDict [(''type'', PStr ''reasoning_text''), (''text'', PStr reasoning)]]), (''status'', PStr ''completed'')]"

definition message_item :: "string \<Rightarrow> string \<Rightarrow> pydict" where
  "message_item mid content =
     [(''id'', PStr mid), (''type'', PStr ''message''), (''role'', PStr ''assistant''), (''status'', PStr ''completed''),
      (''content'', PList [PDict [(''type'', PStr ''output_text''), (''text'', PStr content), (''annotations'', PList [])]])]"

text \<open>\<open>_sse\<close>: an event has its kind and its data.\<close>

type_synonym sse_event = "string \<times> pydict"

definition sse_bytes :: "sse_event \<Rightarrow> string" where
  "sse_bytes e = (case e of (kind, d) \<Rightarrow>
     utf8 (''event: '' @ kind @ [CHR 0x0A] @ ''data: ''
       @ json_text (PDict (if dict_has d ''type'' then d else (''type'', PStr kind) # d)) @ [CHR 0x0A, CHR 0x0A]))"

text \<open>\<open>_chat_events\<close>: the objects in a chunk of the kernel's stream. What cannot be parsed is passed over.\<close>

fun replace_crlf :: "string \<Rightarrow> string" where
  "replace_crlf (c # d # s) = (if c = CHR 0x0D \<and> d = CHR 0x0A then CHR 0x0A # replace_crlf s else c # replace_crlf (d # s))"
| "replace_crlf s = s"

definition line_event :: "(string \<Rightarrow> pyval option) \<Rightarrow> string \<Rightarrow> pyval option" where
  "line_event loads line =
     (if \<not> starts_with ''data:'' line then None
      else (let raw = py_strip (drop 5 line) in
        if raw = ''[DONE]'' then Some (PStr raw) else if raw \<noteq> [] then loads raw else None))"

definition chat_events :: "(string \<Rightarrow> pyval option) \<Rightarrow> string \<Rightarrow> pyval list" where
  "chat_events loads chunk = List.map_filter (line_event loads) (py_splitlines (replace_crlf chunk))"

end
