(* ===== verification/ResponsesStream.thy ===== *)
theory ResponsesStream
  imports ResponsesCompat
begin

text \<open>
  The streaming and the plain answer of \<open>jack_responses_compat.py\<close>, and its endpoint. A stream is the
  sequence of what the generator does: events sent, the call of the kernel's stream, the re-arming of the pending
  tool transactions, and the exception that ends it. A client may stop listening at any event.
\<close>

section \<open>The state of a stream\<close>

record stream_ids =
  si_response :: string
  si_message :: string
  si_reasoning :: string
  si_created :: int
  si_completed :: int
  si_model :: string
  si_items :: "nat \<Rightarrow> item_ids"

record tool_parts =
  ta_id :: string
  ta_name :: string
  ta_arguments :: string

record relay =
  rl_visible :: "string list"
  rl_reasoning :: "string list"
  rl_tools :: "(int \<times> tool_parts) list"
  rl_usage :: pyval
  rl_message_open :: bool
  rl_reasoning_open :: bool

definition new_relay :: relay where
  "new_relay = \<lparr>rl_visible = [], rl_reasoning = [], rl_tools = [], rl_usage = PNone, rl_message_open = False, rl_reasoning_open = False\<rparr>"

definition no_parts :: tool_parts where
  "no_parts = \<lparr>ta_id = [], ta_name = [], ta_arguments = []\<rparr>"

definition bool_int :: "bool \<Rightarrow> int" where
  "bool_int b = (if b then 1 else 0)"

section \<open>A chunk of the kernel's stream\<close>

text \<open>The part of an event about the native reasoning, about the visible text, and about the calls.\<close>

definition relay_reasoning :: "stream_ids \<Rightarrow> pydict \<Rightarrow> relay \<Rightarrow> sse_event list \<times> relay" where
  "relay_reasoning ids delta st =
     (let v = (if dict_get delta ''reasoning_content'' \<noteq> PNone then dict_get delta ''reasoning_content'' else dict_get delta ''reasoning''); r = py_str v in
      if \<not> truthy v then ([], st)
      else ((if rl_reasoning_open st then [] else [(''response.output_item.added'', [(''output_index'', PInt 0), (''item'', PDict
                [(''id'', PStr (si_reasoning ids)), (''type'', PStr ''reasoning''), (''summary'', PList []), (''content'', PList []),
                 (''status'', PStr ''in_progress'')])])])
            @ [(''response.reasoning_summary_text.delta'', [(''item_id'', PStr (si_reasoning ids)), (''output_index'', PInt 0),
                 (''summary_index'', PInt 0), (''delta'', PStr r)]),
               (''response.reasoning_text.delta'', [(''item_id'', PStr (si_reasoning ids)), (''output_index'', PInt 0),
                 (''content_index'', PInt 0), (''delta'', PStr r)])],
            st\<lparr>rl_reasoning_open := True, rl_reasoning := rl_reasoning st @ [r]\<rparr>))"

definition relay_text :: "stream_ids \<Rightarrow> pydict \<Rightarrow> relay \<Rightarrow> sse_event list \<times> relay" where
  "relay_text ids delta st =
     (let v = dict_get delta ''content''; c = py_str v; oi = PInt (bool_int (rl_reasoning_open st)) in
      if \<not> truthy v then ([], st)
      else ((if rl_message_open st then [] else [(''response.output_item.added'', [(''output_index'', oi), (''item'', PDict
                [(''id'', PStr (si_message ids)), (''type'', PStr ''message''), (''role'', PStr ''assistant''), (''status'', PStr ''in_progress''),
                 (''content'', PList [])])])])
            @ [(''response.output_text.delta'', [(''item_id'', PStr (si_message ids)), (''output_index'', oi), (''content_index'', PInt 0),
                 (''delta'', PStr c), (''logprobs'', PList [])])],
            st\<lparr>rl_message_open := True, rl_visible := rl_visible st @ [c]\<rparr>))"

text \<open>What a \<open>for\<close> over a value goes through.\<close>

definition iterated :: "pyval \<Rightarrow> compat_error + pyval list" where
  "iterated v =
     (if \<not> truthy v then Inr []
      else (case v of
          PList vs \<Rightarrow> Inr vs | PDict d \<Rightarrow> Inr (map (\<lambda>(k, w). PStr k) d) | PStr s \<Rightarrow> Inr (map (\<lambda>c. PStr [c]) s) | _ \<Rightarrow> Inl TypeFailure))"

definition relay_call :: "pyval \<Rightarrow> (int \<times> tool_parts) list \<Rightarrow> compat_error + (int \<times> tool_parts) list" where
  "relay_call tc acc =
     (case tc of
        PDict d \<Rightarrow>
          try_bind (int_or (dict_get d ''index'') 0) (\<lambda>idx.
            let a = lookup_default acc idx no_parts;
                f = (case dict_get d ''function'' of PDict f \<Rightarrow> f | _ \<Rightarrow> []) in
            Inr (AList.update idx \<lparr>ta_id = (if truthy (dict_get d ''id'') then py_str (dict_get d ''id'') else ta_id a),
              ta_name = ta_name a @ str_or_empty (dict_get f ''name''),
              ta_arguments = ta_arguments a @ str_or_empty (dict_get f ''arguments'')\<rparr> acc))
      | _ \<Rightarrow> Inr acc)"

fun relay_calls :: "pyval list \<Rightarrow> (int \<times> tool_parts) list \<Rightarrow> compat_error + (int \<times> tool_parts) list" where
  "relay_calls [] acc = Inr acc"
| "relay_calls (tc # tcs) acc = try_bind (relay_call tc acc) (relay_calls tcs)"

definition event_delta :: "pydict \<Rightarrow> pydict option" where
  "event_delta obj = (case dict_get obj ''choices'' of
       PList (PDict choice # _) \<Rightarrow> (case dict_get choice ''delta'' of PDict delta \<Rightarrow> Some delta | _ \<Rightarrow> None)
     | _ \<Rightarrow> None)"

definition relay_object :: "stream_ids \<Rightarrow> pyval \<Rightarrow> relay \<Rightarrow> sse_event list \<times> (compat_error + relay)" where
  "relay_object ids v st =
     (case v of
        PDict obj \<Rightarrow>
          (let st1 = (if is_dict (dict_get obj ''usage'') then st\<lparr>rl_usage := dict_get obj ''usage''\<rparr> else st) in
           case event_delta obj of
             None \<Rightarrow> ([], Inr st1)
           | Some delta \<Rightarrow>
               (case relay_reasoning ids delta st1 of (es1, st2) \<Rightarrow>
                 (case relay_text ids delta st2 of (es2, st3) \<Rightarrow>
                   (es1 @ es2, try_bind (iterated (dict_get delta ''tool_calls'')) (\<lambda>tcs.
                      try_bind (relay_calls tcs (rl_tools st3)) (\<lambda>tools. Inr (st3\<lparr>rl_tools := tools\<rparr>)))))))
      | _ \<Rightarrow> ([], Inr st))"

text \<open>All objects of the stream, and how the kernel's stream ends.\<close>

fun relay_objects :: "stream_ids \<Rightarrow> pyval list \<Rightarrow> compat_error option \<Rightarrow> relay \<Rightarrow> sse_event list \<times> (compat_error + relay)" where
  "relay_objects ids [] ending st = ([], (case ending of None \<Rightarrow> Inr st | Some e \<Rightarrow> Inl e))"
| "relay_objects ids (v # vs) ending st =
     (case relay_object ids v st of
        (es, Inl e) \<Rightarrow> (es, Inl e)
      | (es, Inr st') \<Rightarrow> (case relay_objects ids vs ending st' of (es', r) \<Rightarrow> (es @ es', r)))"

section \<open>The end of a stream\<close>

definition GUARD_NOTICE :: "string \<times> string \<times> string" where
  "GUARD_NOTICE = (''protected_credential_diagnostic_withheld'', ''HARD_INTERRUPT'', ''diagnostic_stream_exception_release'')"

definition is_guard_notice :: "compat_error \<Rightarrow> bool" where
  "is_guard_notice e =
     (case e of
        HttpDetail _ (PDict d) \<Rightarrow>
          dict_get d ''error'' = PStr (fst GUARD_NOTICE) \<and> dict_get d ''security_outcome'' = PStr (fst (snd GUARD_NOTICE))
          \<and> dict_get d ''release_boundary'' = PStr (snd (snd GUARD_NOTICE))
          \<and> fst ` set d = {''error'', ''security_outcome'', ''release_boundary''}
      | _ \<Rightarrow> False)"

definition failure_message :: "compat_error \<Rightarrow> string" where
  "failure_message e = (if is_guard_notice e then ''protected_credential_diagnostic_withheld (diagnostic_stream_exception_release)''
     else ''Jack Responses stream failed'')"

definition failed_event :: "stream_ids \<Rightarrow> compat_error \<Rightarrow> sse_event" where
  "failed_event ids e =
     (let error = PDict [(''code'', PStr ''jack_responses_stream_error''), (''message'', PStr (failure_message e))] in
      (''response.failed'', [(''response'', PDict
         [(''id'', PStr (si_response ids)), (''object'', PStr ''response''), (''created_at'', PInt (si_created ids)),
          (''completed_at'', PInt (si_completed ids)), (''status'', PStr ''failed''), (''error'', error), (''model'', PStr (si_model ids)),
          (''output'', PList [])]), (''error'', error)]))"

definition item_done :: "nat \<Rightarrow> pydict \<Rightarrow> sse_event" where
  "item_done oi item = (''response.output_item.done'', [(''output_index'', PInt (int oi)), (''item'', PDict item)])"

definition parts_call :: "tool_parts \<Rightarrow> pydict" where
  "parts_call a = [(''id'', PStr (ta_id a)), (''function'', PDict [(''name'', PStr (ta_name a)), (''arguments'', PStr (ta_arguments a))])]"

text \<open>The items of the output, in order: reasoning, text, calls by their index.\<close>

definition call_items :: "(string \<Rightarrow> pyval option) \<Rightarrow> tool_kinds \<Rightarrow> (nat \<Rightarrow> item_ids) \<Rightarrow> pydict list \<Rightarrow> pydict list" where
  "call_items loads kinds ids calls = map (\<lambda>(n, call). tool_item loads kinds (ids n) call) (enumerate 0 calls)"

definition output_items :: "(string \<Rightarrow> pyval option) \<Rightarrow> tool_kinds \<Rightarrow> stream_ids \<Rightarrow> relay \<Rightarrow> pydict list" where
  "output_items loads kinds ids st =
     (if rl_reasoning_open st then [reasoning_item (si_reasoning ids) (concat (rl_reasoning st))] else [])
     @ (if rl_message_open st then [message_item (si_message ids) (concat (rl_visible st))] else [])
     @ call_items loads kinds (si_items ids) (map (\<lambda>(idx, a). parts_call a) (sort_key fst (rl_tools st)))"

definition done_events :: "(string \<Rightarrow> pyval option) \<Rightarrow> tool_kinds \<Rightarrow> stream_ids \<Rightarrow> relay \<Rightarrow> sse_event list" where
  "done_events loads kinds ids st =
     (if rl_reasoning_open st then [(''response.reasoning_summary_text.done'',
        [(''item_id'', PStr (si_reasoning ids)), (''output_index'', PInt 0), (''summary_index'', PInt 0),
         (''text'', PStr (concat (rl_reasoning st)))])] else [])
     @ map (\<lambda>(oi, item). item_done oi item) (enumerate 0 (output_items loads kinds ids st))"

definition response_object :: "string \<Rightarrow> int \<Rightarrow> int \<Rightarrow> string \<Rightarrow> pydict list \<Rightarrow> string \<Rightarrow> pydict \<Rightarrow> pydict" where
  "response_object rid created completed model output output_text usage =
     [(''id'', PStr rid), (''object'', PStr ''response''), (''created_at'', PInt created), (''completed_at'', PInt completed),
      (''status'', PStr ''completed''), (''error'', PNone), (''incomplete_details'', PNone), (''model'', PStr model),
      (''output'', PList (map PDict output)), (''output_text'', PStr output_text), (''usage'', PDict usage), (''metadata'', PDict [])]"

definition completed_event :: "(string \<Rightarrow> pyval option) \<Rightarrow> tool_kinds \<Rightarrow> stream_ids \<Rightarrow> relay \<Rightarrow> compat_error + sse_event" where
  "completed_event loads kinds ids st =
     try_bind (compat_usage (rl_usage st)) (\<lambda>usage. Inr (''response.completed'', [(''response'', PDict
       (response_object (si_response ids) (si_created ids) (si_completed ids) (si_model ids)
         (output_items loads kinds ids st) (concat (rl_visible st)) usage))]))"

section \<open>The generator\<close>

text \<open>The generator as the blocks of its code: actions, and a \<open>try\<close> with the \<open>finally\<close> behind it. An exception that
  the \<open>except\<close> clause answers, or a \<open>return\<close>, ends the block and the blocks after it are not there.\<close>

datatype stream_action = Send sse_event | CallKernel | Rearm | RearmDebugging | Fail compat_error

datatype stream_block = Run "stream_action list" | TryFinally "stream_action list" "stream_action list"

definition block_actions :: "stream_block \<Rightarrow> stream_action list" where
  "block_actions b = (case b of Run as \<Rightarrow> as | TryFinally body final \<Rightarrow> body @ final)"

definition opening_events :: "stream_ids \<Rightarrow> sse_event list" where
  "opening_events ids =
     (let stub = PDict [(''id'', PStr (si_response ids)), (''object'', PStr ''response''), (''created_at'', PInt (si_created ids)),
            (''status'', PStr ''in_progress''), (''model'', PStr (si_model ids)), (''output'', PList [])] in
      [(''response.created'', [(''response'', stub)]), (''response.in_progress'', [(''response'', stub)])])"

definition rearming :: "stream_action list" where
  "rearming = [Rearm, RearmDebugging]"

definition stream_program ::
    "(string \<Rightarrow> pyval option) \<Rightarrow> tool_kinds \<Rightarrow> stream_ids \<Rightarrow> string list \<Rightarrow> compat_error option \<Rightarrow> stream_block list" where
  "stream_program loads kinds ids chunks ending =
     Run (map Send (opening_events ids)) #
     (case relay_objects ids (concat (map (chat_events loads) chunks)) ending new_relay of
        (es, Inl e) \<Rightarrow> [TryFinally (CallKernel # map Send (es @ [failed_event ids e])) rearming]
      | (es, Inr st) \<Rightarrow>
          [TryFinally (CallKernel # map Send es) rearming,
           Run (map Send (done_events loads kinds ids st)
             @ (case completed_event loads kinds ids st of Inl e \<Rightarrow> [Fail e] | Inr e \<Rightarrow> [Send e]))])"

text \<open>A client that takes everything.\<close>

definition responses_stream ::
    "(string \<Rightarrow> pyval option) \<Rightarrow> tool_kinds \<Rightarrow> stream_ids \<Rightarrow> string list \<Rightarrow> compat_error option \<Rightarrow> stream_action list" where
  "responses_stream loads kinds ids chunks ending = concat (map block_actions (stream_program loads kinds ids chunks ending))"

text \<open>A client that stops listening at event number \<open>n\<close> closes the generator there: the actions up to that event are done, then
  the \<open>finally\<close> of the block the generator is in, if it is in one, and nothing more.\<close>

fun up_to_event :: "nat \<Rightarrow> stream_action list \<Rightarrow> stream_action list" where
  "up_to_event n [] = []"
| "up_to_event n (Send e # as) = (case n of 0 \<Rightarrow> [Send e] | Suc m \<Rightarrow> Send e # up_to_event m as)"
| "up_to_event n (a # as) = a # up_to_event n as"

fun sends :: "stream_action list \<Rightarrow> nat" where
  "sends [] = 0"
| "sends (Send e # as) = Suc (sends as)"
| "sends (a # as) = sends as"

fun closed_at :: "nat \<Rightarrow> stream_block list \<Rightarrow> stream_action list" where
  "closed_at n [] = []"
| "closed_at n (Run as # bs) =
     (if n < sends as then up_to_event n as else as @ closed_at (n - sends as) bs)"
| "closed_at n (TryFinally body final # bs) =
     (if n < sends body then up_to_event n body @ final else body @ final @ closed_at (n - sends body) bs)"

section \<open>The plain answer and the endpoint\<close>

record kernel_answer =
  ka_reasoning :: pyval
  ka_content :: pyval
  ka_calls :: "pyval list"
  ka_usage :: pyval

definition nonstream_items :: "(string \<Rightarrow> pyval option) \<Rightarrow> tool_kinds \<Rightarrow> stream_ids \<Rightarrow> kernel_answer \<Rightarrow> pydict list" where
  "nonstream_items loads kinds ids a =
     (let reasoning = str_or_empty (ka_reasoning a); content = str_or_empty (ka_content a) in
      (if reasoning \<noteq> [] then [reasoning_item (si_reasoning ids) reasoning] else [])
      @ (if content \<noteq> [] then [message_item (si_message ids) content] else [])
      @ call_items loads kinds (si_items ids) (List.map_filter (\<lambda>c. case c of PDict d \<Rightarrow> Some d | _ \<Rightarrow> None) (ka_calls a)))"

definition responses_nonstream :: "(string \<Rightarrow> pyval option) \<Rightarrow> tool_kinds \<Rightarrow> stream_ids \<Rightarrow> kernel_answer \<Rightarrow> compat_error + pydict" where
  "responses_nonstream loads kinds ids a =
     try_bind (compat_usage (ka_usage a)) (\<lambda>usage.
       Inr (response_object (si_response ids) (si_created ids) (si_created ids) (si_model ids) (nonstream_items loads kinds ids a)
         (str_or_empty (ka_content a)) usage))"

datatype compat_response = EventStream "stream_block list" | JsonAnswer pydict

text \<open>The handler of the route: \<open>body\<close> is the parsed request, \<open>stream\<close> and \<open>run\<close> are the kernel's for the
  executor facts of the request.\<close>

definition responses_endpoint ::
    "(string \<Rightarrow> pyval option) \<Rightarrow> stream_ids \<Rightarrow> (nat \<Rightarrow> string) \<Rightarrow> compat_error option \<Rightarrow> pyval option
       \<Rightarrow> (compat_error + executor_context option)
       \<Rightarrow> (executor_context option \<Rightarrow> pydict \<Rightarrow> string list \<times> compat_error option)
       \<Rightarrow> (executor_context option \<Rightarrow> pydict \<Rightarrow> compat_error + kernel_answer) \<Rightarrow> compat_error + compat_response" where
  "responses_endpoint loads ids fresh auth body context stream run =
     (case auth of
        Some e \<Rightarrow> Inl e
      | None \<Rightarrow>
          (case body of
             None \<Rightarrow> Inl (HttpDetail 400 (PStr ''invalid JSON request body''))
           | Some (PDict b) \<Rightarrow>
               try_bind (chat_body fresh b) (\<lambda>(chat, kinds).
               try_bind (sanitize_agent_request chat) (\<lambda>request.
               try_bind context (\<lambda>ctx.
                 if truthy (dict_get b ''stream'') then
                   (case stream ctx request of (chunks, ending) \<Rightarrow> Inr (EventStream (stream_program loads kinds ids chunks ending)))
                 else (case run ctx request of
                     Inl (HttpDetail status detail) \<Rightarrow> Inl (HttpDetail status detail)
                   | Inl e \<Rightarrow> Inl (HttpDetail 500 (PStr ''Jack Responses compatibility failure''))
                   | Inr a \<Rightarrow> try_bind (responses_nonstream loads kinds ids a) (\<lambda>response. Inr (JsonAnswer response))))))
           | Some _ \<Rightarrow> Inl (HttpDetail 400 (PStr ''Responses request body must be an object''))))"

section \<open>The caller's system contract\<close>

definition STAGE_DELIMITER :: string where
  "STAGE_DELIMITER = [CHR 0x0A, CHR 0x0A] @ ''--- JACK RUNTIME STAGE CONTRACT ---'' @ [CHR 0x0A]"

definition content_to_text :: "pyval \<Rightarrow> string" where
  "content_to_text v = (case v of PNone \<Rightarrow> [] | PStr s \<Rightarrow> s | _ \<Rightarrow> json_text v)"

definition leading_caller_system_contract :: "pyval \<Rightarrow> string" where
  "leading_caller_system_contract messages =
     (case messages of
        PList (PDict first # _) \<Rightarrow> if dict_get first ''role'' = PStr ''system'' then content_to_text (dict_get first ''content'') else []
      | _ \<Rightarrow> [])"

text \<open>\<open>stage_contract\<close> is what the original builder says for the stage.\<close>

definition build_stage_system_prompt :: "bool \<Rightarrow> string \<Rightarrow> pyval \<Rightarrow> string \<Rightarrow> string" where
  "build_stage_system_prompt agentic profile caller_system stage_contract =
     (let caller = (if agentic \<and> profile = ''Agentic native pass 2'' then [] else str_or_empty caller_system) in
      if caller = [] then stage_contract
      else if stage_contract = [] then caller
      else caller @ STAGE_DELIMITER @ stage_contract)"

end
