(* ===== verification/ResponsesProperties.thy ===== *)
theory ResponsesProperties
  imports ResponsesStream
begin

text \<open>
  What the Responses bridge promises: the order of a converted history, the authority a caller keeps, the agreement
  of the two ways of answering, and what leaves when a stream fails.
\<close>

section \<open>The end of a stream\<close>

lemma failed_event_same: "is_guard_notice e = is_guard_notice e' \<Longrightarrow> failed_event ids e = failed_event ids e'"
  by (simp add: failed_event_def failure_message_def)

lemma relay_objects_ending:
  "fst (relay_objects ids vs (Some e) st) = fst (relay_objects ids vs (Some e') st)
     \<and> (\<exists>x x'. snd (relay_objects ids vs (Some e) st) = Inl x \<and> snd (relay_objects ids vs (Some e') st) = Inl x'
          \<and> (x = x' \<or> x = e \<and> x' = e'))"
proof (induction vs arbitrary: st)
  case (Cons v vs)
  obtain es r where r: "relay_object ids v st = (es, r)" by (rule prod.exhaust)
  show ?case
  proof (cases r)
    case (Inl x)
    then show ?thesis by (simp add: r)
  next
    case (Inr st')
    show ?thesis using Cons.IH [of st'] by (auto simp: r Inr split: prod.splits)
  qed
qed simp

text \<open>C15. Nothing of an exception reaches the client of a Responses stream: two exceptions that are both the credential guard's
  notice, or both not, end it with the same events and the same actions, whatever came before.\<close>

theorem failure_opaque:
  assumes "is_guard_notice e = is_guard_notice e'"
  shows "stream_program loads kinds ids chunks (Some e) = stream_program loads kinds ids chunks (Some e')"
proof -
  let ?objs = "concat (map (chat_events loads) chunks)"
  obtain es x x' where "relay_objects ids ?objs (Some e) new_relay = (es, Inl x)" "relay_objects ids ?objs (Some e') new_relay = (es, Inl x')"
    "x = x' \<or> x = e \<and> x' = e'"
    using relay_objects_ending [of ids ?objs e new_relay e'] by (metis prod.collapse)
  then show ?thesis using failed_event_same [OF assms, of ids] by (auto simp: stream_program_def)
qed

lemma sends_append [simp]: "sends (as @ bs) = sends as + sends bs"
  by (induction as rule: sends.induct) auto

lemma sends_map [simp]: "sends (map Send es) = length es"
  by (induction es) auto

lemma up_to_event_sends: "up_to_event n (map Send es) = map Send (take (Suc n) es)"
  by (induction es arbitrary: n) (auto split: nat.splits)

lemma count_sends [simp]: "count_list (map Send es) Rearm = 0" "count_list (map Send es) RearmDebugging = 0" "count_list (map Send es) CallKernel = 0"
  by (induction es) auto

text \<open>The blocks: the opening, the kernel's stream with the re-arming behind it, and the rest.\<close>

lemma stream_shape:
  obtains es rest where "stream_program loads kinds ids chunks ending
      = Run (map Send (opening_events ids)) # TryFinally (CallKernel # map Send es) rearming # map Run rest"
    and "\<forall>as \<in> set rest. \<forall>a \<in> set as. a \<notin> {Rearm, RearmDebugging, CallKernel}"
proof -
  obtain es r where r: "relay_objects ids (concat (map (chat_events loads) chunks)) ending new_relay = (es, r)" by (rule prod.exhaust)
  show thesis
  proof (cases r)
    case (Inl e)
    show ?thesis by (rule that [of "es @ [failed_event ids e]" "[]"]) (simp_all add: stream_program_def r Inl)
  next
    case (Inr st)
    show ?thesis
      by (rule that [of es "[map Send (done_events loads kinds ids st)
          @ (case completed_event loads kinds ids st of Inl e \<Rightarrow> [Fail e] | Inr e \<Rightarrow> [Send e])]"])
        (auto simp: stream_program_def r Inr split: sum.splits)
  qed
qed

lemma up_to_event_subset: "set (up_to_event n as) \<subseteq> set as"
  by (induction n as rule: up_to_event.induct) (auto split: nat.splits)

lemma closed_rest: "set (closed_at n (map Run rest)) \<subseteq> (\<Union>as \<in> set rest. set as)"
proof (induction rest arbitrary: n)
  case (Cons as rest)
  show ?case
  proof (cases "n < sends as")
    case True
    then show ?thesis using up_to_event_subset [of n as] by auto
  next
    case False
    then show ?thesis using Cons.IH [of "n - sends as"] by auto
  qed
qed simp

text \<open>What the generator does with the kernel.\<close>

definition kernel_actions :: "stream_action list \<Rightarrow> stream_action list" where
  "kernel_actions as = filter (\<lambda>a. a = CallKernel \<or> a = Rearm \<or> a = RearmDebugging) as"

lemma kernel_actions_simps [simp]:
  "kernel_actions [] = []" "kernel_actions (as @ bs) = kernel_actions as @ kernel_actions bs" "kernel_actions (map Send es) = []"
  "kernel_actions (CallKernel # as) = CallKernel # kernel_actions as" "kernel_actions rearming = [Rearm, RearmDebugging]"
  by (induction es) (simp_all add: kernel_actions_def rearming_def)

lemma kernel_actions_none: "\<forall>a \<in> set as. a \<notin> {Rearm, RearmDebugging, CallKernel} \<Longrightarrow> kernel_actions as = []"
  by (induction as) (simp_all add: kernel_actions_def)

text \<open>C17. However a client leaves a Responses stream, at any event or after the last, and however the kernel's stream ends, the pending tool
  transactions and then the pending debugging resumptions are re-armed, each exactly once if the kernel's stream was started, and not at all if
  it was not; it is started when the client has taken the two opening events.\<close>

theorem rearmed_once:
  "kernel_actions (closed_at n (stream_program loads kinds ids chunks ending))
     = (if n < 2 then [] else [CallKernel, Rearm, RearmDebugging])"
proof -
  obtain es rest where s: "stream_program loads kinds ids chunks ending
      = Run (map Send (opening_events ids)) # TryFinally (CallKernel # map Send es) rearming # map Run rest"
    and rest: "\<forall>as \<in> set rest. \<forall>a \<in> set as. a \<notin> {Rearm, RearmDebugging, CallKernel}" using stream_shape by metis
  have len: "length (opening_events ids) = 2" by (simp add: opening_events_def Let_def)
  have more: "kernel_actions (closed_at k (map Run rest)) = []" for k
  proof (rule kernel_actions_none)
    show "\<forall>a \<in> set (closed_at k (map Run rest)). a \<notin> {Rearm, RearmDebugging, CallKernel}"
      using closed_rest [of k rest] rest by blast
  qed
  show ?thesis
  proof (cases "n < 2")
    case True
    then show ?thesis by (simp add: s len up_to_event_sends)
  next
    case False
    then show ?thesis using more by (simp add: s len up_to_event_sends)
  qed
qed

section \<open>What a client adds up\<close>

definition sent :: "stream_action list \<Rightarrow> sse_event list" where
  "sent as = List.map_filter (\<lambda>a. case a of Send e \<Rightarrow> Some e | _ \<Rightarrow> None) as"

definition delta_text :: "string \<Rightarrow> sse_event list \<Rightarrow> string" where
  "delta_text kind es = concat (map (\<lambda>(k, d). if k = kind then str_or_empty (dict_get d ''delta'') else []) es)"

definition done_items :: "sse_event list \<Rightarrow> pyval list" where
  "done_items es = List.map_filter (\<lambda>(k, d). if k = ''response.output_item.done'' then Some (dict_get d ''item'') else None) es"

lemma map_filter_append: "List.map_filter f (xs @ ys) = List.map_filter f xs @ List.map_filter f ys"
  by (simp add: List.map_filter_def)

lemma sent_simps [simp]: "sent [] = []" "sent (as @ bs) = sent as @ sent bs" "sent (map Send es) = es"
  "sent (CallKernel # as) = sent as" "sent (Rearm # as) = sent as" "sent (RearmDebugging # as) = sent as" "sent (Fail e # as) = sent as" "sent (Send ev # as) = ev # sent as"
  by (simp_all add: sent_def map_filter_append List.map_filter_def comp_def)

lemma delta_text_append [simp]: "delta_text k [] = []" "delta_text k (es @ fs) = delta_text k es @ delta_text k fs"
  "delta_text k ((k', d) # es) = (if k' = k then str_or_empty (dict_get d ''delta'') else []) @ delta_text k es"
  by (simp_all add: delta_text_def)

lemma done_items_append [simp]: "done_items [] = []" "done_items (es @ fs) = done_items es @ done_items fs"
  "done_items ((k, d) # es) = (if k = ''response.output_item.done'' then [dict_get d ''item''] else []) @ done_items es"
  by (simp_all add: done_items_def map_filter_append List.map_filter_def)

lemma delta_text_none: "kind \<notin> fst ` set es \<Longrightarrow> delta_text kind es = []"
  by (induction es) auto

lemma done_items_none: "''response.output_item.done'' \<notin> fst ` set es \<Longrightarrow> done_items es = []"
  by (induction es) auto

lemma int_text_nonempty: "int_text i \<noteq> []"
  using int_text_first [of i] by auto

lemma truthy_text: "truthy v \<Longrightarrow> py_str v \<noteq> []"
  by (cases v) (auto simp: py_str_def int_text_nonempty float_truthy_def split: if_splits)

lemma str_or_empty_text: "truthy v \<Longrightarrow> str_or_empty (PStr (py_str v)) = py_str v" "str_or_empty (PStr s) = s"
  by (auto simp: str_or_empty_def truthy_text py_str_def)

abbreviation "TEXT_DELTA \<equiv> ''response.output_text.delta''"
abbreviation "REASONING_DELTA \<equiv> ''response.reasoning_text.delta''"

definition relay_ok :: "relay \<Rightarrow> bool" where
  "relay_ok st \<longleftrightarrow> rl_message_open st = (concat (rl_visible st) \<noteq> []) \<and> rl_reasoning_open st = (concat (rl_reasoning st) \<noteq> [])"

definition said :: "sse_event list \<Rightarrow> relay \<Rightarrow> relay \<Rightarrow> bool" where
  "said es st st' \<longleftrightarrow> concat (rl_visible st') = concat (rl_visible st) @ delta_text TEXT_DELTA es
     \<and> concat (rl_reasoning st') = concat (rl_reasoning st) @ delta_text REASONING_DELTA es \<and> (relay_ok st \<longrightarrow> relay_ok st')"

lemma said_trans: "said es st st1 \<Longrightarrow> said fs st1 st2 \<Longrightarrow> said (es @ fs) st st2"
  by (simp add: said_def)

lemma said_reasoning: "relay_reasoning ids d st = (es, st') \<Longrightarrow> said es st st'"
  unfolding relay_reasoning_def Let_def
  by (auto simp: said_def relay_ok_def dict_get_def str_or_empty_text truthy_text split: if_splits)

lemma said_text: "relay_text ids d st = (es, st') \<Longrightarrow> said es st st'"
  unfolding relay_text_def Let_def
  by (auto simp: said_def relay_ok_def dict_get_def str_or_empty_text truthy_text split: if_splits)

lemma said_fields: "said [] st (st\<lparr>rl_tools := tools\<rparr>)" "said [] st (st\<lparr>rl_usage := u\<rparr>)" "said [] st st"
  by (simp_all add: said_def relay_ok_def)

definition RELAY_KINDS :: "string set" where
  "RELAY_KINDS = {''response.output_item.added'', ''response.reasoning_summary_text.delta'', REASONING_DELTA, TEXT_DELTA}"

lemma relay_kinds:
  "relay_reasoning ids d st = (es, st') \<Longrightarrow> fst ` set es \<subseteq> RELAY_KINDS"
  "relay_text ids d st = (es, st') \<Longrightarrow> fst ` set es \<subseteq> RELAY_KINDS"
  by (auto simp: relay_reasoning_def relay_text_def Let_def RELAY_KINDS_def split: if_splits)

lemma relay_object_said:
  assumes "relay_object ids v st = (es, r)"
  shows "fst ` set es \<subseteq> RELAY_KINDS \<and> (\<forall>st'. r = Inr st' \<longrightarrow> said es st st')"
proof (cases v)
  case (PDict obj)
  define st1 where "st1 = (if is_dict (dict_get obj ''usage'') then st\<lparr>rl_usage := dict_get obj ''usage''\<rparr> else st)"
  have s1: "said [] st st1" by (simp add: st1_def said_fields)
  show ?thesis
  proof (cases "event_delta obj")
    case None
    then show ?thesis using assms s1 by (auto simp: relay_object_def PDict st1_def [symmetric] Let_def)
  next
    case (Some delta)
    obtain es1 st2 where r1: "relay_reasoning ids delta st1 = (es1, st2)" by (rule prod.exhaust)
    obtain es2 st3 where r2: "relay_text ids delta st2 = (es2, st3)" by (rule prod.exhaust)
    have s3: "said (es1 @ es2) st st3"
      using said_trans [OF said_trans [OF s1 said_reasoning [OF r1]] said_text [OF r2]] by simp
    have "es = es1 @ es2" and r: "\<forall>st'. r = Inr st' \<longrightarrow> (\<exists>tools. st' = st3\<lparr>rl_tools := tools\<rparr>)"
      using assms by (auto simp: relay_object_def PDict st1_def [symmetric] Let_def Some r1 r2 try_bind_Inr_iff)
    moreover have "said es st (st3\<lparr>rl_tools := tools\<rparr>)" for tools
      using said_trans [OF s3 said_fields(1)] \<open>es = es1 @ es2\<close> by simp
    ultimately show ?thesis using relay_kinds(1) [OF r1] relay_kinds(2) [OF r2] by auto
  qed
qed (use assms in \<open>auto simp: relay_object_def said_fields\<close>)

lemma relay_objects_said:
  "relay_objects ids vs ending st = (es, r) \<Longrightarrow> fst ` set es \<subseteq> RELAY_KINDS \<and> (\<forall>st'. r = Inr st' \<longrightarrow> said es st st' \<and> ending = None)"
proof (induction vs arbitrary: st es r)
  case Nil
  then show ?case by (auto simp: said_fields split: option.splits)
next
  case (Cons v vs)
  obtain es1 r1 where r1: "relay_object ids v st = (es1, r1)" by (rule prod.exhaust)
  note s1 = relay_object_said [OF r1]
  show ?case
  proof (cases r1)
    case (Inl e)
    then show ?thesis using Cons.prems s1 r1 by auto
  next
    case (Inr st1)
    obtain es2 r2 where r2: "relay_objects ids vs ending st1 = (es2, r2)" by (rule prod.exhaust)
    have "es = es1 @ es2" "r = r2" using Cons.prems by (simp_all add: r1 Inr r2)
    then show ?thesis using Cons.IH [OF r2] s1 Inr by (auto intro: said_trans)
  qed
qed

lemma done_events_facts:
  "done_items (done_events loads kinds ids st) = map PDict (output_items loads kinds ids st)"
  "fst ` set (done_events loads kinds ids st) \<subseteq> {''response.reasoning_summary_text.done'', ''response.output_item.done''}"
proof -
  have "done_items (map (\<lambda>(oi, item). item_done oi item) (enumerate n items)) = map PDict items" for n items
    by (induction items arbitrary: n) (auto simp: done_items_def item_done_def List.map_filter_def dict_get_def)
  then show "done_items (done_events loads kinds ids st) = map PDict (output_items loads kinds ids st)"
    by (simp add: done_events_def)
  show "fst ` set (done_events loads kinds ids st) \<subseteq> {''response.reasoning_summary_text.done'', ''response.output_item.done''}"
    by (auto simp: done_events_def item_done_def)
qed

definition without_time :: "pydict \<Rightarrow> pydict" where
  "without_time r = filter (\<lambda>(k, v). k \<noteq> ''completed_at'') r"

lemma nonstream_of_relay:
  assumes "relay_ok st" and "compat_usage (rl_usage st) = Inr usage"
  shows "responses_nonstream loads kinds ids \<lparr>ka_reasoning = PStr (concat (rl_reasoning st)), ka_content = PStr (concat (rl_visible st)),
      ka_calls = map (\<lambda>(i, a). PDict (parts_call a)) (sort_key fst (rl_tools st)), ka_usage = rl_usage st\<rparr>
    = Inr (response_object (si_response ids) (si_created ids) (si_created ids) (si_model ids) (output_items loads kinds ids st) (concat (rl_visible st)) usage)"
  using assms
  by (simp add: responses_nonstream_def nonstream_items_def output_items_def Let_def str_or_empty_text relay_ok_def List.map_filter_def comp_def case_prod_unfold
      cong: if_cong)

section \<open>The calls and the usage of a stream\<close>

text \<open>The fragments of calls in an object of the stream, and their place.\<close>

definition call_fragments :: "pyval \<Rightarrow> pydict list" where
  "call_fragments v =
     (case v of
        PDict obj \<Rightarrow>
          (case event_delta obj of
             None \<Rightarrow> []
           | Some delta \<Rightarrow>
               (case iterated (dict_get delta ''tool_calls'') of
                  Inl _ \<Rightarrow> []
                | Inr tcs \<Rightarrow> List.map_filter (\<lambda>tc. case tc of PDict d \<Rightarrow> Some d | _ \<Rightarrow> None) tcs))
      | _ \<Rightarrow> [])"

definition fragment_index :: "pydict \<Rightarrow> int" where
  "fragment_index d = (case int_or (dict_get d ''index'') 0 of Inl _ \<Rightarrow> 0 | Inr i \<Rightarrow> i)"

definition fragment_text :: "string \<Rightarrow> pydict \<Rightarrow> string" where
  "fragment_text key d = (case dict_get d ''function'' of PDict f \<Rightarrow> str_or_empty (dict_get f key) | _ \<Rightarrow> [])"

definition last_or :: "'a \<Rightarrow> 'a list \<Rightarrow> 'a" where
  "last_or d xs = (if xs = [] then d else last xs)"

lemma last_or_simps [simp]: "last_or d [] = d" "last_or d (xs @ [x]) = x"
  by (simp_all add: last_or_def)

text \<open>The fragments of one place put together: the last identifier, the name and the arguments joined in order.\<close>

definition joined :: "pydict list \<Rightarrow> tool_parts" where
  "joined ds = \<lparr>ta_id = last_or [] (map (\<lambda>d. py_str (dict_get d ''id'')) (filter (\<lambda>d. truthy (dict_get d ''id'')) ds)),
     ta_name = concat (map (fragment_text ''name'') ds), ta_arguments = concat (map (fragment_text ''arguments'') ds)\<rparr>"

text \<open>The calls of a stream, in the order of their places, and the usage it reported last.\<close>

definition streamed_calls :: "pyval list \<Rightarrow> pydict list" where
  "streamed_calls objs =
     (let ds = concat (map call_fragments objs) in
      map (\<lambda>i. parts_call (joined (filter (\<lambda>d. fragment_index d = i) ds))) (sorted_list_of_set (fragment_index ` set ds)))"

definition streamed_usage :: "pyval list \<Rightarrow> pyval" where
  "streamed_usage objs =
     last_or PNone (filter is_dict (map (\<lambda>v. case v of PDict obj \<Rightarrow> dict_get obj ''usage'' | _ \<Rightarrow> PNone) objs))"

definition tools_ok :: "pydict list \<Rightarrow> (int \<times> tool_parts) list \<Rightarrow> bool" where
  "tools_ok ds tools \<longleftrightarrow> distinct (map fst tools) \<and> fst ` set tools = fragment_index ` set ds
     \<and> (\<forall>i \<in> fragment_index ` set ds. map_of tools i = Some (joined (filter (\<lambda>d. fragment_index d = i) ds)))"

lemma joined_snoc:
  "joined (ds @ [d]) = \<lparr>ta_id = (if truthy (dict_get d ''id'') then py_str (dict_get d ''id'') else ta_id (joined ds)),
     ta_name = ta_name (joined ds) @ fragment_text ''name'' d, ta_arguments = ta_arguments (joined ds) @ fragment_text ''arguments'' d\<rparr>"
  by (simp add: joined_def)

lemma relay_call_ok:
  assumes "relay_call (PDict d) tools = Inr tools'" and "tools_ok ds tools"
  shows "tools_ok (ds @ [d]) tools'"
proof -
  obtain i where i: "int_or (dict_get d ''index'') 0 = Inr i" using assms(1) by (auto simp: relay_call_def try_bind_Inr_iff)
  then have idx: "fragment_index d = i" by (simp add: fragment_index_def)
  note ok = assms(2) [unfolded tools_ok_def]
  let ?a = "lookup_default tools i no_parts"
  let ?own = "filter (\<lambda>d. fragment_index d = i) ds"
  have a: "?a = joined ?own"
  proof (cases "i \<in> fragment_index ` set ds")
    case True
    then have "map_of tools i = Some (joined ?own)" using ok by blast
    then show ?thesis by (simp add: lookup_default_def)
  next
    case False
    then have "map_of tools i = None" using ok by (simp add: map_of_eq_None_iff)
    moreover have "?own = []" using False by (auto simp: filter_empty_conv)
    ultimately show ?thesis by (simp add: lookup_default_def no_parts_def joined_def)
  qed
  have f: "str_or_empty (dict_get (case dict_get d ''function'' of PDict f \<Rightarrow> f | _ \<Rightarrow> []) key) = fragment_text key d" for key
    by (simp add: fragment_text_def str_or_empty_def dict_get_def split: pyval.split)
  have "tools' = AList.update i (joined (?own @ [d])) tools"
    using assms(1) by (simp add: relay_call_def i Let_def f a joined_snoc cong: if_cong)
  then show ?thesis using ok idx
    by (auto simp: tools_ok_def update_conv' dom_update distinct_update simp del: filter_append) auto
qed

lemma relay_calls_ok:
  "relay_calls tcs tools = Inr tools' \<Longrightarrow> tools_ok ds tools
     \<Longrightarrow> tools_ok (ds @ List.map_filter (\<lambda>tc. case tc of PDict d \<Rightarrow> Some d | _ \<Rightarrow> None) tcs) tools'"
proof (induction tcs arbitrary: tools ds)
  case (Cons tc tcs)
  then obtain t1 where t1: "relay_call tc tools = Inr t1" "relay_calls tcs t1 = Inr tools'" by (auto simp: try_bind_Inr_iff)
  show ?case
  proof (cases "\<exists>d. tc = PDict d")
    case True
    then obtain d where d: "tc = PDict d" by blast
    from Cons.IH [OF t1(2) relay_call_ok [OF t1(1) [unfolded d] Cons.prems(2)]] show ?thesis by (simp add: d List.map_filter_def)
  next
    case False
    then have "t1 = tools" using t1(1) by (cases tc) (auto simp: relay_call_def)
    then show ?thesis using Cons.IH [OF t1(2)] Cons.prems(2) False by (cases tc) (auto simp: List.map_filter_def)
  qed
qed (simp add: List.map_filter_def)

definition collected :: "pyval list \<Rightarrow> relay \<Rightarrow> bool" where
  "collected objs st \<longleftrightarrow> tools_ok (concat (map call_fragments objs)) (rl_tools st) \<and> rl_usage st = streamed_usage objs"

lemma streamed_usage_snoc:
  "streamed_usage (objs @ [v]) = (case v of PDict obj \<Rightarrow> if is_dict (dict_get obj ''usage'') then dict_get obj ''usage'' else streamed_usage objs
     | _ \<Rightarrow> streamed_usage objs)"
  by (cases v) (simp_all add: streamed_usage_def is_dict_def)

lemma relay_texts_keep:
  "relay_reasoning ids d st = (es, st') \<Longrightarrow> rl_tools st' = rl_tools st \<and> rl_usage st' = rl_usage st"
  "relay_text ids d st = (es, st') \<Longrightarrow> rl_tools st' = rl_tools st \<and> rl_usage st' = rl_usage st"
  by (auto simp: relay_reasoning_def relay_text_def Let_def split: if_splits)

lemma relay_object_collected:
  assumes "relay_object ids v st = (es, Inr st')" and "collected objs st"
  shows "collected (objs @ [v]) st'"
proof (cases v)
  case (PDict obj)
  define st1 where "st1 = (if is_dict (dict_get obj ''usage'') then st\<lparr>rl_usage := dict_get obj ''usage''\<rparr> else st)"
  have u: "rl_usage st1 = streamed_usage (objs @ [v])" "rl_tools st1 = rl_tools st"
    using assms(2) by (simp_all add: st1_def collected_def streamed_usage_snoc PDict)
  show ?thesis
  proof (cases "event_delta obj")
    case None
    then show ?thesis using assms u by (simp add: relay_object_def PDict st1_def [symmetric] collected_def call_fragments_def Let_def)
  next
    case (Some delta)
    obtain es1 st2 where r1: "relay_reasoning ids delta st1 = (es1, st2)" by (rule prod.exhaust)
    obtain es2 st3 where r2: "relay_text ids delta st2 = (es2, st3)" by (rule prod.exhaust)
    obtain tcs tools where t: "iterated (dict_get delta ''tool_calls'') = Inr tcs" "relay_calls tcs (rl_tools st3) = Inr tools"
      "st' = st3\<lparr>rl_tools := tools\<rparr>"
      using assms(1) by (auto simp: relay_object_def PDict st1_def [symmetric] Let_def Some r1 r2 try_bind_Inr_iff)
    have k: "rl_tools st3 = rl_tools st" "rl_usage st3 = streamed_usage (objs @ [v])"
      using relay_texts_keep(1) [OF r1] relay_texts_keep(2) [OF r2] u by simp_all
    have "tools_ok (concat (map call_fragments objs)) (rl_tools st3)" using assms(2) k(1) by (simp add: collected_def)
    from relay_calls_ok [OF t(2) this] show ?thesis
      using k(2) t(1,3) Some by (simp add: collected_def call_fragments_def PDict)
  qed
qed (use assms in \<open>simp_all add: relay_object_def collected_def call_fragments_def streamed_usage_snoc\<close>)

lemma relay_objects_collected:
  "relay_objects ids vs ending st = (es, Inr st') \<Longrightarrow> collected objs st \<Longrightarrow> collected (objs @ vs) st'"
proof (induction vs arbitrary: st es objs)
  case Nil
  then show ?case by (simp split: option.splits)
next
  case (Cons v vs)
  obtain es1 st1 es2 where "relay_object ids v st = (es1, Inr st1)" "relay_objects ids vs ending st1 = (es2, Inr st')"
    using Cons.prems(1) by (auto split: prod.splits sum.splits)
  then show ?case using Cons.IH [of st1 es2 "objs @ [v]"] relay_object_collected Cons.prems(2) by simp
qed

lemma tools_in_order:
  assumes "tools_ok ds tools"
  shows "map (\<lambda>(i, a). parts_call a) (sort_key fst tools)
     = map (\<lambda>i. parts_call (joined (filter (\<lambda>d. fragment_index d = i) ds))) (sorted_list_of_set (fragment_index ` set ds))"
proof -
  note ok = assms [unfolded tools_ok_def]
  have "distinct (map fst (sort_key fst tools))"
    using ok by (simp add: distinct_map)
  then have keys: "map fst (sort_key fst tools) = sorted_list_of_set (fragment_index ` set ds)"
    using ok by (intro sorted_distinct_set_unique) (simp_all)
  have "a = joined (filter (\<lambda>d. fragment_index d = i) ds)" if "(i, a) \<in> set (sort_key fst tools)" for i a
  proof -
    have m: "map_of tools i = Some a" using that ok by simp
    moreover have "i \<in> fragment_index ` set ds" using that ok by (metis fst_conv image_eqI set_sort)
    ultimately show ?thesis using ok by simp
  qed
  then have "map (\<lambda>(i, a). parts_call a) (sort_key fst tools)
      = map (\<lambda>i. parts_call (joined (filter (\<lambda>d. fragment_index d = i) ds))) (map fst (sort_key fst tools))"
    by (auto simp: comp_def)
  then show ?thesis unfolding keys .
qed

lemma completed_stream:
  assumes "Send (''response.completed'', [(''response'', PDict r)]) \<in> set (responses_stream loads kinds ids chunks ending)"
  obtains es st usage where "relay_objects ids (concat (map (chat_events loads) chunks)) ending new_relay = (es, Inr st)"
    and "compat_usage (rl_usage st) = Inr usage"
    and "r = response_object (si_response ids) (si_created ids) (si_completed ids) (si_model ids) (output_items loads kinds ids st) (concat (rl_visible st)) usage"
    and "sent (responses_stream loads kinds ids chunks ending)
      = opening_events ids @ es @ done_events loads kinds ids st @ [(''response.completed'', [(''response'', PDict r)])]"
proof -
  obtain es x where x: "relay_objects ids (concat (map (chat_events loads) chunks)) ending new_relay = (es, x)" by (rule prod.exhaust)
  note kinds = relay_objects_said [OF x]
  have kinds_no: "k \<notin> fst ` set fs \<Longrightarrow> (k, d) \<notin> set fs" for k d and fs :: "sse_event list" by force
  have "''response.completed'' \<notin> fst ` set es" using kinds by (auto simp: RELAY_KINDS_def)
  moreover have "''response.completed'' \<notin> fst ` set (done_events loads kinds ids st)" for st
    using done_events_facts(2) [of loads kinds ids st] by auto
  moreover have "fst ` set (opening_events ids) = {''response.created'', ''response.in_progress''}" by (simp add: opening_events_def Let_def)
  ultimately have no: "(''response.completed'', d) \<notin> set es" "(''response.completed'', d) \<notin> set (opening_events ids)"
    "(''response.completed'', d) \<notin> set (done_events loads kinds ids st)" for d st
    by (intro kinds_no; simp)+
  obtain st where st: "x = Inr st"
    using assms no by (cases x) (auto simp: responses_stream_def stream_program_def block_actions_def rearming_def x failed_event_def Let_def)
  have as: "responses_stream loads kinds ids chunks ending = map Send (opening_events ids) @ [CallKernel] @ map Send es @ [Rearm, RearmDebugging]
      @ map Send (done_events loads kinds ids st) @ (case completed_event loads kinds ids st of Inl e \<Rightarrow> [Fail e] | Inr e \<Rightarrow> [Send e])"
    by (simp add: responses_stream_def stream_program_def block_actions_def rearming_def x st)
  obtain usage where u: "compat_usage (rl_usage st) = Inr usage"
    using assms no unfolding as by (cases "compat_usage (rl_usage st)") (auto simp: completed_event_def)
  let ?r = "response_object (si_response ids) (si_created ids) (si_completed ids) (si_model ids) (output_items loads kinds ids st) (concat (rl_visible st)) usage"
  have c: "completed_event loads kinds ids st = Inr (''response.completed'', [(''response'', PDict ?r)])"
    by (simp add: completed_event_def u)
  have r: "r = ?r" using assms no unfolding as c by auto
  show thesis by (rule that [OF x[unfolded st] u r]) (unfold as c r, simp)
qed

text \<open>C16. The two ways of answering agree. When a stream ends with a completed response, that response is, but for the time, the plain answer
  for what the stream brought: the texts a client adds up from the deltas, each call put together from its fragments, in the
  order of their places, and the usage that was reported last. Its output is the items the client was told are done, in order.\<close>

theorem stream_agrees_with_answer:
  assumes "Send (''response.completed'', [(''response'', PDict r)]) \<in> set (responses_stream loads kinds ids chunks ending)"
  shows "\<exists>r'. responses_nonstream loads kinds ids
         \<lparr>ka_reasoning = PStr (delta_text REASONING_DELTA (sent (responses_stream loads kinds ids chunks ending))),
          ka_content = PStr (delta_text TEXT_DELTA (sent (responses_stream loads kinds ids chunks ending))),
          ka_calls = map PDict (streamed_calls (concat (map (chat_events loads) chunks))),
          ka_usage = streamed_usage (concat (map (chat_events loads) chunks))\<rparr> = Inr r'
     \<and> without_time r = without_time r'
     \<and> dict_get r ''output'' = PList (done_items (sent (responses_stream loads kinds ids chunks ending))) \<and> ending = None"
proof -
  obtain es st usage where x: "relay_objects ids (concat (map (chat_events loads) chunks)) ending new_relay = (es, Inr st)"
    and u: "compat_usage (rl_usage st) = Inr usage"
    and r: "r = response_object (si_response ids) (si_created ids) (si_completed ids) (si_model ids) (output_items loads kinds ids st) (concat (rl_visible st)) usage"
    and sent: "sent (responses_stream loads kinds ids chunks ending)
      = opening_events ids @ es @ done_events loads kinds ids st @ [(''response.completed'', [(''response'', PDict r)])]"
    by (rule completed_stream [OF assms])
  note kinds = relay_objects_said [OF x]
  have said: "said es new_relay st" and e: "ending = None" using kinds by auto
  have "relay_ok new_relay" by (simp add: relay_ok_def new_relay_def)
  then have ok: "relay_ok st" using said unfolding said_def by blast
  have texts: "concat (rl_visible st) = delta_text TEXT_DELTA es" "concat (rl_reasoning st) = delta_text REASONING_DELTA es"
    using said by (simp_all add: said_def new_relay_def)
  have opened: "delta_text k (opening_events ids) = []" if "k \<in> {TEXT_DELTA, REASONING_DELTA}" for k
    using that by (auto simp: opening_events_def Let_def)
  have opened_items: "done_items (opening_events ids) = []" by (simp add: opening_events_def Let_def)
  have dones: "delta_text k (done_events loads kinds ids st) = []" if "k \<in> {TEXT_DELTA, REASONING_DELTA}" for k
    using done_events_facts(2) [of loads kinds ids st] that by (intro delta_text_none) auto
  have all: "delta_text k (sent (responses_stream loads kinds ids chunks ending)) = delta_text k es" if "k \<in> {TEXT_DELTA, REASONING_DELTA}" for k
    using that unfolding sent by (auto simp: opened dones)
  have "done_items es = []" using kinds by (intro done_items_none) (auto simp: RELAY_KINDS_def)
  then have items: "done_items (sent (responses_stream loads kinds ids chunks ending)) = map PDict (output_items loads kinds ids st)"
    unfolding sent by (simp add: opened_items done_events_facts(1))
  have "collected [] new_relay" by (simp add: collected_def tools_ok_def new_relay_def streamed_usage_def)
  from relay_objects_collected [OF x this] have col: "collected (concat (map (chat_events loads) chunks)) st" by simp
  have calls: "map (\<lambda>(i, a). PDict (parts_call a)) (sort_key fst (rl_tools st)) = map PDict (streamed_calls (concat (map (chat_events loads) chunks)))"
  proof -
    have "map (\<lambda>(i, a). PDict (parts_call a)) tools = map PDict (map (\<lambda>(i, a). parts_call a) tools)" for tools :: "(int \<times> tool_parts) list"
      by (simp add: case_prod_unfold)
    then show ?thesis unfolding streamed_calls_def Let_def tools_in_order [OF col[unfolded collected_def, THEN conjunct1], symmetric] .
  qed
  have usage: "rl_usage st = streamed_usage (concat (map (chat_events loads) chunks))" using col by (simp add: collected_def)
  show ?thesis
    unfolding all [of TEXT_DELTA, simplified] all [of REASONING_DELTA, simplified] items texts [symmetric] r
    using nonstream_of_relay [OF ok u, of loads kinds ids, unfolded calls usage] e
    by (intro exI conjI) (assumption | simp add: response_object_def without_time_def dict_get_def)+
qed

section \<open>An example stream\<close>

text \<open>The chunk \<open>data: 1\<close> stands for a delta with reasoning, text and a call.\<close>

definition example_delta :: pyval where
  "example_delta = PDict [(''choices'', PList [PDict [(''delta'', PDict [(''reasoning_content'', PStr ''think''), (''content'', PStr ''OK''),
     (''tool_calls'', PList [PDict [(''index'', PInt 0), (''id'', PStr ''c''), (''function'', PDict [(''name'', PStr ''f''), (''arguments'', PStr ''1'')])]])])]])]"

definition example_chat_loads :: "string \<Rightarrow> pyval option" where
  "example_chat_loads s = (if s = ''1'' then Some example_delta else None)"

definition example_ids :: stream_ids where
  "example_ids = \<lparr>si_response = ''r'', si_message = ''m'', si_reasoning = ''s'', si_created = 1, si_completed = 2, si_model = ''jack'',
     si_items = (\<lambda>n. \<lparr>ii_call = ''a'', ii_item = ''b''\<rparr>)\<rparr>"

definition example_chunks :: "string list" where
  "example_chunks = [''data: 1'' @ [CHR 0x0A, CHR 0x0A], ''data: [DONE]'' @ [CHR 0x0A, CHR 0x0A]]"

definition example_relay :: relay where
  "example_relay = \<lparr>rl_visible = [''OK''], rl_reasoning = [''think''], rl_tools = [(0, \<lparr>ta_id = ''c'', ta_name = ''f'', ta_arguments = ''1''\<rparr>)],
     rl_usage = PNone, rl_message_open = True, rl_reasoning_open = True\<rparr>"

lemma example_objects: "concat (map (chat_events example_chat_loads) example_chunks) = [example_delta, PStr ''[DONE]'']"
  by code_simp

lemma example_relayed: "snd (relay_objects example_ids [example_delta, PStr ''[DONE]''] None new_relay) = Inr example_relay"
  by code_simp

theorem failure_opaque_witness:
  "stream_program example_chat_loads [] example_ids example_chunks (Some (OtherFailure ''secret''))
     = stream_program example_chat_loads [] example_ids example_chunks (Some (HttpDetail 500 (PStr ''other'')))"
  by (rule failure_opaque) (simp add: is_guard_notice_def)

theorem rearmed_once_witness:
  "kernel_actions (closed_at 3 (stream_program example_chat_loads [] example_ids example_chunks None))
     = [CallKernel, Rearm, RearmDebugging]"
  by (subst rearmed_once) simp

theorem stream_agrees_with_answer_witness:
  "\<exists>r. Send (''response.completed'', [(''response'', PDict r)]) \<in> set (responses_stream example_chat_loads [] example_ids example_chunks None)
     \<and> dict_get r ''output'' = PList (done_items (sent (responses_stream example_chat_loads [] example_ids example_chunks None)))
     \<and> dict_get r ''output_text'' = PStr ''OK''"
proof -
  obtain usage where u: "compat_usage PNone = Inr usage" by (simp add: compat_usage_def int_or_def dict_get_def)
  let ?r = "response_object ''r'' 1 2 ''jack'' (output_items example_chat_loads [] example_ids example_relay) ''OK'' usage"
  have c: "completed_event example_chat_loads [] example_ids example_relay = Inr (''response.completed'', [(''response'', PDict ?r)])"
    by (simp add: completed_event_def example_relay_def u) (simp add: example_ids_def)
  obtain es where "relay_objects example_ids [example_delta, PStr ''[DONE]''] None new_relay = (es, Inr example_relay)"
    using example_relayed by (metis prod.collapse)
  then have m: "Send (''response.completed'', [(''response'', PDict ?r)]) \<in> set (responses_stream example_chat_loads [] example_ids example_chunks None)"
    by (simp add: responses_stream_def stream_program_def block_actions_def rearming_def example_objects c)
  have "dict_get ?r ''output_text'' = PStr ''OK''" by (simp add: response_object_def dict_get_def)
  then show ?thesis using stream_agrees_with_answer [OF m] m by blast
qed

section \<open>The converted history\<close>

text \<open>The type an item gives, and the identifier of a call: the call's own, else the item's.\<close>

definition item_type :: "pydict \<Rightarrow> string" where
  "item_type d = (if truthy (dict_get d ''type'') then py_str (dict_get d ''type'') else ''message'')"

definition given_call_id :: "pydict \<Rightarrow> string option" where
  "given_call_id d =
     (if truthy (dict_get d ''call_id'') then Some (py_str (dict_get d ''call_id''))
      else if truthy (dict_get d ''id'') then Some (py_str (dict_get d ''id'')) else None)"

text \<open>The items that are kept: texts, messages, calls, and results that name their call. Reasoning, results without a call's
  identifier, items of other types and values that are no items are dropped.\<close>

definition kept_item :: "pyval \<Rightarrow> bool" where
  "kept_item item =
     (case item of
        PStr _ \<Rightarrow> True
      | PDict d \<Rightarrow> item_type d \<in> {''message'', ''function_call'', ''custom_tool_call''}
          \<or> item_type d \<in> {''function_call_output'', ''custom_tool_call_output''} \<and> truthy (dict_get d ''call_id'')
      | _ \<Rightarrow> False)"

text \<open>What a part of the converted history says of the item it stands for.\<close>

definition says_message :: "pydict \<Rightarrow> pydict \<Rightarrow> bool" where
  "says_message d u \<longleftrightarrow>
     dict_get u ''role'' = PStr (let role = if truthy (dict_get d ''role'') then py_str (dict_get d ''role'') else ''user'' in
        if role \<in> {''user'', ''assistant'', ''system'', ''developer'', ''tool''} then role else ''user'')
     \<and> message_content (dict_get d ''content'') = Inr (dict_get u ''content'')"

definition says_call :: "pydict \<Rightarrow> pydict \<Rightarrow> bool" where
  "says_call d u \<longleftrightarrow>
     (case given_call_id d of Some i \<Rightarrow> dict_get u ''id'' = PStr i | None \<Rightarrow> \<exists>i. dict_get u ''id'' = PStr (''call_'' @ i))
     \<and> (\<exists>f. dict_get u ''function'' = PDict f \<and> dict_get f ''name'' = PStr (str_or_empty (dict_get d ''name''))
          \<and> dict_get f ''arguments'' = PStr
              (if item_type d = ''function_call''
               then (if dict_has d ''arguments'' then arguments_text (dict_get d ''arguments'') else [CHR 0x7B, CHR 0x7D])
               else ascii_text (PDict [(''input'', PStr (str_or_empty (dict_get d ''input'')))])))"

definition says_result :: "pydict \<Rightarrow> pydict \<Rightarrow> bool" where
  "says_result d u \<longleftrightarrow>
     dict_get u ''role'' = PStr ''tool'' \<and> dict_get u ''tool_call_id'' = PStr (py_str (dict_get d ''call_id''))
     \<and> (\<exists>s. content_text (dict_get d ''output'') = Inr s \<and> dict_get u ''content'' = PStr s)"

definition says :: "pyval \<Rightarrow> pyval \<Rightarrow> bool" where
  "says item unit =
     (case item of
        PStr s \<Rightarrow> unit = PDict [(''role'', PStr ''user''), (''content'', PStr s)]
      | PDict d \<Rightarrow>
          (\<exists>u. unit = PDict u
             \<and> (if item_type d = ''message'' then says_message d u
                else if item_type d \<in> {''function_call'', ''custom_tool_call''} then says_call d u
                else says_result d u))
      | _ \<Rightarrow> False)"

text \<open>The parts of a message: its calls, if it holds calls, or itself.\<close>

definition message_units :: "pyval \<Rightarrow> pyval list" where
  "message_units m = (case m of PDict d \<Rightarrow> (case dict_get d ''tool_calls'' of PList cs \<Rightarrow> cs | _ \<Rightarrow> [m]) | _ \<Rightarrow> [m])"

fun effect_units :: "item_effect \<Rightarrow> pyval list" where
  "effect_units Ignored = []"
| "effect_units (CallItem c) = [c]"
| "effect_units (Messages ms) = concat (map message_units ms)"

lemma message_units_plain [simp]:
  "message_units (chat_message role content) = [chat_message role content]"
  "message_units (output_message i result) = [output_message i result]"
  by (simp_all add: message_units_def chat_message_def output_message_def dict_get_def)

lemma flushed_units [simp]: "concat (map message_units (flushed pending)) = pending"
  by (simp add: flushed_def message_units_def dict_get_def)

lemma says_call_of_item:
  assumes "item_type d \<in> {''function_call'', ''custom_tool_call''}"
    and "cid = (case first_text [dict_get d ''call_id'', dict_get d ''id''] of Some i \<Rightarrow> i | None \<Rightarrow> ''call_'' @ fresh)"
    and "arguments = (if item_type d = ''function_call'' then get_or d ''arguments'' (PStr [CHR 0x7B, CHR 0x7D])
                    else PStr (ascii_text (PDict [(''input'', PStr (str_or_empty (dict_get d ''input'')))])))"
  shows "says (PDict d) (chat_call cid (str_or_empty (dict_get d ''name'')) (arguments_text arguments))"
proof -
  define name where "name = str_or_empty (dict_get d ''name'')"
  define given where "given = (if item_type d = ''function_call''
               then (if dict_has d ''arguments'' then arguments_text (dict_get d ''arguments'') else [CHR 0x7B, CHR 0x7D])
               else ascii_text (PDict [(''input'', PStr (str_or_empty (dict_get d ''input'')))]))"
  have "arguments_text (get_or d ''arguments'' (PStr [CHR 0x7B, CHR 0x7D]))
      = (if dict_has d ''arguments'' then arguments_text (dict_get d ''arguments'') else [CHR 0x7B, CHR 0x7D])"
    by (cases "map_of d ''arguments''") (simp_all add: get_or_def dict_has_def dict_get_def arguments_text_def)
  then have g: "arguments_text arguments = given" unfolding assms(3) given_def by (simp add: arguments_text_def del: ascii_text.simps)
  have i: "case given_call_id d of Some i \<Rightarrow> PStr cid = PStr i | None \<Rightarrow> \<exists>i. PStr cid = PStr (''call_'' @ i)"
    unfolding assms(2) by (simp add: given_call_id_def)
  let ?u = "[(''id'', PStr cid), (''type'', PStr ''function''), (''function'', PDict [(''name'', PStr name), (''arguments'', PStr given)])]"
  have f: "dict_get ?u ''id'' = PStr cid" "dict_get ?u ''function'' = PDict [(''name'', PStr name), (''arguments'', PStr given)]"
    "dict_get [(''name'', PStr name), (''arguments'', PStr given)] ''name'' = PStr name"
    "dict_get [(''name'', PStr name), (''arguments'', PStr given)] ''arguments'' = PStr given" by (simp_all add: dict_get_def)
  have "says_call d ?u" unfolding says_call_def given_def [symmetric] name_def [symmetric] f(1,2)
    using f(3,4) by (intro conjI [OF i]) simp
  moreover have "item_type d \<noteq> ''message''" using assms(1) by auto
  ultimately show ?thesis using assms(1) unfolding says_def chat_call_def g name_def [symmetric] by simp
qed

lemma says_result_of_item:
  assumes "item_type d \<in> {''function_call_output'', ''custom_tool_call_output''}" and "str_or_empty (dict_get d ''call_id'') \<noteq> []"
    and "content_text (dict_get d ''output'') = Inr content"
  shows "kept_item (PDict d) \<and> says (PDict d) (output_message (str_or_empty (dict_get d ''call_id'')) content)"
proof -
  have "truthy (dict_get d ''call_id'')" "str_or_empty (dict_get d ''call_id'') = py_str (dict_get d ''call_id'')"
    using assms(2) by (auto simp: str_or_empty_def split: if_splits)
  then show ?thesis using assms(1,3)
    by (auto simp: kept_item_def says_def says_result_def output_message_def dict_get_def)
qed

text \<open>Each item is dropped, or it adds the one part that says it.\<close>

lemma effect_of_item_says:
  assumes "effect_of_item fresh item = Inr e"
  shows "if kept_item item then \<exists>u. effect_units e = [u] \<and> says item u else effect_units e = []"
proof (cases item)
  case (PStr s)
  then show ?thesis using assms by (auto simp: effect_of_item_def kept_item_def says_def chat_message_def message_units_def dict_get_def)
next
  case (PDict d)
  consider (message) "item_type d = ''message''" | (call) "item_type d \<in> {''function_call'', ''custom_tool_call''}"
    | (result) "item_type d \<in> {''function_call_output'', ''custom_tool_call_output''}"
    | (other) "item_type d \<notin> {''message'', ''function_call'', ''custom_tool_call'', ''function_call_output'', ''custom_tool_call_output''}"
    by blast
  then show ?thesis
  proof cases
    case message
    then obtain content where c: "message_content (dict_get d ''content'') = Inr content"
      "e = Messages [chat_message (let role = if truthy (dict_get d ''role'') then py_str (dict_get d ''role'') else ''user'' in
         if role \<in> set MESSAGE_ROLES then role else ''user'') content]"
      using assms by (auto simp: effect_of_item_def PDict item_type_def [symmetric] Let_def try_bind_Inr_iff)
    have "kept_item (PDict d)" using message by (simp add: kept_item_def)
    moreover have "says (PDict d) (chat_message (let role = if truthy (dict_get d ''role'') then py_str (dict_get d ''role'') else ''user'' in
         if role \<in> set MESSAGE_ROLES then role else ''user'') content)"
      using c(1) message by (simp add: says_def says_message_def chat_message_def dict_get_def MESSAGE_ROLES_def Let_def)
    ultimately show ?thesis using c(2) PDict by simp
  next
    case call
    then have "e = CallItem (chat_call (case first_text [dict_get d ''call_id'', dict_get d ''id''] of Some i \<Rightarrow> i | None \<Rightarrow> ''call_'' @ fresh)
         (str_or_empty (dict_get d ''name'')) (arguments_text (if item_type d = ''function_call'' then get_or d ''arguments'' (PStr [CHR 0x7B, CHR 0x7D])
                    else PStr (ascii_text (PDict [(''input'', PStr (str_or_empty (dict_get d ''input'')))])))))"
      using assms by (auto simp: effect_of_item_def PDict item_type_def [symmetric] Let_def simp del: ascii_text.simps)
    then show ?thesis using says_call_of_item [OF call refl refl] call PDict by (auto simp: kept_item_def)
  next
    case result
    show ?thesis
    proof (cases "str_or_empty (dict_get d ''call_id'') = []")
      case True
      then have "e = Messages []" using assms result by (auto simp: effect_of_item_def PDict item_type_def [symmetric] Let_def)
      moreover have "\<not> truthy (dict_get d ''call_id'')" using True truthy_text by (auto simp: str_or_empty_def)
      then have "\<not> kept_item item" using result PDict by (auto simp: kept_item_def)
      ultimately show ?thesis by simp
    next
      case False
      then obtain content where c: "content_text (dict_get d ''output'') = Inr content"
        "e = Messages [output_message (str_or_empty (dict_get d ''call_id'')) content]"
        using assms result by (auto simp: effect_of_item_def PDict item_type_def [symmetric] Let_def try_bind_Inr_iff)
      from says_result_of_item [OF result False c(1)] show ?thesis using c(2) PDict by simp
    qed
  next
    case other
    then have "e = Ignored" using assms by (auto simp: effect_of_item_def PDict item_type_def [symmetric] Let_def)
    then show ?thesis using other PDict by (simp add: kept_item_def)
  qed
qed (use assms in \<open>simp_all add: effect_of_item_def kept_item_def\<close>)

lemma input_messages_units:
  "input_messages fresh n pending items = Inr ms \<Longrightarrow>
     \<exists>units. concat (map message_units ms) = pending @ units \<and> list_all2 says (filter kept_item items) units"
proof (induction items arbitrary: n pending ms)
  case Nil
  then show ?case by auto
next
  case (Cons item items)
  obtain e where e: "effect_of_item (fresh n) item = Inr e" using Cons.prems by (auto simp: try_bind_Inr_iff)
  have cons: "list_all2 says (filter kept_item (item # items)) (effect_units e @ units)" if "list_all2 says (filter kept_item items) units" for units
    using effect_of_item_says [OF e] that by (auto split: if_splits)
  show ?case
  proof (cases e)
    case Ignored
    then show ?thesis using Cons.IH [of "Suc n" pending ms] Cons.prems e cons by fastforce
  next
    case (CallItem c)
    then show ?thesis using Cons.IH [of "Suc n" "pending @ [c]" ms] Cons.prems e cons by fastforce
  next
    case (Messages new)
    then obtain rest where rest: "input_messages fresh (Suc n) [] items = Inr rest" "ms = flushed pending @ new @ rest"
      using Cons.prems e by (auto simp: try_bind_Inr_iff)
    then show ?thesis using Cons.IH [OF rest(1)] Messages cons by fastforce
  qed
qed

text \<open>C18. A converted history keeps, in order, exactly the items that are texts, messages, calls or results that name their call, and drops the
  others. Taken apart again, with each run of calls back in its place, the messages are one part for each kept item, and each part
  says its own item: a message its role and content, a call its identifier, name and arguments, and a result the
  identifier of the call it names itself, never one of another item or one made up.\<close>

theorem history_in_order:
  assumes "compat_messages fresh body = Inr ms" and "dict_get body ''input'' = PList items"
  shows "\<exists>units. concat (map message_units ms) = (if truthy (dict_get body ''instructions'')
            then [PDict [(''role'', PStr ''developer''), (''content'', PStr (py_str (dict_get body ''instructions'')))]] else []) @ units
       \<and> list_all2 says (filter kept_item items) units"
proof -
  obtain rest where rest: "input_messages fresh 0 [] items = Inr rest"
    "ms = (if truthy (dict_get body ''instructions'') then [chat_message ''developer'' (PStr (py_str (dict_get body ''instructions'')))] else []) @ rest"
    using assms by (auto simp: compat_messages_def Let_def try_bind_Inr_iff)
  then show ?thesis using input_messages_units [OF rest(1)] by (auto simp: chat_message_def message_units_def dict_get_def)
qed

definition example_body :: pydict where
  "example_body = [(''input'', PList [PDict [(''type'', PStr ''function_call''), (''call_id'', PStr ''x''), (''name'', PStr ''f'')],
     PDict [(''type'', PStr ''function_call_output''), (''call_id'', PStr ''x''), (''output'', PStr ''done'')], PStr ''go on'']),
     (''tools'', PList [PDict [(''type'', PStr ''function''), (''name'', PStr ''f'')], PDict [(''type'', PStr ''custom''), (''name'', PStr ''g'')]]),
     (''tool_choice'', PDict [(''type'', PStr ''custom''), (''name'', PStr ''g'')])]"

theorem history_in_order_witness:
  "\<exists>ms units items. compat_messages (\<lambda>_. ''0'') example_body = Inr ms \<and> length ms = 3 \<and> dict_get example_body ''input'' = PList items
     \<and> concat (map message_units ms) = units \<and> list_all2 says (filter kept_item items) units \<and> length units = 3"
proof -
  have m: "map_sum id length (compat_messages (\<lambda>_. ''0'') example_body) = Inr 3" by code_simp
  then obtain ms where ms: "compat_messages (\<lambda>_. ''0'') example_body = Inr ms" "length ms = 3"
    by (cases "compat_messages (\<lambda>_. ''0'') example_body") auto
  obtain items where items: "dict_get example_body ''input'' = PList items" by (simp add: example_body_def dict_get_def)
  have "(case dict_get example_body ''input'' of PList items \<Rightarrow> length (filter kept_item items) = 3 | _ \<Rightarrow> False)" by code_simp
  then have three: "length (filter kept_item items) = 3" using items by simp
  have "\<not> truthy (dict_get example_body ''instructions'')" by (simp add: example_body_def dict_get_def)
  then obtain units where u: "concat (map message_units ms) = units" "list_all2 says (filter kept_item items) units"
    using history_in_order [OF ms(1) items] by auto
  then show ?thesis using ms items three list_all2_lengthD [OF u(2)] by auto
qed

section \<open>What a caller may decide\<close>

lemma chat_tool_name [simp]: "tool_name (chat_tool d name params) = name"
  by (simp add: tool_name_def chat_tool_def dict_get_def str_or_empty_text)

lemma compat_tool_facts:
  assumes "compat_tool v = Some (t, name, kind)"
  shows "tool_name t = name" and "name \<noteq> []" and "\<exists>d. v = PDict d \<and> str_or_empty (dict_get d ''name'') = name \<and> str_or_empty (dict_get d ''type'') = kind"
proof -
  obtain d where v: "v = PDict d" using assms by (cases v) (simp_all add: compat_tool_def)
  have "(\<exists>params. t = chat_tool d name params) \<and> name \<noteq> [] \<and> name = str_or_empty (dict_get d ''name'') \<and> kind = str_or_empty (dict_get d ''type'')"
    using assms unfolding compat_tool_def v pyval.case Let_def by (simp split: if_split_asm) auto
  then show "tool_name t = name" and "name \<noteq> []" and "\<exists>d. v = PDict d \<and> str_or_empty (dict_get d ''name'') = name \<and> str_or_empty (dict_get d ''type'') = kind"
    using v by auto
qed

lemma map_of_kinds: "map_of (fold (\<lambda>(t, n, k) ks. dict_set ks n k) found kinds) name
    = (case map_of (rev (map (\<lambda>(t, n, k). (n, k)) found)) name of None \<Rightarrow> map_of kinds name | Some k \<Rightarrow> Some k)"
  by (induction found arbitrary: kinds) (auto simp: map_add_def split: option.splits)

lemma single_kind:
  assumes "\<forall>(t, n, k) \<in> set found. tool_name t = n" and "filter (\<lambda>t. tool_name t = name) (map fst found) = [t]"
    and "map_of (fold (\<lambda>(t, n, k) ks. dict_set ks n k) found []) name = Some kind"
  shows "(t, name, kind) \<in> set found"
proof -
  have "(name, kind) \<in> set (map (\<lambda>(t, n, k). (n, k)) found)" using assms(3) by (auto simp: map_of_kinds dest: map_of_SomeD split: option.splits)
  then obtain t' where t': "(t', name, kind) \<in> set found" by auto
  then have "t' \<in> set (filter (\<lambda>t. tool_name t = name) (map fst found))" using assms(1) by force
  then show ?thesis using t' assms(2) by simp
qed

text \<open>C19. A named tool choice is kept exactly although the backend knows only the general forms: the model is offered the one tool the caller
  named, of the caller's kind, and must call a tool; the kernel's authority filter leaves both as they are.\<close>

theorem named_choice_exact:
  assumes "chat_body fresh body = Inr (chat, kinds)" and "named_choice (get_or body ''tool_choice'' (PStr ''auto'')) = Inr (Some (kind, name))"
  shows "\<exists>t v r. dict_get chat ''tools'' = PList [t] \<and> dict_get chat ''tool_choice'' = PStr ''required'' \<and> tool_name t = name
     \<and> (\<exists>vs. dict_get body ''tools'' = PList vs \<and> v \<in> set vs) \<and> compat_tool v = Some (t, name, kind) \<and> map_of kinds name = Some kind
     \<and> sanitize_agent_request chat = Inr r \<and> dict_get r ''tools'' = PList [t] \<and> dict_get r ''tool_choice'' = PStr ''required''"
proof -
  obtain tools kinds' where tools: "compat_tools (dict_get body ''tools'') = (tools, kinds')" by (rule prod.exhaust)
  have named: "get_or body ''tool_choice'' (PStr ''auto'') \<notin> {PNone, PStr ''auto'', PStr ''none''}"
    using assms(2) by (auto simp: named_choice_def)
  obtain base choice messages where chat: "tools \<noteq> []" "select_tools tools kinds' (get_or body ''tool_choice'' (PStr ''auto'')) = Inr choice"
    "chat = base @ choice" "kinds = kinds'"
    "base = [(''messages'', PList messages), (''stream'', PBool (truthy (get_or body ''stream'' (PBool False))))]
       @ (if dict_get body ''model'' \<noteq> PNone then [(''model'', dict_get body ''model'')] else [])"
    using assms(1) named by (fastforce simp: chat_body_def tools Let_def try_bind_Inr_iff raise_if_def split: if_splits)
  obtain t where t: "map_of kinds' name = Some kind" "filter (\<lambda>t. tool_name t = name) tools = [t]"
    "choice = [(''tools'', PList [t]), (''tool_choice'', PStr ''required'')]"
    using chat(2) by (auto simp: select_tools_def assms(2) raise_if_def length_Suc_conv Let_def split: if_splits)
  obtain vs where vs: "dict_get body ''tools'' = PList vs" using tools chat(1) by (auto simp: compat_tools_def split: pyval.splits)
  let ?found = "List.map_filter compat_tool vs"
  have k: "tools = map fst ?found" "kinds' = fold (\<lambda>(t, name, kind) kinds. dict_set kinds name kind) ?found []"
    using tools by (simp_all add: compat_tools_def vs Let_def)
  have "\<forall>(t, n, k) \<in> set ?found. tool_name t = n" using compat_tool_facts(1) by (force simp: List.map_filter_def)
  then have "(t, name, kind) \<in> set ?found" by (rule single_kind) (use t(1,2) k in simp_all)
  then obtain v where v: "v \<in> set vs" "compat_tool v = Some (t, name, kind)" by (auto simp: List.map_filter_def)
  have fields: "dict_get chat ''tools'' = PList [t]" "dict_get chat ''tool_choice'' = PStr ''required''" "dict_get chat ''messages'' = PList messages"
    by (simp_all add: chat(3,5) t(3) dict_get_def)
  have "py_lower (py_strip ''required'') = ''required''" by code_simp
  then obtain r where r: "sanitize_agent_request chat = Inr r" "dict_get r ''tools'' = PList [t]" "dict_get r ''tool_choice'' = PStr ''required''"
    by (auto simp: sanitize_agent_request_def fields normalize_tool_choice_def Let_def) (simp add: dict_get_def)
  have "tool_name t = name" using compat_tool_facts [OF v(2)] by simp
  then show ?thesis using fields r v vs t(1) chat(4) by blast
qed

theorem named_choice_exact_witness:
  "\<exists>chat kinds t. chat_body (\<lambda>_. ''0'') example_body = Inr (chat, kinds) \<and> dict_get chat ''tools'' = PList [t] \<and> tool_name t = ''g''"
proof -
  have "isl (chat_body (\<lambda>_. ''0'') example_body) = False" by code_simp
  then obtain chat kinds where c: "chat_body (\<lambda>_. ''0'') example_body = Inr (chat, kinds)"
    by (cases "chat_body (\<lambda>_. ''0'') example_body") auto
  have n: "named_choice (get_or example_body ''tool_choice'' (PStr ''auto'')) = Inr (Some (''custom'', ''g''))" by code_simp
  from named_choice_exact [OF c n] show ?thesis using c by blast
qed

text \<open>C20. Whatever a caller sends, the kernel gets the messages, the tools, the tool choice and the wish to stream, each once, no field
  of the host in a message, and no demand for a tool that is not offered.\<close>

theorem caller_authority:
  assumes "sanitize_agent_request body = Inr r"
  shows "set (map fst r) \<subseteq> set AGENT_REQUEST_ALLOWLIST \<and> distinct (map fst r)
     \<and> (\<forall>ms d k. dict_get r ''messages'' = PList ms \<and> PDict d \<in> set ms \<and> k \<in> fst ` set d \<longrightarrow> \<not> starts_with ''_jack_'' k)
     \<and> (case dict_get r ''tool_choice'' of
          PNone \<Rightarrow> True
        | PStr choice \<Rightarrow> choice \<in> {''auto'', ''none'', ''required''} \<and> (choice = ''required'' \<longrightarrow> (\<exists>t ts. dict_get r ''tools'' = PList (t # ts)))
        | PDict d \<Rightarrow> (\<exists>name ts. d = [(''type'', PStr ''function''), (''function'', PDict [(''name'', PStr name)])]
            \<and> dict_get r ''tools'' = PList ts \<and> name \<in> set (available_names ts))
        | _ \<Rightarrow> False)"
proof -
  define tools where "tools = (case dict_get body ''tools'' of PList ts \<Rightarrow> Some ts | _ \<Rightarrow> None)"
  define messages where "messages = (case dict_get body ''messages'' of PList ms \<Rightarrow> PList (map without_private ms) | v \<Rightarrow> v)"
  obtain choice where c: "normalize_tool_choice (dict_get body ''tool_choice'') tools = Inr choice"
    and r: "r = [(''messages'', messages), (''stream'', PBool (truthy (get_or body ''stream'' (PBool False))))]
          @ (case tools of None \<Rightarrow> []
             | Some ts \<Rightarrow> (''tools'', PList ts) # (case choice of None \<Rightarrow> [] | Some c \<Rightarrow> [(''tool_choice'', c)]))"
    using assms by (auto simp: sanitize_agent_request_def Let_def tools_def messages_def try_bind_Inr_iff)
  have keys: "set (map fst r) \<subseteq> set AGENT_REQUEST_ALLOWLIST \<and> distinct (map fst r)"
    by (auto simp: r AGENT_REQUEST_ALLOWLIST_def split: option.splits)
  have m: "dict_get r ''messages'' = messages" by (simp add: r dict_get_def)
  have unhidden: "\<not> starts_with ''_jack_'' k" if "messages = PList ms" "PDict d \<in> set ms" "k \<in> fst ` set d" for ms d k
    using that by (auto simp: messages_def without_private_def split: pyval.splits)
  have choices: "case choice of None \<Rightarrow> True
      | Some (PStr s) \<Rightarrow> s \<in> {''auto'', ''none'', ''required''} \<and> (s = ''required'' \<longrightarrow> tools \<noteq> None \<and> tools \<noteq> Some [])
      | Some (PDict d) \<Rightarrow> (\<exists>name. d = [(''type'', PStr ''function''), (''function'', PDict [(''name'', PStr name)])]
          \<and> name \<in> set (available_names (case tools of None \<Rightarrow> [] | Some ts \<Rightarrow> ts)))
      | Some _ \<Rightarrow> False"
    using c by (auto simp: normalize_tool_choice_def Let_def raise_if_def split: pyval.splits if_splits)
  have fields: "dict_get r ''tools'' = (case tools of None \<Rightarrow> PNone | Some ts \<Rightarrow> PList ts)"
    "dict_get r ''tool_choice'' = (case tools of None \<Rightarrow> PNone | Some ts \<Rightarrow> (case choice of None \<Rightarrow> PNone | Some c \<Rightarrow> c))"
    by (auto simp: r dict_get_def split: option.splits)
  have "case dict_get r ''tool_choice'' of
          PNone \<Rightarrow> True
        | PStr choice \<Rightarrow> choice \<in> {''auto'', ''none'', ''required''} \<and> (choice = ''required'' \<longrightarrow> (\<exists>t ts. dict_get r ''tools'' = PList (t # ts)))
        | PDict d \<Rightarrow> (\<exists>name ts. d = [(''type'', PStr ''function''), (''function'', PDict [(''name'', PStr name)])]
            \<and> dict_get r ''tools'' = PList ts \<and> name \<in> set (available_names ts))
        | _ \<Rightarrow> False"
    using choices fields by (cases tools; cases choice) (auto simp: neq_Nil_conv split: pyval.splits)
  moreover have "\<forall>ms d k. dict_get r ''messages'' = PList ms \<and> PDict d \<in> set ms \<and> k \<in> fst ` set d \<longrightarrow> \<not> starts_with ''_jack_'' k"
    using unhidden m by metis
  ultimately show ?thesis using keys by blast
qed

theorem caller_authority_witness:
  "\<exists>r. sanitize_agent_request [(''messages'', PList [PDict [(''role'', PStr ''user''), (''_jack_task'', PStr ''x'')]]), (''temperature'', PInt 2)] = Inr r
     \<and> set (map fst r) \<subseteq> set AGENT_REQUEST_ALLOWLIST \<and> dict_get r ''messages'' = PList [PDict [(''role'', PStr ''user'')]]"
proof -
  obtain r where r: "sanitize_agent_request [(''messages'', PList [PDict [(''role'', PStr ''user''), (''_jack_task'', PStr ''x'')]]), (''temperature'', PInt 2)] = Inr r"
    "dict_get r ''messages'' = PList [PDict [(''role'', PStr ''user'')]]"
    by (simp add: sanitize_agent_request_def dict_get_def normalize_tool_choice_def without_private_def starts_with_def get_or_def)
  then show ?thesis using caller_authority [OF r(1)] by blast
qed

section \<open>Where the conversion goes wrong\<close>

text \<open>A delta whose text has a next-line character in it is lost: the kernel writes it as it is, the bridge takes it for a line break.\<close>

lemma split_break: "\<forall>c \<in> set s. \<not> line_break c \<Longrightarrow> line_break b \<Longrightarrow> b \<noteq> CHR 0x0D \<Longrightarrow> py_splitlines (s @ b # t) = s # py_splitlines t"
  by (induction s) auto

lemma replace_crlf_id: "CHR 0x0D \<notin> set s \<Longrightarrow> replace_crlf s = s"
  by (induction s rule: replace_crlf.induct) auto

lemma next_line_delta_lost:
  assumes "\<forall>c \<in> set a. \<not> line_break c" and "\<forall>c \<in> set b. \<not> line_break c" and "\<not> starts_with ''data:'' b"
    and "loads (py_strip (drop 5 (''data: '' @ a))) = None" and "py_strip (drop 5 (''data: '' @ a)) \<noteq> ''[DONE]''"
  shows "chat_events loads (''data: '' @ a @ [CHR 0x85] @ b @ [CHR 0x0A, CHR 0x0A]) = []"
proof -
  let ?data = "''data: ''"
  have no: "CHR 0x0D \<notin> set a" "CHR 0x0D \<notin> set b" using assms(1,2) by (auto simp: line_break_def)
  have d: "\<forall>c \<in> set (?data @ a). \<not> line_break c" using assms(1) by (auto simp: line_break_def)
  have r: "replace_crlf (?data @ a @ [CHR 0x85] @ b @ [CHR 0x0A, CHR 0x0A]) = (?data @ a) @ CHR 0x85 # b @ CHR 0x0A # [CHR 0x0A]"
    using no by (subst replace_crlf_id) auto
  have l1: "py_splitlines ((?data @ a) @ CHR 0x85 # b @ CHR 0x0A # [CHR 0x0A]) = (?data @ a) # py_splitlines (b @ CHR 0x0A # [CHR 0x0A])"
    by (rule split_break [OF d]) (simp_all add: line_break_def)
  have l2: "py_splitlines (b @ CHR 0x0A # [CHR 0x0A]) = b # py_splitlines [CHR 0x0A]"
    by (rule split_break [OF assms(2)]) (simp_all add: line_break_def)
  have l3: "py_splitlines [CHR 0x0A] = [[]]" by (simp add: line_break_def)
  have "line_event loads (?data @ a) = None" using assms(4,5) by (simp add: line_event_def Let_def)
  moreover have "line_event loads b = None" using assms(3) by (simp add: line_event_def)
  moreover have "line_event loads [] = None" by (simp add: line_event_def starts_with_def)
  ultimately show ?thesis unfolding chat_events_def r l1 l2 l3 by (simp add: List.map_filter_def)
qed

text \<open>A model that writes text before it reasons gets both items announced at index 0, and the text done at index 1.\<close>

definition index_events :: "sse_event list \<Rightarrow> (string \<times> pyval) list" where
  "index_events es = List.map_filter (\<lambda>(k, d). if k \<in> {''response.output_item.added'', ''response.output_item.done''}
     then Some (case dict_get d ''item'' of PDict i \<Rightarrow> py_str (dict_get i ''id'') | _ \<Rightarrow> [], dict_get d ''output_index'') else None) es"

definition late_reasoning :: "pyval list" where
  "late_reasoning = map (\<lambda>(k, s). PDict [(''choices'', PList [PDict [(''delta'', PDict [(k, PStr s)])]])])
     [(''content'', ''OK''), (''reasoning_content'', ''think'')]"

lemma late_reasoning_indices:
  "case relay_objects example_ids late_reasoning None new_relay of
     (es, Inr st) \<Rightarrow> index_events (es @ done_events example_chat_loads [] example_ids st)
         = [(''m'', PInt 0), (''s'', PInt 0), (''s'', PInt 0), (''m'', PInt 1)]
   | _ \<Rightarrow> False"
  by code_simp

text \<open>An image in the chat form, an object with the url, is passed on with the text of the object for its url.\<close>

lemma image_object_mangled:
  "message_content (PList [PDict [(''type'', PStr ''image_url''), (''image_url'', PDict [(''url'', PStr url)])]])
     = Inr (PList [PDict [(''type'', PStr ''image_url''), (''image_url'', PDict [(''url'', PStr (py_repr (PDict [(''url'', PStr url)])))])]])"
  by (simp add: message_content_def dict_get_def str_or_empty_def py_str_def TEXT_TYPES_def IMAGE_TYPES_def blocks_content_def buffered_def
      block_text_def block_value_def del: py_repr.simps)

end
