(* ===== verification/LedgerHooks.thy ===== *)
theory LedgerHooks
  imports LedgerChain EvidenceProvenance
begin

text \<open>
  The release hooks of \<open>jack_authority_ledger.py\<close>: inside a run of the kernel the ledger is live, the
  subclass of the reserved-marker filter records each claim it blocks, and a canary interrupt is recorded before
  it goes on. The live ledger with the records made so far is a state that is passed along; \<open>clock\<close> gives
  the time of a sequence number.
\<close>

section \<open>The live ledger\<close>

type_synonym live_ledger = "authority_ledger option \<times> authority_record list"

definition record_live :: "(string \<Rightarrow> string) \<Rightarrow> (nat \<Rightarrow> string) \<Rightarrow> ledger_error + record_request \<Rightarrow> live_ledger \<Rightarrow> live_ledger" where
  "record_live sha clock request live =
     (case live of
        (None, rs) \<Rightarrow> (None, rs)
      | (Some l, rs) \<Rightarrow>
          (case safe_record sha (clock (lh_sequence (al_head l) + 1)) request l of
             (l', r) \<Rightarrow> (Some l', rs @ (case r of None \<Rightarrow> [] | Some x \<Rightarrow> [x]))))"

definition record_reserved_block :: "(string \<Rightarrow> string) \<Rightarrow> (nat \<Rightarrow> string) \<Rightarrow> live_ledger \<Rightarrow> live_ledger" where
  "record_reserved_block sha clock = record_live sha clock (Inr reserved_namespace_request)"

definition record_canary_failsoft :: "(string \<Rightarrow> string) \<Rightarrow> (nat \<Rightarrow> string) \<Rightarrow> canary_match \<Rightarrow> live_ledger \<Rightarrow> live_ledger" where
  "record_canary_failsoft sha clock m = record_live sha clock (canary_match_request (cm_id m) (tier_value (cm_tier m)))"

section \<open>The filter with its hook\<close>

text \<open>\<open>LedgerAwareReservedEvidenceMarkerFilter._classify_candidate\<close>.\<close>

definition ledger_classify ::
    "(string \<Rightarrow> string) \<Rightarrow> (nat \<Rightarrow> string) \<Rightarrow> string \<Rightarrow> bool \<Rightarrow> live_ledger \<Rightarrow> (marker_status \<times> nat) \<times> live_ledger" where
  "ledger_classify sha clock fragment final live =
     (case classify_candidate fragment final of
        (MarkerBlock, consumed) \<Rightarrow> ((MarkerBlock, consumed), record_reserved_block sha clock live)
      | (status, consumed) \<Rightarrow> ((status, consumed), live))"

lemma ledger_classify_verdict: "fst (ledger_classify sha clock s final live) = classify_candidate s final"
  by (simp add: ledger_classify_def split: prod.split marker_status.split)

lemma ledger_classify_block: "ledger_classify sha clock s final live = ((MarkerBlock, n), live') \<Longrightarrow> 0 < n"
  using ledger_classify_verdict [of sha clock s final live] classify_pos by (metis fst_conv)

text \<open>The loop of \<open>feed\<close>, with the method it inherits replaced.\<close>

function ledger_scan :: "(string \<Rightarrow> string) \<Rightarrow> (nat \<Rightarrow> string) \<Rightarrow> string \<Rightarrow> live_ledger \<Rightarrow> string \<times> string \<times> live_ledger" where
  "ledger_scan sha clock data live =
     (if dropWhile (\<lambda>c. \<not> opener c) data = [] then (data, [], live)
      else
        (let plain = takeWhile (\<lambda>c. \<not> opener c) data; rest = dropWhile (\<lambda>c. \<not> opener c) data
         in case ledger_classify sha clock rest False live of
              ((MarkerHold, _), live') \<Rightarrow> (plain, rest, live')
            | ((MarkerBlock, consumed), live') \<Rightarrow>
                (case ledger_scan sha clock (drop consumed rest) live' of
                   (out, carry, live'') \<Rightarrow> (plain @ BLOCKED_MARKER @ out, carry, live''))
            | ((MarkerSafe, consumed), live') \<Rightarrow>
                (let release = max 1 consumed
                 in case ledger_scan sha clock (drop release rest) live' of
                      (out, carry, live'') \<Rightarrow> (plain @ take release rest @ out, carry, live''))))"
  by pat_completeness auto

termination
  by (relation "measure (\<lambda>(sha, clock, data, live). length data)")
    (auto simp del: length_drop dropWhile_eq_Nil_conv intro!: drop_rest_shorter dest: ledger_classify_block [OF sym])

declare ledger_scan.simps [simp del]

definition ledger_flush :: "(string \<Rightarrow> string) \<Rightarrow> (nat \<Rightarrow> string) \<Rightarrow> string \<Rightarrow> live_ledger \<Rightarrow> string \<times> live_ledger" where
  "ledger_flush sha clock tail live =
     (if tail = [] then ([], live)
      else (case ledger_classify sha clock tail True live of
          ((MarkerBlock, consumed), live') \<Rightarrow> (BLOCKED_MARKER @ drop consumed tail, live')
        | (_, live') \<Rightarrow> (tail, live')))"

definition ledger_sanitize :: "(string \<Rightarrow> string) \<Rightarrow> (nat \<Rightarrow> string) \<Rightarrow> pyval \<Rightarrow> live_ledger \<Rightarrow> pyval \<times> live_ledger" where
  "ledger_sanitize sha clock v live =
     (case v of
        PStr s \<Rightarrow>
          (case ledger_scan sha clock s live of
             (out, carry, live') \<Rightarrow> (case ledger_flush sha clock carry live' of (tail, live'') \<Rightarrow> (PStr (out @ tail), live'')))
      | _ \<Rightarrow> (v, live))"

section \<open>The kernel's calls with their hooks\<close>

text \<open>\<open>ledger_run\<close> around the guarded run: the texts of the result go through the filter one after the other.\<close>

definition ledger_run ::
    "(string \<Rightarrow> string) \<Rightarrow> (nat \<Rightarrow> string) \<Rightarrow> canary_set \<Rightarrow> model_result \<Rightarrow> authority_ledger \<Rightarrow> (canary_match + model_result) \<times> live_ledger" where
  "ledger_run sha clock cs result l =
     (case find_in_nonstream_result cs result of
        Some m \<Rightarrow> (Inl m, record_canary_failsoft sha clock m (Some l, []))
      | None \<Rightarrow>
          (case (if mr_content result \<noteq> PNone then ledger_sanitize sha clock (mr_content result) (Some l, []) else (PNone, Some l, [])) of
             (content, live1) \<Rightarrow>
               (case (if mr_reasoning_content result \<noteq> PNone then ledger_sanitize sha clock (mr_reasoning_content result) live1 else (PNone, live1)) of
                  (reasoning, live2) \<Rightarrow> (Inr (result\<lparr>mr_content := content, mr_reasoning_content := reasoning\<rparr>), live2))))"

text \<open>\<open>ledger_stream\<close>, around the frames of a guarded stream and the way it ended; \<open>live\<close> is the ledger as the filters of
  the stream left it.\<close>

definition ledger_stream ::
    "(string \<Rightarrow> string) \<Rightarrow> (nat \<Rightarrow> string) \<Rightarrow> released_frame list \<times> stream_outcome \<Rightarrow> live_ledger
       \<Rightarrow> (released_frame list \<times> stream_outcome) \<times> live_ledger" where
  "ledger_stream sha clock run live =
     (run, (case snd run of StreamInterrupted m \<Rightarrow> record_canary_failsoft sha clock m live | _ \<Rightarrow> live))"

section \<open>Installation\<close>

text \<open>A release seam of the kernel: missing, as it was, or with the hook of the ledger of that instance.\<close>

datatype release_seam = SeamMissing | SeamPlain | SeamLedger string

definition seam_hooked :: "string \<Rightarrow> release_seam \<Rightarrow> release_seam" where
  "seam_hooked inst s = (case s of SeamPlain \<Rightarrow> SeamLedger inst | _ \<Rightarrow> s)"

record ledger_host =
  lg_installed :: bool
  lg_ledger :: "authority_ledger option"
  lg_runtime_id :: pyval
  lg_lane_id :: pyval
  lg_evidence_installed :: bool
  lg_filter_hooked :: bool
  lg_kernel :: bool
  lg_run :: release_seam
  lg_stream :: release_seam

definition install_release_hooks :: "string \<Rightarrow> ledger_host \<Rightarrow> ledger_host \<times> (ledger_error + unit)" where
  "install_release_hooks inst h0 =
     (let h = h0\<lparr>lg_filter_hooked := True\<rparr> in
      if \<not> lg_kernel h then (h, Inl (LedgerRuntimeError ''Jack KERNEL instance is unavailable for Phase-6 evidence integration''))
      else if lg_run h = SeamMissing \<or> lg_stream h = SeamMissing then
        (h, Inl (LedgerRuntimeError ''Jack KERNEL release seams are unavailable for Phase-6 evidence integration''))
      else (h\<lparr>lg_run := seam_hooked inst (lg_run h), lg_stream := seam_hooked inst (lg_stream h)\<rparr>, Inr ()))"

definition install_ledger ::
    "(string \<Rightarrow> string) \<Rightarrow> string option \<Rightarrow> string \<Rightarrow> ledger_host \<Rightarrow> ledger_host \<times> (ledger_error + authority_ledger)" where
  "install_ledger sha capacity_env inst h =
     (let runtime_id = py_strip (str_or_empty (lg_runtime_id h)); lane_id = py_strip (str_or_empty (lg_lane_id h)) in
      if lg_installed h then
        (h, (case lg_ledger h of
               None \<Rightarrow> Inl (LedgerRuntimeError ''Phase-6 installation marker exists without an AuthorityLedger'')
             | Some l \<Rightarrow> Inr l))
      else if runtime_id = [] then (h, Inl (LedgerRuntimeError ''Jack runtime identity is unavailable for Phase-6 ledger''))
      else if lane_id = [] then (h, Inl (LedgerRuntimeError ''Jack lane identity is unavailable for Phase-6 ledger''))
      else if \<not> lg_evidence_installed h then
        (h, Inl (LedgerRuntimeError ''Phase-6 ledger requires the predecessor evidence/Canary guard to be installed first''))
      else (case try_bind (queue_capacity_from_environment capacity_env) (\<lambda>capacity. new_ledger sha runtime_id lane_id capacity inst) of
          Inl e \<Rightarrow> (h, Inl e)
        | Inr l \<Rightarrow>
            (case install_release_hooks inst h of
               (h', Inl e) \<Rightarrow> (h', Inl e)
             | (h', Inr _) \<Rightarrow> (h'\<lparr>lg_ledger := Some l, lg_installed := True\<rparr>, Inr l))))"

section \<open>What is recorded\<close>

text \<open>The pieces of a text: what is kept of it, and the claims that are replaced.\<close>

datatype marker_piece = Kept string | Claim string

definition piece_out :: "marker_piece \<Rightarrow> string" where
  "piece_out p = (case p of Kept s \<Rightarrow> s | Claim _ \<Rightarrow> BLOCKED_MARKER)"

definition piece_in :: "marker_piece \<Rightarrow> string" where
  "piece_in p = (case p of Kept s \<Rightarrow> s | Claim s \<Rightarrow> s)"

lemma piece_simps [simp]: "piece_out (Kept s) = s" "piece_out (Claim s) = BLOCKED_MARKER" "piece_in (Kept s) = s" "piece_in (Claim s) = s"
  by (simp_all add: piece_out_def piece_in_def)

definition claims :: "marker_piece list \<Rightarrow> nat" where
  "claims ps = length (filter (\<lambda>p. \<exists>s. p = Claim s) ps)"

text \<open>A claim is a text that the filter blocks, up to its end.\<close>

definition claim_ok :: "marker_piece \<Rightarrow> bool" where
  "claim_ok p = (case p of Kept _ \<Rightarrow> True | Claim s \<Rightarrow> \<exists>t final. classify_candidate (s @ t) final = (MarkerBlock, length s))"

lemma claim_ok_simps [simp]: "claim_ok (Kept s)" "claim_ok (Claim s) \<longleftrightarrow> (\<exists>t final. classify_candidate (s @ t) final = (MarkerBlock, length s))"
  by (simp_all add: claim_ok_def)

lemma claim_ok_taken: "classify_candidate s final = (MarkerBlock, n) \<Longrightarrow> claim_ok (Claim (take n s))"
  using classify_block_bound [of s final n] by (auto intro!: exI [of _ "drop n s"] exI [of _ final])

fun record_times :: "nat \<Rightarrow> ('a \<Rightarrow> 'a) \<Rightarrow> 'a \<Rightarrow> 'a" where
  "record_times 0 f x = x"
| "record_times (Suc n) f x = record_times n f (f x)"

lemma record_times_add: "record_times (m + n) f x = record_times n f (record_times m f x)"
  by (induction m arbitrary: x) auto

lemma claims_simps [simp]: "claims [] = 0" "claims (ps @ qs) = claims ps + claims qs" "claims (Kept s # ps) = claims ps"
  "claims (Claim s # ps) = Suc (claims ps)"
  by (simp_all add: claims_def)

text \<open>A pass is a way to take the text apart: its pieces are the input, with each claim a verdict of the filter; it
  records each claim once.\<close>

lemma ledger_scan_pieces:
  "\<exists>ps. ledger_scan sha clock data live
      = (concat (map piece_out ps), snd (scan_markers data), record_times (claims ps) (record_reserved_block sha clock) live)
    \<and> fst (scan_markers data) = concat (map piece_out ps) \<and> data = concat (map piece_in ps) @ snd (scan_markers data)
    \<and> list_all claim_ok ps"
proof (induction sha clock data live rule: ledger_scan.induct)
  case (1 sha clock data live)
  let ?plain = "takeWhile (\<lambda>c. \<not> opener c) data" and ?rest = "dropWhile (\<lambda>c. \<not> opener c) data"
  have data: "?plain @ ?rest = data" by simp
  show ?case
  proof (cases "?rest = []")
    case True
    then show ?thesis
      by (intro exI [of _ "[Kept data]"]) (simp add: ledger_scan.simps [of sha clock data live] scan_markers.simps [of data])
  next
    case False
    obtain v n where c: "classify_candidate ?rest False = (v, n)" by fastforce
    show ?thesis
    proof (cases v)
      case MarkerHold
      then show ?thesis using False c data
        by (intro exI [of _ "[Kept ?plain]"])
          (auto simp: ledger_scan.simps [of sha clock data live] scan_markers.simps [of data] ledger_classify_def Let_def
            simp del: dropWhile_eq_Nil_conv)
    next
      case MarkerBlock
      have lc: "ledger_classify sha clock ?rest False live = ((MarkerBlock, n), record_reserved_block sha clock live)"
        using c MarkerBlock by (simp add: ledger_classify_def)
      obtain ps where ps: "ledger_scan sha clock (drop n ?rest) (record_reserved_block sha clock live)
          = (concat (map piece_out ps), snd (scan_markers (drop n ?rest)), record_times (claims ps) (record_reserved_block sha clock) (record_reserved_block sha clock live))"
        "fst (scan_markers (drop n ?rest)) = concat (map piece_out ps)" "drop n ?rest = concat (map piece_in ps) @ snd (scan_markers (drop n ?rest))" "list_all claim_ok ps"
        using "1.IH"(2) [OF False refl refl lc [symmetric] refl refl] by blast
      obtain out carry where sm: "scan_markers (drop n ?rest) = (out, carry)" by fastforce
      have "data = ?plain @ take n ?rest @ concat (map piece_in ps) @ carry" using ps(3) sm by (metis append_take_drop_id data snd_conv)
      moreover have "scan_markers data = (?plain @ piece_out (Claim (take n ?rest)) @ out, carry)"
        using False c MarkerBlock sm by (subst scan_markers.simps) (simp add: Let_def del: dropWhile_eq_Nil_conv)
      moreover have "ledger_scan sha clock data live = (?plain @ piece_out (Claim (take n ?rest)) @ concat (map piece_out ps), carry, record_times (claims (Claim (take n ?rest) # ps)) (record_reserved_block sha clock) live)"
        using False lc ps(1) sm by (subst ledger_scan.simps) (simp add: Let_def del: dropWhile_eq_Nil_conv)
      moreover have "claim_ok (Claim (take n ?rest))" using claim_ok_taken c MarkerBlock by simp
      ultimately show ?thesis using ps(2,4) sm
        by (intro exI [of _ "Kept ?plain # Claim (take n ?rest) # ps"]) (simp del: claim_ok_simps(2))
    next
      case MarkerSafe
      have lc: "ledger_classify sha clock ?rest False live = ((MarkerSafe, n), live)"
        using c MarkerSafe by (simp add: ledger_classify_def)
      let ?m = "max 1 n"
      obtain ps where ps: "ledger_scan sha clock (drop ?m ?rest) live
          = (concat (map piece_out ps), snd (scan_markers (drop ?m ?rest)), record_times (claims ps) (record_reserved_block sha clock) live)"
        "fst (scan_markers (drop ?m ?rest)) = concat (map piece_out ps)" "drop ?m ?rest = concat (map piece_in ps) @ snd (scan_markers (drop ?m ?rest))" "list_all claim_ok ps"
        using "1.IH"(1) [OF False refl refl lc [symmetric] refl refl refl] by blast
      obtain out carry where sm: "scan_markers (drop ?m ?rest) = (out, carry)" by fastforce
      have "data = ?plain @ take ?m ?rest @ concat (map piece_in ps) @ carry" using ps(3) sm by (metis append_take_drop_id data snd_conv)
      moreover have "scan_markers data = (?plain @ piece_out (Kept (take ?m ?rest)) @ out, carry)"
        using False c MarkerSafe sm by (subst scan_markers.simps) (simp add: Let_def del: dropWhile_eq_Nil_conv)
      moreover have "ledger_scan sha clock data live = (?plain @ piece_out (Kept (take ?m ?rest)) @ concat (map piece_out ps), carry, record_times (claims (Kept (take ?m ?rest) # ps)) (record_reserved_block sha clock) live)"
        using False lc ps(1) sm by (subst ledger_scan.simps) (simp add: Let_def del: dropWhile_eq_Nil_conv)
      ultimately show ?thesis using ps(2,4) sm
        by (intro exI [of _ "Kept ?plain # Kept (take ?m ?rest) # ps"]) simp
    qed
  qed
qed

lemma ledger_flush_pieces:
  "\<exists>ps. ledger_flush sha clock tail live = (concat (map piece_out ps), record_times (claims ps) (record_reserved_block sha clock) live)
     \<and> fst (marker_flush \<lparr>mf_carry = tail\<rparr>) = concat (map piece_out ps) \<and> tail = concat (map piece_in ps)
     \<and> list_all claim_ok ps"
proof -
  obtain v n where c: "classify_candidate tail True = (v, n)" by fastforce
  show ?thesis
  proof (cases "tail \<noteq> [] \<and> v = MarkerBlock")
    case True
    then have "claim_ok (Claim (take n tail))" using claim_ok_taken c by simp
    then show ?thesis using True c
      by (intro exI [of _ "[Claim (take n tail), Kept (drop n tail)]"])
        (simp add: ledger_flush_def ledger_classify_def marker_flush_def Let_def del: claim_ok_simps(2))
  next
    case False
    then show ?thesis using c
      by (intro exI [of _ "[Kept tail]"]) (cases v; auto simp: ledger_flush_def ledger_classify_def marker_flush_def Let_def)
  qed
qed

lemma ledger_sanitize_pieces:
  "\<exists>ps. ledger_sanitize sha clock v live = (sanitize_model_text v, record_times (claims ps) (record_reserved_block sha clock) live)
     \<and> (case v of PStr s \<Rightarrow> s = concat (map piece_in ps) \<and> sanitize_model_text v = PStr (concat (map piece_out ps)) | _ \<Rightarrow> ps = [])
     \<and> list_all claim_ok ps"
proof (cases v)
  case (PStr s)
  obtain out carry where scan: "scan_markers s = (out, carry)" by fastforce
  obtain ps where ps: "ledger_scan sha clock s live = (concat (map piece_out ps), carry, record_times (claims ps) (record_reserved_block sha clock) live)"
    "out = concat (map piece_out ps)" "s = concat (map piece_in ps) @ carry" "list_all claim_ok ps"
    using ledger_scan_pieces [of sha clock s live] scan by auto
  obtain qs where qs: "ledger_flush sha clock carry (record_times (claims ps) (record_reserved_block sha clock) live)
      = (concat (map piece_out qs), record_times (claims qs) (record_reserved_block sha clock) (record_times (claims ps) (record_reserved_block sha clock) live))"
    "fst (marker_flush \<lparr>mf_carry = carry\<rparr>) = concat (map piece_out qs)" "carry = concat (map piece_in qs)" "list_all claim_ok qs"
    using ledger_flush_pieces by blast
  have "sanitize_model_text v = PStr (concat (map piece_out (ps @ qs)))"
    using scan ps(2) qs(2) by (simp add: sanitize_model_text_def PStr sanitize_text_def marker_feed_def new_marker_filter_def)
  then show ?thesis using ps qs
    by (intro exI [of _ "ps @ qs"]) (simp add: ledger_sanitize_def PStr record_times_add)
qed (auto simp: ledger_sanitize_def sanitize_model_text_def intro: exI [of _ "[]"])

text \<open>A ledger that is live and well.\<close>

definition live_ok :: "(string \<Rightarrow> string) \<Rightarrow> ledger_disk \<Rightarrow> authority_record list \<Rightarrow> record_request list \<Rightarrow> live_ledger \<Rightarrow> bool" where
  "live_ok sha dk log rqs live \<longleftrightarrow> (\<exists>l rs. live = (Some l, rs) \<and> ledger_reachable sha (l, dk, log @ rs) \<and> \<not> al_frozen l \<and> map ar_request rs = rqs)"

lemma record_live_ok:
  assumes "live_ok sha dk log rqs live" and "\<And>b. digest_shape (sha b)"
  shows "live_ok sha dk log (rqs @ [rq]) (record_live sha clock (Inr rq) live)"
proof -
  obtain l rs where l: "live = (Some l, rs)" "ledger_reachable sha (l, dk, log @ rs)" "\<not> al_frozen l" "map ar_request rs = rqs"
    using assms(1) unfolding live_ok_def by blast
  let ?now = "clock (lh_sequence (al_head l) + 1)"
  obtain l' r where a: "advance sha ?now rq l = (l', Inr r)"
    using advance_ready [OF l(3) reachable_head_valid [OF l(2) assms(2)]] by blast
  then have s: "safe_record sha ?now (Inr rq) l = (l', Some r)" by (simp add: safe_record_def)
  have "ar_request r = rq" using advance_Inr(3) [OF a] by (simp add: next_record_def Let_def)
  moreover have "\<not> al_frozen l'" using advance_authority(6) [OF a] advance_authority [OF a] l(3) by simp
  moreover have "ledger_reachable sha (l', dk, log @ rs @ [r])" using reach_step [OF l(2) step_record [OF s]] by simp
  ultimately show ?thesis using l(1,4) s by (simp add: live_ok_def record_live_def)
qed

lemma record_times_ok:
  assumes "live_ok sha dk log rqs live" and "\<And>b. digest_shape (sha b)"
  shows "live_ok sha dk log (rqs @ replicate n reserved_namespace_request) (record_times n (record_reserved_block sha clock) live)"
  using assms(1)
proof (induction n arbitrary: rqs live)
  case (Suc n)
  then show ?case using record_live_ok [OF Suc.prems assms(2), where clock = clock and rq = reserved_namespace_request]
    by (fastforce simp: record_reserved_block_def)
qed simp

lemma canary_request_valid:
  assumes "list_all canary_id_char (cm_id m)" and "length (cm_id m) \<in> {1..128}"
  shows "\<exists>rq. canary_match_request (cm_id m) (tier_value (cm_tier m)) = Inr rq
     \<and> rq_payload rq = [(''canary_id'', PStr (cm_id m)), (''tier'', PStr (tier_value (cm_tier m)))]"
proof -
  have "safe_canary_id (cm_id m)" using assms by (auto simp: safe_canary_id_def canary_id_char_def [abs_def])
  moreover have "tier_value (cm_tier m) \<in> set CANARY_TIERS" by (cases "cm_tier m") (simp_all add: tier_value_def CANARY_TIERS_def)
  ultimately show ?thesis by (simp add: canary_match_request_def)
qed

text \<open>The text of a result that the filter goes through.\<close>

definition filtered_text :: "pyval \<Rightarrow> string" where
  "filtered_text v = (case v of PStr s \<Rightarrow> s | _ \<Rightarrow> [])"

text \<open>C32. The ledger's hooks change nothing of what a guarded run returns, and on a ledger that is not frozen they leave exactly one record for
  the canary that interrupts the run, or one for each claim to the evidence namespace that was replaced in its texts: the
  texts fall into pieces that are kept and pieces that the filter's verdict blocks, and each of the latter has its record.\<close>

theorem run_blocks_recorded:
  assumes "ledger_reachable sha (l, dk, log)" and "\<not> al_frozen l" and "\<And>b. digest_shape (sha b)"
    and "\<And>m. find_in_nonstream_result cs result = Some m \<Longrightarrow> list_all canary_id_char (cm_id m) \<and> length (cm_id m) \<in> {1..128}"
  shows "\<exists>l' rs. ledger_run sha clock cs result l = (guarded_run cs result, Some l', rs) \<and> ledger_reachable sha (l', dk, log @ rs) \<and> \<not> al_frozen l'
     \<and> (case guarded_run cs result of
          Inl m \<Rightarrow> \<exists>rq. canary_match_request (cm_id m) (tier_value (cm_tier m)) = Inr rq \<and> map ar_request rs = [rq]
        | Inr r \<Rightarrow> \<exists>ps qs. filtered_text (mr_content result) = concat (map piece_in ps)
            \<and> filtered_text (mr_content r) = concat (map piece_out ps)
            \<and> filtered_text (mr_reasoning_content result) = concat (map piece_in qs)
            \<and> filtered_text (mr_reasoning_content r) = concat (map piece_out qs)
            \<and> list_all claim_ok (ps @ qs)
            \<and> map ar_request rs = replicate (claims ps + claims qs) reserved_namespace_request)"
proof -
  have start: "live_ok sha dk log [] (Some l, [])" using assms(1,2) by (simp add: live_ok_def)
  show ?thesis
  proof (cases "find_in_nonstream_result cs result")
    case (Some m)
    obtain rq where rq: "canary_match_request (cm_id m) (tier_value (cm_tier m)) = Inr rq" using canary_request_valid assms(4) [OF Some] by blast
    have "live_ok sha dk log [rq] (record_canary_failsoft sha clock m (Some l, []))"
      using record_live_ok [OF start assms(3), where clock = clock and rq = rq] by (simp add: record_canary_failsoft_def rq)
    then show ?thesis using rq by (auto simp: live_ok_def ledger_run_def guarded_run_def Some)
  next
    case None
    define go where "go = (\<lambda>v live. if v \<noteq> PNone then ledger_sanitize sha clock v live else (PNone, live))"
    have go: "\<exists>ps. go v live = (if v \<noteq> PNone then sanitize_model_text v else PNone, record_times (claims ps) (record_reserved_block sha clock) live)
        \<and> filtered_text v = concat (map piece_in ps) \<and> filtered_text (if v \<noteq> PNone then sanitize_model_text v else PNone) = concat (map piece_out ps)
        \<and> list_all claim_ok ps" for v live
      using ledger_sanitize_pieces [of sha clock v live]
      by (cases v) (auto simp: go_def filtered_text_def sanitize_model_text_def intro: exI [of _ "[]"])
    obtain ps where ps: "go (mr_content result) (Some l, [])
        = (if mr_content result \<noteq> PNone then sanitize_model_text (mr_content result) else PNone, record_times (claims ps) (record_reserved_block sha clock) (Some l, []))"
      "filtered_text (mr_content result) = concat (map piece_in ps)"
      "filtered_text (if mr_content result \<noteq> PNone then sanitize_model_text (mr_content result) else PNone) = concat (map piece_out ps)"
      "list_all claim_ok ps"
      using go by metis
    let ?live1 = "record_times (claims ps) (record_reserved_block sha clock) (Some l, [])"
    obtain qs where qs: "go (mr_reasoning_content result) ?live1
        = (if mr_reasoning_content result \<noteq> PNone then sanitize_model_text (mr_reasoning_content result) else PNone, record_times (claims qs) (record_reserved_block sha clock) ?live1)"
      "filtered_text (mr_reasoning_content result) = concat (map piece_in qs)"
      "filtered_text (if mr_reasoning_content result \<noteq> PNone then sanitize_model_text (mr_reasoning_content result) else PNone) = concat (map piece_out qs)"
      "list_all claim_ok qs"
      using go by metis
    let ?live2 = "record_times (claims qs) (record_reserved_block sha clock) ?live1"
    have "live_ok sha dk log (replicate (claims ps + claims qs) reserved_namespace_request) ?live2"
      using record_times_ok [OF start assms(3), of "claims ps + claims qs" clock] by (simp add: record_times_add)
    then obtain l' rs where l': "?live2 = (Some l', rs)" "ledger_reachable sha (l', dk, log @ rs)" "\<not> al_frozen l'"
      "map ar_request rs = replicate (claims ps + claims qs) reserved_namespace_request" unfolding live_ok_def by blast
    have g: "guarded_run cs result = Inr (result
        \<lparr>mr_content := (if mr_content result \<noteq> PNone then sanitize_model_text (mr_content result) else PNone),
         mr_reasoning_content := (if mr_reasoning_content result \<noteq> PNone then sanitize_model_text (mr_reasoning_content result) else PNone)\<rparr>)"
      by (simp add: guarded_run_def None Let_def)
    have "ledger_run sha clock cs result l = (guarded_run cs result, ?live2)"
      unfolding g ledger_run_def None option.case using ps(1) qs(1) unfolding go_def by simp
    then show ?thesis using l' ps(2-4) qs(2-4) unfolding g by (auto simp del: claim_ok_simps(2))
  qed
qed

lemma no_claims_same: "claims ps = 0 \<Longrightarrow> map piece_out ps = map piece_in ps"
proof (induction ps)
  case (Cons p ps)
  then show ?case by (cases p) auto
qed simp

definition example_result :: model_result where
  "example_result = \<lparr>mr_content = PStr ''<jack_tool_evidence_receipt>'', mr_reasoning_content = PNone, mr_reasoning = PNone,
     mr_thinking = PNone, mr_tool_calls = PNone\<rparr>"

definition no_canaries :: canary_set where
  "no_canaries = \<lparr>cs_patterns = [], cs_max_window = 1, cs_required_window = 1\<rparr>"

theorem run_blocks_recorded_witness:
  "\<exists>l' r rs. ledger_run zero_sha (\<lambda>_. ''now'') no_canaries example_result example_ledger
       = (Inr (example_result\<lparr>mr_content := PStr BLOCKED_MARKER\<rparr>), Some l', r # rs) \<and> ar_request r = reserved_namespace_request"
proof -
  have none: "find_in_nonstream_result no_canaries example_result = None"
    by (simp add: find_in_nonstream_result_def no_canaries_def canary_count_def)
  have s: "sanitize_text ''<jack_tool_evidence_receipt>'' = BLOCKED_MARKER" by code_simp
  then have g: "guarded_run no_canaries example_result = Inr (example_result\<lparr>mr_content := PStr BLOCKED_MARKER\<rparr>)"
    by (simp add: guarded_run_def none Let_def) (simp add: example_result_def sanitize_model_text_def)
  obtain l' rs ps qs where r: "ledger_run zero_sha (\<lambda>_. ''now'') no_canaries example_result example_ledger
      = (Inr (example_result\<lparr>mr_content := PStr BLOCKED_MARKER\<rparr>), Some l', rs)"
    "filtered_text (mr_content example_result) = concat (map piece_in ps)" "BLOCKED_MARKER = concat (map piece_out ps)"
    "map ar_request rs = replicate (claims ps + claims qs) reserved_namespace_request"
    using run_blocks_recorded [OF example_reachable example_unfrozen zero_sha_shape, of no_canaries example_result "\<lambda>_. ''now''"] none
    unfolding g by (auto simp: filtered_text_def)
  have "concat (map piece_in ps) \<noteq> concat (map piece_out ps)"
    unfolding r(2,3) [symmetric] by (simp add: filtered_text_def example_result_def BLOCKED_MARKER_def)
  then have "claims ps \<noteq> 0" using no_claims_same by metis
  then obtain r' rs' where "rs = r' # rs'" using r(4) by (cases rs) auto
  moreover then have "ar_request r' = reserved_namespace_request" using r(4) by (cases "claims ps + claims qs") auto
  ultimately show ?thesis using r(1) by blast
qed

section \<open>Installing twice\<close>

text \<open>An installed ledger is handed out again, and the host is left as it is; a first installation that succeeds hooks both
  seams and the filter.\<close>

lemma install_release_hooks_done:
  "install_release_hooks inst h = (h', Inr u) \<Longrightarrow> lg_filter_hooked h' \<and> (\<forall>s \<in> {lg_run h', lg_stream h'}. \<exists>i. s = SeamLedger i)"
  by (auto simp: install_release_hooks_def Let_def seam_hooked_def split: if_splits release_seam.splits)

lemma install_ledger_done:
  assumes "install_ledger sha env inst h = (h', Inr l)"
  shows "lg_installed h' \<and> lg_ledger h' = Some l"
    and "\<not> lg_installed h \<Longrightarrow> lg_filter_hooked h' \<and> (\<forall>s \<in> {lg_run h', lg_stream h'}. \<exists>i. s = SeamLedger i)"
proof -
  have "lg_installed h' \<and> lg_ledger h' = Some l \<and> (\<not> lg_installed h \<longrightarrow> lg_filter_hooked h' \<and> (\<forall>s \<in> {lg_run h', lg_stream h'}. \<exists>i. s = SeamLedger i))"
  proof (cases "lg_installed h")
    case True
    then show ?thesis using assms by (cases "lg_ledger h") (auto simp: install_ledger_def Let_def)
  next
    case False
    then obtain h1 u where h1: "install_release_hooks inst h = (h1, Inr u)" "h' = h1\<lparr>lg_ledger := Some l, lg_installed := True\<rparr>"
      using assms unfolding install_ledger_def Let_def by (simp split: if_split_asm sum.split_asm prod.split_asm)
    then show ?thesis using install_release_hooks_done [OF h1(1)] by simp
  qed
  then show "lg_installed h' \<and> lg_ledger h' = Some l"
    and "\<not> lg_installed h \<Longrightarrow> lg_filter_hooked h' \<and> (\<forall>s \<in> {lg_run h', lg_stream h'}. \<exists>i. s = SeamLedger i)" by auto
qed

lemma install_ledger_again: "install_ledger sha env inst h = (h', Inr l) \<Longrightarrow> install_ledger sha env' inst' h' = (h', Inr l)"
  by (drule install_ledger_done(1)) (simp add: install_ledger_def)

end
