(* ===== verification/Spec2Isabelle.thy ===== *)
theory Spec2Isabelle
  imports LoopDetector PathProperties ConsequenceGate LedgerProjection StreamGuarantee EvidenceProvenance SourceProperties ReleaseProperties PendingProperties CredentialProperties DiagnosticProperties EventHubProperties Phase7Properties DeepProperties DeepBridge ResponsesProperties LedgerHooks
begin

text \<open>
  The security core of Jack Kernel, modelled from its Python sources (\<open>src/*.py\<close>).

  Jack Kernel sits between a local model and the tools an agent may run. These parts decide what
  happens, and are modelled here with every branch of their code:

  \<^item> The model's output is watched while it streams. \<open>jack_loop_detector.py\<close> stops a generation
    whose native reasoning repeats itself (LoopDetector). \<open>jack_evidence_guard.py\<close> passes every
    text channel of a stream through a canary detector, a filter for the kernel's reserved
    evidence tag, and a bounded quarantine (StreamFilter, EvidenceMarker, EvidenceCanary,
    CanaryProperties), over whole server-sent events, with the hard interrupt and the flush
    (GuardedStream), and installs itself around the kernel's functions (EvidenceProvenance).
    GuardedChannels, ChannelSafety, StreamSafety and StreamGuarantee follow one text channel
    through all of it, end to end.
  \<^item> A path named by a tool call is normalised and judged by \<open>jack_path_policy.py\<close>: the functions
    of Python's \<open>ntpath\<close> that it calls (NtPath), environment expansion and Win32 prefixes
    (PathNormalize), containment (PathContainment), the runtime policy, its raw facts and the
    Phase-4 decision (PathPolicy, PathProperties). The same module reads tool calls: the exact
    contracts of structured tools and what it resolves in a shell text (CommandText), the tokens
    of \<open>shlex\<close> (ShellLex), Bash and PowerShell commands and the commands inside them
    (CommandSegments), the extraction of represented paths (CommandExtraction), the read
    exemption, the authorisation of command and structured calls and their rewriting for release
    (CommandAuthority, CommandProperties).
  \<^item> \<open>jack_credential_resource_guard.py\<close> adds a fact about the host's own credential files
    (ResourceGuard), and \<open>jack_consequence_gate.py\<close> combines all facts into one verdict with a
    containment scope, and governs the executor admission (ConsequenceGate).
  \<^item> \<open>jack_authority_ledger.py\<close> chains what the gate decided by SHA-256 in memory and projects it
    to disk through a bounded queue (AuthorityLedger, LedgerChain, LedgerProjection), over the
    canonical JSON bytes of a record (JsonText). Its hooks in the marker filter and around the
    kernel's run and stream record what the evidence guard withholds (LedgerHooks).
  \<^item> \<open>jack_kernel.py\<close> partitions a stage's tool calls by that policy before it releases them and
    answers an executor that asks before it runs one (ToolRelease, ReleaseProperties); a stage that
    released calls is checkpointed under their ids until the caller's results take it up again
    (PendingTools, PendingProperties). Its event hub numbers the control bridge's events, keeps
    the last ones for clients that reconnect and hands them to bounded queues (EventHub,
    EventHubProperties).
  \<^item> \<open>jack_credential_guard.py\<close> snapshots the host's credentials and searches them in what is
    dispatched to a model (CredentialGuard), in what the orchestration proxy and the event hub
    release, also across the pieces of a stream (CredentialRelease, CredentialProperties).
    \<open>jack_diagnostic_guard.py\<close> searches them in errors: HTTP answers, exceptions that end a stream,
    log records, the hub's retained error (DiagnosticGuard, DiagnosticProperties).
    \<open>jack_phase7_ledger.py\<close> hooks itself behind all of them and appends what they withheld to the
    ledger's chain (Phase7Ledger, Phase7Properties).
  \<^item> A deep-reasoning turn runs three stages, Thesis, Antithesis and Synthesis, each with its own
    messages. \<open>jack_deep_reasoning_context.py\<close> projects them (DeepContext),
    \<open>jack_deep_reasoning_orchestrator.py\<close> is the stage machine with its tool continuations, evidence
    and rollback (DeepReasoning, DeepProperties), and \<open>jack_deep_reasoning_bridge.py\<close> leases the
    native reasoning of a completed turn to the next one (DeepBridge).
  \<^item> \<open>jack_responses_compat.py\<close> serves the Responses interface on top of the kernel's chat one: the
    conversion of requests, histories and tools, with the kernel's filter of what a caller may ask
    (\<open>sanitize_agent_request\<close>), in ResponsesCompat; the streaming generator, as the sequence of its
    actions, and the plain answer in ResponsesStream and ResponsesProperties.
  \<^item> \<open>jack_source_drift_guard.py\<close> measures the files the kernel was loaded from, seals them, and
    measures them again at every authority boundary (SourceDrift); its wrappers put a boundary
    before what the kernel releases and admit every chunk of a stream (SourceEnforcement,
    SourceProperties).

  Prelude and PyValue hold the Python string, list and JSON-value operations all parts share.

  How state and operations correspond to the code. A class is a record with one field per
  attribute, a method a definition from the record (and arguments) to its result and the new
  record; module globals are explicit arguments. A raise is \<open>Inl\<close> of the component's error
  datatype, \<open>None\<close> where the caller only asks whether it raised. Locales state the interfaces:
  \<open>chunk_stream\<close>, \<open>lossless_stream\<close> and \<open>stream_pipe\<close> (what a stage of the stream promises the
  next), \<open>containment\<close> (what the policy needs of the containment test) and \<open>hash_chain\<close> (what a
  record's hashed content determines); each is interpreted on the code's own definitions. The
  ledger's concurrency is a step relation between the authority side and the background writer,
  with every interleaving; its invariants are proved by rule induction.

  What the lemmas show, by part. LoopDetector: the rolling fingerprint changes no answer, a
  reported cycle is a real one, and cutting the text differently changes nothing.
  PathProperties: the policy always decides, allows nothing outside the workspaces or inside a
  NEVER root, and normalising is idempotent; two kinds of configured NEVER root are shown never
  to match. ConsequenceGate and ResourceGuard: the gate implements an abstract maximum of
  severities whatever the order of facts, the governed authorisation never allows more than the
  plain one, and one alternative spelling of a protected file is shown to be missed.
  LedgerChain and LedgerProjection: the chain is unbroken in every reachable state, frozen means
  final, a chain altered under the same last digest has two of its own records collide, and the
  advertised complete prefix is on disk.
  EvidenceMarker and CanaryProperties: what is released never claims the reserved tag, never
  holds a canary, and is a prefix of the input. StreamGuarantee: a channel's text is cut where the model closes
  the channel and nowhere else, and the client receives the sanitised forms of these pieces, none with a canary. SourceProperties: a boundary is
  admitted only on sources that were measured as sealed, and a confirmed drift is final.
  CommandProperties: every operand of an allowed call, resolved from the executor's own directory,
  names an object in no NEVER root, and under a workspace lock the call is understood completely and
  these objects lie in the workspace; three kinds of spelling are shown to escape the inspection.
  ReleaseProperties: a partition releases and withholds exactly the calls judged so, each cleared in
  that sense; an admission answers for the released call, in its own runtime and lane, only; the canonical rewriting is shown to reach the executor only
  beside a denied sibling. PendingProperties: the transactions stay whole in every reachable
  store, a resumption excludes others until the transaction is retired or re-armed, accepted results
  are final; that any request can re-arm a transaction by naming one of its calls is shown too. CredentialProperties: the snapshot has every configured
  credential, no chat completion is dispatched with one in its payload, and what is streamed on a channel spells none while
  nothing is blocked; a blocked piece is shown to pass when it is sent again.
  DiagnosticProperties: on each surface an error is free of credentials or is the guard's notice,
  the walk along causes and contexts ends and visits all of them, and the installation binds every
  surface or raises. EventHubProperties: in every reachable state a client and its queue have exactly the
  events since its cursor, or since it connected where it has none or one that is ahead; behind the
  credential guard the source, data and time of what is kept for replay hold no credential; what is
  written on the wire, event after event, is read back as it was. That a cursor from before a restart is
  accepted, and that the name of an event is neither searched nor escaped, is shown too.
  Phase7Properties: recording changes no result, also on a frozen ledger, keeps the chain
  unbroken, and leaves one record for each dispatch interrupted at either seam and each notice the hub
  publishes; the installation hooks every seam or raises.
  DeepProperties compares the runs of two backends whose answers differ in native reasoning only:
  they are asked the same; over the states a turn can reach, an answer under required verification
  has evidence, a continuation is taken up once, and the evidence is cut exactly at its bounds. DeepBridge
  follows every sequence of publications, leases and claims: reasoning is used once.
  ResponsesProperties: a stream and the plain answer agree in texts, calls and usage, nothing of an
  exception reaches the client, the \<open>finally\<close> of the generator re-arms pending transactions once however
  the client leaves, a converted history keeps its texts, messages, calls and named results in order, and a caller's request keeps the allowed fields only. That a delta is
  lost at U+0085, that late reasoning is announced at the index of the message, and that an image
  object becomes its Python text, is shown too. LedgerHooks: the hooks change no result, and each
  blocked claim and each canary has its record.

  Bounds and fuel. The loops of \<open>ntpath\<close>, of the marker filter and of the searches are structural
  or have a termination proof by the remaining length. The environment expansion counts the
  eight rounds the code itself allows, and refuses as the code does when they are used up. The
  nested commands of a shell text end because a segment inside another one has fewer characters
  that are not blanks (\<open>weight\<close>); Python's own recursion limit is not modelled. The stage machine
  ends because each call of itself is in a later stage, and asks the backend at most six times.

  Not modelled, and why. A \<open>char\<close> stands for one code point below 256, so case folding and
  white space are those of CPython on that range only. Floats are literals; that
  \<open>int\<close> raises \<open>OverflowError\<close> on an infinite one is modelled where the code does not catch it
  (GuardedStream, ResponsesCompat), other arithmetic with infinities and \<open>NaN\<close> is not. \<open>json.loads\<close>, SHA-256, the word digest, clocks and host queries are arguments: they
  are not in the repository. Byte decoding of chunks, closing a generator early, logging and
  thread start-up are input and output. Of the kernel itself the HTTP service, generation, prompts
  and the reasoning modes are not modelled: how a mode prepares the history it checkpoints is its
  argument, as are fresh identifiers. Of the event hub the connection to the bridge is not, nor
  the task that runs it. The wiring of the deep-reasoning
  stages into the kernel and their usage accounting are left out. \<open>expanduser\<close>,
  \<open>resolve\<close>, \<open>stat\<close> and reading a file are answers of the host.
\<close>

end
